(* ===== verification/Prelude.thy ===== *)
theory Prelude
  imports Main "HOL-Library.Word"
begin

text \<open>
  Shared vocabulary of the development: the machine integers of the LM32 firmware
  (\<^verbatim>\<open>include/inttypes.h\<close>), the collections of rewrite rules the component
  theories fill, and generic facts on lists, linked structures and words that several
  components use.
\<close>

unbundle bit_operations_syntax

section \<open>Machine integers\<close>

type_synonym u8 = "8 word"
type_synonym u16 = "16 word"
type_synonym u32 = "32 word"
type_synonym u64 = "64 word"

text \<open>A byte address of the 32-bit address space, where no address computation wraps.\<close>

type_synonym addr = nat

named_theorems word_nat_simps \<open>reading word arithmetic in the naturals\<close>
named_theorems step_simps \<open>one-step unfolding of the loops of the code\<close>

lemma unat_add_lt [word_nat_simps]:
  fixes a b :: "'a::len word"
  assumes "unat a + unat b < 2 ^ LENGTH('a)"
  shows "unat (a + b) = unat a + unat b"
  using assms by (simp add: unat_word_ariths)

lemma unat_sub_le [word_nat_simps]:
  fixes a b :: "'a::len word"
  assumes "b \<le> a"
  shows "unat (a - b) = unat a - unat b"
  using assms by (rule unat_sub)

lemma unat_mult_lt [word_nat_simps]:
  fixes a b :: "'a::len word"
  assumes "unat a * unat b < 2 ^ LENGTH('a)"
  shows "unat (a * b) = unat a * unat b"
  using assms by (simp add: unat_word_ariths)

lemma unat_le_iff_nat: "a \<le> b \<longleftrightarrow> unat a \<le> unat b"
  for a b :: "'a::len word"
  by (simp add: word_le_nat_alt)

lemma unat_less_iff_nat: "a < b \<longleftrightarrow> unat a < unat b"
  for a b :: "'a::len word"
  by (simp add: word_less_nat_alt)

lemma unat_of_nat_small: "x < 2 ^ LENGTH('a) \<Longrightarrow> unat (of_nat x :: 'a::len word) = x"
  by (simp add: unsigned_of_nat take_bit_nat_eq_self)

lemma unat_drop_bit: "unat (drop_bit k w) = unat w div 2 ^ k" for w :: "'a::len word"
proof -
  have "unat w < 2 ^ LENGTH('a)" by (rule unsigned_less)
  then have "take_bit LENGTH('a) (unat w) = unat w" by (simp add: take_bit_nat_eq_self)
  then show ?thesis by (subst unsigned_drop_bit_eq) (simp add: drop_bit_eq_div)
qed

section \<open>Linked chains of addresses\<close>

text \<open>
  \<open>links nx xs e\<close>: following \<open>nx\<close> visits the addresses of \<open>xs\<close> in order and the last
  one points to \<open>e\<close>. A circular list is a chain that ends at its own head, a
  null-terminated list one that ends at 0.
\<close>

fun links :: "(addr \<Rightarrow> addr) \<Rightarrow> addr list \<Rightarrow> addr \<Rightarrow> bool" where
  "links nx [] e = True"
| "links nx [x] e = (nx x = e)"
| "links nx (x # y # zs) e = (nx x = y \<and> links nx (y # zs) e)"

lemma links_append:
  "links nx (xs @ y # ys) e \<longleftrightarrow> links nx xs y \<and> links nx (y # ys) e"
  by (induction nx xs y rule: links.induct) auto

lemma links_Cons:
  "links nx (x # xs) e \<longleftrightarrow> nx x = hd (xs @ [e]) \<and> links nx xs e"
  by (cases xs) auto

lemma links_upd [simp]:
  "a \<notin> set xs \<Longrightarrow> links (nx(a := v)) xs e = links nx xs e"
  by (induction nx xs e rule: links.induct) auto

lemma links_nth:
  "links nx xs e \<Longrightarrow> i < length xs \<Longrightarrow>
   nx (xs ! i) = (if Suc i < length xs then xs ! Suc i else e)"
proof (induction nx xs e arbitrary: i rule: links.induct)
  case (3 nx x y zs e)
  then show ?case by (cases i) auto
qed auto

text \<open>Replacing the part of a chain that follows \<open>p\<close>.\<close>

lemma links_insert:
  assumes "links nx (xs @ p # ys) e" and "b \<notin> set (xs @ p # ys)"
    and "distinct (xs @ p # ys)"
  shows "links (nx(b := nx p, p := b)) (xs @ p # b # ys) e"
  using assms by (auto simp: links_append links_Cons)

lemma links_remove:
  assumes "links nx (xs @ p # q # ys) e" and "distinct (xs @ p # q # ys)"
  shows "links (nx(p := nx q)) (xs @ p # ys) e"
  using assms by (auto simp: links_append links_Cons)

text \<open>\<open>path nx p xs\<close>: the null-terminated list behind the pointer \<open>p\<close> has the elements \<open>xs\<close>.\<close>

fun path :: "(addr \<Rightarrow> addr) \<Rightarrow> addr \<Rightarrow> addr list \<Rightarrow> bool" where
  "path nx p [] \<longleftrightarrow> p = 0"
| "path nx p (a # as) \<longleftrightarrow> p = a \<and> a \<noteq> 0 \<and> path nx (nx a) as"

lemma path_upd [simp]: "a \<notin> set as \<Longrightarrow> path (nx(a := v)) p as = path nx p as"
  by (induction as arbitrary: p) auto

lemma path_cong: "(\<And>a. a \<in> set as \<Longrightarrow> nx' a = nx a) \<Longrightarrow> path nx' p as = path nx p as"
  by (induction as arbitrary: p) auto

end
