(* ===== verification/Blocks.thy ===== *)
theory Blocks
  imports Prelude
begin

text \<open>
  Ranges of addresses cut into blocks: what splitting, merging, extending and walking such a
  range preserves. The memory manager instantiates it with its headers.
\<close>

section \<open>Blocks of an address range\<close>

text \<open>
  \<open>blocks lo hi sz B\<close>: the blocks that start at the addresses of \<open>B\<close>, of \<open>sz b\<close> bytes
  each, are pairwise disjoint and together fill the range from \<open>lo\<close> to \<open>hi\<close>.
\<close>

definition blocks :: "addr \<Rightarrow> addr \<Rightarrow> (addr \<Rightarrow> nat) \<Rightarrow> addr set \<Rightarrow> bool" where
  "blocks lo hi sz B \<longleftrightarrow>
     finite B \<and> lo \<le> hi \<and> (\<forall>b\<in>B. lo \<le> b \<and> b + sz b \<le> hi \<and> 0 < sz b) \<and>
     (\<forall>b\<in>B. \<forall>c\<in>B. b < c \<longrightarrow> b + sz b \<le> c) \<and> (\<Sum>b\<in>B. sz b) = hi - lo"

lemma sum_upd_notin: "b \<notin> B \<Longrightarrow> (\<Sum>x\<in>B. (f(b := v)) x) = (\<Sum>x\<in>B. f x)"
  for f :: "'a \<Rightarrow> nat"
  by (rule sum.cong) auto

lemma sum_upd_in:
  "finite B \<Longrightarrow> b \<in> B \<Longrightarrow> (\<Sum>x\<in>B. (f(b := v)) x) = v + (\<Sum>x\<in>B - {b}. f x)"
  for f :: "'a \<Rightarrow> nat"
  by (simp add: sum.remove[of B b "f(b := v)"] sum_upd_notin del: fun_upd_apply) simp

lemma blocksD:
  assumes "blocks lo hi sz B"
  shows "finite B" "lo \<le> hi" "(\<Sum>b\<in>B. sz b) = hi - lo"
    and "b \<in> B \<Longrightarrow> lo \<le> b" "b \<in> B \<Longrightarrow> b + sz b \<le> hi" "b \<in> B \<Longrightarrow> 0 < sz b"
    and "b \<in> B \<Longrightarrow> c \<in> B \<Longrightarrow> b < c \<Longrightarrow> b + sz b \<le> c"
  using assms by (simp_all add: blocks_def)

lemma blocksI:
  assumes "finite B" "lo \<le> hi" "(\<Sum>b\<in>B. sz b) = hi - lo"
    and "\<And>b. b \<in> B \<Longrightarrow> lo \<le> b" "\<And>b. b \<in> B \<Longrightarrow> b + sz b \<le> hi" "\<And>b. b \<in> B \<Longrightarrow> 0 < sz b"
    and "\<And>b c. b \<in> B \<Longrightarrow> c \<in> B \<Longrightarrow> b < c \<Longrightarrow> b + sz b \<le> c"
  shows "blocks lo hi sz B"
  using assms by (simp add: blocks_def)

lemma blocks_cong:
  "blocks lo hi sz B \<Longrightarrow> (\<And>b. b \<in> B \<Longrightarrow> sz' b = sz b) \<Longrightarrow> blocks lo hi sz' B"
  by (simp add: blocks_def)

lemma blocks_merge:
  assumes "blocks lo hi sz B" "b \<in> B" "c \<in> B" "b + sz b = c"
  shows "blocks lo hi (sz(b := sz b + sz c)) (B - {c})"
proof (rule blocksI)
  note D = blocksD[OF assms(1)]
  have ne: "b \<noteq> c" using D(6)[OF assms(2)] assms(4) by simp
  have "(\<Sum>x\<in>B - {c}. (sz(b := sz b + sz c)) x) = sz b + sz c + (\<Sum>x\<in>B - {c} - {b}. sz x)"
    using assms(2) ne D(1) by (intro sum_upd_in) auto
  also have "\<dots> = sz c + (\<Sum>x\<in>B - {c}. sz x)"
    using assms(2) ne D(1) by (subst (2) sum.remove[of _ b]) auto
  also have "\<dots> = (\<Sum>x\<in>B. sz x)"
    using assms(3) D(1) by (subst (2) sum.remove[of _ c]) auto
  finally show "(\<Sum>x\<in>B - {c}. (sz(b := sz b + sz c)) x) = hi - lo"
    using D(3) by simp
next
  note D = blocksD[OF assms(1)]
  fix x y assume x: "x \<in> B - {c}" and y: "y \<in> B - {c}" and "x < y"
  then have xy: "x + sz x \<le> y" using D(7)[of x y] by simp
  show "x + (sz(b := sz b + sz c)) x \<le> y"
  proof (cases "x = b")
    case True
    then have "c < y" using xy y assms(4) by simp
    then have "c + sz c \<le> y" using D(7)[of c y] assms(3) y by simp
    then show ?thesis using True assms(4) by simp
  next
    case False then show ?thesis using xy by simp
  qed
next
  note D = blocksD[OF assms(1)]
  fix x assume "x \<in> B - {c}"
  then show "x + (sz(b := sz b + sz c)) x \<le> hi"
    using D(5)[of x] D(5)[OF assms(3)] assms(4) by auto
qed (use blocksD[OF assms(1)] assms in auto)

lemma blocks_split_notin:
  assumes "blocks lo hi sz B" "b \<in> B" "0 < k" "k < sz b"
  shows "b + (sz b - k) \<notin> B"
proof
  assume "b + (sz b - k) \<in> B"
  then have "b + sz b \<le> b + (sz b - k)"
    by (rule blocksD(7)[OF assms(1,2)]) (use assms(4) in arith)
  then show False using assms(3,4) by arith
qed

lemma blocks_split:
  assumes "blocks lo hi sz B" "b \<in> B" "0 < k" "k < sz b" and c: "c = b + (sz b - k)"
  shows "blocks lo hi (sz(b := sz b - k, c := k)) (insert c B)"
proof (rule blocksI)
  note D = blocksD[OF assms(1)]
  have notin: "c \<notin> B" using blocks_split_notin[OF assms(1-4)] c by simp
  have "(\<Sum>x\<in>insert c B. (sz(b := sz b - k, c := k)) x) = k + (\<Sum>x\<in>B. (sz(b := sz b - k)) x)"
    using D(1) notin by (subst sum_upd_in) auto
  also have "\<dots> = k + (sz b - k) + (\<Sum>x\<in>B - {b}. sz x)"
    using sum_upd_in[OF D(1) assms(2), of sz "sz b - k"] by simp
  also have "\<dots> = (\<Sum>x\<in>B. sz x)"
    using assms(2,4) D(1) by (subst (2) sum.remove[of _ b]) auto
  finally show "(\<Sum>x\<in>insert c B. (sz(b := sz b - k, c := k)) x) = hi - lo"
    using D(3) by simp
next
  note D = blocksD[OF assms(1)]
  have notin: "c \<notin> B" using blocks_split_notin[OF assms(1-4)] c by simp
  have bc: "b < c" "b + sz b = c + k" using assms by auto
  fix x y assume x: "x \<in> insert c B" and y: "y \<in> insert c B" and "x < y"
  show "x + (sz(b := sz b - k, c := k)) x \<le> y"
  proof (cases "x = c")
    case True
    then have "b + sz b \<le> y" using D(7)[OF assms(2), of y] y \<open>x < y\<close> bc by auto
    then show ?thesis using True bc by simp
  next
    case False
    then have xB: "x \<in> B" using x by simp
    show ?thesis
    proof (cases "y = c")
      case True
      show ?thesis
      proof (cases "x = b")
        case True
        then have "x + (sz b - k) \<le> y" using \<open>y = c\<close> c by simp
        then show ?thesis using True False by simp
      next
        case xb: False
        have "\<not> b < x"
          using D(7)[OF assms(2) xB] bc True \<open>x < y\<close> assms(3) by auto
        then have "x + sz x \<le> b" using D(7)[OF xB assms(2)] xb by simp
        then show ?thesis using False xb True bc by simp
      qed
    next
      case yc: False
      then show ?thesis using D(7)[OF xB, of y] y \<open>x < y\<close> False by auto
    qed
  qed
next
  note D = blocksD[OF assms(1)]
  fix x assume "x \<in> insert c B"
  then show "x + (sz(b := sz b - k, c := k)) x \<le> hi" "lo \<le> x" "0 < (sz(b := sz b - k, c := k)) x"
    using D(4)[of x] D(5)[of x] D(4,5)[OF assms(2)] D(6)[of x] c assms(3,4) by auto
qed (use blocksD[OF assms(1)] in auto)

lemma blocks_extend:
  assumes "blocks lo hi sz B" "0 < k"
  shows "blocks lo (hi + k) (sz(hi := k)) (insert hi B)" and "hi \<notin> B"
proof -
  note D = blocksD[OF assms(1)]
  show notin: "hi \<notin> B" using D(5)[of hi] D(6)[of hi] by auto
  show "blocks lo (hi + k) (sz(hi := k)) (insert hi B)"
  proof (rule blocksI)
    show "(\<Sum>x\<in>insert hi B. (sz(hi := k)) x) = hi + k - lo"
      using D(1-3) notin by (subst sum_upd_in) auto
  next
    fix x y assume x: "x \<in> insert hi B" and y: "y \<in> insert hi B" and "x < y"
    then have "x \<in> B" using D(4-6)[of y] D(5)[of y] by fastforce
    then show "x + (sz(hi := k)) x \<le> y"
      using D(7)[of x y] D(5)[of x] y \<open>x < y\<close> notin by auto
  next
    fix x assume "x \<in> insert hi B"
    then show "lo \<le> x" "x + (sz(hi := k)) x \<le> hi + k" "0 < (sz(hi := k)) x"
      using D(2) D(4)[of x] D(5)[of x] D(6)[of x] assms(2) by auto
  qed (use D in auto)
qed

subsection \<open>Coverage of the range\<close>

lemma blocks_cover:
  assumes bl: "blocks lo hi sz B"
  shows "(\<Union>b\<in>B. {b..<b + sz b}) = {lo..<hi}"
proof (rule card_subset_eq)
  note D = blocksD[OF bl]
  show "finite {lo..<hi}" by simp
  show "(\<Union>b\<in>B. {b..<b + sz b}) \<subseteq> {lo..<hi}"
    using D(4,5) by (fastforce dest: order_trans less_le_trans)
  have "card (\<Union>b\<in>B. {b..<b + sz b}) = (\<Sum>b\<in>B. card {b..<b + sz b})"
  proof (rule card_UN_disjoint)
    show "\<forall>b\<in>B. \<forall>c\<in>B. b \<noteq> c \<longrightarrow> {b..<b + sz b} \<inter> {c..<c + sz c} = {}"
    proof (intro ballI impI)
      fix b c assume "b \<in> B" "c \<in> B" "b \<noteq> c"
      then have "b + sz b \<le> c \<or> c + sz c \<le> b" using D(7)[of b c] D(7)[of c b] by linarith
      then show "{b..<b + sz b} \<inter> {c..<c + sz c} = {}" by auto
    qed
  qed (use D(1) in auto)
  then show "card (\<Union>b\<in>B. {b..<b + sz b}) = card {lo..<hi}" using D(3) by simp
qed

text \<open>Where one block ends, the next one begins.\<close>

lemma blocks_successor:
  assumes bl: "blocks lo hi sz B" and b: "b \<in> B" and lt: "b + sz b < hi"
  shows "b + sz b \<in> B"
proof -
  note D = blocksD[OF bl]
  have "b + sz b \<in> (\<Union>b\<in>B. {b..<b + sz b})"
    using blocks_cover[OF bl] D(4)[OF b] lt by simp
  then obtain c where c: "c \<in> B" "c \<le> b + sz b" "b + sz b < c + sz c" by auto
  have "\<not> c < b" using D(7)[OF c(1) b] D(6)[OF b] c(3) by linarith
  moreover have "c \<noteq> b" using c(3) by auto
  ultimately have "b + sz b \<le> c" using D(7)[OF b c(1)] by linarith
  then show ?thesis using c by simp
qed

lemma blocks_first:
  assumes bl: "blocks lo hi sz B" and "lo < hi"
  shows "lo \<in> B"
proof -
  have "lo \<in> (\<Union>b\<in>B. {b..<b + sz b})" using blocks_cover[OF bl] assms(2) by simp
  then obtain c where "c \<in> B" "c \<le> lo" by auto
  then show ?thesis using blocksD(4)[OF bl, of c] by simp
qed

end
