(* ===== verification/Memmgr.thy ===== *)
theory Memmgr
  imports Blocks
begin

text \<open>
  The statically allocated memory manager of the firmware,
  \<^verbatim>\<open>lib/memmgr/memmgr.c\<close>: a first-fit allocator in the style of Kernighan and Ritchie
  over a pool of \<^verbatim>\<open>POOL_SIZE\<close> bytes. Headers are quanta of 8 bytes
  (\<^verbatim>\<open>sizeof(mem_header_t)\<close> on the 32-bit LM32); the free list is circular and starts at
  the static header \<^verbatim>\<open>base\<close>.
\<close>

section \<open>State\<close>

text \<open>Where the linker puts the two static objects the code takes the address of.\<close>

record mem_layout =
  base_addr :: addr
  pool_addr :: addr

text \<open>
  \<open>hnext\<close> and \<open>hsize\<close> are the two fields of the header stored at an address
  (\<^verbatim>\<open>union mem_header_union\<close>), \<open>freep\<close> the start of the free list (0 is the null pointer)
  and \<open>pool_free_pos\<close> the first byte of the pool not yet handed out.
\<close>

record memmgr =
  hnext :: "addr \<Rightarrow> addr"
  hsize :: "addr \<Rightarrow> u32"
  freep :: addr
  pool_free_pos :: u32

definition POOL_SIZE :: u32 where
  "POOL_SIZE = 2048"

definition MIN_POOL_ALLOC_QUANTAS :: u32 where
  "MIN_POOL_ALLOC_QUANTAS = 2"

definition sizeof_mem_header :: nat where
  "sizeof_mem_header = 8"

text \<open>Pointer arithmetic on headers: \<^verbatim>\<open>p + n\<close> advances by \<open>n\<close> quanta and wraps at 32 bits.\<close>

definition header_add :: "addr \<Rightarrow> u32 \<Rightarrow> addr" where
  "header_add p n = (p + sizeof_mem_header * unat n) mod 2 ^ 32"

section \<open>Operations\<close>

definition memmgr_init :: "mem_layout \<Rightarrow> memmgr \<Rightarrow> memmgr" where
  "memmgr_init L s =
     s\<lparr>hnext := (hnext s)(base_addr L := 0), hsize := (hsize s)(base_addr L := 0),
       freep := 0, pool_free_pos := 0\<rparr>"

text \<open>
  The search loop of \<^verbatim>\<open>memmgr_free\<close>. It follows the list until the block lies between a
  header and its successor, or at the link where the addresses wrap around.
\<close>

partial_function (option) free_search :: "(addr \<Rightarrow> addr) \<Rightarrow> addr \<Rightarrow> addr \<Rightarrow> addr option" where
  "free_search nx block p =
     (if p < block \<and> block < nx p then Some p
      else if nx p \<le> p \<and> (p < block \<or> block < nx p) then Some p
      else free_search nx block (nx p))"

definition combine_higher :: "addr \<Rightarrow> addr \<Rightarrow> memmgr \<Rightarrow> memmgr" where
  "combine_higher block p s =
     (if header_add block (hsize s block) = hnext s p
      then s\<lparr>hsize := (hsize s)(block := hsize s block + hsize s (hnext s p)),
             hnext := (hnext s)(block := hnext s (hnext s p))\<rparr>
      else s\<lparr>hnext := (hnext s)(block := hnext s p)\<rparr>)"

definition combine_lower :: "addr \<Rightarrow> addr \<Rightarrow> memmgr \<Rightarrow> memmgr" where
  "combine_lower block p s =
     (if header_add p (hsize s p) = block
      then s\<lparr>hsize := (hsize s)(p := hsize s p + hsize s block),
             hnext := (hnext s)(p := hnext s block)\<rparr>
      else s\<lparr>hnext := (hnext s)(p := block)\<rparr>)"

definition memmgr_free :: "addr \<Rightarrow> memmgr \<Rightarrow> memmgr option" where
  "memmgr_free ap s =
     (let block = ap - sizeof_mem_header
      in case free_search (hnext s) block (freep s) of
           None \<Rightarrow> None
         | Some p \<Rightarrow>
             Some ((combine_lower block p (combine_higher block p s))\<lparr>freep := p\<rparr>))"

definition get_mem_from_pool :: "mem_layout \<Rightarrow> u32 \<Rightarrow> memmgr \<Rightarrow> (addr \<times> memmgr) option" where
  "get_mem_from_pool L nq s =
     (let nquantas = (if nq < MIN_POOL_ALLOC_QUANTAS then MIN_POOL_ALLOC_QUANTAS else nq);
          total_req_size = nquantas * of_nat sizeof_mem_header
      in if pool_free_pos s + total_req_size \<le> POOL_SIZE then
           (let h = pool_addr L + unat (pool_free_pos s);
                s1 = s\<lparr>hsize := (hsize s)(h := nquantas)\<rparr>
            in case memmgr_free (h + sizeof_mem_header) s1 of
                 None \<Rightarrow> None
               | Some s2 \<Rightarrow>
                   (let s3 = s2\<lparr>pool_free_pos := pool_free_pos s2 + total_req_size\<rparr>
                    in Some (freep s3, s3)))
         else Some (0, s))"

text \<open>
  The body of the search loop once a block that is big enough is found: an exact fit is
  unlinked, a larger block keeps its head and gives its tail away.
\<close>

definition take_block :: "u32 \<Rightarrow> addr \<Rightarrow> addr \<Rightarrow> memmgr \<Rightarrow> addr \<times> memmgr" where
  "take_block nquantas prevp p s =
     (if hsize s p = nquantas
      then (p + sizeof_mem_header,
            s\<lparr>hnext := (hnext s)(prevp := hnext s p), freep := prevp\<rparr>)
      else (let s1 = s\<lparr>hsize := (hsize s)(p := hsize s p - nquantas)\<rparr>;
                p1 = header_add p (hsize s1 p);
                s2 = s1\<lparr>hsize := (hsize s1)(p1 := nquantas)\<rparr>
            in (p1 + sizeof_mem_header, s2\<lparr>freep := prevp\<rparr>)))"

partial_function (option) alloc_loop ::
  "mem_layout \<Rightarrow> u32 \<Rightarrow> addr \<Rightarrow> addr \<Rightarrow> memmgr \<Rightarrow> (addr \<times> memmgr) option" where
  "alloc_loop L nquantas prevp p s =
     (if nquantas \<le> hsize s p then Some (take_block nquantas prevp p s)
      else if p = freep s then
        (case get_mem_from_pool L nquantas s of
           None \<Rightarrow> None
         | Some r \<Rightarrow>
             (if fst r = 0 then Some (0, snd r)
              else alloc_loop L nquantas (fst r) (hnext (snd r) (fst r)) (snd r)))
      else alloc_loop L nquantas p (hnext s p) s)"

definition quantas_for :: "u32 \<Rightarrow> u32" where
  "quantas_for nbytes =
     (nbytes + of_nat sizeof_mem_header - 1) div of_nat sizeof_mem_header + 1"

definition memmgr_alloc :: "mem_layout \<Rightarrow> u32 \<Rightarrow> memmgr \<Rightarrow> (addr \<times> memmgr) option" where
  "memmgr_alloc L nbytes s =
     (let nquantas = quantas_for nbytes;
          s1 = (if freep s = 0
                then s\<lparr>hnext := (hnext s)(base_addr L := base_addr L),
                       freep := base_addr L,
                       hsize := (hsize s)(base_addr L := 0)\<rparr>
                else s);
          prevp = freep s1
      in alloc_loop L nquantas prevp (hnext s1 prevp) s1)"

subsection \<open>Statistics\<close>

text \<open>The two loops of \<^verbatim>\<open>memmgr_print_stats\<close>, with the lines they print as values.\<close>

partial_function (option) stats_pool :: "memmgr \<Rightarrow> addr \<Rightarrow> addr \<Rightarrow> (addr \<times> u32) list option" where
  "stats_pool s e p =
     (if p < e
      then Option.bind (stats_pool s e (header_add p (hsize s p))) (\<lambda>ls. Some ((p, hsize s p) # ls))
      else Some [])"

partial_function (option) stats_free :: "memmgr \<Rightarrow> addr \<Rightarrow> (addr \<times> u32 \<times> addr) list option" where
  "stats_free s p =
     (if hnext s p = freep s then Some [(p, hsize s p, hnext s p)]
      else Option.bind (stats_free s (hnext s p)) (\<lambda>ls. Some ((p, hsize s p, hnext s p) # ls)))"

definition memmgr_print_stats ::
  "mem_layout \<Rightarrow> memmgr \<Rightarrow> (u32 \<times> u32 \<times> (addr \<times> u32) list \<times> (addr \<times> u32 \<times> addr) list) option" where
  "memmgr_print_stats L s =
     (case stats_pool s (pool_addr L + unat (pool_free_pos s)) (pool_addr L) of
        None \<Rightarrow> None
      | Some blks \<Rightarrow>
          (case (if freep s \<noteq> 0 then stats_free s (freep s) else Some []) of
             None \<Rightarrow> None
           | Some frees \<Rightarrow> Some (pool_free_pos s, POOL_SIZE - pool_free_pos s, blks, frees)))"

end
