(* ===== verification/Memmgr_Inv.thy ===== *)
theory Memmgr_Inv
  imports Memmgr
begin

text \<open>
  The invariant of the memory manager and what each routine does to it: the search of
  \<^verbatim>\<open>memmgr_free\<close>, the coalescing with both neighbours, the blocks taken from the pool and
  the first-fit loop of \<^verbatim>\<open>memmgr_alloc\<close>.
\<close>

section \<open>The free-list search\<close>

definition layout_ok :: "mem_layout \<Rightarrow> bool" where
  "layout_ok L \<longleftrightarrow>
     0 < base_addr L \<and> 0 < pool_addr L \<and> base_addr L < 2 ^ 32 \<and> pool_addr L + unat POOL_SIZE < 2 ^ 32 \<and>
     (base_addr L + sizeof_mem_header \<le> pool_addr L \<or>
      pool_addr L + unat POOL_SIZE < base_addr L)"

lemmas memmgr_consts = sizeof_mem_header_def POOL_SIZE_def MIN_POOL_ALLOC_QUANTAS_def

definition search_hit :: "(addr \<Rightarrow> addr) \<Rightarrow> addr \<Rightarrow> addr \<Rightarrow> bool" where
  "search_hit nx block p \<longleftrightarrow>
     p < block \<and> block < nx p \<or> nx p \<le> p \<and> (p < block \<or> block < nx p)"

lemma free_search_step [step_simps]:
  "free_search nx block p =
     (if search_hit nx block p then Some p else free_search nx block (nx p))"
  by (subst free_search.simps) (auto simp: search_hit_def)

text \<open>
  On a circular list \<open>base # xs @ ys\<close> whose pool part is sorted, with \<open>block\<close> between
  \<open>xs\<close> and \<open>ys\<close> and \<open>base\<close> outside of the range of the pool, the hit is the last header of
  \<open>base # xs\<close> and no other.
\<close>

lemma search_hit_iff:
  assumes lk: "links nx (base # xs @ ys) base" and srt: "sorted_wrt (<) (xs @ block # ys)"
    and out: "(\<forall>x\<in>set (xs @ block # ys). base < x) \<or> (\<forall>x\<in>set (xs @ block # ys). x < base)"
    and i: "i < length (base # xs @ ys)"
  shows "search_hit nx block ((base # xs @ ys) ! i) \<longleftrightarrow> i = length xs"
proof -
  let ?fl = "base # xs @ ys"
  define q where "q = ?fl ! i"
  have nx: "nx q = (if Suc i < length ?fl then ?fl ! Suc i else base)"
    using links_nth[OF lk i] by (simp add: q_def)
  have lt: "x \<in> set xs \<Longrightarrow> x < block" and gt: "x \<in> set ys \<Longrightarrow> block < x" for x
    using srt by (auto simp: sorted_wrt_append)
  have mem: "xs @ ys \<noteq> [] \<Longrightarrow> (xs @ ys) ! k \<in> set (xs @ ys)" if "k < length (xs @ ys)" for k
    using that by (meson nth_mem)
  have cmp: "j < length xs \<Longrightarrow> (xs @ ys) ! j < block"
    "length xs \<le> j \<Longrightarrow> j < length (xs @ ys) \<Longrightarrow> block < (xs @ ys) ! j" for j
    using lt gt by (auto simp: nth_append)
  have step: "j < k \<Longrightarrow> k < length (xs @ ys) \<Longrightarrow> (xs @ ys) ! j < (xs @ ys) ! k" for j k
  proof -
    assume "j < k" "k < length (xs @ ys)"
    moreover have "sorted_wrt (<) (xs @ ys)" using srt by (auto simp: sorted_wrt_append)
    ultimately show ?thesis by (simp add: sorted_wrt_iff_nth_less)
  qed
  have side: "base < block \<and> (\<forall>j<length (xs @ ys). base < (xs @ ys) ! j)
      \<or> block < base \<and> (\<forall>j<length (xs @ ys). (xs @ ys) ! j < base)"
    using out nth_mem[of _ "xs @ ys"] by auto
  show ?thesis
  proof (cases i)
    case 0
    then have q: "q = base" by (simp add: q_def)
    show ?thesis
    proof (cases "xs @ ys = []")
      case True then show ?thesis using 0 q nx side by (auto simp: search_hit_def q_def)
    next
      case False
      then have n: "nx q = (xs @ ys) ! 0" and "0 < length (xs @ ys)" using nx 0 by auto
      then show ?thesis using 0 q side cmp[of 0]
        by (cases "length xs") (auto simp: search_hit_def q_def)
    qed
  next
    case (Suc j)
    then have j: "j < length (xs @ ys)" and q: "q = (xs @ ys) ! j" using i by (auto simp: q_def)
    show ?thesis
    proof (cases "Suc j < length (xs @ ys)")
      case True
      then have "nx q = (xs @ ys) ! Suc j" using nx Suc by auto
      moreover have "(xs @ ys) ! j < (xs @ ys) ! Suc j" using step True by blast
      ultimately have "search_hit nx block q \<longleftrightarrow> (xs @ ys) ! j < block \<and> block < (xs @ ys) ! Suc j"
        using q by (auto simp: search_hit_def)
      also have "\<dots> \<longleftrightarrow> Suc j = length xs"
        using cmp[of j] cmp[of "Suc j"] j True
        by (metis Suc_leI le_antisym less_asym not_less_eq_eq not_less)
      finally show ?thesis using Suc by (simp add: q_def)
    next
      case False
      then have "nx q = base" using nx Suc by auto
      then have "search_hit nx block q \<longleftrightarrow> (xs @ ys) ! j < block"
        using q side j by (auto simp: search_hit_def)
      also have "\<dots> \<longleftrightarrow> Suc j = length xs"
        using cmp(1)[of j] cmp(2)[of j] j False
        by (metis Suc_lessI length_append less_asym not_less not_less_eq trans_less_add1)
      finally show ?thesis using Suc by (simp add: q_def)
    qed
  qed
qed

lemma circular_next:
  assumes "links nx fl (hd fl)" "i < length fl"
  shows "nx (fl ! i) = fl ! (Suc i mod length fl)"
proof (cases "Suc i = length fl")
  case True
  then show ?thesis using links_nth[OF assms] assms(2) by (cases fl) auto
next
  case False
  then show ?thesis using links_nth[OF assms] assms(2) by simp
qed

lemma circular_walk:
  assumes fl: "links nx fl (hd fl)" and hit: "\<And>i. i < length fl \<Longrightarrow> search_hit nx block (fl ! i) \<longleftrightarrow> i = j"
    and j: "j < length fl"
  shows "i < length fl \<Longrightarrow> (i + d) mod length fl = j \<Longrightarrow> free_search nx block (fl ! i) = Some (fl ! j)"
proof (induction d arbitrary: i)
  case 0
  then show ?case using hit by (subst free_search_step) simp
next
  case (Suc d)
  show ?case
  proof (cases "i = j")
    case True
    then show ?thesis using hit j by (subst free_search_step) simp
  next
    case False
    have "(Suc i mod length fl + d) mod length fl = j"
      using Suc.prems(2) by (simp add: mod_add_left_eq)
    moreover have "Suc i mod length fl < length fl" using j by (intro mod_less_divisor) linarith
    ultimately have "free_search nx block (fl ! (Suc i mod length fl)) = Some (fl ! j)"
      by (intro Suc.IH)
    then show ?thesis
      using False hit Suc.prems(1) circular_next[OF fl Suc.prems(1)]
      by (subst free_search_step) simp
  qed
qed

theorem free_search_correct:
  assumes lk: "links nx (base # xs @ ys) base" and srt: "sorted_wrt (<) (xs @ block # ys)"
    and out: "(\<forall>x\<in>set (xs @ block # ys). base < x) \<or> (\<forall>x\<in>set (xs @ block # ys). x < base)"
    and p: "p \<in> set (base # xs @ ys)"
  shows "free_search nx block p = Some (last (base # xs))"
proof -
  let ?fl = "base # xs @ ys"
  obtain i where i: "i < length ?fl" "p = ?fl ! i" using p by (metis in_set_conv_nth)
  let ?n = "length ?fl"
  have "i + (length xs + ?n - i) = length xs + ?n" using i(1) by simp
  moreover have "(length xs + ?n) mod ?n = length xs" by (subst mod_add_self2) simp
  ultimately have "(i + (length xs + ?n - i)) mod ?n = length xs" by metis
  then have "free_search nx block (?fl ! i) = Some (?fl ! length xs)"
    using circular_walk[of nx ?fl block "length xs" i "length xs + ?n - i"]
      search_hit_iff[OF lk srt out] lk i(1) by simp
  moreover have "?fl ! length xs = last (base # xs)"
    by (cases xs rule: rev_cases) (auto simp: nth_append nth_Cons')
  ultimately show ?thesis using i(2) by simp
qed

section \<open>The invariant\<close>

abbreviation bsz :: "memmgr \<Rightarrow> addr \<Rightarrow> nat" where
  "bsz s b \<equiv> sizeof_mem_header * unat (hsize s b)"

text \<open>
  \<open>mm_core L s ps al\<close>: the free list is the circular chain \<open>base # ps\<close>, sorted by address
  and fully coalesced; free blocks and live blocks \<open>al\<close> tile the part of the pool that was
  handed out; every block is aligned to a header.
\<close>

definition mm_core :: "mem_layout \<Rightarrow> memmgr \<Rightarrow> addr list \<Rightarrow> addr set \<Rightarrow> bool" where
  "mm_core L s ps al \<longleftrightarrow>
     links (hnext s) (base_addr L # ps) (base_addr L) \<and> sorted_wrt (<) ps \<and>
     hsize s (base_addr L) = 0 \<and> freep s \<in> set (base_addr L # ps) \<and> set ps \<inter> al = {} \<and>
     blocks (pool_addr L) (pool_addr L + unat (pool_free_pos s)) (bsz s) (set ps \<union> al) \<and>
     unat (pool_free_pos s) \<le> unat POOL_SIZE \<and>
     (\<forall>b\<in>set ps \<union> al. sizeof_mem_header dvd b - pool_addr L) \<and>
     (\<forall>p\<in>set ps. p + bsz s p \<notin> set ps)"

lemma mm_coreD:
  assumes "mm_core L s ps al"
  shows "links (hnext s) (base_addr L # ps) (base_addr L)" "sorted_wrt (<) ps"
    "hsize s (base_addr L) = 0" "freep s \<in> set (base_addr L # ps)" "set ps \<inter> al = {}"
    "blocks (pool_addr L) (pool_addr L + unat (pool_free_pos s)) (bsz s) (set ps \<union> al)"
    "unat (pool_free_pos s) \<le> unat POOL_SIZE"
    "\<forall>b\<in>set ps \<union> al. sizeof_mem_header dvd b - pool_addr L"
    "\<forall>p\<in>set ps. p + bsz s p \<notin> set ps"
  using assms by (simp_all add: mm_core_def)

lemma mm_core_block:
  assumes core: "mm_core L s ps al" and b: "b \<in> set ps \<union> al"
  shows "pool_addr L \<le> b" "b + bsz s b \<le> pool_addr L + unat POOL_SIZE" "0 < bsz s b"
    "c \<in> set ps \<union> al \<Longrightarrow> b < c \<Longrightarrow> b + bsz s b \<le> c"
  using blocksD[OF mm_coreD(6)[OF core]] mm_coreD(7)[OF core] b
  by (fastforce dest: order_trans)+

text \<open>The header \<open>base\<close> lies on one side of all blocks, and no block ends at it.\<close>

lemma mm_core_base:
  assumes "layout_ok L" "mm_core L s ps al"
  shows "base_addr L \<notin> set ps \<union> al"
    and "(\<forall>x\<in>set ps \<union> al. base_addr L < x) \<or> (\<forall>x\<in>set ps \<union> al. x < base_addr L)"
    and "b \<in> set ps \<union> al \<Longrightarrow> b + bsz s b \<noteq> base_addr L"
proof -
  note B = mm_core_block[OF assms(2)]
  from assms(1) have lay: "base_addr L + 8 \<le> pool_addr L \<or> pool_addr L + unat POOL_SIZE < base_addr L"
    by (simp add: layout_ok_def memmgr_consts)
  show "(\<forall>x\<in>set ps \<union> al. base_addr L < x) \<or> (\<forall>x\<in>set ps \<union> al. x < base_addr L)"
    using lay
  proof
    assume "base_addr L + 8 \<le> pool_addr L"
    then have "\<forall>x\<in>set ps \<union> al. base_addr L < x" using B(1) by fastforce
    then show ?thesis ..
  next
    assume *: "pool_addr L + unat POOL_SIZE < base_addr L"
    have "x < base_addr L" if "x \<in> set ps \<union> al" for x
      using B(2)[OF that] * by linarith
    then show ?thesis by blast
  qed
  then show "base_addr L \<notin> set ps \<union> al" by blast
  show "b + bsz s b \<noteq> base_addr L" if "b \<in> set ps \<union> al"
    using lay B(1-3)[OF that] by linarith
qed

lemma sorted_split:
  fixes ps :: "addr list"
  assumes "sorted_wrt (<) ps" "a \<notin> set ps"
  obtains xs ys where "ps = xs @ ys" "sorted_wrt (<) (xs @ a # ys)"
proof -
  let ?xs = "takeWhile (\<lambda>x. x < a) ps" and ?ys = "dropWhile (\<lambda>x. x < a) ps"
  have sw: "sorted_wrt (<) (?xs @ ?ys)" using assms(1) by simp
  have "\<forall>x\<in>set ?xs. x < a" using set_takeWhileD by metis
  moreover have "\<forall>y\<in>set ?ys. a < y"
  proof (cases ?ys)
    case (Cons z zs)
    then have "\<not> z < a" by (metis hd_dropWhile list.distinct(1) list.sel(1))
    moreover have "z \<in> set ps" using Cons by (metis list.set_intros(1) set_dropWhileD)
    ultimately have "a < z" using assms(2) by (cases a z rule: linorder_cases) auto
    then show ?thesis using sw Cons by (auto simp: sorted_wrt_append)
  next
    case Nil
    then show ?thesis by (metis empty_iff list.set(1))
  qed
  ultimately have "sorted_wrt (<) (?xs @ a # ?ys)"
    using sw by (force simp: sorted_wrt_append)
  then show ?thesis using that[of ?xs ?ys] by simp
qed


section \<open>Releasing a block\<close>

lemma header_add_inside:
  assumes "layout_ok L" "p + sizeof_mem_header * unat n \<le> pool_addr L + unat POOL_SIZE"
  shows "header_add p n = p + sizeof_mem_header * unat n"
  using assms by (simp add: header_add_def layout_ok_def)

lemma header_add_block:
  assumes "layout_ok L" "mm_core L s ps al" "b \<in> set ps \<union> al"
  shows "header_add b (hsize s b) = b + bsz s b"
  using assms(1) mm_core_block(2)[OF assms(2,3)] by (rule header_add_inside)

lemma header_add_base: "layout_ok L \<Longrightarrow> header_add (base_addr L) 0 = base_addr L"
  by (simp add: header_add_def layout_ok_def)

lemma sorted_mid:
  fixes xs ys :: "addr list"
  assumes "sorted_wrt (<) (xs @ a # ys)"
  shows "a \<notin> set xs" "a \<notin> set ys" "set xs \<inter> set ys = {}" "sorted_wrt (<) (xs @ ys)"
    "distinct xs" "distinct ys" "x \<in> set xs \<Longrightarrow> x < a" "y \<in> set ys \<Longrightarrow> a < y"
  using assms by (auto simp: sorted_wrt_append strict_sorted_iff dest: less_asym)

lemma combine_higher_spec:
  assumes lay: "layout_ok L" and core: "mm_core L s (xs @ ys) al" and a: "a \<in> al"
    and srt: "sorted_wrt (<) (xs @ a # ys)" and p: "hnext s p = hd (ys @ [base_addr L])"
  obtains ys1 where
    "\<forall>x. x \<noteq> a \<longrightarrow> hnext (combine_higher a p s) x = hnext s x"
    "\<forall>x. x \<noteq> a \<longrightarrow> hsize (combine_higher a p s) x = hsize s x"
    "hnext (combine_higher a p s) a = hd (ys1 @ [base_addr L])"
    "links (hnext s) ys1 (base_addr L)" "set ys1 \<subseteq> set ys" "sorted_wrt (<) (xs @ a # ys1)"
    "blocks (pool_addr L) (pool_addr L + unat (pool_free_pos s)) (bsz (combine_higher a p s))
       (set xs \<union> set ys1 \<union> al)"
    "a + bsz (combine_higher a p s) a \<notin> set ys1"
    "unat (hsize s a) \<le> unat (hsize (combine_higher a p s) a)"
proof (cases "a + bsz s a = hnext s p")
  case True
  note S = sorted_mid[OF srt]
  note C = mm_coreD[OF core]
  have "ys \<noteq> []" using True p mm_core_base(3)[OF lay core, of a] a by auto
  then obtain c ys1 where ys: "ys = c # ys1" by (cases ys) auto
  with True p have c: "c = a + bsz s a" by simp
  have cB: "c \<in> set (xs @ ys) \<union> al" and aB: "a \<in> set (xs @ ys) \<union> al" using ys a by auto
  have "bsz s a + bsz s c \<le> unat POOL_SIZE"
    using mm_core_block(1)[OF core aB] mm_core_block(2)[OF core cB] c by linarith
  then have sz: "unat (hsize s a + hsize s c) = unat (hsize s a) + unat (hsize s c)"
    by (intro unat_add_lt) (simp add: memmgr_consts)
  let ?s1 = "combine_higher a p s"
  have s1: "?s1 = s\<lparr>hsize := (hsize s)(a := hsize s a + hsize s c),
        hnext := (hnext s)(a := hnext s c)\<rparr>"
    using True c ys header_add_block[OF lay core aB] by (simp add: combine_higher_def)
  have bszs: "bsz ?s1 = (bsz s)(a := bsz s a + bsz s c)"
    using sz by (auto simp: s1 fun_eq_iff algebra_simps)
  have lk: "links (hnext s) (c # ys1) (base_addr L)"
    using C(1) ys by (cases xs) (auto simp: links_append links_Cons)
  have dist: "c \<notin> set xs \<union> set ys1 \<union> al"
    using srt ys C(5) by (auto simp: sorted_wrt_append)
  have "blocks (pool_addr L) (pool_addr L + unat (pool_free_pos s)) (bsz ?s1)
      (set (xs @ ys) \<union> al - {c})"
    unfolding bszs by (rule blocks_merge[OF C(6) aB cB c[symmetric]])
  also have "set (xs @ ys) \<union> al - {c} = set xs \<union> set ys1 \<union> al" using ys dist by auto
  finally have bl: "blocks (pool_addr L) (pool_addr L + unat (pool_free_pos s)) (bsz ?s1)
      (set xs \<union> set ys1 \<union> al)" .
  have "a + bsz ?s1 a = c + bsz s c" using fun_cong[OF bszs, of a] c by simp
  then have "a + bsz ?s1 a \<notin> set ys1" using C(9) ys by auto
  then show ?thesis
    using that[of ys1] bl lk ys srt sz
    by (auto simp: s1 links_Cons sorted_wrt_append)
next
  case False
  note S = sorted_mid[OF srt]
  note C = mm_coreD[OF core]
  let ?s1 = "combine_higher a p s"
  have s1: "?s1 = s\<lparr>hnext := (hnext s)(a := hnext s p)\<rparr>"
    using False header_add_block[OF lay core, of a] a by (simp add: combine_higher_def)
  have lk: "links (hnext s) ys (base_addr L)"
    using C(1) by (cases ys; cases xs) (auto simp: links_append links_Cons)
  have "a + bsz s a \<notin> set ys"
  proof
    assume y: "a + bsz s a \<in> set ys"
    then obtain c ys1 where ys: "ys = c # ys1" by (cases ys) auto
    have "a < c" using S(8) ys by simp
    then have "a + bsz s a \<le> c" using mm_core_block(4)[OF core, of a c] a ys by simp
    moreover have "c \<le> a + bsz s a" using y ys srt by (auto simp: sorted_wrt_append)
    ultimately show False using False p ys by simp
  qed
  then show ?thesis
    using that[of ys] C(6) lk srt p by (auto simp: s1 Un_assoc)
qed


lemma memmgr_free_low:
  assumes lay: "layout_ok L" and core: "mm_core L s (xs @ ys) al" and a: "a \<in> al"
    and srt: "sorted_wrt (<) (xs @ a # ys)" and p: "p = last (base_addr L # xs)"
    and s1: "s1 = combine_higher a p s" and s2: "s2 = combine_lower a p s1"
    and adj: "p + bsz s1 p = a"
    and nxt: "\<forall>x. x \<noteq> a \<longrightarrow> hnext s1 x = hnext s x" "hnext s1 a = hd (ys1 @ [base_addr L])"
    and siz: "\<forall>x. x \<noteq> a \<longrightarrow> hsize s1 x = hsize s x"
    and lk: "links (hnext s) ys1 (base_addr L)" and sub: "set ys1 \<subseteq> set ys"
    and srt1: "sorted_wrt (<) (xs @ a # ys1)"
    and bl: "blocks (pool_addr L) (pool_addr L + unat (pool_free_pos s)) (bsz s1)
       (set xs \<union> set ys1 \<union> al)"
    and ndj: "a + bsz s1 a \<notin> set ys1"
  shows "mm_core L (s2\<lparr>freep := p\<rparr>) (xs @ ys1) (al - {a})"
    and "p \<in> set xs" and "hsize s2 = (hsize s1)(p := hsize s1 p + hsize s1 a)"
    and "unat (hsize s1 p + hsize s1 a) = unat (hsize s1 p) + unat (hsize s1 a)"
proof -
  note C = mm_coreD[OF core] and S = sorted_mid[OF srt] and S1 = sorted_mid[OF srt1]
  have nb: "base_addr L \<notin> set (xs @ ys) \<union> al" by (rule mm_core_base(1)[OF lay core])
  have "xs \<noteq> []"
  proof
    assume "xs = []"
    then have "p = base_addr L" "base_addr L \<noteq> a" using p nb a by auto
    then show False using adj C(3) siz by simp
  qed
  then obtain zs where xs: "xs = zs @ [p]" using p by (cases xs rule: rev_cases) auto
  then show px: "p \<in> set xs" by simp
  have pa: "p \<noteq> a" "p \<notin> al" using S(1) px C(5) by auto
  have pB: "p \<in> set xs \<union> set ys1 \<union> al" and aB: "a \<in> set xs \<union> set ys1 \<union> al" using px a by auto
  have "bsz s1 p + bsz s1 a \<le> unat POOL_SIZE"
    using blocksD(4)[OF bl pB] blocksD(5)[OF bl aB] adj C(7) by linarith
  then show sz: "unat (hsize s1 p + hsize s1 a) = unat (hsize s1 p) + unat (hsize s1 a)"
    by (intro unat_add_lt) (simp add: memmgr_consts)
  have "p + bsz s1 p \<le> pool_addr L + unat POOL_SIZE" using blocksD(5)[OF bl pB] C(7) by linarith
  then have hp: "header_add p (hsize s1 p) = p + bsz s1 p" by (rule header_add_inside[OF lay])
  have s2': "s2 = s1\<lparr>hsize := (hsize s1)(p := hsize s1 p + hsize s1 a),
      hnext := (hnext s1)(p := hnext s1 a)\<rparr>"
    using adj hp by (simp add: s2 combine_lower_def)
  then show "hsize s2 = (hsize s1)(p := hsize s1 p + hsize s1 a)" by simp
  have bszs: "bsz s2 = (bsz s1)(p := bsz s1 p + bsz s1 a)"
    using sz by (auto simp: s2' fun_eq_iff algebra_simps)
  have pfp: "pool_free_pos s2 = pool_free_pos s"
    by (simp add: s2' s1 combine_higher_def)
  have "blocks (pool_addr L) (pool_addr L + unat (pool_free_pos s)) (bsz s2)
      (set xs \<union> set ys1 \<union> al - {a})"
    unfolding bszs by (rule blocks_merge[OF bl pB aB adj])
  moreover have "set xs \<union> set ys1 \<union> al - {a} = set (xs @ ys1) \<union> (al - {a})"
    using S1(1,2) by auto
  ultimately have bl2: "blocks (pool_addr L) (pool_addr L + unat (pool_free_pos s)) (bsz s2)
      (set (xs @ ys1) \<union> (al - {a}))" by simp
  have lk0: "links (hnext s) (base_addr L # zs) p"
    using C(1) links_append[of "hnext s" "base_addr L # zs" p ys "base_addr L"] by (simp add: xs)
  have nin: "p \<notin> set (base_addr L # zs)" "a \<notin> set (base_addr L # zs)" "p \<notin> set ys1" "a \<notin> set ys1"
    using S1 nb a xs by auto
  have hn: "hnext s2 = (hnext s)(a := hnext s1 a, p := hnext s1 a)"
    using nxt(1) pa by (auto simp: s2')
  have "links (hnext s2) ((base_addr L # zs) @ p # ys1) (base_addr L)"
    unfolding links_append hn using lk0 lk nin pa nxt(2) by (simp add: links_Cons[of _ p])
  then have "links (hnext s2) (base_addr L # zs @ p # ys1) (base_addr L)" by simp
  moreover have "hsize s2 (base_addr L) = 0"
    using C(3) siz nb px a by (auto simp: s2')
  moreover have "\<forall>b\<in>set (xs @ ys1) \<union> (al - {a}). sizeof_mem_header dvd b - pool_addr L"
    using C(8) sub by auto
  moreover have "\<forall>b\<in>set (xs @ ys1). b + bsz s2 b \<notin> set (xs @ ys1)"
  proof
    fix b assume b: "b \<in> set (xs @ ys1)"
    show "b + bsz s2 b \<notin> set (xs @ ys1)"
    proof (cases "b = p")
      case True
      then have "b + bsz s2 b = a + bsz s1 a" using fun_cong[OF bszs, of p] adj by simp
      moreover have "a + bsz s1 a \<notin> set xs" using S1(7) by fastforce
      ultimately show ?thesis using ndj by simp
    next
      case False
      then have "b + bsz s2 b = b + bsz s b"
        using b S1(1,2) siz fun_cong[OF bszs, of b] by auto
      moreover have "b \<in> set (xs @ ys)" using b sub by auto
      then have "b + bsz s b \<notin> set (xs @ ys)" using C(9) by blast
      ultimately show ?thesis using sub by auto
    qed
  qed
  moreover have "set (xs @ ys1) \<inter> (al - {a}) = {}" using C(5) sub by auto
  ultimately show "mm_core L (s2\<lparr>freep := p\<rparr>) (xs @ ys1) (al - {a})"
    using bl2 C(7) S1(4) px pfp by (simp add: mm_core_def xs)
qed

lemma memmgr_free_nolow:
  assumes lay: "layout_ok L" and core: "mm_core L s (xs @ ys) al" and a: "a \<in> al"
    and srt: "sorted_wrt (<) (xs @ a # ys)" and p: "p = last (base_addr L # xs)"
    and s1: "s1 = combine_higher a p s" and s2: "s2 = combine_lower a p s1"
    and adj: "p + bsz s1 p \<noteq> a"
    and nxt: "\<forall>x. x \<noteq> a \<longrightarrow> hnext s1 x = hnext s x" "hnext s1 a = hd (ys1 @ [base_addr L])"
    and siz: "\<forall>x. x \<noteq> a \<longrightarrow> hsize s1 x = hsize s x"
    and lk: "links (hnext s) ys1 (base_addr L)" and sub: "set ys1 \<subseteq> set ys"
    and srt1: "sorted_wrt (<) (xs @ a # ys1)"
    and bl: "blocks (pool_addr L) (pool_addr L + unat (pool_free_pos s)) (bsz s1)
       (set xs \<union> set ys1 \<union> al)"
    and ndj: "a + bsz s1 a \<notin> set ys1"
  shows "mm_core L (s2\<lparr>freep := p\<rparr>) (xs @ a # ys1) (al - {a})"
    and "hnext s2 p = a" and "hsize s2 = hsize s1"
proof -
  note C = mm_coreD[OF core] and S = sorted_mid[OF srt] and S1 = sorted_mid[OF srt1]
  have nb: "base_addr L \<notin> set (xs @ ys) \<union> al" by (rule mm_core_base(1)[OF lay core])
  obtain zs where zs: "base_addr L # xs = zs @ [p]"
    using p by (cases "base_addr L # xs" rule: rev_cases) auto
  have pset: "p \<in> set (base_addr L # xs)" using zs by auto
  have hp: "header_add p (hsize s1 p) = p + bsz s1 p"
  proof (cases "p = base_addr L")
    case True
    moreover have "hsize s1 (base_addr L) = 0" using C(3) siz nb a by auto
    ultimately show ?thesis using header_add_base[OF lay] by simp
  next
    case False
    then have "p + bsz s1 p \<le> pool_addr L + unat POOL_SIZE" using blocksD(5)[OF bl, of p] pset C(7) by auto
    then show ?thesis by (rule header_add_inside[OF lay])
  qed
  have s2': "s2 = s1\<lparr>hnext := (hnext s1)(p := a)\<rparr>"
    using adj hp by (simp add: s2 combine_lower_def)
  then show "hnext s2 p = a" and hs: "hsize s2 = hsize s1" by simp_all
  have pfp: "pool_free_pos s2 = pool_free_pos s"
    by (simp add: s2' s1 combine_higher_def)
  have "links (hnext s) (base_addr L # xs @ ys) (base_addr L)" by (rule C(1))
  then have lk0: "links (hnext s) zs p"
    using zs by (metis append_Cons append_assoc links_append append_Nil)
  have nin: "p \<notin> set zs" "a \<notin> set zs" "p \<noteq> a" "p \<notin> set ys1" "a \<notin> set ys1"
  proof -
    have "distinct (base_addr L # xs)" using S(5) nb by auto
    then show "p \<notin> set zs" using zs by auto
    have "a \<notin> set (base_addr L # xs)" using S(1) nb a by auto
    then show "a \<notin> set zs" "p \<noteq> a" using zs by auto
    show "p \<notin> set ys1" using pset S1(3) sub nb by auto
    show "a \<notin> set ys1" by (rule S1(2))
  qed
  have "hnext s2 = (hnext s)(a := hnext s1 a, p := a)"
    using nxt(1) nin(3) by (auto simp: s2')
  then have "links (hnext s2) (zs @ p # a # ys1) (base_addr L)"
    using lk0 lk nin nxt(2) by (auto simp: links_append links_Cons)
  moreover have "zs @ p # a # ys1 = base_addr L # xs @ a # ys1" using zs by simp
  ultimately have "links (hnext s2) (base_addr L # xs @ a # ys1) (base_addr L)" by simp
  moreover have "hsize s2 (base_addr L) = 0" using C(3) siz nb a hs by auto
  moreover have "\<forall>b\<in>set (xs @ a # ys1) \<union> (al - {a}). sizeof_mem_header dvd b - pool_addr L"
    using C(8) sub a by auto
  moreover have "\<forall>b\<in>set (xs @ a # ys1). b + bsz s2 b \<notin> set (xs @ a # ys1)"
  proof
    fix b assume b: "b \<in> set (xs @ a # ys1)"
    show "b + bsz s2 b \<notin> set (xs @ a # ys1)"
    proof (cases "b = a")
      case True
      moreover have "a + bsz s1 a \<notin> set xs" using S1(7) by fastforce
      moreover have "0 < bsz s1 a" using blocksD(6)[OF bl, of a] a by simp
      ultimately show ?thesis using ndj hs by simp
    next
      case False
      then have bs: "bsz s2 b = bsz s b" using siz hs by simp
      have "b + bsz s b \<noteq> a"
      proof (cases "b = p")
        case True then show ?thesis using adj siz nin(3) by simp
      next
        case bp: False
        show ?thesis
        proof (cases "b < a")
          case True
          then have bx: "b \<in> set xs" using b False S1(8) by fastforce
          then have "xs \<noteq> []" by auto
          then have "p \<in> set xs" "p = last xs" using p by auto
          moreover have "b < last xs"
            using bx bp \<open>xs \<noteq> []\<close> \<open>p = last xs\<close> S(4)
            by (cases xs rule: rev_cases) (auto simp: sorted_wrt_append)
          ultimately have "b + bsz s b \<le> p" using mm_core_block(4)[OF core, of b p] bx by simp
          moreover have "p < a" using S(7) \<open>p \<in> set xs\<close> by simp
          ultimately show ?thesis by linarith
        next
          case nlt: False
          then show ?thesis using False by linarith
        qed
      qed
      moreover have "b \<in> set (xs @ ys)" using b False sub by auto
      then have "b + bsz s b \<notin> set (xs @ ys)" using C(9) by blast
      ultimately show ?thesis using bs sub by auto
    qed
  qed
  moreover have "set (xs @ a # ys1) \<inter> (al - {a}) = {}" using C(5) sub by auto
  moreover have "set (xs @ a # ys1) \<union> (al - {a}) = set xs \<union> set ys1 \<union> al" using a by auto
  ultimately show "mm_core L (s2\<lparr>freep := p\<rparr>) (xs @ a # ys1) (al - {a})"
    using bl C(7) srt1 pset pfp hs by (simp add: mm_core_def) blast
qed


lemma mm_core_pred:
  assumes "mm_core L s (xs @ ys) al"
  shows "hnext s (last (base_addr L # xs)) = hd (ys @ [base_addr L])"
proof -
  obtain zs where zs: "base_addr L # xs = zs @ [last (base_addr L # xs)]"
    by (metis append_butlast_last_id list.distinct(1))
  have "links (hnext s) ((base_addr L # xs) @ ys) (base_addr L)"
    using mm_coreD(1)[OF assms] by simp
  then have "links (hnext s) (zs @ last (base_addr L # xs) # ys) (base_addr L)"
    by (subst (asm) zs) simp
  then show ?thesis by (simp add: links_append links_Cons)
qed

theorem memmgr_free_core:
  assumes lay: "layout_ok L" and core: "mm_core L s ps al" and a: "a \<in> al"
  obtains s' ps' where "memmgr_free (a + sizeof_mem_header) s = Some s'"
    "mm_core L s' ps' (al - {a})" "\<forall>b\<in>al - {a}. hsize s' b = hsize s b"
    "pool_free_pos s' = pool_free_pos s"
    "\<exists>b\<in>set ps'. b \<in> {freep s', hnext s' (freep s')} \<and> unat (hsize s a) \<le> unat (hsize s' b)"
proof -
  note C = mm_coreD[OF core]
  have "a \<notin> set ps" using C(5) a by auto
  then obtain xs ys where ps: "ps = xs @ ys" and srt: "sorted_wrt (<) (xs @ a # ys)"
    using sorted_split C(2) by metis
  note core' = core[unfolded ps] and S = sorted_mid[OF srt]
  define p where "p = last (base_addr L # xs)"
  define s1 where "s1 = combine_higher a p s"
  define s2 where "s2 = combine_lower a p s1"
  have "free_search (hnext s) a (freep s) = Some p"
    unfolding p_def
    using C(1,4) srt mm_core_base(2)[OF lay core] a
    by (intro free_search_correct[where ys = ys]) (auto simp: ps)
  then have free: "memmgr_free (a + sizeof_mem_header) s = Some (s2\<lparr>freep := p\<rparr>)"
    by (simp add: memmgr_free_def s1_def s2_def)
  have nxp: "hnext s p = hd (ys @ [base_addr L])" unfolding p_def by (rule mm_core_pred[OF core'])
  obtain ys1 where H: "\<forall>x. x \<noteq> a \<longrightarrow> hnext s1 x = hnext s x"
    "\<forall>x. x \<noteq> a \<longrightarrow> hsize s1 x = hsize s x" "hnext s1 a = hd (ys1 @ [base_addr L])"
    "links (hnext s) ys1 (base_addr L)" "set ys1 \<subseteq> set ys" "sorted_wrt (<) (xs @ a # ys1)"
    "blocks (pool_addr L) (pool_addr L + unat (pool_free_pos s)) (bsz s1) (set xs \<union> set ys1 \<union> al)"
    "a + bsz s1 a \<notin> set ys1" "unat (hsize s a) \<le> unat (hsize s1 a)"
    by (rule combine_higher_spec[OF lay core' a srt nxp, folded s1_def])
  note prems = lay core' a srt p_def s1_def s2_def
  have pfp: "pool_free_pos s2 = pool_free_pos s"
    by (simp add: s1_def s2_def combine_lower_def combine_higher_def)
  show ?thesis
  proof (cases "p + bsz s1 p = a")
    case True
    note R = memmgr_free_low[OF prems True H(1,3,2,4-8)]
    have "\<forall>b\<in>al - {a}. hsize s2 b = hsize s b" using R(2,3) H(2) C(5) ps by auto
    moreover have "unat (hsize s a) \<le> unat (hsize s2 p)" using R(3,4) H(9) by simp
    ultimately show ?thesis
      using that[OF free R(1)] R(2) pfp by auto
  next
    case False
    note R = memmgr_free_nolow[OF prems False H(1,3,2,4-8)]
    show ?thesis
      using that[OF free R(1)] R(2,3) H(2,9) pfp by simp
  qed
qed

section \<open>Taking memory from the pool\<close>

lemma memmgr_free_pool_free_pos:
  "memmgr_free ap (s\<lparr>pool_free_pos := v\<rparr>)
     = map_option (\<lambda>t. t\<lparr>pool_free_pos := v\<rparr>) (memmgr_free ap s)"
  by (auto simp: memmgr_free_def Let_def combine_lower_def combine_higher_def split: option.split)

lemma mm_core_nonnull:
  "layout_ok L \<Longrightarrow> mm_core L s ps al \<Longrightarrow> x \<in> set (base_addr L # ps) \<Longrightarrow> x \<noteq> 0"
  using mm_core_block(1)[of L s ps al x] by (auto simp: layout_ok_def)

lemma mm_core_extend:
  assumes lay: "layout_ok L" and core: "mm_core L s ps al" and n: "0 < unat n"
    and room: "unat (pool_free_pos s) + sizeof_mem_header * unat n \<le> unat POOL_SIZE"
  defines "h \<equiv> pool_addr L + unat (pool_free_pos s)"
  shows "mm_core L (s\<lparr>hsize := (hsize s)(h := n),
             pool_free_pos := pool_free_pos s + n * of_nat sizeof_mem_header\<rparr>) ps (insert h al)"
    and "h \<notin> set ps \<union> al"
proof -
  note C = mm_coreD[OF core]
  let ?k = "sizeof_mem_header * unat n"
  have k: "0 < ?k" using n by (simp add: memmgr_consts)
  show new: "h \<notin> set ps \<union> al" unfolding h_def by (rule blocks_extend(2)[OF C(6) k])
  have n8: "unat (n * of_nat sizeof_mem_header) = ?k"
    using room by (subst unat_mult_lt) (simp_all add: memmgr_consts)
  have pfp: "unat (pool_free_pos s + n * of_nat sizeof_mem_header) = unat (pool_free_pos s) + ?k"
    using room n8 by (subst unat_add_lt) (simp_all add: memmgr_consts)
  have hb: "h \<noteq> base_addr L"
    using lay room by (auto simp: h_def layout_ok_def memmgr_consts)
  let ?s = "s\<lparr>hsize := (hsize s)(h := n),
             pool_free_pos := pool_free_pos s + n * of_nat sizeof_mem_header\<rparr>"
  have "bsz ?s = (bsz s)(h := ?k)" by (auto simp: fun_eq_iff)
  then have "blocks (pool_addr L) (pool_addr L + unat (pool_free_pos ?s)) (bsz ?s) (insert h (set ps \<union> al))"
    using blocks_extend(1)[OF C(6) k] pfp by (simp add: h_def add.assoc)
  moreover have "sizeof_mem_header dvd h - pool_addr L"
  proof -
    have "unat (pool_free_pos s) = (\<Sum>b\<in>set ps \<union> al. bsz s b)"
      using blocksD(3)[OF C(6)] by simp
    also have "sizeof_mem_header dvd \<dots>" by (intro dvd_sum) simp
    finally show ?thesis by (simp add: h_def)
  qed
  moreover have "\<forall>p\<in>set ps. p + bsz ?s p \<notin> set ps"
    using C(9) new by auto
  ultimately show "mm_core L ?s ps (insert h al)"
    using C new room pfp hb unfolding mm_core_def by simp
qed

lemma get_mem_from_pool_core:
  assumes lay: "layout_ok L" and core: "mm_core L s ps al" and nq: "0 < unat nq"
    and bnd: "sizeof_mem_header * unat nq + unat POOL_SIZE < 2 ^ 32"
    and room: "unat (pool_free_pos s) + sizeof_mem_header * max 2 (unat nq) \<le> unat POOL_SIZE"
  obtains s' ps' where "get_mem_from_pool L nq s = Some (freep s', s')" "mm_core L s' ps' al"
    "\<forall>b\<in>al. hsize s' b = hsize s b"
    "\<exists>b\<in>set ps'. b \<in> {freep s', hnext s' (freep s')} \<and> unat nq \<le> unat (hsize s' b)"
    "unat (pool_free_pos s') = unat (pool_free_pos s) + sizeof_mem_header * max 2 (unat nq)"
proof -
  define n where "n = (if nq < MIN_POOL_ALLOC_QUANTAS then MIN_POOL_ALLOC_QUANTAS else nq)"
  have un: "unat n = max 2 (unat nq)"
    by (auto simp: n_def MIN_POOL_ALLOC_QUANTAS_def word_less_nat_alt)
  define h where "h = pool_addr L + unat (pool_free_pos s)"
  let ?v = "pool_free_pos s + n * of_nat sizeof_mem_header"
  let ?s1 = "s\<lparr>hsize := (hsize s)(h := n)\<rparr>"
  have n8: "unat (n * of_nat sizeof_mem_header) = sizeof_mem_header * unat n"
    using room un by (subst unat_mult_lt) (simp_all add: memmgr_consts)
  have fits: "?v \<le> POOL_SIZE"
    using room un n8 by (simp add: word_le_nat_alt unat_add_lt memmgr_consts)
  have ext: "mm_core L (?s1\<lparr>pool_free_pos := ?v\<rparr>) ps (insert h al)" and new: "h \<notin> set ps \<union> al"
    using mm_core_extend[OF lay core, of n] room un nq by (simp_all add: h_def)
  obtain t ps' where t: "memmgr_free (h + sizeof_mem_header) (?s1\<lparr>pool_free_pos := ?v\<rparr>) = Some t"
    "mm_core L t ps' (insert h al - {h})"
    "\<forall>b\<in>insert h al - {h}. hsize t b = hsize (?s1\<lparr>pool_free_pos := ?v\<rparr>) b"
    "pool_free_pos t = ?v"
    "\<exists>b\<in>set ps'. b \<in> {freep t, hnext t (freep t)} \<and>
       unat (hsize (?s1\<lparr>pool_free_pos := ?v\<rparr>) h) \<le> unat (hsize t b)"
    by (rule memmgr_free_core[OF lay ext, of h]) auto
  from t(1) obtain s2 where s2: "memmgr_free (h + sizeof_mem_header) ?s1 = Some s2"
    "t = s2\<lparr>pool_free_pos := ?v\<rparr>"
    by (auto simp: memmgr_free_pool_free_pos)
  have "pool_free_pos s2 = pool_free_pos s"
    using s2(1) by (auto simp: memmgr_free_def combine_lower_def combine_higher_def Let_def
        split: option.splits)
  then have "get_mem_from_pool L nq s = Some (freep t, t)"
    using s2 fits by (simp add: get_mem_from_pool_def n_def h_def Let_def)
  moreover have "insert h al - {h} = al" using new by auto
  moreover have "unat ?v = unat (pool_free_pos s) + sizeof_mem_header * max 2 (unat nq)"
    using room un n8 by (subst unat_add_lt) (simp_all add: memmgr_consts)
  ultimately show ?thesis
    using that[of t ps'] t un new by fastforce
qed

lemma get_mem_from_pool_full:
  assumes "unat (pool_free_pos s) \<le> unat POOL_SIZE" and "0 < unat nq"
    and bnd: "sizeof_mem_header * unat nq + unat POOL_SIZE < 2 ^ 32"
    and full: "unat POOL_SIZE < unat (pool_free_pos s) + sizeof_mem_header * max 2 (unat nq)"
  shows "get_mem_from_pool L nq s = Some (0, s)"
proof -
  define n where "n = (if nq < MIN_POOL_ALLOC_QUANTAS then MIN_POOL_ALLOC_QUANTAS else nq)"
  have un: "unat n = max 2 (unat nq)"
    by (auto simp: n_def MIN_POOL_ALLOC_QUANTAS_def word_less_nat_alt)
  have n8: "unat (n * of_nat sizeof_mem_header) = sizeof_mem_header * unat n"
    using bnd un by (subst unat_mult_lt) (auto simp: memmgr_consts)
  have "\<not> pool_free_pos s + n * of_nat sizeof_mem_header \<le> POOL_SIZE"
    using assms un n8 by (auto simp: word_le_nat_alt unat_add_lt memmgr_consts)
  then show ?thesis by (simp add: get_mem_from_pool_def n_def Let_def)
qed

section \<open>Allocating\<close>

text \<open>
  What an allocation promises: a live block of exactly \<open>nq\<close> quanta, the others untouched, and
  not more than \<open>u\<close> bytes of the pool in use.
\<close>

definition alloc_result :: "mem_layout \<Rightarrow> memmgr \<Rightarrow> addr set \<Rightarrow> u32 \<Rightarrow> nat \<Rightarrow> addr \<times> memmgr \<Rightarrow> bool" where
  "alloc_result L s al nq u rs \<longleftrightarrow>
     unat (pool_free_pos (snd rs)) \<le> u \<and>
     (\<exists>b ps'. fst rs = b + sizeof_mem_header \<and> b \<notin> al \<and> b \<noteq> 0 \<and>
        mm_core L (snd rs) ps' (insert b al) \<and>
        hsize (snd rs) b = nq \<and> (\<forall>c\<in>al. hsize (snd rs) c = hsize s c))"

lemma take_block_exact:
  assumes lay: "layout_ok L" and core: "mm_core L s (xs @ p # ys) al"
    and q: "q = last (base_addr L # xs)" and nq: "hsize s p = nq" "0 < unat nq"
  shows "alloc_result L s al nq (unat (pool_free_pos s)) (take_block nq q p s)"
proof -
  note C = mm_coreD[OF core]
  have tb: "take_block nq q p s
      = (p + sizeof_mem_header, s\<lparr>hnext := (hnext s)(q := hnext s p), freep := q\<rparr>)"
    using nq by (simp add: take_block_def)
  obtain zs where zs: "base_addr L # xs = zs @ [q]"
    using q by (cases "base_addr L # xs" rule: rev_cases) auto
  have nb: "base_addr L \<notin> set (xs @ p # ys) \<union> al" by (rule mm_core_base(1)[OF lay core])
  have dist: "distinct (base_addr L # xs @ p # ys)" using C(2) nb by (auto simp: strict_sorted_iff)
  have eq: "base_addr L # xs @ p # ys = zs @ q # p # ys" "base_addr L # xs @ ys = zs @ q # ys"
    using zs by (metis append_Cons append_assoc append_Nil)+
  have "links ((hnext s)(q := hnext s p)) (base_addr L # xs @ ys) (base_addr L)"
    using links_remove[of "hnext s" zs q p ys "base_addr L"] C(1) dist unfolding eq by simp
  moreover have "q \<in> set (base_addr L # xs)" using zs by auto
  moreover have "p \<notin> al" using C(5) by auto
  moreover have "sorted_wrt (<) (xs @ ys)" "set (xs @ ys) \<inter> insert p al = {}"
    using C(2,5) dist by (auto simp: sorted_wrt_append)
  moreover have "set (xs @ ys) \<union> insert p al = set (xs @ p # ys) \<union> al" by auto
  moreover have "\<forall>b\<in>set (xs @ ys). b + bsz s b \<notin> set (xs @ ys)" using C(9) by simp
  ultimately have "mm_core L (s\<lparr>hnext := (hnext s)(q := hnext s p), freep := q\<rparr>) (xs @ ys) (insert p al)"
    using C(3,6,7,8) by (simp add: mm_core_def) blast
  moreover have "p \<noteq> 0" using mm_core_nonnull[OF lay core, of p] by simp
  ultimately show ?thesis
    using \<open>p \<notin> al\<close> nq(1) unfolding alloc_result_def tb by fastforce
qed

lemma take_block_split:
  assumes lay: "layout_ok L" and core: "mm_core L s (xs @ p # ys) al"
    and q: "q = last (base_addr L # xs)" and nq: "unat nq < unat (hsize s p)" "0 < unat nq"
  shows "alloc_result L s al nq (unat (pool_free_pos s)) (take_block nq q p s)"
proof -
  note C = mm_coreD[OF core]
  let ?ps = "xs @ p # ys"
  define c where "c = p + (bsz s p - sizeof_mem_header * unat nq)"
  have usub: "unat (hsize s p - nq) = unat (hsize s p) - unat nq"
    using nq by (intro unat_sub_le) (simp add: word_le_nat_alt)
  have pB: "p \<in> set ?ps \<union> al" by simp
  have k: "0 < sizeof_mem_header * unat nq" "sizeof_mem_header * unat nq < bsz s p"
    using nq by (auto simp: memmgr_consts)
  have cnew: "c \<notin> set ?ps \<union> al" unfolding c_def by (rule blocks_split_notin[OF C(6) pB k])
  have pc: "p < c" using k(2) unfolding c_def by linarith
  let ?s = "s\<lparr>hsize := (hsize s)(p := hsize s p - nq, c := nq), freep := q\<rparr>"
  have c'': "p + sizeof_mem_header * unat (hsize s p - nq) = c"
    using usub nq by (simp add: c_def memmgr_consts)
  have "c \<le> pool_addr L + unat POOL_SIZE" using mm_core_block(2)[OF core pB] k unfolding c_def by linarith
  then have c': "header_add p (hsize s p - nq) = c" using header_add_inside[OF lay, of p "hsize s p - nq"] c'' by simp
  have tb: "take_block nq q p s = (c + sizeof_mem_header, ?s)"
    using nq c' by (auto simp: take_block_def Let_def)
  have bszs: "bsz ?s = (bsz s)(p := bsz s p - sizeof_mem_header * unat nq,
      c := sizeof_mem_header * unat nq)"
    using usub pc by (auto simp: fun_eq_iff diff_mult_distrib2)
  have "blocks (pool_addr L) (pool_addr L + unat (pool_free_pos s)) (bsz ?s) (insert c (set ?ps \<union> al))"
    unfolding bszs by (rule blocks_split[OF C(6) pB k c_def])
  moreover have "c \<noteq> base_addr L"
  proof -
    have "pool_addr L \<le> c" "c \<le> pool_addr L + unat POOL_SIZE"
      using mm_core_block(1,2)[OF core pB] pc k unfolding c_def by linarith+
    then show ?thesis using lay by (auto simp: layout_ok_def memmgr_consts)
  qed
  moreover have "sizeof_mem_header dvd c - pool_addr L"
  proof -
    have "c - pool_addr L = (p - pool_addr L) + sizeof_mem_header * (unat (hsize s p) - unat nq)"
      using mm_core_block(1)[OF core pB] nq by (simp add: c_def diff_mult_distrib2)
    then show ?thesis using C(8) pB by (simp add: dvd_add)
  qed
  moreover have "\<forall>b\<in>set ?ps. b + bsz ?s b \<notin> set ?ps"
  proof
    fix b assume b: "b \<in> set ?ps"
    show "b + bsz ?s b \<notin> set ?ps"
    proof (cases "b = p")
      case True
      have "bsz ?s p = bsz s p - sizeof_mem_header * unat nq"
        using fun_cong[OF bszs, of p] pc by simp
      then have "b + bsz ?s b = c" using True unfolding c_def by simp
      then show ?thesis using cnew by auto
    next
      case False
      then have "bsz ?s b = bsz s b" using b cnew by auto
      then show ?thesis using C(9) b by metis
    qed
  qed
  moreover have "base_addr L \<noteq> p" "q \<in> set (base_addr L # ?ps)"
    using mm_core_base(1)[OF lay core] q by auto
  ultimately have "mm_core L ?s ?ps (insert c al)"
    using C(1-3,5,7,8) cnew unfolding mm_core_def by simp
  moreover have "c \<noteq> 0" "c \<notin> al" "\<forall>x\<in>al. x \<noteq> p" using pc cnew C(5) by auto
  ultimately show ?thesis
    using pc unfolding alloc_result_def tb by fastforce
qed

lemma take_block_core:
  assumes "layout_ok L" and "mm_core L s (xs @ p # ys) al"
    and "q = last (base_addr L # xs)" and "nq \<le> hsize s p" "0 < unat nq"
  shows "alloc_result L s al nq (unat (pool_free_pos s)) (take_block nq q p s)"
proof (cases "hsize s p = nq")
  case True
  then show ?thesis using take_block_exact[OF assms(1-3)] assms(5) by simp
next
  case False
  then have "unat nq < unat (hsize s p)" using assms(4) by (metis order_le_less word_less_nat_alt)
  then show ?thesis using take_block_split[OF assms(1-3)] assms(5) by simp
qed

lemma alloc_loop_step [step_simps]:
  "alloc_loop L nq q p s =
     (if nq \<le> hsize s p then Some (take_block nq q p s)
      else if p = freep s then
        (case get_mem_from_pool L nq s of
           None \<Rightarrow> None
         | Some r \<Rightarrow> (if fst r = 0 then Some (0, snd r)
             else alloc_loop L nq (fst r) (hnext (snd r) (fst r)) (snd r)))
      else alloc_loop L nq p (hnext s p) s)"
  by (rule alloc_loop.simps)

lemma alloc_fit:
  assumes lay: "layout_ok L" and core: "mm_core L s ps al" and nq: "0 < unat nq"
    and fl: "fl = base_addr L # ps" and i: "i < length fl"
    and fit: "nq \<le> hsize s (fl ! (Suc i mod length fl))"
  shows "\<exists>rs. alloc_loop L nq (fl ! i) (fl ! (Suc i mod length fl)) s = Some rs \<and> alloc_result L s al nq (unat (pool_free_pos s)) rs"
proof -
  let ?n = "length fl"
  let ?p = "fl ! (Suc i mod ?n)"
  have "Suc i mod ?n \<noteq> 0"
  proof
    assume "Suc i mod ?n = 0"
    then have "hsize s ?p = 0" using mm_coreD(3)[OF core] fl by simp
    then show False using fit nq by (simp add: word_le_nat_alt)
  qed
  then have i1: "Suc i < ?n" using i by (cases "Suc i = ?n") auto
  then have "ps = take i ps @ ?p # drop (Suc i) ps"
    using fl by (simp add: id_take_nth_drop)
  moreover have "fl ! i = last (base_addr L # take i ps)"
    using fl i1 by (cases i) (auto simp: last_conv_nth)
  ultimately have "alloc_result L s al nq (unat (pool_free_pos s)) (take_block nq (fl ! i) ?p s)"
    using take_block_core[OF lay _ _ fit nq, of "take i ps" "drop (Suc i) ps" al] core by simp
  then show ?thesis using fit by (subst (1) alloc_loop_step) simp
qed

text \<open>
  One tour of the free list from the header at index \<open>i\<close>: either a block that fits is taken,
  or the tour reaches \<open>freep\<close> with nothing found on the way.
\<close>

lemma alloc_tour:
  assumes lay: "layout_ok L" and core: "mm_core L s ps al" and nq: "0 < unat nq"
    and fl: "fl = base_addr L # ps" and f: "f < length fl" "freep s = fl ! f"
  shows "i < length fl \<Longrightarrow> d < length fl \<Longrightarrow> (Suc i + d) mod length fl = f \<Longrightarrow>
    (\<exists>rs. alloc_loop L nq (fl ! i) (fl ! (Suc i mod length fl)) s = Some rs \<and> alloc_result L s al nq (unat (pool_free_pos s)) rs) \<or>
    (\<forall>e\<le>d. \<not> nq \<le> hsize s (fl ! ((Suc i + e) mod length fl))) \<and>
    (\<exists>q. alloc_loop L nq (fl ! i) (fl ! (Suc i mod length fl)) s = alloc_loop L nq q (freep s) s)"
proof (induction d arbitrary: i)
  case (0 i)
  then show ?case
    using alloc_fit[OF lay core nq fl 0(1)] f by (cases "nq \<le> hsize s (fl ! (Suc i mod length fl))") auto
next
  case (Suc d i)
  let ?n = "length fl"
  let ?j = "Suc i mod ?n"
  let ?p = "fl ! ?j"
  have n0: "0 < ?n" using f by linarith
  then have j: "?j < ?n" by simp
  have dist: "distinct fl"
    using fl mm_coreD(2)[OF core] mm_core_base(1)[OF lay core] by (auto simp: strict_sorted_iff)
  have "?j \<noteq> f"
  proof
    assume "?j = f"
    then have "(Suc i + Suc d) mod ?n = (Suc i + 0) mod ?n" using Suc.prems(3) by simp
    then have "?n dvd Suc d" by (metis add_left_cancel dvd_add_right_iff mod_eq_dvd_iff_nat le_add1 diff_add_inverse add_0_right)
    then show False using Suc.prems(2) by (simp add: nat_dvd_not_less)
  qed
  then have pf: "?p \<noteq> freep s" using dist f j by (simp add: nth_eq_iff_index_eq)
  have nxt: "hnext s ?p = fl ! (Suc ?j mod ?n)"
    using circular_next[of "hnext s" fl ?j] mm_coreD(1)[OF core] fl j by simp
  have m: "(Suc ?j + e) mod ?n = (Suc i + Suc e) mod ?n" for e
    by (metis add_Suc add_Suc_shift mod_add_left_eq)
  show ?case
  proof (cases "nq \<le> hsize s ?p")
    case True
    then show ?thesis using alloc_fit[OF lay core nq fl Suc.prems(1)] by blast
  next
    case False
    have step: "alloc_loop L nq (fl ! i) ?p s = alloc_loop L nq ?p (fl ! (Suc ?j mod ?n)) s"
      using False pf nxt by (subst (1) alloc_loop_step) simp
    have none: "\<not> nq \<le> hsize s (fl ! ((Suc i + e) mod ?n))"
      if "\<forall>e\<le>d. \<not> nq \<le> hsize s (fl ! ((Suc ?j + e) mod ?n))" "e \<le> Suc d" for e
      using that m False by (cases e) auto
    have "(Suc ?j + d) mod ?n = f" using m[of d] Suc.prems(3) by simp
    then show ?thesis
      using Suc.IH[OF j] Suc.prems(2) step none by (metis Suc_lessD)
  qed
qed


lemma alloc_from_freep:
  assumes lay: "layout_ok L" and core: "mm_core L s ps al" and nq: "0 < unat nq"
  shows "(\<exists>rs. alloc_loop L nq (freep s) (hnext s (freep s)) s = Some rs \<and> alloc_result L s al nq (unat (pool_free_pos s)) rs) \<or>
    (\<forall>b\<in>set ps. \<not> nq \<le> hsize s b) \<and>
    (\<exists>q. alloc_loop L nq (freep s) (hnext s (freep s)) s = alloc_loop L nq q (freep s) s)"
proof -
  define fl where "fl = base_addr L # ps"
  let ?n = "length fl"
  obtain f where f: "f < ?n" "freep s = fl ! f"
    using mm_coreD(4)[OF core] fl_def by (metis in_set_conv_nth)
  have n0: "0 < ?n" by (simp add: fl_def)
  have m: "(Suc f + (?n - 1)) mod ?n = f" using f n0 by simp
  have nxt: "hnext s (freep s) = fl ! (Suc f mod ?n)"
    using circular_next[of "hnext s" fl f] mm_coreD(1)[OF core] f by (simp add: fl_def)
  have cover: "\<forall>b\<in>set ps. \<not> nq \<le> hsize s b"
    if *: "\<forall>e\<le>?n - 1. \<not> nq \<le> hsize s (fl ! ((Suc f + e) mod ?n))"
  proof
    fix b assume "b \<in> set ps"
    then obtain k where k: "k < ?n" "fl ! k = b"
      by (metis fl_def in_set_conv_nth list.set_intros(2))
    let ?e = "(k + ?n - Suc f mod ?n) mod ?n"
    have "?e \<le> ?n - 1" using n0 by (metis Suc_pred' less_Suc_eq_le mod_less_divisor)
    moreover have "(Suc f + ?e) mod ?n = k"
    proof -
      have "(Suc f + ?e) mod ?n = (Suc f mod ?n + (k + ?n - Suc f mod ?n)) mod ?n"
        by (metis mod_add_eq mod_add_left_eq mod_add_right_eq)
      also have "Suc f mod ?n + (k + ?n - Suc f mod ?n) = k + ?n"
        using n0 mod_less_divisor[OF n0, of "Suc f"] by linarith
      finally show ?thesis using k by simp
    qed
    ultimately show "\<not> nq \<le> hsize s b" using * k(2) by metis
  qed
  show ?thesis
    using alloc_tour[OF lay core nq fl_def f f(1) _ m] n0 cover
    unfolding nxt f(2)[symmetric] by auto
qed

lemma alloc_loop_core:
  assumes lay: "layout_ok L" and core: "mm_core L s ps al" and nq: "0 < unat nq"
    and bnd: "sizeof_mem_header * unat nq + unat POOL_SIZE < 2 ^ 32"
  shows "(\<exists>rs. alloc_loop L nq (freep s) (hnext s (freep s)) s = Some rs \<and> alloc_result L s al nq (unat (pool_free_pos s) + sizeof_mem_header * max 2 (unat nq)) rs) \<or>
    alloc_loop L nq (freep s) (hnext s (freep s)) s = Some (0, s) \<and>
    (\<forall>b\<in>set ps. \<not> nq \<le> hsize s b) \<and>
    unat POOL_SIZE < unat (pool_free_pos s) + sizeof_mem_header * max 2 (unat nq)"
proof -
  let ?loop = "alloc_loop L nq (freep s) (hnext s (freep s)) s"
  consider "\<exists>rs. ?loop = Some rs \<and> alloc_result L s al nq (unat (pool_free_pos s) + sizeof_mem_header * max 2 (unat nq)) rs"
    | q where "\<forall>b\<in>set ps. \<not> nq \<le> hsize s b" "?loop = alloc_loop L nq q (freep s) s"
    using alloc_from_freep[OF lay core nq] by (fastforce simp: alloc_result_def)
  then show ?thesis
  proof cases
    case 1 then show ?thesis by blast
  next
    case 2
    have nofit: "\<not> nq \<le> hsize s (freep s)"
      using 2(1) mm_coreD(3,4)[OF core] nq by (auto simp: word_le_nat_alt)
    show ?thesis
    proof (cases "unat POOL_SIZE < unat (pool_free_pos s) + sizeof_mem_header * max 2 (unat nq)")
      case True
      then have "get_mem_from_pool L nq s = Some (0, s)"
        using get_mem_from_pool_full[OF mm_coreD(7)[OF core] nq bnd] by simp
      then have "?loop = Some (0, s)"
        using 2(2) nofit by (subst (asm) (2) alloc_loop_step) simp
      then show ?thesis using 2(1) True by blast
    next
      case False
      then obtain t ps' where t: "get_mem_from_pool L nq s = Some (freep t, t)" "mm_core L t ps' al"
        "\<forall>b\<in>al. hsize t b = hsize s b"
        "\<exists>b\<in>set ps'. b \<in> {freep t, hnext t (freep t)} \<and> unat nq \<le> unat (hsize t b)"
        "unat (pool_free_pos t) = unat (pool_free_pos s) + sizeof_mem_header * max 2 (unat nq)"
        using get_mem_from_pool_core[OF lay core nq bnd] by (metis not_less)
      have "freep t \<noteq> 0" using mm_core_nonnull[OF lay t(2)] mm_coreD(4)[OF t(2)] by blast
      then have eq: "?loop = alloc_loop L nq (freep t) (hnext t (freep t)) t"
        using 2(2) nofit t(1) by (subst (asm) (2) alloc_loop_step) simp
      have "\<not> (\<forall>b\<in>set ps'. \<not> nq \<le> hsize t b)" using t(4) by (auto simp: word_le_nat_alt)
      then obtain rs where "?loop = Some rs" "alloc_result L t al nq (unat (pool_free_pos t)) rs"
        using alloc_from_freep[OF lay t(2) nq] eq by auto
      then show ?thesis using t(3,5) by (auto simp: alloc_result_def)
    qed
  qed
qed

end
