(* ===== verification/Memmgr_Correct.thy ===== *)
theory Memmgr_Correct
  imports Memmgr_Inv
begin

text \<open>
  The contract of the memory manager, stated once as the locale \<open>allocator\<close>, its
  interpretation on \<^verbatim>\<open>memmgr_alloc\<close> and \<^verbatim>\<open>memmgr_free\<close>, and the properties of the
  allocator over whole histories of calls.
\<close>

section \<open>The public interface\<close>

definition request_ok :: "u32 \<Rightarrow> bool" where
  "request_ok n \<longleftrightarrow> unat n + unat POOL_SIZE + 15 < 2 ^ 32"

definition mm_inv :: "mem_layout \<Rightarrow> memmgr \<Rightarrow> addr set \<Rightarrow> bool" where
  "mm_inv L s al \<longleftrightarrow>
     layout_ok L \<and>
     (freep s = 0 \<and> al = {} \<and> pool_free_pos s = 0 \<or> (\<exists>ps. mm_core L s ps al))"

text \<open>The blocks a client holds, by the pointers it was given, and the bytes it may use.\<close>

definition mm_live :: "mem_layout \<Rightarrow> memmgr \<Rightarrow> addr set \<Rightarrow> bool" where
  "mm_live L s P \<longleftrightarrow>
     (\<forall>r\<in>P. sizeof_mem_header \<le> r) \<and> mm_inv L s ((\<lambda>r. r - sizeof_mem_header) ` P)"

definition payload :: "memmgr \<Rightarrow> addr \<Rightarrow> nat" where
  "payload s r = sizeof_mem_header * (unat (hsize s (r - sizeof_mem_header)) - 1)"

lemma unat_quantas_for:
  assumes "request_ok n"
  shows "unat (quantas_for n) = (unat n + 7) div 8 + 1"
proof -
  have q: "n + of_nat sizeof_mem_header - 1 = n + 7" by (simp add: sizeof_mem_header_def)
  have n7: "unat (n + 7) = unat n + 7"
    using assms by (subst unat_add_lt) (simp_all add: request_ok_def POOL_SIZE_def)
  have d: "unat ((n + 7) div 8) = (unat n + 7) div 8" by (simp add: unat_div n7)
  have "unat ((n + 7) div 8 + 1) = (unat n + 7) div 8 + 1"
    using assms d by (subst unat_add_lt) (auto simp: request_ok_def POOL_SIZE_def)
  then show ?thesis by (simp only: quantas_for_def q) (simp add: sizeof_mem_header_def)
qed

lemma quantas_for_bounds:
  assumes "request_ok n"
  shows "0 < unat (quantas_for n)" "unat n \<le> sizeof_mem_header * (unat (quantas_for n) - 1)"
    "sizeof_mem_header * unat (quantas_for n) + unat POOL_SIZE < 2 ^ 32"
  using assms unat_quantas_for[OF assms]
  by (auto simp: request_ok_def memmgr_consts)

lemma mm_core_freep:
  assumes "layout_ok L" "mm_core L s ps al"
  shows "freep s \<noteq> 0"
  using mm_core_nonnull[OF assms mm_coreD(4)[OF assms(2)]] .

lemma mm_core_start:
  assumes "layout_ok L"
  shows "mm_core L (s\<lparr>hnext := (hnext s)(base_addr L := base_addr L), freep := base_addr L,
            hsize := (hsize s)(base_addr L := 0), pool_free_pos := 0\<rparr>) [] {}"
  by (simp add: mm_core_def blocks_def)

lemma memmgr_alloc_quantas:
  assumes inv: "mm_inv L s al" and q0: "0 < unat (quantas_for n)"
    and q1: "sizeof_mem_header * unat (quantas_for n) + unat POOL_SIZE < 2 ^ 32"
  shows "(\<exists>rs. memmgr_alloc L n s = Some rs \<and> alloc_result L s al (quantas_for n)
      (unat (pool_free_pos s) + sizeof_mem_header * max 2 (unat (quantas_for n))) rs) \<or>
    (\<exists>s' ps. memmgr_alloc L n s = Some (0, s') \<and> mm_core L s' ps al \<and>
      (\<forall>b\<in>al. hsize s' b = hsize s b) \<and> (\<forall>b\<in>set ps. hsize s' b < quantas_for n) \<and>
      pool_free_pos s' = pool_free_pos s \<and>
      unat POOL_SIZE < unat (pool_free_pos s') + sizeof_mem_header * max 2 (unat (quantas_for n)))"
proof -
  have lay: "layout_ok L" using inv by (simp add: mm_inv_def)
  define s1 where "s1 = (if freep s = 0
                then s\<lparr>hnext := (hnext s)(base_addr L := base_addr L),
                       freep := base_addr L,
                       hsize := (hsize s)(base_addr L := 0)\<rparr>
                else s)"
  have core: "\<exists>ps. mm_core L s1 ps al" and sz: "\<forall>b\<in>al. hsize s1 b = hsize s b"
  proof -
    show "\<exists>ps. mm_core L s1 ps al"
    proof (cases "freep s = 0")
      case True
      then have fresh: "al = {}" "pool_free_pos s = 0"
        using inv True by (auto simp: mm_inv_def dest: mm_core_freep[OF lay])
      then have "s1 = s\<lparr>hnext := (hnext s)(base_addr L := base_addr L), freep := base_addr L,
            hsize := (hsize s)(base_addr L := 0), pool_free_pos := 0\<rparr>"
        using True by (simp add: s1_def)
      then show ?thesis using mm_core_start[OF lay] fresh(1) by auto
    next
      case False
      then show ?thesis using inv by (auto simp: s1_def mm_inv_def)
    qed
    show "\<forall>b\<in>al. hsize s1 b = hsize s b"
      using inv by (auto simp: s1_def mm_inv_def dest: mm_core_freep[OF lay])
  qed
  moreover have pos: "pool_free_pos s1 = pool_free_pos s" by (simp add: s1_def)
  ultimately obtain ps where core: "mm_core L s1 ps al" by blast
  have "memmgr_alloc L n s = alloc_loop L (quantas_for n) (freep s1) (hnext s1 (freep s1)) s1"
    by (simp add: memmgr_alloc_def s1_def Let_def)
  moreover note alloc_loop_core[OF lay core q0 q1]
  ultimately show ?thesis
    using core sz pos by (auto simp: alloc_result_def not_le) blast
qed

lemmas memmgr_alloc_core = memmgr_alloc_quantas[OF _ quantas_for_bounds(1,3)]

lemma mm_live_alloc:
  assumes live: "mm_live L s P" and n: "request_ok n" and r: "memmgr_alloc L n s = Some (r, s')"
  shows "r = 0 \<Longrightarrow> mm_live L s' P"
    and "r \<noteq> 0 \<Longrightarrow> r \<notin> P" and "r \<noteq> 0 \<Longrightarrow> mm_live L s' (insert r P)"
    and "r \<noteq> 0 \<Longrightarrow> unat n \<le> payload s' r"
    and "q \<in> P \<Longrightarrow> payload s' q = payload s q"
proof -
  let ?f = "\<lambda>r. r - sizeof_mem_header"
  let ?al = "?f ` P"
  have inv: "mm_inv L s ?al" and lay: "layout_ok L" and ge: "\<forall>r\<in>P. sizeof_mem_header \<le> r"
    using live by (auto simp: mm_live_def mm_inv_def)
  consider (ok) b ps where "r = b + sizeof_mem_header" "b \<notin> ?al" "b \<noteq> 0" "mm_core L s' ps (insert b ?al)"
      "hsize s' b = quantas_for n" "\<forall>c\<in>?al. hsize s' c = hsize s c"
    | (null) ps where "r = 0" "mm_core L s' ps ?al" "\<forall>b\<in>?al. hsize s' b = hsize s b"
    using memmgr_alloc_core[OF inv n n] r by (auto simp: alloc_result_def)
  then have "(r = 0 \<longrightarrow> mm_live L s' P) \<and> (r \<noteq> 0 \<longrightarrow> r \<notin> P \<and> mm_live L s' (insert r P) \<and>
      unat n \<le> payload s' r) \<and> (\<forall>q\<in>P. payload s' q = payload s q)"
  proof cases
    case ok
    then have "r \<notin> P" by force
    moreover have "mm_live L s' (insert r P)"
      using ok ge lay by (auto simp: mm_live_def mm_inv_def)
    moreover have "unat n \<le> payload s' r"
      using ok(1,5) quantas_for_bounds(2)[OF n] by (simp add: payload_def)
    ultimately show ?thesis using ok by (auto simp: payload_def sizeof_mem_header_def)
  next
    case null
    then show ?thesis using ge lay by (auto simp: mm_live_def mm_inv_def payload_def)
  qed
  then show "r = 0 \<Longrightarrow> mm_live L s' P" "r \<noteq> 0 \<Longrightarrow> r \<notin> P" "r \<noteq> 0 \<Longrightarrow> mm_live L s' (insert r P)"
    "r \<noteq> 0 \<Longrightarrow> unat n \<le> payload s' r" "q \<in> P \<Longrightarrow> payload s' q = payload s q"
    by blast+
qed

text \<open>
  How much of the pool a request can use up: an allocation only fails when this much is not
  left, and it never uses more.
\<close>

definition mm_used :: "memmgr \<Rightarrow> nat" where
  "mm_used s = unat (pool_free_pos s)"

definition pool_cost :: "u32 \<Rightarrow> nat" where
  "pool_cost n = 8 * max 2 ((unat n + 7) div 8 + 1)"

lemma mm_live_alloc_room:
  assumes live: "mm_live L s P" and n: "request_ok n" and r: "memmgr_alloc L n s = Some (r, s')"
  shows "mm_used s' \<le> mm_used s + pool_cost n"
    and "mm_used s + pool_cost n \<le> unat POOL_SIZE \<Longrightarrow> r \<noteq> 0"
proof -
  have inv: "mm_inv L s ((\<lambda>r. r - sizeof_mem_header) ` P)" using live by (simp add: mm_live_def)
  have c: "sizeof_mem_header * max 2 (unat (quantas_for n)) = pool_cost n"
    by (simp add: unat_quantas_for[OF n] pool_cost_def sizeof_mem_header_def)
  show "mm_used s' \<le> mm_used s + pool_cost n"
    using memmgr_alloc_core[OF inv n n] r c by (auto simp: alloc_result_def mm_used_def)
  show "mm_used s + pool_cost n \<le> unat POOL_SIZE \<Longrightarrow> r \<noteq> 0"
    using memmgr_alloc_core[OF inv n n] r c
    by (auto simp: alloc_result_def mm_used_def sizeof_mem_header_def)
qed

lemma mm_live_alloc_returns:
  assumes "mm_live L s P" "request_ok n"
  shows "\<exists>r s'. memmgr_alloc L n s = Some (r, s')"
  using memmgr_alloc_core[of L s _ n] assms by (fastforce simp: mm_live_def)

lemma mm_live_free:
  assumes live: "mm_live L s P" and r: "r \<in> P"
  shows "\<exists>s'. memmgr_free r s = Some s' \<and> mm_live L s' (P - {r}) \<and>
    (\<forall>q\<in>P - {r}. payload s' q = payload s q)"
proof -
  let ?f = "\<lambda>r. r - sizeof_mem_header"
  have inv: "mm_inv L s (?f ` P)" and lay: "layout_ok L" and ge: "\<forall>r\<in>P. sizeof_mem_header \<le> r"
    using live by (auto simp: mm_live_def mm_inv_def)
  have "?f ` P \<noteq> {}" using r by auto
  with inv obtain ps where core: "mm_core L s ps (?f ` P)" by (auto simp: mm_inv_def)
  have "inj_on ?f P" using ge by (intro inj_onI) (metis eq_diff_iff)
  then have img: "?f ` P - {?f r} = ?f ` (P - {r})"
    using inj_on_image_set_diff[of ?f P P "{r}"] r by simp
  obtain s' ps' where s': "memmgr_free (?f r + sizeof_mem_header) s = Some s'"
    "mm_core L s' ps' (?f ` P - {?f r})" "\<forall>b\<in>?f ` P - {?f r}. hsize s' b = hsize s b"
    using memmgr_free_core[OF lay core, of "?f r"] r by (metis imageI)
  then have "memmgr_free r s = Some s'" using ge r by simp
  moreover have "mm_live L s' (P - {r})"
    using s'(2) ge lay img by (auto simp: mm_live_def mm_inv_def)
  ultimately show ?thesis using s'(3) img by (auto simp: payload_def)
qed

lemma mm_live_block:
  assumes live: "mm_live L s P" and q: "q \<in> P"
  shows "pool_addr L + sizeof_mem_header \<le> q"
    and "q + payload s q \<le> pool_addr L + unat POOL_SIZE"
    and "sizeof_mem_header dvd q - pool_addr L"
    and "r \<in> P \<Longrightarrow> q < r \<Longrightarrow> q + payload s q + sizeof_mem_header \<le> r"
proof -
  let ?f = "\<lambda>r. r - sizeof_mem_header"
  have inv: "mm_inv L s (?f ` P)" and ge: "\<forall>r\<in>P. sizeof_mem_header \<le> r"
    using live by (auto simp: mm_live_def)
  have "?f ` P \<noteq> {}" using q by auto
  with inv obtain ps where core: "mm_core L s ps (?f ` P)" by (auto simp: mm_inv_def)
  have fq: "?f q \<in> set ps \<union> ?f ` P" using q by simp
  note B = mm_core_block[OF core fq]
  have sz: "sizeof_mem_header + payload s q = bsz s (?f q)"
    using B(3) by (cases "unat (hsize s (?f q))") (simp_all add: payload_def)
  show lo: "pool_addr L + sizeof_mem_header \<le> q" using B(1) bspec[OF ge q] by linarith
  show "q + payload s q \<le> pool_addr L + unat POOL_SIZE" using B(2) sz bspec[OF ge q] by linarith
  have "sizeof_mem_header dvd ?f q - pool_addr L" using mm_coreD(8)[OF core] fq by blast
  moreover have "q - pool_addr L = (?f q - pool_addr L) + sizeof_mem_header" using lo by linarith
  ultimately show "sizeof_mem_header dvd q - pool_addr L" by simp
  assume r: "r \<in> P" "q < r"
  have "?f q < ?f r" using r bspec[OF ge q] bspec[OF ge r(1)] by linarith
  then have "?f q + bsz s (?f q) \<le> ?f r" using B(4)[of "?f r"] r by blast
  then show "q + payload s q + sizeof_mem_header \<le> r"
    using sz bspec[OF ge q] bspec[OF ge r(1)] by linarith
qed

lemma mm_live_disjoint:
  assumes live: "mm_live L s P" and "q \<in> P" "r \<in> P" "q \<noteq> r"
  shows "{q..<q + payload s q} \<inter> {r..<r + payload s r} = {}"
  using mm_live_block(4)[OF live, of q r] mm_live_block(4)[OF live, of r q] assms(2-4)
  by (cases q r rule: linorder_cases) auto

section \<open>The allocator interface\<close>

text \<open>
  What the drivers and the device discovery rely on: live pointers keep their extents while
  others come and go, and never overlap.
\<close>

locale allocator =
  fixes live :: "'s \<Rightarrow> addr set \<Rightarrow> bool"
    and alloc :: "u32 \<Rightarrow> 's \<Rightarrow> (addr \<times> 's) option"
    and free :: "addr \<Rightarrow> 's \<Rightarrow> 's option"
    and extent :: "'s \<Rightarrow> addr \<Rightarrow> nat"
    and request :: "u32 \<Rightarrow> bool"
  assumes alloc_returns: "live s P \<Longrightarrow> request n \<Longrightarrow> \<exists>r s'. alloc n s = Some (r, s')"
    and alloc_null: "live s P \<Longrightarrow> request n \<Longrightarrow> alloc n s = Some (0, s') \<Longrightarrow> live s' P"
    and alloc_fresh: "live s P \<Longrightarrow> request n \<Longrightarrow> alloc n s = Some (r, s') \<Longrightarrow> r \<noteq> 0 \<Longrightarrow>
          r \<notin> P \<and> live s' (insert r P) \<and> unat n \<le> extent s' r"
    and alloc_frame: "live s P \<Longrightarrow> request n \<Longrightarrow> alloc n s = Some (r, s') \<Longrightarrow> q \<in> P \<Longrightarrow>
          extent s' q = extent s q"
    and free_live: "live s P \<Longrightarrow> r \<in> P \<Longrightarrow>
          \<exists>s'. free r s = Some s' \<and> live s' (P - {r}) \<and> (\<forall>q\<in>P - {r}. extent s' q = extent s q)"
    and live_disjoint: "live s P \<Longrightarrow> q \<in> P \<Longrightarrow> r \<in> P \<Longrightarrow> q \<noteq> r \<Longrightarrow>
          {q..<q + extent s q} \<inter> {r..<r + extent s r} = {}"
begin

text \<open>A run of allocations that stops at the first null pointer.\<close>

fun alloc_run :: "u32 list \<Rightarrow> 's \<Rightarrow> (addr list \<times> 's) option" where
  "alloc_run [] s = Some ([], s)"
| "alloc_run (n # ns) s =
     (case alloc n s of
        None \<Rightarrow> None
      | Some (r, s1) \<Rightarrow>
          (if r = 0 then Some ([], s1)
           else (case alloc_run ns s1 of None \<Rightarrow> None | Some (rs, s2) \<Rightarrow> Some (r # rs, s2))))"

lemma alloc_run_spec:
  assumes "live s P" "\<forall>n\<in>set ns. request n"
  shows "\<exists>rs s'. alloc_run ns s = Some (rs, s') \<and> live s' (set rs \<union> P) \<and> distinct rs \<and>
    set rs \<inter> P = {} \<and> (\<forall>q\<in>P. extent s' q = extent s q) \<and> length rs \<le> length ns \<and>
    (\<forall>i<length rs. unat (ns ! i) \<le> extent s' (rs ! i))"
  using assms
proof (induction ns arbitrary: s P)
  case Nil
  then show ?case by simp
next
  case (Cons n ns)
  obtain r s1 where a: "alloc n s = Some (r, s1)" using alloc_returns Cons.prems by fastforce
  show ?case
  proof (cases "r = 0")
    case True
    then show ?thesis
      using a alloc_null[of s P n s1] alloc_frame[OF Cons.prems(1) _ a] Cons.prems by simp
  next
    case False
    have f: "r \<notin> P" "live s1 (insert r P)" "unat n \<le> extent s1 r"
      using alloc_fresh[OF Cons.prems(1) _ a False] Cons.prems(2) by auto
    have fr: "\<forall>q\<in>P. extent s1 q = extent s q"
      using alloc_frame[OF Cons.prems(1) _ a] Cons.prems(2) by simp
    obtain rs s' where IH: "alloc_run ns s1 = Some (rs, s')" "live s' (set rs \<union> insert r P)"
      "distinct rs" "set rs \<inter> insert r P = {}" "\<forall>q\<in>insert r P. extent s' q = extent s1 q"
      "length rs \<le> length ns" "\<forall>i<length rs. unat (ns ! i) \<le> extent s' (rs ! i)"
      using Cons.IH[OF f(2)] Cons.prems(2) by auto
    have "alloc_run (n # ns) s = Some (r # rs, s')" using a False IH(1) by simp
    moreover have "\<forall>i<length (r # rs). unat ((n # ns) ! i) \<le> extent s' ((r # rs) ! i)"
      using IH(5,7) f(3) by (auto simp: nth_Cons' less_Suc_eq_0_disj)
    ultimately show ?thesis using IH f(1) fr by auto
  qed
qed

end

interpretation pool: allocator "mm_live L" "memmgr_alloc L" memmgr_free payload request_ok
  for L
proof (unfold_locales, goal_cases)
  case (1 s P n) then show ?case by (rule mm_live_alloc_returns)
next
  case (2 s P n s') then show ?case using mm_live_alloc(1) by blast
next
  case (3 s P n r s') then show ?case using mm_live_alloc(2-4) by blast
next
  case (4 s P n r s' q) then show ?case using mm_live_alloc(5) by blast
next
  case (5 s P r) then show ?case by (rule mm_live_free)
next
  case (6 s P q r) then show ?case by (rule mm_live_disjoint)
qed

section \<open>Histories\<close>

text \<open>
  The states a program reaches that starts with \<^verbatim>\<open>memmgr_init\<close> and then allocates, with requests for which
  the arithmetic of the code does not wrap, and releases what it holds, with the pointers it holds.
\<close>

inductive mm_reach :: "mem_layout \<Rightarrow> memmgr \<Rightarrow> addr set \<Rightarrow> bool" for L where
  init: "mm_reach L (memmgr_init L s) {}"
| alloc: "mm_reach L s P \<Longrightarrow> request_ok n \<Longrightarrow> memmgr_alloc L n s = Some (r, s') \<Longrightarrow>
    mm_reach L s' (if r = 0 then P else insert r P)"
| release: "mm_reach L s P \<Longrightarrow> r \<in> P \<Longrightarrow> memmgr_free r s = Some s' \<Longrightarrow> mm_reach L s' (P - {r})"

inductive_cases mm_reachE: "mm_reach L s P"

lemma mm_live_init: "layout_ok L \<Longrightarrow> mm_live L (memmgr_init L s) {}"
  by (simp add: mm_live_def mm_inv_def memmgr_init_def)

lemma mm_reach_live:
  assumes "layout_ok L" and "mm_reach L s P"
  shows "mm_live L s P"
  using assms(2)
proof (induction rule: mm_reach.induct)
  case (init s)
  show ?case by (rule mm_live_init[OF assms(1)])
next
  case (alloc s P n r s')
  then show ?case using pool.alloc_null pool.alloc_fresh by (cases "r = 0") auto
next
  case (release s P r s')
  then show ?case using pool.free_live by fastforce
qed

lemma mm_core_all_free:
  assumes core: "mm_core L s ps {}" and fp: "pool_free_pos s \<noteq> 0"
  shows "ps = [pool_addr L]" and "bsz s (pool_addr L) = unat (pool_free_pos s)"
proof -
  note C = mm_coreD[OF core]
  let ?lo = "pool_addr L" and ?hi = "pool_addr L + unat (pool_free_pos s)"
  have bl: "blocks ?lo ?hi (bsz s) (set ps)" using C(6) by simp
  have lt: "?lo < ?hi" using fp by (simp add: unat_gt_0)
  have lo: "?lo \<in> set ps" by (rule blocks_first[OF bl lt])
  have top: "?lo + bsz s ?lo = ?hi"
    using blocks_successor[OF bl lo] C(9) lo blocksD(5)[OF bl lo] by fastforce
  have only: "b = ?lo" if b: "b \<in> set ps" for b
  proof (rule ccontr)
    assume "b \<noteq> ?lo"
    then have "?lo < b" using blocksD(4)[OF bl b] by simp
    then have "?hi \<le> b" using blocksD(7)[OF bl lo b] top by simp
    then show False using blocksD(5,6)[OF bl b] by linarith
  qed
  show "ps = [?lo]"
  proof (cases ps)
    case (Cons x xs)
    then have "x = ?lo" using only by simp
    moreover have "xs = []" using only C(2) Cons calculation by (cases xs) auto
    ultimately show ?thesis using Cons by simp
  qed (use lo in simp)
  show "bsz s ?lo = unat (pool_free_pos s)" using top by simp
qed

section \<open>Statistics\<close>

lemma stats_pool_blocks:
  assumes bl: "blocks lo hi (bsz s) B" and hi: "hi < 2 ^ 32"
  shows "p \<in> B \<or> p = hi \<Longrightarrow>
    \<exists>ls. stats_pool s hi p = Some ls \<and> set ls = {(b, hsize s b) |b. b \<in> B \<and> p \<le> b}"
proof (induction "hi - p" arbitrary: p rule: less_induct)
  case less
  note D = blocksD[OF bl]
  show ?case
  proof (cases "p = hi")
    case True
    then have "stats_pool s hi p = Some []" by (subst stats_pool.simps) simp
    moreover have "\<not> (b \<in> B \<and> p \<le> b)" for b
      using D(5)[of b] D(6)[of b] True by (metis add_le_same_cancel1 le_trans not_less)
    ultimately show ?thesis by auto
  next
    case False
    then have p: "p \<in> B" using less.prems by simp
    let ?q = "p + bsz s p"
    have q: "?q \<in> B \<or> ?q = hi" "hi - ?q < hi - p" "p < hi"
      using blocks_successor[OF bl p] D(5,6)[OF p] by linarith+
    then obtain ls where ls: "stats_pool s hi ?q = Some ls" "set ls = {(b, hsize s b) |b. b \<in> B \<and> ?q \<le> b}"
      using less.hyps[of ?q] by blast
    have "stats_pool s hi p = Some ((p, hsize s p) # ls)"
      using q(3) ls(1) by (subst stats_pool.simps) (use D(5)[OF p] hi in \<open>simp add: header_add_def\<close>)
    moreover have "b \<in> B \<and> p \<le> b \<longleftrightarrow> b = p \<or> b \<in> B \<and> ?q \<le> b" for b
      using D(7)[OF p, of b] p by auto
    ultimately show ?thesis using ls(2) by auto
  qed
qed

lemma stats_free_walk:
  assumes lk: "links (hnext s) fl (hd fl)" and d: "distinct fl" and f: "f < length fl" "freep s = fl ! f"
  shows "i < length fl \<Longrightarrow> n < length fl \<Longrightarrow> (Suc i + n) mod length fl = f \<Longrightarrow>
    \<exists>ls. stats_free s (fl ! i) = Some ls \<and>
      map fst ls = map (\<lambda>k. fl ! ((i + k) mod length fl)) [0..<Suc n]"
proof (induction n arbitrary: i)
  case 0
  then have "hnext s (fl ! i) = freep s" using circular_next[OF lk 0(1)] f(2) by simp
  then show ?case using 0 by (subst stats_free.simps) simp
next
  case (Suc n)
  let ?m = "length fl"
  let ?j = "Suc i mod ?m"
  have m0: "0 < ?m" using f by linarith
  have j: "?j < ?m" using m0 by simp
  have nx: "hnext s (fl ! i) = fl ! ?j" by (rule circular_next[OF lk Suc.prems(1)])
  have "?j \<noteq> f"
  proof
    assume "?j = f"
    then have "(Suc i + Suc n) mod ?m = (Suc i + 0) mod ?m" using Suc.prems(3) by simp
    then have "?m dvd Suc n"
      by (metis add_0_right add_left_cancel diff_add_inverse dvd_add_right_iff le_add1 mod_eq_dvd_iff_nat)
    then show False using Suc.prems(2) by (simp add: nat_dvd_not_less)
  qed
  then have ne: "hnext s (fl ! i) \<noteq> freep s" using nx d f j by (simp add: nth_eq_iff_index_eq)
  have "(Suc ?j + n) mod ?m = f"
    using Suc.prems(3) by (metis add_Suc add_Suc_shift mod_add_left_eq)
  then obtain ls where ls: "stats_free s (fl ! ?j) = Some ls"
    "map fst ls = map (\<lambda>k. fl ! ((?j + k) mod ?m)) [0..<Suc n]"
    using Suc.IH[OF j] Suc.prems(2) by auto
  have "(?j + k) mod ?m = (i + Suc k) mod ?m" for k
    by (metis add_Suc_shift mod_add_left_eq)
  then have "map fst ls = map (\<lambda>k. fl ! ((i + k) mod ?m)) [Suc 0..<Suc (Suc n)]"
    using ls(2) by (simp only: map_Suc_upt[symmetric] map_map comp_def)
  then have "map fst ((fl ! i, hsize s (fl ! i), hnext s (fl ! i)) # ls)
      = map (\<lambda>k. fl ! ((i + k) mod ?m)) [0..<Suc (Suc n)]"
    using Suc.prems(1) by (subst upt_conv_Cons) auto
  moreover have "stats_free s (fl ! i) = Some ((fl ! i, hsize s (fl ! i), hnext s (fl ! i)) # ls)"
    using ne nx ls(1) by (subst stats_free.simps) simp
  ultimately show ?case by blast
qed


lemma memmgr_print_stats_core:
  assumes lay: "layout_ok L" and core: "mm_core L s ps al"
  shows "\<exists>blks frees. memmgr_print_stats L s = Some (pool_free_pos s, POOL_SIZE - pool_free_pos s, blks, frees) \<and>
    set blks = {(b, hsize s b) |b. b \<in> set ps \<union> al} \<and>
    set (map fst frees) = insert (base_addr L) (set ps)"
proof -
  note C = mm_coreD[OF core]
  let ?lo = "pool_addr L" and ?hi = "pool_addr L + unat (pool_free_pos s)"
  define fl where "fl = base_addr L # ps"
  have hi: "?hi < 2 ^ 32" using lay C(7) by (simp add: layout_ok_def)
  have "?lo \<in> set ps \<union> al \<or> ?lo = ?hi" using blocks_first[OF C(6)] by fastforce
  then obtain blks where b: "stats_pool s ?hi ?lo = Some blks"
    "set blks = {(b, hsize s b) |b. b \<in> set ps \<union> al \<and> ?lo \<le> b}"
    using stats_pool_blocks[OF C(6) hi] by blast
  have "set blks = {(b, hsize s b) |b. b \<in> set ps \<union> al}"
    using b(2) blocksD(4)[OF C(6)] by auto
  moreover obtain f where f: "f < length fl" "freep s = fl ! f"
    using C(4) fl_def by (metis in_set_conv_nth)
  have n0: "0 < length fl" by (simp add: fl_def)
  have lk: "links (hnext s) fl (hd fl)" using C(1) by (simp add: fl_def)
  have dist: "distinct fl"
    using C(2) mm_core_base(1)[OF lay core] by (auto simp: fl_def strict_sorted_iff)
  have m: "(Suc f + (length fl - 1)) mod length fl = f" using f n0 by simp
  obtain frees where fr: "stats_free s (fl ! f) = Some frees"
    "map fst frees = map (\<lambda>k. fl ! ((f + k) mod length fl)) [0..<Suc (length fl - 1)]"
    using stats_free_walk[OF lk dist f f(1) _ m] n0 by auto
  have "Suc (length fl - 1) = length fl" using n0 by simp
  then have "map fst frees = map (\<lambda>k. fl ! ((f + k) mod length fl)) [0..<length fl]"
    using fr(2) by metis
  then have "map fst frees = rotate f fl"
    by (intro nth_equalityI) (auto simp: nth_rotate)
  then have "set (map fst frees) = insert (base_addr L) (set ps)" by (simp only: set_rotate) (simp add: fl_def)
  ultimately show ?thesis
    using b(1) fr(1) f(2) mm_core_freep[OF lay core] by (simp add: memmgr_print_stats_def)
qed

section \<open>Properties\<close>

text \<open>
  C1 (safety). From every state in which the pointers \<open>P\<close> are live, \<^verbatim>\<open>memmgr_alloc\<close>
  returns for every request \<open>n\<close> of at most 2^32 - 2064 bytes (\<open>request_ok\<close>): either the null pointer, or a pointer
  to at least \<open>n\<close> bytes inside of the pool, aligned to a header, that was not live before. The
  live blocks keep their extents, and the invariant holds again. For larger requests the computation
  of the number of quanta or of the end of the block wraps, and nothing of this is claimed.
\<close>

theorem memmgr_alloc_correct:
  assumes "mm_live L s P" and "request_ok n"
  shows "\<exists>r s'. memmgr_alloc L n s = Some (r, s') \<and>
    (if r = 0 then mm_live L s' P
     else r \<notin> P \<and> mm_live L s' (insert r P) \<and> unat n \<le> payload s' r \<and>
       sizeof_mem_header dvd r - pool_addr L \<and> pool_addr L \<le> r \<and>
       r + payload s' r \<le> pool_addr L + unat POOL_SIZE) \<and>
    (\<forall>q\<in>P. payload s' q = payload s q)"
proof -
  obtain r s' where r: "memmgr_alloc L n s = Some (r, s')" using pool.alloc_returns[OF assms] by blast
  then show ?thesis
    using pool.alloc_null[OF assms] pool.alloc_fresh[OF assms r] pool.alloc_frame[OF assms r]
      mm_live_block(1-3)[of L s' "insert r P" r]
    by (cases "r = 0") auto
qed

definition demo_layout :: mem_layout where
  "demo_layout = \<lparr>base_addr = 256, pool_addr = 512\<rparr>"

definition demo_memmgr :: memmgr where
  "demo_memmgr = \<lparr>hnext = \<lambda>_. 0, hsize = \<lambda>_. 0, freep = 0, pool_free_pos = 0\<rparr>"

lemma demo_layout_ok: "layout_ok demo_layout"
  by (simp add: layout_ok_def demo_layout_def memmgr_consts)

lemmas demo_live = mm_live_init[OF demo_layout_ok, of demo_memmgr]

theorem memmgr_alloc_correct_witness:
  "\<exists>r s'. memmgr_alloc demo_layout 100 (memmgr_init demo_layout demo_memmgr) = Some (r, s') \<and>
    (r \<noteq> 0 \<longrightarrow> 100 \<le> payload s' r)"
proof -
  have "request_ok 100" by (simp add: request_ok_def POOL_SIZE_def)
  from memmgr_alloc_correct[OF demo_live this] show ?thesis by auto
qed

text \<open>
  C2 (safety). Releasing a live pointer always returns, the pointer is not live any more and
  the other live blocks are untouched.
\<close>

theorem memmgr_free_correct:
  assumes "mm_live L s P" and "r \<in> P"
  shows "\<exists>s'. memmgr_free r s = Some s' \<and> mm_live L s' (P - {r}) \<and>
    (\<forall>q\<in>P - {r}. payload s' q = payload s q)"
  using assms by (rule pool.free_live)


text \<open>Running the routines on a concrete state.\<close>

lemmas memmgr_run_simps = memmgr_alloc_def alloc_loop.simps quantas_for_def demo_layout_def
  demo_memmgr_def memmgr_init_def get_mem_from_pool_def memmgr_free_def free_search.simps
  take_block_def combine_higher_def combine_lower_def header_add_def memmgr_consts Let_def

lemma demo_alloc:
  "\<exists>s'. memmgr_alloc demo_layout 100 (memmgr_init demo_layout demo_memmgr) = Some (520, s')"
  by (simp add: memmgr_run_simps)

theorem memmgr_free_correct_witness:
  "\<exists>s s'. mm_live demo_layout s {520} \<and> memmgr_free 520 s = Some s' \<and> mm_live demo_layout s' {}"
proof -
  obtain s where s: "memmgr_alloc demo_layout 100 (memmgr_init demo_layout demo_memmgr) = Some (520, s)"
    using demo_alloc by blast
  have "request_ok 100" by (simp add: request_ok_def POOL_SIZE_def)
  then have "mm_live demo_layout s {520}" using pool.alloc_fresh[OF demo_live _ s] by simp
  then show ?thesis using memmgr_free_correct[of demo_layout s "{520}" 520] by auto
qed

text \<open>
  The null pointer means exhaustion: no free block is large enough and the
  pool has no room left for a new block of the size the code would take.
\<close>

lemma memmgr_alloc_null_exhausted:
  assumes "mm_inv L s al" and "request_ok n" and "memmgr_alloc L n s = Some (0, s')"
  shows "\<exists>ps. mm_core L s' ps al \<and> (\<forall>b\<in>set ps. hsize s' b < quantas_for n) \<and>
    unat POOL_SIZE < unat (pool_free_pos s') + sizeof_mem_header * max 2 (unat (quantas_for n))"
  using memmgr_alloc_core[OF assms(1,2,2)] assms(3) by (auto simp: alloc_result_def)

lemma memmgr_alloc_null_exhausted_witness:
  "\<exists>s'. memmgr_alloc demo_layout 4096 (memmgr_init demo_layout demo_memmgr) = Some (0, s') \<and>
     (\<exists>ps. mm_core demo_layout s' ps {} \<and> (\<forall>b\<in>set ps. hsize s' b < quantas_for 4096))"
proof -
  have e: "\<exists>s'. memmgr_alloc demo_layout 4096 (memmgr_init demo_layout demo_memmgr) = Some (0, s')"
    by (simp add: memmgr_alloc_def alloc_loop.simps quantas_for_def demo_layout_def demo_memmgr_def
        memmgr_init_def get_mem_from_pool_def memmgr_consts Let_def)
  have i: "mm_inv demo_layout (memmgr_init demo_layout demo_memmgr) {}" "request_ok 4096"
    using demo_layout_ok by (simp_all add: mm_inv_def memmgr_init_def request_ok_def POOL_SIZE_def)
  from e obtain s' where s': "memmgr_alloc demo_layout 4096 (memmgr_init demo_layout demo_memmgr) = Some (0, s')"
    by blast
  from memmgr_alloc_null_exhausted[OF i s'] s' show ?thesis by blast
qed

text \<open>
  C3 (invariant). Whatever a program allocates and releases after \<^verbatim>\<open>memmgr_init\<close>, with no request above
  2^32 - 2064 bytes (the condition \<open>request_ok\<close> of \<open>mm_reach\<close>), the
  blocks it holds never overlap and stay inside of the pool.
\<close>

theorem memmgr_live_blocks_disjoint:
  assumes "layout_ok L" and "mm_reach L s P" and "q \<in> P" and "r \<in> P" and "q \<noteq> r"
  shows "{q..<q + payload s q} \<inter> {r..<r + payload s r} = {} \<and>
    {q..<q + payload s q} \<subseteq> {pool_addr L..<pool_addr L + unat POOL_SIZE}"
proof (rule conjI)
  note live = mm_reach_live[OF assms(1,2)]
  show "{q..<q + payload s q} \<inter> {r..<r + payload s r} = {}"
    by (rule pool.live_disjoint[OF live assms(3-5)])
  show "{q..<q + payload s q} \<subseteq> {pool_addr L..<pool_addr L + unat POOL_SIZE}"
    using mm_live_block(1,2)[OF live assms(3)] by auto
qed

lemma demo_alloc2:
  "\<exists>s1 s2. memmgr_alloc demo_layout 100 (memmgr_init demo_layout demo_memmgr) = Some (520, s1) \<and>
    memmgr_alloc demo_layout 8 s1 = Some (632, s2)"
  by (simp add: memmgr_run_simps)

lemma demo_reach2: "\<exists>s. mm_reach demo_layout s {520, 632}"
proof -
  obtain s1 s2 where a: "memmgr_alloc demo_layout 100 (memmgr_init demo_layout demo_memmgr) = Some (520, s1)"
    "memmgr_alloc demo_layout 8 s1 = Some (632, s2)" using demo_alloc2 by blast
  have "request_ok 100" "request_ok 8" by (simp_all add: request_ok_def POOL_SIZE_def)
  then have "mm_reach demo_layout s2 (insert 632 (insert 520 {}))"
    using mm_reach.alloc[OF mm_reach.alloc[OF mm_reach.init _ a(1)] _ a(2)] by simp
  then show ?thesis by (metis insert_commute)
qed

theorem memmgr_live_blocks_disjoint_witness:
  "\<exists>s. mm_reach demo_layout s {520, 632} \<and> {520..<520 + payload s 520} \<inter> {632..<632 + payload s 632} = {}"
proof -
  obtain s where s: "mm_reach demo_layout s {520, 632}" using demo_reach2 by blast
  have "520 \<in> {520, 632 :: addr}" "632 \<in> {520, 632 :: addr}" "(520::addr) \<noteq> 632" by simp_all
  from memmgr_live_blocks_disjoint[OF demo_layout_ok s this] s show ?thesis by blast
qed

text \<open>
  C4 (functional). Once a program that never requested more than 2^32 - 2064 bytes at once (the condition
  \<open>request_ok\<close> of \<open>mm_reach\<close>) has released everything it held, the free list has been
  coalesced completely: it is one block that covers all memory ever taken from the pool.
\<close>

theorem memmgr_release_all_coalesces:
  assumes "layout_ok L" and "mm_reach L s {}" and "pool_free_pos s \<noteq> 0"
  shows "links (hnext s) [base_addr L, pool_addr L] (base_addr L) \<and>
    sizeof_mem_header * unat (hsize s (pool_addr L)) = unat (pool_free_pos s)"
proof -
  have "mm_inv L s {}" using mm_reach_live[OF assms(1,2)] by (simp add: mm_live_def)
  then obtain ps where core: "mm_core L s ps {}" using assms(3) by (auto simp: mm_inv_def)
  show ?thesis using mm_core_all_free[OF core assms(3)] mm_coreD(1)[OF core] by simp
qed

lemma demo_release:
  "\<exists>s1 s2. memmgr_alloc demo_layout 100 (memmgr_init demo_layout demo_memmgr) = Some (520, s1) \<and>
    memmgr_free 520 s1 = Some s2 \<and> pool_free_pos s2 = 112"
  by (simp add: memmgr_run_simps)

theorem memmgr_release_all_coalesces_witness:
  "\<exists>s. mm_reach demo_layout s {} \<and> pool_free_pos s = 112 \<and> hnext s 256 = 512 \<and> hnext s 512 = 256 \<and>
    8 * unat (hsize s 512) = unat (pool_free_pos s)"
proof -
  obtain s1 s2 where a: "memmgr_alloc demo_layout 100 (memmgr_init demo_layout demo_memmgr) = Some (520, s1)"
    "memmgr_free 520 s1 = Some s2" "pool_free_pos s2 = 112" using demo_release by blast
  have "request_ok 100" by (simp add: request_ok_def POOL_SIZE_def)
  then have "mm_reach demo_layout s1 {520}"
    using mm_reach.alloc[OF mm_reach.init _ a(1)] by simp
  then have r: "mm_reach demo_layout s2 {}"
    using mm_reach.release[OF _ _ a(2), of demo_layout "{520}"] by simp
  from memmgr_release_all_coalesces[OF demo_layout_ok r] r a(3) show ?thesis
    by (auto simp: demo_layout_def sizeof_mem_header_def)
qed

text \<open>
  \<^verbatim>\<open>memmgr_print_stats\<close> ends in every reachable state, and what it
  prints is complete: every block of the pool with its size, and every header of the free list.
\<close>

lemma memmgr_print_stats_complete:
  assumes "layout_ok L" and "mm_reach L s P" and "freep s \<noteq> 0"
  shows "\<exists>blks frees. memmgr_print_stats L s = Some (pool_free_pos s, POOL_SIZE - pool_free_pos s, blks, frees) \<and>
    (\<forall>r\<in>P. (r - sizeof_mem_header, hsize s (r - sizeof_mem_header)) \<in> set blks) \<and>
    fst ` set blks = (\<lambda>r. r - sizeof_mem_header) ` P \<union> (set (map fst frees) - {base_addr L}) \<and>
    (\<Union>(b, n)\<in>set blks. {b..<header_add b n}) = {pool_addr L..<pool_addr L + unat (pool_free_pos s)}"
proof -
  let ?al = "(\<lambda>r. r - sizeof_mem_header) ` P"
  have "mm_inv L s ?al" using mm_reach_live[OF assms(1,2)] by (simp add: mm_live_def)
  then obtain ps where core: "mm_core L s ps ?al" using assms(3) by (auto simp: mm_inv_def)
  obtain blks frees where p: "memmgr_print_stats L s = Some (pool_free_pos s, POOL_SIZE - pool_free_pos s, blks, frees)"
    "set blks = {(b, hsize s b) |b. b \<in> set ps \<union> ?al}" "set (map fst frees) = insert (base_addr L) (set ps)"
    using memmgr_print_stats_core[OF assms(1) core] by blast
  have img: "set blks = (\<lambda>b. (b, hsize s b)) ` (set ps \<union> ?al)" using p(2) by auto
  have "(\<Union>(b, n)\<in>set blks. {b..<header_add b n}) = (\<Union>b\<in>set ps \<union> ?al. {b..<b + bsz s b})"
    using header_add_block[OF assms(1) core] by (auto simp: img)
  also have "\<dots> = {pool_addr L..<pool_addr L + unat (pool_free_pos s)}"
    by (rule blocks_cover[OF mm_coreD(6)[OF core]])
  finally have cov: "(\<Union>(b, n)\<in>set blks. {b..<header_add b n}) = {pool_addr L..<pool_addr L + unat (pool_free_pos s)}" .
  have live: "\<forall>r\<in>P. (r - sizeof_mem_header, hsize s (r - sizeof_mem_header)) \<in> set blks" by (auto simp: img)
  have "fst ` set blks = set ps \<union> ?al" unfolding img by force
  moreover have "set (map fst frees) - {base_addr L} = set ps"
    using p(3) mm_core_base(1)[OF assms(1) core] by auto
  ultimately have "fst ` set blks = ?al \<union> (set (map fst frees) - {base_addr L})" by blast
  with p(1) cov live show ?thesis by blast
qed

lemma memmgr_print_stats_complete_witness:
  "\<exists>s blks frees. mm_reach demo_layout s {520, 632} \<and>
     memmgr_print_stats demo_layout s = Some (pool_free_pos s, POOL_SIZE - pool_free_pos s, blks, frees)"
proof -
  obtain s where s: "mm_reach demo_layout s {520, 632}" using demo_reach2 by blast
  have "mm_inv demo_layout s ((\<lambda>r. r - sizeof_mem_header) ` {520, 632})"
    using mm_reach_live[OF demo_layout_ok s] by (simp only: mm_live_def)
  then have "freep s \<noteq> 0"
    unfolding mm_inv_def using mm_core_freep[OF demo_layout_ok] by (metis image_is_empty insert_not_empty)
  from memmgr_print_stats_complete[OF demo_layout_ok s this] obtain blks frees where
    "memmgr_print_stats demo_layout s = Some (pool_free_pos s, POOL_SIZE - pool_free_pos s, blks, frees)"
    by (elim exE conjE)
  with s show ?thesis by (intro exI conjI)
qed

text \<open>The payload of a new block is the size asked for, rounded up to a multiple of 8.\<close>

lemma alloc_payload:
  assumes "mm_live L s P" "request_ok n" "memmgr_alloc L n s = Some (r, s')" "r \<noteq> 0"
  shows "payload s' r = 8 * ((unat n + 7) div 8)"
proof -
  have "mm_inv L s ((\<lambda>r. r - sizeof_mem_header) ` P)" using assms(1) by (simp add: mm_live_def)
  from memmgr_alloc_quantas[OF this quantas_for_bounds(1,3)[OF assms(2)]] assms(3,4) show ?thesis
    by (auto simp: alloc_result_def payload_def sizeof_mem_header_def unat_quantas_for[OF assms(2)])
qed

text \<open>
  The size computation of \<^verbatim>\<open>memmgr_alloc\<close> wraps at 32 bits: a request of
  \<open>2\<^sup>3\<^sup>2 - 1\<close> bytes is taken as one header only, so a pointer that is not null comes with
  no usable byte at all.
\<close>

lemma memmgr_alloc_wraps:
  assumes "mm_live L s P"
  shows "quantas_for 0xFFFFFFFF = 1 \<and>
    (\<exists>r s'. memmgr_alloc L 0xFFFFFFFF s = Some (r, s') \<and> (r \<noteq> 0 \<longrightarrow> payload s' r = 0))"
proof -
  have q: "quantas_for 0xFFFFFFFF = 1" by (simp add: quantas_for_def sizeof_mem_header_def)
  have inv: "mm_inv L s ((\<lambda>r. r - sizeof_mem_header) ` P)" using assms by (simp add: mm_live_def)
  have "\<exists>r s'. memmgr_alloc L 0xFFFFFFFF s = Some (r, s') \<and> (r \<noteq> 0 \<longrightarrow> payload s' r = 0)"
    using memmgr_alloc_quantas[OF inv, of "0xFFFFFFFF"]
    by (auto simp: q memmgr_consts alloc_result_def payload_def)
  with q show ?thesis by blast
qed

lemma memmgr_alloc_wraps_witness:
  "\<exists>r s'. memmgr_alloc demo_layout 0xFFFFFFFF (memmgr_init demo_layout demo_memmgr) = Some (r, s') \<and>
    r = 528 \<and> payload s' r = 0"
proof -
  have "\<exists>s'. memmgr_alloc demo_layout 0xFFFFFFFF (memmgr_init demo_layout demo_memmgr) = Some (528, s')"
    by (simp add: memmgr_run_simps word_le_nat_alt word_less_nat_alt)
  with memmgr_alloc_wraps[OF demo_live] show ?thesis by auto
qed

end
