(* ===== verification/Prog.thy ===== *)
theory Prog
  imports Prelude
begin

text \<open>
  Programs as functions on an explicit state, shared by the models of the firmware and of the
  PCIe driver: sequencing, waiting loops, and the rules to reason about what they keep.
\<close>

section \<open>Programs\<close>

text \<open>
  A program maps a state to nothing when it never returns, to a fault when it uses a null
  pointer or goes past the end of an array, and otherwise to a value and the next state.
\<close>

datatype fault = NullPointer | BufferOverrun | BadPointer

type_synonym ('s, 'a) prog = "'s \<Rightarrow> (fault + 'a \<times> 's) option"

definition ret :: "'a \<Rightarrow> ('s, 'a) prog" where
  "ret a s = Some (Inr (a, s))"

definition bnd :: "('s, 'a) prog \<Rightarrow> ('a \<Rightarrow> ('s, 'b) prog) \<Rightarrow> ('s, 'b) prog" where
  "bnd m f s =
     (case m s of
        None \<Rightarrow> None
      | Some (Inl e) \<Rightarrow> Some (Inl e)
      | Some (Inr (a, s')) \<Rightarrow> f a s')"

definition thn :: "('s, 'a) prog \<Rightarrow> ('s, 'b) prog \<Rightarrow> ('s, 'b) prog" where
  "thn m k = bnd m (\<lambda>_. k)"

definition fail :: "fault \<Rightarrow> ('s, 'a) prog" where
  "fail e s = Some (Inl e)"

definition gets :: "('s \<Rightarrow> 'a) \<Rightarrow> ('s, 'a) prog" where
  "gets g s = Some (Inr (g s, s))"

definition modify :: "('s \<Rightarrow> 's) \<Rightarrow> ('s, unit) prog" where
  "modify g s = Some (Inr ((), g s))"

lemma ret_run [simp]: "ret a s = Some (Inr (a, s))"
  by (simp add: ret_def)

lemma fail_run [simp]: "fail e s = Some (Inl e)"
  by (simp add: fail_def)

lemma gets_run [simp]: "gets g s = Some (Inr (g s, s))"
  by (simp add: gets_def)

lemma modify_run [simp]: "modify g s = Some (Inr ((), g s))"
  by (simp add: modify_def)

lemma bnd_ret [simp]: "bnd (ret a) f = f a"
  by (simp add: bnd_def fun_eq_iff)

lemma thn_ret [simp]: "thn (ret a) k = k"
  by (simp add: thn_def)

lemma bnd_ok_iff:
  "bnd m f s = Some (Inr r) \<longleftrightarrow> (\<exists>a s'. m s = Some (Inr (a, s')) \<and> f a s' = Some (Inr r))"
  by (auto simp: bnd_def split: option.splits sum.splits)

lemma thn_ok_iff:
  "thn m k s = Some (Inr r) \<longleftrightarrow> (\<exists>a s'. m s = Some (Inr (a, s')) \<and> k s' = Some (Inr r))"
  by (simp add: thn_def bnd_ok_iff)

lemma bnd_fault_iff:
  "bnd m f s = Some (Inl e) \<longleftrightarrow>
     m s = Some (Inl e) \<or> (\<exists>a s'. m s = Some (Inr (a, s')) \<and> f a s' = Some (Inl e))"
  by (auto simp: bnd_def split: option.splits sum.splits)

lemma bnd_mono [partial_function_mono]:
  fixes m :: "('b \<Rightarrow> 'c option) \<Rightarrow> ('s, 'a) prog"
  assumes "\<And>s. mono_option (\<lambda>F. m F s)" and "\<And>a s. mono_option (\<lambda>F. f a F s)"
  shows "mono_option (\<lambda>F. bnd (m F) (\<lambda>a. f a F) s)"
  unfolding monotone_def
proof (intro allI impI)
  fix x y :: "'b \<Rightarrow> 'c option" assume le: "option.le_fun x y"
  have m: "option_ord (m x s) (m y s)" using assms(1) le by (auto simp: monotone_def)
  have f: "option_ord (f a x t) (f a y t)" for a t using assms(2) le by (auto simp: monotone_def)
  show "option_ord (bnd (m x) (\<lambda>a. f a x) s) (bnd (m y) (\<lambda>a. f a y) s)"
  proof (cases "m x s")
    case None
    then show ?thesis by (simp add: bnd_def flat_ord_def)
  next
    case (Some r)
    then have "m y s = Some r" using m by (simp add: flat_ord_def)
    then show ?thesis using Some f by (cases r) (auto simp: bnd_def flat_ord_def)
  qed
qed

lemma thn_mono [partial_function_mono]:
  assumes "\<And>s. mono_option (\<lambda>F. m F s)" and "\<And>s. mono_option (\<lambda>F. k F s)"
  shows "mono_option (\<lambda>F. thn (m F) (k F) s)"
  unfolding thn_def using assms by (rule bnd_mono)

lemma if_run_mono [partial_function_mono]:
  assumes "mono_option (\<lambda>F. f F s)" and "mono_option (\<lambda>F. g F s)"
  shows "mono_option (\<lambda>F. (if b then f F else g F) s)"
  using assms by (cases b) simp_all

text \<open>A sequence of statements.\<close>

primrec doall :: "('s, unit) prog list \<Rightarrow> ('s, unit) prog" where
  "doall [] = ret ()"
| "doall (p # ps) = thn p (doall ps)"

lemma thn_runs: "p s = Some (Inr (a, t)) \<Longrightarrow> q t = r \<Longrightarrow> thn p q s = r"
  by (simp add: thn_def bnd_def)

lemma bnd_runs: "p s = Some (Inr (a, t)) \<Longrightarrow> f a t = r \<Longrightarrow> bnd p f s = r"
  by (simp add: bnd_def)

lemma doall_runs: "p s = Some (Inr ((), t)) \<Longrightarrow> doall ps t = r \<Longrightarrow> doall (p # ps) s = r"
  by (simp add: thn_runs)

lemma doall_Nil: "doall [] = ret ()"
  by simp

lemma thn_assoc: "thn (thn p q) r = thn p (thn q r)"
  by (auto simp: thn_def bnd_def fun_eq_iff split: option.splits sum.splits)

lemma doall_append: "doall (ps @ qs) = thn (doall ps) (doall qs)"
  by (induction ps) (simp_all only: append_Nil append_Cons doall_Nil doall.simps(2) thn_ret thn_assoc)

text \<open>\<^verbatim>\<open>while (poll());\<close>\<close>

partial_function (option) wait_while :: "('s, bool) prog \<Rightarrow> ('s, unit) prog" where
  "wait_while poll s = bnd poll (\<lambda>b. if b then wait_while poll else ret ()) s"

text \<open>
  A wait that ends: \<open>n\<close> polls find the condition true, the next one finds it false.
\<close>

fun polls :: "('s, bool) prog \<Rightarrow> nat \<Rightarrow> 's \<Rightarrow> 's \<Rightarrow> bool" where
  "polls poll 0 s t \<longleftrightarrow> poll s = Some (Inr (False, t))"
| "polls poll (Suc n) s t \<longleftrightarrow> (\<exists>s1. poll s = Some (Inr (True, s1)) \<and> polls poll n s1 t)"

lemma wait_while_polls: "polls poll n s t \<Longrightarrow> wait_while poll s = Some (Inr ((), t))"
  by (induction n arbitrary: s) (subst wait_while.simps, auto simp: bnd_def)+

lemma wait_while_ended:
  assumes w: "wait_while poll s = Some r"
  shows "r = Inr ((), t) \<longrightarrow> (\<exists>n. polls poll n s t)"
proof (rule wait_while.raw_induct[OF _ w], intro impI)
  fix w :: "('a, bool) prog \<Rightarrow> ('a, unit) prog" and p s r
  assume IH: "\<And>p s r. w p s = Some r \<Longrightarrow> r = Inr ((), t) \<longrightarrow> (\<exists>n. polls p n s t)"
    and "bnd p (\<lambda>c. if c then w p else ret ()) s = Some r" and "r = Inr ((), t)"
  then obtain c s1 where p: "p s = Some (Inr (c, s1))"
    and r: "(if c then w p else ret ()) s1 = Some (Inr ((), t))"
    by (auto simp: bnd_ok_iff)
  show "\<exists>n. polls p n s t"
  proof (cases c)
    case True
    then obtain n where "polls p n s1 t" using IH[of p s1 "Inr ((), t)"] r by auto
    then have "polls p (Suc n) s t" using p True by auto
    then show ?thesis by blast
  next
    case False
    then have "polls p 0 s t" using p r by simp
    then show ?thesis by blast
  qed
qed

lemma wait_while_iff_polls: "wait_while poll s = Some (Inr ((), t)) \<longleftrightarrow> (\<exists>n. polls poll n s t)"
  using wait_while_ended[of poll s _ t] wait_while_polls[of poll _ s t] by blast

text \<open>A wait whose condition stays true never returns.\<close>

lemma wait_never:
  assumes "I s" and "\<And>s. I s \<Longrightarrow> \<exists>t. p s = Some (Inr (True, t)) \<and> I t"
  shows "wait_while p s = None"
proof (rule ccontr)
  assume "wait_while p s \<noteq> None"
  then obtain r where w: "wait_while p s = Some r" by blast
  have "\<not> (I s \<and> (\<forall>s. I s \<longrightarrow> (\<exists>t. p s = Some (Inr (True, t)) \<and> I t)))"
  proof (rule wait_while.raw_induct[OF _ w], rule notI, elim conjE)
    fix v :: "('a, bool) prog \<Rightarrow> ('a, unit) prog" and p s r
    assume IH: "\<And>p s r. v p s = Some r \<Longrightarrow> \<not> (I s \<and> (\<forall>s. I s \<longrightarrow> (\<exists>t. p s = Some (Inr (True, t)) \<and> I t)))"
      and b: "bnd p (\<lambda>c. if c then v p else ret ()) s = Some r"
      and s: "I s" and p: "\<forall>s. I s \<longrightarrow> (\<exists>t. p s = Some (Inr (True, t)) \<and> I t)"
    then obtain t where t: "p s = Some (Inr (True, t))" "I t" by blast
    then have "v p t = Some r" using b by (simp add: bnd_def)
    then show False using IH t(2) p by blast
  qed
  then show False using assms by blast
qed

lemma wait_stuck:
  assumes "p s = Some (Inr (True, s))"
  shows "wait_while p s = None"
  by (rule wait_never[of "\<lambda>t. t = s"]) (simp_all add: assms)

section \<open>Partial correctness\<close>

text \<open>\<open>keeps I p\<close>: whenever \<open>p\<close> returns from a state where \<open>I\<close> holds, \<open>I\<close> still holds.\<close>

definition keeps :: "('s \<Rightarrow> bool) \<Rightarrow> ('s, 'a) prog \<Rightarrow> bool" where
  "keeps I p \<longleftrightarrow> (\<forall>s r t. I s \<longrightarrow> p s = Some (Inr (r, t)) \<longrightarrow> I t)"

lemma keepsD: "keeps I p \<Longrightarrow> I s \<Longrightarrow> p s = Some (Inr (r, t)) \<Longrightarrow> I t"
  by (auto simp: keeps_def)

lemma keeps_ret: "keeps I (ret a)"
  by (simp add: keeps_def)

lemma keeps_fail: "keeps I (fail e)"
  by (simp add: keeps_def)

lemma keeps_gets: "keeps I (gets g)"
  by (simp add: keeps_def)

lemma keeps_modify: "(\<And>s. I s \<Longrightarrow> I (f s)) \<Longrightarrow> keeps I (modify f)"
  by (simp add: keeps_def)

lemma keeps_bnd: "keeps I p \<Longrightarrow> (\<And>a. keeps I (f a)) \<Longrightarrow> keeps I (bnd p f)"
  unfolding keeps_def bnd_ok_iff by blast

lemma keeps_thn: "keeps I p \<Longrightarrow> keeps I q \<Longrightarrow> keeps I (thn p q)"
  unfolding keeps_def thn_ok_iff by blast

lemma keeps_doall: "(\<And>p. p \<in> set ps \<Longrightarrow> keeps I p) \<Longrightarrow> keeps I (doall ps)"
proof (induction ps)
  case Nil
  show ?case unfolding doall.simps by (rule keeps_ret)
next
  case (Cons p ps)
  then show ?case unfolding doall.simps by (intro keeps_thn) simp_all
qed

lemma keeps_if: "(b \<Longrightarrow> keeps I p) \<Longrightarrow> (\<not> b \<Longrightarrow> keeps I q) \<Longrightarrow> keeps I (if b then p else q)"
  by simp

lemma keeps_wait_while:
  assumes "keeps I p"
  shows "keeps I (wait_while p)"
proof -
  have "wait_while p s = Some (Inr ((), t)) \<Longrightarrow> I s \<Longrightarrow> I t" for s t
  proof -
    assume "wait_while p s = Some (Inr ((), t))" and "I s"
    then have "\<exists>n. polls p n s t" by (simp only: wait_while_iff_polls)
    then obtain n where "polls p n s t" ..
    then show "I t" using \<open>I s\<close>
    proof (induction n arbitrary: s)
      case 0
      then show ?case using keepsD[OF assms] by simp
    next
      case (Suc n)
      then obtain s1 where "p s = Some (Inr (True, s1))" "polls p n s1 t" by auto
      then show ?case using Suc.IH keepsD[OF assms Suc.prems(2)] by blast
    qed
  qed
  then show ?thesis unfolding keeps_def by auto
qed

section \<open>Total correctness\<close>

text \<open>\<open>wp p Q s\<close>: from \<open>s\<close>, the program \<open>p\<close> returns, without a fault, and \<open>Q\<close> holds of its value and state.\<close>

definition wp :: "('s, 'a) prog \<Rightarrow> ('a \<Rightarrow> 's \<Rightarrow> bool) \<Rightarrow> 's \<Rightarrow> bool" where
  "wp p Q s = (case p s of Some (Inr (r, t)) \<Rightarrow> Q r t | _ \<Rightarrow> False)"

named_theorems wp_simps \<open>weakest preconditions of the basic programs\<close>

lemma wp_iff: "wp p Q s \<longleftrightarrow> (\<exists>r t. p s = Some (Inr (r, t)) \<and> Q r t)"
  by (auto simp: wp_def split: option.splits sum.splits prod.splits)

lemma wp_ret [wp_simps]: "wp (ret a) Q = Q a"
  by (simp add: wp_def fun_eq_iff)

lemma wp_fail [wp_simps]: "wp (fail e) Q = (\<lambda>_. False)"
  by (simp add: wp_def fun_eq_iff)

lemma wp_gets [wp_simps]: "wp (gets g) Q = (\<lambda>s. Q (g s) s)"
  by (simp add: wp_def fun_eq_iff)

lemma wp_modify [wp_simps]: "wp (modify f) Q = (\<lambda>s. Q () (f s))"
  by (simp add: wp_def fun_eq_iff)

lemma wp_bnd [wp_simps]: "wp (bnd p f) Q = wp p (\<lambda>a. wp (f a) Q)"
  by (auto simp: wp_def bnd_def fun_eq_iff split: option.splits sum.splits)

lemma wp_thn [wp_simps]: "wp (thn p q) Q = wp p (\<lambda>_. wp q Q)"
  by (simp add: thn_def wp_bnd)

lemma wp_if [wp_simps]: "wp (if b then p else q) Q = (if b then wp p Q else wp q Q)"
  by simp

lemma wp_mono: "wp p Q s \<Longrightarrow> (\<And>r t. Q r t \<Longrightarrow> Q' r t) \<Longrightarrow> wp p Q' s"
  by (auto simp: wp_iff)

lemma wp_conj: "wp p Q s \<Longrightarrow> wp p Q' s \<Longrightarrow> wp p (\<lambda>r t. Q r t \<and> Q' r t) s"
  by (auto simp: wp_iff)

text \<open>The same for programs that may end in one of the faults \<open>E\<close>.\<close>

definition wpx :: "(fault \<Rightarrow> bool) \<Rightarrow> ('s, 'a) prog \<Rightarrow> ('a \<Rightarrow> 's \<Rightarrow> bool) \<Rightarrow> 's \<Rightarrow> bool" where
  "wpx E p Q s = (case p s of None \<Rightarrow> False | Some (Inl e) \<Rightarrow> E e | Some (Inr (a, t)) \<Rightarrow> Q a t)"

lemma wp_wpx: "wp p Q s \<Longrightarrow> wpx E p Q s"
  by (auto simp: wp_iff wpx_def)

lemma wpx_mono: "wpx E p Q s \<Longrightarrow> (\<And>r t. Q r t \<Longrightarrow> Q' r t) \<Longrightarrow> wpx E p Q' s"
  by (auto simp: wpx_def split: option.splits sum.splits)

lemma wpx_ret: "wpx E (ret a) Q = Q a"
  by (simp add: wpx_def fun_eq_iff)

lemma wpx_fail: "wpx E (fail e) Q = (\<lambda>_. E e)"
  by (simp add: wpx_def fun_eq_iff)

lemma wpx_gets: "wpx E (gets g) Q = (\<lambda>s. Q (g s) s)"
  by (simp add: wpx_def fun_eq_iff)

lemma wpx_modify: "wpx E (modify f) Q = (\<lambda>s. Q () (f s))"
  by (simp add: wpx_def fun_eq_iff)

lemma wpx_bnd: "wpx E (bnd p f) Q = wpx E p (\<lambda>a. wpx E (f a) Q)"
  by (auto simp: wpx_def bnd_def fun_eq_iff split: option.splits sum.splits)

lemma wpx_thn: "wpx E (thn p q) Q = wpx E p (\<lambda>_. wpx E q Q)"
  by (simp add: thn_def wpx_bnd)

lemma wpx_if: "wpx E (if b then p else q) Q = (if b then wpx E p Q else wpx E q Q)"
  by simp

lemmas wpx_simps = wpx_ret wpx_fail wpx_gets wpx_modify wpx_bnd wpx_thn wpx_if

text \<open>A statement for each element of a list, with an invariant on what is left to do.\<close>

lemma wp_doall_map:
  assumes "I xs s" and "\<And>x ys s. I (x # ys) s \<Longrightarrow> wp (f x) (\<lambda>_. I ys) s"
  shows "wp (doall (map f xs)) (\<lambda>_. I []) s"
  using assms(1)
proof (induction xs arbitrary: s)
  case Nil
  then show ?case by (simp only: list.map doall.simps wp_ret)
next
  case (Cons x xs)
  have "wp (f x) (\<lambda>_. wp (doall (map f xs)) (\<lambda>_. I [])) s"
    by (rule wp_mono[OF assms(2)[OF Cons.prems]]) (rule Cons.IH)
  then show ?case by (simp only: list.map doall.simps wp_thn)
qed

section \<open>Part of a state\<close>

text \<open>A program on the part of a state that \<open>g\<close> reads and \<open>u\<close> replaces.\<close>

definition zoom :: "('t \<Rightarrow> 's) \<Rightarrow> ('s \<Rightarrow> 't \<Rightarrow> 't) \<Rightarrow> ('s, 'a) prog \<Rightarrow> ('t, 'a) prog" where
  "zoom g u p t =
     (case p (g t) of
        None \<Rightarrow> None
      | Some (Inl e) \<Rightarrow> Some (Inl e)
      | Some (Inr (a, s)) \<Rightarrow> Some (Inr (a, u s t)))"

lemma wp_zoom [wp_simps]: "wp (zoom g u p) Q t = wp p (\<lambda>a s. Q a (u s t)) (g t)"
  by (auto simp: wp_def zoom_def split: option.splits sum.splits)

lemma zoom_run: "p (g t) = Some (Inr (a, s)) \<Longrightarrow> zoom g u p t = Some (Inr (a, u s t))"
  by (simp add: zoom_def)

end
