(* ===== verification/Machine.thy ===== *)
theory Machine
  imports Memmgr_Correct Prog
begin

text \<open>
  The machine the firmware runs on, as far as the C code sees it: the global variables and heap
  objects of the drivers, the Wishbone bus behind which the gateware sits, and the debug console.
\<close>

section \<open>Machine state\<close>

text \<open>
  One device list per kind of peripheral (\<^verbatim>\<open>hw/memlayout.h\<close>); each driver also has a
  global table of base addresses with the same index.
\<close>

datatype dev_kind = Mem | Dma | Ethmac | Ethmac_Adapt | Ebone_Cfg | Fmc516 | Spi | I2c | Owr
  | Uart | Gpio | Tics | Fmc150

text \<open>An argument of a print call.\<close>

datatype arg = Num u32 | Str "u8 list"

text \<open>What the program does on the bus, in order.\<close>

datatype access = Rd u32 u32 | Wr u32 u32 | WrB u32 u8

text \<open>The functions the program installs as interrupt handlers.\<close>

datatype hnd = Oeth_interrupt | Set_eb_done | Button

text \<open>
  \<open>hw\<close> is the state of the gateware. \<open>heap\<close> is the memory manager; the objects the drivers
  allocate are stored by field, at the address of the object: \<^verbatim>\<open>struct dev_list\<close>,
  \<^verbatim>\<open>struct dev_node\<close> and the arrays of words. \<open>devl\<close> and \<open>handle\<close> are the global pointers
  (\<^verbatim>\<open>gpio_devl\<close>, \<^verbatim>\<open>gpio\<close>, ...). The fields after them are the globals of the Ethernet driver and of
  the network code, the table of interrupt handlers (\<^verbatim>\<open>lib/int.c\<close>) and the control registers IM, IE
  and IP of the CPU. \<open>trace\<close> and \<open>console\<close> record the bus accesses and the calls
  of \<^verbatim>\<open>pp_printf\<close>, the latest last.
\<close>

record 'h mach =
  hw :: 'h
  heap :: memmgr
  devl_devid :: "addr \<Rightarrow> u32"
  devl_size :: "addr \<Rightarrow> u32"
  devl_devices :: "addr \<Rightarrow> addr"
  node_base :: "addr \<Rightarrow> u32"
  node_next :: "addr \<Rightarrow> addr"
  words :: "addr \<Rightarrow> u32"
  devl :: "dev_kind \<Rightarrow> addr"
  handle :: "dev_kind \<Rightarrow> addr"
  spi_config :: addr
  ethmac_bd :: addr
  ethmac_buf :: addr
  next_tx_buf_num :: nat
  hisIP :: "u8 list"
  hisMAC :: "u8 list"
  hisBody :: "u8 list"
  hisBodyLen :: int
  sawARP :: bool
  sawPING :: bool
  eb_done :: bool
  handlers :: "nat \<Rightarrow> (hnd \<times> u32) option"
  csr_im :: u32
  csr_ie :: u32
  csr_ip :: u32
  trace :: "access list"
  console :: "(string \<times> arg list) list"

text \<open>
  The gateware answers reads and writes of 32-bit registers; every access may change its
  state. The memory behind the bus, which the CPU shares with the Ethernet core, is read and
  written by bytes; reading it changes nothing. The gateware is the parameter of all drivers, with the addresses the linker chose.
\<close>

record 'h plat =
  bus_read :: "u32 \<Rightarrow> 'h \<Rightarrow> u32 \<times> 'h"
  bus_write :: "u32 \<Rightarrow> u32 \<Rightarrow> 'h \<Rightarrow> 'h"
  mem_byte :: "u32 \<Rightarrow> 'h \<Rightarrow> u8"
  mem_put :: "u32 \<Rightarrow> u8 \<Rightarrow> 'h \<Rightarrow> 'h"
  lay :: mem_layout

definition rd :: "'h plat \<Rightarrow> u32 \<Rightarrow> ('h mach, u32) prog" where
  "rd B a s =
     (let r = bus_read B a (hw s)
      in Some (Inr (fst r, s\<lparr>hw := snd r, trace := trace s @ [Rd a (fst r)]\<rparr>)))"

definition wr :: "'h plat \<Rightarrow> u32 \<Rightarrow> u32 \<Rightarrow> ('h mach, unit) prog" where
  "wr B a v s = Some (Inr ((), s\<lparr>hw := bus_write B a v (hw s), trace := trace s @ [Wr a v]\<rparr>))"

definition wrb :: "'h plat \<Rightarrow> u32 \<Rightarrow> u8 \<Rightarrow> ('h mach, unit) prog" where
  "wrb B a c s = Some (Inr ((), s\<lparr>hw := mem_put B a c (hw s), trace := trace s @ [WrB a c]\<rparr>))"

section \<open>Heap objects\<close>

definition malloc :: "'h plat \<Rightarrow> u32 \<Rightarrow> ('h mach, addr) prog" where
  "malloc B n s =
     (case memmgr_alloc (lay B) n (heap s) of
        None \<Rightarrow> None
      | Some (p, m) \<Rightarrow> Some (Inr (p, s\<lparr>heap := m\<rparr>)))"

definition mfree :: "addr \<Rightarrow> ('h mach, unit) prog" where
  "mfree p s =
     (case memmgr_free p (heap s) of
        None \<Rightarrow> None
      | Some m \<Rightarrow> Some (Inr ((), s\<lparr>heap := m\<rparr>)))"

text \<open>Using a pointer: the null pointer is a fault.\<close>

definition deref :: "addr \<Rightarrow> ('h mach, unit) prog" where
  "deref p = (if p = 0 then fail NullPointer else ret ())"

abbreviation live :: "'h plat \<Rightarrow> 'h mach \<Rightarrow> addr set \<Rightarrow> bool" where
  "live B s P \<equiv> mm_live (lay B) (heap s) P"

lemma mm_live_nonnull: "mm_live L s P \<Longrightarrow> p \<in> P \<Longrightarrow> p \<noteq> 0"
  using mm_live_block(1)[of L s P p] by (auto simp: sizeof_mem_header_def)

abbreviation used :: "'h mach \<Rightarrow> nat" where
  "used s \<equiv> mm_used (heap s)"

lemma malloc_cases:
  assumes live: "live B s P" and n: "request_ok n"
  obtains (null) m where "malloc B n s = Some (Inr (0, s\<lparr>heap := m\<rparr>))" "mm_live (lay B) m P"
      "unat POOL_SIZE < used s + pool_cost n"
  | (fresh) p m where "malloc B n s = Some (Inr (p, s\<lparr>heap := m\<rparr>))" "p \<noteq> 0" "p \<notin> P"
      "mm_live (lay B) m (insert p P)" "mm_used m \<le> used s + pool_cost n" "unat n \<le> payload m p"
proof -
  obtain p m where a: "memmgr_alloc (lay B) n (heap s) = Some (p, m)"
    using pool.alloc_returns[OF live n] by blast
  note room = mm_live_alloc_room[OF live n a]
  show ?thesis
  proof (cases "p = 0")
    case True
    then show ?thesis
      using null[of m] pool.alloc_null[OF live n, of m] a room(2) by (fastforce simp: malloc_def)
  next
    case False
    then show ?thesis
      using fresh[of p m] pool.alloc_fresh[OF live n a] a room(1) by (auto simp: malloc_def)
  qed
qed

section \<open>Debug console\<close>

definition DBG_GENERIC :: u32 where "DBG_GENERIC = 0x10"
definition DBG_GPIO :: u32 where "DBG_GPIO = 0x20"
definition DBG_SPI :: u32 where "DBG_SPI = 0x40"
definition DBG_UART :: u32 where "DBG_UART = 0x80"
definition DBG_I2C :: u32 where "DBG_I2C = 0x100"
definition DBG_OWR :: u32 where "DBG_OWR = 0x200"
definition DBG_ETH :: u32 where "DBG_ETH = 0x400"

definition DBG_SUBSYS_ON :: u32 where
  "DBG_SUBSYS_ON = DBG_GENERIC OR DBG_GPIO OR DBG_SPI OR DBG_UART OR DBG_I2C OR DBG_OWR OR DBG_ETH"

definition DBE_DBG_TRACE :: u32 where "DBE_DBG_TRACE = 0x2"
definition DBE_DBG_INFO :: u32 where "DBE_DBG_INFO = 0x4"
definition DBE_DBG_MASK :: u32 where "DBE_DBG_MASK = 0x1E"
definition DBG_MIN_LEVEL :: u32 where "DBG_MIN_LEVEL = DBE_DBG_INFO"

definition pp_printf :: "string \<Rightarrow> arg list \<Rightarrow> ('h mach, unit) prog" where
  "pp_printf fmt args = modify (\<lambda>s. s\<lparr>console := console s @ [(fmt, args)]\<rparr>)"

text \<open>
  The macro evaluates the arguments only when the message is printed, so they are a program.
  No call sets \<^verbatim>\<open>DBE_DBG_HALT\<close>, whose endless loop is left out, and so is the prefix with the
  names of the calling function and its line that the macro puts in front of the message.
\<close>

definition DBE_DEBUG :: "u32 \<Rightarrow> string \<Rightarrow> ('h mach, arg list) prog \<Rightarrow> ('h mach, unit) prog" where
  "DBE_DEBUG dbg fmt args =
     (if dbg AND DBG_SUBSYS_ON \<noteq> 0 \<and> DBG_MIN_LEVEL \<le> dbg AND DBE_DBG_MASK
      then bnd args (pp_printf fmt) else ret ())"

section \<open>A machine to run on\<close>

text \<open>
  A machine after start-up. Its gateware answers every read with the number of accesses so far
  and ignores writes.
\<close>

definition demo_plat :: "nat plat" where
  "demo_plat = \<lparr>bus_read = \<lambda>a h. (of_nat h, Suc h), bus_write = \<lambda>a v h. Suc h, mem_byte = \<lambda>a h. 0,
      mem_put = \<lambda>a v h. h, lay = demo_layout\<rparr>"

definition boot :: "mem_layout \<Rightarrow> 'h \<Rightarrow> 'h mach" where
  "boot L h =
     \<lparr>hw = h, heap = memmgr_init L demo_memmgr, devl_devid = \<lambda>_. 0, devl_size = \<lambda>_. 0,
      devl_devices = \<lambda>_. 0, node_base = \<lambda>_. 0, node_next = \<lambda>_. 0, words = \<lambda>_. 0, devl = \<lambda>_. 0,
      handle = \<lambda>_. 0, spi_config = 0, ethmac_bd = 0, ethmac_buf = 0, next_tx_buf_num = 0,
      hisIP = replicate 4 0, hisMAC = replicate 6 0, hisBody = replicate 1516 0, hisBodyLen = 0,
      sawARP = False, sawPING = False, eb_done = False, handlers = \<lambda>_. None, csr_im = 0, csr_ie = 0,
      csr_ip = 0, trace = [], console = []\<rparr>"

lemma boot_live: "layout_ok (lay B) \<Longrightarrow> live B (boot (lay B) h) {}"
  by (simp add: boot_def mm_live_init)

lemma boot_used [simp]: "used (boot L h) = 0"
  by (simp add: boot_def mm_used_def memmgr_init_def)

lemma demo_plat_lay [simp]: "lay demo_plat = demo_layout"
  by (simp add: demo_plat_def)

lemma demo_boot_live: "live demo_plat (boot demo_layout h) {}"
  using boot_live[of demo_plat h] demo_layout_ok by simp

end
