(* ===== verification/Sdb.thy ===== *)
theory Sdb
  imports Machine
begin

text \<open>
  Device discovery, \<^verbatim>\<open>dev/sdb.c\<close>: the self-describing bus tables of the gateware are read
  byte by byte (the LM32 is big-endian) from a read-only memory that is the parameter \<open>rom\<close>;
  the devices of one kind are collected in a linked list on the heap.
\<close>

section \<open>Tables\<close>

type_synonym rom = "u32 \<Rightarrow> u8"

definition SDB_ADDRESS :: u32 where "SDB_ADDRESS = 0x30000000"
definition SDB_DEVICE :: u8 where "SDB_DEVICE = 0x01"
definition SDB_BRIDGE :: u8 where "SDB_BRIDGE = 0x02"

definition be16 :: "rom \<Rightarrow> u32 \<Rightarrow> u16" where
  "be16 rom a = push_bit 8 (ucast (rom a)) OR ucast (rom (a + 1))"

definition be32 :: "rom \<Rightarrow> u32 \<Rightarrow> u32" where
  "be32 rom a =
     push_bit 24 (ucast (rom a)) OR push_bit 16 (ucast (rom (a + 1))) OR
     push_bit 8 (ucast (rom (a + 2))) OR ucast (rom (a + 3))"

text \<open>The fields of the 64-byte \<^verbatim>\<open>union sdb_record\<close> the code reads.\<close>

definition sizeof_sdb_record :: u32 where "sizeof_sdb_record = 64"

definition record_type :: "rom \<Rightarrow> u32 \<Rightarrow> u8" where
  "record_type rom r = rom (r + 63)"

definition sdb_records :: "rom \<Rightarrow> u32 \<Rightarrow> nat" where
  "sdb_records rom r = unat (be16 rom (r + 4))"

definition sdb_child_low :: "rom \<Rightarrow> u32 \<Rightarrow> u32" where
  "sdb_child_low rom r = be32 rom (r + 4)"

definition addr_first_low :: "rom \<Rightarrow> u32 \<Rightarrow> u32" where
  "addr_first_low rom r = be32 rom (r + 12)"

definition vendor_id_low :: "rom \<Rightarrow> u32 \<Rightarrow> u32" where
  "vendor_id_low rom r = be32 rom (r + 28)"

definition device_id :: "rom \<Rightarrow> u32 \<Rightarrow> u32" where
  "device_id rom r = be32 rom (r + 32)"

definition product_name :: "rom \<Rightarrow> u32 \<Rightarrow> u8 list" where
  "product_name rom r = map (\<lambda>i. rom (r + 44 + of_nat i)) [0..<19]"

section \<open>Finding one device\<close>

partial_function (option) find_loop ::
  "rom \<Rightarrow> u32 \<Rightarrow> u32 \<Rightarrow> u32 \<Rightarrow> nat \<Rightarrow> nat \<Rightarrow> u32 option" where
  "find_loop rom devid base r i records =
     (if i < records then
        Option.bind
          (if record_type rom r = SDB_BRIDGE
           then find_loop rom devid (base + addr_first_low rom r) (sdb_child_low rom r) 0
                  (sdb_records rom (sdb_child_low rom r))
           else Some 0)
          (\<lambda>out.
            if out \<noteq> 0 then Some out
            else if record_type rom r = SDB_DEVICE \<and> device_id rom r = devid
            then Some (base + addr_first_low rom r)
            else find_loop rom devid base (r + sizeof_sdb_record) (Suc i) records)
      else Some 0)"

definition find_device_deep :: "rom \<Rightarrow> u32 \<Rightarrow> u32 \<Rightarrow> u32 \<Rightarrow> u32 option" where
  "find_device_deep rom base sdb devid = find_loop rom devid base sdb 0 (sdb_records rom sdb)"

definition find_device :: "rom \<Rightarrow> u32 \<Rightarrow> u32 option" where
  "find_device rom devid = find_device_deep rom 0 SDB_ADDRESS devid"

section \<open>Collecting all devices of a kind\<close>

text \<open>\<^verbatim>\<open>struct dev_node **dev\<close> points to the head of a list or to the \<^verbatim>\<open>next\<close> field of a node.\<close>

datatype slot = Devices addr | Next addr

fun store_slot :: "slot \<Rightarrow> addr \<Rightarrow> 'h mach \<Rightarrow> 'h mach" where
  "store_slot (Devices l) p s = s\<lparr>devl_devices := (devl_devices s)(l := p)\<rparr>"
| "store_slot (Next n) p s = s\<lparr>node_next := (node_next s)(n := p)\<rparr>"

fun load_slot :: "slot \<Rightarrow> 'h mach \<Rightarrow> addr" where
  "load_slot (Devices l) s = devl_devices s l"
| "load_slot (Next n) s = node_next s n"

definition new_node :: "'h plat \<Rightarrow> slot \<Rightarrow> u32 \<Rightarrow> ('h mach, addr) prog" where
  "new_node B dev b =
     bnd (malloc B 8) (\<lambda>p.
     thn (modify (store_slot dev p))
     (thn (deref p)
     (thn (modify (\<lambda>s. s\<lparr>node_base := (node_base s)(p := b)\<rparr>))
     (thn (modify (\<lambda>s. s\<lparr>node_next := (node_next s)(p := 0)\<rparr>))
       (ret p)))))"

partial_function (option) all_loop ::
  "'h plat \<Rightarrow> rom \<Rightarrow> u32 \<Rightarrow> addr \<Rightarrow> u32 \<Rightarrow> u32 \<Rightarrow> nat \<Rightarrow> nat \<Rightarrow> slot \<Rightarrow> ('h mach, unit) prog" where
  "all_loop B rom devid sizep base r i records dev s =
     (if i < records then
        thn (if record_type rom r = SDB_BRIDGE
             then all_loop B rom devid sizep (base + addr_first_low rom r) (sdb_child_low rom r) 0
                    (sdb_records rom (sdb_child_low rom r)) dev
             else ret ())
          (if record_type rom r = SDB_DEVICE \<and> device_id rom r = devid
           then bnd (new_node B dev (base + addr_first_low rom r)) (\<lambda>p.
             thn (modify (\<lambda>s. s\<lparr>devl_size := (devl_size s)(sizep := devl_size s sizep + 1)\<rparr>))
               (all_loop B rom devid sizep base (r + sizeof_sdb_record) (Suc i) records (Next p)))
           else all_loop B rom devid sizep base (r + sizeof_sdb_record) (Suc i) records dev)
      else ret ()) s"

definition find_device_deep_all_rec ::
  "'h plat \<Rightarrow> rom \<Rightarrow> slot \<Rightarrow> addr \<Rightarrow> u32 \<Rightarrow> u32 \<Rightarrow> u32 \<Rightarrow> ('h mach, unit) prog" where
  "find_device_deep_all_rec B rom dev sizep base sdb devid =
     all_loop B rom devid sizep base sdb 0 (sdb_records rom sdb) dev"

definition find_device_deep_all ::
  "'h plat \<Rightarrow> rom \<Rightarrow> u32 \<Rightarrow> u32 \<Rightarrow> u32 \<Rightarrow> ('h mach, addr) prog" where
  "find_device_deep_all B rom base sdb devid =
     bnd (malloc B 12) (\<lambda>dev.
     thn (deref dev)
     (thn (modify (\<lambda>s. s\<lparr>devl_devid := (devl_devid s)(dev := devid)\<rparr>))
     (thn (modify (\<lambda>s. s\<lparr>devl_size := (devl_size s)(dev := 0)\<rparr>))
     (thn (modify (\<lambda>s. s\<lparr>devl_devices := (devl_devices s)(dev := 0)\<rparr>))
     (thn (find_device_deep_all_rec B rom (Devices dev) dev base sdb devid)
       (ret dev))))))"

definition find_device_all :: "'h plat \<Rightarrow> rom \<Rightarrow> u32 \<Rightarrow> ('h mach, addr) prog" where
  "find_device_all B rom devid = find_device_deep_all B rom 0 SDB_ADDRESS devid"

text \<open>The identifiers \<^verbatim>\<open>sdb_find_devices\<close> looks for, in the order of the code.\<close>

definition sdb_ids :: "(dev_kind \<times> u32) list" where
  "sdb_ids =
     [(Mem, 0x66cfeb52), (Dma, 0xcababa56), (Ethmac, 0xf8cfeb16), (Ethmac_Adapt, 0x2ff9a28e),
      (Ebone_Cfg, 0x68202b22), (Fmc516, 0x27b95341), (Spi, 0x40286417), (I2c, 0x97b6323d),
      (Owr, 0x525fbb09), (Uart, 0x8a5719ae), (Gpio, 0x35aa6b95), (Tics, 0xfdafb9dd)]"

fun find_kinds :: "'h plat \<Rightarrow> rom \<Rightarrow> (dev_kind \<times> u32) list \<Rightarrow> ('h mach, unit) prog" where
  "find_kinds B rom [] = ret ()"
| "find_kinds B rom ((k, devid) # ks) =
     bnd (find_device_all B rom devid) (\<lambda>l.
     thn (modify (\<lambda>s. s\<lparr>devl := (devl s)(k := l)\<rparr>))
       (find_kinds B rom ks))"

definition sdb_find_devices :: "'h plat \<Rightarrow> rom \<Rightarrow> ('h mach, unit) prog" where
  "sdb_find_devices B rom = find_kinds B rom sdb_ids"

section \<open>Printing the memory map\<close>

partial_function (option) print_loop ::
  "rom \<Rightarrow> u32 \<Rightarrow> u32 \<Rightarrow> nat \<Rightarrow> nat \<Rightarrow> ('h mach, unit) prog" where
  "print_loop rom base r i records s =
     (if i < records then
        thn (if record_type rom r = SDB_BRIDGE
             then print_loop rom (base + addr_first_low rom r) (sdb_child_low rom r) 0
                    (sdb_records rom (sdb_child_low rom r))
             else ret ())
        (thn (if record_type rom r = SDB_DEVICE
              then pp_printf ''%8x:%8x 0x%8x %s\<newline>''
                     [Num (vendor_id_low rom r), Num (device_id rom r),
                      Num (base + addr_first_low rom r), Str (product_name rom r @ [0])]
              else ret ())
          (print_loop rom base (r + sizeof_sdb_record) (Suc i) records))
      else ret ()) s"

definition print_devices_deep :: "rom \<Rightarrow> u32 \<Rightarrow> u32 \<Rightarrow> ('h mach, unit) prog" where
  "print_devices_deep rom base sdb = print_loop rom base sdb 0 (sdb_records rom sdb)"

definition sdb_print_devices :: "rom \<Rightarrow> ('h mach, unit) prog" where
  "sdb_print_devices rom =
     thn (pp_printf ''-------------------------------------------\<newline>'' [])
     (thn (pp_printf ''|            SDB memory map               |\<newline>'' [])
     (thn (pp_printf ''-------------------------------------------\<newline>\<newline>'' [])
       (print_devices_deep rom 0 SDB_ADDRESS)))"

end
