(* ===== verification/Sdb_Correct.thy ===== *)
theory Sdb_Correct
  imports Sdb
begin

text \<open>
  What device discovery promises, against the tree of devices and bridges the tables
  describe: the first device found, the list that is built and its size, and the memory map
  that is printed.
\<close>

section \<open>The device tree\<close>

datatype sdb_node = Device u32 u32 u32 "u8 list" | Bridge u32 "sdb_node list" | Other

text \<open>\<open>rom_holds rom r ts\<close>: the records from address \<open>r\<close> on describe the trees \<open>ts\<close>.\<close>

fun rom_holds :: "rom \<Rightarrow> u32 \<Rightarrow> sdb_node list \<Rightarrow> bool" where
  "rom_holds rom r [] = True"
| "rom_holds rom r (Device a d v nm # ts) \<longleftrightarrow>
     record_type rom r = SDB_DEVICE \<and> addr_first_low rom r = a \<and> device_id rom r = d \<and>
     vendor_id_low rom r = v \<and> product_name rom r = nm \<and>
     rom_holds rom (r + sizeof_sdb_record) ts"
| "rom_holds rom r (Bridge a sub # ts) \<longleftrightarrow>
     record_type rom r = SDB_BRIDGE \<and> addr_first_low rom r = a \<and>
     sdb_records rom (sdb_child_low rom r) = length sub \<and>
     rom_holds rom (sdb_child_low rom r) sub \<and> rom_holds rom (r + sizeof_sdb_record) ts"
| "rom_holds rom r (Other # ts) \<longleftrightarrow>
     record_type rom r \<noteq> SDB_DEVICE \<and> record_type rom r \<noteq> SDB_BRIDGE \<and>
     rom_holds rom (r + sizeof_sdb_record) ts"

definition sdb_tree :: "rom \<Rightarrow> u32 \<Rightarrow> sdb_node list \<Rightarrow> bool" where
  "sdb_tree rom sdb ts \<longleftrightarrow> sdb_records rom sdb = length ts \<and> rom_holds rom sdb ts"

text \<open>All devices, depth first, with their absolute addresses.\<close>

fun devices :: "u32 \<Rightarrow> sdb_node list \<Rightarrow> (u32 \<times> u32 \<times> u32 \<times> u8 list) list" where
  "devices base [] = []"
| "devices base (Device a d v nm # ts) = (base + a, d, v, nm) # devices base ts"
| "devices base (Bridge a sub # ts) = devices (base + a) sub @ devices base ts"
| "devices base (Other # ts) = devices base ts"

definition found :: "u32 \<Rightarrow> u32 \<Rightarrow> sdb_node list \<Rightarrow> u32 list" where
  "found devid base ts = [a. (a, d, v, nm) \<leftarrow> devices base ts, d = devid]"

lemma found_simps [simp]:
  "found devid base [] = []"
  "found devid base (Device a d v nm # ts)
     = (if d = devid then (base + a) # found devid base ts else found devid base ts)"
  "found devid base (Bridge a sub # ts) = found devid (base + a) sub @ found devid base ts"
  "found devid base (Other # ts) = found devid base ts"
  by (simp_all add: found_def)

lemma sdb_types_distinct [simp]: "SDB_DEVICE \<noteq> SDB_BRIDGE" "SDB_BRIDGE \<noteq> SDB_DEVICE"
  by (simp_all add: SDB_DEVICE_def SDB_BRIDGE_def)

section \<open>Finding one device\<close>

lemma find_loop_found:
  "rom_holds rom r ts \<Longrightarrow> 0 \<notin> set (found devid base ts) \<Longrightarrow> i + length ts = records \<Longrightarrow>
   find_loop rom devid base r i records = Some (hd (found devid base ts @ [0]))"
proof (induction rom r ts arbitrary: base i records rule: rom_holds.induct)
  case (1 rom r)
  then show ?case by (subst find_loop.simps) simp
next
  case (2 rom r a d v nm ts)
  then show ?case by (subst find_loop.simps) (auto split: if_splits)
next
  case (3 rom r a sub ts)
  have sub: "find_loop rom devid (base + a) (sdb_child_low rom r) 0
      (sdb_records rom (sdb_child_low rom r)) = Some (hd (found devid (base + a) sub @ [0]))"
    using 3 by auto
  have rest: "find_loop rom devid base (r + sizeof_sdb_record) (Suc i) records
      = Some (hd (found devid base ts @ [0]))"
    using 3 by auto
  have nz: "hd (found devid (base + a) sub @ [0]) \<noteq> 0 \<longleftrightarrow> found devid (base + a) sub \<noteq> []"
    using 3(4) by (cases "found devid (base + a) sub") auto
  show ?case
    using 3(3,5) sub rest nz
    by (subst find_loop.simps) (cases "found devid (base + a) sub", auto)
next
  case (4 rom r ts)
  then show ?case by (subst find_loop.simps) auto
qed

section \<open>Linked lists of nodes\<close>

text \<open>
  The list that ends up behind a slot. A device is linked into the slot and moves it to the
  new node; the devices of a bridge are linked by a call that works on a copy of the slot.
\<close>

fun chain_of :: "u32 \<Rightarrow> u32 \<Rightarrow> sdb_node list \<Rightarrow> u32 list \<Rightarrow> u32 list" where
  "chain_of devid base [] c = c"
| "chain_of devid base (Device a d v nm # ts) c =
     (if d = devid then (base + a) # chain_of devid base ts [] else chain_of devid base ts c)"
| "chain_of devid base (Bridge a sub # ts) c =
     chain_of devid base ts (chain_of devid (base + a) sub c)"
| "chain_of devid base (Other # ts) c = chain_of devid base ts c"

section \<open>Collecting all devices\<close>

text \<open>
  \<open>collected\<close>: what the collecting loop leaves behind when it started on the slot \<open>dev\<close> in the
  state \<open>s\<close>, where the pointers \<open>P\<close> were live: the nodes \<open>ns\<close> hang from the slot, \<open>k\<close> more are
  counted, and everything the program held before is as it was.
\<close>

definition sdb_frame :: "'h mach \<Rightarrow> 'h mach \<Rightarrow> bool" where
  "sdb_frame s s' \<longleftrightarrow>
     hw s' = hw s \<and> devl_devid s' = devl_devid s \<and> words s' = words s \<and> devl s' = devl s \<and>
     handle s' = handle s \<and> spi_config s' = spi_config s \<and> trace s' = trace s \<and>
     console s' = console s"

definition collected ::
  "'h plat \<Rightarrow> slot \<Rightarrow> addr \<Rightarrow> 'h mach \<Rightarrow> addr set \<Rightarrow> addr list \<Rightarrow> 'h mach \<Rightarrow> addr set \<Rightarrow> addr list \<Rightarrow> nat \<Rightarrow> bool" where
  "collected B dev sizep s P ns0 s' P' ns k \<longleftrightarrow>
     live B s' P' \<and> used s' \<le> used s + 16 * k \<and> P \<subseteq> P' \<and> distinct ns \<and> set ns \<subseteq> set ns0 \<union> (P' - P) \<and>
     path (node_next s') (load_slot dev s') ns \<and>
     devl_size s' = (devl_size s)(sizep := devl_size s sizep + of_nat k) \<and>
     (\<forall>q\<in>P. node_base s' q = node_base s q) \<and>
     (\<forall>q\<in>P. dev \<noteq> Next q \<longrightarrow> node_next s' q = node_next s q) \<and>
     (\<forall>l. dev \<noteq> Devices l \<longrightarrow> devl_devices s' l = devl_devices s l) \<and>
     sdb_frame s s'"

fun slot_ok :: "slot \<Rightarrow> addr set \<Rightarrow> bool" where
  "slot_ok (Devices l) P \<longleftrightarrow> True"
| "slot_ok (Next n) P \<longleftrightarrow> n \<in> P"

lemma request_ok_small: "n \<le> 0xFFFF \<Longrightarrow> request_ok n"
  by (simp add: request_ok_def POOL_SIZE_def word_le_nat_alt)

lemma collected_refl:
  assumes "live B s P" "distinct ns" "path (node_next s) (load_slot dev s) ns"
  shows "collected B dev sizep s P ns s P ns 0"
  using assms by (simp add: collected_def sdb_frame_def)

lemma new_node_cases:
  assumes "live B s P" and "slot_ok dev P"
  obtains (fault) "new_node B dev b s = Some (Inl NullPointer)" "unat POOL_SIZE < used s + 16"
  | (node) p s' where "new_node B dev b s = Some (Inr (p, s'))" "p \<noteq> 0" "p \<notin> P"
      "live B s' (insert p P)" "used s' \<le> used s + 16" "load_slot dev s' = p" "node_next s' p = 0" "node_base s' p = b"
      "\<forall>q\<in>P. node_base s' q = node_base s q"
      "\<forall>q\<in>P. dev \<noteq> Next q \<longrightarrow> node_next s' q = node_next s q"
      "\<forall>l. dev \<noteq> Devices l \<longrightarrow> devl_devices s' l = devl_devices s l" "devl_size s' = devl_size s"
      "sdb_frame s s'"
proof -
  have "request_ok 8" by (rule request_ok_small) simp
  moreover have "pool_cost 8 = 16" by (simp add: pool_cost_def)
  ultimately consider (null) m where "malloc B 8 s = Some (Inr (0, s\<lparr>heap := m\<rparr>))"
      "unat POOL_SIZE < used s + 16"
    | (fresh) p m where "malloc B 8 s = Some (Inr (p, s\<lparr>heap := m\<rparr>))" "p \<noteq> 0" "p \<notin> P"
      "mm_live (lay B) m (insert p P)" "mm_used m \<le> used s + 16"
    using malloc_cases[OF assms(1)] by metis
  then show ?thesis
  proof cases
    case (null m)
    then show ?thesis using fault by (cases dev) (auto simp: new_node_def bnd_def thn_def deref_def)
  next
    case (fresh p m)
    let ?s1 = "store_slot dev p (s\<lparr>heap := m\<rparr>)"
    let ?s' = "?s1\<lparr>node_base := (node_base ?s1)(p := b), node_next := (node_next ?s1)(p := 0)\<rparr>"
    have "new_node B dev b s = Some (Inr (p, ?s'))"
      using fresh by (cases dev) (auto simp: new_node_def bnd_def thn_def deref_def)
    then show ?thesis
      using fresh assms(2) by (cases dev; intro node[of p ?s']; auto simp: sdb_frame_def)
  qed
qed

lemma collected_bump:
  assumes n: "new_node B dev b s = Some (Inr (p, s1))" "p \<noteq> 0" "p \<notin> P"
      "live B s1 (insert p P)" "used s1 \<le> used s + 16" "load_slot dev s1 = p" "node_next s1 p = 0" "node_base s1 p = b"
      "\<forall>q\<in>P. node_base s1 q = node_base s q"
      "\<forall>q\<in>P. dev \<noteq> Next q \<longrightarrow> node_next s1 q = node_next s q"
      "\<forall>l. dev \<noteq> Devices l \<longrightarrow> devl_devices s1 l = devl_devices s l" "devl_size s1 = devl_size s"
      "sdb_frame s s1"
    and ok: "slot_ok dev P"
    and c: "collected B (Next p) sizep (s1\<lparr>devl_size := (devl_size s1)(sizep := devl_size s1 sizep + 1)\<rparr>)
        (insert p P) [] s' P' ns k"
  shows "collected B dev sizep s P ns0 s' P' (p # ns) (Suc k)"
proof -
  note c' = c[unfolded collected_def, simplified]
  have "load_slot dev s' = p"
  proof (cases dev)
    case (Devices l)
    then show ?thesis using c' n(6) by simp
  next
    case (Next q)
    then have "q \<in> P" "q \<noteq> p" using ok n(3) by auto
    then show ?thesis using c' n(6) Next by auto
  qed
  moreover have "dev \<noteq> Next p" using ok n(3) by (cases dev) auto
  moreover have "node_base s' q = node_base s q" if "q \<in> P" for q
    using c' n(9) that by auto
  moreover have "node_next s' q = node_next s q" if "q \<in> P" "dev \<noteq> Next q" for q
    using c' n(3,10) that by auto
  moreover have "devl_devices s' l = devl_devices s l" if "dev \<noteq> Devices l" for l
    using c' n(11) that by auto
  moreover have "sdb_frame s s'" using c' n(13) by (simp add: sdb_frame_def)
  moreover have "devl_size s' = (devl_size s)(sizep := devl_size s sizep + of_nat (Suc k))"
    using c' n(12) by (auto simp: algebra_simps)
  moreover have "distinct (p # ns)" "set (p # ns) \<subseteq> set ns0 \<union> (P' - P)" using c' n(3) by auto
  ultimately show ?thesis using c' n(2,5) unfolding collected_def by auto
qed

lemma collected_trans:
  assumes c1: "collected B dev sizep s P ns0 s1 P1 ns1 k1"
    and c2: "collected B dev sizep s1 P1 ns1 s2 P2 ns2 k2"
  shows "collected B dev sizep s P ns0 s2 P2 ns2 (k1 + k2)"
proof -
  note c = c1[unfolded collected_def] c2[unfolded collected_def]
  have "devl_size s2 = (devl_size s)(sizep := devl_size s sizep + of_nat (k1 + k2))"
    using c by (simp add: algebra_simps)
  moreover have "sdb_frame s s2" using c by (simp add: sdb_frame_def)
  moreover have "set ns2 \<subseteq> set ns0 \<union> (P2 - P)" "P \<subseteq> P2" using c by auto
  moreover have "\<forall>q\<in>P. node_base s2 q = node_base s q" using c by (auto simp: subset_iff)
  moreover have "\<forall>q\<in>P. dev \<noteq> Next q \<longrightarrow> node_next s2 q = node_next s q" using c by (auto simp: subset_iff)
  ultimately show ?thesis using c unfolding collected_def by simp
qed

lemma all_loop_collects:
  "rom_holds rom r ts \<Longrightarrow> i + length ts = records \<Longrightarrow> live B s P \<Longrightarrow> slot_ok dev P \<Longrightarrow>
   set ns0 \<subseteq> P \<Longrightarrow> distinct ns0 \<Longrightarrow> path (node_next s) (load_slot dev s) ns0 \<Longrightarrow>
   (\<forall>n\<in>set ns0. dev \<noteq> Next n) \<Longrightarrow>
   all_loop B rom devid sizep base r i records dev s = Some (Inl NullPointer) \<and>
     unat POOL_SIZE < used s + 16 * length (found devid base ts) \<or>
   (\<exists>s' P' ns. all_loop B rom devid sizep base r i records dev s = Some (Inr ((), s')) \<and>
      collected B dev sizep s P ns0 s' P' ns (length (found devid base ts)) \<and>
      map (node_base s') ns = chain_of devid base ts (map (node_base s) ns0))"
proof (induction rom r ts arbitrary: base i records dev s P ns0 rule: rom_holds.induct)
  case (1 rom r)
  then have "all_loop B rom devid sizep base r i records dev s = Some (Inr ((), s))"
    by (subst all_loop.simps) simp
  moreover have "collected B dev sizep s P ns0 s P ns0 0" using 1 by (intro collected_refl) auto
  ultimately show ?case by auto
next
  case (2 rom r a d v nm ts)
  note rt = 2(2)[simplified]
  show ?case
  proof (cases "d = devid")
    case False
    have "all_loop B rom devid sizep base r i records dev s
        = all_loop B rom devid sizep base (r + sizeof_sdb_record) (Suc i) records dev s"
      using rt False 2(3) by (subst all_loop.simps) (auto simp: thn_def bnd_def)
    then show ?thesis using 2(1)[OF _ _ 2(4-9), of "Suc i" records base] rt 2(3) False by simp
  next
    case True
    let ?b = "base + addr_first_low rom r"
    show ?thesis
    proof (cases rule: new_node_cases[OF 2(4,5), of ?b, case_names fault node])
      case fault
      have "all_loop B rom devid sizep base r i records dev s = Some (Inl NullPointer)"
        using rt True 2(3) fault by (subst all_loop.simps) (auto simp: thn_def bnd_def)
      then show ?thesis using fault(2) True rt by simp
    next
      case (node p s1)
      let ?s2 = "s1\<lparr>devl_size := (devl_size s1)(sizep := devl_size s1 sizep + 1)\<rparr>"
      have step: "all_loop B rom devid sizep base r i records dev s
          = all_loop B rom devid sizep base (r + sizeof_sdb_record) (Suc i) records (Next p) ?s2"
        using rt True 2(3) node by (subst all_loop.simps) (auto simp: thn_def bnd_def)
      have IH: "all_loop B rom devid sizep base (r + sizeof_sdb_record) (Suc i) records (Next p) ?s2
            = Some (Inl NullPointer) \<and> unat POOL_SIZE < used ?s2 + 16 * length (found devid base ts) \<or>
          (\<exists>s' P' ns. all_loop B rom devid sizep base (r + sizeof_sdb_record) (Suc i) records (Next p) ?s2
              = Some (Inr ((), s')) \<and>
            collected B (Next p) sizep ?s2 (insert p P) [] s' P' ns (length (found devid base ts)) \<and>
            map (node_base s') ns = chain_of devid base ts (map (node_base ?s2) []))"
        using node rt 2(3) by (intro 2(1)) auto
      then show ?thesis
      proof (elim disjE exE conjE)
        fix s' P' ns
        assume r: "all_loop B rom devid sizep base (r + sizeof_sdb_record) (Suc i) records (Next p) ?s2
              = Some (Inr ((), s'))"
          and c: "collected B (Next p) sizep ?s2 (insert p P) [] s' P' ns (length (found devid base ts))"
          and m: "map (node_base s') ns = chain_of devid base ts (map (node_base ?s2) [])"
        have "collected B dev sizep s P ns0 s' P' (p # ns) (Suc (length (found devid base ts)))"
          by (rule collected_bump[OF node 2(5) c])
        moreover have "node_base s' p = ?b" using c node(8) by (simp add: collected_def)
        then have "map (node_base s') (p # ns) = chain_of devid base (Device a d v nm # ts) (map (node_base s) ns0)"
          using m rt True by simp
        ultimately show ?thesis using r step True
          by (intro disjI2 exI[of _ s'] exI[of _ P'] exI[of _ "p # ns"]) simp
      qed (use step node(5) True rt in simp)
    qed
  qed
next
  case (3 rom r a sub ts)
  note rt = 3(3)[simplified]
  let ?sub = "all_loop B rom devid sizep (base + a) (sdb_child_low rom r) 0
      (sdb_records rom (sdb_child_low rom r)) dev"
  let ?rest = "all_loop B rom devid sizep base (r + sizeof_sdb_record) (Suc i) records dev"
  have step: "all_loop B rom devid sizep base r i records dev s = thn ?sub ?rest s"
    using rt 3(4) by (subst all_loop.simps) (auto simp: thn_def bnd_def)
  have "?sub s = Some (Inl NullPointer) \<and>
        unat POOL_SIZE < used s + 16 * length (found devid (base + a) sub) \<or> (\<exists>s' P' ns. ?sub s = Some (Inr ((), s')) \<and>
      collected B dev sizep s P ns0 s' P' ns (length (found devid (base + a) sub)) \<and>
      map (node_base s') ns = chain_of devid (base + a) sub (map (node_base s) ns0))"
    using rt by (intro 3(1)[OF _ _ 3(5-10)]) auto
  then show ?case
  proof (elim disjE exE conjE)
    fix s1 P1 ns1
    assume r1: "?sub s = Some (Inr ((), s1))"
      and c1: "collected B dev sizep s P ns0 s1 P1 ns1 (length (found devid (base + a) sub))"
      and m1: "map (node_base s1) ns1 = chain_of devid (base + a) sub (map (node_base s) ns0)"
    note c1' = c1[unfolded collected_def]
    have dev1: "slot_ok dev P1" using 3(6) c1' by (cases dev) auto
    have ns1: "set ns1 \<subseteq> P1" "\<forall>n\<in>set ns1. dev \<noteq> Next n"
      using c1' 3(6,7,10) by (cases dev; auto)+
    have "?rest s1 = Some (Inl NullPointer) \<and>
        unat POOL_SIZE < used s1 + 16 * length (found devid base ts) \<or> (\<exists>s' P' ns. ?rest s1 = Some (Inr ((), s')) \<and>
      collected B dev sizep s1 P1 ns1 s' P' ns (length (found devid base ts)) \<and>
      map (node_base s') ns = chain_of devid base ts (map (node_base s1) ns1))"
      using rt 3(4) c1' dev1 ns1 by (intro 3(2)) auto
    then show ?thesis
    proof (elim disjE exE conjE)
      fix s2 P2 ns2
      assume r2: "?rest s1 = Some (Inr ((), s2))"
        and c2: "collected B dev sizep s1 P1 ns1 s2 P2 ns2 (length (found devid base ts))"
        and m2: "map (node_base s2) ns2 = chain_of devid base ts (map (node_base s1) ns1)"
      have "all_loop B rom devid sizep base r i records dev s = Some (Inr ((), s2))"
        using step r1 r2 by (simp add: thn_def bnd_def)
      then show ?thesis using collected_trans[OF c1 c2] m1 m2 by auto
    qed (use step r1 c1' in \<open>simp add: thn_def bnd_def\<close>)
  qed (use step in \<open>simp add: thn_def bnd_def\<close>)
next
  case (4 rom r ts)
  have "all_loop B rom devid sizep base r i records dev s
      = all_loop B rom devid sizep base (r + sizeof_sdb_record) (Suc i) records dev s"
    using 4(2,3) by (subst all_loop.simps) (auto simp: thn_def bnd_def)
  then show ?case using 4(1)[OF _ _ 4(4-9), of "Suc i" records base] 4(2,3) by simp
qed

text \<open>
  \<open>devlist s P l devid n bs\<close>: the list object at \<open>l\<close> is for \<open>devid\<close>, has size \<open>n\<close>, and its nodes,
  all live, carry the base addresses \<open>bs\<close>.
\<close>

definition devlist :: "'h mach \<Rightarrow> addr set \<Rightarrow> addr \<Rightarrow> u32 \<Rightarrow> u32 \<Rightarrow> u32 list \<Rightarrow> bool" where
  "devlist s P l devid n bs \<longleftrightarrow>
     l \<in> P \<and> devl_devid s l = devid \<and> devl_size s l = n \<and>
     (\<exists>ns. set ns \<subseteq> P \<and> path (node_next s) (devl_devices s l) ns \<and> map (node_base s) ns = bs)"

definition keeps_lists :: "'h mach \<Rightarrow> addr set \<Rightarrow> 'h mach \<Rightarrow> addr set \<Rightarrow> bool" where
  "keeps_lists s P s' P' \<longleftrightarrow>
     P \<subseteq> P' \<and> (\<forall>q\<in>P. node_base s' q = node_base s q \<and> node_next s' q = node_next s q \<and>
       devl_devid s' q = devl_devid s q \<and> devl_size s' q = devl_size s q \<and>
       devl_devices s' q = devl_devices s q) \<and>
     words s' = words s \<and> handle s' = handle s \<and> hw s' = hw s \<and> trace s' = trace s \<and> console s' = console s"

lemma devlist_kept:
  assumes d: "devlist s P l devid n bs" and k: "keeps_lists s P s' P'"
  shows "devlist s' P' l devid n bs"
proof -
  obtain ns where ns: "set ns \<subseteq> P" "path (node_next s) (devl_devices s l) ns" "map (node_base s) ns = bs"
    and l: "l \<in> P" "devl_devid s l = devid" "devl_size s l = n" using d by (auto simp: devlist_def)
  have "path (node_next s') (devl_devices s' l) ns"
    using ns(1,2) l(1) k by (subst path_cong[of ns _ "node_next s"]) (auto simp: keeps_lists_def)
  moreover have "map (node_base s') ns = bs" using ns(1,3) k by (auto simp: keeps_lists_def subset_iff)
  ultimately show ?thesis using ns(1) l k by (auto simp: devlist_def keeps_lists_def)
qed

lemma keeps_lists_trans:
  "keeps_lists s P s1 P1 \<Longrightarrow> keeps_lists s1 P1 s2 P2 \<Longrightarrow> keeps_lists s P s2 P2"
  by (auto simp: keeps_lists_def subset_iff)

lemma find_device_deep_all_collects:
  assumes tree: "sdb_tree rom sdb ts" and live: "live B s P"
  shows "find_device_deep_all B rom base sdb devid s = Some (Inl NullPointer) \<and>
      unat POOL_SIZE < used s + 24 + 16 * length (found devid base ts) \<or>
    (\<exists>l s' P'. find_device_deep_all B rom base sdb devid s = Some (Inr (l, s')) \<and> l \<notin> P \<and>
      live B s' P' \<and> used s' \<le> used s + 24 + 16 * length (found devid base ts) \<and>
      keeps_lists s P s' P' \<and> devl s' = devl s \<and>
      devlist s' P' l devid (of_nat (length (found devid base ts))) (chain_of devid base ts []))"
proof -
  have "request_ok 12" by (rule request_ok_small) simp
  moreover have "pool_cost 12 = 24" by (simp add: pool_cost_def)
  ultimately consider (null) m where "malloc B 12 s = Some (Inr (0, s\<lparr>heap := m\<rparr>))"
      "unat POOL_SIZE < used s + 24"
    | (fresh) l m where "malloc B 12 s = Some (Inr (l, s\<lparr>heap := m\<rparr>))" "l \<noteq> 0" "l \<notin> P"
      "mm_live (lay B) m (insert l P)" "mm_used m \<le> used s + 24"
    using malloc_cases[OF live] by metis
  then show ?thesis
  proof cases
    case null
    then show ?thesis by (auto simp: find_device_deep_all_def bnd_def thn_def deref_def)
  next
    case (fresh l m)
    let ?s1 = "s\<lparr>heap := m, devl_devid := (devl_devid s)(l := devid), devl_size := (devl_size s)(l := 0),
        devl_devices := (devl_devices s)(l := 0)\<rparr>"
    let ?rec = "find_device_deep_all_rec B rom (Devices l) l base sdb devid"
    have run: "find_device_deep_all B rom base sdb devid s = thn ?rec (ret l) ?s1"
      using fresh by (simp add: find_device_deep_all_def bnd_def thn_def deref_def)
    have "?rec ?s1 = Some (Inl NullPointer) \<and>
        unat POOL_SIZE < used ?s1 + 16 * length (found devid base ts) \<or>
       (\<exists>s' P' ns. ?rec ?s1 = Some (Inr ((), s')) \<and>
          collected B (Devices l) l ?s1 (insert l P) [] s' P' ns (length (found devid base ts)) \<and>
          map (node_base s') ns = chain_of devid base ts (map (node_base ?s1) []))"
      unfolding find_device_deep_all_rec_def using tree fresh
      by (intro all_loop_collects) (auto simp: sdb_tree_def)
    then show ?thesis
    proof (elim disjE exE conjE)
      fix s' P' ns
      assume r: "?rec ?s1 = Some (Inr ((), s'))"
        and c: "collected B (Devices l) l ?s1 (insert l P) [] s' P' ns (length (found devid base ts))"
        and m: "map (node_base s') ns = chain_of devid base ts (map (node_base ?s1) [])"
      note c' = c[unfolded collected_def sdb_frame_def]
      have k: "keeps_lists s P s' P'" using c' fresh(3) by (auto simp: keeps_lists_def)
      have d: "devlist s' P' l devid (of_nat (length (found devid base ts))) (chain_of devid base ts [])"
        unfolding devlist_def using c' m by (auto intro!: exI[of _ ns])
      have "find_device_deep_all B rom base sdb devid s = Some (Inr (l, s'))"
        using run r by (simp add: thn_def bnd_def)
      then show ?thesis using k d c' fresh(3,5) by (intro disjI2 exI[of _ l] exI[of _ s'] exI[of _ P']) simp
    qed (use run fresh(5) in \<open>simp add: thn_def bnd_def\<close>)
  qed
qed

section \<open>Lost devices\<close>

text \<open>
  A table is free of shadowing when no device of the kind follows a bridge, in the same table,
  behind which there is a device of the kind.
\<close>

fun no_shadow :: "u32 \<Rightarrow> sdb_node list \<Rightarrow> bool" where
  "no_shadow devid [] = True"
| "no_shadow devid (Device a d v nm # ts) = no_shadow devid ts"
| "no_shadow devid (Bridge a sub # ts) \<longleftrightarrow>
     no_shadow devid sub \<and> no_shadow devid ts \<and> (found devid 0 sub = [] \<or> found devid 0 ts = [])"
| "no_shadow devid (Other # ts) = no_shadow devid ts"

lemma found_empty_base: "found devid base ts = [] \<longleftrightarrow> found devid 0 ts = []"
proof (induction devid ts arbitrary: base rule: no_shadow.induct)
  case (3 devid a sub ts)
  then show ?case by (metis (no_types, lifting) append_is_Nil_conv found_simps(3))
qed auto

lemma chain_of_none: "found devid base ts = [] \<Longrightarrow> chain_of devid base ts c = c"
  by (induction devid base ts c rule: chain_of.induct) (auto split: if_splits)

lemma chain_of_some:
  "found devid base ts \<noteq> [] \<Longrightarrow> chain_of devid base ts c = chain_of devid base ts c'"
proof (induction devid ts arbitrary: base c c' rule: no_shadow.induct)
  case (3 devid a sub ts)
  show ?case
  proof (cases "found devid base ts = []")
    case True
    then show ?thesis using 3(1)[of "base + a" c c'] 3(3) by (simp add: chain_of_none)
  next
    case False
    then show ?thesis using 3(2) by simp
  qed
qed auto

lemma chain_of_length: "length (chain_of devid base ts []) \<le> length (found devid base ts)"
proof (induction devid ts arbitrary: base rule: no_shadow.induct)
  case (3 devid a sub ts)
  show ?case
  proof (cases "found devid base ts = []")
    case True
    then show ?thesis using 3(1)[of "base + a"] by (simp add: chain_of_none)
  next
    case False
    then have "chain_of devid base (Bridge a sub # ts) [] = chain_of devid base ts []"
      by (simp add: chain_of_some)
    then show ?thesis using 3(2)[of base] by simp
  qed
qed (auto intro: le_SucI)

lemma chain_of_complete:
  "chain_of devid base ts [] = found devid base ts \<longleftrightarrow> no_shadow devid ts"
proof (induction devid ts arbitrary: base rule: no_shadow.induct)
  case (3 devid a sub ts)
  note e = found_empty_base[of devid base ts] found_empty_base[of devid "base + a" sub]
  consider (ts) "found devid base ts = []" | (sub) "found devid (base + a) sub = []"
    | (both) "found devid base ts \<noteq> []" "found devid (base + a) sub \<noteq> []" by blast
  then show ?case
  proof cases
    case ts
    then have "no_shadow devid ts" using 3(2)[of base] by (simp add: chain_of_none)
    then show ?thesis using 3(1)[of "base + a"] ts e by (simp add: chain_of_none)
  next
    case sub
    then have "no_shadow devid sub" using 3(1)[of "base + a"] by (simp add: chain_of_none)
    then show ?thesis using 3(2)[of base] sub e by (simp add: chain_of_none)
  next
    case both
    have "length (chain_of devid base ts []) < length (found devid (base + a) sub @ found devid base ts)"
      using chain_of_length[of devid base ts] both(2) by (cases "found devid (base + a) sub") auto
    then show ?thesis
      using both e chain_of_some[OF both(1), of "chain_of devid (base + a) sub []" "[]"] by auto
  qed
qed auto

lemma chain_of_shorter:
  "\<not> no_shadow devid ts \<Longrightarrow> length (chain_of devid base ts []) < length (found devid base ts)"
proof (induction devid ts arbitrary: base rule: no_shadow.induct)
  case (3 devid a sub ts)
  note e = found_empty_base[of devid base ts] found_empty_base[of devid "base + a" sub]
  show ?case
  proof (cases "found devid base ts = []")
    case True
    then have "no_shadow devid ts" using chain_of_complete[of devid base ts] by (simp add: chain_of_none)
    then show ?thesis using 3(1)[of "base + a"] 3(3) True e by (simp add: chain_of_none)
  next
    case False
    then have c: "chain_of devid base (Bridge a sub # ts) [] = chain_of devid base ts []"
      using chain_of_some[OF False] by simp
    show ?thesis
    proof (cases "found devid (base + a) sub = []")
      case True
      then have "no_shadow devid sub"
        using chain_of_complete[of devid "base + a" sub] by (simp add: chain_of_none)
      then show ?thesis using 3(2)[of base] 3(3) True e c by simp
    next
      case False
      then show ?thesis
        using c chain_of_length[of devid base ts] by (cases "found devid (base + a) sub") auto
    qed
  qed
qed (auto intro: less_SucI)

section \<open>All kinds\<close>

lemma devlist_devl [simp]: "devlist (s\<lparr>devl := f\<rparr>) P l devid n bs = devlist s P l devid n bs"
  by (simp add: devlist_def)

lemma keeps_lists_devl [simp]: "keeps_lists (s\<lparr>devl := f\<rparr>) P s' P' = keeps_lists s P s' P'"
  by (simp add: keeps_lists_def)

definition kinds_cost :: "(dev_kind \<times> u32) list \<Rightarrow> sdb_node list \<Rightarrow> nat" where
  "kinds_cost ks ts = sum_list (map (\<lambda>(k, devid). 24 + 16 * length (found devid 0 ts)) ks)"

lemma find_kinds_spec:
  assumes tree: "sdb_tree rom SDB_ADDRESS ts"
  shows "live B s P \<Longrightarrow> distinct (map fst ks) \<Longrightarrow> used s + kinds_cost ks ts \<le> unat POOL_SIZE \<Longrightarrow>
    \<exists>s' P'. find_kinds B rom ks s = Some (Inr ((), s')) \<and> live B s' P' \<and> keeps_lists s P s' P' \<and>
      used s' \<le> used s + kinds_cost ks ts \<and>
      (\<forall>(k, devid)\<in>set ks. devlist s' P' (devl s' k) devid (of_nat (length (found devid 0 ts)))
         (chain_of devid 0 ts [])) \<and>
      (\<forall>k. k \<notin> fst ` set ks \<longrightarrow> devl s' k = devl s k)"
proof (induction ks arbitrary: s P)
  case Nil
  then show ?case by (auto simp: keeps_lists_def)
next
  case (Cons kd ks)
  obtain k devid where kd: "kd = (k, devid)" by (cases kd)
  have cost: "kinds_cost (kd # ks) ts = 24 + 16 * length (found devid 0 ts) + kinds_cost ks ts"
    by (simp add: kinds_cost_def kd)
  obtain l s1 P1 where l: "find_device_all B rom devid s = Some (Inr (l, s1))" "live B s1 P1"
    "used s1 \<le> used s + 24 + 16 * length (found devid 0 ts)" "keeps_lists s P s1 P1" "devl s1 = devl s"
    "devlist s1 P1 l devid (of_nat (length (found devid 0 ts))) (chain_of devid 0 ts [])"
    using find_device_deep_all_collects[OF tree Cons.prems(1), of 0 devid] Cons.prems(3) cost
    by (auto simp: find_device_all_def)
  let ?s1 = "s1\<lparr>devl := (devl s1)(k := l)\<rparr>"
  have "live B ?s1 P1" "distinct (map fst ks)" "used ?s1 + kinds_cost ks ts \<le> unat POOL_SIZE"
    using l(2,3) Cons.prems(2,3) cost by simp_all
  from Cons.IH[OF this] obtain s' P' where IH: "find_kinds B rom ks ?s1 = Some (Inr ((), s'))"
    "live B s' P'" "keeps_lists s1 P1 s' P'" "used s' \<le> used s1 + kinds_cost ks ts"
    "\<forall>(k, devid)\<in>set ks. devlist s' P' (devl s' k) devid (of_nat (length (found devid 0 ts)))
         (chain_of devid 0 ts [])"
    "\<forall>j. j \<notin> fst ` set ks \<longrightarrow> devl s' j = devl ?s1 j" by auto
  have "devl s' k = l" using IH(6) Cons.prems(2) kd by auto
  moreover have "devlist s' P' l devid (of_nat (length (found devid 0 ts))) (chain_of devid 0 ts [])"
    by (rule devlist_kept[OF l(6) IH(3)])
  moreover have "find_kinds B rom (kd # ks) s = Some (Inr ((), s'))"
    using l(1) IH(1) kd by (simp add: bnd_def thn_def)
  ultimately show ?case
    using IH l(3,5) cost kd keeps_lists_trans[OF l(4) IH(3)]
    by (intro exI[of _ s'] exI[of _ P']) auto
qed

section \<open>Printing\<close>

definition print_line :: "u32 \<times> u32 \<times> u32 \<times> u8 list \<Rightarrow> string \<times> arg list" where
  "print_line = (\<lambda>(a, d, v, nm). (''%8x:%8x 0x%8x %s\<newline>'', [Num v, Num d, Num a, Str (nm @ [0])]))"

definition devices_header :: "(string \<times> arg list) list" where
  "devices_header =
     [(''-------------------------------------------\<newline>'', []),
      (''|            SDB memory map               |\<newline>'', []),
      (''-------------------------------------------\<newline>\<newline>'', [])]"

lemma print_loop_prints:
  "rom_holds rom r ts \<Longrightarrow> i + length ts = records \<Longrightarrow>
   print_loop rom base r i records s
     = Some (Inr ((), s\<lparr>console := console s @ map print_line (devices base ts)\<rparr>))"
proof (induction rom r ts arbitrary: base i records s rule: rom_holds.induct)
  case (1 rom r)
  then show ?case by (subst print_loop.simps) simp
next
  case (2 rom r a d v nm ts)
  then show ?case by (subst print_loop.simps) (auto simp: thn_def bnd_def pp_printf_def print_line_def)
next
  case (3 rom r a sub ts)
  have "print_loop rom (base + a) (sdb_child_low rom r) 0 (sdb_records rom (sdb_child_low rom r)) s
      = Some (Inr ((), s\<lparr>console := console s @ map print_line (devices (base + a) sub)\<rparr>))"
    using 3(3) by (intro 3(1)) auto
  then show ?case
    using 3(2)[of "Suc i" records base] 3(3,4)
    by (subst print_loop.simps) (auto simp: thn_def bnd_def)
next
  case (4 rom r ts)
  then show ?case by (subst print_loop.simps) (auto simp: thn_def bnd_def)
qed

section \<open>A concrete table\<close>

text \<open>
  A root table with a bridge to a second table; both have a device of the kind 0x35aa6b95,
  the first one behind the bridge.
\<close>

definition demo_bytes :: "(u32 \<times> u8) list" where
  "demo_bytes =
     [(0x30000005, 3),
      (0x30000044, 0x30), (0x30000046, 0x10), (0x3000004E, 0x10), (0x3000007F, 2),
      (0x3000008E, 0x20), (0x300000A0, 0x35), (0x300000A1, 0xAA), (0x300000A2, 0x6B),
      (0x300000A3, 0x95), (0x300000BF, 1),
      (0x30001005, 2),
      (0x3000104F, 0x10), (0x30001060, 0x35), (0x30001061, 0xAA), (0x30001062, 0x6B),
      (0x30001063, 0x95), (0x3000107F, 1)]"

definition demo_rom :: rom where
  "demo_rom a = (case map_of demo_bytes a of None \<Rightarrow> 0 | Some b \<Rightarrow> b)"

definition demo_tree :: "sdb_node list" where
  "demo_tree =
     [Other, Bridge 0x1000 [Other, Device 0x10 0x35aa6b95 0 (replicate 19 0)],
      Device 0x2000 0x35aa6b95 0 (replicate 19 0)]"

lemmas sdb_run_simps = demo_rom_def demo_bytes_def be16_def be32_def record_type_def sdb_records_def
  sdb_child_low_def addr_first_low_def vendor_id_low_def device_id_def product_name_def
  sizeof_sdb_record_def SDB_DEVICE_def SDB_BRIDGE_def SDB_ADDRESS_def

lemma demo_tree_ok: "sdb_tree demo_rom SDB_ADDRESS demo_tree"
  by code_simp

section \<open>Properties\<close>

text \<open>
  C14 (functional). When no device with the identifier has the absolute address 0, \<^verbatim>\<open>find_device_deep\<close> returns the address of the first
  device with it, in depth-first order, and the null pointer when there is none. (The code takes
  the address 0 for \<open>not found\<close>: behind a bridge it goes on searching after such a device.)
\<close>

theorem find_device_deep_first:
  assumes "sdb_tree rom sdb ts" and "0 \<notin> set (found devid base ts)"
  shows "find_device_deep rom base sdb devid =
    Some (case found devid base ts of [] \<Rightarrow> 0 | a # _ \<Rightarrow> a)"
  using find_loop_found[of rom sdb ts devid base 0 "sdb_records rom sdb"] assms
  by (simp add: sdb_tree_def find_device_deep_def split: list.splits)

theorem find_device_deep_first_witness: "find_device demo_rom 0x35aa6b95 = Some 0x1010"
proof -
  have "found 0x35aa6b95 0 demo_tree = [0x1010, 0x2000]" by (simp add: demo_tree_def)
  then show ?thesis
    using find_device_deep_first[OF demo_tree_ok, of "0x35aa6b95" 0] by (simp add: find_device_def)
qed

text \<open>
  C11 (functional). When no device of the kind follows a bridge with devices of the kind, and
  the pool has room for the nodes, the list that \<^verbatim>\<open>find_device_deep_all\<close> builds has exactly the devices of
  the tree, in depth-first order, and their number as its size.
\<close>

theorem find_device_deep_all_complete:
  assumes "sdb_tree rom sdb ts" and "live B s P" and "no_shadow devid ts"
    and "used s + 24 + 16 * length (found devid base ts) \<le> unat POOL_SIZE"
  shows "\<exists>l s' P'. find_device_deep_all B rom base sdb devid s = Some (Inr (l, s')) \<and> live B s' P' \<and>
    keeps_lists s P s' P' \<and>
    devlist s' P' l devid (of_nat (length (found devid base ts))) (found devid base ts)"
  using find_device_deep_all_collects[OF assms(1,2), of base devid] assms(3,4)
    chain_of_complete[of devid base ts]
  by auto

theorem find_device_deep_all_complete_witness:
  "\<exists>l s P. find_device_deep_all demo_plat demo_rom 0 0x30001000 0x35aa6b95 (boot demo_layout 0) = Some (Inr (l, s)) \<and>
     devlist s P l 0x35aa6b95 1 [0x10]"
proof -
  have t: "sdb_tree demo_rom 0x30001000 [Other, Device 0x10 0x35aa6b95 0 (replicate 19 0)]" by code_simp
  have "no_shadow 0x35aa6b95 [Other, Device 0x10 0x35aa6b95 0 (replicate 19 0)]" by simp
  from find_device_deep_all_complete[OF t demo_boot_live this, of 0 0] show ?thesis
    by (auto simp: POOL_SIZE_def)
qed

text \<open>
  With shadowing the list loses devices, although its size still counts them: the
  list is shorter than the size says, so that a loop over the size runs off its end.
\<close>

lemma find_device_deep_all_loses:
  assumes "sdb_tree rom sdb ts" and "live B s P" and "\<not> no_shadow devid ts"
    and "used s + 24 + 16 * length (found devid base ts) \<le> unat POOL_SIZE"
  shows "\<exists>l s' P' bs. find_device_deep_all B rom base sdb devid s = Some (Inr (l, s')) \<and>
    devlist s' P' l devid (of_nat (length (found devid base ts))) bs \<and>
    length bs < length (found devid base ts)"
  using find_device_deep_all_collects[OF assms(1,2), of base devid] assms(4)
    chain_of_shorter[OF assms(3), of base]
  by auto

lemma find_device_deep_all_loses_witness:
  "\<exists>l s P bs. find_device_deep_all demo_plat demo_rom 0 SDB_ADDRESS 0x35aa6b95 (boot demo_layout 0) = Some (Inr (l, s)) \<and>
     devlist s P l 0x35aa6b95 2 bs \<and> length bs < 2"
proof -
  have n: "\<not> no_shadow 0x35aa6b95 demo_tree" by (simp add: demo_tree_def)
  have f: "length (found 0x35aa6b95 0 demo_tree) = 2" by (simp add: demo_tree_def)
  from find_device_deep_all_loses[OF demo_tree_ok demo_boot_live n, of 0 0] show ?thesis
    by (simp add: f POOL_SIZE_def)
qed

text \<open>
  C17 (functional). From a heap with room for twelve list headers of 24 bytes and a node of 16 bytes for each device found (\<open>kinds_cost\<close>),
  \<^verbatim>\<open>sdb_find_devices\<close> returns and sets the list of each of the twelve kinds for the identifier of its gateware: the size is the number
  of devices with the identifier in the tables, and the nodes are these devices in depth-first order unless one of them
  follows a bridge with others. What was on the heap before is kept.
\<close>

theorem sdb_find_devices_lists:
  assumes "sdb_tree rom SDB_ADDRESS ts" and "live B s P"
    and "used s + kinds_cost sdb_ids ts \<le> unat POOL_SIZE"
  shows "\<exists>s' P'. sdb_find_devices B rom s = Some (Inr ((), s')) \<and> live B s' P' \<and>
    keeps_lists s P s' P' \<and>
    (\<forall>(k, devid)\<in>{(Mem, 0x66cfeb52), (Dma, 0xcababa56), (Ethmac, 0xf8cfeb16), (Ethmac_Adapt, 0x2ff9a28e),
        (Ebone_Cfg, 0x68202b22), (Fmc516, 0x27b95341), (Spi, 0x40286417), (I2c, 0x97b6323d), (Owr, 0x525fbb09),
        (Uart, 0x8a5719ae), (Gpio, 0x35aa6b95), (Tics, 0xfdafb9dd)}.
       \<exists>bs. devlist s' P' (devl s' k) devid (of_nat (length (found devid 0 ts))) bs \<and>
         (no_shadow devid ts \<longrightarrow> bs = found devid 0 ts))"
proof -
  have "distinct (map fst sdb_ids)" by (simp add: sdb_ids_def)
  from find_kinds_spec[OF assms(1,2) this assms(3)] obtain s' P' where r: "find_kinds B rom sdb_ids s = Some (Inr ((), s'))"
    "live B s' P'" "keeps_lists s P s' P'"
    "\<forall>(k, devid)\<in>set sdb_ids. devlist s' P' (devl s' k) devid (of_nat (length (found devid 0 ts))) (chain_of devid 0 ts [])"
    by blast
  from r(4) have "\<exists>bs. devlist s' P' (devl s' k) devid (of_nat (length (found devid 0 ts))) bs \<and>
      (no_shadow devid ts \<longrightarrow> bs = found devid 0 ts)" if "(k, devid) \<in> set sdb_ids" for k devid
    using chain_of_complete[of devid 0 ts] that by blast
  then have "\<forall>(k, devid)\<in>set sdb_ids. \<exists>bs. devlist s' P' (devl s' k) devid (of_nat (length (found devid 0 ts))) bs \<and>
      (no_shadow devid ts \<longrightarrow> bs = found devid 0 ts)" by blast
  moreover have "set sdb_ids = {(Mem, 0x66cfeb52), (Dma, 0xcababa56), (Ethmac, 0xf8cfeb16), (Ethmac_Adapt, 0x2ff9a28e),
        (Ebone_Cfg, 0x68202b22), (Fmc516, 0x27b95341), (Spi, 0x40286417), (I2c, 0x97b6323d), (Owr, 0x525fbb09),
        (Uart, 0x8a5719ae), (Gpio, 0x35aa6b95), (Tics, 0xfdafb9dd)}" by (simp add: sdb_ids_def)
  ultimately show ?thesis
    unfolding sdb_find_devices_def by (intro exI[of _ s'] exI[of _ P'] conjI r) (simp only:)
qed

theorem sdb_find_devices_lists_witness:
  "\<exists>s P bs. sdb_find_devices demo_plat demo_rom (boot demo_layout 0) = Some (Inr ((), s)) \<and>
     devlist s P (devl s Gpio) 0x35aa6b95 2 bs \<and> devlist s P (devl s Uart) 0x8a5719ae 0 []"
proof -
  have c: "used (boot demo_layout 0) + kinds_cost sdb_ids demo_tree \<le> unat POOL_SIZE"
    by (simp add: kinds_cost_def sdb_ids_def demo_tree_def POOL_SIZE_def)
  have f: "length (found 0x35aa6b95 0 demo_tree) = 2" "found 0x8a5719ae 0 demo_tree = []" "no_shadow 0x8a5719ae demo_tree"
    by (simp_all add: demo_tree_def)
  obtain s P where r: "sdb_find_devices demo_plat demo_rom (boot demo_layout 0) = Some (Inr ((), s))" and
    l: "\<forall>(k, devid)\<in>{(Mem, 0x66cfeb52), (Dma, 0xcababa56), (Ethmac, 0xf8cfeb16), (Ethmac_Adapt, 0x2ff9a28e),
        (Ebone_Cfg, 0x68202b22), (Fmc516, 0x27b95341), (Spi, 0x40286417), (I2c, 0x97b6323d), (Owr, 0x525fbb09),
        (Uart, 0x8a5719ae), (Gpio, 0x35aa6b95), (Tics, 0xfdafb9dd)}.
       \<exists>bs. devlist s P (devl s k) devid (of_nat (length (found devid 0 demo_tree))) bs \<and>
         (no_shadow devid demo_tree \<longrightarrow> bs = found devid 0 demo_tree)"
    using sdb_find_devices_lists[OF demo_tree_ok demo_boot_live c] by (elim exE conjE) (rule that)
  from bspec[OF l, of "(Gpio, 0x35aa6b95)"] bspec[OF l, of "(Uart, 0x8a5719ae)"]
  have "(\<exists>bs. devlist s P (devl s Gpio) 0x35aa6b95 2 bs) \<and> devlist s P (devl s Uart) 0x8a5719ae 0 []" by (simp add: f) blast
  then show ?thesis using r by (elim conjE exE) (intro exI conjI)
qed

text \<open>
  \<^verbatim>\<open>sdb_print_devices\<close> prints its three header lines and then one line for each device of
  the tree, depth first, with the absolute address, and changes nothing else.
\<close>

lemma sdb_print_devices_prints:
  fixes s :: "'h mach"
  assumes "sdb_tree rom SDB_ADDRESS ts"
  shows "sdb_print_devices rom s =
    Some (Inr ((), s\<lparr>console := console s @ devices_header @ map print_line (devices 0 ts)\<rparr>))"
proof -
  have "print_devices_deep rom 0 SDB_ADDRESS t
      = Some (Inr ((), t\<lparr>console := console t @ map print_line (devices 0 ts)\<rparr>))" for t :: "'h mach"
    using print_loop_prints[of rom SDB_ADDRESS ts 0 "length ts" 0 t] assms
    by (simp add: print_devices_deep_def sdb_tree_def)
  then show ?thesis
    by (simp add: sdb_print_devices_def devices_header_def thn_def bnd_def pp_printf_def)
qed


lemma sdb_print_devices_prints_witness:
  "\<exists>s. sdb_print_devices demo_rom (boot demo_layout (0::nat)) = Some (Inr ((), s)) \<and> length (console s) = 5"
  using sdb_print_devices_prints[OF demo_tree_ok, of "boot demo_layout (0::nat)"]
  by (simp add: demo_tree_def boot_def devices_header_def)

end
