(* ===== verification/Devices.thy ===== *)
theory Devices
  imports Sdb_Correct
begin

text \<open>
  The simple memory-mapped peripherals: GPIO, DMA, timer, UART and the Etherbone MAC adapter
  (\<^verbatim>\<open>dev/gpio.c\<close>, \<^verbatim>\<open>dev/dma.c\<close>, \<^verbatim>\<open>dev/timer.c\<close>, \<^verbatim>\<open>dev/uart.c\<close>, \<^verbatim>\<open>dev/ethmac_adapt.c\<close>). All of them
  copy the base addresses of their device list into a table on the heap and then access
  registers at fixed offsets.
\<close>

section \<open>Driver tables\<close>

text \<open>
  The loop the init routines share: entry \<open>i\<close> of the table at \<open>p\<close> gets the base address of the
  list node \<open>d\<close>, then \<open>conf i\<close> runs; when it answers false, the loop is left at once.
\<close>

fun dev_init_loop ::
  "(nat \<Rightarrow> u32 \<Rightarrow> ('h mach, bool) prog) \<Rightarrow> addr \<Rightarrow> nat \<Rightarrow> nat \<Rightarrow> addr \<Rightarrow> ('h mach, bool) prog" where
  "dev_init_loop conf p i 0 d = ret True"
| "dev_init_loop conf p i (Suc n) d =
     thn (deref d)
     (bnd (gets (\<lambda>s. node_base s d)) (\<lambda>b.
     thn (deref p)
     (thn (modify (\<lambda>s. s\<lparr>words := (words s)(p + 4 * i := b)\<rparr>))
     (bnd (conf i b) (\<lambda>ok.
       if ok
       then bnd (gets (\<lambda>s. node_next s d)) (\<lambda>d'. dev_init_loop conf p (Suc i) n d')
       else ret False)))))"

text \<open>
  An init routine: -1 when there is no device, else allocate the table, \<open>prepare\<close>, run the
  loop and \<open>finish\<close>; both get the size of the list.
\<close>

definition dev_init ::
  "'h plat \<Rightarrow> dev_kind \<Rightarrow> (u32 \<Rightarrow> ('h mach, unit) prog) \<Rightarrow> (nat \<Rightarrow> u32 \<Rightarrow> ('h mach, bool) prog) \<Rightarrow>
   (u32 \<Rightarrow> ('h mach, unit) prog) \<Rightarrow> ('h mach, int) prog" where
  "dev_init B k prepare conf finish =
     bnd (gets (\<lambda>s. devl s k)) (\<lambda>l.
     thn (deref l)
     (bnd (gets (\<lambda>s. devl_devices s l)) (\<lambda>d.
       if d = 0 then ret (-1)
       else
         bnd (gets (\<lambda>s. devl_size s l)) (\<lambda>n.
         bnd (malloc B (4 * n)) (\<lambda>p.
         thn (modify (\<lambda>s. s\<lparr>handle := (handle s)(k := p)\<rparr>))
         (thn (prepare n)
         (bnd (dev_init_loop conf p 0 (unat n) d) (\<lambda>ok.
           if ok then thn (finish n) (ret 0) else ret (-1)))))))))"

text \<open>\<^verbatim>\<open>gpio[id]\<close>: the base address of instance \<open>idx\<close>.\<close>

definition dev_base :: "dev_kind \<Rightarrow> u32 \<Rightarrow> ('h mach, u32) prog" where
  "dev_base k idx =
     bnd (gets (\<lambda>s. handle s k)) (\<lambda>p.
     thn (deref p) (gets (\<lambda>s. words s (p + 4 * unat idx))))"

text \<open>The messages of the init routines.\<close>

definition debug_addr :: "u32 \<Rightarrow> string \<Rightarrow> nat \<Rightarrow> u32 \<Rightarrow> ('h mach, unit) prog" where
  "debug_addr dbg fmt i b = DBE_DEBUG dbg fmt (ret [Num (of_nat i), Num b])"

definition debug_size :: "u32 \<Rightarrow> string \<Rightarrow> u32 \<Rightarrow> ('h mach, unit) prog" where
  "debug_size dbg fmt n = DBE_DEBUG dbg fmt (ret [Num n])"

section \<open>GPIO\<close>

definition GPIO_CODR :: u32 where "GPIO_CODR = 0x0"
definition GPIO_SODR :: u32 where "GPIO_SODR = 0x4"
definition GPIO_DDR :: u32 where "GPIO_DDR = 0x8"
definition GPIO_PSR :: u32 where "GPIO_PSR = 0xC"

definition gpio_init :: "'h plat \<Rightarrow> ('h mach, int) prog" where
  "gpio_init B =
     dev_init B Gpio (\<lambda>_. ret ())
       (\<lambda>i b. thn (debug_addr (DBG_GPIO OR DBE_DBG_TRACE) ''> gpio addr[%d]: %08X\<newline>'' i b) (ret True))
       (debug_size (DBG_GPIO OR DBE_DBG_TRACE) ''> gpio size: %d\<newline>'')"

definition gpio_exit :: "('h mach, int) prog" where
  "gpio_exit = bnd (gets (\<lambda>s. handle s Gpio)) (\<lambda>p. thn (mfree p) (ret 0))"

definition gpio_out :: "'h plat \<Rightarrow> u32 \<Rightarrow> nat \<Rightarrow> int \<Rightarrow> ('h mach, unit) prog" where
  "gpio_out B idx pin v =
     bnd (dev_base Gpio idx) (\<lambda>b.
       if v \<noteq> 0 then wr B (b + GPIO_SODR) (push_bit pin 1)
       else wr B (b + GPIO_CODR) (push_bit pin 1))"

definition gpio_dir :: "'h plat \<Rightarrow> u32 \<Rightarrow> nat \<Rightarrow> int \<Rightarrow> ('h mach, unit) prog" where
  "gpio_dir B idx pin v =
     bnd (dev_base Gpio idx) (\<lambda>b.
     bnd (rd B (b + GPIO_DDR)) (\<lambda>ddr.
       if v \<noteq> 0 then wr B (b + GPIO_DDR) (ddr OR push_bit pin 1)
       else wr B (b + GPIO_DDR) (ddr AND NOT (push_bit pin 1))))"

definition gpio_in :: "'h plat \<Rightarrow> u32 \<Rightarrow> nat \<Rightarrow> ('h mach, int) prog" where
  "gpio_in B idx pin =
     bnd (dev_base Gpio idx) (\<lambda>b.
     bnd (rd B (b + GPIO_PSR)) (\<lambda>psr. ret (if psr AND push_bit pin 1 \<noteq> 0 then 1 else 0)))"

section \<open>DMA\<close>

definition DMA_RD_ADDR :: u32 where "DMA_RD_ADDR = 0x0"
definition DMA_WR_ADDR :: u32 where "DMA_WR_ADDR = 0x4"
definition DMA_RD_STRD :: u32 where "DMA_RD_STRD = 0x8"
definition DMA_WR_STRD :: u32 where "DMA_WR_STRD = 0xC"
definition DMA_TR_COUNT :: u32 where "DMA_TR_COUNT = 0x10"

definition dma_init :: "'h plat \<Rightarrow> ('h mach, int) prog" where
  "dma_init B =
     dev_init B Dma (\<lambda>_. ret ())
       (\<lambda>i b. thn (debug_addr (DBG_GENERIC OR DBE_DBG_INFO) ''> dma addr[%d]: %08X\<newline>'' i b) (ret True))
       (debug_size (DBG_GENERIC OR DBE_DBG_INFO) ''> dma size: %d\<newline>'')"

definition read_is_addr :: "'h plat \<Rightarrow> u32 \<Rightarrow> ('h mach, u32) prog" where
  "read_is_addr B idx = bnd (dev_base Dma idx) (\<lambda>b. rd B (b + DMA_RD_ADDR))"

definition write_is_addr :: "'h plat \<Rightarrow> u32 \<Rightarrow> u32 \<Rightarrow> ('h mach, unit) prog" where
  "write_is_addr B idx a = bnd (dev_base Dma idx) (\<lambda>b. wr B (b + DMA_WR_ADDR) a)"

definition read_strd :: "'h plat \<Rightarrow> u32 \<Rightarrow> ('h mach, u32) prog" where
  "read_strd B idx = bnd (dev_base Dma idx) (\<lambda>b. rd B (b + DMA_RD_STRD))"

definition write_strd :: "'h plat \<Rightarrow> u32 \<Rightarrow> u32 \<Rightarrow> ('h mach, unit) prog" where
  "write_strd B idx strd = bnd (dev_base Dma idx) (\<lambda>b. wr B (b + DMA_WR_STRD) strd)"

definition read_tr_count :: "'h plat \<Rightarrow> u32 \<Rightarrow> ('h mach, u32) prog" where
  "read_tr_count B idx = bnd (dev_base Dma idx) (\<lambda>b. rd B (b + DMA_TR_COUNT))"

section \<open>Timer\<close>

definition TICS_ID :: u32 where "TICS_ID = 0"

definition timer_init :: "'h plat \<Rightarrow> ('h mach, int) prog" where
  "timer_init B =
     dev_init B Tics (\<lambda>_. ret ())
       (\<lambda>i b. thn (debug_addr (DBG_GENERIC OR DBE_DBG_INFO) ''> timer addr[%d]: %08X\<newline>'' i b) (ret True))
       (debug_size (DBG_GENERIC OR DBE_DBG_INFO) ''> timer size: %d\<newline>'')"

definition timer_exit :: "('h mach, int) prog" where
  "timer_exit = bnd (gets (\<lambda>s. handle s Tics)) (\<lambda>p. thn (mfree p) (ret 0))"

definition timer_get_tics :: "'h plat \<Rightarrow> ('h mach, u32) prog" where
  "timer_get_tics B = bnd (dev_base Tics TICS_ID) (\<lambda>b. rd B b)"

definition timer_delay :: "'h plat \<Rightarrow> u32 \<Rightarrow> ('h mach, unit) prog" where
  "timer_delay B how_long =
     bnd (timer_get_tics B) (\<lambda>t_start.
       wait_while (bnd (timer_get_tics B) (\<lambda>t. ret (t < t_start + how_long))))"

section \<open>UART\<close>

definition CPU_CLOCK :: u64 where "CPU_CLOCK = 100000000"
definition UART_BAUDRATE :: u64 where "UART_BAUDRATE = 115200"

definition CALC_BAUD :: "u64 \<Rightarrow> u64" where
  "CALC_BAUD baudrate =
     (push_bit (16 - 7) (baudrate * 8) + drop_bit 8 CPU_CLOCK) div drop_bit 7 CPU_CLOCK"

definition UART_SR :: u32 where "UART_SR = 0x0"
definition UART_BCR :: u32 where "UART_BCR = 0x4"
definition UART_TDR :: u32 where "UART_TDR = 0x8"
definition UART_RDR :: u32 where "UART_RDR = 0xC"
definition UART_SR_TX_BUSY :: u32 where "UART_SR_TX_BUSY = 0x1"
definition UART_SR_RX_RDY :: u32 where "UART_SR_RX_RDY = 0x2"
definition DEFAULT_UART :: u32 where "DEFAULT_UART = 0"

definition uart_init :: "'h plat \<Rightarrow> ('h mach, int) prog" where
  "uart_init B =
     dev_init B Uart (\<lambda>_. ret ())
       (\<lambda>i b. thn (wr B (b + UART_BCR) (ucast (CALC_BAUD UART_BAUDRATE)))
         (thn (debug_addr (DBG_UART OR DBE_DBG_INFO) ''> uart addr[%d]: %08X\<newline>'' i b) (ret True)))
       (debug_size (DBG_UART OR DBE_DBG_INFO) ''> uart size: %d\<newline>'')"

definition uart_exit :: "('h mach, int) prog" where
  "uart_exit = bnd (gets (\<lambda>s. handle s Uart)) (\<lambda>p. thn (mfree p) (ret 0))"

text \<open>The end of \<^verbatim>\<open>uart_write_byte\<close>, which is all of it unless the byte is a newline.\<close>

definition uart_tx :: "'h plat \<Rightarrow> u32 \<Rightarrow> u32 \<Rightarrow> ('h mach, unit) prog" where
  "uart_tx B idx c =
     thn (wait_while (bnd (dev_base Uart idx) (\<lambda>b.
            bnd (rd B (b + UART_SR)) (\<lambda>sr. ret (sr AND UART_SR_TX_BUSY \<noteq> 0)))))
       (bnd (dev_base Uart idx) (\<lambda>b. wr B (b + UART_TDR) c))"

definition uart_write_byte :: "'h plat \<Rightarrow> u32 \<Rightarrow> u32 \<Rightarrow> ('h mach, unit) prog" where
  "uart_write_byte B idx c =
     thn (if c = 10 then uart_tx B idx 13 else ret ()) (uart_tx B idx c)"

text \<open>A C string is read up to its terminating zero.\<close>

fun uart_write_string :: "'h plat \<Rightarrow> u32 \<Rightarrow> u8 list \<Rightarrow> ('h mach, unit) prog" where
  "uart_write_string B idx [] = ret ()"
| "uart_write_string B idx (c # cs) =
     (if c = 0 then ret () else thn (uart_write_byte B idx (ucast c)) (uart_write_string B idx cs))"

fun uart_write :: "'h plat \<Rightarrow> u32 \<Rightarrow> (nat \<Rightarrow> u8) \<Rightarrow> nat \<Rightarrow> ('h mach, unit) prog" where
  "uart_write B idx str 0 = ret ()"
| "uart_write B idx str (Suc n) =
     thn (uart_write_byte B DEFAULT_UART (ucast (str 0))) (uart_write B idx (\<lambda>i. str (Suc i)) n)"

definition uart_default_write_string :: "'h plat \<Rightarrow> u8 list \<Rightarrow> ('h mach, unit) prog" where
  "uart_default_write_string B str = uart_write_string B DEFAULT_UART str"

definition uart_poll :: "'h plat \<Rightarrow> u32 \<Rightarrow> ('h mach, u32) prog" where
  "uart_poll B idx =
     bnd (dev_base Uart idx) (\<lambda>b. bnd (rd B (b + UART_SR)) (\<lambda>sr. ret (sr AND UART_SR_RX_RDY)))"

definition uart_read_byte :: "'h plat \<Rightarrow> u32 \<Rightarrow> ('h mach, int) prog" where
  "uart_read_byte B idx =
     bnd (uart_poll B idx) (\<lambda>rdy.
       if rdy = 0 then ret (-1)
       else bnd (dev_base Uart idx) (\<lambda>b.
            bnd (rd B (b + UART_RDR)) (\<lambda>v. ret (uint (v AND 0xff)))))"

section \<open>Etherbone MAC adapter\<close>

definition EADAPT_doit :: u32 where "EADAPT_doit = 0x0"
definition EADAPT_base_tx :: u32 where "EADAPT_base_tx = 0x4"
definition EADAPT_base_rx :: u32 where "EADAPT_base_rx = 0x8"
definition EADAPT_length :: u32 where "EADAPT_length = 0xC"

definition ethmac_adapt_init :: "'h plat \<Rightarrow> ('h mach, int) prog" where
  "ethmac_adapt_init B =
     dev_init B Ethmac_Adapt (\<lambda>_. ret ())
       (\<lambda>i b. thn (debug_addr (DBG_GENERIC OR DBE_DBG_INFO) ''> ethmac_adapt addr[%d]: %08X\<newline>'' i b)
         (ret True))
       (debug_size (DBG_GENERIC OR DBE_DBG_INFO) ''> ethmac_adapt size: %d\<newline>'')"

definition ethmac_adapt_set_base :: "'h plat \<Rightarrow> u32 \<Rightarrow> u32 \<Rightarrow> u32 \<Rightarrow> ('h mach, int) prog" where
  "ethmac_adapt_set_base B idx base_rx base_tx =
     bnd (dev_base Ethmac_Adapt idx) (\<lambda>b.
     thn (wr B (b + EADAPT_base_rx) base_rx)
     (thn (wr B (b + EADAPT_base_tx) base_tx) (ret 0)))"

definition ethmac_adapt_set_length :: "'h plat \<Rightarrow> u32 \<Rightarrow> u32 \<Rightarrow> ('h mach, int) prog" where
  "ethmac_adapt_set_length B idx len =
     bnd (dev_base Ethmac_Adapt idx) (\<lambda>b. thn (wr B (b + EADAPT_length) len) (ret 0))"

definition ethmac_adapt_go :: "'h plat \<Rightarrow> u32 \<Rightarrow> ('h mach, int) prog" where
  "ethmac_adapt_go B idx =
     bnd (dev_base Ethmac_Adapt idx) (\<lambda>b. thn (wr B (b + EADAPT_doit) 1) (ret 0))"

end
