(* ===== verification/Devices_Correct.thy ===== *)
theory Devices_Correct
  imports Devices
begin

text \<open>
  What the drivers of the simple peripherals do on the bus, for every gateware: polling loops,
  the tables the init routines fill (the locale \<open>driver\<close>, interpreted on each of them), the
  bytes sent by the UART, the read-modify-write of the GPIO directions and the timer's delay.
\<close>

section \<open>Bus accesses\<close>

lemma unat_ucast_u8: "unat (ucast c :: u32) = unat (c :: u8)"
  using unsigned_less[of c, where 'a = nat] by (simp add: unsigned_ucast_eq take_bit_nat_eq_self)

lemma ucast_u8_eq: "(ucast c :: u32) = ucast (d :: u8) \<longleftrightarrow> c = d"
  by (metis unat_ucast_u8 word_unat_eq_iff)

lemmas prog_simps = bnd_def thn_def rd_def wr_def Let_def

lemma dev_base_run:
  "handle s k \<noteq> 0 \<Longrightarrow> dev_base k n s = Some (Inr (words s (handle s k + 4 * unat n), s))"
  by (simp add: dev_base_def bnd_def thn_def deref_def)

lemma dev_base_null: "handle s k = 0 \<Longrightarrow> dev_base k n s = Some (Inl NullPointer)"
  by (simp add: dev_base_def bnd_def thn_def deref_def)

text \<open>The base address of instance \<open>n\<close> of the devices of a kind, as the table has it.\<close>

abbreviation base_of :: "'h mach \<Rightarrow> dev_kind \<Rightarrow> u32 \<Rightarrow> u32" where
  "base_of s k n \<equiv> words s (handle s k + 4 * unat n)"

text \<open>A state after bus accesses only.\<close>

definition on_bus :: "'h \<Rightarrow> access list \<Rightarrow> 'h mach \<Rightarrow> 'h mach" where
  "on_bus h es s = s\<lparr>hw := h, trace := trace s @ es\<rparr>"

lemma on_bus_fields [simp]:
  "hw (on_bus h es s) = h" "heap (on_bus h es s) = heap s" "words (on_bus h es s) = words s"
  "handle (on_bus h es s) = handle s" "devl (on_bus h es s) = devl s"
  "trace (on_bus h es s) = trace s @ es" "console (on_bus h es s) = console s"
  "spi_config (on_bus h es s) = spi_config s" "ethmac_bd (on_bus h es s) = ethmac_bd s"
  "ethmac_buf (on_bus h es s) = ethmac_buf s" "next_tx_buf_num (on_bus h es s) = next_tx_buf_num s"
  "hisIP (on_bus h es s) = hisIP s" "hisMAC (on_bus h es s) = hisMAC s" "hisBody (on_bus h es s) = hisBody s"
  "hisBodyLen (on_bus h es s) = hisBodyLen s" "sawARP (on_bus h es s) = sawARP s"
  "sawPING (on_bus h es s) = sawPING s" "eb_done (on_bus h es s) = eb_done s"
  "on_bus h2 fs (on_bus h es s) = on_bus h2 (es @ fs) s"
  by (simp_all add: on_bus_def)

lemma on_bus_nil [simp]: "on_bus (hw s) [] s = s"
  by (simp add: on_bus_def)

lemma rd_run: "rd B a s = Some (Inr (fst (bus_read B a (hw s)), on_bus (snd (bus_read B a (hw s))) [Rd a (fst (bus_read B a (hw s)))] s))"
  by (simp add: rd_def Let_def on_bus_def)

lemma wr_run: "wr B a v s = Some (Inr ((), on_bus (bus_write B a v (hw s)) [Wr a v] s))"
  by (simp add: wr_def on_bus_def)

section \<open>Waiting for a register\<close>

text \<open>
  Polling the register at \<open>a\<close> from the gateware state \<open>h\<close>: the values read while \<open>f\<close> holds,
  then one for which it does not. \<open>settles\<close>: every poll of the register ends like that.
\<close>

inductive poll_run :: "'h plat \<Rightarrow> u32 \<Rightarrow> (u32 \<Rightarrow> bool) \<Rightarrow> 'h \<Rightarrow> u32 list \<Rightarrow> 'h \<Rightarrow> bool"
  for B a f where
  ready: "bus_read B a h = (v, h') \<Longrightarrow> \<not> f v \<Longrightarrow> poll_run B a f h [v] h'"
| again: "bus_read B a h = (v, h1) \<Longrightarrow> f v \<Longrightarrow> poll_run B a f h1 vs h' \<Longrightarrow> poll_run B a f h (v # vs) h'"

inductive_cases poll_runE: "poll_run B a f h vs h'"

definition settles :: "'h plat \<Rightarrow> u32 \<Rightarrow> (u32 \<Rightarrow> bool) \<Rightarrow> bool" where
  "settles B a f \<longleftrightarrow> (\<forall>h. \<exists>vs h'. poll_run B a f h vs h')"

lemma poll_run_last: "poll_run B a f h vs h' \<Longrightarrow> vs \<noteq> [] \<and> \<not> f (last vs) \<and> (\<forall>v\<in>set (butlast vs). f v)"
  by (induction rule: poll_run.induct) auto

text \<open>
  A poll of a driver reads its table entry and then the register; it sees the register as the
  bus does, whatever the rest of the state is.
\<close>

lemma wait_while_poll_run:
  assumes "poll_run B a f h vs h'" and "hw s = h"
    and poll: "\<And>t. words t = words s \<Longrightarrow> handle t = handle s \<Longrightarrow> poll t = bnd (rd B a) (\<lambda>v. ret (f v)) t"
  shows "wait_while poll s = Some (Inr ((), on_bus h' (map (Rd a) vs) s))"
  using assms
proof (induction arbitrary: s rule: poll_run.induct)
  case (ready h v h')
  then show ?case
    by (subst wait_while.simps) (simp add: bnd_def thn_def rd_run)
next
  case (again h v h1 vs h')
  have "wait_while poll (on_bus h1 [Rd a v] s)
      = Some (Inr ((), on_bus h' (map (Rd a) vs) (on_bus h1 [Rd a v] s)))"
    using again by (intro again.IH) auto
  then show ?case
    using again by (subst wait_while.simps) (simp add: bnd_def thn_def rd_run)
qed

text \<open>Conversely, a wait that returns has polled the register until the condition was false.\<close>

lemma polls_poll_run:
  assumes "polls poll n s t"
    and poll: "\<And>t. words t = words s \<Longrightarrow> handle t = handle s \<Longrightarrow> poll t = bnd (rd B a) (\<lambda>v. ret (f v)) t"
  shows "\<exists>vs. poll_run B a f (hw s) vs (hw t) \<and> t = on_bus (hw t) (map (Rd a) vs) s"
  using assms
proof (induction n arbitrary: s)
  case 0
  obtain v h' where v: "bus_read B a (hw s) = (v, h')" by fastforce
  then have "f v = False" "t = on_bus h' [Rd a v] s" using 0 by (auto simp: bnd_def rd_run)
  then show ?case using v by (intro exI[of _ "[v]"]) (auto intro: poll_run.ready)
next
  case (Suc n)
  obtain v h1 where v: "bus_read B a (hw s) = (v, h1)" by fastforce
  obtain s1 where s1: "poll s = Some (Inr (True, s1))" "polls poll n s1 t"
    using Suc.prems(1) by auto
  then have e: "f v" "s1 = on_bus h1 [Rd a v] s" using Suc.prems(2)[of s] v by (auto simp: bnd_def rd_run)
  then obtain vs where "poll_run B a f (hw s1) vs (hw t)" "t = on_bus (hw t) (map (Rd a) vs) s1"
    using Suc.IH[OF s1(2)] Suc.prems(2) by auto
  then show ?case using e v by (intro exI[of _ "v # vs"]) (auto intro: poll_run.again)
qed

lemma wait_dev:
  assumes "handle s k \<noteq> 0" and "settles B (base_of s k n + off) f"
  shows "\<exists>h vs. wait_while (bnd (dev_base k n) (\<lambda>b. bnd (rd B (b + off)) (\<lambda>v. ret (f v)))) s
      = Some (Inr ((), on_bus h (map (Rd (base_of s k n + off)) vs) s)) \<and>
    poll_run B (base_of s k n + off) f (hw s) vs h"
proof -
  obtain vs h where r: "poll_run B (base_of s k n + off) f (hw s) vs h"
    using assms(2) unfolding settles_def by blast
  have "bnd (dev_base k n) (\<lambda>b. bnd (rd B (b + off)) (\<lambda>v. ret (f v))) t
      = bnd (rd B (base_of s k n + off)) (\<lambda>v. ret (f v)) t"
    if "words t = words s" "handle t = handle s" for t
    using that assms(1) by (simp add: bnd_def[of "dev_base k n"] dev_base_run)
  then show ?thesis using wait_while_poll_run[OF r refl] r by blast
qed

section \<open>Driver tables\<close>

definition talk :: "'h \<Rightarrow> access list \<Rightarrow> (string \<times> arg list) list \<Rightarrow> 'h mach \<Rightarrow> 'h mach" where
  "talk h es cs s = s\<lparr>hw := h, trace := trace s @ es, console := console s @ cs\<rparr>"

lemma talk_fields [simp]:
  "heap (talk h es cs s) = heap s" "words (talk h es cs s) = words s"
  "handle (talk h es cs s) = handle s" "devl (talk h es cs s) = devl s"
  "devl_devid (talk h es cs s) = devl_devid s" "devl_size (talk h es cs s) = devl_size s"
  "devl_devices (talk h es cs s) = devl_devices s" "node_base (talk h es cs s) = node_base s"
  "node_next (talk h es cs s) = node_next s" "spi_config (talk h es cs s) = spi_config s"
  "hw (talk h es cs s) = h" "ethmac_bd (talk h es cs s) = ethmac_bd s"
  "ethmac_buf (talk h es cs s) = ethmac_buf s" "next_tx_buf_num (talk h es cs s) = next_tx_buf_num s"
  "hisIP (talk h es cs s) = hisIP s" "hisMAC (talk h es cs s) = hisMAC s" "hisBody (talk h es cs s) = hisBody s"
  "hisBodyLen (talk h es cs s) = hisBodyLen s" "sawARP (talk h es cs s) = sawARP s"
  "sawPING (talk h es cs s) = sawPING s" "eb_done (talk h es cs s) = eb_done s"
  "talk h2 es2 cs2 (talk h es cs s) = talk h2 (es @ es2) (cs @ cs2) s"
  by (simp_all add: talk_def)

lemma talk_nil: "talk (hw s) [] [] s = s"
  by (simp add: talk_def)

lemma talk_words [simp]:
  "(talk h es cs s)\<lparr>words := w\<rparr> = talk h es cs (s\<lparr>words := w\<rparr>)"
  by (simp add: talk_def)

lemma DBE_DEBUG_quiet:
  "\<exists>cs. DBE_DEBUG dbg fmt (ret as) s = Some (Inr ((), talk (hw s) [] cs s))"
  by (auto simp: DBE_DEBUG_def bnd_def pp_printf_def talk_def intro: exI[of _ "[]"])

lemma debug_addr_quiet: "\<exists>cs. debug_addr dbg fmt i b s = Some (Inr ((), talk (hw s) [] cs s))"
  unfolding debug_addr_def by (rule DBE_DEBUG_quiet)

lemma debug_size_quiet: "\<exists>cs. debug_size dbg fmt n s = Some (Inr ((), talk (hw s) [] cs s))"
  unfolding debug_size_def by (rule DBE_DEBUG_quiet)

fun fill :: "(addr \<Rightarrow> u32) \<Rightarrow> addr \<Rightarrow> nat \<Rightarrow> u32 list \<Rightarrow> addr \<Rightarrow> u32" where
  "fill w p i [] = w"
| "fill w p i (b # bs) = fill (w(p + 4 * i := b)) p (Suc i) bs"

lemma fill_outside: "a < p + 4 * i \<or> p + 4 * (i + length bs) \<le> a \<Longrightarrow> fill w p i bs a = w a"
  by (induction w p i bs rule: fill.induct) auto

lemma fill_inside: "j < length bs \<Longrightarrow> fill w p i bs (p + 4 * (i + j)) = bs ! j"
proof (induction w p i bs arbitrary: j rule: fill.induct)
  case (2 w p i b bs)
  show ?case
  proof (cases j)
    case 0
    then show ?thesis by (simp add: fill_outside)
  next
    case (Suc l)
    then have "fill (w(p + 4 * i := b)) p (Suc i) bs (p + 4 * (Suc i + l)) = bs ! l"
      using 2 by (intro 2(1)) auto
    then show ?thesis using Suc by (simp del: fun_upd_apply)
  qed
qed simp

text \<open>
  What the init routines rely on: the work done for one device only uses the bus and the
  console and always goes on, and so does the end of the routine.
\<close>

locale driver =
  fixes conf :: "nat \<Rightarrow> u32 \<Rightarrow> ('h mach, bool) prog" and finish :: "u32 \<Rightarrow> ('h mach, unit) prog"
  assumes conf_quiet: "\<exists>h es cs. conf i b s = Some (Inr (True, talk h es cs s))"
    and finish_quiet: "\<exists>h es cs. finish n s = Some (Inr ((), talk h es cs s))"
begin

lemma loop_fills:
  "path (node_next s) d ns \<Longrightarrow> p \<noteq> 0 \<Longrightarrow>
   \<exists>h es cs. dev_init_loop conf p i (length ns) d s
     = Some (Inr (True, talk h es cs (s\<lparr>words := fill (words s) p i (map (node_base s) ns)\<rparr>)))"
proof (induction ns arbitrary: i d s)
  case Nil
  then show ?case by (simp, metis talk_nil)
next
  case (Cons a ns)
  let ?s1 = "s\<lparr>words := (words s)(p + 4 * i := node_base s d)\<rparr>"
  obtain h es cs where st: "conf i (node_base s d) ?s1 = Some (Inr (True, talk h es cs ?s1))"
    using conf_quiet by blast
  have step: "dev_init_loop conf p i (length (a # ns)) d s
      = dev_init_loop conf p (Suc i) (length ns) (node_next s d) (talk h es cs ?s1)"
    using Cons.prems st by (simp add: bnd_def thn_def deref_def)
  have "path (node_next (talk h es cs ?s1)) (node_next s d) ns" using Cons.prems(1) by auto
  from Cons.IH[OF this Cons.prems(2), of "Suc i"] obtain h2 es2 cs2 where
    "dev_init_loop conf p (Suc i) (length ns) (node_next s d) (talk h es cs ?s1)
      = Some (Inr (True, talk h2 es2 cs2 ((talk h es cs ?s1)\<lparr>words :=
          fill (words (talk h es cs ?s1)) p (Suc i) (map (node_base (talk h es cs ?s1)) ns)\<rparr>)))"
    by blast
  then show ?case using step Cons.prems(1) by simp blast
qed

lemma loop_runs_off:
  "path (node_next s) d ns \<Longrightarrow> p \<noteq> 0 \<Longrightarrow> length ns < n \<Longrightarrow>
   dev_init_loop conf p i n d s = Some (Inl NullPointer)"
proof (induction ns arbitrary: i d s n)
  case Nil
  then show ?case by (cases n) (auto simp: thn_def bnd_def deref_def)
next
  case (Cons a ns)
  then obtain m where m: "n = Suc m" by (cases n) auto
  let ?s1 = "s\<lparr>words := (words s)(p + 4 * i := node_base s d)\<rparr>"
  obtain h es cs where st: "conf i (node_base s d) ?s1 = Some (Inr (True, talk h es cs ?s1))"
    using conf_quiet by blast
  have step: "dev_init_loop conf p i n d s
      = dev_init_loop conf p (Suc i) m (node_next s d) (talk h es cs ?s1)"
    using Cons.prems st m by (simp add: bnd_def thn_def deref_def)
  also have "\<dots> = Some (Inl NullPointer)"
    using Cons.prems m by (intro Cons.IH) auto
  finally show ?case .
qed

text \<open>The three outcomes of an init routine.\<close>

lemma init_none:
  assumes "devlist s P (devl s k) devid n []" and "live B s P"
  shows "dev_init B k (\<lambda>_. ret ()) conf finish s = Some (Inr (-1, s))"
  using assms mm_live_nonnull[OF assms(2), of "devl s k"]
  by (auto simp: dev_init_def devlist_def bnd_def thn_def deref_def)

lemma init_start:
  assumes dl: "devlist s P (devl s k) devid n bs" and live: "live B s P" and bs: "bs \<noteq> []"
    and n: "n \<le> 0x3FFF" and room: "used s + pool_cost (4 * n) \<le> unat POOL_SIZE"
  obtains p m d ns where "p \<noteq> 0" "p \<notin> P" "mm_live (lay B) m (insert p P)" "4 * unat n \<le> payload m p"
    "path (node_next s) d ns" "map (node_base s) ns = bs"
    "dev_init B k (\<lambda>_. ret ()) conf finish s
      = bnd (dev_init_loop conf p 0 (unat n) d) (\<lambda>ok. if ok then thn (finish n) (ret 0) else ret (-1))
          (s\<lparr>heap := m, handle := (handle s)(k := p)\<rparr>)"
proof -
  obtain ns where ns: "path (node_next s) (devl_devices s (devl s k)) ns" "map (node_base s) ns = bs"
    and l: "devl s k \<in> P" "devl_size s (devl s k) = n" using dl by (auto simp: devlist_def)
  have l0: "devl s k \<noteq> 0" using mm_live_nonnull[OF live l(1)] .
  have d0: "devl_devices s (devl s k) \<noteq> 0" using ns bs by (cases ns) auto
  have n4: "unat (4 * n) = 4 * unat n"
    using n by (subst unat_mult_lt) (auto simp: word_le_nat_alt)
  have "request_ok (4 * n)" using n n4 by (simp add: request_ok_def POOL_SIZE_def word_le_nat_alt)
  then obtain p m where p: "malloc B (4 * n) s = Some (Inr (p, s\<lparr>heap := m\<rparr>))" "p \<noteq> 0" "p \<notin> P"
    "mm_live (lay B) m (insert p P)" "4 * unat n \<le> payload m p"
    using malloc_cases[OF live] room n4 by (metis not_less)
  have "dev_init B k (\<lambda>_. ret ()) conf finish s
      = bnd (dev_init_loop conf p 0 (unat n) (devl_devices s (devl s k)))
          (\<lambda>ok. if ok then thn (finish n) (ret 0) else ret (-1)) (s\<lparr>heap := m, handle := (handle s)(k := p)\<rparr>)"
    using l0 d0 l(2) p(1) by (simp add: dev_init_def thn_def deref_def bnd_def)
  then show ?thesis using that p ns by blast
qed

lemma init_fills:
  assumes dl: "devlist s P (devl s k) devid n bs" and live: "live B s P" and bs: "bs \<noteq> []"
    and n: "n \<le> 0x3FFF" and room: "used s + pool_cost (4 * n) \<le> unat POOL_SIZE"
    and len: "length bs = unat n"
  shows "\<exists>p s'. dev_init B k (\<lambda>_. ret ()) conf finish s = Some (Inr (0, s')) \<and> p \<noteq> 0 \<and> p \<notin> P \<and>
    live B s' (insert p P) \<and> 4 * length bs \<le> payload (heap s') p \<and> handle s' = (handle s)(k := p) \<and>
    (\<forall>i<length bs. words s' (p + 4 * i) = bs ! i) \<and>
    (\<forall>a. a < p \<or> p + 4 * length bs \<le> a \<longrightarrow> words s' a = words s a)"
proof -
  obtain p m d ns where p: "p \<noteq> 0" "p \<notin> P" "mm_live (lay B) m (insert p P)" "4 * unat n \<le> payload m p"
    "path (node_next s) d ns" "map (node_base s) ns = bs"
    "dev_init B k (\<lambda>_. ret ()) conf finish s
      = bnd (dev_init_loop conf p 0 (unat n) d) (\<lambda>ok. if ok then thn (finish n) (ret 0) else ret (-1))
          (s\<lparr>heap := m, handle := (handle s)(k := p)\<rparr>)"
    using init_start[OF dl live bs n room] by blast
  define s1 where "s1 = s\<lparr>heap := m, handle := (handle s)(k := p)\<rparr>"
  define w where "w = fill (words s) p 0 bs"
  have ln: "unat n = length ns" using p(6) len by auto
  obtain h es cs where l: "dev_init_loop conf p 0 (unat n) d s1
      = Some (Inr (True, talk h es cs (s1\<lparr>words := w\<rparr>)))"
    using loop_fills[of s1 d ns p 0] p(1,5,6) ln by (auto simp: s1_def w_def)
  obtain h2 es2 cs2 where f: "finish n (talk h es cs (s1\<lparr>words := w\<rparr>))
      = Some (Inr ((), talk h2 es2 cs2 (talk h es cs (s1\<lparr>words := w\<rparr>))))"
    using finish_quiet by blast
  have "dev_init B k (\<lambda>_. ret ()) conf finish s
      = Some (Inr (0, talk h2 (es @ es2) (cs @ cs2) (s1\<lparr>words := w\<rparr>)))"
    unfolding p(7) s1_def[symmetric] using l f by (simp add: bnd_def thn_def)
  moreover have "\<forall>i<length bs. w (p + 4 * i) = bs ! i"
    using fill_inside[of _ bs "words s" p 0] by (simp add: w_def)
  moreover have "\<forall>a. a < p \<or> p + 4 * length bs \<le> a \<longrightarrow> w a = words s a"
    using fill_outside[of _ p 0 bs "words s"] by (simp add: w_def)
  ultimately show ?thesis using p(1-4) len
    by (intro exI[of _ p] exI[of _ "talk h2 (es @ es2) (cs @ cs2) (s1\<lparr>words := w\<rparr>)"])
      (simp add: s1_def)
qed

lemma init_runs_off:
  assumes dl: "devlist s P (devl s k) devid n bs" and live: "live B s P" and bs: "bs \<noteq> []"
    and n: "n \<le> 0x3FFF" and room: "used s + pool_cost (4 * n) \<le> unat POOL_SIZE"
    and len: "length bs < unat n"
  shows "dev_init B k (\<lambda>_. ret ()) conf finish s = Some (Inl NullPointer)"
proof -
  obtain p m d ns where p: "p \<noteq> 0" "p \<notin> P" "mm_live (lay B) m (insert p P)" "4 * unat n \<le> payload m p"
    "path (node_next s) d ns" "map (node_base s) ns = bs"
    "dev_init B k (\<lambda>_. ret ()) conf finish s
      = bnd (dev_init_loop conf p 0 (unat n) d) (\<lambda>ok. if ok then thn (finish n) (ret 0) else ret (-1))
          (s\<lparr>heap := m, handle := (handle s)(k := p)\<rparr>)"
    using init_start[OF dl live bs n room] by blast
  have "length ns < unat n" using p(6) len by auto
  then show ?thesis
    unfolding p(7) using loop_runs_off[of "s\<lparr>heap := m, handle := (handle s)(k := p)\<rparr>" d ns p] p(1,5)
    by (simp add: bnd_def)
qed

end

subsection \<open>The drivers\<close>

lemma quiet_then: "\<exists>cs. m s = Some (Inr ((), talk (hw s) [] cs s)) \<Longrightarrow>
  \<exists>h es cs. thn m (ret True) s = Some (Inr (True, talk h es cs s))"
proof (elim exE)
  fix cs assume "m s = Some (Inr ((), talk (hw s) [] cs s))"
  then have "thn m (ret True) s = Some (Inr (True, talk (hw s) [] cs s))"
    by (simp add: thn_def bnd_def)
  then show ?thesis by blast
qed

interpretation gpio_drv: driver
  "\<lambda>i b. thn (debug_addr (DBG_GPIO OR DBE_DBG_TRACE) ''> gpio addr[%d]: %08X\<newline>'' i b) (ret True)"
  "debug_size (DBG_GPIO OR DBE_DBG_TRACE) ''> gpio size: %d\<newline>''"
  by unfold_locales (blast intro: quiet_then debug_addr_quiet debug_size_quiet)+

interpretation dma_drv: driver
  "\<lambda>i b. thn (debug_addr (DBG_GENERIC OR DBE_DBG_INFO) ''> dma addr[%d]: %08X\<newline>'' i b) (ret True)"
  "debug_size (DBG_GENERIC OR DBE_DBG_INFO) ''> dma size: %d\<newline>''"
  by unfold_locales (blast intro: quiet_then debug_addr_quiet debug_size_quiet)+

interpretation timer_drv: driver
  "\<lambda>i b. thn (debug_addr (DBG_GENERIC OR DBE_DBG_INFO) ''> timer addr[%d]: %08X\<newline>'' i b) (ret True)"
  "debug_size (DBG_GENERIC OR DBE_DBG_INFO) ''> timer size: %d\<newline>''"
  by unfold_locales (blast intro: quiet_then debug_addr_quiet debug_size_quiet)+

interpretation ethmac_adapt_drv: driver
  "\<lambda>i b. thn (debug_addr (DBG_GENERIC OR DBE_DBG_INFO) ''> ethmac_adapt addr[%d]: %08X\<newline>'' i b) (ret True)"
  "debug_size (DBG_GENERIC OR DBE_DBG_INFO) ''> ethmac_adapt size: %d\<newline>''"
  by unfold_locales (blast intro: quiet_then debug_addr_quiet debug_size_quiet)+

lemma uart_conf_quiet:
  "\<exists>h es cs. thn (wr B a v) (thn (debug_addr dbg fmt i b) (ret True)) s
     = Some (Inr (True, talk h es cs s))"
proof -
  let ?s = "talk (bus_write B a v (hw s)) [Wr a v] [] s"
  have w: "wr B a v s = Some (Inr ((), ?s))" by (simp add: wr_def talk_def)
  obtain cs where "debug_addr dbg fmt i b ?s = Some (Inr ((), talk (hw ?s) [] cs ?s))"
    using debug_addr_quiet by blast
  then show ?thesis using w by (simp add: thn_def bnd_def) blast
qed

interpretation uart_drv: driver
  "\<lambda>i b. thn (wr B (b + UART_BCR) (ucast (CALC_BAUD UART_BAUDRATE)))
     (thn (debug_addr (DBG_UART OR DBE_DBG_INFO) ''> uart addr[%d]: %08X\<newline>'' i b) (ret True))"
  "debug_size (DBG_UART OR DBE_DBG_INFO) ''> uart size: %d\<newline>''" for B
  by unfold_locales (blast intro: uart_conf_quiet debug_size_quiet)+

section \<open>UART output\<close>

text \<open>The values written to an address, in order.\<close>

fun writes_at :: "u32 \<Rightarrow> access list \<Rightarrow> u32 list" where
  "writes_at a [] = []"
| "writes_at a (Rd b v # es) = writes_at a es"
| "writes_at a (Wr b v # es) = (if b = a then v # writes_at a es else writes_at a es)"
| "writes_at a (WrB b c # es) = writes_at a es"

lemma writes_at_append [simp]: "writes_at a (es @ fs) = writes_at a es @ writes_at a fs"
  by (induction a es rule: writes_at.induct) auto

lemma writes_at_reads [simp]: "writes_at a (map (Rd b) vs) = []"
  by (induction vs) auto

text \<open>
  \<open>paced sr busy ready es\<close>: every write comes right after a read of \<open>sr\<close> that was not busy;
  \<open>ready\<close> says whether the last access was such a read.
\<close>

fun paced :: "u32 \<Rightarrow> (u32 \<Rightarrow> bool) \<Rightarrow> bool \<Rightarrow> access list \<Rightarrow> bool" where
  "paced sr busy ready [] = True"
| "paced sr busy ready (Rd a v # es) = paced sr busy (a = sr \<and> \<not> busy v) es"
| "paced sr busy ready (Wr a v # es) = (ready \<and> paced sr busy False es)"
| "paced sr busy ready (WrB a c # es) = (ready \<and> paced sr busy False es)"

lemma paced_mono: "paced sr busy False es \<Longrightarrow> paced sr busy r es"
  by (cases "(sr, busy, r, es)" rule: paced.cases) auto

lemma paced_append: "paced sr busy r es \<Longrightarrow> paced sr busy False fs \<Longrightarrow> paced sr busy r (es @ fs)"
  by (induction sr busy r es rule: paced.induct) (auto intro: paced_mono)

lemma paced_poll: "poll_run B sr busy h vs h' \<Longrightarrow> paced sr busy r (map (Rd sr) vs @ [Wr a v])"
  by (induction arbitrary: r rule: poll_run.induct) auto

fun crlf :: "u8 list \<Rightarrow> u32 list" where
  "crlf [] = []"
| "crlf (c # cs) = (if c = 0 then [] else (if c = 10 then [13, 10] else [ucast c]) @ crlf cs)"

abbreviation tx_busy :: "u32 \<Rightarrow> bool" where
  "tx_busy sr \<equiv> sr AND UART_SR_TX_BUSY \<noteq> 0"

lemma uart_offsets [simp]: "UART_SR \<noteq> UART_TDR" "UART_TDR \<noteq> UART_SR"
  by (simp_all add: UART_SR_def UART_TDR_def)

lemma uart_tx_sends:
  assumes h: "handle s Uart \<noteq> 0" and st: "settles B (base_of s Uart n + UART_SR) tx_busy"
  shows "\<exists>h es. uart_tx B n c s = Some (Inr ((), on_bus h es s)) \<and>
    writes_at (base_of s Uart n + UART_TDR) es = [c] \<and>
    paced (base_of s Uart n + UART_SR) tx_busy False es"
proof -
  let ?b = "base_of s Uart n"
  obtain h vs where w: "wait_while (bnd (dev_base Uart n) (\<lambda>b.
          bnd (rd B (b + UART_SR)) (\<lambda>sr. ret (tx_busy sr)))) s
      = Some (Inr ((), on_bus h (map (Rd (?b + UART_SR)) vs) s))"
    "poll_run B (?b + UART_SR) tx_busy (hw s) vs h"
    using wait_dev[OF h st] by blast
  let ?es = "map (Rd (?b + UART_SR)) vs @ [Wr (?b + UART_TDR) c]"
  have "uart_tx B n c s = Some (Inr ((), on_bus (bus_write B (?b + UART_TDR) c h) ?es s))"
    using w(1) h by (simp add: uart_tx_def thn_def bnd_def dev_base_run wr_run)
  moreover have "paced (?b + UART_SR) tx_busy False ?es" by (rule paced_poll[OF w(2)])
  ultimately show ?thesis by (intro exI[of _ "bus_write B (?b + UART_TDR) c h"] exI[of _ ?es]) simp
qed

lemma uart_write_byte_sends:
  assumes h: "handle s Uart \<noteq> 0" and st: "settles B (base_of s Uart n + UART_SR) tx_busy"
  shows "\<exists>h es. uart_write_byte B n c s = Some (Inr ((), on_bus h es s)) \<and>
    writes_at (base_of s Uart n + UART_TDR) es = (if c = 10 then [13, 10] else [c]) \<and>
    paced (base_of s Uart n + UART_SR) tx_busy False es"
proof (cases "c = 10")
  case True
  obtain h1 es1 where r1: "uart_tx B n 13 s = Some (Inr ((), on_bus h1 es1 s))"
    "writes_at (base_of s Uart n + UART_TDR) es1 = [13]"
    "paced (base_of s Uart n + UART_SR) tx_busy False es1"
    using uart_tx_sends[OF h st] by blast
  let ?s1 = "on_bus h1 es1 s"
  obtain h2 es2 where r2: "uart_tx B n 10 ?s1 = Some (Inr ((), on_bus h2 es2 ?s1))"
    "writes_at (base_of s Uart n + UART_TDR) es2 = [10]"
    "paced (base_of s Uart n + UART_SR) tx_busy False es2"
    using uart_tx_sends[of ?s1 B n 10] h st by auto
  have "uart_write_byte B n c s = Some (Inr ((), on_bus h2 (es1 @ es2) s))"
    using r1(1) r2(1) True by (simp add: uart_write_byte_def thn_def bnd_def)
  then show ?thesis using r1 r2 True by (auto intro!: exI[of _ h2] exI[of _ "es1 @ es2"] paced_append)
next
  case False
  then show ?thesis using uart_tx_sends[OF h st, of c] by (simp add: uart_write_byte_def thn_def bnd_def)
qed

lemma uart_string_sends:
  assumes "handle s Uart \<noteq> 0" and "settles B (base_of s Uart n + UART_SR) tx_busy"
  shows "\<exists>h es. uart_write_string B n str s = Some (Inr ((), on_bus h es s)) \<and>
    writes_at (base_of s Uart n + UART_TDR) es = crlf str \<and>
    paced (base_of s Uart n + UART_SR) tx_busy False es"
  using assms
proof (induction str arbitrary: s)
  case Nil
  then show ?case by (auto intro!: exI[of _ "hw s"] exI[of _ "[]"])
next
  case (Cons c cs)
  show ?case
  proof (cases "c = 0")
    case True
    then show ?thesis by (auto intro!: exI[of _ "hw s"] exI[of _ "[]"])
  next
    case False
    obtain h1 es1 where r1: "uart_write_byte B n (ucast c) s = Some (Inr ((), on_bus h1 es1 s))"
      "writes_at (base_of s Uart n + UART_TDR) es1 = (if ucast c = (10::u32) then [13, 10] else [ucast c])"
      "paced (base_of s Uart n + UART_SR) tx_busy False es1"
      using uart_write_byte_sends[OF Cons.prems] by blast
    let ?s1 = "on_bus h1 es1 s"
    obtain h2 es2 where r2: "uart_write_string B n cs ?s1 = Some (Inr ((), on_bus h2 es2 ?s1))"
      "writes_at (base_of s Uart n + UART_TDR) es2 = crlf cs"
      "paced (base_of s Uart n + UART_SR) tx_busy False es2"
      using Cons.IH[of ?s1] Cons.prems by auto
    have "uart_write_string B n (c # cs) s = Some (Inr ((), on_bus h2 (es1 @ es2) s))"
      using r1(1) r2(1) False by (simp add: thn_def bnd_def)
    then show ?thesis
      using r1 r2 False ucast_u8_eq[of c 10]
      by (intro exI[of _ h2] exI[of _ "es1 @ es2"]) (auto intro: paced_append)
  qed
qed

text \<open>
  On a UART whose transmitter always becomes free, \<^verbatim>\<open>uart_write_string\<close>
  returns, has written exactly the characters of the string to the data register, each newline
  preceded by a carriage return, and has written none of them while the transmitter was busy.
\<close>

lemma uart_write_string_sends:
  assumes "handle s Uart \<noteq> 0" and "settles B (base_of s Uart n + UART_SR) tx_busy"
  shows "\<exists>h es. uart_write_string B n str s = Some (Inr ((), on_bus h es s)) \<and>
    writes_at (base_of s Uart n + UART_TDR) es = crlf str \<and>
    paced (base_of s Uart n + UART_SR) tx_busy False es"
  using assms by (rule uart_string_sends)

text \<open>A UART that stays busy for two polls after each byte.\<close>

definition demo_uart :: "nat plat" where
  "demo_uart =
     \<lparr>bus_read = \<lambda>a h. (if 0 < h then 1 else 0, h - 1), bus_write = \<lambda>a v h. 2, mem_byte = \<lambda>a h. 0,
      mem_put = \<lambda>a v h. h, lay = demo_layout\<rparr>"

definition demo_table :: "dev_kind \<Rightarrow> 'h \<Rightarrow> 'h mach" where
  "demo_table k h =
     (boot demo_layout h)\<lparr>handle := (\<lambda>_. 0)(k := 8), words := (\<lambda>_. 0)(8 := 0x100)\<rparr>"

lemma demo_table_fields [simp]:
  "hw (demo_table k h) = h" "handle (demo_table k h) j = (if j = k then 8 else 0)"
  "words (demo_table k h) a = (if a = 8 then 0x100 else 0)"
  by (simp_all add: demo_table_def boot_def)

lemma demo_uart_settles: "settles demo_uart a tx_busy"
proof -
  have "\<exists>vs. poll_run demo_uart a tx_busy h vs 0" for h
  proof (induction h)
    case 0
    have "poll_run demo_uart a tx_busy 0 [0] 0" by (rule poll_run.ready) (simp_all add: demo_uart_def)
    then show ?case by blast
  next
    case (Suc h)
    then obtain vs where "poll_run demo_uart a tx_busy h vs 0" by blast
    then have "poll_run demo_uart a tx_busy (Suc h) (1 # vs) 0"
      by (intro poll_run.again) (simp_all add: demo_uart_def UART_SR_TX_BUSY_def)
    then show ?case by blast
  qed
  then show ?thesis unfolding settles_def by blast
qed

lemma uart_write_string_sends_witness:
  "\<exists>h es. uart_write_string demo_uart 0 [72, 105, 10, 0, 33] (demo_table Uart 1)
      = Some (Inr ((), on_bus h es (demo_table Uart 1))) \<and> writes_at 0x108 es = [72, 105, 13, 10]"
  using uart_write_string_sends[OF _ demo_uart_settles, of "demo_table Uart 1" 0 "[72, 105, 10, 0, 33]"]
  by (auto simp: UART_TDR_def)

section \<open>GPIO\<close>

text \<open>
  \<^verbatim>\<open>gpio_dir\<close> reads the direction register and writes it back with the
  bit of the pin set or cleared as asked and all other bits as they were.
\<close>

lemma gpio_dir_one_bit:
  assumes "handle s Gpio \<noteq> 0" and "pin < 32"
  shows "\<exists>h v v'. gpio_dir B n pin d s = Some (Inr ((), on_bus h
      [Rd (base_of s Gpio n + GPIO_DDR) v, Wr (base_of s Gpio n + GPIO_DDR) v'] s)) \<and>
    v = fst (bus_read B (base_of s Gpio n + GPIO_DDR) (hw s)) \<and>
    (\<forall>k<32. bit v' k = (if k = pin then d \<noteq> 0 else bit v k))"
proof -
  let ?a = "base_of s Gpio n + GPIO_DDR"
  let ?v = "fst (bus_read B ?a (hw s))" and ?h = "snd (bus_read B ?a (hw s))"
  let ?v' = "if d \<noteq> 0 then ?v OR push_bit pin 1 else ?v AND NOT (push_bit pin 1)"
  have "gpio_dir B n pin d s = Some (Inr ((), on_bus (bus_write B ?a ?v' ?h) [Rd ?a ?v, Wr ?a ?v'] s))"
    using assms(1) by (simp add: gpio_dir_def bnd_def dev_base_run rd_run wr_run)
  moreover have "\<forall>k<32. bit ?v' k = (if k = pin then d \<noteq> 0 else bit ?v k)"
    using assms(2) by (auto simp: bit_or_iff bit_and_iff bit_not_iff bit_exp_iff)
  ultimately show ?thesis by blast
qed

lemma gpio_dir_one_bit_witness:
  "\<exists>h v v'. gpio_dir demo_plat 0 5 1 (demo_table Gpio 0x40) = Some (Inr ((), on_bus h
      [Rd 0x108 v, Wr 0x108 v'] (demo_table Gpio 0x40))) \<and> bit v' 5"
proof -
  have "handle (demo_table Gpio (0x40::nat)) Gpio \<noteq> 0" "(5::nat) < 32" by simp_all
  from gpio_dir_one_bit[OF this, of demo_plat 0 1] obtain h v v' where r:
    "gpio_dir demo_plat 0 5 1 (demo_table Gpio 0x40) = Some (Inr ((), on_bus h
      [Rd (base_of (demo_table Gpio (0x40::nat)) Gpio 0 + GPIO_DDR) v,
       Wr (base_of (demo_table Gpio (0x40::nat)) Gpio 0 + GPIO_DDR) v'] (demo_table Gpio 0x40)))"
    "\<forall>k<32. bit v' k = (if k = 5 then (1::int) \<noteq> 0 else bit v k)"
    by (elim exE conjE)
  have "base_of (demo_table Gpio (0x40::nat)) Gpio 0 + GPIO_DDR = 0x108"
    by (simp add: GPIO_DDR_def)
  moreover have "bit v' 5" using r(2)[rule_format, of 5] by simp
  ultimately show ?thesis
    using r(1) by (intro exI[of _ h] exI[of _ v] exI[of _ v'] conjI) (simp_all add: GPIO_DDR_def)
qed

section \<open>Timer\<close>

lemma timer_get_tics_run:
  "handle s Tics \<noteq> 0 \<Longrightarrow> timer_get_tics B s = rd B (base_of s Tics TICS_ID) s"
  by (simp add: timer_get_tics_def bnd_def dev_base_run)

text \<open>
  When \<^verbatim>\<open>timer_delay\<close> returns, the last value it read from the timer is at
  least the start plus the delay, computed modulo \<open>2\<^sup>3\<^sup>2\<close>, and all values it read before
  were below that.
\<close>

lemma timer_delay_waits:
  assumes h: "handle s Tics \<noteq> 0" and r: "timer_delay B n s = Some (Inr ((), s'))"
  shows "\<exists>t0 vs. s' = on_bus (hw s') (map (Rd (base_of s Tics TICS_ID)) (t0 # vs)) s \<and> vs \<noteq> [] \<and>
    t0 + n \<le> last vs \<and> (\<forall>v\<in>set (butlast vs). v < t0 + n)"
proof -
  let ?a = "base_of s Tics TICS_ID"
  obtain t0 h1 where t0: "bus_read B ?a (hw s) = (t0, h1)" by fastforce
  let ?s1 = "on_bus h1 [Rd ?a t0] s"
  have "wait_while (bnd (timer_get_tics B) (\<lambda>t. ret (t < t0 + n))) ?s1 = Some (Inr ((), s'))"
    using r h t0 by (simp add: timer_delay_def timer_get_tics_run bnd_def rd_run)
  then obtain k where k: "polls (bnd (timer_get_tics B) (\<lambda>t. ret (t < t0 + n))) k ?s1 s'"
    unfolding wait_while_iff_polls by (elim exE)
  have p: "bnd (timer_get_tics B) (\<lambda>t. ret (t < t0 + n)) u = bnd (rd B ?a) (\<lambda>t. ret (t < t0 + n)) u"
    if "words u = words ?s1" "handle u = handle ?s1" for u
    using that h by (simp add: bnd_def timer_get_tics_run)
  have "\<exists>vs. poll_run B ?a (\<lambda>t. t < t0 + n) (hw ?s1) vs (hw s') \<and>
      s' = on_bus (hw s') (map (Rd ?a) vs) ?s1"
    by (rule polls_poll_run[OF k]) (rule p)
  then obtain vs where vs: "poll_run B ?a (\<lambda>t. t < t0 + n) (hw ?s1) vs (hw s')"
    "s' = on_bus (hw s') (map (Rd ?a) vs) ?s1" by (elim exE conjE)
  have "vs \<noteq> [] \<and> t0 + n \<le> last vs \<and> (\<forall>v\<in>set (butlast vs). v < t0 + n)"
    using poll_run_last[OF vs(1)] by (simp add: not_less)
  moreover have "s' = on_bus (hw s') (map (Rd ?a) (t0 # vs)) s"
    by (subst vs(2)) simp
  ultimately show ?thesis by (intro exI[of _ t0] exI[of _ vs] conjI) simp_all
qed

lemma demo_timer_delay:
  "timer_delay demo_plat 2 (demo_table Tics 7)
     = Some (Inr ((), on_bus 10 [Rd 0x100 7, Rd 0x100 8, Rd 0x100 9] (demo_table Tics 7)))"
  by (simp add: timer_delay_def timer_get_tics_run bnd_def rd_run TICS_ID_def demo_plat_def)
    (subst wait_while.simps, simp add: timer_get_tics_run bnd_def rd_run TICS_ID_def,
     subst wait_while.simps, simp add: timer_get_tics_run bnd_def rd_run TICS_ID_def)

lemma timer_delay_waits_witness:
  "\<exists>t0 vs. on_bus 10 [Rd 0x100 7, Rd 0x100 8, Rd 0x100 9] (demo_table Tics (7::nat))
      = on_bus 10 (map (Rd 0x100) (t0 # vs)) (demo_table Tics 7) \<and> t0 + 2 \<le> last vs"
proof -
  have "handle (demo_table Tics (7::nat)) Tics \<noteq> 0" "base_of (demo_table Tics (7::nat)) Tics TICS_ID = 0x100"
    by (simp_all add: TICS_ID_def)
  then show ?thesis using timer_delay_waits[OF _ demo_timer_delay] by auto
qed

text \<open>
  The end of the delay is computed modulo \<open>2\<^sup>3\<^sup>2\<close>: near the top of the timer's range the
  sum wraps and \<^verbatim>\<open>timer_delay\<close> returns after a single poll, however long a delay was asked for.
\<close>

lemma timer_delay_wraps:
  assumes h: "handle s Tics \<noteq> 0"
    and t0: "bus_read B (base_of s Tics TICS_ID) (hw s) = (t0, h1)"
    and t1: "bus_read B (base_of s Tics TICS_ID) h1 = (t1, h2)"
    and mono: "t0 \<le> t1" and wrap: "2 ^ 32 \<le> unat t0 + unat n"
  shows "timer_delay B n s = Some (Inr ((), on_bus h2
    [Rd (base_of s Tics TICS_ID) t0, Rd (base_of s Tics TICS_ID) t1] s))"
proof -
  have "unat (t0 + n) = unat t0 + unat n - 2 ^ 32"
    using wrap unsigned_less[of t0, where 'a = nat] unsigned_less[of n, where 'a = nat]
    by (simp add: unat_word_ariths mod_if)
  then have "t0 + n \<le> t0" using unsigned_less[of n, where 'a = nat] by (simp add: word_le_nat_alt)
  then have "\<not> t1 < t0 + n" using mono by simp
  then show ?thesis
    using h t0 t1 by (simp add: timer_delay_def timer_get_tics_run bnd_def rd_run)
      (subst wait_while.simps, simp add: bnd_def timer_get_tics_run rd_run)
qed

lemma timer_delay_wraps_witness:
  "timer_delay demo_plat 0x1000 (demo_table Tics 0xFFFFFFF0)
     = Some (Inr ((), on_bus 0xFFFFFFF2 [Rd 0x100 0xFFFFFFF0, Rd 0x100 0xFFFFFFF1] (demo_table Tics 0xFFFFFFF0)))"
  using timer_delay_wraps[of "demo_table Tics 0xFFFFFFF0" demo_plat "0xFFFFFFF0" "0xFFFFFFF1" "0xFFFFFFF1" "0xFFFFFFF2" "0x1000"]
  by (simp add: demo_plat_def TICS_ID_def)

end
