(* ===== verification/Spi.thy ===== *)
theory Spi
  imports Devices_Correct
begin

text \<open>
  The driver of the OpenCores SPI master, \<^verbatim>\<open>dev/spi.c\<close> with \<^verbatim>\<open>hw/wb_spi.h\<close>: the table of
  base addresses, the configuration word kept per instance, and the three kinds of transfer.
\<close>

section \<open>Registers\<close>

definition SPI_REG_RX0 :: u32 where "SPI_REG_RX0 = 0x00"
definition SPI_REG_TX0 :: u32 where "SPI_REG_TX0 = 0x00"
definition SPI_REG_RX1 :: u32 where "SPI_REG_RX1 = 0x04"
definition SPI_REG_RX2 :: u32 where "SPI_REG_RX2 = 0x08"
definition SPI_REG_RX3 :: u32 where "SPI_REG_RX3 = 0x0C"
definition SPI_REG_CTRL :: u32 where "SPI_REG_CTRL = 0x10"
definition SPI_REG_DIVIDER :: u32 where "SPI_REG_DIVIDER = 0x14"
definition SPI_REG_SS :: u32 where "SPI_REG_SS = 0x18"

definition SPI_CTRL_THREE_WIRE :: u32 where "SPI_CTRL_THREE_WIRE = push_bit 16 1"
definition SPI_CTRL_DIR :: u32 where "SPI_CTRL_DIR = push_bit 14 1"
definition SPI_CTRL_ASS :: u32 where "SPI_CTRL_ASS = push_bit 13 1"
definition SPI_CTRL_IE :: u32 where "SPI_CTRL_IE = push_bit 12 1"
definition SPI_CTRL_LSB :: u32 where "SPI_CTRL_LSB = push_bit 11 1"
definition SPI_CTRL_TXNEG :: u32 where "SPI_CTRL_TXNEG = push_bit 10 1"
definition SPI_CTRL_RXNEG :: u32 where "SPI_CTRL_RXNEG = push_bit 9 1"
definition SPI_CTRL_GO_BSY :: u32 where "SPI_CTRL_GO_BSY = push_bit 8 1"
definition SPI_CTRL_BSY :: u32 where "SPI_CTRL_BSY = push_bit 8 1"

definition SPI_CTRL_CHAR_LEN :: "u32 \<Rightarrow> u32" where
  "SPI_CTRL_CHAR_LEN x = x AND 0x7f"

definition SPI_DIV_MASK :: u32 where "SPI_DIV_MASK = 0xFFFF"
definition DEFAULT_SPI_DIVIDER :: u32 where "DEFAULT_SPI_DIVIDER = 99"

section \<open>Initialisation\<close>

fun seq_all :: "('a \<Rightarrow> ('s, unit) prog) \<Rightarrow> 'a list \<Rightarrow> ('s, unit) prog" where
  "seq_all f [] = ret ()"
| "seq_all f (x # xs) = thn (f x) (seq_all f xs)"

definition spi_addr_msgs :: "(string \<times> u32) list" where
  "spi_addr_msgs =
     [(''> spi rx0 addr[%d]: %08X\<newline>'', SPI_REG_RX0), (''> spi tx0 addr[%d]: %08X\<newline>'', SPI_REG_RX0),
      (''> spi rx1 addr[%d]: %08X\<newline>'', SPI_REG_RX1), (''> spi tx1 addr[%d]: %08X\<newline>'', SPI_REG_RX1),
      (''> spi rx2 addr[%d]: %08X\<newline>'', SPI_REG_RX2), (''> spi tx2 addr[%d]: %08X\<newline>'', SPI_REG_RX2),
      (''> spi rx3 addr[%d]: %08X\<newline>'', SPI_REG_RX3), (''> spi tx3 addr[%d]: %08X\<newline>'', SPI_REG_RX3),
      (''> spi ctrl addr[%d]: %08X\<newline>'', SPI_REG_CTRL),
      (''> spi divider addr[%d]: %08X\<newline>'', SPI_REG_DIVIDER),
      (''> spi ss addr[%d]: %08X\<newline>'', SPI_REG_SS)]"

definition spi_field_msgs :: "(string \<times> u32) list" where
  "spi_field_msgs =
     [(''> spi ctrl_busy: %08X\<newline>'', SPI_CTRL_GO_BSY), (''> spi ctrl_ass: %08X\<newline>'', SPI_CTRL_ASS),
      (''> spi ctrl_txneg: %08X\<newline>'', SPI_CTRL_TXNEG), (''> spi ctrl_lsb: %08X\<newline>'', SPI_CTRL_LSB),
      (''> spi ctrl_dir: %08X\<newline>'', SPI_CTRL_DIR),
      (''> spi ctrl_three_mode: %08X\<newline>'', SPI_CTRL_THREE_WIRE)]"

definition spi_prepare :: "'h plat \<Rightarrow> u32 \<Rightarrow> ('h mach, unit) prog" where
  "spi_prepare B n =
     bnd (malloc B (4 * n)) (\<lambda>p.
     thn (modify (\<lambda>s. s\<lparr>spi_config := p\<rparr>))
       (debug_size (DBG_SPI OR DBE_DBG_INFO) ''> spi size: %d\<newline>'' n))"

definition spi_conf :: "'h plat \<Rightarrow> nat \<Rightarrow> u32 \<Rightarrow> ('h mach, bool) prog" where
  "spi_conf B i b =
     thn (wr B (b + SPI_REG_DIVIDER) (DEFAULT_SPI_DIVIDER AND SPI_DIV_MASK))
     (bnd (gets spi_config) (\<lambda>c.
     thn (deref c)
     (thn (modify (\<lambda>s. s\<lparr>words := (words s)(c + 4 * i := SPI_CTRL_ASS OR SPI_CTRL_TXNEG)\<rparr>))
     (bnd (gets (\<lambda>s. words s (c + 4 * i))) (\<lambda>cfg.
     thn (wr B (b + SPI_REG_CTRL) cfg)
     (thn (debug_addr (DBG_SPI OR DBE_DBG_INFO) ''> spi addr[%d]: %08X\<newline>'' i b)
     (thn (seq_all (\<lambda>(fmt, off). debug_addr (DBG_SPI OR DBE_DBG_INFO) fmt i (b + off)) spi_addr_msgs)
     (thn (DBE_DEBUG (DBG_SPI OR DBE_DBG_INFO) ''> reading some fields back:\<newline>'' (ret []))
     (thn (seq_all (\<lambda>(fmt, msk). DBE_DEBUG (DBG_SPI OR DBE_DBG_INFO) fmt
            (bnd (rd B (b + SPI_REG_CTRL)) (\<lambda>v. ret [Num (v AND msk)]))) spi_field_msgs)
       (ret True))))))))))"

definition spi_init :: "'h plat \<Rightarrow> ('h mach, int) prog" where
  "spi_init B = dev_init B Spi (spi_prepare B) (spi_conf B) (\<lambda>_. ret ())"

definition spi_exit :: "('h mach, unit) prog" where
  "spi_exit =
     bnd (gets (\<lambda>s. handle s Spi)) (\<lambda>p.
     thn (mfree p)
     (bnd (gets spi_config) (\<lambda>c. mfree c)))"

section \<open>Transfers\<close>

definition oc_spi_poll :: "'h plat \<Rightarrow> u32 \<Rightarrow> ('h mach, int) prog" where
  "oc_spi_poll B idx =
     bnd (dev_base Spi idx) (\<lambda>b.
     bnd (rd B (b + SPI_REG_CTRL)) (\<lambda>v. ret (if v AND SPI_CTRL_BSY \<noteq> 0 then 1 else 0)))"

definition oc_spi_three_mode :: "'h plat \<Rightarrow> u32 \<Rightarrow> ('h mach, u32) prog" where
  "oc_spi_three_mode B idx =
     bnd (dev_base Spi idx) (\<lambda>b.
     bnd (rd B (b + SPI_REG_CTRL)) (\<lambda>v. ret (v AND SPI_CTRL_THREE_WIRE)))"

text \<open>\<^verbatim>\<open>spi_config[id]\<close>.\<close>

definition spi_config_at :: "u32 \<Rightarrow> ('h mach, u32) prog" where
  "spi_config_at idx =
     bnd (gets spi_config) (\<lambda>c. thn (deref c) (gets (\<lambda>s. words s (c + 4 * unat idx))))"

definition spi_config_store :: "u32 \<Rightarrow> u32 \<Rightarrow> ('h mach, unit) prog" where
  "spi_config_store idx v =
     bnd (gets spi_config) (\<lambda>c.
     thn (deref c) (modify (\<lambda>s. s\<lparr>words := (words s)(c + 4 * unat idx := v)\<rparr>)))"

definition spi_config_or :: "u32 \<Rightarrow> int \<Rightarrow> u32 \<Rightarrow> ('h mach, unit) prog" where
  "spi_config_or idx cond msk =
     (if cond \<noteq> 0 then bnd (spi_config_at idx) (\<lambda>v. spi_config_store idx (v OR msk)) else ret ())"

definition oc_spi_config :: "u32 \<Rightarrow> int \<Rightarrow> int \<Rightarrow> int \<Rightarrow> int \<Rightarrow> int \<Rightarrow> ('h mach, unit) prog" where
  "oc_spi_config idx ass rx_neg tx_neg lsb ie =
     thn (spi_config_store idx 0)
     (thn (spi_config_or idx ass SPI_CTRL_ASS)
     (thn (spi_config_or idx tx_neg SPI_CTRL_TXNEG)
     (thn (spi_config_or idx rx_neg SPI_CTRL_RXNEG)
     (thn (spi_config_or idx lsb SPI_CTRL_LSB)
       (spi_config_or idx ie SPI_CTRL_IE)))))"

text \<open>\<^verbatim>\<open>boards/ml605/board.c\<close>: a loop of \<^verbatim>\<open>nop\<close> instructions, which has no effect but time.\<close>

definition delay :: "int \<Rightarrow> ('h mach, int) prog" where
  "delay x = ret 0"

definition SPI_DELAY :: int where "SPI_DELAY = 300"

definition spi_wait :: "'h plat \<Rightarrow> u32 \<Rightarrow> ('h mach, unit) prog" where
  "spi_wait B idx =
     wait_while (bnd (oc_spi_poll B idx) (\<lambda>busy.
       if busy \<noteq> 0 then thn (delay SPI_DELAY) (ret True) else ret False))"

definition spi_trace :: "'h plat \<Rightarrow> u32 \<Rightarrow> ('h mach, unit) prog" where
  "spi_trace B b =
     thn (DBE_DEBUG (DBG_SPI OR DBE_DBG_TRACE) ''> spi[id]->TX0: 0x%8X\<newline>''
           (bnd (rd B (b + SPI_REG_TX0)) (\<lambda>v. ret [Num v])))
       (DBE_DEBUG (DBG_SPI OR DBE_DBG_TRACE) ''> spi[id]->RX0: 0x%8X\<newline>''
           (bnd (rd B (b + SPI_REG_RX0)) (\<lambda>v. ret [Num v])))"

definition spi_go :: "'h plat \<Rightarrow> u32 \<Rightarrow> ('h mach, unit) prog" where
  "spi_go B b =
     bnd (rd B (b + SPI_REG_CTRL)) (\<lambda>v. wr B (b + SPI_REG_CTRL) (v OR SPI_CTRL_GO_BSY))"

definition waiting_msg :: "('h mach, unit) prog" where
  "waiting_msg = DBE_DEBUG (DBG_SPI OR DBE_DBG_TRACE) ''> waiting for spi...\<newline>'' (ret [])"

definition oc_spi_three_mode_tx :: "'h plat \<Rightarrow> u32 \<Rightarrow> nat \<Rightarrow> u32 \<Rightarrow> u32 \<Rightarrow> ('h mach, int) prog" where
  "oc_spi_three_mode_tx B idx ss nbits inw =
     bnd (dev_base Spi idx) (\<lambda>b.
     bnd (spi_config_at idx) (\<lambda>cfg.
     thn (wr B (b + SPI_REG_CTRL) (cfg OR SPI_CTRL_DIR OR SPI_CTRL_CHAR_LEN nbits))
     (thn (wr B (b + SPI_REG_TX0) inw)
     (thn (spi_trace B b)
     (thn (wr B (b + SPI_REG_SS) (push_bit ss 1))
     (thn (spi_go B b)
     (thn waiting_msg
     (thn (spi_wait B idx)
     (thn (delay SPI_DELAY)
     (thn (spi_trace B b)
       (ret 0)))))))))))"

definition oc_spi_three_mode_rx :: "'h plat \<Rightarrow> u32 \<Rightarrow> nat \<Rightarrow> u32 \<Rightarrow> ('h mach, int \<times> u32) prog" where
  "oc_spi_three_mode_rx B idx ss nbits =
     bnd (dev_base Spi idx) (\<lambda>b.
     bnd (spi_config_at idx) (\<lambda>cfg.
     thn (wr B (b + SPI_REG_CTRL) (cfg OR SPI_CTRL_CHAR_LEN nbits))
     (thn (wr B (b + SPI_REG_SS) (push_bit ss 1))
     (thn (spi_trace B b)
     (thn (spi_go B b)
     (thn waiting_msg
     (thn (spi_wait B idx)
     (thn (delay SPI_DELAY)
     (bnd (rd B (b + SPI_REG_RX0)) (\<lambda>out.
     thn (spi_trace B b)
       (ret (0, out))))))))))))"

text \<open>The received word is returned; a caller that passes a null pointer ignores it.\<close>

definition oc_spi_txrx :: "'h plat \<Rightarrow> u32 \<Rightarrow> nat \<Rightarrow> u32 \<Rightarrow> u32 \<Rightarrow> ('h mach, int \<times> u32) prog" where
  "oc_spi_txrx B idx ss nbits inw =
     bnd (dev_base Spi idx) (\<lambda>b.
     bnd (spi_config_at idx) (\<lambda>cfg.
     thn (wr B (b + SPI_REG_CTRL) (cfg OR SPI_CTRL_CHAR_LEN nbits))
     (thn (wr B (b + SPI_REG_TX0) inw)
     (thn (wr B (b + SPI_REG_SS) (push_bit ss 1))
     (thn (spi_go B b)
     (thn waiting_msg
     (thn (spi_wait B idx)
     (bnd (rd B (b + SPI_REG_RX0)) (\<lambda>out. ret (0, out))))))))))"

section \<open>What a transfer does\<close>

text \<open>Messages below the compiled level are not printed and do not read the registers they mention.\<close>

lemma DBE_DEBUG_off:
  "DBG_SUBSYS_ON AND dbg = 0 \<or> dbg AND DBE_DBG_MASK < DBG_MIN_LEVEL \<Longrightarrow> DBE_DEBUG dbg fmt args = ret ()"
  by (auto simp: DBE_DEBUG_def not_le[symmetric] and.commute)

lemma spi_trace_off [simp]: "DBE_DEBUG (DBG_SPI OR DBE_DBG_TRACE) fmt args = ret ()"
  by (rule DBE_DEBUG_off)
    (simp add: DBG_SPI_def DBE_DBG_TRACE_def DBE_DBG_MASK_def DBG_MIN_LEVEL_def DBE_DBG_INFO_def)

lemma spi_quiet [simp]: "spi_trace B b = ret ()" "waiting_msg = ret ()"
  by (simp_all add: spi_trace_def waiting_msg_def thn_def bnd_def fun_eq_iff)

abbreviation spi_busy :: "u32 \<Rightarrow> bool" where
  "spi_busy v \<equiv> v AND SPI_CTRL_BSY \<noteq> 0"

lemma spi_config_at_run:
  "spi_config s \<noteq> 0 \<Longrightarrow> spi_config_at n s = Some (Inr (words s (spi_config s + 4 * unat n), s))"
  by (simp add: spi_config_at_def bnd_def thn_def deref_def)

abbreviation spi_cfg :: "'h mach \<Rightarrow> u32 \<Rightarrow> u32" where
  "spi_cfg s n \<equiv> words s (spi_config s + 4 * unat n)"

lemma spi_wait_run:
  assumes h: "handle s Spi \<noteq> 0" and st: "settles B (base_of s Spi n + SPI_REG_CTRL) spi_busy"
  shows "\<exists>h vs. spi_wait B n s = Some (Inr ((), on_bus h (map (Rd (base_of s Spi n + SPI_REG_CTRL)) vs) s)) \<and>
    vs \<noteq> [] \<and> \<not> spi_busy (last vs)"
proof -
  let ?a = "base_of s Spi n + SPI_REG_CTRL"
  obtain vs h where r: "poll_run B ?a spi_busy (hw s) vs h"
    using st unfolding settles_def by blast
  have "bnd (oc_spi_poll B n) (\<lambda>busy. if busy \<noteq> 0 then thn (delay SPI_DELAY) (ret True) else ret False) t
      = bnd (rd B ?a) (\<lambda>v. ret (spi_busy v)) t"
    if "words t = words s" "handle t = handle s" for t
    using that h by (simp add: oc_spi_poll_def bnd_def thn_def dev_base_run rd_run delay_def)
  then have "spi_wait B n s = Some (Inr ((), on_bus h (map (Rd ?a) vs) s))"
    unfolding spi_wait_def by (intro wait_while_poll_run[OF r refl])
  then show ?thesis using poll_run_last[OF r] by blast
qed

text \<open>
  The part all transfers end with: set the go bit, and wait until the core is idle again.
\<close>

lemma spi_run_run:
  assumes h: "handle s Spi \<noteq> 0" and st: "settles B (base_of s Spi n + SPI_REG_CTRL) spi_busy"
  shows "\<exists>h v vs. thn (spi_go B (base_of s Spi n)) (thn waiting_msg (thn (spi_wait B n) k)) s
      = k (on_bus h (Rd (base_of s Spi n + SPI_REG_CTRL) v #
          Wr (base_of s Spi n + SPI_REG_CTRL) (v OR SPI_CTRL_GO_BSY) #
          map (Rd (base_of s Spi n + SPI_REG_CTRL)) vs) s) \<and> vs \<noteq> [] \<and> \<not> spi_busy (last vs)"
proof -
  let ?a = "base_of s Spi n + SPI_REG_CTRL"
  obtain v h1 where v: "bus_read B ?a (hw s) = (v, h1)" by fastforce
  let ?s1 = "on_bus (bus_write B ?a (v OR SPI_CTRL_GO_BSY) h1) [Rd ?a v, Wr ?a (v OR SPI_CTRL_GO_BSY)] s"
  have go: "spi_go B (base_of s Spi n) s = Some (Inr ((), ?s1))"
    using v by (simp add: spi_go_def bnd_def rd_run wr_run)
  obtain h vs where w: "spi_wait B n ?s1 = Some (Inr ((), on_bus h (map (Rd ?a) vs) ?s1))"
    "vs \<noteq> []" "\<not> spi_busy (last vs)"
    using spi_wait_run[of ?s1 B n] assms by auto
  have "thn (spi_go B (base_of s Spi n)) (thn waiting_msg (thn (spi_wait B n) k)) s
      = k (on_bus h (Rd ?a v # Wr ?a (v OR SPI_CTRL_GO_BSY) # map (Rd ?a) vs) s)"
    using go w(1) by (simp add: thn_def bnd_def)
  then show ?thesis using w(2,3) by blast
qed

text \<open>
  C25 (functional). On an SPI core that always becomes idle again, \<^verbatim>\<open>oc_spi_txrx\<close> returns 0:
  it writes the configured control word with the length, the data and the slave select, sets the
  go bit only then, polls until the core is idle, and returns what the receive register holds
  after that.
\<close>

theorem oc_spi_txrx_transfer:
  assumes "handle s Spi \<noteq> 0" and "spi_config s \<noteq> 0"
    and "settles B (base_of s Spi n + SPI_REG_CTRL) spi_busy"
  shows "\<exists>h v vs out. oc_spi_txrx B n ss nbits inw s = Some (Inr ((0, out), on_bus h
      ([Wr (base_of s Spi n + SPI_REG_CTRL) (spi_cfg s n OR SPI_CTRL_CHAR_LEN nbits),
        Wr (base_of s Spi n + SPI_REG_TX0) inw,
        Wr (base_of s Spi n + SPI_REG_SS) (push_bit ss 1),
        Rd (base_of s Spi n + SPI_REG_CTRL) v,
        Wr (base_of s Spi n + SPI_REG_CTRL) (v OR SPI_CTRL_GO_BSY)] @
       map (Rd (base_of s Spi n + SPI_REG_CTRL)) vs @
       [Rd (base_of s Spi n + SPI_REG_RX0) out]) s)) \<and>
    vs \<noteq> [] \<and> \<not> spi_busy (last vs)"
proof -
  let ?b = "base_of s Spi n"
  let ?w = "[Wr (?b + SPI_REG_CTRL) (spi_cfg s n OR SPI_CTRL_CHAR_LEN nbits),
        Wr (?b + SPI_REG_TX0) inw, Wr (?b + SPI_REG_SS) (push_bit ss 1)]"
  let ?k = "bnd (rd B (?b + SPI_REG_RX0)) (\<lambda>out. ret (0 :: int, out))"
  define h1 where "h1 = bus_write B (?b + SPI_REG_SS) (push_bit ss 1) (bus_write B (?b + SPI_REG_TX0) inw
      (bus_write B (?b + SPI_REG_CTRL) (spi_cfg s n OR SPI_CTRL_CHAR_LEN nbits) (hw s)))"
  have pre: "oc_spi_txrx B n ss nbits inw s
      = thn (spi_go B ?b) (thn waiting_msg (thn (spi_wait B n) ?k)) (on_bus h1 ?w s)"
    using assms(1,2)
    by (simp add: oc_spi_txrx_def bnd_def[of "dev_base Spi n"] bnd_def[of "spi_config_at n"]
        thn_def[of "wr B _ _"] bnd_def[of "wr B _ _"] dev_base_run spi_config_at_run wr_run h1_def)
  obtain h v vs where r: "thn (spi_go B ?b) (thn waiting_msg (thn (spi_wait B n) ?k)) (on_bus h1 ?w s)
      = ?k (on_bus h (Rd (?b + SPI_REG_CTRL) v # Wr (?b + SPI_REG_CTRL) (v OR SPI_CTRL_GO_BSY) #
          map (Rd (?b + SPI_REG_CTRL)) vs) (on_bus h1 ?w s))" "vs \<noteq> []" "\<not> spi_busy (last vs)"
    using spi_run_run[of "on_bus h1 ?w s" B n ?k] assms by auto
  show ?thesis
    unfolding pre r(1) using r(2,3) by (auto simp: bnd_def rd_run)
qed

text \<open>A core that is busy for three polls after the go bit was written.\<close>

definition demo_spi :: "nat plat" where
  "demo_spi =
     \<lparr>bus_read = \<lambda>a h. (if 0 < h then SPI_CTRL_BSY else 0, h - 1), bus_write = \<lambda>a v h. 3, mem_byte = \<lambda>a h. 0,
      mem_put = \<lambda>a v h. h, lay = demo_layout\<rparr>"

lemma settles_countdown:
  assumes "\<And>h. bus_read B a (Suc h) = (v, h) \<and> f v" and "bus_read B a 0 = (w, 0) \<and> \<not> f w"
  shows "settles B a f"
proof -
  have "\<exists>vs. poll_run B a f h vs 0" for h
  proof (induction h)
    case 0
    then show ?case using assms(2) by (meson poll_run.ready)
  next
    case (Suc h)
    then show ?case using assms(1) by (meson poll_run.again)
  qed
  then show ?thesis unfolding settles_def by blast
qed

definition demo_spi_mach :: "nat mach" where
  "demo_spi_mach = (demo_table Spi 0)\<lparr>spi_config := 0x20\<rparr>"

theorem oc_spi_txrx_transfer_witness:
  "\<exists>h v vs out. oc_spi_txrx demo_spi 0 2 24 0xABCD demo_spi_mach
     = Some (Inr ((0, out), on_bus h
        ([Wr 0x110 24, Wr 0x100 0xABCD, Wr 0x118 4, Rd 0x110 v, Wr 0x110 (v OR 0x100)] @
         map (Rd 0x110) vs @ [Rd 0x100 out]) demo_spi_mach)) \<and> last vs AND 0x100 = 0"
proof -
  have f: "handle demo_spi_mach Spi \<noteq> 0" "spi_config demo_spi_mach \<noteq> 0"
    "base_of demo_spi_mach Spi 0 = 0x100" "spi_cfg demo_spi_mach 0 = 0"
    by (simp_all add: demo_spi_mach_def)
  have "settles demo_spi a spi_busy" for a
    by (rule settles_countdown[where v = SPI_CTRL_BSY and w = 0]) (simp_all add: demo_spi_def SPI_CTRL_BSY_def)
  from oc_spi_txrx_transfer[OF f(1,2) this, of 0 2 24 "0xABCD"]
  show ?thesis
    by (simp only: f(3,4)) (simp add: SPI_REG_CTRL_def SPI_REG_TX0_def SPI_REG_RX0_def SPI_REG_SS_def
        SPI_CTRL_CHAR_LEN_def SPI_CTRL_GO_BSY_def SPI_CTRL_BSY_def, blast)
qed

text \<open>
  \<^verbatim>\<open>oc_spi_config\<close> replaces the configuration word of the instance by
  exactly the requested flags and changes nothing else.
\<close>

lemma oc_spi_config_flags:
  assumes "spi_config s \<noteq> 0"
  shows "\<exists>w. oc_spi_config n ass rx_neg tx_neg lsb ie s
      = Some (Inr ((), s\<lparr>words := (words s)(spi_config s + 4 * unat n := w)\<rparr>)) \<and>
    (bit w 13 \<longleftrightarrow> ass \<noteq> 0) \<and> (bit w 9 \<longleftrightarrow> rx_neg \<noteq> 0) \<and> (bit w 10 \<longleftrightarrow> tx_neg \<noteq> 0) \<and>
    (bit w 11 \<longleftrightarrow> lsb \<noteq> 0) \<and> (bit w 12 \<longleftrightarrow> ie \<noteq> 0) \<and> w AND NOT 0x3E00 = 0"
proof -
  let ?f = "\<lambda>c m. if c \<noteq> (0::int) then m else (0::u32)"
  let ?w = "((((?f ass SPI_CTRL_ASS OR ?f tx_neg SPI_CTRL_TXNEG) OR ?f rx_neg SPI_CTRL_RXNEG) OR
      ?f lsb SPI_CTRL_LSB) OR ?f ie SPI_CTRL_IE)"
  have "oc_spi_config n ass rx_neg tx_neg lsb ie s
      = Some (Inr ((), s\<lparr>words := (words s)(spi_config s + 4 * unat n := ?w)\<rparr>))"
    using assms
    by (simp add: oc_spi_config_def spi_config_or_def spi_config_store_def spi_config_at_run
        thn_def bnd_def deref_def)
  moreover have "(bit ?w 13 \<longleftrightarrow> ass \<noteq> 0) \<and> (bit ?w 9 \<longleftrightarrow> rx_neg \<noteq> 0) \<and> (bit ?w 10 \<longleftrightarrow> tx_neg \<noteq> 0) \<and>
      (bit ?w 11 \<longleftrightarrow> lsb \<noteq> 0) \<and> (bit ?w 12 \<longleftrightarrow> ie \<noteq> 0) \<and> ?w AND NOT 0x3E00 = 0"
    by (simp add: SPI_CTRL_ASS_def SPI_CTRL_TXNEG_def SPI_CTRL_RXNEG_def SPI_CTRL_LSB_def SPI_CTRL_IE_def
        bit_or_iff)
  ultimately show ?thesis by blast
qed

lemma oc_spi_config_flags_witness:
  "\<exists>w. oc_spi_config 0 1 0 1 0 0 demo_spi_mach
      = Some (Inr ((), demo_spi_mach\<lparr>words := (words demo_spi_mach)(0x20 := w)\<rparr>)) \<and> bit w 13 \<and> \<not> bit w 9"
proof -
  have "spi_config demo_spi_mach \<noteq> 0" "spi_config demo_spi_mach + 4 * unat (0::u32) = 0x20"
    by (simp_all add: demo_spi_mach_def)
  then show ?thesis using oc_spi_config_flags[of demo_spi_mach 0 1 0 1 0 0] by auto
qed

end
