(* ===== verification/I2c.thy ===== *)
theory I2c
  imports Spi
begin

text \<open>
  The driver of the OpenCores I2C master, \<^verbatim>\<open>dev/i2c.c\<close>. The register offsets are those of
  \<^verbatim>\<open>struct I2C_WB\<close> in \<^verbatim>\<open>hw/wb_i2c.h\<close>, through which the driver accesses the core.
\<close>

section \<open>Registers\<close>

definition I2C_WB_PREL :: u32 where "I2C_WB_PREL = 0x00"
definition I2C_WB_PREH :: u32 where "I2C_WB_PREH = 0x04"
definition I2C_WB_CTR :: u32 where "I2C_WB_CTR = 0x08"
definition I2C_WB_TXR :: u32 where "I2C_WB_TXR = 0x0C"
definition I2C_WB_RXR :: u32 where "I2C_WB_RXR = 0x10"
definition I2C_WB_CR :: u32 where "I2C_WB_CR = 0x14"
definition I2C_WB_SR :: u32 where "I2C_WB_SR = 0x18"

definition I2C_CTR_EN :: u32 where "I2C_CTR_EN = push_bit 7 1"
definition I2C_TXR_READ :: u32 where "I2C_TXR_READ = push_bit 0 1"
definition I2C_CR_STA :: u32 where "I2C_CR_STA = push_bit 7 1"
definition I2C_CR_STO :: u32 where "I2C_CR_STO = push_bit 6 1"
definition I2C_CR_RD :: u32 where "I2C_CR_RD = push_bit 5 1"
definition I2C_CR_WR :: u32 where "I2C_CR_WR = push_bit 4 1"
definition I2C_CR_ACK :: u32 where "I2C_CR_ACK = push_bit 3 1"
definition I2C_SR_RXACK :: u32 where "I2C_SR_RXACK = push_bit 7 1"
definition I2C_SR_TIP :: u32 where "I2C_SR_TIP = push_bit 1 1"

definition I2C_ADDR :: "u32 \<Rightarrow> u32" where
  "I2C_ADDR x = push_bit 1 x AND 0xff"

definition DEFAULT_I2C_PRESCALER :: u32 where "DEFAULT_I2C_PRESCALER = 199"

section \<open>Operations\<close>

definition i2c_conf :: "'h plat \<Rightarrow> nat \<Rightarrow> u32 \<Rightarrow> ('h mach, bool) prog" where
  "i2c_conf B i b =
     thn (wr B (b + I2C_WB_CTR) 0)
     (thn (wr B (b + I2C_WB_PREL) (DEFAULT_I2C_PRESCALER AND 0xFF))
     (thn (wr B (b + I2C_WB_PREH) (drop_bit 8 DEFAULT_I2C_PRESCALER AND 0xFF))
     (thn (wr B (b + I2C_WB_CTR) I2C_CTR_EN)
     (bnd (rd B (b + I2C_WB_CTR)) (\<lambda>ctr.
       if ctr AND I2C_CTR_EN = 0 then ret False
       else thn (debug_addr (DBG_I2C OR DBE_DBG_INFO) ''> i2c addr[%d]: %08X\<newline>'' i b) (ret True))))))"

definition i2c_init :: "'h plat \<Rightarrow> ('h mach, int) prog" where
  "i2c_init B =
     dev_init B I2c (\<lambda>_. ret ()) (i2c_conf B) (debug_size (DBG_I2C OR DBE_DBG_INFO) ''> i2c size: %d\<newline>'')"

definition i2c_exit :: "('h mach, unit) prog" where
  "i2c_exit = bnd (gets (\<lambda>s. handle s I2c)) mfree"

definition oc_i2c_poll :: "'h plat \<Rightarrow> u32 \<Rightarrow> ('h mach, int) prog" where
  "oc_i2c_poll B idx =
     bnd (dev_base I2c idx) (\<lambda>b.
     bnd (rd B (b + I2C_WB_SR)) (\<lambda>v. ret (if v AND I2C_SR_TIP \<noteq> 0 then 1 else 0)))"

definition i2c_wait :: "'h plat \<Rightarrow> u32 \<Rightarrow> ('h mach, unit) prog" where
  "i2c_wait B idx = wait_while (bnd (oc_i2c_poll B idx) (\<lambda>busy. ret (busy \<noteq> 0)))"

definition oc_i2c_start :: "'h plat \<Rightarrow> u32 \<Rightarrow> u32 \<Rightarrow> int \<Rightarrow> ('h mach, int) prog" where
  "oc_i2c_start B idx addr read =
     (let i2c_addr = (if read = 1 then I2C_ADDR addr OR I2C_TXR_READ else I2C_ADDR addr)
      in bnd (dev_base I2c idx) (\<lambda>b.
         thn (wr B (b + I2C_WB_TXR) i2c_addr)
         (thn (wr B (b + I2C_WB_CR) (I2C_CR_STA OR I2C_CR_WR))
         (thn (i2c_wait B idx)
         (bnd (rd B (b + I2C_WB_SR)) (\<lambda>sr.
           if sr AND I2C_SR_RXACK \<noteq> 0
           then thn (DBE_DEBUG (DBG_I2C OR DBE_DBG_TRACE)
                      ''> no ack received from slave at addr 0X%2X\<newline>'' (ret [Num addr])) (ret (-1))
           else ret 0))))))"

text \<open>The value of \<^verbatim>\<open>*out\<close> is \<open>None\<close> when it is not written.\<close>

definition oc_i2c_rx :: "'h plat \<Rightarrow> u32 \<Rightarrow> int \<Rightarrow> ('h mach, int \<times> u32 option) prog" where
  "oc_i2c_rx B idx last_byte =
     (let i2c_cmd = (if last_byte \<noteq> 0 then I2C_CR_RD OR (I2C_CR_STO OR I2C_CR_ACK) else I2C_CR_RD)
      in bnd (dev_base I2c idx) (\<lambda>b.
         thn (wr B (b + I2C_WB_CR) i2c_cmd)
         (thn (i2c_wait B idx)
         (bnd (rd B (b + I2C_WB_SR)) (\<lambda>sr.
           if sr AND I2C_SR_RXACK \<noteq> 0
           then thn (DBE_DEBUG (DBG_I2C OR DBE_DBG_TRACE)
                      ''> no ack received from slave at rx transaction\<newline>'' (ret [])) (ret (-1, None))
           else bnd (rd B (b + I2C_WB_RXR)) (\<lambda>v. ret (0, Some (v AND 0xFF))))))))"

definition oc_i2c_tx :: "'h plat \<Rightarrow> u32 \<Rightarrow> u32 \<Rightarrow> int \<Rightarrow> ('h mach, int) prog" where
  "oc_i2c_tx B idx inw last_byte =
     (let i2c_cmd = (if last_byte \<noteq> 0 then I2C_CR_WR OR I2C_CR_STO else I2C_CR_WR)
      in bnd (dev_base I2c idx) (\<lambda>b.
         thn (wr B (b + I2C_WB_TXR) inw)
         (thn (wr B (b + I2C_WB_CR) i2c_cmd)
         (thn (i2c_wait B idx)
         (bnd (rd B (b + I2C_WB_SR)) (\<lambda>sr.
           if sr AND I2C_SR_RXACK \<noteq> 0
           then thn (DBE_DEBUG (DBG_I2C OR DBE_DBG_TRACE)
                      ''> no ack received from slave at tx transaction\<newline>'' (ret [])) (ret (-1))
           else ret 0))))))"

text \<open>One round of the loop of \<^verbatim>\<open>oc_i2c_scan\<close>, and the loop from address \<open>i\<close> on.\<close>

definition scan_probe :: "'h plat \<Rightarrow> u32 \<Rightarrow> nat \<Rightarrow> ('h mach, unit) prog" where
  "scan_probe B idx i =
     bnd (dev_base I2c idx) (\<lambda>b.
     thn (wr B (b + I2C_WB_TXR) (I2C_ADDR (of_nat i) OR I2C_TXR_READ))
     (thn (wr B (b + I2C_WB_CR) (I2C_CR_STA OR I2C_CR_WR))
     (thn (i2c_wait B idx)
     (bnd (rd B (b + I2C_WB_SR)) (\<lambda>sr.
       if sr AND I2C_SR_RXACK = 0
       then thn (DBE_DEBUG (DBG_I2C OR DBE_DBG_TRACE) ''> device found at addr 0X%02X\<newline>''
                  (ret [Num (of_nat i)]))
            (thn (wr B (b + I2C_WB_TXR) 0)
            (thn (wr B (b + I2C_WB_CR) (I2C_CR_STO OR I2C_CR_WR))
              (i2c_wait B idx)))
       else ret ())))))"

fun scan_loop :: "'h plat \<Rightarrow> u32 \<Rightarrow> nat \<Rightarrow> nat \<Rightarrow> ('h mach, int) prog" where
  "scan_loop B idx i 0 = ret 0"
| "scan_loop B idx i (Suc n) = thn (scan_probe B idx i) (scan_loop B idx (Suc i) n)"

definition oc_i2c_scan :: "'h plat \<Rightarrow> u32 \<Rightarrow> ('h mach, int) prog" where
  "oc_i2c_scan B idx = scan_loop B idx 0 128"

section \<open>What the operations do\<close>

lemma i2c_trace_off [simp]: "DBE_DEBUG (DBG_I2C OR DBE_DBG_TRACE) fmt args = ret ()"
  by (rule DBE_DEBUG_off)
    (simp add: DBG_I2C_def DBE_DBG_TRACE_def DBE_DBG_MASK_def DBG_MIN_LEVEL_def DBE_DBG_INFO_def)

abbreviation i2c_tip :: "u32 \<Rightarrow> bool" where
  "i2c_tip v \<equiv> v AND I2C_SR_TIP \<noteq> 0"

lemma i2c_wait_run:
  assumes h: "handle s I2c \<noteq> 0" and st: "settles B (base_of s I2c n + I2C_WB_SR) i2c_tip"
  shows "\<exists>h vs. i2c_wait B n s = Some (Inr ((), on_bus h (map (Rd (base_of s I2c n + I2C_WB_SR)) vs) s)) \<and>
    vs \<noteq> [] \<and> \<not> i2c_tip (last vs)"
proof -
  let ?a = "base_of s I2c n + I2C_WB_SR"
  obtain vs h where r: "poll_run B ?a i2c_tip (hw s) vs h" using st unfolding settles_def by blast
  have "bnd (oc_i2c_poll B n) (\<lambda>busy. ret (busy \<noteq> 0)) t = bnd (rd B ?a) (\<lambda>v. ret (i2c_tip v)) t"
    if "words t = words s" "handle t = handle s" for t
    using that h by (simp add: oc_i2c_poll_def bnd_def dev_base_run rd_run)
  then have "i2c_wait B n s = Some (Inr ((), on_bus h (map (Rd ?a) vs) s))"
    unfolding i2c_wait_def by (intro wait_while_poll_run[OF r refl])
  then show ?thesis using poll_run_last[OF r] by blast
qed

text \<open>A command: write the command register, wait for the transfer, read the status.\<close>

lemma i2c_command_run:
  assumes h: "handle s I2c \<noteq> 0" and st: "settles B (base_of s I2c n + I2C_WB_SR) i2c_tip"
  shows "\<exists>h vs sr. thn (wr B (base_of s I2c n + I2C_WB_CR) c) (thn (i2c_wait B n)
        (bnd (rd B (base_of s I2c n + I2C_WB_SR)) k)) s
      = k sr (on_bus h (Wr (base_of s I2c n + I2C_WB_CR) c #
          map (Rd (base_of s I2c n + I2C_WB_SR)) vs @ [Rd (base_of s I2c n + I2C_WB_SR) sr]) s) \<and>
      vs \<noteq> [] \<and> \<not> i2c_tip (last vs)"
proof -
  let ?b = "base_of s I2c n"
  let ?s1 = "on_bus (bus_write B (?b + I2C_WB_CR) c (hw s)) [Wr (?b + I2C_WB_CR) c] s"
  obtain h vs where w: "i2c_wait B n ?s1 = Some (Inr ((), on_bus h (map (Rd (?b + I2C_WB_SR)) vs) ?s1))"
    "vs \<noteq> []" "\<not> i2c_tip (last vs)" using i2c_wait_run[of ?s1 B n] assms by auto
  obtain sr h2 where sr: "bus_read B (?b + I2C_WB_SR) h = (sr, h2)" by fastforce
  have "thn (wr B (?b + I2C_WB_CR) c) (thn (i2c_wait B n) (bnd (rd B (?b + I2C_WB_SR)) k)) s
      = k sr (on_bus h2 (Wr (?b + I2C_WB_CR) c # map (Rd (?b + I2C_WB_SR)) vs @ [Rd (?b + I2C_WB_SR) sr]) s)"
    using w(1) sr by (simp add: thn_def bnd_def wr_run rd_run)
  then show ?thesis using w(2,3) by blast
qed

text \<open>
  \<^verbatim>\<open>oc_i2c_start\<close> sends the 7-bit address, shifted left and with the read
  bit in the lowest place, with a start condition, waits for the end of the transfer, and
  answers 0 exactly when the slave acknowledged.
\<close>

lemma oc_i2c_start_ack:
  assumes "handle s I2c \<noteq> 0" and "settles B (base_of s I2c n + I2C_WB_SR) i2c_tip"
  shows "\<exists>h vs sr. oc_i2c_start B n addr rw s
      = Some (Inr (if sr AND I2C_SR_RXACK = 0 then 0 else -1, on_bus h
          ([Wr (base_of s I2c n + I2C_WB_TXR) (I2C_ADDR addr OR (if rw = 1 then I2C_TXR_READ else 0)),
            Wr (base_of s I2c n + I2C_WB_CR) (I2C_CR_STA OR I2C_CR_WR)] @
           map (Rd (base_of s I2c n + I2C_WB_SR)) vs @ [Rd (base_of s I2c n + I2C_WB_SR) sr]) s)) \<and>
    vs \<noteq> [] \<and> \<not> i2c_tip (last vs)"
proof -
  let ?b = "base_of s I2c n"
  let ?a = "I2C_ADDR addr OR (if rw = 1 then I2C_TXR_READ else 0)"
  let ?k = "\<lambda>sr. if sr AND I2C_SR_RXACK \<noteq> 0
      then thn (DBE_DEBUG (DBG_I2C OR DBE_DBG_TRACE)
             ''> no ack received from slave at addr 0X%2X\<newline>'' (ret [Num addr])) (ret (-1)) else ret (0::int)"
  let ?s1 = "on_bus (bus_write B (?b + I2C_WB_TXR) ?a (hw s)) [Wr (?b + I2C_WB_TXR) ?a] s"
  have pre: "oc_i2c_start B n addr rw s = thn (wr B (?b + I2C_WB_CR) (I2C_CR_STA OR I2C_CR_WR))
      (thn (i2c_wait B n) (bnd (rd B (?b + I2C_WB_SR)) ?k)) ?s1"
    using assms(1)
    by (cases "rw = 1") (simp_all add: oc_i2c_start_def Let_def bnd_def[of "dev_base I2c n"] dev_base_run
        thn_def[of "wr B (?b + I2C_WB_TXR) _"] bnd_def[of "wr B (?b + I2C_WB_TXR) _"] wr_run)
  obtain h vs sr where r: "thn (wr B (?b + I2C_WB_CR) (I2C_CR_STA OR I2C_CR_WR))
      (thn (i2c_wait B n) (bnd (rd B (?b + I2C_WB_SR)) ?k)) ?s1
      = ?k sr (on_bus h (Wr (?b + I2C_WB_CR) (I2C_CR_STA OR I2C_CR_WR) #
          map (Rd (?b + I2C_WB_SR)) vs @ [Rd (?b + I2C_WB_SR) sr]) ?s1)" "vs \<noteq> []" "\<not> i2c_tip (last vs)"
    using i2c_command_run[of ?s1 B n "I2C_CR_STA OR I2C_CR_WR" ?k] assms by auto
  show ?thesis
    unfolding pre r(1) using r(2,3)
    by (intro exI[of _ h] exI[of _ vs] exI[of _ sr]) (simp add: thn_def bnd_def)
qed

definition demo_i2c :: "nat plat" where
  "demo_i2c =
     \<lparr>bus_read = \<lambda>a h. (if 0 < h then I2C_SR_TIP else 0, h - 1), bus_write = \<lambda>a v h. 2, mem_byte = \<lambda>a h. 0,
      mem_put = \<lambda>a v h. h, lay = demo_layout\<rparr>"

lemma demo_i2c_settles: "settles demo_i2c a i2c_tip"
  by (rule settles_countdown[where v = I2C_SR_TIP and w = 0]) (simp_all add: demo_i2c_def I2C_SR_TIP_def)

lemma oc_i2c_start_ack_witness:
  "\<exists>r h vs sr. oc_i2c_start demo_i2c 0 0x50 1 (demo_table I2c 0)
      = Some (Inr (r, on_bus h ([Wr 0x10C 0xA1, Wr 0x114 0x90] @ map (Rd 0x118) vs @ [Rd 0x118 sr])
          (demo_table I2c 0))) \<and> (r = 0 \<longleftrightarrow> sr AND 0x80 = 0)"
proof -
  have b: "handle (demo_table I2c 0) I2c \<noteq> 0" "base_of (demo_table I2c 0) I2c 0 = 0x100" by simp_all
  obtain h vs sr where r: "oc_i2c_start demo_i2c 0 0x50 1 (demo_table I2c 0)
      = Some (Inr (if sr AND I2C_SR_RXACK = 0 then 0 else -1, on_bus h
          ([Wr (0x100 + I2C_WB_TXR) (I2C_ADDR 0x50 OR (if (1::int) = 1 then I2C_TXR_READ else 0)),
            Wr (0x100 + I2C_WB_CR) (I2C_CR_STA OR I2C_CR_WR)] @
           map (Rd (0x100 + I2C_WB_SR)) vs @ [Rd (0x100 + I2C_WB_SR) sr]) (demo_table I2c 0)))"
    using oc_i2c_start_ack[OF b(1) demo_i2c_settles, of 0 "0x50" 1] unfolding b(2) by blast
  then show ?thesis
    by (intro exI[of _ "if sr AND I2C_SR_RXACK = 0 then 0 else -1"] exI[of _ h] exI[of _ vs] exI[of _ sr])
      (simp add: I2C_WB_TXR_def I2C_WB_CR_def I2C_WB_SR_def I2C_ADDR_def I2C_TXR_READ_def I2C_CR_STA_def
        I2C_CR_WR_def I2C_SR_RXACK_def)
qed

lemma i2c_offsets [simp]: "I2C_WB_CR \<noteq> I2C_WB_TXR" "I2C_WB_TXR \<noteq> I2C_WB_CR"
  by (simp_all add: I2C_WB_CR_def I2C_WB_TXR_def)

lemma scan_probe_run:
  assumes h: "handle s I2c \<noteq> 0" and st: "settles B (base_of s I2c n + I2C_WB_SR) i2c_tip"
  shows "\<exists>h es ack. scan_probe B n i s = Some (Inr ((), on_bus h es s)) \<and>
    writes_at (base_of s I2c n + I2C_WB_TXR) es
      = (I2C_ADDR (of_nat i) OR I2C_TXR_READ) # (if ack then [0] else []) \<and>
    writes_at (base_of s I2c n + I2C_WB_CR) es
      = (I2C_CR_STA OR I2C_CR_WR) # (if ack then [I2C_CR_STO OR I2C_CR_WR] else [])"
proof -
  let ?b = "base_of s I2c n"
  let ?a = "I2C_ADDR (of_nat i) OR I2C_TXR_READ"
  let ?stop = "thn (wr B (?b + I2C_WB_TXR) 0) (thn (wr B (?b + I2C_WB_CR) (I2C_CR_STO OR I2C_CR_WR)) (i2c_wait B n))"
  let ?k = "\<lambda>sr. if sr AND I2C_SR_RXACK = 0 then ?stop else ret ()"
  let ?s1 = "on_bus (bus_write B (?b + I2C_WB_TXR) ?a (hw s)) [Wr (?b + I2C_WB_TXR) ?a] s"
  have pre: "scan_probe B n i s = thn (wr B (?b + I2C_WB_CR) (I2C_CR_STA OR I2C_CR_WR))
      (thn (i2c_wait B n) (bnd (rd B (?b + I2C_WB_SR)) ?k)) ?s1"
    using h by (simp add: scan_probe_def bnd_def[of "dev_base I2c n"] dev_base_run
        thn_def[of "wr B (?b + I2C_WB_TXR) _"] 
        bnd_def[of "wr B (?b + I2C_WB_TXR) _"] wr_run cong: if_cong)
  obtain h1 vs sr where r: "thn (wr B (?b + I2C_WB_CR) (I2C_CR_STA OR I2C_CR_WR))
      (thn (i2c_wait B n) (bnd (rd B (?b + I2C_WB_SR)) ?k)) ?s1
      = ?k sr (on_bus h1 (Wr (?b + I2C_WB_CR) (I2C_CR_STA OR I2C_CR_WR) #
          map (Rd (?b + I2C_WB_SR)) vs @ [Rd (?b + I2C_WB_SR) sr]) ?s1)"
    using i2c_command_run[of ?s1 B n "I2C_CR_STA OR I2C_CR_WR" ?k] assms by auto
  define es where "es = Wr (?b + I2C_WB_TXR) ?a # Wr (?b + I2C_WB_CR) (I2C_CR_STA OR I2C_CR_WR) #
          map (Rd (?b + I2C_WB_SR)) vs @ [Rd (?b + I2C_WB_SR) sr]"
  have run: "scan_probe B n i s = ?k sr (on_bus h1 es s)" unfolding pre r by (simp add: es_def)
  show ?thesis
  proof (cases "sr AND I2C_SR_RXACK = 0")
    case False
    then show ?thesis using run
      by (intro exI[of _ h1] exI[of _ es] exI[of _ False]) (simp add: es_def)
  next
    case True
    let ?w = "[Wr (?b + I2C_WB_TXR) 0, Wr (?b + I2C_WB_CR) (I2C_CR_STO OR I2C_CR_WR)]"
    let ?h2 = "bus_write B (?b + I2C_WB_CR) (I2C_CR_STO OR I2C_CR_WR) (bus_write B (?b + I2C_WB_TXR) 0 h1)"
    obtain h3 ws where "i2c_wait B n (on_bus ?h2 (es @ ?w) s)
        = Some (Inr ((), on_bus h3 (map (Rd (?b + I2C_WB_SR)) ws) (on_bus ?h2 (es @ ?w) s)))"
      using i2c_wait_run[of "on_bus ?h2 (es @ ?w) s" B n] assms by auto
    then have "scan_probe B n i s
        = Some (Inr ((), on_bus h3 (es @ ?w @ map (Rd (?b + I2C_WB_SR)) ws) s))"
      using run True by (simp add: thn_def bnd_def wr_run)
    then show ?thesis
      by (intro exI[of _ h3] exI[of _ "es @ ?w @ map (Rd (?b + I2C_WB_SR)) ws"] exI[of _ True])
        (simp add: es_def)
  qed
qed

lemma scan_loop_run:
  assumes "handle s I2c \<noteq> 0" and "settles B (base_of s I2c n + I2C_WB_SR) i2c_tip"
  shows "\<exists>h es acks. scan_loop B n i k s = Some (Inr (0, on_bus h es s)) \<and> length acks = k \<and>
    writes_at (base_of s I2c n + I2C_WB_TXR) es
      = concat (map (\<lambda>(j, ack). (I2C_ADDR (of_nat j) OR I2C_TXR_READ) # (if ack then [0] else []))
          (zip [i..<i + k] acks)) \<and>
    writes_at (base_of s I2c n + I2C_WB_CR) es
      = concat (map (\<lambda>ack. (I2C_CR_STA OR I2C_CR_WR) # (if ack then [I2C_CR_STO OR I2C_CR_WR] else [])) acks)"
  using assms
proof (induction k arbitrary: i s)
  case 0
  then show ?case by (auto intro!: exI[of _ "hw s"] exI[of _ "[]"])
next
  case (Suc k)
  obtain h1 es1 ack where p: "scan_probe B n i s = Some (Inr ((), on_bus h1 es1 s))"
    "writes_at (base_of s I2c n + I2C_WB_TXR) es1
      = (I2C_ADDR (of_nat i) OR I2C_TXR_READ) # (if ack then [0] else [])"
    "writes_at (base_of s I2c n + I2C_WB_CR) es1
      = (I2C_CR_STA OR I2C_CR_WR) # (if ack then [I2C_CR_STO OR I2C_CR_WR] else [])"
    using scan_probe_run[OF Suc.prems] by blast
  let ?s1 = "on_bus h1 es1 s"
  obtain h es acks where IH: "scan_loop B n (Suc i) k ?s1 = Some (Inr (0, on_bus h es ?s1))"
    "length acks = k"
    "writes_at (base_of s I2c n + I2C_WB_TXR) es
      = concat (map (\<lambda>(j, ack). (I2C_ADDR (of_nat j) OR I2C_TXR_READ) # (if ack then [0] else []))
          (zip [Suc i..<Suc i + k] acks))"
    "writes_at (base_of s I2c n + I2C_WB_CR) es
      = concat (map (\<lambda>ack. (I2C_CR_STA OR I2C_CR_WR) # (if ack then [I2C_CR_STO OR I2C_CR_WR] else [])) acks)"
    using Suc.IH[of ?s1 "Suc i"] Suc.prems by auto
  have "scan_loop B n i (Suc k) s = Some (Inr (0, on_bus h (es1 @ es) s))"
    using p(1) IH(1) by (simp add: thn_def bnd_def)
  moreover have "[i..<i + Suc k] = i # [Suc i..<Suc i + k]" by (simp add: upt_conv_Cons)
  ultimately show ?case
    using p(2,3) IH(2-4) by (intro exI[of _ h] exI[of _ "es1 @ es"] exI[of _ "ack # acks"]) simp
qed

text \<open>
  On a core whose transfers always end, \<^verbatim>\<open>oc_i2c_scan\<close> ends after probing
  each of the 128 addresses once, in order, and sends a stop condition for exactly those that
  answered.
\<close>

lemma oc_i2c_scan_probes_all:
  assumes "handle s I2c \<noteq> 0" and "settles B (base_of s I2c n + I2C_WB_SR) i2c_tip"
  shows "\<exists>h es acks. oc_i2c_scan B n s = Some (Inr (0, on_bus h es s)) \<and> length acks = 128 \<and>
    writes_at (base_of s I2c n + I2C_WB_TXR) es
      = concat (map (\<lambda>(j, ack). (I2C_ADDR (of_nat j) OR I2C_TXR_READ) # (if ack then [0] else []))
          (zip [0..<128] acks)) \<and>
    writes_at (base_of s I2c n + I2C_WB_CR) es
      = concat (map (\<lambda>ack. (I2C_CR_STA OR I2C_CR_WR) # (if ack then [I2C_CR_STO OR I2C_CR_WR] else [])) acks)"
  using scan_loop_run[OF assms, of 0 128] by (simp only: oc_i2c_scan_def add_0)

lemma oc_i2c_scan_probes_all_witness:
  "\<exists>h es (acks :: bool list). oc_i2c_scan demo_i2c 0 (demo_table I2c 0) = Some (Inr (0, on_bus h es (demo_table I2c 0))) \<and>
     length acks = 128"
proof -
  have "handle (demo_table I2c 0) I2c \<noteq> 0" by simp
  from oc_i2c_scan_probes_all[OF this demo_i2c_settles, of 0] show ?thesis
    by (elim exE conjE) (intro exI conjI)
qed

end
