(* ===== verification/Onewire.thy ===== *)
theory Onewire
  imports I2c
begin

text \<open>The driver of the OpenCores 1-wire master, \<^verbatim>\<open>dev/onewire.c\<close> with \<^verbatim>\<open>hw/wb_onewire.h\<close>.\<close>

section \<open>Registers\<close>

definition OWR_CSR :: u32 where "OWR_CSR = 0x0"
definition OWR_CDR :: u32 where "OWR_CDR = 0x4"

definition OWR_CSR_DAT :: u32 where "OWR_CSR_DAT = push_bit 0 1"
definition OWR_CSR_RST :: u32 where "OWR_CSR_RST = push_bit 1 1"
definition OWR_CSR_CYC :: u32 where "OWR_CSR_CYC = push_bit 3 1"

definition OWR_CSR_SEL :: "u32 \<Rightarrow> u32" where
  "OWR_CSR_SEL x = push_bit 8 x AND push_bit 8 0xF"

definition OWR_CDR_NOR :: "u32 \<Rightarrow> u32" where
  "OWR_CDR_NOR x = push_bit 0 x AND push_bit 0 0xFFFF"

definition OWR_CDR_OVD :: "u32 \<Rightarrow> u32" where
  "OWR_CDR_OVD x = push_bit 16 x AND push_bit 16 0xFFFF"

definition DEFAULT_OWR_DIVIDER_NOR :: u32 where "DEFAULT_OWR_DIVIDER_NOR = 499"
definition DEFAULT_OWR_DIVIDER_OVD :: u32 where "DEFAULT_OWR_DIVIDER_OVD = 99"

section \<open>Operations\<close>

definition owr_conf :: "'h plat \<Rightarrow> nat \<Rightarrow> u32 \<Rightarrow> ('h mach, bool) prog" where
  "owr_conf B i b =
     thn (wr B (b + OWR_CDR) (OWR_CDR_NOR DEFAULT_OWR_DIVIDER_NOR OR OWR_CDR_OVD DEFAULT_OWR_DIVIDER_OVD))
     (thn (debug_addr (DBG_OWR OR DBE_DBG_INFO) ''> owr addr[%d]: %08X\<newline>'' i b) (ret True))"

definition owr_init :: "'h plat \<Rightarrow> ('h mach, int) prog" where
  "owr_init B =
     dev_init B Owr (\<lambda>_. ret ()) (owr_conf B) (debug_size (DBG_OWR OR DBE_DBG_INFO) ''> owr size: %d\<newline>'')"

definition owr_exit :: "('h mach, unit) prog" where
  "owr_exit = bnd (gets (\<lambda>s. handle s Owr)) mfree"

definition oc_owr_poll :: "'h plat \<Rightarrow> u32 \<Rightarrow> ('h mach, int) prog" where
  "oc_owr_poll B idx =
     bnd (dev_base Owr idx) (\<lambda>b.
     bnd (rd B (b + OWR_CSR)) (\<lambda>v. ret (if v AND OWR_CSR_CYC \<noteq> 0 then 1 else 0)))"

definition owr_wait :: "'h plat \<Rightarrow> u32 \<Rightarrow> ('h mach, unit) prog" where
  "owr_wait B idx = wait_while (bnd (oc_owr_poll B idx) (\<lambda>busy. ret (busy \<noteq> 0)))"

definition oc_owr_reset :: "'h plat \<Rightarrow> u32 \<Rightarrow> u32 \<Rightarrow> ('h mach, u32) prog" where
  "oc_owr_reset B idx port =
     bnd (dev_base Owr idx) (\<lambda>b.
     thn (wr B (b + OWR_CSR) (OWR_CSR_SEL port OR OWR_CSR_CYC OR OWR_CSR_RST))
     (thn (owr_wait B idx)
     (bnd (rd B (b + OWR_CSR)) (\<lambda>v. ret (NOT v AND OWR_CSR_DAT)))))"

text \<open>The bit read is returned beside the status; a caller that passes a null pointer ignores it.\<close>

definition oc_owr_slot :: "'h plat \<Rightarrow> u32 \<Rightarrow> u32 \<Rightarrow> u32 \<Rightarrow> ('h mach, int \<times> u32) prog" where
  "oc_owr_slot B idx port in_bit =
     bnd (dev_base Owr idx) (\<lambda>b.
     thn (wr B (b + OWR_CSR) (OWR_CSR_SEL port OR OWR_CSR_CYC OR (in_bit AND OWR_CSR_DAT)))
     (thn (owr_wait B idx)
     (bnd (rd B (b + OWR_CSR)) (\<lambda>v. ret (0, v AND OWR_CSR_DAT)))))"

definition oc_owr_read_bit :: "'h plat \<Rightarrow> u32 \<Rightarrow> u32 \<Rightarrow> ('h mach, int \<times> u32) prog" where
  "oc_owr_read_bit B idx port = oc_owr_slot B idx port 0x1"

definition oc_owr_write_bit :: "'h plat \<Rightarrow> u32 \<Rightarrow> u32 \<Rightarrow> u32 \<Rightarrow> ('h mach, int \<times> u32) prog" where
  "oc_owr_write_bit B idx port in_bit = oc_owr_slot B idx port in_bit"

fun read_byte_loop :: "'h plat \<Rightarrow> u32 \<Rightarrow> u32 \<Rightarrow> nat \<Rightarrow> nat \<Rightarrow> u32 \<Rightarrow> ('h mach, u32) prog" where
  "read_byte_loop B idx port i 0 owr_data = ret owr_data"
| "read_byte_loop B idx port i (Suc n) owr_data =
     bnd (oc_owr_read_bit B idx port) (\<lambda>(_, owr_bit).
       read_byte_loop B idx port (Suc i) n (owr_data OR push_bit i owr_bit))"

definition read_byte :: "'h plat \<Rightarrow> u32 \<Rightarrow> u32 \<Rightarrow> ('h mach, int \<times> u32) prog" where
  "read_byte B idx port = bnd (read_byte_loop B idx port 0 8 0) (\<lambda>owr_data. ret (0, owr_data))"

fun write_byte_loop ::
  "'h plat \<Rightarrow> u32 \<Rightarrow> u32 \<Rightarrow> nat \<Rightarrow> nat \<Rightarrow> u32 \<Rightarrow> u32 \<Rightarrow> ('h mach, u32) prog" where
  "write_byte_loop B idx port i 0 owr_data owr_byte = ret owr_data"
| "write_byte_loop B idx port i (Suc n) owr_data owr_byte =
     bnd (oc_owr_write_bit B idx port (owr_byte AND 0x1)) (\<lambda>(_, owr_bit).
       write_byte_loop B idx port (Suc i) n (owr_data OR push_bit i owr_bit) (drop_bit 1 owr_byte))"

definition write_byte :: "'h plat \<Rightarrow> u32 \<Rightarrow> u32 \<Rightarrow> u32 \<Rightarrow> ('h mach, int) prog" where
  "write_byte B idx port in_byte =
     bnd (write_byte_loop B idx port 0 8 0 in_byte) (\<lambda>owr_data.
       ret (if owr_data = in_byte then 0 else -1))"

section \<open>What the operations do\<close>

abbreviation owr_cyc :: "u32 \<Rightarrow> bool" where
  "owr_cyc v \<equiv> v AND OWR_CSR_CYC \<noteq> 0"

lemma owr_wait_run:
  assumes h: "handle s Owr \<noteq> 0" and st: "settles B (base_of s Owr n + OWR_CSR) owr_cyc"
  shows "\<exists>h vs. owr_wait B n s = Some (Inr ((), on_bus h (map (Rd (base_of s Owr n + OWR_CSR)) vs) s)) \<and>
    vs \<noteq> [] \<and> \<not> owr_cyc (last vs)"
proof -
  let ?a = "base_of s Owr n + OWR_CSR"
  obtain vs h where r: "poll_run B ?a owr_cyc (hw s) vs h" using st unfolding settles_def by blast
  have "bnd (oc_owr_poll B n) (\<lambda>busy. ret (busy \<noteq> 0)) t = bnd (rd B ?a) (\<lambda>v. ret (owr_cyc v)) t"
    if "words t = words s" "handle t = handle s" for t
    using that h by (simp add: oc_owr_poll_def bnd_def dev_base_run rd_run)
  then have "owr_wait B n s = Some (Inr ((), on_bus h (map (Rd ?a) vs) s))"
    unfolding owr_wait_def by (intro wait_while_poll_run[OF r refl])
  then show ?thesis using poll_run_last[OF r] by blast
qed

lemma owr_conf_quiet: "\<exists>h es cs. owr_conf B i b s = Some (Inr (True, talk h es cs s))"
  unfolding owr_conf_def by (rule uart_conf_quiet)

interpretation owr_drv: driver "owr_conf B" "debug_size (DBG_OWR OR DBE_DBG_INFO) ''> owr size: %d\<newline>''" for B
  by unfold_locales (blast intro: owr_conf_quiet debug_size_quiet)+

text \<open>The command a slot writes.\<close>

definition slot_cmd :: "u32 \<Rightarrow> bool \<Rightarrow> u32" where
  "slot_cmd port b = OWR_CSR_SEL port OR OWR_CSR_CYC OR (if b then 1 else 0)"

lemma dat_bit: "v AND OWR_CSR_DAT = (if bit v 0 then 1 else 0)"
  by (simp add: OWR_CSR_DAT_def and_one_eq odd_iff_mod_2_eq_one bit_0 mod2_eq_if)

lemma oc_owr_slot_run:
  assumes h: "handle s Owr \<noteq> 0" and st: "settles B (base_of s Owr n + OWR_CSR) owr_cyc"
  shows "\<exists>h es b. oc_owr_slot B n port v s = Some (Inr ((0, if b then 1 else 0), on_bus h es s)) \<and>
    writes_at (base_of s Owr n + OWR_CSR) es = [slot_cmd port (bit v 0)]"
proof -
  let ?a = "base_of s Owr n + OWR_CSR"
  let ?c = "slot_cmd port (bit v 0)"
  let ?s1 = "on_bus (bus_write B ?a ?c (hw s)) [Wr ?a ?c] s"
  obtain h1 vs where w: "owr_wait B n ?s1 = Some (Inr ((), on_bus h1 (map (Rd ?a) vs) ?s1))"
    using owr_wait_run[of ?s1 B n] assms by auto
  obtain d h2 where d: "bus_read B ?a h1 = (d, h2)" by fastforce
  have "oc_owr_slot B n port v s
      = Some (Inr ((0, if bit d 0 then 1 else 0), on_bus h2 (Wr ?a ?c # map (Rd ?a) vs @ [Rd ?a d]) s))"
    using w d h by (simp add: oc_owr_slot_def thn_def bnd_def dev_base_run wr_run rd_run dat_bit slot_cmd_def)
  then show ?thesis
    by (intro exI[of _ h2] exI[of _ "Wr ?a ?c # map (Rd ?a) vs @ [Rd ?a d]"] exI[of _ "bit d 0"]) simp
qed

lemma or_bit_at:
  fixes data :: u32
  assumes "\<forall>k\<ge>i. \<not> bit data k" "i < 32"
  shows "bit (data OR push_bit i (if b then 1 else 0)) k = (if k = i then b else bit data k)"
  using assms by (auto simp: bit_or_iff bit_exp_iff)

lemma read_byte_loop_run:
  assumes "handle s Owr \<noteq> 0" and "settles B (base_of s Owr n + OWR_CSR) owr_cyc"
    and "i + m \<le> 32" and "\<forall>k\<ge>i. \<not> bit data k"
  shows "\<exists>h es bs w. read_byte_loop B n port i m data s = Some (Inr (w, on_bus h es s)) \<and> length bs = m \<and>
    writes_at (base_of s Owr n + OWR_CSR) es = replicate m (slot_cmd port True) \<and>
    (\<forall>k. bit w k = (if k < i then bit data k else k < i + m \<and> bs ! (k - i)))"
  using assms
proof (induction m arbitrary: i data s)
  case 0
  then show ?case by (auto intro!: exI[of _ "hw s"] exI[of _ "[]"])
next
  case (Suc m)
  obtain h1 es1 b where r: "oc_owr_slot B n port 1 s = Some (Inr ((0, if b then 1 else 0), on_bus h1 es1 s))"
    "writes_at (base_of s Owr n + OWR_CSR) es1 = [slot_cmd port (bit (1::u32) 0)]"
    using oc_owr_slot_run[OF Suc.prems(1,2)] by blast
  let ?s1 = "on_bus h1 es1 s" and ?d = "data OR push_bit i (if b then 1 else 0)"
  have bits: "bit ?d k = (if k = i then b else bit data k)" for k
    using Suc.prems(3,4) by (intro or_bit_at) auto
  have "\<forall>k\<ge>Suc i. \<not> bit ?d k" unfolding bits using Suc.prems(4) by auto
  then obtain h es bs w where IH: "read_byte_loop B n port (Suc i) m ?d ?s1 = Some (Inr (w, on_bus h es ?s1))"
    "length bs = m" "writes_at (base_of s Owr n + OWR_CSR) es = replicate m (slot_cmd port True)"
    "\<forall>k. bit w k = (if k < Suc i then bit ?d k else k < Suc i + m \<and> bs ! (k - Suc i))"
    using Suc.IH[of ?s1 "Suc i" ?d] Suc.prems(1-3) by auto
  have "read_byte_loop B n port i (Suc m) data s = Some (Inr (w, on_bus h (es1 @ es) s))"
    using r(1) IH(1) by (simp add: oc_owr_read_bit_def bnd_def)
  moreover have "bit w k = (if k < i then bit data k else k < i + Suc m \<and> (b # bs) ! (k - i))" for k
    using IH(4)[rule_format, of k] bits[of k] by (cases "k < i"; cases "k = i") (auto simp: nth_Cons')
  ultimately show ?case
    using r(2) IH(2,3) by (intro exI[of _ h] exI[of _ "es1 @ es"] exI[of _ "b # bs"] exI[of _ w]) auto
qed

text \<open>
  On a core whose cycles always end, \<^verbatim>\<open>read_byte\<close> issues eight read slots
  and assembles the bits it gets, the lowest first, into a value below 256.
\<close>

lemma read_byte_lsb_first:
  assumes "handle s Owr \<noteq> 0" and "settles B (base_of s Owr n + OWR_CSR) owr_cyc"
  shows "\<exists>h es bs w. read_byte B n port s = Some (Inr ((0, w), on_bus h es s)) \<and> length bs = 8 \<and>
    writes_at (base_of s Owr n + OWR_CSR) es = replicate 8 (slot_cmd port True) \<and>
    (\<forall>k. bit w k \<longleftrightarrow> k < 8 \<and> bs ! k)"
proof -
  obtain h es bs w where "read_byte_loop B n port 0 8 0 s = Some (Inr (w, on_bus h es s))" "length bs = 8"
    "writes_at (base_of s Owr n + OWR_CSR) es = replicate 8 (slot_cmd port True)"
    "\<forall>k. bit w k = (if k < 0 then bit (0::u32) k else k < 0 + 8 \<and> bs ! (k - 0))"
    using read_byte_loop_run[OF assms, of 0 8 0 port] by auto
  then show ?thesis
    by (intro exI[of _ h] exI[of _ es] exI[of _ bs] exI[of _ w]) (simp add: read_byte_def bnd_def)
qed

definition demo_owr :: "nat plat" where
  "demo_owr =
     \<lparr>bus_read = \<lambda>a h. (if 0 < h then OWR_CSR_CYC else 1, h - 1), bus_write = \<lambda>a v h. 2, mem_byte = \<lambda>a h. 0,
      mem_put = \<lambda>a v h. h, lay = demo_layout\<rparr>"

lemma demo_owr_settles: "settles demo_owr a owr_cyc"
  by (rule settles_countdown[where v = OWR_CSR_CYC and w = 1]) (simp_all add: demo_owr_def OWR_CSR_CYC_def)

lemma read_byte_lsb_first_witness:
  "\<exists>h es w. read_byte demo_owr 0 0 (demo_table Owr 0) = Some (Inr ((0, w), on_bus h es (demo_table Owr 0))) \<and>
     writes_at 0x100 es = replicate 8 9"
proof -
  have "handle (demo_table Owr 0) Owr \<noteq> 0" "base_of (demo_table Owr 0) Owr 0 + OWR_CSR = 0x100"
    "slot_cmd 0 True = 9"
    by (simp_all add: OWR_CSR_def slot_cmd_def OWR_CSR_SEL_def OWR_CSR_CYC_def)
  then show ?thesis using read_byte_lsb_first[OF _ demo_owr_settles, of "demo_table Owr 0" 0 0]
    by metis
qed

lemma write_byte_loop_run:
  assumes "handle s Owr \<noteq> 0" and "settles B (base_of s Owr n + OWR_CSR) owr_cyc"
    and "i + m \<le> 32" and "\<forall>k\<ge>i. \<not> bit data k"
  shows "\<exists>h es bs w. write_byte_loop B n port i m data byte s = Some (Inr (w, on_bus h es s)) \<and> length bs = m \<and>
    writes_at (base_of s Owr n + OWR_CSR) es = map (\<lambda>k. slot_cmd port (bit byte k)) [0..<m] \<and>
    (\<forall>k. bit w k = (if k < i then bit data k else k < i + m \<and> bs ! (k - i)))"
  using assms
proof (induction m arbitrary: i data byte s)
  case 0
  then show ?case by (auto intro!: exI[of _ "hw s"] exI[of _ "[]"])
next
  case (Suc m)
  obtain h1 es1 b where r: "oc_owr_slot B n port (byte AND 1) s
      = Some (Inr ((0, if b then 1 else 0), on_bus h1 es1 s))"
    "writes_at (base_of s Owr n + OWR_CSR) es1 = [slot_cmd port (bit (byte AND 1) 0)]"
    using oc_owr_slot_run[OF Suc.prems(1,2)] by blast
  let ?s1 = "on_bus h1 es1 s" and ?d = "data OR push_bit i (if b then 1 else 0)"
  have bits: "bit ?d k = (if k = i then b else bit data k)" for k
    using Suc.prems(3,4) by (intro or_bit_at) auto
  have "\<forall>k\<ge>Suc i. \<not> bit ?d k" unfolding bits using Suc.prems(4) by auto
  then obtain h es bs w where IH: "write_byte_loop B n port (Suc i) m ?d (drop_bit 1 byte) ?s1
      = Some (Inr (w, on_bus h es ?s1))"
    "length bs = m"
    "writes_at (base_of s Owr n + OWR_CSR) es = map (\<lambda>k. slot_cmd port (bit (drop_bit 1 byte) k)) [0..<m]"
    "\<forall>k. bit w k = (if k < Suc i then bit ?d k else k < Suc i + m \<and> bs ! (k - Suc i))"
    using Suc.IH[of ?s1 "Suc i" ?d "drop_bit 1 byte"] Suc.prems(1-3) by auto
  have "write_byte_loop B n port i (Suc m) data byte s = Some (Inr (w, on_bus h (es1 @ es) s))"
    using r(1) IH(1) by (simp add: oc_owr_write_bit_def bnd_def)
  moreover have "bit w k = (if k < i then bit data k else k < i + Suc m \<and> (b # bs) ! (k - i))" for k
    using IH(4)[rule_format, of k] bits[of k] by (cases "k < i"; cases "k = i") (auto simp: nth_Cons')
  moreover have "writes_at (base_of s Owr n + OWR_CSR) (es1 @ es)
      = map (\<lambda>k. slot_cmd port (bit byte k)) [0..<Suc m]"
    using r(2) IH(3)
    by (simp add: bit_and_iff bit_drop_bit_eq map_upt_Suc del: upt_Suc)
  ultimately show ?case
    using IH(2) by (intro exI[of _ h] exI[of _ "es1 @ es"] exI[of _ "b # bs"] exI[of _ w]) auto
qed

text \<open>
  \<^verbatim>\<open>write_byte\<close> sends the eight low bits of its argument, the lowest first, and
  returns 0 exactly when the eight bits read back make up the argument; for an argument of more
  than eight bits it always returns -1.
\<close>

lemma write_byte_lsb_first:
  assumes "handle s Owr \<noteq> 0" and "settles B (base_of s Owr n + OWR_CSR) owr_cyc"
  shows "\<exists>h es bs r. write_byte B n port byte s = Some (Inr (r, on_bus h es s)) \<and> length bs = 8 \<and>
    writes_at (base_of s Owr n + OWR_CSR) es = map (\<lambda>k. slot_cmd port (bit byte k)) [0..<8] \<and>
    (r = 0 \<longleftrightarrow> (\<forall>k. bit byte k \<longleftrightarrow> k < 8 \<and> bs ! k)) \<and> (r = 0 \<or> r = -1)"
proof -
  obtain h es bs w where w: "write_byte_loop B n port 0 8 0 byte s = Some (Inr (w, on_bus h es s))"
    "length bs = 8"
    "writes_at (base_of s Owr n + OWR_CSR) es = map (\<lambda>k. slot_cmd port (bit byte k)) [0..<8]"
    "\<forall>k. bit w k = (if k < 0 then bit (0::u32) k else k < 0 + 8 \<and> bs ! (k - 0))"
    using write_byte_loop_run[OF assms, of 0 8 0 port byte] by auto
  have "w = byte \<longleftrightarrow> (\<forall>k. bit byte k \<longleftrightarrow> k < 8 \<and> bs ! k)"
  proof
    assume "\<forall>k. bit byte k \<longleftrightarrow> k < 8 \<and> bs ! k"
    then show "w = byte" using w(4) by (intro bit_eqI) simp
  qed (use w(4) in auto)
  then show ?thesis using w(1-3)
    by (intro exI[of _ h] exI[of _ es] exI[of _ bs] exI[of _ "if w = byte then 0 else -1"])
      (simp add: write_byte_def bnd_def)
qed

lemma write_byte_lsb_first_witness:
  "\<exists>h es r. write_byte demo_owr 0 0 0x1FF (demo_table Owr 0) = Some (Inr (r, on_bus h es (demo_table Owr 0))) \<and>
     r = -1"
proof -
  have "handle (demo_table Owr 0) Owr \<noteq> 0" by simp
  from write_byte_lsb_first[OF this demo_owr_settles, of 0 0 "0x1FF"] obtain h es bs r where
    r: "write_byte demo_owr 0 0 0x1FF (demo_table Owr 0) = Some (Inr (r, on_bus h es (demo_table Owr 0)))"
    "r = 0 \<longleftrightarrow> (\<forall>k. bit (0x1FF::u32) k \<longleftrightarrow> k < 8 \<and> bs ! k)" "r = 0 \<or> r = -1"
    by (elim exE conjE)
  have "bit (0x1FF::u32) 8" by simp
  then have "r = -1" using r(2,3) by fastforce
  with r(1) show ?thesis by blast
qed

end
