(* ===== verification/Printf.thy ===== *)
theory Printf
  imports Machine "HOL-Library.Char_ord"
begin

text \<open>
  The formatter the firmware is built with, \<^verbatim>\<open>pp_printf/vsprintf-full.c\<close>, and the wrappers of
  \<^verbatim>\<open>pp_printf/printf.c\<close>. Characters written through the buffer pointer are the result; a C
  string is the list of its characters without the terminating zero.
\<close>

section \<open>Characters\<close>

definition NUL :: char where "NUL = CHR 0x00"

text \<open>\<^verbatim>\<open>*fmt\<close>: the end of the list is the terminating zero.\<close>

fun deref_char :: "string \<Rightarrow> char" where
  "deref_char [] = NUL"
| "deref_char (c # cs) = c"

definition is_digit :: "char \<Rightarrow> bool" where
  "is_digit c \<longleftrightarrow> CHR ''0'' \<le> c \<and> c \<le> CHR ''9''"

definition islower :: "char \<Rightarrow> bool" where
  "islower c \<longleftrightarrow> CHR ''a'' \<le> c \<and> c \<le> CHR ''z''"

definition isupper :: "char \<Rightarrow> bool" where
  "isupper c \<longleftrightarrow> CHR ''A'' \<le> c \<and> c \<le> CHR ''Z''"

definition isalpha :: "char \<Rightarrow> bool" where
  "isalpha c \<longleftrightarrow> islower c \<or> isupper c"

definition isalnum :: "char \<Rightarrow> bool" where
  "isalnum c \<longleftrightarrow> isalpha c \<or> is_digit c"

text \<open>A number stored into a \<^verbatim>\<open>char\<close> keeps its eight low bits.\<close>

definition to_char :: "u32 \<Rightarrow> char" where
  "to_char w = char_of (unat w)"

text \<open>\<^verbatim>\<open>skip_atoi\<close>: the value of the digits at the start, and what follows them.\<close>

fun skip_atoi :: "int \<Rightarrow> string \<Rightarrow> int \<times> string" where
  "skip_atoi i [] = (i, [])"
| "skip_atoi i (c # cs) =
     (if is_digit c then skip_atoi (i * 10 + int (of_char c) - 48) cs else (i, c # cs))"

section \<open>Decimal digits\<close>

text \<open>The digits come out with the least significant one first.\<close>

definition put_dec_trunc :: "u32 \<Rightarrow> string" where
  "put_dec_trunc q =
     (let d1 = drop_bit 4 q AND 0xf;
          d2 = drop_bit 8 q AND 0xf;
          d3 = drop_bit 12 q;
          d0 = 6 * (d3 + d2 + d1) + (q AND 0xf);
          q = drop_bit 11 (d0 * 0xcd);
          d0 = d0 - 10 * q;
          d1 = q + 9 * d3 + 5 * d2 + d1
      in to_char (d0 + 48) #
         (if d1 \<noteq> 0 then
            (let q = drop_bit 11 (d1 * 0xcd);
                 d1 = d1 - 10 * q;
                 d2 = q + 2 * d2
             in to_char (d1 + 48) #
                (if d2 \<noteq> 0 \<or> d3 \<noteq> 0 then
                   (let q = drop_bit 7 (d2 * 0xd);
                        d2 = d2 - 10 * q;
                        d3 = q + 4 * d3
                    in to_char (d2 + 48) #
                       (if d3 \<noteq> 0 then
                          (let q = drop_bit 11 (d3 * 0xcd);
                               d3 = d3 - 10 * q
                           in to_char (d3 + 48) # (if q \<noteq> 0 then [to_char (q + 48)] else []))
                        else []))
                 else []))
          else []))"

definition put_dec_full :: "u32 \<Rightarrow> string" where
  "put_dec_full q =
     (let d1 = drop_bit 4 q AND 0xf;
          d2 = drop_bit 8 q AND 0xf;
          d3 = drop_bit 12 q;
          d0 = 6 * (d3 + d2 + d1) + (q AND 0xf);
          q = drop_bit 11 (d0 * 0xcd);
          c0 = to_char (d0 - 10 * q + 48);
          d1 = q + 9 * d3 + 5 * d2 + d1;
          q = drop_bit 11 (d1 * 0xcd);
          c1 = to_char (d1 - 10 * q + 48);
          d2 = q + 2 * d2;
          q = drop_bit 7 (d2 * 0xd);
          c2 = to_char (d2 - 10 * q + 48);
          d3 = q + 4 * d3;
          q = drop_bit 11 (d3 * 0xcd);
          c3 = to_char (d3 - 10 * q + 48)
      in [c0, c1, c2, c3, to_char (q + 48)])"

function put_dec :: "u32 \<Rightarrow> string" where
  "put_dec num =
     (if num < 100000 then put_dec_trunc num
      else put_dec_full (num mod 100000) @ put_dec (num div 100000))"
  by auto
termination
proof (relation "measure unat")
  fix num :: u32
  assume "\<not> num < 100000"
  then have "100000 \<le> unat num" by (simp add: word_less_nat_alt)
  moreover have "unat num div 100000 < unat num" using calculation by (intro div_less_dividend) auto
  ultimately show "(num div 100000, num) \<in> measure unat" by (simp add: unat_div)
qed simp

section \<open>Numbers\<close>

definition ZEROPAD :: u32 where "ZEROPAD = 1"
definition SIGN :: u32 where "SIGN = 2"
definition PLUS :: u32 where "PLUS = 4"
definition SPACE :: u32 where "SPACE = 8"
definition LEFT :: u32 where "LEFT = 16"
definition SMALL :: u32 where "SMALL = 32"
definition SPECIAL :: u32 where "SPECIAL = 64"

definition digits :: string where "digits = ''0123456789ABCDEF''"

text \<open>\<^verbatim>\<open>digits[d] | locase\<close>.\<close>

definition digit_char :: "u32 \<Rightarrow> u32 \<Rightarrow> char" where
  "digit_char locase d = to_char (of_nat (of_char (digits ! unat d)) OR locase)"

text \<open>The loop for the bases 8 and 16, from a number that is not zero.\<close>

function put_pow2 :: "u32 \<Rightarrow> u32 \<Rightarrow> nat \<Rightarrow> u32 \<Rightarrow> string" where
  "put_pow2 locase msk shift num =
     digit_char locase (num AND 0xff AND msk) #
     (if shift = 0 \<or> drop_bit shift num = 0 then [] else put_pow2 locase msk shift (drop_bit shift num))"
  by auto
termination
proof (relation "measure (\<lambda>(_, _, _, num). unat num)")
  fix locase msk num :: u32 and shift :: nat
  assume a: "\<not> (shift = 0 \<or> drop_bit shift num = 0)"
  then have "num \<noteq> 0" by auto
  then have "0 < unat num" by (simp add: unat_gt_0)
  moreover have "(2::nat) ^ shift \<ge> 2" using a by (cases shift) auto
  ultimately have "unat num div 2 ^ shift < unat num" by (intro div_less_dividend) auto
  then have "unat (drop_bit shift num) < unat num" by (simp only: unat_drop_bit)
  then show "((locase, msk, shift, drop_bit shift num), locase, msk, shift, num)
      \<in> measure (\<lambda>(_, _, _, num). unat num)"
    by (simp only: in_measure case_prod_conv)
qed simp

text \<open>\<^verbatim>\<open>while (--size >= 0) *buf++ = c;\<close>, with the value \<^verbatim>\<open>size\<close> has afterwards.\<close>

function pad_loop :: "char \<Rightarrow> int \<Rightarrow> string \<times> int" where
  "pad_loop c sz =
     (if 0 \<le> sz - 1 then (let r = pad_loop c (sz - 1) in (c # fst r, snd r)) else ([], sz - 1))"
  by auto
termination by (relation "measure (\<lambda>(_, sz). nat sz)") auto

definition number_sign :: "u32 \<Rightarrow> u32 \<Rightarrow> string" where
  "number_sign type num =
     (if type AND SIGN = 0 then []
      else if sint num < 0 then ''-''
      else if type AND PLUS \<noteq> 0 then ''+''
      else if type AND SPACE \<noteq> 0 then '' '' else [])"

text \<open>The characters of \<^verbatim>\<open>tmp\<close>, in the reverse order of the digits.\<close>

definition number_tmp :: "u32 \<Rightarrow> u32 \<Rightarrow> u32 \<Rightarrow> string" where
  "number_tmp locase base num =
     (if num = 0 then ''0''
      else if base \<noteq> 10 then put_pow2 locase (base - 1) (if base = 16 then 4 else 3) num
      else put_dec num)"

text \<open>The writes to the buffer: \<open>sz\<close> is the padding that is left.\<close>

definition number_fill :: "u32 \<Rightarrow> int \<Rightarrow> string \<Rightarrow> string \<Rightarrow> string" where
  "number_fill type sz front body =
     (let p1 = (if type AND (ZEROPAD + LEFT) = 0 then pad_loop (CHR '' '') sz else ([], sz));
          p2 = (if type AND LEFT = 0
                then pad_loop (if type AND ZEROPAD \<noteq> 0 then CHR ''0'' else CHR '' '') (snd p1)
                else ([], snd p1));
          p3 = pad_loop (CHR '' '') (snd p2)
      in fst p1 @ front @ fst p2 @ body @ fst p3)"

definition number :: "u32 \<Rightarrow> u32 \<Rightarrow> int \<Rightarrow> int \<Rightarrow> u32 \<Rightarrow> string" where
  "number num base sz precision type =
     (let need_pfx = (type AND SPECIAL \<noteq> 0 \<and> base \<noteq> 10);
          locase = type AND SMALL;
          type = (if type AND LEFT \<noteq> 0 then type AND NOT ZEROPAD else type);
          sign = number_sign type num;
          num = (if type AND SIGN \<noteq> 0 \<and> sint num < 0 then - num else num);
          sz = (if sign \<noteq> [] then sz - 1 else sz);
          sz = (if need_pfx then (if base = 16 then sz - 1 - 1 else sz - 1) else sz);
          tmp = number_tmp locase base num;
          i = int (length tmp);
          precision = (if precision < i then i else precision);
          pfx = (if need_pfx then CHR ''0'' # (if base = 16 then [to_char (0x58 OR locase)] else []) else []);
          zeros = replicate (nat (precision - i)) (CHR ''0'')
      in number_fill type (sz - precision) (sign @ pfx) (zeros @ rev tmp))"

section \<open>Strings and pointers\<close>

text \<open>\<^verbatim>\<open>while (len < field_width--) *buf++ = ' ';\<close>, with the value of \<^verbatim>\<open>field_width\<close> afterwards.\<close>

function width_loop :: "int \<Rightarrow> int \<Rightarrow> string \<times> int" where
  "width_loop len fw =
     (if len < fw then (let r = width_loop len (fw - 1) in (CHR '' '' # fst r, snd r)) else ([], fw - 1))"
  by auto
termination by (relation "measure (\<lambda>(len, fw). nat (fw - len))") auto

text \<open>\<^verbatim>\<open>strnlen(s, precision)\<close> takes the precision -1 as the largest size.\<close>

definition strnlen :: "string \<Rightarrow> int \<Rightarrow> nat" where
  "strnlen s precision = (if precision < 0 then length s else min (length s) (nat precision))"

definition string_out :: "string option \<Rightarrow> int \<Rightarrow> int \<Rightarrow> u32 \<Rightarrow> string" where
  "string_out s field_width precision flags =
     (let s = (case s of None \<Rightarrow> ''<NULL>'' | Some s \<Rightarrow> s);
          len = strnlen s precision;
          p1 = (if flags AND LEFT = 0 then width_loop (int len) field_width else ([], field_width));
          p2 = width_loop (int len) (snd p1)
      in fst p1 @ take len s @ fst p2)"

text \<open>
  The network address conversions, built with \<^verbatim>\<open>CONFIG_CMD_NET\<close>; \<open>mem\<close> is the memory the
  argument points into.
\<close>

definition hex_asc :: string where "hex_asc = ''0123456789abcdef''"

definition pack_hex_byte :: "u8 \<Rightarrow> string" where
  "pack_hex_byte b = [hex_asc ! unat (drop_bit 4 (b AND 0xf0)), hex_asc ! unat (b AND 0x0f)]"

definition mac_address_string :: "(u32 \<Rightarrow> u8) \<Rightarrow> u32 \<Rightarrow> int \<Rightarrow> int \<Rightarrow> u32 \<Rightarrow> string" where
  "mac_address_string mem a field_width precision flags =
     string_out
       (Some (concat (map (\<lambda>i. pack_hex_byte (mem (a + of_nat i)) @
                (if flags AND SPECIAL = 0 \<and> i \<noteq> 5 then '':'' else [])) [0..<6])))
       field_width precision (flags AND NOT SPECIAL)"

definition ip6_addr_string :: "(u32 \<Rightarrow> u8) \<Rightarrow> u32 \<Rightarrow> int \<Rightarrow> int \<Rightarrow> u32 \<Rightarrow> string" where
  "ip6_addr_string mem a field_width precision flags =
     string_out
       (Some (concat (map (\<lambda>i. pack_hex_byte (mem (a + of_nat (2 * i))) @
                pack_hex_byte (mem (a + of_nat (2 * i + 1))) @
                (if flags AND SPECIAL = 0 \<and> i \<noteq> 7 then '':'' else [])) [0..<8])))
       field_width precision (flags AND NOT SPECIAL)"

definition ip4_addr_string :: "(u32 \<Rightarrow> u8) \<Rightarrow> u32 \<Rightarrow> int \<Rightarrow> int \<Rightarrow> u32 \<Rightarrow> string" where
  "ip4_addr_string mem a field_width precision flags =
     string_out
       (Some (concat (map (\<lambda>i. rev (put_dec_trunc (ucast (mem (a + of_nat i)))) @
                (if i \<noteq> 3 then ''.'' else [])) [0..<4])))
       field_width precision (flags AND NOT SPECIAL)"

text \<open>The build: whether \<^verbatim>\<open>CONFIG_CMD_NET\<close> is defined, and the memory.\<close>

record pconf =
  cmd_net :: bool
  mem :: "u32 \<Rightarrow> u8"

definition pointer_num :: "u32 \<Rightarrow> int \<Rightarrow> int \<Rightarrow> u32 \<Rightarrow> string" where
  "pointer_num ptr field_width precision flags =
     (let flags = flags OR SMALL
      in if field_width = -1 then number ptr 16 (2 * 4) precision (flags OR ZEROPAD)
         else number ptr 16 field_width precision flags)"

definition pointer_out :: "pconf \<Rightarrow> string \<Rightarrow> u32 \<Rightarrow> int \<Rightarrow> int \<Rightarrow> u32 \<Rightarrow> string" where
  "pointer_out K fmt ptr field_width precision flags =
     (if ptr = 0 then string_out (Some ''(null)'') field_width precision flags
      else if cmd_net K \<and> deref_char fmt \<in> {CHR ''m'', CHR ''M''} then
        mac_address_string (mem K) ptr field_width precision
          (if deref_char fmt = CHR ''m'' then flags OR SPECIAL else flags)
      else if cmd_net K \<and> deref_char fmt \<in> {CHR ''i'', CHR ''I''} then
        (let flags = (if deref_char fmt = CHR ''i'' then flags OR SPECIAL else flags)
         in if deref_char (tl fmt) = CHR ''6'' then ip6_addr_string (mem K) ptr field_width precision flags
            else if deref_char (tl fmt) = CHR ''4'' then ip4_addr_string (mem K) ptr field_width precision flags
            else pointer_num ptr field_width precision (flags AND NOT SPECIAL))
      else pointer_num ptr field_width precision flags)"

section \<open>The format string\<close>

text \<open>
  Reading an argument that is not there, or of another kind than the conversion asks for, has
  no defined result; the same goes for a division by zero and an access outside an array.
\<close>

datatype perr = MissingArg | BadArg | DivByZero | OutOfBounds

type_synonym 'a presult = "perr + 'a"

fun pbind :: "'a presult \<Rightarrow> ('a \<Rightarrow> 'b presult) \<Rightarrow> 'b presult" where
  "pbind (Inl e) f = Inl e"
| "pbind (Inr a) f = f a"

lemma pbind_cong [fundef_cong]:
  "m = m' \<Longrightarrow> (\<And>a. m' = Inr a \<Longrightarrow> f a = f' a) \<Longrightarrow> pbind m f = pbind m' f'"
  by (cases m') auto

fun va_num :: "arg list \<Rightarrow> (u32 \<times> arg list) presult" where
  "va_num [] = Inl MissingArg"
| "va_num (Num w # args) = Inr (w, args)"
| "va_num (Str _ # args) = Inl BadArg"

fun va_str :: "arg list \<Rightarrow> (string option \<times> arg list) presult" where
  "va_str [] = Inl MissingArg"
| "va_str (Num w # args) = (if w = 0 then Inr (None, args) else Inl BadArg)"
| "va_str (Str bs # args) = Inr (Some (map (\<lambda>b. char_of (unat b)) bs), args)"

text \<open>The flags, from the character after the percent sign.\<close>

fun get_flags :: "u32 \<Rightarrow> string \<Rightarrow> u32 \<times> string" where
  "get_flags flags [] = (flags, [])"
| "get_flags flags (c # cs) =
     (if c = CHR ''-'' then get_flags (flags OR LEFT) cs
      else if c = CHR ''+'' then get_flags (flags OR PLUS) cs
      else if c = CHR '' '' then get_flags (flags OR SPACE) cs
      else if c = CHR ''#'' then get_flags (flags OR SPECIAL) cs
      else if c = CHR ''0'' then get_flags (flags OR ZEROPAD) cs
      else (flags, c # cs))"

definition get_width :: "u32 \<Rightarrow> string \<Rightarrow> arg list \<Rightarrow> (int \<times> u32 \<times> string \<times> arg list) presult" where
  "get_width flags fmt args =
     (if is_digit (deref_char fmt) then (let r = skip_atoi 0 fmt in Inr (fst r, flags, snd r, args))
      else if deref_char fmt = CHR ''*'' then
        pbind (va_num args) (\<lambda>(w, args).
          Inr (\<bar>sint w\<bar>, (if sint w < 0 then flags OR LEFT else flags), tl fmt, args))
      else Inr (-1, flags, fmt, args))"

definition get_precision :: "string \<Rightarrow> arg list \<Rightarrow> (int \<times> string \<times> arg list) presult" where
  "get_precision fmt args =
     (if deref_char fmt = CHR ''.'' then
        (let fmt = tl fmt
         in if is_digit (deref_char fmt) then (let r = skip_atoi 0 fmt in Inr (max 0 (fst r), snd r, args))
            else if deref_char fmt = CHR ''*'' then
              pbind (va_num args) (\<lambda>(w, args). Inr (max 0 (sint w), tl fmt, args))
            else Inr (0, fmt, args))
      else Inr (-1, fmt, args))"

definition get_qualifier :: "string \<Rightarrow> char option \<times> string" where
  "get_qualifier fmt =
     (if deref_char fmt \<in> set ''hlLZzt'' then
        (if deref_char fmt = CHR ''l'' \<and> deref_char (tl fmt) = CHR ''l''
         then (Some (CHR ''L''), tl (tl fmt)) else (Some (deref_char fmt), tl fmt))
      else (None, fmt))"

text \<open>\<^verbatim>\<open>while (--field_width > 0) *str++ = ' ';\<close>, with the value of \<^verbatim>\<open>field_width\<close> afterwards.\<close>

function char_loop :: "int \<Rightarrow> string \<times> int" where
  "char_loop fw =
     (if 0 < fw - 1 then (let r = char_loop (fw - 1) in (CHR '' '' # fst r, snd r)) else ([], fw - 1))"
  by auto
termination by (relation "measure nat") auto

definition char_out :: "char \<Rightarrow> int \<Rightarrow> u32 \<Rightarrow> string" where
  "char_out c field_width flags =
     (let p1 = (if flags AND LEFT = 0 then char_loop field_width else ([], field_width))
      in fst p1 @ [c] @ fst (char_loop (snd p1)))"

text \<open>
  The integer argument: \<^verbatim>\<open>h\<close> keeps its low half, sign-extended for the signed conversions. On
  the 32-bit target the other qualifiers read the same word.
\<close>

definition arg_value :: "char option \<Rightarrow> u32 \<Rightarrow> u32 \<Rightarrow> u32" where
  "arg_value q flags w =
     (if q = Some (CHR ''h'') then
        (if flags AND SIGN \<noteq> 0 then scast (ucast w :: u16) else ucast (ucast w :: u16))
      else w)"

text \<open>
  The conversion at \<^verbatim>\<open>*fmt\<close>: the characters it writes, the word it stores through its argument,
  the rest of the format and of the arguments. \<open>n\<close> characters have been written before.
\<close>

definition conversion ::
  "pconf \<Rightarrow> nat \<Rightarrow> u32 \<Rightarrow> int \<Rightarrow> int \<Rightarrow> char option \<Rightarrow> string \<Rightarrow> arg list \<Rightarrow>
   (string \<times> (u32 \<times> u32) list \<times> string \<times> arg list) presult" where
  "conversion K n flags field_width precision q fmt args =
     (let c = deref_char fmt; rest = tl fmt;
          num = (\<lambda>base flags. pbind (va_num args) (\<lambda>(w, args).
            Inr (number (arg_value q flags w) base field_width precision flags, [], rest, args)))
      in if c = CHR ''c'' then
           pbind (va_num args) (\<lambda>(w, args). Inr (char_out (to_char w) field_width flags, [], rest, args))
         else if c = CHR ''s'' then
           pbind (va_str args) (\<lambda>(s, args). Inr (string_out s field_width precision flags, [], rest, args))
         else if c = CHR ''p'' then
           pbind (va_num args) (\<lambda>(w, args).
             Inr (pointer_out K rest w field_width precision flags, [], dropWhile isalnum rest, args))
         else if c = CHR ''n'' then
           pbind (va_num args) (\<lambda>(w, args). Inr ([], [(w, of_nat n)], rest, args))
         else if c = CHR ''%'' then Inr (''%'', [], rest, args)
         else if c = CHR ''o'' then num 8 flags
         else if c = CHR ''x'' then num 16 (flags OR SMALL)
         else if c = CHR ''X'' then num 16 flags
         else if c = CHR ''d'' \<or> c = CHR ''i'' then num 10 (flags OR SIGN)
         else if c = CHR ''u'' then num 10 flags
         else if fmt = [] then Inr (''%'', [], [], args)
         else Inr ([CHR ''%'', c], [], rest, args))"

definition directive ::
  "pconf \<Rightarrow> nat \<Rightarrow> string \<Rightarrow> arg list \<Rightarrow> (string \<times> (u32 \<times> u32) list \<times> string \<times> arg list) presult" where
  "directive K n fmt args =
     (case get_flags 0 fmt of (flags, fmt) \<Rightarrow>
      pbind (get_width flags fmt args) (\<lambda>(field_width, flags, fmt, args).
      pbind (get_precision fmt args) (\<lambda>(precision, fmt, args).
      case get_qualifier fmt of (q, fmt) \<Rightarrow> conversion K n flags field_width precision q fmt args)))"

lemma skip_atoi_length: "length (snd (skip_atoi i fmt)) \<le> length fmt"
  by (induction i fmt rule: skip_atoi.induct) auto

lemma get_flags_length: "length (snd (get_flags flags fmt)) \<le> length fmt"
  by (induction flags fmt rule: get_flags.induct) auto

lemma get_width_length:
  "get_width flags fmt args = Inr (w, flags', fmt', args') \<Longrightarrow> length fmt' \<le> length fmt"
  using skip_atoi_length[of 0 fmt]
  by (cases "va_num args") (auto simp: get_width_def Let_def split: if_splits)

lemma get_precision_length:
  "get_precision fmt args = Inr (p, fmt', args') \<Longrightarrow> length fmt' \<le> length fmt"
  using skip_atoi_length[of 0 "tl fmt"]
  by (cases "va_num args") (auto simp: get_precision_def Let_def split: if_splits)

lemma get_qualifier_length: "get_qualifier fmt = (q, fmt') \<Longrightarrow> length fmt' \<le> length fmt"
  by (auto simp: get_qualifier_def split: if_splits)

lemma conversion_length:
  "conversion K n flags w p q fmt args = Inr (o1, st, fmt', args') \<Longrightarrow> length fmt' \<le> length fmt"
  using length_dropWhile_le[of isalnum "tl fmt"]
  by (cases "va_num args"; cases "va_str args") (auto simp: conversion_def Let_def split: if_splits)

lemma pbind_Inr_iff: "pbind m f = Inr r \<longleftrightarrow> (\<exists>a. m = Inr a \<and> f a = Inr r)"
  by (cases m) auto

lemma directive_length:
  assumes "directive K n fmt args = Inr (o1, st, fmt', args')"
  shows "length fmt' \<le> length fmt"
proof -
  obtain fl f0 where g: "get_flags 0 fmt = (fl, f0)" by fastforce
  obtain w fl1 f1 a1 p f2 a2 where w: "get_width fl f0 args = Inr (w, fl1, f1, a1)"
    and p: "get_precision f1 a1 = Inr (p, f2, a2)"
    and r: "(case get_qualifier f2 of (q, f) \<Rightarrow> conversion K n fl1 w p q f a2)
      = Inr (o1, st, fmt', args')"
    using assms by (auto simp: directive_def g pbind_Inr_iff)
  obtain q f3 where q: "get_qualifier f2 = (q, f3)" by fastforce
  have "length fmt' \<le> length f3" using r q conversion_length by simp
  moreover have "length f0 \<le> length fmt" using get_flags_length[of 0 fmt] g by simp
  ultimately show ?thesis
    using get_width_length[OF w] get_precision_length[OF p] get_qualifier_length[OF q] by linarith
qed

function (sequential) vsprintf_loop ::
  "pconf \<Rightarrow> string \<Rightarrow> string \<Rightarrow> arg list \<Rightarrow> (string \<times> (u32 \<times> u32) list) presult" where
  "vsprintf_loop K str [] args = Inr (str, [])"
| "vsprintf_loop K str (c # fmt) args =
     (if c \<noteq> CHR ''%'' then vsprintf_loop K (str @ [c]) fmt args
      else pbind (directive K (length str) fmt args) (\<lambda>(o1, st, fmt', args').
           pbind (vsprintf_loop K (str @ o1) fmt' args') (\<lambda>(r, sts). Inr (r, st @ sts))))"
  by pat_completeness auto
termination
  by (relation "measure (\<lambda>(_, _, fmt, _). length fmt)") (auto dest!: directive_length)

text \<open>
  The formatted text, the words stored by \<^verbatim>\<open>%n\<close> as pairs of address and value, and the number
  the function returns.
\<close>

definition pp_vsprintf_stores ::
  "pconf \<Rightarrow> string \<Rightarrow> arg list \<Rightarrow> (string \<times> (u32 \<times> u32) list \<times> int) presult" where
  "pp_vsprintf_stores K fmt args =
     pbind (vsprintf_loop K [] fmt args) (\<lambda>(str, sts). Inr (str, sts, int (length str)))"

definition pp_vsprintf :: "pconf \<Rightarrow> string \<Rightarrow> arg list \<Rightarrow> (string \<times> int) presult" where
  "pp_vsprintf K fmt args =
     pbind (pp_vsprintf_stores K fmt args) (\<lambda>(str, sts, n). Inr (str, n))"

section \<open>The smaller formatters\<close>

text \<open>
  The other implementations of \<^verbatim>\<open>pp_vsprintf\<close> that the build can choose. They follow string
  pointers without a test.
\<close>

fun va_cstr :: "arg list \<Rightarrow> (string \<times> arg list) presult" where
  "va_cstr [] = Inl MissingArg"
| "va_cstr (Num w # args) = Inl BadArg"
| "va_cstr (Str bs # args) = Inr (map (\<lambda>b. char_of (unat b)) bs, args)"

definition hex :: string where "hex = ''0123456789abcdef''"

subsection \<open>\<^verbatim>\<open>vsprintf-xint.c\<close>\<close>

text \<open>The digit loop: \<open>tmp\<close> holds the characters from index \<open>i\<close> on.\<close>

fun xint_digits :: "nat \<Rightarrow> u32 \<Rightarrow> u32 \<Rightarrow> string \<Rightarrow> string presult" where
  "xint_digits 0 base value tmp = Inr tmp"
| "xint_digits (Suc i) base value tmp =
     (if value = 0 then Inr tmp
      else if base = 0 then Inl DivByZero
      else if 16 < value mod base then Inl OutOfBounds
      else xint_digits i base (value div base) ((hex @ [NUL]) ! unat (value mod base) # tmp))"

definition xint_number :: "u32 \<Rightarrow> u32 \<Rightarrow> char \<Rightarrow> nat \<Rightarrow> string presult" where
  "xint_number value base lead wid =
     (let negative = (sint value < 0 \<and> base = 10);
          value = (if negative then - value else value)
      in pbind (xint_digits 16 base value []) (\<lambda>tmp.
           let tmp = (if tmp = [] then ''0'' else tmp);
               tmp = (if negative \<and> lead = CHR '' '' then CHR ''-'' # tmp else tmp);
               negative = (negative \<and> lead \<noteq> CHR '' '');
               wid = (if negative then wid - 1 else wid);
               tmp = replicate (wid - length tmp) lead @ tmp
           in Inr (if negative then CHR ''-'' # tmp else tmp)))"

fun xint_spec :: "u32 \<Rightarrow> char \<Rightarrow> nat \<Rightarrow> string \<Rightarrow> arg list \<Rightarrow> (string \<times> string \<times> arg list) presult" where
  "xint_spec base lead wid [] args = Inr ([], [], args)"
| "xint_spec base lead wid (c # fmt) args =
     (let num = (\<lambda>base. pbind (va_num args) (\<lambda>(w, args).
                   pbind (xint_number w base lead wid) (\<lambda>o1. Inr (o1, fmt, args))))
      in if c = CHR ''0'' then xint_spec base (CHR ''0'') wid fmt args
         else if c = CHR ''*'' then pbind (va_num args) (\<lambda>(w, args). xint_spec w lead wid fmt args)
         else if c = CHR ''c'' then pbind (va_num args) (\<lambda>(w, args). Inr ([to_char w], fmt, args))
         else if c = CHR ''s'' then pbind (va_cstr args) (\<lambda>(s, args). Inr (s, fmt, args))
         else if c = CHR ''n'' then Inr ([], fmt, args)
         else if c = CHR ''%'' then Inr (''%'', fmt, args)
         else if c = CHR ''p'' \<or> c = CHR ''x'' \<or> c = CHR ''X'' then num 16
         else if c = CHR ''o'' then num (if base = 10 then 8 else base)
         else if c = CHR ''d'' \<or> c = CHR ''i'' \<or> c = CHR ''u'' then num base
         else xint_spec base lead
                (if CHR ''1'' \<le> c \<and> c \<le> CHR ''9'' then of_char c - 48 else wid) fmt args)"

lemma xint_spec_length:
  "xint_spec base lead wid fmt args = Inr (o1, fmt', args') \<Longrightarrow> length fmt' \<le> length fmt"
proof (induction fmt arbitrary: base lead wid args)
  case (Cons c fmt)
  from Cons.prems have "fmt' = fmt \<or> (\<exists>b l w a. xint_spec b l w fmt a = Inr (o1, fmt', args'))"
    by (auto simp: pbind_Inr_iff Let_def split: if_split_asm)
  then show ?case using Cons.IH by fastforce
qed simp

function (sequential) vsprintf_xint_loop :: "string \<Rightarrow> arg list \<Rightarrow> string presult" where
  "vsprintf_xint_loop [] args = Inr []"
| "vsprintf_xint_loop (c # fmt) args =
     (if c \<noteq> CHR ''%'' then pbind (vsprintf_xint_loop fmt args) (\<lambda>r. Inr (c # r))
      else pbind (xint_spec 10 (CHR '' '') 1 fmt args) (\<lambda>(o1, fmt', args').
           pbind (vsprintf_xint_loop fmt' args') (\<lambda>r. Inr (o1 @ r))))"
  by pat_completeness auto
termination
  by (relation "measure (\<lambda>(fmt, _). length fmt)") (auto dest!: xint_spec_length)

definition pp_vsprintf_xint :: "string \<Rightarrow> arg list \<Rightarrow> (string \<times> int) presult" where
  "pp_vsprintf_xint fmt args =
     pbind (vsprintf_xint_loop fmt args) (\<lambda>str. Inr (str, int (length str)))"

subsection \<open>\<^verbatim>\<open>vsprintf-mini.c\<close>\<close>

text \<open>
  The eight nibbles, the highest first. The shift in C is arithmetic, but the four bits kept
  are the same.
\<close>

definition mini_hex :: "u32 \<Rightarrow> string" where
  "mini_hex i =
     CHR ''<'' # map (\<lambda>j. hex ! unat (drop_bit j i AND 0xf)) [28, 24, 20, 16, 12, 8, 4, 0] @ ''>''"

fun mini_spec :: "string \<Rightarrow> arg list \<Rightarrow> (string \<times> string \<times> arg list) presult" where
  "mini_spec [] args = Inr ([], [], args)"
| "mini_spec (c # fmt) args =
     (if c = CHR ''*'' then pbind (va_num args) (\<lambda>(w, args). mini_spec fmt args)
      else if c = CHR ''c'' then pbind (va_num args) (\<lambda>(w, args). Inr ([to_char w], fmt, args))
      else if c = CHR ''s'' then pbind (va_cstr args) (\<lambda>(s, args). Inr (s, fmt, args))
      else if c = CHR ''n'' then Inr ([], fmt, args)
      else if c = CHR ''%'' then Inr (''%'', fmt, args)
      else if c \<in> set ''oxXdiup'' then pbind (va_num args) (\<lambda>(w, args). Inr (mini_hex w, fmt, args))
      else mini_spec fmt args)"

lemma mini_spec_length:
  "mini_spec fmt args = Inr (o1, fmt', args') \<Longrightarrow> length fmt' \<le> length fmt"
proof (induction fmt arbitrary: args)
  case (Cons c fmt)
  from Cons.prems have "fmt' = fmt \<or> (\<exists>a. mini_spec fmt a = Inr (o1, fmt', args'))"
    by (auto simp: pbind_Inr_iff Let_def split: if_split_asm)
  then show ?case using Cons.IH by fastforce
qed simp

function (sequential) vsprintf_mini_loop :: "string \<Rightarrow> arg list \<Rightarrow> string presult" where
  "vsprintf_mini_loop [] args = Inr []"
| "vsprintf_mini_loop (c # fmt) args =
     (if c \<noteq> CHR ''%'' then pbind (vsprintf_mini_loop fmt args) (\<lambda>r. Inr (c # r))
      else pbind (mini_spec fmt args) (\<lambda>(o1, fmt', args').
           pbind (vsprintf_mini_loop fmt' args') (\<lambda>r. Inr (o1 @ r))))"
  by pat_completeness auto
termination
  by (relation "measure (\<lambda>(fmt, _). length fmt)") (auto dest!: mini_spec_length)

definition pp_vsprintf_mini :: "string \<Rightarrow> arg list \<Rightarrow> (string \<times> int) presult" where
  "pp_vsprintf_mini fmt args =
     pbind (vsprintf_mini_loop fmt args) (\<lambda>str. Inr (str, int (length str)))"

subsection \<open>\<^verbatim>\<open>vsprintf-none.c\<close>\<close>

text \<open>The pointer is past the terminating zero when the length is taken.\<close>

definition pp_vsprintf_none :: "string \<Rightarrow> arg list \<Rightarrow> (string \<times> int) presult" where
  "pp_vsprintf_none fmt args = Inr (fmt, int (length (fmt @ [NUL])))"

end
