(* ===== verification/Printf_Correct.thy ===== *)
theory Printf_Correct
  imports Printf
begin

text \<open>
  The number conversions of the formatter: the digit tricks of \<^verbatim>\<open>put_dec\<close> give the decimal
  digits, a field is laid out as specified for every width, precision and flag, and a printed
  number reads back.
\<close>

section \<open>Decimal digits\<close>

text \<open>
  The digits of a number in base \<open>b\<close>, the least significant first and without leading zeros,
  each written by \<open>f\<close>.
\<close>

function rep_rev :: "nat \<Rightarrow> (nat \<Rightarrow> char) \<Rightarrow> nat \<Rightarrow> string" where
  "rep_rev b f n = f (n mod b) # (if b < 2 \<or> n div b = 0 then [] else rep_rev b f (n div b))"
  by auto
termination
  by (relation "measure (\<lambda>(_, _, n). n)") (auto simp: div_greater_zero_iff intro!: div_less_dividend)

declare rep_rev.simps [simp del]

definition dec_digit :: "nat \<Rightarrow> char" where "dec_digit d = char_of (d + 48)"

abbreviation dec_rev :: "nat \<Rightarrow> string" where "dec_rev \<equiv> rep_rev 10 dec_digit"

lemma dec_rev_simps: "dec_rev n = dec_digit (n mod 10) # (if n div 10 = 0 then [] else dec_rev (n div 10))"
  by (subst rep_rev.simps) simp

lemma dec_rev_step: "n div 10 \<noteq> 0 \<Longrightarrow> dec_rev n = dec_digit (n mod 10) # dec_rev (n div 10)"
  by (subst dec_rev_simps) simp

lemma dec_rev_last: "n < 10 \<Longrightarrow> dec_rev n = [dec_digit n]"
  by (subst dec_rev_simps) simp

lemma drop_bit_of_nat:
  assumes "x < 2 ^ 32" shows "drop_bit k (of_nat x :: u32) = of_nat (x div 2 ^ k)"
proof (rule word_unat_eq_iff[THEN iffD2])
  have "x div 2 ^ k < 2 ^ 32" using assms div_le_dividend[of x "2 ^ k"] by linarith
  then show "unat (drop_bit k (of_nat x :: u32)) = unat (of_nat (x div 2 ^ k) :: u32)"
    unfolding unat_drop_bit using assms by (simp add: unat_of_nat_small)
qed

lemma decomp10:
  fixes x :: nat
  obtains k r where "x = 10 * k + r" "r \<le> 9" "x div 10 = k"
proof -
  have "x mod 10 < 10" by simp
  then show ?thesis using that[of "x div 10" "x mod 10"] by simp
qed

text \<open>The two multiplications that stand for a division by ten, in their ranges.\<close>

lemma div_cd:
  assumes "x \<le> 400" shows "drop_bit 11 (of_nat x * 0xcd :: u32) = of_nat (x div 10)"
proof -
  obtain k r where x: "x = 10 * k + r" "r \<le> 9" "x div 10 = k"
    by (rule decomp10)
  have "2048 * k \<le> x * 205" "x * 205 < 2048 * k + 2048" using x(1,2) assms by linarith+
  then have d: "(x * 205) div 2048 = x div 10" unfolding x(3) by (intro div_nat_eqI) simp_all
  have "drop_bit 11 (of_nat (x * 205) :: u32) = of_nat ((x * 205) div 2 ^ 11)"
    using assms by (intro drop_bit_of_nat) simp
  then show ?thesis using d by (simp only: of_nat_mult of_nat_numeral power_numeral) simp
qed

lemma div_d:
  assumes "x \<le> 63" shows "drop_bit 7 (of_nat x * 0xd :: u32) = of_nat (x div 10)"
proof -
  obtain k r where x: "x = 10 * k + r" "r \<le> 9" "x div 10 = k"
    by (rule decomp10)
  have "128 * k \<le> x * 13" "x * 13 < 128 * k + 128" using x(1,2) assms by linarith+
  then have d: "(x * 13) div 128 = x div 10" unfolding x(3) by (intro div_nat_eqI) simp_all
  have "drop_bit 7 (of_nat (x * 13) :: u32) = of_nat ((x * 13) div 2 ^ 7)"
    using assms by (intro drop_bit_of_nat) simp
  then show ?thesis using d by (simp only: of_nat_mult of_nat_numeral power_numeral) simp
qed

lemma rem10: "of_nat x - 10 * of_nat (x div 10) = (of_nat (x mod 10) :: u32)"
proof -
  have "of_nat x = (of_nat (10 * (x div 10) + x mod 10) :: u32)" by simp
  then show ?thesis by (simp only: of_nat_add of_nat_mult of_nat_numeral) simp
qed

lemma to_char_digit: "x \<le> 9 \<Longrightarrow> to_char (of_nat x + 48) = dec_digit x"
proof -
  assume "x \<le> 9"
  have "(of_nat x + 48 :: u32) = of_nat (x + 48)" by simp
  then have "unat (of_nat x + 48 :: u32) = x + 48"
    using \<open>x \<le> 9\<close> by (simp only:) (simp add: unat_of_nat_small del: of_nat_add)
  then show ?thesis by (simp add: to_char_def dec_digit_def)
qed

text \<open>The hexadecimal digits of a number below 100000.\<close>

lemma nibbles:
  fixes q :: u32
  assumes "unat q < 100000"
  obtains d0 d1 d2 d3 :: nat where "unat q = 4096 * d3 + 256 * d2 + 16 * d1 + d0"
    "d0 \<le> 15" "d1 \<le> 15" "d2 \<le> 15" "d3 \<le> 24"
    "q AND 0xf = of_nat d0" "drop_bit 4 q AND 0xf = of_nat d1"
    "drop_bit 8 q AND 0xf = of_nat d2" "drop_bit 12 q = of_nat d3"
proof -
  have n: "w AND 0xf = of_nat (unat w mod 16)" for w :: u32
  proof -
    have "unat (w AND 0xf) = unat w mod 16"
      using take_bit_eq_mask[of 4 "unat w"]
      by (simp add: unsigned_and_eq mask_eq_exp_minus_1 take_bit_eq_mod)
    then show ?thesis by (metis of_nat_unat ucast_id)
  qed
  let ?d = "\<lambda>k. unat q div 2 ^ k"
  have "unat q = 4096 * ?d 12 + 256 * (?d 8 mod 16) + 16 * (?d 4 mod 16) + unat q mod 16"
  proof -
    have "x = 16 * (x div 16) + x mod 16" for x :: nat by simp
    from this[of "unat q"] this[of "?d 4"] this[of "?d 8"]
    have "unat q = 16 * ?d 4 + unat q mod 16" "?d 4 = 16 * ?d 8 + ?d 4 mod 16"
      "?d 8 = 16 * ?d 12 + ?d 8 mod 16"
      by (simp_all add: div_mult2_eq[symmetric])
    then show ?thesis by linarith
  qed
  moreover have "?d 12 \<le> 24" using assms by simp
  moreover have "drop_bit 12 q = of_nat (?d 12)" by (metis of_nat_unat ucast_id unat_drop_bit)
  ultimately show ?thesis
    using that[of "?d 12" "?d 8 mod 16" "?d 4 mod 16" "unat q mod 16"] n[of q]
      n[of "drop_bit 4 q"] n[of "drop_bit 8 q"] by (simp add: unat_drop_bit)
qed

text \<open>
  The intermediate values of the conversion: each is the remaining number at the next
  decimal place, with a part of the higher places split off.
\<close>

lemma dec_places:
  fixes d0 d1 d2 d3 :: nat
  assumes b: "d0 \<le> 15" "d1 \<le> 15" "d2 \<le> 15" "d3 \<le> 24"
    and n: "n = 4096 * d3 + 256 * d2 + 16 * d1 + d0" "n < 100000"
    and x: "x0 = 6 * (d3 + d2 + d1) + d0" "x1 = x0 div 10 + 9 * d3 + 5 * d2 + d1"
      "x2 = x1 div 10 + 2 * d2" "x3 = x2 div 10 + 4 * d3"
  shows "x0 \<le> 400" "x1 \<le> 400" "x2 \<le> 63" "x3 \<le> 400" "x3 div 10 \<le> 9"
    and "n mod 10 = x0 mod 10" "n div 10 mod 10 = x1 mod 10" "n div 100 mod 10 = x2 mod 10"
      "n div 1000 mod 10 = x3 mod 10" "n div 10000 = x3 div 10"
    and "n div 10 = 0 \<longleftrightarrow> x1 = 0" "n div 100 = 0 \<longleftrightarrow> x2 = 0 \<and> d3 = 0" "n div 1000 = 0 \<longleftrightarrow> x3 = 0"
proof -
  have x0: "x0 = 6 * d3 + 6 * d2 + 6 * d1 + d0" using x(1) by simp
  note x = x0 x(2-4)
  obtain k0 r0 where 0: "x0 = 10 * k0 + r0" "r0 \<le> 9" "x0 div 10 = k0" by (rule decomp10)
  obtain k1 r1 where 1: "x1 = 10 * k1 + r1" "r1 \<le> 9" "x1 div 10 = k1" by (rule decomp10)
  obtain k2 r2 where 2: "x2 = 10 * k2 + r2" "r2 \<le> 9" "x2 div 10 = k2" by (rule decomp10)
  obtain k3 r3 where 3: "x3 = 10 * k3 + r3" "r3 \<le> 9" "x3 div 10 = k3" by (rule decomp10)
  show "x0 \<le> 400" using b x(1) by linarith
  have k0: "k0 \<le> 33" using b x(1) 0(1) by linarith
  have x1: "x1 \<le> 339" using b x(2) k0 unfolding 0(3) by linarith
  then show "x1 \<le> 400" by linarith
  have k1: "k1 \<le> 33" using x1 1(1) by linarith
  show x2: "x2 \<le> 63" using b x(3) k1 unfolding 1(3) by linarith
  have "k2 \<le> 6" using x2 2(1) by linarith
  then show "x3 \<le> 400" using b x(4) unfolding 2(3) by linarith
  have x1': "x1 = k0 + 9 * d3 + 5 * d2 + d1" using x(2) 0(3) by simp
  have x2': "x2 = k1 + 2 * d2" using x(3) 1(3) by simp
  have x3': "x3 = k2 + 4 * d3" using x(4) 2(3) by simp
  have n0: "n = 10 * (x1 + 20 * d2 + 400 * d3) + r0" using n(1) x(1) x1' 0(1) by simp
  have n1: "n div 10 = 10 * (x2 + 40 * d3) + r1"
  proof -
    have "n div 10 = x1 + 20 * d2 + 400 * d3" unfolding n0 using 0(2) by (intro div_nat_eqI) simp_all
    also have "... = 10 * (x2 + 40 * d3) + r1" using 1(1) x2' by simp
    finally show ?thesis .
  qed
  have n2: "n div 100 = 10 * x3 + r2"
  proof -
    have "n div 10 div 10 = x2 + 40 * d3" unfolding n1 using 1(2) by (intro div_nat_eqI) simp_all
    then have "n div 100 = x2 + 40 * d3" by (simp add: div_mult2_eq[symmetric])
    also have "... = 10 * x3 + r2" using 2(1) x3' by simp
    finally show ?thesis .
  qed
  have n3: "n div 1000 = x3"
  proof -
    have "n div 100 div 10 = x3" unfolding n2 using 2(2) by (intro div_nat_eqI) simp_all
    then show ?thesis by (simp add: div_mult2_eq[symmetric])
  qed
  show "n div 10000 = x3 div 10" unfolding n3[symmetric] by (simp add: div_mult2_eq[symmetric])
  then show "x3 div 10 \<le> 9" using n(2) by linarith
  have m: "(10 * k + r) mod 10 = r mod 10" for k r :: nat by simp
  show "n mod 10 = x0 mod 10" unfolding n0 0(1) m ..
  show "n div 10 mod 10 = x1 mod 10" unfolding n1 1(1) m ..
  show "n div 100 mod 10 = x2 mod 10" unfolding n2 2(1) m ..
  show "n div 1000 mod 10 = x3 mod 10" unfolding n3 ..
  show "n div 10 = 0 \<longleftrightarrow> x1 = 0" unfolding n1 using 1(1) x1' x2' by auto
  show "n div 100 = 0 \<longleftrightarrow> x2 = 0 \<and> d3 = 0" unfolding n2 using 2(1) x3' by auto
  show "n div 1000 = 0 \<longleftrightarrow> x3 = 0" unfolding n3 ..
qed

lemma of_nat_zero_iff: "x \<le> 400 \<Longrightarrow> (of_nat x :: u32) = 0 \<longleftrightarrow> x = 0"
  using unat_of_nat_small[of x, where 'a=32] by (auto simp: unat_eq_zero)

lemma dec_rev_five:
  assumes "n < 100000"
  shows "dec_rev n = dec_digit (n mod 10) #
    (if n div 10 = 0 then [] else dec_digit (n div 10 mod 10) #
    (if n div 100 = 0 then [] else dec_digit (n div 100 mod 10) #
    (if n div 1000 = 0 then [] else dec_digit (n div 1000 mod 10) #
    (if n div 10000 = 0 then [] else [dec_digit (n div 10000)]))))"
proof -
  have "n div 10000 < 10" using assms by (simp add: less_mult_imp_div_less)
  moreover have "n div 10 div 10 = n div 100" "n div 100 div 10 = n div 1000"
    "n div 1000 div 10 = n div 10000"
    by (simp_all add: div_mult2_eq[symmetric])
  ultimately show ?thesis
    by (simp only: dec_rev_simps[of n] dec_rev_simps[of "n div 10"] dec_rev_simps[of "n div 100"]
        dec_rev_simps[of "n div 1000"] dec_rev_last)
qed

text \<open>The same in words: the values of the variables of the code, and its tests.\<close>

lemma dec_words:
  fixes q :: u32
  assumes "unat q < 100000"
  obtains x0 x1 x2 x3 :: nat where
    "6 * (drop_bit 12 q + (drop_bit 8 q AND 0xf) + (drop_bit 4 q AND 0xf)) + (q AND 0xf) = of_nat x0"
    "of_nat (x0 div 10) + 9 * drop_bit 12 q + 5 * (drop_bit 8 q AND 0xf) + (drop_bit 4 q AND 0xf) = of_nat x1"
    "of_nat (x1 div 10) + 2 * (drop_bit 8 q AND 0xf) = of_nat x2"
    "of_nat (x2 div 10) + 4 * drop_bit 12 q = of_nat x3"
    "x0 \<le> 400" "x1 \<le> 400" "x2 \<le> 63" "x3 \<le> 400" "x3 div 10 \<le> 9"
    "unat q mod 10 = x0 mod 10" "unat q div 10 mod 10 = x1 mod 10"
    "unat q div 100 mod 10 = x2 mod 10" "unat q div 1000 mod 10 = x3 mod 10"
    "unat q div 10000 = x3 div 10"
    "(of_nat x1 :: u32) = 0 \<longleftrightarrow> unat q div 10 = 0"
    "(of_nat x2 :: u32) = 0 \<and> drop_bit 12 q = 0 \<longleftrightarrow> unat q div 100 = 0"
    "(of_nat x3 :: u32) = 0 \<longleftrightarrow> unat q div 1000 = 0"
    "(of_nat (x3 div 10) :: u32) = 0 \<longleftrightarrow> x3 div 10 = 0"
proof -
  obtain d0 d1 d2 d3 where d: "unat q = 4096 * d3 + 256 * d2 + 16 * d1 + d0"
    "d0 \<le> 15" "d1 \<le> 15" "d2 \<le> 15" "d3 \<le> 24" "q AND 0xf = of_nat d0"
    "drop_bit 4 q AND 0xf = of_nat d1" "drop_bit 8 q AND 0xf = of_nat d2" "drop_bit 12 q = of_nat d3"
    by (rule nibbles[OF assms])
  define x0 where "x0 = 6 * (d3 + d2 + d1) + d0"
  define x1 where "x1 = x0 div 10 + 9 * d3 + 5 * d2 + d1"
  define x2 where "x2 = x1 div 10 + 2 * d2"
  define x3 where "x3 = x2 div 10 + 4 * d3"
  note p = dec_places[OF d(2-5,1) assms x0_def x1_def x2_def x3_def]
  have b: "x2 \<le> 400" "d3 \<le> 400" "x3 div 10 \<le> 400" using p(3,5) d(5) by linarith+
  show ?thesis
  proof (rule that[of x0 x1 x2 x3])
    show "(of_nat x1 :: u32) = 0 \<longleftrightarrow> unat q div 10 = 0"
      unfolding p(11) by (rule of_nat_zero_iff[OF p(2)])
    show "(of_nat x2 :: u32) = 0 \<and> drop_bit 12 q = 0 \<longleftrightarrow> unat q div 100 = 0"
      unfolding p(12) d(9) using b by (simp only: of_nat_zero_iff)
    show "(of_nat x3 :: u32) = 0 \<longleftrightarrow> unat q div 1000 = 0"
      unfolding p(13) by (rule of_nat_zero_iff[OF p(4)])
    show "(of_nat (x3 div 10) :: u32) = 0 \<longleftrightarrow> x3 div 10 = 0" by (rule of_nat_zero_iff[OF b(3)])
  qed (use p(1-10) d(6-9) in \<open>simp_all only: x0_def x1_def x2_def x3_def of_nat_add of_nat_mult of_nat_numeral\<close>)
qed

lemma digit_mod: "to_char (of_nat (x mod 10) + 48) = dec_digit (x mod 10)"
  by (rule to_char_digit) simp

lemma if_not_list: "(if \<not> b then u else v) = (if b then v else u)" for u v :: string
  by simp

lemma put_dec_trunc_dec:
  assumes "unat q < 100000"
  shows "put_dec_trunc q = dec_rev (unat q)"
proof (rule dec_words[OF assms], goal_cases)
  case w: (1 x0 x1 x2 x3)
  have disj: "(a \<noteq> 0 \<or> b \<noteq> 0) = (\<not> (a = 0 \<and> b = 0))" for a b :: u32 by simp
  show ?case
    unfolding dec_rev_five[OF assms] put_dec_trunc_def Let_def w(1) div_cd[OF w(5)] rem10 w(2)
      div_cd[OF w(6)] w(3) div_d[OF w(7)] w(4) div_cd[OF w(8)] digit_mod to_char_digit[OF w(9)]
      w(10-14) disj
    by (simp only: w(15-18) if_not_list)
qed

lemma put_dec_full_dec:
  assumes "unat q < 100000"
  shows "put_dec_full q = map (\<lambda>k. dec_digit (unat q div 10 ^ k mod 10)) [0..<5]"
proof (rule dec_words[OF assms], goal_cases)
  case w: (1 x0 x1 x2 x3)
  have "unat q div 10000 mod 10 = unat q div 10000" unfolding w(14) using w(9) by simp
  then have r: "map (\<lambda>k. dec_digit (unat q div 10 ^ k mod 10)) [0..<5] =
    [dec_digit (unat q mod 10), dec_digit (unat q div 10 mod 10), dec_digit (unat q div 100 mod 10),
     dec_digit (unat q div 1000 mod 10), dec_digit (unat q div 10000)]"
    by (simp add: upt_rec)
  show ?case
    unfolding r put_dec_full_def Let_def w(1) div_cd[OF w(5)] rem10 w(2)
      div_cd[OF w(6)] w(3) div_d[OF w(7)] w(4) div_cd[OF w(8)] digit_mod to_char_digit[OF w(9)]
      w(10-14) ..
qed

lemma dec_rev_full:
  assumes "n div 10 ^ k \<noteq> 0"
  shows "dec_rev n = map (\<lambda>j. dec_digit (n div 10 ^ j mod 10)) [0..<k] @ dec_rev (n div 10 ^ k)"
  using assms
proof (induction k)
  case (Suc k)
  have d: "n div 10 ^ k div 10 = n div 10 ^ Suc k" by (simp add: div_mult2_eq[symmetric] mult.commute)
  then have "n div 10 ^ k \<noteq> 0" using Suc.prems by fastforce
  moreover have "dec_rev (n div 10 ^ k) = dec_digit (n div 10 ^ k mod 10) # dec_rev (n div 10 ^ Suc k)"
    using dec_rev_step[of "n div 10 ^ k"] Suc.prems unfolding d by simp
  ultimately show ?case using Suc.IH by simp
qed simp

lemma put_dec_dec_rev: "put_dec num = dec_rev (unat num)"
proof (induction num rule: put_dec.induct)
  case (1 num)
  have r: "unat (num mod 100000) = unat num mod 100000" "unat (num div 100000) = unat num div 100000"
    by (simp_all add: unat_mod unat_div)
  show ?case
  proof (cases "num < 100000")
    case True
    then show ?thesis
      using put_dec_trunc_dec[of num] by (simp add: put_dec.simps[of num] word_less_nat_alt)
  next
    case False
    then have big: "100000 \<le> unat num" by (simp add: word_less_nat_alt)
    have m: "unat num mod 100000 div 10 ^ k mod 10 = unat num div 10 ^ k mod 10" if "k < 5" for k
    proof -
      have "(10::nat) ^ 5 = 10 ^ k * 10 ^ (5 - k)" using that by (simp flip: power_add)
      then have e: "(100000::nat) = 10 ^ k * 10 ^ (5 - k)" by simp
      have "unat num mod 100000 = 10 ^ k * (unat num div 10 ^ k mod 10 ^ (5 - k)) + unat num mod 10 ^ k"
        unfolding e by (rule mod_mult2_eq)
      then have "unat num mod 100000 div 10 ^ k = unat num div 10 ^ k mod 10 ^ (5 - k)" by simp
      moreover have "(10::nat) dvd 10 ^ (5 - k)" using that by (intro dvd_power) auto
      ultimately show ?thesis by (simp add: mod_mod_cancel)
    qed
    have "unat num div 10 ^ 5 \<noteq> 0" using big by (simp add: div_eq_0_iff)
    from dec_rev_full[OF this]
    have "dec_rev (unat num) =
      map (\<lambda>k. dec_digit (unat (num mod 100000) div 10 ^ k mod 10)) [0..<5] @ dec_rev (unat num div 100000)"
      using m by (simp add: r)
    then show ?thesis
      using False 1 put_dec_full_dec[of "num mod 100000"] by (simp add: put_dec.simps[of num] r)
  qed
qed
text \<open>
  C12 (equivalence). \<^verbatim>\<open>put_dec\<close>, with the multiplications and shifts that stand for divisions in
  its two helpers, writes the decimal digits of every 32-bit number, the least significant first
  and without leading zeros.
\<close>

theorem put_dec_digits: "put_dec num = dec_rev (unat num)"
  by (rule put_dec_dec_rev)

section \<open>The layout of a number\<close>

lemma bit_flags:
  "t AND ZEROPAD = 0 \<longleftrightarrow> \<not> bit t 0" "t AND SIGN = 0 \<longleftrightarrow> \<not> bit t 1" "t AND PLUS = 0 \<longleftrightarrow> \<not> bit t 2"
  "t AND SPACE = 0 \<longleftrightarrow> \<not> bit t 3" "t AND LEFT = 0 \<longleftrightarrow> \<not> bit t 4" "t AND SMALL = 0 \<longleftrightarrow> \<not> bit t 5"
  "t AND SPECIAL = 0 \<longleftrightarrow> \<not> bit t 6"
  using and_exp_eq_0_iff_not_bit[of t 0] and_exp_eq_0_iff_not_bit[of t 1]
    and_exp_eq_0_iff_not_bit[of t 2] and_exp_eq_0_iff_not_bit[of t 3] and_exp_eq_0_iff_not_bit[of t 4]
    and_exp_eq_0_iff_not_bit[of t 5] and_exp_eq_0_iff_not_bit[of t 6]
  by (simp_all add: ZEROPAD_def SIGN_def PLUS_def SPACE_def LEFT_def SMALL_def SPECIAL_def)

lemma bit_padding: "t AND (ZEROPAD + LEFT) = 0 \<longleftrightarrow> \<not> bit t 0 \<and> \<not> bit t 4"
proof -
  have "ZEROPAD + LEFT = ZEROPAD OR LEFT" by (simp add: ZEROPAD_def LEFT_def)
  then show ?thesis
    using bit_flags(1,5)[of t] by (simp add: bit.conj_disj_distrib or_eq_0_iff)
qed

lemma bit_unzero: "n < 32 \<Longrightarrow> bit (t AND NOT ZEROPAD) n \<longleftrightarrow> bit t n \<and> n \<noteq> 0" for t :: u32
  by (auto simp: ZEROPAD_def bit_and_iff bit_not_iff bit_1_iff)

lemma pad_loop_run:
  "pad_loop c sz = (replicate (nat sz) c, if 0 < sz then -1 else sz - 1)"
proof (induction c sz rule: pad_loop.induct)
  case (1 c sz)
  then show ?case
  proof (cases "0 \<le> sz - 1")
    case True
    then have "nat sz = Suc (nat (sz - 1))" by simp
    then show ?thesis using 1 True by (subst pad_loop.simps) auto
  qed (subst pad_loop.simps, auto)
qed

declare pad_loop.simps [simp del]

text \<open>The character of a digit in base 16 or less, and the locase trick of the code.\<close>

definition hex_digit :: "bool \<Rightarrow> nat \<Rightarrow> char" where
  "hex_digit small d = char_of (if d < 10 then d + 48 else if small then d + 87 else d + 55)"

lemma hex_digit_dec: "d < 10 \<Longrightarrow> hex_digit small d = dec_digit d"
  by (simp add: hex_digit_def dec_digit_def)

lemma and_SMALL: "t AND SMALL = (if bit t 5 then 32 else 0)"
proof (rule bit_eqI)
  fix n
  have "bit (2 ^ 5 :: u32) n \<longleftrightarrow> n = 5" by (subst bit_exp_iff) auto
  then have "bit (32 :: u32) n \<longleftrightarrow> n = 5" by simp
  then show "bit (t AND SMALL) n \<longleftrightarrow> bit (if bit t 5 then 32 else 0 :: u32) n"
    by (auto simp: SMALL_def bit_and_iff)
qed

lemma digit_char_hex:
  assumes "d < 16" shows "digit_char (t AND SMALL) (of_nat d) = hex_digit (bit t 5) d"
proof -
  have "d \<in> set [0, 1, 2, 3, 4, 5, 6, 7, 8, 9, 10, 11, 12, 13, 14, 15]"
    using assms by (auto simp: less_Suc_eq numeral_eq_Suc)
  then show ?thesis
    unfolding and_SMALL by (auto simp: digit_char_def digits_def hex_digit_def to_char_def)
qed

lemma low_digit:
  assumes "shift \<in> {3, 4}" shows "num AND 0xff AND (2 ^ shift - 1) = (of_nat (unat num mod 2 ^ shift) :: u32)"
proof -
  have "(0xff :: u32) AND (2 ^ shift - 1) = mask shift"
    using assms by (auto simp: mask_eq_exp_minus_1)
  then have "num AND 0xff AND (2 ^ shift - 1) = take_bit shift num"
    by (simp add: and.assoc take_bit_eq_mask)
  moreover have "unat (take_bit shift num) = unat num mod 2 ^ shift"
    by (subst unsigned_take_bit_eq) (simp add: take_bit_eq_mod)
  ultimately show ?thesis by (metis of_nat_unat ucast_id)
qed

lemma put_pow2_rep:
  assumes "shift \<in> {3, 4}"
  shows "put_pow2 (t AND SMALL) (2 ^ shift - 1) shift num =
    rep_rev (2 ^ shift) (hex_digit (bit t 5)) (unat num)"
proof (induction "unat num" arbitrary: num rule: less_induct)
  case less
  have "unat num mod 2 ^ shift < 2 ^ shift" "(2::nat) ^ shift \<le> 16" using assms by auto
  then have d: "digit_char (t AND SMALL) (num AND 0xff AND (2 ^ shift - 1)) =
      hex_digit (bit t 5) (unat num mod 2 ^ shift)"
    unfolding low_digit[OF assms] by (intro digit_char_hex) linarith
  have z: "drop_bit shift num = 0 \<longleftrightarrow> unat num div 2 ^ shift = 0"
    unfolding unat_drop_bit[symmetric] by (simp only: unat_eq_zero)
  have s: "\<not> (2::nat) ^ shift < 2" "shift \<noteq> 0" using assms by auto
  show ?case
  proof (cases "unat num div 2 ^ shift = 0")
    case True
    then show ?thesis
      by (simp only: put_pow2.simps[of _ _ _ num] rep_rev.simps[of _ _ "unat num"] z d if_True simp_thms)
  next
    case False
    then have "unat num div 2 ^ shift < unat num" using s by (intro div_less_dividend) (auto intro: gr0I)
    then have "put_pow2 (t AND SMALL) (2 ^ shift - 1) shift (drop_bit shift num) =
      rep_rev (2 ^ shift) (hex_digit (bit t 5)) (unat num div 2 ^ shift)"
      using less[of "drop_bit shift num"] by (simp only: unat_drop_bit)
    then show ?thesis
      using False s by (simp only: put_pow2.simps[of _ _ _ num] rep_rev.simps[of _ _ "unat num"] z d if_False simp_thms)
  qed
qed

declare put_pow2.simps [simp del]

text \<open>
  The layout of a conversion, in all cases: sign, prefix, at least \<open>precision\<close> digits, and the padding that
  fills the field, on the right, as zeros after the prefix, or on the left. It is compared with C99 below.
\<close>

definition magnitude :: "u32 \<Rightarrow> u32 \<Rightarrow> nat" where
  "magnitude num type = (if bit type 1 then nat \<bar>sint num\<bar> else unat num)"

definition sign_spec :: "u32 \<Rightarrow> u32 \<Rightarrow> string" where
  "sign_spec num type =
     (if \<not> bit type 1 then [] else if sint num < 0 then ''-'' else if bit type 2 then ''+''
      else if bit type 3 then '' '' else [])"

definition prefix_spec :: "nat \<Rightarrow> u32 \<Rightarrow> string" where
  "prefix_spec base type =
     (if \<not> bit type 6 \<or> base = 10 then [] else if base = 8 then ''0''
      else if bit type 5 then ''0x'' else ''0X'')"

definition body_spec :: "u32 \<Rightarrow> nat \<Rightarrow> int \<Rightarrow> u32 \<Rightarrow> string" where
  "body_spec num base precision type =
     (let ds = rev (rep_rev base (hex_digit (bit type 5)) (magnitude num type))
      in replicate (nat precision - length ds) (CHR ''0'') @ ds)"

definition number_spec :: "u32 \<Rightarrow> nat \<Rightarrow> int \<Rightarrow> int \<Rightarrow> u32 \<Rightarrow> string" where
  "number_spec num base field_width precision type =
     (let front = sign_spec num type @ prefix_spec base type;
          body = body_spec num base precision type;
          pad = replicate (nat field_width - length (front @ body))
      in if bit type 4 then front @ body @ pad (CHR '' '')
         else if bit type 0 then front @ pad (CHR ''0'') @ body
         else pad (CHR '' '') @ front @ body)"

lemma magnitude_word:
  "unat (if bit type 1 \<and> sint num < 0 then - num else num) = magnitude num type"
proof (cases "bit type 1 \<and> sint num < 0")
  case True
  have l: "- (2 ^ 31) \<le> sint num" using sint_greater_eq[of num] by simp
  have "- num = (word_of_int (- sint num) :: u32)" by (simp only: of_int_minus of_int_sint scast_id)
  then have "uint (- num) = take_bit 32 (- sint num)"
    by (simp only: uint_word_of_int_eq) simp
  then have "uint (- num) = - sint num"
    using True l by (simp add: take_bit_int_eq_self)
  then show ?thesis using True by (simp add: magnitude_def flip: nat_uint_eq)
next
  case False
  have "nat \<bar>sint num\<bar> = unat num" if "0 \<le> sint num"
  proof -
    have "sint num < 2 ^ 32" using sint_less[of num] by simp
    then have "sint num = uint num" using that uint_sint[of num] by (simp add: take_bit_int_eq_self)
    then show ?thesis by simp
  qed
  then show ?thesis using False by (auto simp: magnitude_def)
qed

lemma rep_rev_nonempty [simp]: "rep_rev b f n \<noteq> []"
  by (subst rep_rev.simps) simp

lemma rep_rev_zero: "rep_rev b f 0 = [f 0]"
  by (subst rep_rev.simps) simp

lemma rep_rev_cong: "0 < b \<Longrightarrow> (\<And>d. d < b \<Longrightarrow> f d = g d) \<Longrightarrow> rep_rev b f n = rep_rev b g n"
proof (induction b f n rule: rep_rev.induct)
  case (1 b f n)
  then have "f (n mod b) = g (n mod b)" by simp
  then show ?case
    using 1 by (simp only: rep_rev.simps[of b f n] rep_rev.simps[of b g n]) simp
qed

lemma number_tmp_rep:
  assumes "base \<in> {8, 10, 16}" and "base = of_nat nbase" and "nbase < 32"
  shows "number_tmp (type AND SMALL) base num = rep_rev nbase (hex_digit (bit type 5)) (unat num)"
proof -
  have "nbase = unat base" using assms(2,3) by (simp add: unat_of_nat_small)
  then have n: "nbase = (if base = 8 then 8 else if base = 16 then 16 else 10)" using assms(1) by auto
  have z: "hex_digit b 0 = CHR ''0''" for b unfolding hex_digit_def by code_simp
  have d: "put_dec num = rep_rev 10 (hex_digit (bit type 5)) (unat num)"
    unfolding put_dec_dec_rev by (rule rep_rev_cong) (simp_all add: hex_digit_dec)
  show ?thesis
    using assms(1) d put_pow2_rep[of 3 type num] put_pow2_rep[of 4 type num]
    by (auto simp: number_tmp_def n rep_rev_zero z)
qed

text \<open>The three padding loops share one counter; at most one of them writes.\<close>

lemma number_fill_once:
  "number_fill type sz front body =
     (if bit type 4 then front @ body @ replicate (nat sz) (CHR '' '')
      else if bit type 0 then front @ replicate (nat sz) (CHR ''0'') @ body
      else replicate (nat sz) (CHR '' '') @ front @ body)"
  by (simp add: number_fill_def Let_def pad_loop_run bit_flags bit_padding)

definition clear_zero :: "u32 \<Rightarrow> u32" where
  "clear_zero type = (if type AND LEFT \<noteq> 0 then type AND NOT ZEROPAD else type)"

lemma bit_clear_zero: "n < 32 \<Longrightarrow> bit (clear_zero type) n \<longleftrightarrow> bit type n \<and> (n = 0 \<longrightarrow> \<not> bit type 4)"
  by (auto simp: clear_zero_def bit_flags bit_unzero)

lemma number_sign_spec: "number_sign (clear_zero type) num = sign_spec num type"
  by (simp add: number_sign_def sign_spec_def bit_flags bit_clear_zero)

lemma number_prefix:
  fixes base :: u32
  assumes "base \<in> {8, 10, 16}"
  shows "(if type AND SPECIAL \<noteq> 0 \<and> base \<noteq> 10
    then CHR ''0'' # (if base = 16 then [to_char (0x58 OR (type AND SMALL))] else []) else []) =
    prefix_spec (unat base) type"
proof -
  have "to_char (0x58 OR 32) = CHR ''x''" "to_char (0x58 OR 0) = CHR ''X''" by code_simp+
  then have "to_char (0x58 OR (type AND SMALL)) = (if bit type 5 then CHR ''x'' else CHR ''X'')"
    unfolding and_SMALL by presburger
  then show ?thesis using assms by (auto simp: prefix_spec_def bit_flags)
qed

lemma number_layout_base:
  assumes b: "base \<in> {8, 10, 16}" "base = of_nat nbase" "nbase < 32"
  shows "number num base field_width precision type = number_spec num nbase field_width precision type"
proof -
  let ?pfx = "prefix_spec nbase type" and ?sign = "sign_spec num type"
  define ds where "ds = rep_rev nbase (hex_digit (bit type 5)) (magnitude num type)"
  let ?i = "int (length ds)"
  have nb: "nbase = unat base" using b by (simp add: unat_of_nat_small)
  have sz: "(if type AND SPECIAL \<noteq> 0 \<and> base \<noteq> 10 then (if base = 16 then z - 1 - 1 else z - 1) else z)
      = z - int (length ?pfx)" "(if ?sign \<noteq> [] then z - 1 else z) = z - int (length ?sign)" for z :: int
    using b(1) by (auto simp: prefix_spec_def nb bit_flags sign_spec_def)
  have tmp: "number_tmp (type AND SMALL) base
      (if clear_zero type AND SIGN \<noteq> 0 \<and> sint num < 0 then - num else num) = ds"
    unfolding number_tmp_rep[OF b] bit_flags ds_def magnitude_word[symmetric] by (simp add: bit_clear_zero)
  have "number num base field_width precision type =
      number_fill (clear_zero type) (field_width - int (length ?sign) - int (length ?pfx) -
          (if precision < ?i then ?i else precision)) (?sign @ ?pfx)
        (replicate (nat ((if precision < ?i then ?i else precision) - ?i)) (CHR ''0'') @ rev ds)"
    unfolding number_def clear_zero_def[symmetric] Let_def number_sign_spec sz tmp
      number_prefix[OF b(1)] nb[symmetric] ..
  moreover have "nat (field_width - int (length ?sign) - int (length ?pfx) - (if precision < ?i then ?i else precision))
      = nat field_width - length ((?sign @ ?pfx) @ replicate (nat precision - length ds) (CHR ''0'') @ rev ds)"
    "nat ((if precision < ?i then ?i else precision) - ?i) = nat precision - length ds"
    by auto
  ultimately show ?thesis
    unfolding number_fill_once number_spec_def body_spec_def Let_def ds_def[symmetric]
    by (simp add: bit_clear_zero)
qed

subsection \<open>The integer conversions of C99\<close>

text \<open>
  The comment on \<^verbatim>\<open>pp_vsprintf\<close> promises C99. There (7.19.6.1) a conversion of zero with precision zero has no digits,
  \<^verbatim>\<open>#\<close> gives an octal number a leading zero only when it has none, and a hexadecimal number a prefix only when it is not
  zero, and the flag \<^verbatim>\<open>0\<close> is ignored when a precision is given. (A negative precision stands for none.)
\<close>

definition c99_digits :: "u32 \<Rightarrow> nat \<Rightarrow> int \<Rightarrow> u32 \<Rightarrow> string" where
  "c99_digits num base precision type =
     (let ds = if precision = 0 \<and> magnitude num type = 0 then []
            else rev (rep_rev base (hex_digit (bit type 5)) (magnitude num type));
          ds = replicate (nat precision - length ds) (CHR ''0'') @ ds
      in if bit type 6 \<and> base = 8 \<and> (ds = [] \<or> hd ds \<noteq> CHR ''0'') then CHR ''0'' # ds else ds)"

definition c99_prefix :: "u32 \<Rightarrow> nat \<Rightarrow> u32 \<Rightarrow> string" where
  "c99_prefix num base type =
     (if bit type 6 \<and> base = 16 \<and> magnitude num type \<noteq> 0 then (if bit type 5 then ''0x'' else ''0X'') else [])"

definition c99_number :: "u32 \<Rightarrow> nat \<Rightarrow> int \<Rightarrow> int \<Rightarrow> u32 \<Rightarrow> string" where
  "c99_number num base field_width precision type =
     (let front = sign_spec num type @ c99_prefix num base type;
          ds = c99_digits num base precision type;
          pad = replicate (nat field_width - length (front @ ds))
      in if bit type 4 then front @ ds @ pad (CHR '' '')
         else if bit type 0 \<and> precision < 0 then front @ pad (CHR ''0'') @ ds
         else pad (CHR '' '') @ front @ ds)"

text \<open>Where the code does not follow C99.\<close>

definition c99_deviates :: "u32 \<Rightarrow> nat \<Rightarrow> int \<Rightarrow> int \<Rightarrow> u32 \<Rightarrow> bool" where
  "c99_deviates num base field_width precision type \<longleftrightarrow>
     magnitude num type = 0 \<and> (precision = 0 \<or> bit type 6 \<and> base \<noteq> 10) \<or>
     bit type 6 \<and> base = 8 \<and> length (rep_rev base (hex_digit (bit type 5)) (magnitude num type)) < nat precision \<or>
     bit type 0 \<and> \<not> bit type 4 \<and> 0 \<le> precision \<and>
       length (sign_spec num type @ prefix_spec base type @ body_spec num base precision type) < nat field_width"

lemma last_rep_rev: "0 < n \<Longrightarrow> 1 < b \<Longrightarrow> \<exists>d. 0 < d \<and> d < b \<and> last (rep_rev b f n) = f d"
proof (induction b f n rule: rep_rev.induct)
  case (1 b f n)
  show ?case
  proof (cases "n div b = 0")
    case True
    then have "n < b" using 1(3) by (simp add: div_eq_0_iff)
    then show ?thesis using 1(2) True by (subst rep_rev.simps) auto
  next
    case False
    then show ?thesis using 1 by (subst rep_rev.simps) auto
  qed
qed

lemma hd_octal:
  assumes "0 < n"
  shows "hd (rev (rep_rev 8 (hex_digit small) n)) \<noteq> CHR ''0''"
proof -
  obtain d where d: "0 < d" "d < 8" "last (rep_rev 8 (hex_digit small) n) = hex_digit small d"
    using last_rep_rev[OF assms, of 8 "hex_digit small"] by auto
  have "of_char (hex_digit small d) \<noteq> (of_char (CHR ''0'') :: nat)" using d(1,2) by (simp add: hex_digit_def)
  then have "hex_digit small d \<noteq> CHR ''0''" by metis
  then show ?thesis using d(3) by (simp add: hd_rev)
qed

lemma number_spec_c99:
  assumes "\<not> c99_deviates num base field_width precision type" and "base \<in> {8, 10, 16}"
  shows "number_spec num base field_width precision type = c99_number num base field_width precision type"
proof -
  let ?ds = "rev (rep_rev base (hex_digit (bit type 5)) (magnitude num type))"
  have d: "c99_digits num base precision type =
     (if bit type 6 \<and> base = 8 then CHR ''0'' # ?ds else body_spec num base precision type)"
  proof (cases "bit type 6 \<and> base = 8")
    case True
    then have "0 < magnitude num type" "nat precision \<le> length ?ds" using assms by (auto simp: c99_deviates_def)
    then show ?thesis using True hd_octal[of "magnitude num type" "bit type 5"] by (simp add: c99_digits_def Let_def)
  next
    case False
    then show ?thesis using assms by (auto simp: c99_digits_def body_spec_def Let_def c99_deviates_def)
  qed
  have p: "c99_prefix num base type = (if base = 8 then [] else prefix_spec base type)"
    using assms by (auto simp: c99_prefix_def prefix_spec_def c99_deviates_def)
  show ?thesis
    using assms unfolding number_spec_def c99_number_def Let_def d p
    by (auto simp: c99_deviates_def prefix_spec_def body_spec_def replicate_append_same)
qed

text \<open>One input for each deviation: \<^verbatim>\<open>%.0d\<close> of 0, \<^verbatim>\<open>%#x\<close> of 0, \<^verbatim>\<open>%#o\<close> of 0, \<^verbatim>\<open>%#.3o\<close> of 5 and \<^verbatim>\<open>%05.2d\<close> of 7.\<close>

lemma c99_deviations:
  "number 0 10 (- 1) 0 SIGN = ''0'' \<and> c99_number 0 10 (- 1) 0 SIGN = ''''"
  "number 0 16 (- 1) (- 1) (SPECIAL OR SMALL) = ''0x0'' \<and> c99_number 0 16 (- 1) (- 1) (SPECIAL OR SMALL) = ''0''"
  "number 0 8 (- 1) (- 1) SPECIAL = ''00'' \<and> c99_number 0 8 (- 1) (- 1) SPECIAL = ''0''"
  "number 5 8 (- 1) 3 SPECIAL = ''0005'' \<and> c99_number 5 8 (- 1) 3 SPECIAL = ''005''"
  "number 7 10 5 2 (SIGN OR ZEROPAD) = ''00007'' \<and> c99_number 7 10 5 2 (SIGN OR ZEROPAD) = ''   07''"
  by code_simp+

text \<open>
  C15 (equivalence). In each base the formatter uses, \<^verbatim>\<open>number\<close> prints, whatever the width, the precision and
  the flags, what C99 asks for, except in four cases, which C99 lays out differently and in which it prints the layout of
  \<open>number_spec\<close>: zero with precision 0, zero with \<^verbatim>\<open>#\<close> in octal or hexadecimal, an octal number with \<^verbatim>\<open>#\<close> and a
  precision beyond its digits, and the flag \<^verbatim>\<open>0\<close> with a precision in a field that has room left.
\<close>

theorem number_layout:
  "number num 8 field_width precision type =
     (if c99_deviates num 8 field_width precision type then number_spec num 8 field_width precision type
      else c99_number num 8 field_width precision type) \<and>
   number num 10 field_width precision type =
     (if c99_deviates num 10 field_width precision type then number_spec num 10 field_width precision type
      else c99_number num 10 field_width precision type) \<and>
   number num 16 field_width precision type =
     (if c99_deviates num 16 field_width precision type then number_spec num 16 field_width precision type
      else c99_number num 16 field_width precision type)"
  by (simp add: number_layout_base flip: number_spec_c99)

section \<open>Reading numbers back\<close>

text \<open>A reader of decimal numbers, on top of the \<^verbatim>\<open>skip_atoi\<close> of the code.\<close>

definition read_int :: "string \<Rightarrow> int" where
  "read_int s =
     (let s = dropWhile (\<lambda>c. c = CHR '' '') s
      in if deref_char s = CHR ''-'' then - fst (skip_atoi 0 (tl s))
         else if deref_char s = CHR ''+'' then fst (skip_atoi 0 (tl s)) else fst (skip_atoi 0 s))"

lemma dec_digit_value:
  assumes "d < 10" shows "is_digit (dec_digit d)" "int (of_char (dec_digit d)) - 48 = int d"
proof -
  have v: "of_char (dec_digit d) = d + 48" using assms by (simp add: dec_digit_def)
  then show "int (of_char (dec_digit d)) - 48 = int d" by simp
  show "is_digit (dec_digit d)"
    using assms v by (simp add: is_digit_def less_eq_char_def)
qed

lemma skip_atoi_digit:
  "d < 10 \<Longrightarrow> skip_atoi i (dec_digit d # s) = skip_atoi (i * 10 + int d) s"
  using dec_digit_value[of d] by (simp add: algebra_simps)

lemma skip_atoi_dec:
  "skip_atoi i (rev (dec_rev n) @ s) = skip_atoi (i * 10 ^ length (dec_rev n) + int n) s"
proof (induction n arbitrary: i s rule: less_induct)
  case (less n)
  have m: "n mod 10 < 10" by simp
  have e: "int n = int (n div 10) * 10 + int (n mod 10)" by (simp add: zdiv_int zmod_int)
  show ?case
  proof (cases "n div 10 = 0")
    case True
    then show ?thesis using skip_atoi_digit[of n i s] by (simp add: dec_rev_simps[of n] div_eq_0_iff)
  next
    case False
    then have lt: "n div 10 < n" by (intro div_less_dividend) (auto intro: gr0I)
    show ?thesis
      using less[OF lt, of i "dec_digit (n mod 10) # s"] skip_atoi_digit[OF m] e
      by (simp add: dec_rev_step[OF False] algebra_simps)
  qed
qed

lemma skip_atoi_zeros: "skip_atoi 0 (replicate k (CHR ''0'') @ s) = skip_atoi 0 s"
  by (induction k) (simp_all add: is_digit_def less_eq_char_def)

lemma skip_atoi_stop: "\<not> is_digit (deref_char s) \<Longrightarrow> skip_atoi i s = (i, s)"
  by (cases s) auto

lemma skip_atoi_body:
  assumes "\<not> is_digit (deref_char s)"
  shows "skip_atoi 0 (replicate k (CHR ''0'') @ body_spec num 10 precision type @ s) =
    (int (magnitude num type), s)"
proof -
  have "rep_rev 10 (hex_digit (bit type 5)) n = dec_rev n" for n
    by (rule rep_rev_cong) (simp_all add: hex_digit_dec)
  then show ?thesis
    by (simp add: body_spec_def Let_def skip_atoi_zeros skip_atoi_dec skip_atoi_stop[OF assms])
qed

lemma dec_rev_digits: "c \<in> set (dec_rev n) \<Longrightarrow> is_digit c"
proof (induction n rule: less_induct)
  case (less n)
  then show ?case
  proof (cases "n div 10 = 0")
    case False
    then have lt: "n div 10 < n" by (intro div_less_dividend) (auto intro: gr0I)
    show ?thesis using less.IH[OF lt] less.prems False by (auto simp: dec_rev_step dec_digit_value(1))
  qed (auto simp: dec_rev_simps[of n] dec_digit_value(1))
qed

lemma body_spec_first:
  obtains c cs where "replicate k (CHR ''0'') @ body_spec num 10 precision type = c # cs" "is_digit c"
proof -
  let ?b = "replicate k (CHR ''0'') @ body_spec num 10 precision type"
  have r: "rep_rev 10 (hex_digit (bit type 5)) n = dec_rev n" for n
    by (rule rep_rev_cong) (simp_all add: hex_digit_dec)
  have "is_digit (CHR ''0'')" by (simp add: is_digit_def less_eq_char_def)
  then have d: "\<forall>c\<in>set ?b. is_digit c"
    by (auto simp: body_spec_def Let_def r dest: dec_rev_digits)
  have "?b \<noteq> []" by (simp add: body_spec_def Let_def)
  then show ?thesis using that[of "hd ?b" "tl ?b"] d by (cases ?b) auto
qed

lemma dropWhile_blanks:
  "dropWhile (\<lambda>c. c = CHR '' '') (replicate j (CHR '' '') @ s) = dropWhile (\<lambda>c. c = CHR '' '') s"
  by (induction j) simp_all

lemma read_int_signed:
  assumes b: "bit type 1" and s: "\<not> is_digit (deref_char s)"
  shows "read_int (replicate j (CHR '' '') @ sign_spec num type @ replicate k (CHR ''0'') @
    body_spec num 10 precision type @ s) = sint num"
proof -
  obtain c cs where c: "replicate k (CHR ''0'') @ body_spec num 10 precision type = c # cs" "is_digit c"
    by (rule body_spec_first)
  have ne: "c \<noteq> CHR '' ''" "c \<noteq> CHR ''-''" "c \<noteq> CHR ''+''"
    using c(2) by (auto simp: is_digit_def less_eq_char_def)
  have v: "fst (skip_atoi 0 (c # cs @ s)) = \<bar>sint num\<bar>"
    using skip_atoi_body[OF s, of k num precision type] b c(1) by (simp add: magnitude_def del: skip_atoi.simps flip: append_assoc)
  have cs: "replicate k (CHR ''0'') @ body_spec num 10 precision type @ s = c # cs @ s"
    using c(1) by simp
  show ?thesis
    unfolding read_int_def dropWhile_blanks cs
    using b v ne by (auto simp: sign_spec_def Let_def simp del: skip_atoi.simps)
qed

text \<open>
  C18 (roundtrip). Whatever width, precision and flags a signed decimal conversion is given, the
  number read back from the field is the number printed.
\<close>

theorem number_read_back: "read_int (number num 10 field_width precision (type OR SIGN)) = sint num"
proof -
  let ?t = "type OR SIGN"
  have b: "bit ?t 1" by (auto simp: SIGN_def bit_or_iff)
  have p: "prefix_spec 10 ?t = []" by (simp add: prefix_spec_def)
  have sp: "\<not> is_digit (deref_char (replicate k (CHR '' '')))" for k
    by (cases k) (simp_all add: is_digit_def less_eq_char_def NUL_def)
  have n: "number num 10 field_width precision ?t = number_spec num 10 field_width precision ?t"
    by (rule number_layout_base) simp_all
  show ?thesis
    unfolding n number_spec_def Let_def p
    using read_int_signed[OF b sp, of 0 num 0 precision] read_int_signed[OF b sp[of 0], of 0 num _ precision]
      read_int_signed[OF b sp[of 0], of _ num 0 precision]
    by simp
qed

section \<open>Bounds\<close>

lemma rep_rev_length:
  "n < b ^ Suc k \<Longrightarrow> 1 < b \<Longrightarrow> length (rep_rev b f n) \<le> Suc k"
proof (induction k arbitrary: n)
  case 0
  then show ?case by (subst rep_rev.simps) simp
next
  case (Suc k)
  have "n div b < b ^ Suc k"
    using Suc.prems by (simp add: less_mult_imp_div_less mult.commute)
  then show ?case using Suc by (subst rep_rev.simps) simp
qed

lemma rep_rev_u32:
  "nbase \<in> {8, 10, 16} \<Longrightarrow> length (rep_rev nbase f (unat (w :: u32))) \<le> 11"
proof -
  assume b: "nbase \<in> {8, 10, 16}"
  have "unat w < 2 ^ 32" using unsigned_less[of w, where 'a=nat] by simp
  also have "(2::nat) ^ 32 \<le> nbase ^ Suc 10" using b by auto
  finally show ?thesis using rep_rev_length[of "unat w" nbase 10 f] b by auto
qed

text \<open>
  The digits of every number fit into the 66 characters of \<^verbatim>\<open>tmp\<close>, with room to
  spare, and a conversion prints no more than its width or its precision asks for, or 14
  characters.
\<close>

lemma number_fits:
  assumes "nbase \<in> {8, 10, 16}"
  shows "length (number_tmp (type AND SMALL) (of_nat nbase) w) \<le> 11 \<and>
    length (number num (of_nat nbase) field_width precision type) \<le> max (nat field_width) (max (nat precision) 11 + 3)"
proof -
  have b: "(of_nat nbase :: u32) \<in> {8, 10, 16}" "nbase < 32" using assms by auto
  have m: "length (rep_rev nbase f (magnitude num type)) \<le> 11" for f
    unfolding magnitude_word[symmetric] using assms by (rule rep_rev_u32)
  have "length (sign_spec num type) \<le> 1" "length (prefix_spec nbase type) \<le> 2"
    by (simp_all add: sign_spec_def prefix_spec_def)
  moreover have "length (body_spec num nbase precision type) \<le> max (nat precision) 11"
    using m by (auto simp: body_spec_def Let_def le_max_iff_disj intro: order_trans)
  ultimately have "length (number_spec num nbase field_width precision type)
      \<le> max (nat field_width) (max (nat precision) 11 + 3)"
    by (auto simp: number_spec_def Let_def)
  then show ?thesis
    using number_layout_base[OF b(1) refl b(2)] number_tmp_rep[OF b(1) refl b(2)] rep_rev_u32[OF assms] by simp
qed

lemma number_fits_witness: "length (number 0x80000000 10 20 (-1) SIGN) \<le> 20"
  using number_fits[of 10 SIGN 0 "0x80000000" 20 "-1"] by simp

end
