(* ===== verification/Console.thy ===== *)
theory Console
  imports Printf_Correct Devices_Correct
begin

text \<open>
  The wrappers of \<^verbatim>\<open>pp_printf/printf.c\<close>. They are linked with one of four implementations of
  \<^verbatim>\<open>pp_vsprintf\<close>, whose common contract is the locale \<open>formatter\<close>, and print through \<^verbatim>\<open>puts\<close>,
  which is the UART's \<^verbatim>\<open>uart_default_write_string\<close>.
\<close>

section \<open>The wrappers\<close>

type_synonym vsprintf = "string \<Rightarrow> arg list \<Rightarrow> (string \<times> int) presult"

definition CONFIG_PRINT_BUFSIZE :: nat where "CONFIG_PRINT_BUFSIZE = 128"

text \<open>The text and its terminating zero go to a buffer of \<open>size\<close> characters, without a test.\<close>

definition into_buffer :: "vsprintf \<Rightarrow> nat \<Rightarrow> string \<Rightarrow> arg list \<Rightarrow> (string \<times> int) presult" where
  "into_buffer vs bufsize fmt args =
     pbind (vs fmt args) (\<lambda>(str, n).
       if length (str @ [NUL]) \<le> bufsize then Inr (str @ [NUL], n) else Inl OutOfBounds)"

definition bytes :: "string \<Rightarrow> u8 list" where
  "bytes str = map (\<lambda>c. of_nat (of_char c)) str"

definition pp_vprintf ::
  "vsprintf \<Rightarrow> 'h plat \<Rightarrow> string \<Rightarrow> arg list \<Rightarrow> ('h mach, int presult) prog" where
  "pp_vprintf vs B fmt args =
     (case into_buffer vs CONFIG_PRINT_BUFSIZE fmt args of
        Inl e \<Rightarrow> ret (Inl e)
      | Inr (print_buf, n) \<Rightarrow> thn (uart_default_write_string B (bytes print_buf)) (ret (Inr n)))"

text \<open>\<open>bufsize\<close> is the size of the caller's buffer.\<close>

definition pp_sprintf :: "vsprintf \<Rightarrow> nat \<Rightarrow> string \<Rightarrow> arg list \<Rightarrow> (string \<times> int) presult" where
  "pp_sprintf vs bufsize fmt args = into_buffer vs bufsize fmt args"

definition pp_printf_uart ::
  "vsprintf \<Rightarrow> 'h plat \<Rightarrow> string \<Rightarrow> arg list \<Rightarrow> ('h mach, int presult) prog" where
  "pp_printf_uart vs B fmt args = pp_vprintf vs B fmt args"

section \<open>The contract of a formatter\<close>

text \<open>
  Characters other than the percent sign are copied, and the result counts the characters
  written, \<open>over\<close> of them beyond the text.
\<close>

locale formatter =
  fixes vs :: vsprintf and over :: int
  assumes empty_format: "vs [] args = Inr ([], over)"
    and copies: "c \<noteq> CHR ''%'' \<Longrightarrow> vs (c # fmt) args = pbind (vs fmt args) (\<lambda>(s, n). Inr (c # s, n + 1))"
    and counts: "vs fmt args = Inr (s, n) \<Longrightarrow> n = int (length s) + over"
begin

lemma text_then_format:
  assumes "CHR ''%'' \<notin> set t" and "vs fmt args = Inr (s, n)"
  shows "vs (t @ fmt) args = Inr (t @ s, n + int (length t))"
  using assms(1)
proof (induction t)
  case (Cons c t)
  then have "c \<noteq> CHR ''%''" by auto
  then show ?case using Cons by (simp add: copies)
qed (simp add: assms(2))

lemma text_copied:
  assumes "CHR ''%'' \<notin> set t"
  shows "vs t args = Inr (t, int (length t) + over)"
  using text_then_format[OF assms, of "[]"] empty_format by simp

lemma buffer_ok:
  assumes "vs fmt args = Inr (s, n)" and "length s < size_buf"
  shows "into_buffer vs size_buf fmt args = Inr (s @ [NUL], int (length s) + over)"
  using assms counts[OF assms(1)] by (simp add: into_buffer_def)

lemma buffer_overrun:
  assumes "vs fmt args = Inr (s, n)" and "size_buf \<le> length s"
  shows "into_buffer vs size_buf fmt args = Inl OutOfBounds"
  using assms by (simp add: into_buffer_def)

lemma prints:
  assumes u: "handle m Uart \<noteq> 0" "settles B (base_of m Uart DEFAULT_UART + UART_SR) tx_busy"
    and f: "vs fmt args = Inr (s, n)" "length s < CONFIG_PRINT_BUFSIZE"
  shows "\<exists>h es. pp_vprintf vs B fmt args m = Some (Inr (Inr (int (length s) + over), on_bus h es m)) \<and>
    writes_at (base_of m Uart DEFAULT_UART + UART_TDR) es = crlf (bytes s @ [0])"
proof -
  have b: "bytes (s @ [NUL]) = bytes s @ [0]" by (simp add: bytes_def NUL_def)
  obtain h es where "uart_write_string B DEFAULT_UART (bytes s @ [0]) m = Some (Inr ((), on_bus h es m))"
    "writes_at (base_of m Uart DEFAULT_UART + UART_TDR) es = crlf (bytes s @ [0])"
    using uart_string_sends[OF u] by blast
  then show ?thesis
    unfolding pp_vprintf_def buffer_ok[OF f] sum.case prod.case b uart_default_write_string_def
    by (intro exI[of _ h] exI[of _ es]) (simp add: thn_def bnd_def)
qed

end

section \<open>The four formatters\<close>

text \<open>The position matters only for what \<^verbatim>\<open>%n\<close> stores.\<close>

abbreviation no_stores :: "('a \<times> 'b \<times> 'c) presult \<Rightarrow> ('a \<times> 'c) presult" where
  "no_stores r \<equiv> pbind r (\<lambda>(a, b, c). Inr (a, c))"

lemma conversion_position:
  "no_stores (conversion K n flags w p q fmt args) = no_stores (conversion K m flags w p q fmt args)"
  by (cases "va_num args") (simp_all add: conversion_def Let_def split: prod.split)

lemma directive_position:
  "no_stores (directive K n fmt args) = no_stores (directive K m fmt args)"
proof -
  obtain fl f0 where g: "get_flags 0 fmt = (fl, f0)" by fastforce
  show ?thesis
  proof (cases "get_width fl f0 args")
    case (Inr a)
    obtain w fl1 f1 a1 where w: "a = (w, fl1, f1, a1)" by (cases a) auto
    show ?thesis
    proof (cases "get_precision f1 a1")
      case (Inr b)
      obtain p f2 a2 where "b = (p, f2, a2)" by (cases b) auto
      moreover obtain q f3 where "get_qualifier f2 = (q, f3)" by fastforce
      ultimately show ?thesis
        using g w Inr \<open>get_width fl f0 args = Inr a\<close>
          conversion_position[of K n fl1 w p q f3 a2 m] by (simp add: directive_def)
    qed (use g w Inr in \<open>simp add: directive_def\<close>)
  qed (use g in \<open>simp add: directive_def\<close>)
qed

lemma directive_moved:
  "directive K n fmt args = Inl e \<Longrightarrow> directive K m fmt args = Inl e"
  "directive K n fmt args = Inr (o1, st, fmt', args') \<Longrightarrow> \<exists>st'. directive K m fmt args = Inr (o1, st', fmt', args')"
  using directive_position[of K n fmt args m] by (cases "directive K m fmt args"; auto)+

lemma loop_prefix:
  "pbind (vsprintf_loop K (t @ str) fmt args) (\<lambda>(s, st). Inr s) =
   pbind (vsprintf_loop K str fmt args) (\<lambda>(s, st). Inr (t @ s))"
proof (induction K str fmt args rule: vsprintf_loop.induct)
  case (2 K str c fmt args)
  show ?case
  proof (cases "c = CHR ''%''")
    case False
    then show ?thesis using 2(1) by simp
  next
    case True
    show ?thesis
    proof (cases "directive K (length str) fmt args")
      case (Inl e)
      then show ?thesis using True directive_moved(1)[OF Inl] by simp
    next
      case (Inr a)
      obtain o1 st fmt' args' where a: "a = (o1, st, fmt', args')" by (cases a) auto
      obtain st' where d: "directive K (length (t @ str)) fmt args = Inr (o1, st', fmt', args')"
        using directive_moved(2) Inr a by blast
      have "pbind (vsprintf_loop K (t @ str @ o1) fmt' args') (\<lambda>(s, st). Inr s) =
          pbind (vsprintf_loop K (str @ o1) fmt' args') (\<lambda>(s, st). Inr (t @ s))"
        using 2(2)[OF _ Inr a[symmetric] refl refl] True by simp
      then show ?thesis
        using True Inr a d
        by (cases "vsprintf_loop K (t @ str @ o1) fmt' args'"; cases "vsprintf_loop K (str @ o1) fmt' args'") auto
    qed
  qed
qed simp

interpretation full: formatter "pp_vsprintf K" 0 for K
proof unfold_locales
  fix c fmt args
  assume "c \<noteq> CHR ''%''"
  then show "pp_vsprintf K (c # fmt) args = pbind (pp_vsprintf K fmt args) (\<lambda>(s, n). Inr (c # s, n + 1))"
    using loop_prefix[of K "[c]" "[]" fmt args]
    by (cases "vsprintf_loop K [c] fmt args"; cases "vsprintf_loop K [] fmt args")
      (auto simp: pp_vsprintf_def pp_vsprintf_stores_def)
qed (auto simp: pp_vsprintf_def pp_vsprintf_stores_def pbind_Inr_iff)

interpretation xint: formatter pp_vsprintf_xint 0
proof unfold_locales
  fix c fmt args
  assume "c \<noteq> CHR ''%''"
  then show "pp_vsprintf_xint (c # fmt) args = pbind (pp_vsprintf_xint fmt args) (\<lambda>(s, n). Inr (c # s, n + 1))"
    by (cases "vsprintf_xint_loop fmt args") (auto simp: pp_vsprintf_xint_def)
qed (auto simp: pp_vsprintf_xint_def pbind_Inr_iff)

interpretation mini: formatter pp_vsprintf_mini 0
proof unfold_locales
  fix c fmt args
  assume "c \<noteq> CHR ''%''"
  then show "pp_vsprintf_mini (c # fmt) args = pbind (pp_vsprintf_mini fmt args) (\<lambda>(s, n). Inr (c # s, n + 1))"
    by (cases "vsprintf_mini_loop fmt args") (auto simp: pp_vsprintf_mini_def)
qed (auto simp: pp_vsprintf_mini_def pbind_Inr_iff)

interpretation none: formatter pp_vsprintf_none 1
  by unfold_locales (auto simp: pp_vsprintf_none_def)

section \<open>What is printed\<close>

text \<open>
  With any of the four formatters a text without a percent sign is copied as it
  is, in front of what the rest of the format gives; the smallest of them counts the
  terminating zero, too.
\<close>

lemma text_is_copied:
  assumes "CHR ''%'' \<notin> set t" and "pp_vsprintf K fmt args = Inr (s, n)"
  shows "pp_vsprintf K (t @ fmt) args = Inr (t @ s, n + int (length t)) \<and>
    pp_vsprintf_xint t args = Inr (t, int (length t)) \<and>
    pp_vsprintf_mini t args = Inr (t, int (length t)) \<and>
    pp_vsprintf_none t args = Inr (t, int (length t) + 1)"
  using full.text_then_format[OF assms] xint.text_copied[OF assms(1)] mini.text_copied[OF assms(1)]
    none.text_copied[OF assms(1)] by simp

definition demo_conf :: pconf where
  "demo_conf = \<lparr>cmd_net = False, mem = (\<lambda>_. 0)\<rparr>"

lemma text_is_copied_witness:
  "pp_vsprintf demo_conf ''id: %d'' [Num 7] = Inr (''id: 7'', 5) \<and>
   pp_vsprintf_none ''id: '' [Num 7] = Inr (''id: '', 5)"
  using text_is_copied[of "''id: ''" demo_conf "''%d''" "[Num 7]" "''7''" 1] by code_simp

text \<open>
  C21 (functional). When the formatted text has less than 128 characters, \<^verbatim>\<open>pp_printf\<close> returns its
  length and the UART has been sent exactly the text up to its first zero, with a carriage
  return before each newline.
\<close>

theorem pp_printf_prints:
  assumes "handle m Uart \<noteq> 0" and "settles B (base_of m Uart DEFAULT_UART + UART_SR) tx_busy"
    and "pp_vsprintf K fmt args = Inr (s, n)" and "length s < CONFIG_PRINT_BUFSIZE"
  shows "\<exists>h es. pp_printf_uart (pp_vsprintf K) B fmt args m = Some (Inr (Inr (int (length s)), on_bus h es m)) \<and>
    writes_at (base_of m Uart DEFAULT_UART + UART_TDR) es = crlf (bytes s @ [0])"
  using full.prints[OF assms] by (simp add: pp_printf_uart_def)

theorem pp_printf_prints_witness:
  "\<exists>h es. pp_printf_uart (pp_vsprintf demo_conf) demo_uart ''%3d%c'' [Num 42, Num 10] (demo_table Uart 1)
      = Some (Inr (Inr 4, on_bus h es (demo_table Uart 1))) \<and>
    writes_at 0x108 es = [32, 52, 50, 13, 10]"
proof -
  have "pp_vsprintf demo_conf ''%3d%c'' [Num 42, Num 10] = Inr ('' 42\<newline>'', 4)" by code_simp
  moreover have "crlf (bytes '' 42\<newline>'' @ [0]) = [32, 52, 50, 13, 10]" by code_simp
  ultimately show ?thesis
    using pp_printf_prints[OF _ demo_uart_settles, of "demo_table Uart 1" demo_conf
        "''%3d%c''" "[Num 42, Num 10]" "'' 42\<newline>''" 4]
    by (simp add: CONFIG_PRINT_BUFSIZE_def UART_TDR_def DEFAULT_UART_def)
qed

text \<open>
  Nothing limits the width of a field: a decimal conversion whose width argument is
  128 or more always writes past the end of the print buffer.
\<close>

lemma wide_field_overruns:
  assumes "128 \<le> sint w"
  shows "pp_printf_uart (pp_vsprintf K) B ''%*u'' [Num w, Num x] m = Some (Inr (Inl OutOfBounds, m))"
proof -
  let ?s = "number x 10 (sint w) (-1) 0"
  have "get_flags 0 ''*u'' = (0, ''*u'')" by simp
  moreover have "\<not> is_digit (CHR ''*'')" by (simp add: is_digit_def less_eq_char_def)
  ultimately have d: "directive K 0 ''*u'' [Num w, Num x] = Inr (?s, [], [], [])"
    using assms by (simp add: directive_def get_width_def get_precision_def get_qualifier_def
        conversion_def arg_value_def Let_def)
  have l: "128 \<le> length ?s"
    using assms by (simp add: number_layout_base[of _ 10] number_spec_def Let_def)
  have "pp_vsprintf K ''%*u'' [Num w, Num x] = Inr (?s, int (length ?s))"
    by (simp add: pp_vsprintf_def pp_vsprintf_stores_def d)
  from full.buffer_overrun[OF this l] show ?thesis
    by (simp add: pp_printf_uart_def pp_vprintf_def CONFIG_PRINT_BUFSIZE_def)
qed

lemma wide_field_overruns_witness:
  "pp_printf_uart (pp_vsprintf demo_conf) demo_uart ''%*u'' [Num 200, Num 7] (demo_table Uart 1)
     = Some (Inr (Inl OutOfBounds, demo_table Uart 1))"
  by (rule wide_field_overruns) simp

end
