(* ===== verification/Ethmac.thy ===== *)
theory Ethmac
  imports Devices
begin

text \<open>
  The driver of the OpenCores Ethernet MAC, \<^verbatim>\<open>lib/ethmac/ethmac_nolwip.c\<close>: initialisation, the MII
  management interface, set-up of the buffer descriptors, transmission and the interrupt
  handler. Received frames go to the callback \<open>recv\<close>, the \<^verbatim>\<open>user_recv\<close> of the application.
\<close>

text \<open>\<^verbatim>\<open>*a = f(*a)\<close> on a volatile register.\<close>

definition upd :: "'h plat \<Rightarrow> u32 \<Rightarrow> (u32 \<Rightarrow> u32) \<Rightarrow> ('h mach, unit) prog" where
  "upd B a f = bnd (rd B a) (\<lambda>v. wr B a (f v))"

section \<open>Registers and descriptors\<close>

text \<open>Offsets in \<^verbatim>\<open>oeth_regs\<close>.\<close>

definition ETH_moder :: u32 where "ETH_moder = 0x00"
definition ETH_int_src :: u32 where "ETH_int_src = 0x04"
definition ETH_int_mask :: u32 where "ETH_int_mask = 0x08"
definition ETH_ipgt :: u32 where "ETH_ipgt = 0x0C"
definition ETH_ipgr1 :: u32 where "ETH_ipgr1 = 0x10"
definition ETH_ipgr2 :: u32 where "ETH_ipgr2 = 0x14"
definition ETH_packet_len :: u32 where "ETH_packet_len = 0x18"
definition ETH_collconf :: u32 where "ETH_collconf = 0x1C"
definition ETH_tx_bd_num :: u32 where "ETH_tx_bd_num = 0x20"
definition ETH_ctrlmoder :: u32 where "ETH_ctrlmoder = 0x24"
definition ETH_miimoder :: u32 where "ETH_miimoder = 0x28"
definition ETH_miicommand :: u32 where "ETH_miicommand = 0x2C"
definition ETH_miiaddress :: u32 where "ETH_miiaddress = 0x30"
definition ETH_miitx_data :: u32 where "ETH_miitx_data = 0x34"
definition ETH_miirx_data :: u32 where "ETH_miirx_data = 0x38"
definition ETH_miistatus :: u32 where "ETH_miistatus = 0x3C"
definition ETH_mac_addr0 :: u32 where "ETH_mac_addr0 = 0x40"
definition ETH_mac_addr1 :: u32 where "ETH_mac_addr1 = 0x44"

definition OETH_ID :: u32 where "OETH_ID = 0"
definition OETH_BUF_ID :: u32 where "OETH_BUF_ID = 0"
definition OETH_BD_BASE_OFFS :: u32 where "OETH_BD_BASE_OFFS = 0x400"

definition OETH_TX_BD_READY :: u32 where "OETH_TX_BD_READY = 0x8000"
definition OETH_TX_BD_IRQ :: u32 where "OETH_TX_BD_IRQ = 0x4000"
definition OETH_TX_BD_WRAP :: u32 where "OETH_TX_BD_WRAP = 0x2000"
definition OETH_TX_BD_PAD :: u32 where "OETH_TX_BD_PAD = 0x1000"
definition OETH_TX_BD_CRC :: u32 where "OETH_TX_BD_CRC = 0x0800"
definition OETH_TX_BD_STATS :: u32 where
  "OETH_TX_BD_STATS = 0x0100 OR 0x00F0 OR 0x0008 OR 0x0004 OR 0x0002 OR 0x0001"

definition OETH_RX_BD_EMPTY :: u32 where "OETH_RX_BD_EMPTY = 0x8000"
definition OETH_RX_BD_IRQ :: u32 where "OETH_RX_BD_IRQ = 0x4000"
definition OETH_RX_BD_WRAP :: u32 where "OETH_RX_BD_WRAP = 0x2000"
definition OETH_RX_BD_MISS :: u32 where "OETH_RX_BD_MISS = 0x0080"
definition OETH_RX_BD_OVERRUN :: u32 where "OETH_RX_BD_OVERRUN = 0x0040"
definition OETH_RX_BD_INVSIMB :: u32 where "OETH_RX_BD_INVSIMB = 0x0020"
definition OETH_RX_BD_DRIBBLE :: u32 where "OETH_RX_BD_DRIBBLE = 0x0010"
definition OETH_RX_BD_TOOLONG :: u32 where "OETH_RX_BD_TOOLONG = 0x0008"
definition OETH_RX_BD_SHORT :: u32 where "OETH_RX_BD_SHORT = 0x0004"
definition OETH_RX_BD_CRCERR :: u32 where "OETH_RX_BD_CRCERR = 0x0002"
definition OETH_RX_BD_LATECOL :: u32 where "OETH_RX_BD_LATECOL = 0x0001"
definition OETH_RX_BD_STATS :: u32 where
  "OETH_RX_BD_STATS = OETH_RX_BD_MISS OR OETH_RX_BD_OVERRUN OR OETH_RX_BD_INVSIMB OR
     OETH_RX_BD_DRIBBLE OR OETH_RX_BD_TOOLONG OR OETH_RX_BD_SHORT OR OETH_RX_BD_CRCERR OR
     OETH_RX_BD_LATECOL"

definition OETH_MODER_RXEN :: u32 where "OETH_MODER_RXEN = 0x1"
definition OETH_MODER_TXEN :: u32 where "OETH_MODER_TXEN = 0x2"
definition OETH_MODER_IFG :: u32 where "OETH_MODER_IFG = 0x40"
definition OETH_MODER_FULLD :: u32 where "OETH_MODER_FULLD = 0x400"
definition OETH_MODER_RST :: u32 where "OETH_MODER_RST = 0x800"
definition OETH_MODER_CRCEN :: u32 where "OETH_MODER_CRCEN = 0x2000"
definition OETH_MODER_PAD :: u32 where "OETH_MODER_PAD = 0x8000"

definition OETH_INT_TXB :: u32 where "OETH_INT_TXB = 0x01"
definition OETH_INT_TXE :: u32 where "OETH_INT_TXE = 0x02"
definition OETH_INT_RXF :: u32 where "OETH_INT_RXF = 0x04"
definition OETH_INT_RXE :: u32 where "OETH_INT_RXE = 0x08"
definition OETH_INT_BUSY :: u32 where "OETH_INT_BUSY = 0x10"

text \<open>All seven sources.\<close>

definition OETH_INT_MASK_ALL :: u32 where
  "OETH_INT_MASK_ALL = 0x01 OR 0x02 OR 0x04 OR 0x08 OR 0x10 OR 0x20 OR 0x40"

definition OETH_MIIMODER_RST :: u32 where "OETH_MIIMODER_RST = 0x200"
definition OETH_MIICOMMAND_RSTAT :: u32 where "OETH_MIICOMMAND_RSTAT = 0x2"
definition OETH_MIICOMMAND_WCTRLDATA :: u32 where "OETH_MIICOMMAND_WCTRLDATA = 0x4"
definition OETH_MIISTATUS_BUSY :: u32 where "OETH_MIISTATUS_BUSY = 0x2"

definition MII_BMCR :: u16 where "MII_BMCR = 0x00"
definition MII_ADVERTISE :: u16 where "MII_ADVERTISE = 0x04"
definition MII_EXPANSION :: u16 where "MII_EXPANSION = 0x06"
definition MII_CTRL1000 :: u16 where "MII_CTRL1000 = 0x09"
definition BMCR_ANRESTART :: u16 where "BMCR_ANRESTART = 0x0200"
definition BMCR_ANENABLE :: u16 where "BMCR_ANENABLE = 0x1000"
definition ADVERTISE_ALL :: u16 where "ADVERTISE_ALL = 0x0020 OR 0x0040 OR 0x0080 OR 0x0100"
definition ESTATUS_1000_TFULL :: u16 where "ESTATUS_1000_TFULL = 0x2000"
definition ESTATUS_1000_THALF :: u16 where "ESTATUS_1000_THALF = 0x1000"
definition ADVERTISE_1000FULL :: u16 where "ADVERTISE_1000FULL = 0x0200"
definition ADVERTISE_1000HALF :: u16 where "ADVERTISE_1000HALF = 0x0100"

definition OETH_RXBD_NUM :: nat where "OETH_RXBD_NUM = 8"
definition OETH_TXBD_NUM :: nat where "OETH_TXBD_NUM = 8"
definition OETH_TXBD_NUM_MASK :: nat where "OETH_TXBD_NUM_MASK = OETH_TXBD_NUM - 1"
definition BUFF_SIZE :: u32 where "BUFF_SIZE = 0x800"
definition ETH_ZLEN :: int where "ETH_ZLEN = 60"

definition ETH_MACADDR :: "u8 list" where
  "ETH_MACADDR = [0x00, 0x0a, 0x35, 0x02, 0x53, 0x2d]"

text \<open>The words of descriptor \<open>i\<close>, from the first descriptor.\<close>

definition bd_len_status :: "u32 \<Rightarrow> nat \<Rightarrow> u32" where
  "bd_len_status bd i = bd + of_nat (8 * i)"

definition bd_addr :: "u32 \<Rightarrow> nat \<Rightarrow> u32" where
  "bd_addr bd i = bd + of_nat (8 * i) + 4"

section \<open>Initialisation\<close>

abbreviation eth_info :: u32 where "eth_info \<equiv> DBG_ETH OR DBE_DBG_INFO"
abbreviation eth_trace :: u32 where "eth_trace \<equiv> DBG_ETH OR DBE_DBG_TRACE"

abbreviation msg :: "u32 \<Rightarrow> string \<Rightarrow> ('h mach, unit) prog" where
  "msg dbg fmt \<equiv> DBE_DEBUG dbg fmt (ret [])"

definition store_word :: "addr \<Rightarrow> nat \<Rightarrow> u32 \<Rightarrow> ('h mach, unit) prog" where
  "store_word p i w = thn (deref p) (modify (\<lambda>s. s\<lparr>words := (words s)(p + 4 * i := w)\<rparr>))"

definition load_word :: "('h mach \<Rightarrow> addr) \<Rightarrow> u32 \<Rightarrow> ('h mach, u32) prog" where
  "load_word g idx =
     bnd (gets g) (\<lambda>p. thn (deref p) (gets (\<lambda>s. words s (p + 4 * unat idx))))"

fun ethmac_init_loop :: "addr \<Rightarrow> addr \<Rightarrow> nat \<Rightarrow> nat \<Rightarrow> addr \<Rightarrow> ('h mach, unit) prog" where
  "ethmac_init_loop p q i 0 d = ret ()"
| "ethmac_init_loop p q i (Suc n) d =
     thn (deref d)
     (bnd (gets (\<lambda>s. node_base s d)) (\<lambda>b.
     thn (store_word p i b)
     (thn (store_word q i (b + OETH_BD_BASE_OFFS))
     (thn (debug_addr eth_info ''> ethmac addr[%d]: %08X\<newline>'' i b)
     (thn (debug_addr eth_info ''> ethmac_bd addr[%d]: %08X\<newline>'' i (b + OETH_BD_BASE_OFFS))
     (bnd (gets (\<lambda>s. node_next s d)) (\<lambda>d'. ethmac_init_loop p q (Suc i) n d')))))))"

text \<open>\<open>n\<close> steps along a device list.\<close>

fun walk_nodes :: "nat \<Rightarrow> addr \<Rightarrow> ('h mach, addr) prog" where
  "walk_nodes 0 d = ret d"
| "walk_nodes (Suc n) d = thn (deref d) (bnd (gets (\<lambda>s. node_next s d)) (\<lambda>d'. walk_nodes n d'))"

definition ethmac_init :: "'h plat \<Rightarrow> ('h mach, int) prog" where
  "ethmac_init B =
     bnd (gets (\<lambda>s. devl s Ethmac)) (\<lambda>l.
     thn (deref l)
     (bnd (gets (\<lambda>s. devl_devices s l)) (\<lambda>d.
       if d = 0 then ret (-1)
       else
         bnd (gets (\<lambda>s. devl s Mem)) (\<lambda>ml.
         thn (deref ml)
         (bnd (gets (\<lambda>s. devl_devices s ml)) (\<lambda>md.
           if md = 0 then ret (-1)
           else
             bnd (gets (\<lambda>s. devl_size s l)) (\<lambda>n.
             bnd (malloc B (4 * n)) (\<lambda>p.
             thn (modify (\<lambda>s. s\<lparr>handle := (handle s)(Ethmac := p)\<rparr>))
             (bnd (malloc B (4 * n)) (\<lambda>q.
             thn (modify (\<lambda>s. s\<lparr>ethmac_bd := q\<rparr>))
             (bnd (malloc B (4 * n)) (\<lambda>r.
             thn (modify (\<lambda>s. s\<lparr>ethmac_buf := r\<rparr>))
             (thn (ethmac_init_loop p q 0 (unat n) d)
             (thn (debug_size eth_info ''> ethmac size: %d\<newline>'' n)
             (bnd (gets (\<lambda>s. devl_size s ml)) (\<lambda>mn.
             bnd (walk_nodes (unat (mn - 1)) md) (\<lambda>last.
             thn (deref last)
             (bnd (gets (\<lambda>s. node_base s last)) (\<lambda>b.
             thn (store_word r (unat OETH_BUF_ID) b)
             (thn (debug_addr eth_info ''> ethmac_buf[%d]: %08X\<newline>'' (unat OETH_BUF_ID) b)
               (ret 0)))))))))))))))))))))"

section \<open>MII management\<close>

definition eth_regs :: "('h mach, u32) prog" where
  "eth_regs = dev_base Ethmac OETH_ID"

definition mii_wait :: "'h plat \<Rightarrow> u32 \<Rightarrow> ('h mach, unit) prog" where
  "mii_wait B regs =
     wait_while (bnd (rd B (regs + ETH_miistatus)) (\<lambda>v. ret (v AND OETH_MIISTATUS_BUSY \<noteq> 0)))"

text \<open>
  \<^verbatim>\<open>(regnum << 8) | phynum\<close>, both promoted to \<^verbatim>\<open>int\<close>: the \<^verbatim>\<open>short\<close> with its sign, the \<^verbatim>\<open>char\<close> as an
  unsigned number, which it is on the processor.
\<close>

definition mii_address :: "u8 \<Rightarrow> u16 \<Rightarrow> u32" where
  "mii_address phynum regnum = push_bit 8 (scast regnum) OR ucast phynum"

definition eth_mii_write :: "'h plat \<Rightarrow> u8 \<Rightarrow> u16 \<Rightarrow> u16 \<Rightarrow> ('h mach, unit) prog" where
  "eth_mii_write B phynum regnum data =
     bnd eth_regs (\<lambda>regs.
     doall
      [wr B (regs + ETH_miiaddress) (mii_address phynum regnum),
       wr B (regs + ETH_miitx_data) (scast data),
       wr B (regs + ETH_miicommand) OETH_MIICOMMAND_WCTRLDATA,
       wr B (regs + ETH_miicommand) 0,
       mii_wait B regs])"

definition eth_mii_read :: "'h plat \<Rightarrow> u8 \<Rightarrow> u16 \<Rightarrow> ('h mach, u16) prog" where
  "eth_mii_read B phynum regnum =
     bnd eth_regs (\<lambda>regs.
     thn (doall
      [wr B (regs + ETH_miiaddress) (mii_address phynum regnum),
       wr B (regs + ETH_miicommand) OETH_MIICOMMAND_RSTAT,
       wr B (regs + ETH_miicommand) 0,
       mii_wait B regs])
     (bnd (rd B (regs + ETH_miirx_data)) (\<lambda>v. ret (ucast v))))"

text \<open>Read a PHY register, change it, write it back; the code reads from \<open>rphy\<close>.\<close>

definition mii_update :: "'h plat \<Rightarrow> u8 \<Rightarrow> u8 \<Rightarrow> u16 \<Rightarrow> (u16 \<Rightarrow> u16) \<Rightarrow> ('h mach, unit) prog" where
  "mii_update B rphy phynum regnum f =
     bnd (eth_mii_read B rphy regnum) (\<lambda>cr. eth_mii_write B phynum regnum (f cr))"

section \<open>Set-up\<close>

definition setup_regs :: "'h plat \<Rightarrow> u32 \<Rightarrow> ('h mach, unit) prog" where
  "setup_regs B regs =
     doall
      [DBE_DEBUG eth_info ''regs addr = 0X%08X\<newline>'' (ret [Num regs]),
       wr B (regs + ETH_miimoder) OETH_MIIMODER_RST,
       upd B (regs + ETH_miimoder) (\<lambda>v. v AND NOT OETH_MIIMODER_RST),
       wr B (regs + ETH_miimoder) 0x64,
       wr B (regs + ETH_moder) OETH_MODER_RST,
       upd B (regs + ETH_moder) (\<lambda>v. v AND NOT OETH_MODER_RST),
       wr B (regs + ETH_tx_bd_num) (of_nat OETH_TXBD_NUM),
       DBE_DEBUG eth_info ''TX BD num = 0X%08X\<newline>''
         (bnd (rd B (regs + ETH_tx_bd_num)) (\<lambda>v. ret [Num v])),
       wr B (regs + ETH_packet_len) 0x00400600,
       wr B (regs + ETH_ipgt) 0x12,
       wr B (regs + ETH_ipgr1) 0x0000000c,
       wr B (regs + ETH_ipgr2) 0x00000012,
       wr B (regs + ETH_collconf) 0x000f003f,
       wr B (regs + ETH_ctrlmoder) 0,
       wr B (regs + ETH_miitx_data) 0,
       wr B (regs + ETH_miiaddress) 0,
       wr B (regs + ETH_miicommand) 0,
       wr B (regs + ETH_mac_addr1) (push_bit 8 (ucast (ETH_MACADDR ! 0)) OR ucast (ETH_MACADDR ! 1)),
       wr B (regs + ETH_mac_addr0)
         (push_bit 24 (ucast (ETH_MACADDR ! 2)) OR push_bit 16 (ucast (ETH_MACADDR ! 3)) OR
          push_bit 8 (ucast (ETH_MACADDR ! 4)) OR ucast (ETH_MACADDR ! 5)),
       wr B (regs + ETH_int_src) 0xffffffff,
       upd B (regs + ETH_moder)
         (\<lambda>v. v OR (OETH_MODER_PAD OR OETH_MODER_IFG OR OETH_MODER_CRCEN OR OETH_MODER_FULLD)),
       wr B (regs + ETH_int_mask) OETH_INT_MASK_ALL]"

text \<open>One descriptor of a ring: its status, the address of its buffer, and a message.\<close>

definition setup_bd ::
  "'h plat \<Rightarrow> string \<Rightarrow> u32 \<Rightarrow> u32 \<Rightarrow> u32 \<Rightarrow> nat \<Rightarrow> ('h mach, unit) prog" where
  "setup_bd B fmt status bd mem_addr i =
     doall
      [wr B (bd_len_status bd i) status,
       wr B (bd_addr bd i) (mem_addr + of_nat i * BUFF_SIZE),
       DBE_DEBUG eth_info fmt (bnd (rd B (bd_addr bd i)) (\<lambda>v. ret [Num (of_nat i), Num v]))]"

definition setup_buffers :: "'h plat \<Rightarrow> u32 \<Rightarrow> u32 \<Rightarrow> ('h mach, unit) prog" where
  "setup_buffers B tx_bd mem_addr =
     (let rx_bd = tx_bd + of_nat (8 * OETH_TXBD_NUM)
      in doall
          ([DBE_DEBUG eth_info ''> tx_bd = 0X%08X\<newline>'' (ret [Num tx_bd]),
            DBE_DEBUG eth_info ''> rx_bd = 0X%08X\<newline>'' (ret [Num rx_bd]),
            DBE_DEBUG eth_info ''> ethmac buffer addr = 0X%08X\<newline>'' (ret [Num mem_addr])] @
           map (setup_bd B ''> tx_bd[%d].addr: 0X%8X\<newline>'' (OETH_TX_BD_PAD OR OETH_TX_BD_CRC) tx_bd mem_addr)
             [0..<OETH_TXBD_NUM] @
           [upd B (bd_len_status tx_bd (OETH_TXBD_NUM - 1)) (\<lambda>v. v OR OETH_TX_BD_WRAP)] @
           map (setup_bd B ''> rx_bd[%d].addr: 0X%8X\<newline>'' (OETH_RX_BD_EMPTY OR OETH_RX_BD_IRQ) rx_bd
                 (mem_addr + of_nat OETH_TXBD_NUM * BUFF_SIZE))
             [0..<OETH_RXBD_NUM] @
           [upd B (bd_len_status rx_bd (OETH_RXBD_NUM - 1)) (\<lambda>v. v OR OETH_RX_BD_WRAP)]))"

definition setup_phy :: "'h plat \<Rightarrow> u8 \<Rightarrow> ('h mach, unit) prog" where
  "setup_phy B phynum =
     doall
      [mii_update B phynum phynum MII_ADVERTISE (\<lambda>cr. cr OR ADVERTISE_ALL),
       mii_update B phynum phynum MII_CTRL1000 (\<lambda>cr. cr AND NOT (ADVERTISE_1000FULL OR ADVERTISE_1000HALF)),
       mii_update B phynum phynum MII_EXPANSION (\<lambda>cr. cr AND NOT (ESTATUS_1000_THALF OR ESTATUS_1000_TFULL)),
       mii_update B 0 phynum MII_BMCR (\<lambda>cr. cr OR (BMCR_ANRESTART OR BMCR_ANENABLE))]"

definition ethmac_setup :: "'h plat \<Rightarrow> u8 \<Rightarrow> ('h mach, unit) prog" where
  "ethmac_setup B phynum =
     thn (msg eth_info ''setting up ethmac...\<newline>'')
     (bnd eth_regs (\<lambda>regs.
     thn (setup_regs B regs)
     (bnd (load_word ethmac_bd OETH_ID) (\<lambda>tx_bd.
     bnd (load_word ethmac_buf OETH_BUF_ID) (\<lambda>mem_addr.
     doall
      [setup_buffers B tx_bd mem_addr,
       setup_phy B phynum,
       upd B (regs + ETH_moder) (\<lambda>v. v OR (OETH_MODER_RXEN OR OETH_MODER_TXEN)),
       modify (\<lambda>s. s\<lparr>next_tx_buf_num := 0\<rparr>)])))))"

definition ethmac_halt :: "'h plat \<Rightarrow> ('h mach, unit) prog" where
  "ethmac_halt B =
     bnd eth_regs (\<lambda>regs.
       upd B (regs + ETH_moder) (\<lambda>v. v AND NOT (OETH_MODER_RXEN OR OETH_MODER_TXEN)))"

section \<open>Transmission\<close>

text \<open>
  \<open>data\<close> is the array the pointer points into; reading past its end has no defined result. A
  length that is not positive copies nothing.
\<close>

definition tx_copy :: "'h plat \<Rightarrow> u8 list \<Rightarrow> int \<Rightarrow> u32 \<Rightarrow> ('h mach, unit) prog" where
  "tx_copy B data len buf =
     (if length data < nat len then fail BufferOverrun
      else doall (map (\<lambda>i. wrb B (buf + of_nat i) (data ! i)) [0..<nat len]))"

definition tx_pad_status :: "int \<Rightarrow> u32 \<Rightarrow> u32" where
  "tx_pad_status len v = (if len \<le> ETH_ZLEN then v OR OETH_TX_BD_PAD else v AND NOT OETH_TX_BD_PAD)"

definition tx_len_status :: "int \<Rightarrow> u32 \<Rightarrow> u32" where
  "tx_len_status len v = (v AND 0x0000ffff) OR push_bit 16 (word_of_int len AND 0xffff)"

text \<open>Wait for descriptor \<open>n\<close>, fill its buffer and hand it to the core.\<close>

definition tx_descriptor :: "'h plat \<Rightarrow> u32 \<Rightarrow> nat \<Rightarrow> u8 list \<Rightarrow> int \<Rightarrow> ('h mach, unit) prog" where
  "tx_descriptor B bd n data len =
     (let ls = bd_len_status bd n in
      doall
       [wait_while (bnd (rd B ls) (\<lambda>v. ret (v AND OETH_TX_BD_IRQ \<noteq> 0))),
        upd B ls (\<lambda>v. v AND NOT OETH_TX_BD_STATS),
        upd B ls (tx_pad_status len),
        bnd (rd B (bd_addr bd n)) (tx_copy B data len),
        upd B ls (tx_len_status len),
        upd B ls (\<lambda>v. v OR (OETH_TX_BD_READY OR OETH_TX_BD_CRC OR OETH_TX_BD_IRQ))])"

definition tx_packet :: "'h plat \<Rightarrow> u8 list \<Rightarrow> int \<Rightarrow> ('h mach, unit) prog" where
  "tx_packet B data len =
     bnd eth_regs (\<lambda>_.
     thn (msg eth_info ''> sending tx_packet\<newline>'')
     (bnd (load_word ethmac_bd OETH_BUF_ID) (\<lambda>bd.
     bnd (gets next_tx_buf_num) (\<lambda>n.
     thn (tx_descriptor B bd n data len)
         (modify (\<lambda>s. s\<lparr>next_tx_buf_num := (next_tx_buf_num s + 1) AND OETH_TXBD_NUM_MASK\<rparr>))))))"

section \<open>Interrupts\<close>

text \<open>The tests of a received frame, each on a fresh read of the status.\<close>

fun rx_checks :: "'h plat \<Rightarrow> u32 \<Rightarrow> (u32 \<times> string) list \<Rightarrow> bool \<Rightarrow> ('h mach, bool) prog" where
  "rx_checks B ls [] bad = ret bad"
| "rx_checks B ls ((m, text) # cs) bad =
     bnd (rd B ls) (\<lambda>v.
       if v AND m \<noteq> 0 then thn (msg eth_trace text) (rx_checks B ls cs True)
       else rx_checks B ls cs bad)"

definition rx_errors :: "(u32 \<times> string) list" where
  "rx_errors =
     [(OETH_RX_BD_TOOLONG OR OETH_RX_BD_SHORT, ''> short!\<newline>''),
      (OETH_RX_BD_DRIBBLE, ''> dribble!\<newline>''),
      (OETH_RX_BD_CRCERR, ''> CRC error!\<newline>''),
      (OETH_RX_BD_OVERRUN, ''> overrun!\<newline>''),
      (OETH_RX_BD_MISS, ''> missed!\<newline>''),
      (OETH_RX_BD_LATECOL, ''> late collision!\<newline>'')]"

type_synonym 'h recv = "(nat \<Rightarrow> u8) \<Rightarrow> int \<Rightarrow> ('h mach, unit) prog"

text \<open>Clear the status bits and give the buffer back to the core.\<close>

definition rx_release :: "'h plat \<Rightarrow> u32 \<Rightarrow> ('h mach, unit) prog" where
  "rx_release B ls =
     thn (upd B ls (\<lambda>v. v AND NOT OETH_RX_BD_STATS)) (upd B ls (\<lambda>v. v OR OETH_RX_BD_EMPTY))"

definition rx_deliver :: "'h plat \<Rightarrow> 'h recv \<Rightarrow> u32 \<Rightarrow> u32 \<Rightarrow> ('h mach, unit) prog" where
  "rx_deliver B recv ls ad =
     bnd (rd B ad) (\<lambda>buf.
     thn (msg eth_trace ''> processing incoming packet\<newline>'')
     (bnd (rd B ls) (\<lambda>v.
     thn (DBE_DEBUG eth_trace ''> len_status: 0X%8X\<newline>'' (bnd (rd B ls) (\<lambda>v. ret [Num v])))
     (bnd (gets hw) (\<lambda>h. recv (\<lambda>k. mem_byte B (buf + of_nat k) h) (uint (drop_bit 16 v)))))))"

definition oeth_rx_bd :: "'h plat \<Rightarrow> 'h recv \<Rightarrow> u32 \<Rightarrow> nat \<Rightarrow> ('h mach, unit) prog" where
  "oeth_rx_bd B recv rx i =
     (let ls = bd_len_status rx i; ad = bd_addr rx i
      in thn (DBE_DEBUG eth_trace ''> rxbd_num: %d\<newline>'' (ret [Num (of_nat i)]))
         (thn (DBE_DEBUG eth_trace ''> rxbd[%d]: 0X%08X\<newline>''
                (bnd (rd B ls) (\<lambda>v. bnd (rd B ad) (\<lambda>w. ret [Num (of_nat i), Num v, Num w]))))
         (thn (DBE_DEBUG eth_trace ''> rxbd[%d].addr: 0X%08X\<newline>''
                (bnd (rd B ad) (\<lambda>w. ret [Num (of_nat i), Num w])))
         (bnd (rd B ls) (\<lambda>v.
           if v AND OETH_RX_BD_EMPTY = 0 then
             thn (DBE_DEBUG eth_trace ''> len_status: 0X%8X\<newline>'' (bnd (rd B ls) (\<lambda>v. ret [Num v])))
             (bnd (rx_checks B ls rx_errors False) (\<lambda>bad.
               if bad then rx_release B ls
               else thn (rx_deliver B recv ls ad) (rx_release B ls)))
           else msg eth_trace ''> empty!\<newline>'')))))"

definition oeth_rx :: "'h plat \<Rightarrow> 'h recv \<Rightarrow> ('h mach, unit) prog" where
  "oeth_rx B recv =
     bnd eth_regs (\<lambda>_.
     thn (msg eth_trace ''oeth_rx:\<newline>'')
     (bnd (load_word ethmac_bd OETH_ID) (\<lambda>bd.
       doall (map (oeth_rx_bd B recv (bd + of_nat (8 * OETH_TXBD_NUM))) [0..<OETH_RXBD_NUM]))))"

definition oeth_tx_bd :: "'h plat \<Rightarrow> u32 \<Rightarrow> nat \<Rightarrow> ('h mach, unit) prog" where
  "oeth_tx_bd B tx i =
     (let ls = bd_len_status tx i
      in bnd (rd B ls) (\<lambda>v.
           if v AND OETH_TX_BD_READY = 0 then
             bnd (rd B ls) (\<lambda>w.
               if w AND OETH_TX_BD_IRQ \<noteq> 0 then upd B ls (\<lambda>v. v AND NOT OETH_TX_BD_IRQ) else ret ())
           else ret ()))"

definition oeth_tx :: "'h plat \<Rightarrow> ('h mach, unit) prog" where
  "oeth_tx B =
     thn (msg eth_trace ''oeth_tx:\<newline>'')
     (bnd (load_word ethmac_bd OETH_ID) (\<lambda>bd.
       doall (map (oeth_tx_bd B bd) [0..<OETH_TXBD_NUM])))"

definition oeth_interrupt :: "'h plat \<Rightarrow> 'h recv \<Rightarrow> ('h mach, unit) prog" where
  "oeth_interrupt B recv =
     bnd eth_regs (\<lambda>regs.
     bnd (rd B (regs + ETH_int_src)) (\<lambda>int_events.
     doall
      [wr B (regs + ETH_int_src) int_events,
       DBE_DEBUG eth_trace ''> int_events = 0x%8X\<newline>'' (ret [Num int_events]),
       if int_events AND (OETH_INT_RXF OR OETH_INT_RXE) \<noteq> 0
       then thn (msg eth_trace ''> interrupt on rx line\<newline>'') (oeth_rx B recv) else ret (),
       if int_events AND (OETH_INT_TXB OR OETH_INT_TXE) \<noteq> 0
       then thn (msg eth_trace ''> interrupt on tx line\<newline>'') (oeth_tx B) else ret (),
       if int_events AND OETH_INT_BUSY \<noteq> 0
       then thn (msg eth_trace ''> receive busy\<newline>'')
         (if int_events AND (OETH_INT_RXF OR OETH_INT_RXE) = 0 then oeth_rx B recv else ret ())
       else ret (),
       msg eth_trace ''> nothing\<newline>'']))"

end
