(* ===== verification/Ethmac_Correct.thy ===== *)
theory Ethmac_Correct
  imports Ethmac Spi
begin

text \<open>
  What the Ethernet driver does on the bus: the rings of descriptors it sets up, the order of a
  transmission, and which received frames reach the application.
\<close>

section \<open>Running sequences\<close>

lemma on_bus_talk: "on_bus h es s = talk h es [] s"
  by (simp add: on_bus_def talk_def)

lemma upd_run:
  "upd B a f s =
     (let r = bus_read B a (hw s)
      in Some (Inr ((), talk (bus_write B a (f (fst r)) (snd r)) [Rd a (fst r), Wr a (f (fst r))] [] s)))"
  by (simp add: upd_def bnd_def rd_run wr_run on_bus_talk Let_def)

lemma upd_cases:
  obtains v h where "upd B a f s = Some (Inr ((), talk h [Rd a v, Wr a (f v)] [] s))"
    "v = fst (bus_read B a (hw s))" "h = bus_write B a (f v) (snd (bus_read B a (hw s)))"
  using upd_run[of B a f s] by (simp add: Let_def)

lemma wrb_run: "wrb B a c s = Some (Inr ((), talk (mem_put B a c (hw s)) [WrB a c] [] s))"
  by (simp add: wrb_def talk_def)

lemma doall_wrb:
  "\<exists>h. doall (map (\<lambda>i. wrb B (f i) (g i)) xs) s = Some (Inr ((), talk h (map (\<lambda>i. WrB (f i) (g i)) xs) [] s))"
proof (induction xs arbitrary: s)
  case Nil
  show ?case by (auto intro: exI[of _ "hw s"] simp: talk_nil)
next
  case (Cons x xs)
  show ?case
    using Cons[of "talk (mem_put B (f x) (g x) (hw s)) [WrB (f x) (g x)] [] s"]
    by (auto simp: thn_def bnd_def wrb_run)
qed

lemma pp_printf_talk: "pp_printf fmt as s = Some (Inr ((), talk (hw s) [] [(fmt, as)] s))"
  by (simp add: pp_printf_def talk_def)

lemma msg_info: "msg eth_info text s = Some (Inr ((), talk (hw s) [] [(text, [])] s))"
  by (simp add: DBE_DEBUG_def DBG_ETH_def DBE_DBG_INFO_def DBG_SUBSYS_ON_def DBG_MIN_LEVEL_def
      DBE_DBG_MASK_def DBG_GENERIC_def DBG_GPIO_def DBG_SPI_def DBG_UART_def DBG_I2C_def DBG_OWR_def
      bnd_def pp_printf_def talk_def)

lemma eth_trace_off: "DBE_DEBUG eth_trace text args = ret ()"
  by (simp add: DBE_DEBUG_def DBG_ETH_def DBE_DBG_TRACE_def DBE_DBG_INFO_def DBG_MIN_LEVEL_def
      DBE_DBG_MASK_def)

lemma load_word_run:
  "g s \<noteq> 0 \<Longrightarrow> load_word g idx s = Some (Inr (words s (g s + 4 * unat idx), s))"
  by (simp add: load_word_def bnd_def thn_def deref_def)

section \<open>Transmission\<close>

abbreviation tx_irq :: "u32 \<Rightarrow> bool" where
  "tx_irq v \<equiv> v AND OETH_TX_BD_IRQ \<noteq> 0"

text \<open>The descriptor the next packet goes to.\<close>

definition tx_bd_of :: "'h mach \<Rightarrow> u32" where
  "tx_bd_of s = words s (ethmac_bd s + 4 * unat OETH_BUF_ID)"

text \<open>
  The interrupt flag of a descriptor is set by \<^verbatim>\<open>tx_packet\<close> itself and cleared by \<^verbatim>\<open>oeth_tx\<close>, the driver's
  interrupt handler, once the packet of the descriptor is sent: a descriptor is free when the flag
  reads as clear. Then the wait ends with its first read; while the flag reads as set it goes on.
\<close>

abbreviation bd_free :: "'h plat \<Rightarrow> u32 \<Rightarrow> 'h mach \<Rightarrow> bool" where
  "bd_free B ls s \<equiv> \<not> tx_irq (fst (bus_read B ls (hw s)))"

lemma wait_free:
  assumes "bd_free B a s"
  shows "wait_while (bnd (rd B a) (\<lambda>v. ret (tx_irq v))) s = Some (Inr ((),
    talk (snd (bus_read B a (hw s))) [Rd a (fst (bus_read B a (hw s)))] [] s))"
proof -
  have r: "poll_run B a tx_irq (hw s) [fst (bus_read B a (hw s))] (snd (bus_read B a (hw s)))"
    using assms by (intro poll_run.ready) simp_all
  show ?thesis
    using wait_while_poll_run[OF r refl, of "bnd (rd B a) (\<lambda>v. ret (tx_irq v))"] by (simp add: on_bus_talk)
qed

lemma wait_busy:
  assumes "\<And>h. tx_irq (fst (bus_read B a h))"
  shows "wait_while (bnd (rd B a) (\<lambda>v. ret (tx_irq v))) s = None"
  by (rule wait_never[of "\<lambda>_. True"]) (simp_all add: assms bnd_def rd_run)

text \<open>The accesses with which a packet is handed to the core through descriptor word \<open>ls\<close>.\<close>

definition tx_accesses :: "u32 \<Rightarrow> u32 \<Rightarrow> u8 list \<Rightarrow> int \<Rightarrow> u32 \<Rightarrow> u32 \<Rightarrow> u32 \<Rightarrow> u32 \<Rightarrow> u32 \<Rightarrow> u32 \<Rightarrow> access list" where
  "tx_accesses ls ad data len v0 v1 v2 buf v3 v4 =
     [Rd ls v0, Rd ls v1, Wr ls (v1 AND NOT OETH_TX_BD_STATS), Rd ls v2, Wr ls (tx_pad_status len v2), Rd ad buf] @
     map (\<lambda>i. WrB (buf + of_nat i) (data ! i)) [0..<nat len] @
     [Rd ls v3, Wr ls (tx_len_status len v3),
      Rd ls v4, Wr ls (v4 OR (OETH_TX_BD_READY OR OETH_TX_BD_CRC OR OETH_TX_BD_IRQ))]"

lemma tx_descriptor_run:
  assumes st: "bd_free B ls s" and len: "0 \<le> len" "nat len \<le> length data"
    and ls: "ls = bd_len_status bd n" and ad: "ad = bd_addr bd n"
  shows "\<exists>h v0 v1 v2 buf v3 v4.
    tx_descriptor B bd n data len s = Some (Inr ((), talk h (tx_accesses ls ad data len v0 v1 v2 buf v3 v4) [] s)) \<and>
    v0 = fst (bus_read B ls (hw s))"
proof -
  define v0 h0 where v0: "v0 = fst (bus_read B ls (hw s))" and h0: "h0 = snd (bus_read B ls (hw s))"
  let ?s1 = "talk h0 [Rd ls v0] [] s"
  have w: "wait_while (bnd (rd B ls) (\<lambda>v. ret (tx_irq v))) s = Some (Inr ((), ?s1))"
    unfolding v0 h0 by (rule wait_free[OF st])
  obtain v1 h1 where u1: "upd B ls (\<lambda>v. v AND NOT OETH_TX_BD_STATS) ?s1
      = Some (Inr ((), talk h1 [Rd ls v1, Wr ls (v1 AND NOT OETH_TX_BD_STATS)] [] ?s1))"
    by (rule upd_cases)
  let ?s2 = "talk h1 [Rd ls v1, Wr ls (v1 AND NOT OETH_TX_BD_STATS)] [] ?s1"
  obtain v2 h2 where u2: "upd B ls (tx_pad_status len) ?s2 = Some (Inr ((), talk h2 [Rd ls v2, Wr ls (tx_pad_status len v2)] [] ?s2))"
    by (rule upd_cases)
  let ?s3 = "talk h2 [Rd ls v2, Wr ls (tx_pad_status len v2)] [] ?s2"
  obtain buf h3 where u3: "rd B ad ?s3 = Some (Inr (buf, talk h3 [Rd ad buf] [] ?s3))"
    using rd_run[of B ad ?s3] by (simp add: on_bus_talk)
  let ?s4 = "talk h3 [Rd ad buf] [] ?s3"
  let ?bs = "map (\<lambda>i. WrB (buf + of_nat i) (data ! i)) [0..<nat len]"
  obtain h4 where u4: "tx_copy B data len buf ?s4 = Some (Inr ((), talk h4 ?bs [] ?s4))"
    using doall_wrb[of B "\<lambda>i. buf + of_nat i" "\<lambda>i. data ! i" "[0..<nat len]" ?s4] len
    by (auto simp: tx_copy_def)
  let ?s5 = "talk h4 ?bs [] ?s4"
  obtain v3 h5 where u5: "upd B ls (tx_len_status len) ?s5 = Some (Inr ((), talk h5 [Rd ls v3, Wr ls (tx_len_status len v3)] [] ?s5))"
    by (rule upd_cases)
  let ?s6 = "talk h5 [Rd ls v3, Wr ls (tx_len_status len v3)] [] ?s5"
  let ?go = "\<lambda>v. v OR (OETH_TX_BD_READY OR OETH_TX_BD_CRC OR OETH_TX_BD_IRQ)"
  obtain v4 h6 where u6: "upd B ls ?go ?s6 = Some (Inr ((), talk h6 [Rd ls v4, Wr ls (?go v4)] [] ?s6))"
    by (rule upd_cases)
  let ?t = "talk h6 [Rd ls v4, Wr ls (?go v4)] [] ?s6"
  have copy: "bnd (rd B ad) (tx_copy B data len) ?s3 = Some (Inr ((), ?s5))"
    by (rule bnd_runs, rule u3, rule u4)
  have "tx_descriptor B bd n data len s = Some (Inr ((), ?t))"
    unfolding tx_descriptor_def
    by (unfold Let_def, fold ls ad, rule doall_runs, rule w,
        rule doall_runs, rule u1, rule doall_runs, rule u2, rule doall_runs, rule copy,
        rule doall_runs, rule u5, rule doall_runs, rule u6) simp
  note run = this
  show ?thesis
    by (rule exI[of _ h6], rule exI[of _ v0], rule exI[of _ v1], rule exI[of _ v2], rule exI[of _ buf], rule exI[of _ v3], rule exI[of _ v4])
      (use run v0 in \<open>simp add: tx_accesses_def talk_def\<close>)
qed

lemma tx_packet_run:
  assumes g: "handle s Ethmac \<noteq> 0" "ethmac_bd s \<noteq> 0"
    and st: "bd_free B (bd_len_status (tx_bd_of s) (next_tx_buf_num s)) s"
    and len: "0 \<le> len" "nat len \<le> length data"
    and ls: "ls = bd_len_status (tx_bd_of s) (next_tx_buf_num s)"
    and ad: "ad = bd_addr (tx_bd_of s) (next_tx_buf_num s)"
  shows "\<exists>h v0 v1 v2 buf v3 v4. tx_packet B data len s = Some (Inr ((),
      (talk h ([Rd ls v0, Rd ls v1, Wr ls (v1 AND NOT OETH_TX_BD_STATS),
         Rd ls v2, Wr ls (tx_pad_status len v2),
         Rd ad buf] @
        map (\<lambda>i. WrB (buf + of_nat i) (data ! i)) [0..<nat len] @
        [Rd ls v3, Wr ls (tx_len_status len v3),
         Rd ls v4, Wr ls (v4 OR (OETH_TX_BD_READY OR OETH_TX_BD_CRC OR OETH_TX_BD_IRQ))])
        [(''> sending tx_packet\<newline>'', [])] s)
      \<lparr>next_tx_buf_num := (next_tx_buf_num s + 1) mod 8\<rparr>)) \<and>
    v0 = fst (bus_read B ls (hw s))"
proof -
  let ?s0 = "talk (hw s) [] [(''> sending tx_packet\<newline>'', [])] s"
  obtain h v0 v1 v2 buf v3 v4 where d: "tx_descriptor B (tx_bd_of s) (next_tx_buf_num s) data len ?s0 =
      Some (Inr ((), talk h (tx_accesses ls ad data len v0 v1 v2 buf v3 v4) [] ?s0))" "v0 = fst (bus_read B ls (hw s))"
    using tx_descriptor_run[OF _ len ls ad, of B ?s0] st unfolding ls by auto
  have m: "(n + 1) AND OETH_TXBD_NUM_MASK = (n + 1) mod 8" for n :: nat
    using take_bit_eq_mask[of 3 "n + 1"]
    by (simp add: OETH_TXBD_NUM_MASK_def OETH_TXBD_NUM_def mask_eq_exp_minus_1 take_bit_eq_mod)
  have r: "eth_regs s = Some (Inr (words s (handle s Ethmac + 4 * unat OETH_ID), s))"
    using g by (simp add: eth_regs_def dev_base_run)
  have l: "load_word ethmac_bd OETH_BUF_ID ?s0 = Some (Inr (tx_bd_of s, ?s0))"
    using load_word_run[of ethmac_bd ?s0] g by (simp add: tx_bd_of_def)
  have gn: "gets next_tx_buf_num ?s0 = Some (Inr (next_tx_buf_num s, ?s0))" by simp
  let ?t = "talk h (tx_accesses ls ad data len v0 v1 v2 buf v3 v4) [] ?s0"
  have adv: "modify (\<lambda>s. s\<lparr>next_tx_buf_num := (next_tx_buf_num s + 1) AND OETH_TXBD_NUM_MASK\<rparr>) ?t
      = Some (Inr ((), ?t\<lparr>next_tx_buf_num := (next_tx_buf_num s + 1) mod 8\<rparr>))"
    unfolding m by simp
  have "tx_packet B data len s = Some (Inr ((), ?t\<lparr>next_tx_buf_num := (next_tx_buf_num s + 1) mod 8\<rparr>))"
    unfolding tx_packet_def
    by (rule bnd_runs, rule r, rule thn_runs, rule msg_info, rule bnd_runs, rule l, rule bnd_runs,
        rule gn, rule thn_runs, rule d(1), rule adv)
  note run = this
  show ?thesis
    by (rule exI[of _ h], rule exI[of _ v0], rule exI[of _ v1], rule exI[of _ v2], rule exI[of _ buf], rule exI[of _ v3], rule exI[of _ v4])
      (use run d(2) in \<open>simp add: tx_accesses_def talk_def\<close>)
qed

lemma tx_packet_waits:
  assumes g: "handle s Ethmac \<noteq> 0" "ethmac_bd s \<noteq> 0"
    and busy: "\<And>h. tx_irq (fst (bus_read B (bd_len_status (tx_bd_of s) (next_tx_buf_num s)) h))"
  shows "tx_packet B data len s = None"
proof -
  let ?s0 = "talk (hw s) [] [(''> sending tx_packet\<newline>'', [])] s"
  have r: "eth_regs s = Some (Inr (words s (handle s Ethmac + 4 * unat OETH_ID), s))"
    using g by (simp add: eth_regs_def dev_base_run)
  have l: "load_word ethmac_bd OETH_BUF_ID ?s0 = Some (Inr (tx_bd_of s, ?s0))"
    using load_word_run[of ethmac_bd ?s0] g by (simp add: tx_bd_of_def)
  have "tx_descriptor B (tx_bd_of s) (next_tx_buf_num s) data len t = None" for t
    unfolding tx_descriptor_def Let_def doall.simps thn_def bnd_def[of "wait_while _"]
    by (subst wait_busy[OF busy]) simp
  then show ?thesis
    unfolding tx_packet_def by (simp add: bnd_def thn_def r l msg_info)
qed

section \<open>The rings of descriptors\<close>

lemma bd_word_neq:
  assumes "i < 2 ^ 20" "j < 2 ^ 20"
  shows "bd_addr bd i = bd_addr bd j \<longleftrightarrow> i = j"
    and "bd_len_status bd i = bd_len_status bd j \<longleftrightarrow> i = j"
    and "bd_len_status bd i \<noteq> bd_addr bd j"
proof -
  have u: "unat (of_nat (8 * k) :: u32) = 8 * k" "unat (of_nat (8 * k + 4) :: u32) = 8 * k + 4"
    if "k < 2 ^ 20" for k
    using that by (intro unat_of_nat_small, simp)+
  have e: "(of_nat (8 * i) :: u32) = of_nat (8 * j) \<longleftrightarrow> i = j"
    using u(1)[OF assms(1)] u(1)[OF assms(2)] by (metis mult_left_cancel zero_neq_numeral)
  then show "bd_addr bd i = bd_addr bd j \<longleftrightarrow> i = j" "bd_len_status bd i = bd_len_status bd j \<longleftrightarrow> i = j"
    by (simp_all only: bd_addr_def bd_len_status_def add_left_cancel add_right_cancel)
  have "8 * i \<noteq> 8 * j + 4" by presburger
  then have "(of_nat (8 * i) :: u32) \<noteq> of_nat (8 * j + 4)"
    using u(1)[OF assms(1)] u(2)[OF assms(2)] by metis
  then show "bd_len_status bd i \<noteq> bd_addr bd j"
    by (simp add: bd_addr_def bd_len_status_def add.assoc)
qed

lemma DBE_INFO_run:
  "args s = Some (Inr (as, t)) \<Longrightarrow> DBE_DEBUG eth_info text args s = Some (Inr ((), talk (hw t) [] [(text, as)] t))"
  by (simp add: DBE_DEBUG_def DBG_ETH_def DBE_DBG_INFO_def DBG_SUBSYS_ON_def DBG_MIN_LEVEL_def
      DBE_DBG_MASK_def DBG_GENERIC_def DBG_GPIO_def DBG_SPI_def DBG_UART_def DBG_I2C_def DBG_OWR_def
      bnd_def pp_printf_def talk_def)

lemma setup_bd_run:
  "\<exists>h v. setup_bd B fmt st bd m i s = Some (Inr ((),
     talk h [Wr (bd_len_status bd i) st, Wr (bd_addr bd i) (m + of_nat i * BUFF_SIZE), Rd (bd_addr bd i) v]
       [(fmt, [Num (of_nat i), Num v])] s))"
proof -
  let ?s1 = "talk (bus_write B (bd_len_status bd i) st (hw s)) [Wr (bd_len_status bd i) st] [] s"
  let ?s2 = "talk (bus_write B (bd_addr bd i) (m + of_nat i * BUFF_SIZE) (hw ?s1))
      [Wr (bd_addr bd i) (m + of_nat i * BUFF_SIZE)] [] ?s1"
  obtain v h where r: "rd B (bd_addr bd i) ?s2 = Some (Inr (v, talk h [Rd (bd_addr bd i) v] [] ?s2))"
    by (simp add: rd_run on_bus_talk)
  have a: "bnd (rd B (bd_addr bd i)) (\<lambda>v. ret [Num (of_nat i), Num v]) ?s2
      = Some (Inr ([Num (of_nat i), Num v], talk h [Rd (bd_addr bd i) v] [] ?s2))"
    by (rule bnd_runs, rule r) simp
  have "setup_bd B fmt st bd m i s = Some (Inr ((), talk h [] [(fmt, [Num (of_nat i), Num v])]
      (talk h [Rd (bd_addr bd i) v] [] ?s2)))"
    unfolding setup_bd_def
    by (rule doall_runs, rule wr_run[unfolded on_bus_talk], rule doall_runs, rule wr_run[unfolded on_bus_talk],
        rule doall_runs, rule DBE_INFO_run, rule a) simp
  then show ?thesis by auto
qed

text \<open>What a ring of descriptors is given, whatever the reads for the messages return.\<close>

lemma setup_ring_run:
  "\<exists>h es cs. doall (map (setup_bd B fmt st bd m) xs) s = Some (Inr ((), talk h es cs s)) \<and>
     (\<forall>a. writes_at a es = concat (map (\<lambda>i. (if bd_len_status bd i = a then [st] else []) @
        (if bd_addr bd i = a then [m + of_nat i * BUFF_SIZE] else [])) xs))"
proof (induction xs arbitrary: s)
  case Nil
  show ?case by (intro exI[of _ "hw s"] exI[of _ "[]"]) (simp add: talk_nil)
next
  case (Cons i xs)
  let ?es = "\<lambda>v. [Wr (bd_len_status bd i) st, Wr (bd_addr bd i) (m + of_nat i * BUFF_SIZE), Rd (bd_addr bd i) v]"
  obtain h v where r: "setup_bd B fmt st bd m i s = Some (Inr ((), talk h (?es v) [(fmt, [Num (of_nat i), Num v])] s))"
    using setup_bd_run[of B fmt st bd m i s] by (elim exE)
  obtain h2 es cs where q: "doall (map (setup_bd B fmt st bd m) xs) (talk h (?es v) [(fmt, [Num (of_nat i), Num v])] s)
      = Some (Inr ((), talk h2 es cs (talk h (?es v) [(fmt, [Num (of_nat i), Num v])] s)))"
    "\<forall>a. writes_at a es = concat (map (\<lambda>i. (if bd_len_status bd i = a then [st] else []) @
        (if bd_addr bd i = a then [m + of_nat i * BUFF_SIZE] else [])) xs)"
    using Cons by blast
  have "doall (map (setup_bd B fmt st bd m) (i # xs)) s
      = Some (Inr ((), talk h2 (?es v @ es) ([(fmt, [Num (of_nat i), Num v])] @ cs) s))"
    unfolding list.map(2) by (rule doall_runs, rule r) (simp only: q(1) talk_fields)
  then show ?case using q(2) by (intro exI conjI) (assumption, simp)
qed

lemma setup_ring_cases:
  obtains h es cs where "doall (map (setup_bd B fmt st bd m) xs) s = Some (Inr ((), talk h es cs s))"
    "\<forall>a. writes_at a es = concat (map (\<lambda>i. (if bd_len_status bd i = a then [st] else []) @
        (if bd_addr bd i = a then [m + of_nat i * BUFF_SIZE] else [])) xs)"
  using setup_ring_run[of B fmt st bd m xs s] by (elim exE conjE)

lemma bd_of_rx: "bd_addr (bd + of_nat (8 * OETH_TXBD_NUM)) i = bd_addr bd (8 + i)"
  "bd_len_status (bd + of_nat (8 * OETH_TXBD_NUM)) i = bd_len_status bd (8 + i)"
  by (simp_all add: bd_addr_def bd_len_status_def OETH_TXBD_NUM_def algebra_simps)

lemma concat_single:
  "distinct xs \<Longrightarrow> (\<And>j. j \<in> set xs \<Longrightarrow> j \<noteq> i \<Longrightarrow> f j = []) \<Longrightarrow>
   concat (map f xs) = (if i \<in> set xs then f i else [])"
  by (induction xs) auto

lemma ring_writes:
  assumes "i < 16" "n + length xs \<le> 16" "xs = [0..<length xs]"
  shows "concat (map (\<lambda>j. (if bd_len_status bd (n + j) = bd_addr bd i then [st] else []) @
      (if bd_addr bd (n + j) = bd_addr bd i then [f j] else [])) xs) =
    (if n \<le> i \<and> i < n + length xs then [f (i - n)] else [])" (is "concat (map ?g xs) = _")
proof -
  have lt: "j < 16 \<Longrightarrow> j < 2 ^ 20" for j :: nat by simp
  have mem: "j \<in> set xs \<longleftrightarrow> j < length xs" for j by (subst assms(3)) simp
  have g: "?g j = (if n + j = i then [f j] else [])" if "j \<in> set xs" for j
    using bd_word_neq[of "n + j" i bd] lt assms that mem by (simp add: less_le_trans)
  have d: "distinct xs" by (subst assms(3)) simp
  show ?thesis
  proof (cases "n \<le> i")
    case True
    have "concat (map ?g xs) = (if i - n \<in> set xs then ?g (i - n) else [])"
      by (rule concat_single[OF d]) (use g True in auto)
    also have "... = (if n \<le> i \<and> i < n + length xs then [f (i - n)] else [])"
      using g[of "i - n"] True by (auto simp: mem)
    finally show ?thesis .
  next
    case False
    have "?g j = []" if "j \<in> set xs" for j using g[OF that] False by simp
    then show ?thesis using False by simp
  qed
qed

lemma setup_buffers_writes:
  "\<exists>h es cs. setup_buffers B tx_bd mem_addr s = Some (Inr ((), talk h es cs s)) \<and>
     (\<forall>i<16. writes_at (bd_addr tx_bd i) es = [mem_addr + of_nat i * BUFF_SIZE])"
proof -
  let ?rx = "tx_bd + of_nat (8 * OETH_TXBD_NUM)"
  let ?m = "mem_addr + of_nat OETH_TXBD_NUM * BUFF_SIZE"
  let ?s0 = "talk (hw s) [] [(''> tx_bd = 0X%08X\<newline>'', [Num tx_bd])] s"
  let ?s1 = "talk (hw s) [] [(''> rx_bd = 0X%08X\<newline>'', [Num ?rx])] ?s0"
  let ?s2 = "talk (hw s) [] [(''> ethmac buffer addr = 0X%08X\<newline>'', [Num mem_addr])] ?s1"
  obtain h1 e1 c1 where r1: "doall (map (setup_bd B ''> tx_bd[%d].addr: 0X%8X\<newline>''
        (OETH_TX_BD_PAD OR OETH_TX_BD_CRC) tx_bd mem_addr) [0..<OETH_TXBD_NUM]) ?s2
      = Some (Inr ((), talk h1 e1 c1 ?s2))"
    and w1: "\<forall>a. writes_at a e1 = concat (map (\<lambda>i. (if bd_len_status tx_bd i = a
        then [OETH_TX_BD_PAD OR OETH_TX_BD_CRC] else []) @
        (if bd_addr tx_bd i = a then [mem_addr + of_nat i * BUFF_SIZE] else [])) [0..<OETH_TXBD_NUM])"
    by (rule setup_ring_cases)
  let ?s3 = "talk h1 e1 c1 ?s2" and ?a1 = "bd_len_status tx_bd (OETH_TXBD_NUM - 1)"
  obtain v2 h2 where r2: "upd B ?a1 (\<lambda>v. v OR OETH_TX_BD_WRAP) ?s3
      = Some (Inr ((), talk h2 [Rd ?a1 v2, Wr ?a1 (v2 OR OETH_TX_BD_WRAP)] [] ?s3))"
    by (rule upd_cases)
  let ?s4 = "talk h2 [Rd ?a1 v2, Wr ?a1 (v2 OR OETH_TX_BD_WRAP)] [] ?s3"
  obtain h3 e3 c3 where r3: "doall (map (setup_bd B ''> rx_bd[%d].addr: 0X%8X\<newline>''
        (OETH_RX_BD_EMPTY OR OETH_RX_BD_IRQ) ?rx ?m) [0..<OETH_RXBD_NUM]) ?s4
      = Some (Inr ((), talk h3 e3 c3 ?s4))"
    and w3: "\<forall>a. writes_at a e3 = concat (map (\<lambda>i. (if bd_len_status ?rx i = a
        then [OETH_RX_BD_EMPTY OR OETH_RX_BD_IRQ] else []) @
        (if bd_addr ?rx i = a then [?m + of_nat i * BUFF_SIZE] else [])) [0..<OETH_RXBD_NUM])"
    by (rule setup_ring_cases)
  let ?s5 = "talk h3 e3 c3 ?s4" and ?a2 = "bd_len_status ?rx (OETH_RXBD_NUM - 1)"
  obtain v4 h4 where r4: "upd B ?a2 (\<lambda>v. v OR OETH_RX_BD_WRAP) ?s5
      = Some (Inr ((), talk h4 [Rd ?a2 v4, Wr ?a2 (v4 OR OETH_RX_BD_WRAP)] [] ?s5))"
    by (rule upd_cases)
  let ?t = "talk h4 [Rd ?a2 v4, Wr ?a2 (v4 OR OETH_RX_BD_WRAP)] [] ?s5"
  have m: "DBE_DEBUG eth_info f (ret l) u = Some (Inr ((), talk (hw u) [] [(f, l)] u))" for f l u
    by (rule DBE_INFO_run) simp
  have m1: "DBE_DEBUG eth_info f (ret l) ?s0 = Some (Inr ((), talk (hw s) [] [(f, l)] ?s0))"
    "DBE_DEBUG eth_info f (ret l) ?s1 = Some (Inr ((), talk (hw s) [] [(f, l)] ?s1))" for f l
    unfolding m by simp_all
  have "setup_buffers B tx_bd mem_addr s = Some (Inr ((), ?t))"
    unfolding setup_buffers_def Let_def append_Cons append_Nil
    by (rule doall_runs, rule m, rule doall_runs, rule m1(1), rule doall_runs,
        rule m1(2), unfold doall_append, rule thn_runs, rule r1, rule doall_runs,
        rule r2, unfold doall_append, rule thn_runs, rule r3, rule doall_runs, rule r4, simp)
  moreover have "writes_at (bd_addr tx_bd i) (e1 @ [Rd ?a1 v2, Wr ?a1 (v2 OR OETH_TX_BD_WRAP)] @ e3 @
      [Rd ?a2 v4, Wr ?a2 (v4 OR OETH_RX_BD_WRAP)]) = [mem_addr + of_nat i * BUFF_SIZE]" if "i < 16" for i
  proof -
    have "writes_at (bd_addr tx_bd i) e1 = (if i < 8 then [mem_addr + of_nat i * BUFF_SIZE] else [])"
      using w1 ring_writes[OF that, of 0 "[0..<8]" tx_bd _ "\<lambda>j. mem_addr + of_nat j * BUFF_SIZE"]
      by (simp add: OETH_TXBD_NUM_def)
    moreover have "writes_at (bd_addr tx_bd i) e3 = (if 8 \<le> i then [mem_addr + of_nat i * BUFF_SIZE] else [])"
      using w3[unfolded bd_of_rx] that
        ring_writes[OF that, of 8 "[0..<8]" tx_bd _ "\<lambda>j. ?m + of_nat j * BUFF_SIZE"]
      by (simp add: OETH_TXBD_NUM_def OETH_RXBD_NUM_def algebra_simps of_nat_diff)
    moreover have "?a1 \<noteq> bd_addr tx_bd i" "?a2 \<noteq> bd_addr tx_bd i"
      unfolding bd_of_rx using that by (intro bd_word_neq; simp add: OETH_TXBD_NUM_def OETH_RXBD_NUM_def)+
    ultimately show ?thesis by (simp add: writes_at_append)
  qed
  ultimately show ?thesis
    by (intro exI[of _ h4]) (auto simp: append_assoc)
qed

text \<open>
  \<^verbatim>\<open>ethmac_setup\<close> gives each of the eight transmit and eight receive descriptors
  the address of a buffer exactly once, and the sixteen buffers lie one behind the other in
  steps of the buffer size, so no two descriptors share memory.
\<close>

lemma setup_buffers_apart:
  "\<exists>h es cs. setup_buffers B tx_bd mem_addr s = Some (Inr ((), talk h es cs s)) \<and>
     map (\<lambda>i. writes_at (bd_addr tx_bd i) es) [0..<16] = map (\<lambda>i. [mem_addr + of_nat i * BUFF_SIZE]) [0..<16]"
proof -
  obtain h es cs where r: "setup_buffers B tx_bd mem_addr s = Some (Inr ((), talk h es cs s))"
    and w: "\<forall>i<16. writes_at (bd_addr tx_bd i) es = [mem_addr + of_nat i * BUFF_SIZE]"
    using setup_buffers_writes[of B tx_bd mem_addr s] by (elim exE conjE)
  have "map (\<lambda>i. writes_at (bd_addr tx_bd i) es) [0..<16] = map (\<lambda>i. [mem_addr + of_nat i * BUFF_SIZE]) [0..<16]"
    by (rule map_cong[OF refl]) (use w in auto)
  with r show ?thesis
    by (intro exI conjI)
qed

section \<open>Reception\<close>

text \<open>
  The descriptors are memory: a status word reads as it was last written, and reading or
  writing one does not disturb the others. \<open>st i\<close> is the status of descriptor \<open>i\<close> and \<open>adr i\<close> the
  address of its buffer.
\<close>

definition bd_ram :: "'h plat \<Rightarrow> u32 \<Rightarrow> (nat \<Rightarrow> 'h \<Rightarrow> u32) \<Rightarrow> (nat \<Rightarrow> 'h \<Rightarrow> u32) \<Rightarrow> bool" where
  "bd_ram B bd st adr \<longleftrightarrow>
     (\<forall>i<8. \<forall>h. bus_read B (bd_len_status bd i) h = (st i h, h) \<and>
        bus_read B (bd_addr bd i) h = (adr i h, h)) \<and>
     (\<forall>i<8. \<forall>j<8. \<forall>v h. st j (bus_write B (bd_len_status bd i) v h) = (if i = j then v else st j h))"

lemma bd_ramD:
  assumes "bd_ram B bd st adr" "i < 8"
  shows "bus_read B (bd_len_status bd i) h = (st i h, h)" "bus_read B (bd_addr bd i) h = (adr i h, h)"
    "st i (bus_write B (bd_len_status bd i) v h) = v"
    "j < 8 \<Longrightarrow> j \<noteq> i \<Longrightarrow> st j (bus_write B (bd_len_status bd i) v h) = st j h"
  using assms by (auto simp: bd_ram_def)

lemma rd_talk: "bus_read B a (hw s) = (v, h) \<Longrightarrow> rd B a s = Some (Inr (v, talk h [Rd a v] [] s))"
  by (simp add: rd_run on_bus_talk)

text \<open>A frame is bad when its status has any error flag but that of an invalid symbol.\<close>

definition rx_bad :: "u32 \<Rightarrow> bool" where
  "rx_bad v \<longleftrightarrow> v AND (OETH_RX_BD_STATS AND NOT OETH_RX_BD_INVSIMB) \<noteq> 0"

lemma and_or_zero: "(v :: u32) AND (a OR b) = 0 \<longleftrightarrow> v AND a = 0 \<and> v AND b = 0"
  by (auto simp: bit_eq_iff bit_simps)

lemma rx_bad_errors: "rx_bad v \<longleftrightarrow> (\<exists>(m, _)\<in>set rx_errors. v AND m \<noteq> 0)"
proof -
  have "OETH_RX_BD_STATS AND NOT OETH_RX_BD_INVSIMB = (OETH_RX_BD_TOOLONG OR OETH_RX_BD_SHORT) OR (OETH_RX_BD_DRIBBLE OR
     (OETH_RX_BD_CRCERR OR (OETH_RX_BD_OVERRUN OR (OETH_RX_BD_MISS OR OETH_RX_BD_LATECOL))))"
    by code_simp
  then show ?thesis
    by (auto simp: rx_bad_def rx_errors_def and_or_zero)
qed

lemma rx_checks_run:
  assumes "\<And>h. bus_read B ls h = (st h, h)"
  shows "\<exists>es. rx_checks B ls cs bad s =
    Some (Inr (bad \<or> (\<exists>(m, _)\<in>set cs. st (hw s) AND m \<noteq> 0), talk (hw s) es [] s))"
proof (induction cs arbitrary: bad s)
  case Nil
  show ?case by (intro exI[of _ "[]"]) (simp add: talk_nil)
next
  case (Cons c cs)
  obtain m f where c: "c = (m, f)" by fastforce
  let ?s1 = "talk (hw s) [Rd ls (st (hw s))] [] s"
  have r: "rd B ls s = Some (Inr (st (hw s), ?s1))" using assms by (rule rd_talk)
  have "rx_checks B ls (c # cs) bad s = rx_checks B ls cs (bad \<or> st (hw s) AND m \<noteq> 0) ?s1"
    unfolding c rx_checks.simps eth_trace_off thn_ret by (rule bnd_runs, rule r) auto
  then show ?case using Cons[of "bad \<or> st (hw s) AND m \<noteq> 0" ?s1] by (auto simp: c)
qed

lemma rx_release_run:
  assumes "bd_ram B bd st adr" "i < 8"
  shows "\<exists>h es. rx_release B (bd_len_status bd i) s = Some (Inr ((), talk h es [] s)) \<and>
    st i h = (st i (hw s) AND NOT OETH_RX_BD_STATS) OR OETH_RX_BD_EMPTY \<and>
    (\<forall>j<8. j \<noteq> i \<longrightarrow> st j h = st j (hw s))"
  unfolding rx_release_def
  by (intro exI conjI, rule thn_runs, rule upd_run[unfolded Let_def], subst upd_run)
    (auto simp: Let_def bd_ramD[OF assms])

lemma oeth_rx_bd_run:
  assumes ram: "bd_ram B rx st adr" and i: "i < 8"
  shows "\<exists>es. oeth_rx_bd B recv rx i s =
    (if st i (hw s) AND OETH_RX_BD_EMPTY \<noteq> 0 then ret ()
     else if rx_bad (st i (hw s)) then rx_release B (bd_len_status rx i)
     else thn (recv (\<lambda>k. mem_byte B (adr i (hw s) + of_nat k) (hw s)) (uint (drop_bit 16 (st i (hw s)))))
       (rx_release B (bd_len_status rx i))) (talk (hw s) es [] s)"
proof -
  let ?ls = "bd_len_status rx i" and ?ad = "bd_addr rx i" and ?v = "st i (hw s)"
  let ?s1 = "talk (hw s) [Rd ?ls ?v] [] s"
  have r: "rd B ?ls (talk (hw s) es [] s) = Some (Inr (?v, talk (hw s) [Rd ?ls ?v] [] (talk (hw s) es [] s)))"
    and r2: "rd B ?ad (talk (hw s) es [] s) = Some (Inr (adr i (hw s), talk (hw s) [Rd ?ad (adr i (hw s))] [] (talk (hw s) es [] s)))" for es
    using bd_ramD[OF ram i] by (simp_all add: rd_talk)
  have first: "oeth_rx_bd B recv rx i s =
      (if ?v AND OETH_RX_BD_EMPTY = 0 then
         bnd (rx_checks B ?ls rx_errors False) (\<lambda>bad.
           if bad then rx_release B ?ls else thn (rx_deliver B recv ?ls ?ad) (rx_release B ?ls))
       else ret ()) ?s1"
    unfolding oeth_rx_bd_def Let_def eth_trace_off thn_ret
    using r[of "[]"] by (simp add: talk_nil bnd_def)
  obtain es where c: "rx_checks B ?ls rx_errors False ?s1 = Some (Inr (rx_bad ?v, talk (hw s) es [] ?s1))"
    using rx_checks_run[of B ?ls "st i" rx_errors False ?s1] bd_ramD(1)[OF ram i] by (auto simp: rx_bad_errors)
  let ?es = "[Rd ?ls ?v] @ es"
  have deliver: "rx_deliver B recv ?ls ?ad (talk (hw s) ?es [] s) =
      recv (\<lambda>k. mem_byte B (adr i (hw s) + of_nat k) (hw s)) (uint (drop_bit 16 ?v))
        (talk (hw s) (?es @ [Rd ?ad (adr i (hw s)), Rd ?ls ?v]) [] s)"
    unfolding rx_deliver_def eth_trace_off thn_ret
    using r r2 by (simp add: bnd_def)
  consider "?v AND OETH_RX_BD_EMPTY \<noteq> 0" | "?v AND OETH_RX_BD_EMPTY = 0" "rx_bad ?v"
    | "?v AND OETH_RX_BD_EMPTY = 0" "\<not> rx_bad ?v" by blast
  then show ?thesis
  proof cases
    case 1
    then show ?thesis using first by (intro exI[of _ "[Rd ?ls ?v]"]) simp
  next
    case 2
    then show ?thesis using first c by (intro exI[of _ ?es]) (simp add: bnd_def)
  next
    case 3
    then have "oeth_rx_bd B recv rx i s = thn (rx_deliver B recv ?ls ?ad) (rx_release B ?ls) (talk (hw s) ?es [] s)"
      using first c by (simp add: bnd_def)
    also have "... = thn (recv (\<lambda>k. mem_byte B (adr i (hw s) + of_nat k) (hw s)) (uint (drop_bit 16 ?v)))
        (rx_release B ?ls) (talk (hw s) (?es @ [Rd ?ad (adr i (hw s)), Rd ?ls ?v]) [] s)"
      unfolding thn_def bnd_def deliver ..
    finally show ?thesis using 3 by (intro exI) simp
  qed
qed

text \<open>
  C22 (safety). The receive handler on one descriptor: an empty one is left alone; a frame whose
  status has an error flag, other than the one for an invalid symbol, is never given to the
  application, its buffer only goes back to the core; a good frame is given to the application
  once, with its length and the contents of its buffer, before its buffer goes back. On the bus, all the rest of the handler only reads.
\<close>

theorem oeth_rx_bd_filters:
  assumes "bd_ram B rx st adr" and "i < 8"
  shows "\<exists>es. oeth_rx_bd B recv rx i s =
    (if st i (hw s) AND OETH_RX_BD_EMPTY \<noteq> 0 then ret ()
     else if rx_bad (st i (hw s)) then rx_release B (bd_len_status rx i)
     else thn (recv (\<lambda>k. mem_byte B (adr i (hw s) + of_nat k) (hw s)) (uint (drop_bit 16 (st i (hw s)))))
       (rx_release B (bd_len_status rx i))) (talk (hw s) es [] s)"
  using assms by (rule oeth_rx_bd_run)

text \<open>A gateware that is plain memory, with frames waiting in two descriptors, one of them bad.\<close>

definition demo_ram :: "(u32 \<Rightarrow> u32) plat" where
  "demo_ram =
     \<lparr>bus_read = \<lambda>a h. (h a, h), bus_write = \<lambda>a v h. h(a := v), mem_byte = \<lambda>a h. ucast (h a),
      mem_put = \<lambda>a c h. h(a := ucast c), lay = demo_layout\<rparr>"

definition demo_frames :: "u32 \<Rightarrow> u32" where
  "demo_frames = (\<lambda>_. 0x8000)(0x140 := 0x00400000, 0x144 := 0x1000, 0x150 := 0x00400002)"

lemma demo_ram_bd: "bd_ram demo_ram bd (\<lambda>i h. h (bd_len_status bd i)) (\<lambda>i h. h (bd_addr bd i))"
  using bd_word_neq(2)[of _ _ bd] by (auto simp: bd_ram_def demo_ram_def)

theorem oeth_rx_bd_filters_witness:
  "(\<exists>es. oeth_rx_bd demo_ram (\<lambda>d n. fail NullPointer) 0x140 0 (demo_table Ethmac demo_frames)
     = fail NullPointer (talk demo_frames es [] (demo_table Ethmac demo_frames))) \<and>
   (\<exists>es. oeth_rx_bd demo_ram (\<lambda>d n. fail NullPointer) 0x140 2 (demo_table Ethmac demo_frames)
     = rx_release demo_ram 0x150 (talk demo_frames es [] (demo_table Ethmac demo_frames)))"
proof -
  have b: "rx_bad 0x00400002" "\<not> rx_bad 0x00400000" by code_simp+
  have l: "bd_len_status 0x140 0 = 0x140" "bd_len_status 0x140 2 = 0x150" by (simp_all add: bd_len_status_def)
  have f: "demo_frames 0x140 = 0x00400000" "demo_frames 0x150 = 0x00400002" by (simp_all add: demo_frames_def)
  show ?thesis
    using oeth_rx_bd_filters[OF demo_ram_bd, where i = 0 and rx = "0x140" and recv = "\<lambda>d n. fail NullPointer" and s = "demo_table Ethmac demo_frames"]
      oeth_rx_bd_filters[OF demo_ram_bd, where i = 2 and rx = "0x140" and recv = "\<lambda>d n. fail NullPointer" and s = "demo_table Ethmac demo_frames"]
    by (simp add: l f b OETH_RX_BD_EMPTY_def thn_def bnd_def)
qed

definition demo_eth :: "'h \<Rightarrow> 'h mach" where
  "demo_eth h = (demo_table Ethmac h)\<lparr>ethmac_bd := 8\<rparr>"

text \<open>
  C26 (functional). When the next transmit descriptor is free (its interrupt flag, which the driver's interrupt handler
  clears after the packet before it was sent, reads as clear), \<^verbatim>\<open>tx_packet\<close> returns after it has read the flag once, copied exactly the bytes of the packet into its
  buffer, stored the length, and only then marked the descriptor ready; the next packet uses the
  next descriptor of the ring.
\<close>

theorem tx_packet_sends:
  assumes "handle s Ethmac \<noteq> 0" and "ethmac_bd s \<noteq> 0"
    and "\<not> tx_irq (fst (bus_read B (bd_len_status (tx_bd_of s) (next_tx_buf_num s)) (hw s)))"
    and "0 \<le> len" and "nat len \<le> length data"
    and "ls = bd_len_status (tx_bd_of s) (next_tx_buf_num s)"
    and "ad = bd_addr (tx_bd_of s) (next_tx_buf_num s)"
  shows "\<exists>h v0 v1 v2 buf v3 v4. tx_packet B data len s = Some (Inr ((),
      (talk h ([Rd ls v0, Rd ls v1, Wr ls (v1 AND NOT OETH_TX_BD_STATS), Rd ls v2, Wr ls (tx_pad_status len v2), Rd ad buf] @
        map (\<lambda>i. WrB (buf + of_nat i) (data ! i)) [0..<nat len] @
        [Rd ls v3, Wr ls (tx_len_status len v3),
         Rd ls v4, Wr ls (v4 OR (OETH_TX_BD_READY OR OETH_TX_BD_CRC OR OETH_TX_BD_IRQ))])
        [(''> sending tx_packet\<newline>'', [])] s)
      \<lparr>next_tx_buf_num := (next_tx_buf_num s + 1) mod 8\<rparr>)) \<and>
    v0 = fst (bus_read B ls (hw s))"
  using tx_packet_run[OF assms] by simp

text \<open>A core whose descriptors stay busy for two reads after each write.\<close>

definition demo_mac :: "nat plat" where
  "demo_mac =
     \<lparr>bus_read = \<lambda>a h. (if 0 < h then OETH_TX_BD_IRQ else 0, h - 1), bus_write = \<lambda>a v h. 2,
      mem_byte = \<lambda>a h. 0, mem_put = \<lambda>a v h. h, lay = demo_layout\<rparr>"

lemma demo_mac_free: "hw s = 0 \<Longrightarrow> bd_free demo_mac a s"
  by (simp add: demo_mac_def)

lemma demo_eth_fields [simp]:
  "handle (demo_eth h) Ethmac = 8" "ethmac_bd (demo_eth h) = 8" "next_tx_buf_num (demo_eth h) = 0"
  "hw (demo_eth h) = h"
  by (simp_all add: demo_eth_def demo_table_def boot_def)

theorem tx_packet_sends_witness:
  "\<exists>t. tx_packet demo_mac [1, 2, 3] 3 (demo_eth 0) = Some (Inr ((), t)) \<and> next_tx_buf_num t = 1"
  using tx_packet_sends[OF _ _ demo_mac_free _ _ refl refl, of "demo_eth 0" 3 "[1, 2, 3]"] by auto

end
