(* ===== verification/Util.thy ===== *)
theory Util
  imports Machine
begin

text \<open>
  \<^verbatim>\<open>lib/util.c\<close>: the calendar of \<^verbatim>\<open>format_time\<close>, and the byte routines \<^verbatim>\<open>memcpy\<close> and \<^verbatim>\<open>memcmp\<close> the network
  code uses.
\<close>

section \<open>Calendar\<close>

definition YEAR0 :: nat where "YEAR0 = 1900"
definition EPOCH_YR :: nat where "EPOCH_YR = 1970"
definition SECS_DAY :: nat where "SECS_DAY = 24 * 60 * 60"

definition LEAPYEAR :: "nat \<Rightarrow> bool" where
  "LEAPYEAR year \<longleftrightarrow> year mod 4 = 0 \<and> (year mod 100 \<noteq> 0 \<or> year mod 400 = 0)"

definition YEARSIZE :: "nat \<Rightarrow> nat" where
  "YEARSIZE year = (if LEAPYEAR year then 366 else 365)"

definition days_tab :: "string list" where
  "days_tab = [''Sun'', ''Mon'', ''Tue'', ''Wed'', ''Thu'', ''Fri'', ''Sat'']"

definition months_tab :: "string list" where
  "months_tab =
     [''Jan'', ''Feb'', ''Mar'', ''Apr'', ''May'', ''Jun'', ''Jul'', ''Aug'', ''Sep'', ''Oct'', ''Nov'', ''Dec'']"

definition ytab :: "bool \<Rightarrow> nat list" where
  "ytab leap =
     (if leap then [31, 29, 31, 30, 31, 30, 31, 31, 30, 31, 30, 31]
      else [31, 28, 31, 30, 31, 30, 31, 31, 30, 31, 30, 31])"

record tm =
  tm_sec :: nat
  tm_min :: nat
  tm_hour :: nat
  tm_mday :: nat
  tm_mon :: nat
  tm_year :: nat
  tm_wday :: nat
  tm_yday :: nat

function year_loop :: "nat \<Rightarrow> nat \<Rightarrow> nat \<times> nat" where
  "year_loop dayno year =
     (if YEARSIZE year \<le> dayno then year_loop (dayno - YEARSIZE year) (Suc year) else (dayno, year))"
  by auto
termination
  by (relation "measure fst") (auto simp: YEARSIZE_def split: if_splits)

text \<open>The loop over the months; reading past the end of the table has no result.\<close>

function month_loop :: "nat list \<Rightarrow> nat \<Rightarrow> nat \<Rightarrow> (nat \<times> nat) option" where
  "month_loop tab dayno mon =
     (if length tab \<le> mon then None
      else if tab ! mon \<le> dayno then month_loop tab (dayno - tab ! mon) (Suc mon)
      else Some (dayno, mon))"
  by auto
termination
  by (relation "measure (\<lambda>(tab, _, mon). length tab - mon)") auto

text \<open>
  The broken-down time. Only the low 32 bits of the seconds are used, and no intermediate value
  leaves the range of the C types.
\<close>

definition break_time :: "u64 \<Rightarrow> tm option" where
  "break_time sec =
     (let t = unat (ucast sec :: u32);
          dayclock = t mod SECS_DAY;
          dayno = t div SECS_DAY;
          y = year_loop dayno EPOCH_YR
      in case month_loop (ytab (LEAPYEAR (snd y))) (fst y) 0 of
           None \<Rightarrow> None
         | Some (d, mon) \<Rightarrow>
             Some \<lparr>tm_sec = dayclock mod 60, tm_min = (dayclock mod 3600) div 60, tm_hour = dayclock div 3600,
                   tm_mday = d + 1, tm_mon = mon, tm_year = snd y - YEAR0, tm_wday = (dayno + 4) mod 7,
                   tm_yday = fst y\<rparr>)"

text \<open>\<open>sprintf\<close> is the formatter of the C library.\<close>

definition format_time :: "(string \<Rightarrow> arg list \<Rightarrow> 'r) \<Rightarrow> u64 \<Rightarrow> 'r option" where
  "format_time sprintf sec =
     (case break_time sec of
        None \<Rightarrow> None
      | Some t \<Rightarrow>
          Some (sprintf ''%s, %s %d, %d, %2d:%2d:%2d''
            [Str (map (\<lambda>c. of_nat (of_char c)) (days_tab ! tm_wday t)),
             Str (map (\<lambda>c. of_nat (of_char c)) (months_tab ! tm_mon t)),
             Num (of_nat (tm_mday t)), Num (of_nat (tm_year t + YEAR0)), Num (of_nat (tm_hour t)),
             Num (of_nat (tm_min t)), Num (of_nat (tm_sec t))]))"

section \<open>Bytes\<close>

text \<open>
  \<open>memcpy a off b len\<close> copies the \<open>len\<close> bytes \<open>b 0, b 1, ...\<close> to the array \<open>a\<close> from index \<open>off\<close> on;
  the first write past its end leaves no result.
\<close>

fun memcpy_loop :: "u8 list \<Rightarrow> nat \<Rightarrow> (nat \<Rightarrow> u8) \<Rightarrow> nat \<Rightarrow> nat \<Rightarrow> u8 list option" where
  "memcpy_loop a off b i 0 = Some a"
| "memcpy_loop a off b i (Suc n) =
     (if off + i < length a then memcpy_loop (a[off + i := b i]) off b (Suc i) n else None)"

definition memcpy :: "u8 list \<Rightarrow> nat \<Rightarrow> (nat \<Rightarrow> u8) \<Rightarrow> u32 \<Rightarrow> u8 list option" where
  "memcpy a off b len = memcpy_loop a off b 0 (unat len)"

fun memcmp_loop :: "(nat \<Rightarrow> u8) \<Rightarrow> (nat \<Rightarrow> u8) \<Rightarrow> nat \<Rightarrow> nat \<Rightarrow> int" where
  "memcmp_loop a b i 0 = 0"
| "memcmp_loop a b i (Suc n) =
     (let x = uint (a i) - uint (b i)
      in if x \<noteq> 0 then x else memcmp_loop a b (Suc i) n)"

definition memcmp :: "(nat \<Rightarrow> u8) \<Rightarrow> (nat \<Rightarrow> u8) \<Rightarrow> nat \<Rightarrow> int" where
  "memcmp a b n = memcmp_loop a b 0 n"

section \<open>Correctness\<close>

declare year_loop.simps [simp del] month_loop.simps [simp del]

lemma memcmp_loop_eq: "memcmp_loop a b i n = 0 \<longleftrightarrow> (\<forall>j<n. a (i + j) = b (i + j))"
proof (induction n arbitrary: i)
  case (Suc n)
  have s: "(\<forall>j<Suc n. a (i + j) = b (i + j)) \<longleftrightarrow> a i = b i \<and> (\<forall>j<n. a (Suc i + j) = b (Suc i + j))"
    by (simp add: All_less_Suc2)
  show ?case using Suc[of "Suc i"] unfolding s by (simp add: Let_def word_uint_eq_iff)
qed simp

lemma memcmp_eq: "memcmp a b n = 0 \<longleftrightarrow> (\<forall>j<n. a j = b j)"
  using memcmp_loop_eq[of a b 0 n] by (simp add: memcmp_def)

lemma memcpy_loop_some:
  "off + i + n \<le> length a \<Longrightarrow>
   memcpy_loop a off b i n = Some (take (off + i) a @ map b [i..<i + n] @ drop (off + i + n) a)"
proof (induction n arbitrary: a i)
  case (Suc n)
  have t: "take (Suc (off + i)) (a[off + i := b i]) = take (off + i) a @ [b i]"
    using Suc.prems by (simp add: take_Suc_conv_app_nth)
  have u: "[i..<i + Suc n] = i # [Suc i..<Suc i + n]" by (simp add: upt_rec[of i])
  show ?case unfolding u using Suc t by simp
qed simp

lemma memcpy_loop_none: "length a < off + i + n \<Longrightarrow> 0 < n \<Longrightarrow> memcpy_loop a off b i n = None"
proof (induction n arbitrary: a i)
  case (Suc n)
  show ?case using Suc.IH[of "a[off + i := b i]" "Suc i"] Suc.prems by (cases "n = 0") simp_all
qed simp

lemma memcpy_some:
  "off + unat len \<le> length a \<Longrightarrow>
   memcpy a off b len = Some (take off a @ map b [0..<unat len] @ drop (off + unat len) a)"
  using memcpy_loop_some[of off 0 "unat len" a b] by (simp add: memcpy_def)

lemma memcpy_none: "length a < off + unat len \<Longrightarrow> off \<le> length a \<Longrightarrow> memcpy a off b len = None"
  using memcpy_loop_none[of a off 0 "unat len" b] by (simp add: memcpy_def)

lemma memcpy_length: "memcpy a off b len = Some a' \<Longrightarrow> length a' = length a"
proof -
  have "memcpy_loop a off b i n = Some a' \<Longrightarrow> length a' = length a" for i n
    by (induction n arbitrary: a i) (auto split: if_splits)
  then show "memcpy a off b len = Some a' \<Longrightarrow> length a' = length a" by (simp add: memcpy_def)
qed

text \<open>The days before a year and before a month of it.\<close>

definition days_before :: "nat \<Rightarrow> nat" where
  "days_before y = (\<Sum>k\<in>{EPOCH_YR..<y}. YEARSIZE k)"

lemma year_loop_days:
  "EPOCH_YR \<le> y \<Longrightarrow> year_loop d y = (r, y') \<Longrightarrow>
   EPOCH_YR \<le> y' \<and> r < YEARSIZE y' \<and> days_before y' + r = days_before y + d"
proof (induction d y rule: year_loop.induct)
  case (1 d y)
  have "days_before (Suc y) = days_before y + YEARSIZE y"
    using 1(2) by (simp add: days_before_def)
  then show ?case
    using 1 year_loop.simps[of d y] by (cases "YEARSIZE y \<le> d") auto
qed

lemma month_loop_days:
  "d < sum_list (drop mon tab) \<Longrightarrow>
   \<exists>r m. month_loop tab d mon = Some (r, m) \<and> mon \<le> m \<and> m < length tab \<and> r < tab ! m \<and>
     sum_list (take mon tab) + d = sum_list (take m tab) + r"
proof (induction tab d mon rule: month_loop.induct)
  case (1 tab d mon)
  then have lt: "mon < length tab" by (cases "mon < length tab") auto
  then have dr: "drop mon tab = tab ! mon # drop (Suc mon) tab" by (simp add: Cons_nth_drop_Suc)
  show ?case
  proof (cases "tab ! mon \<le> d")
    case True
    then have "d - tab ! mon < sum_list (drop (Suc mon) tab)" using 1(2) dr by simp
    then obtain r m where "month_loop tab (d - tab ! mon) (Suc mon) = Some (r, m)" "Suc mon \<le> m"
      "m < length tab" "r < tab ! m" "sum_list (take (Suc mon) tab) + (d - tab ! mon) = sum_list (take m tab) + r"
      using 1(1) lt True by auto
    then show ?thesis
      using lt True month_loop.simps[of tab d mon] by (auto simp: take_Suc_conv_app_nth)
  next
    case False
    then show ?thesis using lt month_loop.simps[of tab d mon] by auto
  qed
qed

lemma ytab_year: "sum_list (ytab (LEAPYEAR y)) = YEARSIZE y" "length (ytab l) = 12"
  by (simp_all add: ytab_def YEARSIZE_def)

lemma break_time_date:
  "\<exists>t. break_time sec = Some t \<and> tm_mon t < 12 \<and> 1 \<le> tm_mday t \<and>
     tm_mday t \<le> ytab (LEAPYEAR (tm_year t + YEAR0)) ! tm_mon t \<and>
     days_before (tm_year t + YEAR0) + sum_list (take (tm_mon t) (ytab (LEAPYEAR (tm_year t + YEAR0)))) +
       (tm_mday t - 1) = unat (ucast sec :: u32) div SECS_DAY \<and>
     tm_hour t < 24 \<and> tm_min t < 60 \<and> tm_sec t < 60 \<and>
     tm_hour t * 3600 + tm_min t * 60 + tm_sec t = unat (ucast sec :: u32) mod SECS_DAY \<and>
     tm_wday t = (unat (ucast sec :: u32) div SECS_DAY + 4) mod 7"
proof -
  let ?t = "unat (ucast sec :: u32)"
  obtain r y where y: "year_loop (?t div SECS_DAY) EPOCH_YR = (r, y)" by fastforce
  note yd = year_loop_days[OF order_refl y]
  have b0: "days_before EPOCH_YR = 0" by (simp add: days_before_def)
  have "r < sum_list (drop 0 (ytab (LEAPYEAR y)))" using yd by (simp add: ytab_year)
  then obtain d m where m: "month_loop (ytab (LEAPYEAR y)) r 0 = Some (d, m)" "m < 12"
    "d < ytab (LEAPYEAR y) ! m" "r = sum_list (take m (ytab (LEAPYEAR y))) + d"
    using month_loop_days[of r 0 "ytab (LEAPYEAR y)"] by (auto simp: ytab_year)
  have yy: "y - YEAR0 + YEAR0 = y" using yd by (simp add: EPOCH_YR_def YEAR0_def)
  let ?c = "?t mod SECS_DAY"
  have c: "?c < 86400" by (simp add: SECS_DAY_def)
  have clock: "?c div 3600 < 24" "?c mod 3600 div 60 < 60" "?c mod 60 < 60"
    using c by (simp_all add: less_mult_imp_div_less)
  have "?c div 3600 * 3600 + ?c mod 3600 = ?c" by simp
  moreover have "?c mod 3600 div 60 * 60 + ?c mod 3600 mod 60 = ?c mod 3600" by (rule div_mult_mod_eq)
  moreover have "?c mod 3600 mod 60 = ?c mod 60" by (rule mod_mod_cancel) simp
  ultimately have sum: "?c div 3600 * 3600 + ?c mod 3600 div 60 * 60 + ?c mod 60 = ?c" by linarith
  have t: "break_time sec = Some \<lparr>tm_sec = ?c mod 60, tm_min = ?c mod 3600 div 60, tm_hour = ?c div 3600,
      tm_mday = d + 1, tm_mon = m, tm_year = y - YEAR0, tm_wday = (?t div SECS_DAY + 4) mod 7, tm_yday = r\<rparr>"
    unfolding break_time_def Let_def y fst_conv snd_conv m(1) by simp
  have dd: "1 \<le> d + 1" "d + 1 \<le> ytab (LEAPYEAR y) ! m" "d + 1 - 1 = d" using m(3) by simp_all
  have days: "days_before y + sum_list (take m (ytab (LEAPYEAR y))) + d = ?t div SECS_DAY"
    using yd m(4) b0 by (simp only: add.assoc)
  show ?thesis
    by (rule exI, rule conjI, rule t) (simp only: tm.select_convs yy m(2) dd clock sum days simp_thms)
qed

text \<open>
  For every time, \<^verbatim>\<open>format_time\<close> ends without reading past its table of month
  lengths, and what it formats is the date and the time of day: the days of the years before,
  of the months before and of the month add up to the day number, with a day that exists in that
  month, and hours, minutes and seconds in their ranges add up to the seconds of the day.
\<close>

lemma format_time_date:
  "\<exists>y m d hh mm ss. m < 12 \<and> 1 \<le> d \<and> d \<le> ytab (LEAPYEAR y) ! m \<and> hh < 24 \<and> mm < 60 \<and> ss < 60 \<and>
     (days_before y + sum_list (take m (ytab (LEAPYEAR y))) + (d - 1)) * SECS_DAY + hh * 3600 + mm * 60 + ss
       = unat (ucast sec :: u32) \<and>
     format_time sprintf sec = Some (sprintf ''%s, %s %d, %d, %2d:%2d:%2d''
       [Str (map (\<lambda>c. of_nat (of_char c)) (days_tab ! ((unat (ucast sec :: u32) div SECS_DAY + 4) mod 7))),
        Str (map (\<lambda>c. of_nat (of_char c)) (months_tab ! m)), Num (of_nat d), Num (of_nat y),
        Num (of_nat hh), Num (of_nat mm), Num (of_nat ss)])"
proof -
  obtain t where t: "break_time sec = Some t" "tm_mon t < 12" "1 \<le> tm_mday t"
    "tm_mday t \<le> ytab (LEAPYEAR (tm_year t + YEAR0)) ! tm_mon t"
    "days_before (tm_year t + YEAR0) + sum_list (take (tm_mon t) (ytab (LEAPYEAR (tm_year t + YEAR0)))) +
       (tm_mday t - 1) = unat (ucast sec :: u32) div SECS_DAY"
    "tm_hour t < 24" "tm_min t < 60" "tm_sec t < 60"
    "tm_hour t * 3600 + tm_min t * 60 + tm_sec t = unat (ucast sec :: u32) mod SECS_DAY"
    "tm_wday t = (unat (ucast sec :: u32) div SECS_DAY + 4) mod 7"
    using break_time_date[of sec] by (elim exE conjE)
  let ?n = "unat (ucast sec :: u32)"
  have "?n div SECS_DAY * SECS_DAY + (tm_hour t * 3600 + tm_min t * 60 + tm_sec t) = ?n"
    unfolding t(9) by (rule div_mult_mod_eq)
  then have sum: "(days_before (tm_year t + YEAR0) +
      sum_list (take (tm_mon t) (ytab (LEAPYEAR (tm_year t + YEAR0)))) + (tm_mday t - 1)) * SECS_DAY +
      tm_hour t * 3600 + tm_min t * 60 + tm_sec t = ?n"
    unfolding t(5) by (simp only: add.assoc)
  have fmt: "format_time sprintf sec = Some (sprintf ''%s, %s %d, %d, %2d:%2d:%2d''
       [Str (map (\<lambda>c. of_nat (of_char c)) (days_tab ! ((?n div SECS_DAY + 4) mod 7))),
        Str (map (\<lambda>c. of_nat (of_char c)) (months_tab ! tm_mon t)), Num (of_nat (tm_mday t)),
        Num (of_nat (tm_year t + YEAR0)), Num (of_nat (tm_hour t)), Num (of_nat (tm_min t)), Num (of_nat (tm_sec t))])"
    unfolding format_time_def t(1,10) option.case ..
  show ?thesis
    by (rule exI[of _ "tm_year t + YEAR0"], rule exI[of _ "tm_mon t"], rule exI[of _ "tm_mday t"],
        rule exI[of _ "tm_hour t"], rule exI[of _ "tm_min t"], rule exI[of _ "tm_sec t"],
        intro conjI t(2,3,4,6,7,8) sum fmt)
qed

end
