(* ===== verification/Net.thy ===== *)
theory Net
  imports Ethmac_Correct Util
begin

text \<open>
  The network code: the layout of the packets (\<^verbatim>\<open>lib/proto.h\<close>), the addresses and the checksum
  (\<^verbatim>\<open>lib/ipv4.c\<close>), and the two replies the firmware sends, \<^verbatim>\<open>sendARP\<close> (\<^verbatim>\<open>lib/arp.c\<close>) and
  \<^verbatim>\<open>sendECHO\<close> (\<^verbatim>\<open>lib/icmp.c\<close>).
\<close>

section \<open>Layout of the packets\<close>

definition ETH_DEST :: nat where "ETH_DEST = 0"
definition ETH_SOURCE :: nat where "ETH_SOURCE = ETH_DEST + 6"
definition ETH_TYPE :: nat where "ETH_TYPE = ETH_SOURCE + 6"
definition ETH_END :: nat where "ETH_END = ETH_TYPE + 2"

definition IP_VERSION :: nat where "IP_VERSION = ETH_END"
definition IP_TOS :: nat where "IP_TOS = IP_VERSION + 1"
definition IP_LEN :: nat where "IP_LEN = IP_TOS + 1"
definition IP_ID :: nat where "IP_ID = IP_LEN + 2"
definition IP_FLAGS :: nat where "IP_FLAGS = IP_ID + 2"
definition IP_TTL :: nat where "IP_TTL = IP_FLAGS + 2"
definition IP_PROTOCOL :: nat where "IP_PROTOCOL = IP_TTL + 1"
definition IP_CHECKSUM :: nat where "IP_CHECKSUM = IP_PROTOCOL + 1"
definition IP_SOURCE :: nat where "IP_SOURCE = IP_CHECKSUM + 2"
definition IP_DEST :: nat where "IP_DEST = IP_SOURCE + 4"
definition IP_END :: nat where "IP_END = IP_DEST + 4"

definition ARP_HTYPE :: nat where "ARP_HTYPE = ETH_END"
definition ARP_PTYPE :: nat where "ARP_PTYPE = ARP_HTYPE + 2"
definition ARP_HLEN :: nat where "ARP_HLEN = ARP_PTYPE + 2"
definition ARP_PLEN :: nat where "ARP_PLEN = ARP_HLEN + 1"
definition ARP_OPER :: nat where "ARP_OPER = ARP_PLEN + 1"
definition ARP_SHA :: nat where "ARP_SHA = ARP_OPER + 2"
definition ARP_SPA :: nat where "ARP_SPA = ARP_SHA + 6"
definition ARP_THA :: nat where "ARP_THA = ARP_SPA + 4"
definition ARP_TPA :: nat where "ARP_TPA = ARP_THA + 6"
definition ARP_END :: nat where "ARP_END = ARP_TPA + 4"

definition ICMP_TYPE :: nat where "ICMP_TYPE = IP_END"
definition ICMP_CODE :: nat where "ICMP_CODE = ICMP_TYPE + 1"
definition ICMP_CHECKSUM :: nat where "ICMP_CHECKSUM = ICMP_CODE + 1"
definition ICMP_QUENCH :: nat where "ICMP_QUENCH = ICMP_CHECKSUM + 2"

lemmas proto_defs = ETH_DEST_def ETH_SOURCE_def ETH_TYPE_def ETH_END_def IP_VERSION_def IP_TOS_def
  IP_LEN_def IP_ID_def IP_FLAGS_def IP_TTL_def IP_PROTOCOL_def IP_CHECKSUM_def IP_SOURCE_def
  IP_DEST_def IP_END_def ARP_HTYPE_def ARP_PTYPE_def ARP_HLEN_def ARP_PLEN_def ARP_OPER_def
  ARP_SHA_def ARP_SPA_def ARP_THA_def ARP_TPA_def ARP_END_def ICMP_TYPE_def ICMP_CODE_def
  ICMP_CHECKSUM_def ICMP_QUENCH_def

section \<open>Addresses and checksum\<close>

definition myIP :: "u8 list" where "myIP = [10, 0, 18, 148]"
definition myMAC :: "u8 list" where "myMAC = ETH_MACADDR"
definition allMAC :: "u8 list" where "allMAC = [0xff, 0xff, 0xff, 0xff, 0xff, 0xff]"

primrec sum_shorts :: "(nat \<Rightarrow> u16) \<Rightarrow> nat \<Rightarrow> u32" where
  "sum_shorts buf 0 = 0"
| "sum_shorts buf (Suc i) = sum_shorts buf i + ucast (buf i)"

definition ipv4_checksum :: "(nat \<Rightarrow> u16) \<Rightarrow> int \<Rightarrow> u32" where
  "ipv4_checksum buf shorts =
     (let sum0 = sum_shorts buf (nat shorts);
          sum1 = drop_bit 16 sum0 + (sum0 AND 0xffff);
          sum2 = sum1 + drop_bit 16 sum1
      in NOT sum2 AND 0xffff)"

text \<open>The 16-bit words of a byte array from index \<open>off\<close> on; the CPU is big-endian.\<close>

definition shorts_at :: "u8 list \<Rightarrow> nat \<Rightarrow> nat \<Rightarrow> u16" where
  "shorts_at buf off i = push_bit 8 (ucast (buf ! (off + 2 * i))) OR ucast (buf ! (off + 2 * i + 1))"

section \<open>Filling a packet\<close>

type_synonym patch = "u8 list \<Rightarrow> u8 list option"

text \<open>\<^verbatim>\<open>buf[i] = v\<close> and \<^verbatim>\<open>memcpy(buf + off, src, n)\<close>; both fail past the end of \<^verbatim>\<open>buf\<close>.\<close>

definition put :: "nat \<Rightarrow> u8 \<Rightarrow> patch" where
  "put i v buf = (if i < length buf then Some (buf[i := v]) else None)"

definition cpy :: "nat \<Rightarrow> u8 list \<Rightarrow> u32 \<Rightarrow> patch" where
  "cpy off src n buf = memcpy buf off (\<lambda>i. src ! i) n"

primrec patches :: "patch list \<Rightarrow> patch" where
  "patches [] buf = Some buf"
| "patches (p # ps) buf = (case p buf of None \<Rightarrow> None | Some buf' \<Rightarrow> patches ps buf')"

text \<open>\<open>stk\<close> is what the stack holds where the local array lies.\<close>

definition arp_frame :: "(nat \<Rightarrow> u8) \<Rightarrow> u8 list \<Rightarrow> u8 list \<Rightarrow> u8 list option" where
  "arp_frame stk mac ip =
     patches
      [cpy ETH_DEST mac 6, cpy ETH_SOURCE myMAC 6,
       put (ETH_TYPE + 0) 0x08, put (ETH_TYPE + 1) 0x06,
       put (ARP_HTYPE + 0) 0, put (ARP_HTYPE + 1) 1,
       put (ARP_PTYPE + 0) 8, put (ARP_PTYPE + 1) 0,
       put ARP_HLEN 6, put ARP_PLEN 4,
       put (ARP_OPER + 0) 0, put (ARP_OPER + 1) 2,
       cpy ARP_SHA myMAC 6, cpy ARP_SPA myIP 4,
       cpy ARP_THA mac 6, cpy ARP_TPA ip 4] (map stk [0..<ARP_END])"

definition or_overrun :: "'a option \<Rightarrow> ('s, 'a) prog" where
  "or_overrun r = (case r of None \<Rightarrow> fail BufferOverrun | Some a \<Rightarrow> ret a)"

definition sendARP :: "'h plat \<Rightarrow> (nat \<Rightarrow> u8) \<Rightarrow> ('h mach, unit) prog" where
  "sendARP B stk =
     thn (pp_printf ''> sending ARP packet\<newline>'' [])
     (bnd (gets (\<lambda>s. arp_frame stk (hisMAC s) (hisIP s))) (\<lambda>r.
     bnd (or_overrun r) (\<lambda>buf.
     thn (tx_packet B buf (int ARP_END))
     (modify (\<lambda>s. s\<lparr>sawARP := False\<rparr>)))))"

text \<open>The two bytes of a checksum, most significant first.\<close>

definition put_sum :: "nat \<Rightarrow> (u8 list \<Rightarrow> u32) \<Rightarrow> patch" where
  "put_sum i f buf = patches [put i (ucast (drop_bit 8 (f buf))), put (i + 1) (ucast (f buf AND 0xff))] buf"

definition echo_frame :: "(nat \<Rightarrow> u8) \<Rightarrow> u8 list \<Rightarrow> u8 list \<Rightarrow> u8 list \<Rightarrow> int \<Rightarrow> u8 list option" where
  "echo_frame stk mac ip body n =
     patches
      [cpy ETH_DEST mac 6, cpy ETH_SOURCE myMAC 6,
       put (ETH_TYPE + 0) 0x08, put (ETH_TYPE + 1) 0x00,
       put IP_VERSION 0x45, put IP_TOS 0,
       put (IP_LEN + 0) (word_of_int ((n + 24) div 256)), put (IP_LEN + 1) (word_of_int ((n + 24) mod 256)),
       put (IP_ID + 0) 0, put (IP_ID + 1) 0,
       put (IP_FLAGS + 0) 0, put (IP_FLAGS + 1) 0,
       put IP_TTL 63, put IP_PROTOCOL 1,
       put (IP_CHECKSUM + 0) 0, put (IP_CHECKSUM + 1) 0,
       cpy IP_SOURCE myIP 4, cpy IP_DEST ip 4,
       put ICMP_TYPE 0, put ICMP_CODE 0,
       put (ICMP_CHECKSUM + 0) 0, put (ICMP_CHECKSUM + 1) 0,
       cpy ICMP_QUENCH body (word_of_int n),
       if n mod 2 \<noteq> 0 then put (nat (int ICMP_QUENCH + n)) 0 else Some,
       put_sum ICMP_CHECKSUM (\<lambda>buf. ipv4_checksum (shorts_at buf ICMP_TYPE) ((n + 4 + 1) div 2)),
       put_sum IP_CHECKSUM (\<lambda>buf. ipv4_checksum (shorts_at buf IP_VERSION) 10)] (map stk [0..<500])"

definition sendECHO :: "'h plat \<Rightarrow> (nat \<Rightarrow> u8) \<Rightarrow> ('h mach, unit) prog" where
  "sendECHO B stk =
     thn (pp_printf ''> sending ECHO packet\<newline>'' [])
     (bnd (gets (\<lambda>s. echo_frame stk (hisMAC s) (hisIP s) (hisBody s) (hisBodyLen s))) (\<lambda>r.
     bnd (or_overrun r) (\<lambda>buf.
     bnd (gets hisBodyLen) (\<lambda>n.
     thn (tx_packet B buf (n + int ICMP_QUENCH))
     (modify (\<lambda>s. s\<lparr>sawPING := False\<rparr>))))))"

end
