(* ===== verification/Ones_Sum.thy ===== *)
theory Ones_Sum
  imports Prelude
begin

text \<open>
  Sums with end-around carry, which all checksums of the Internet protocols are: the one of the replies
  (\<^verbatim>\<open>lib/ipv4.c\<close>) and the ones of lwIP.
\<close>

lemma low16: "unat (w AND 0xffff) = unat w mod 65536" for w :: u32
proof -
  have "(0xffff :: u32) = mask 16" by (simp add: mask_eq_exp_minus_1)
  then have "w AND 0xffff = take_bit 16 w" by (simp only: take_bit_eq_mask)
  then show ?thesis by (simp only: unsigned_take_bit_eq) (simp add: take_bit_eq_mod)
qed

lemma not_low16: "unat (NOT w AND 0xffff) = 65535 - unat w mod 65536" for w :: u32
proof -
  have m: "unat (- 1 :: u32) = 4294967295" by (simp add: unsigned_minus_1_eq_mask mask_eq_exp_minus_1)
  have l: "unat w < 4294967296" using unsigned_less[of w, where 'a = nat] by simp
  have "NOT w = - 1 - w" by (simp add: not_eq_complement)
  moreover have "unat (- 1 - w) = unat (- 1 :: u32) - unat w"
    by (rule unat_sub) (use l m in \<open>simp add: word_le_nat_alt\<close>)
  ultimately have n: "unat (NOT w) = 4294967295 - unat w" using m by simp
  have "(4294967295 - x) mod 65536 = 65535 - x mod 65536" if "x < 4294967296" for x :: nat
  proof -
    have "4294967295 - x = (65535 - x mod 65536) + 65536 * (65535 - x div 65536)"
      using that div_mult_mod_eq[of x 65536] mod_less_divisor[of 65536 x] less_mult_imp_div_less[of x 65536 65536]
      by (simp add: diff_mult_distrib2)
    then show ?thesis by (simp only: mod_mult_self2) simp
  qed
  then show ?thesis unfolding low16 n using l by blast
qed

text \<open>The end-around-carry sum of \<open>S\<close>: in 1 to 65535 unless \<open>S\<close> is 0.\<close>

definition carry_sum :: "nat \<Rightarrow> nat" where
  "carry_sum S = (if S = 0 then 0 else (S - 1) mod 65535 + 1)"

lemma carry_sum_fold:
  assumes "S < 4294967296"
  shows "((S div 65536 + S mod 65536) + (S div 65536 + S mod 65536) div 65536) mod 65536 = carry_sum S"
proof -
  define a b where "a = S div 65536" and "b = S mod 65536"
  have S: "S = 65536 * a + b" unfolding a_def b_def by simp
  have b: "b < 65536" by (simp add: b_def)
  have a: "a < 65536" using assms by (simp add: a_def div_less_iff_less_mult)
  show ?thesis
  proof (cases "a + b < 65536")
    case True
    have "(S - 1) mod 65535 = a + b - 1" if "0 < a + b"
    proof -
      have "S - 1 = (a + b - 1) + 65535 * a" using S that by simp
      then show ?thesis using True that by (simp only: mod_mult_self2) simp
    qed
    then show ?thesis using True S by (auto simp: carry_sum_def a_def[symmetric] b_def[symmetric])
  next
    case False
    have "S - 1 = (a + b - 65536) + 65535 * (a + 1)" using S False by simp
    then have "(S - 1) mod 65535 = (a + b - 65536) mod 65535" by (simp only: mod_mult_self2)
    moreover have "(a + b) div 65536 = 1" using False a b by simp
    moreover have "(a + b + 1) mod 65536 = a + b + 1 - 65536" using False a b by (simp add: le_mod_geq)
    ultimately show ?thesis
      using False S a b by (simp add: carry_sum_def a_def[symmetric] b_def[symmetric])
  qed
qed

lemma carry_sum_complement: "carry_sum (S + (65535 - carry_sum S)) = 65535"
proof (cases "S = 0")
  case False
  define q m where "q = (S - 1) div 65535" and "m = (S - 1) mod 65535"
  have "S - 1 = q * 65535 + m" unfolding q_def m_def by simp
  then have S: "S = 65535 * q + m + 1" using False by simp
  have m: "m < 65535" by (simp add: m_def)
  have "S + (65535 - carry_sum S) = 65535 * q + 65535"
    using False S m by (simp add: carry_sum_def m_def[symmetric])
  then show ?thesis using mod_mult_self2[of 65534 65535 q] by (simp add: carry_sum_def)
qed (simp add: carry_sum_def)

text \<open>What decides the sum.\<close>

lemma carry_sum_le: "carry_sum S \<le> 65535"
  using mod_less_divisor[of 65535 "S - 1"] by (auto simp: carry_sum_def less_Suc_eq_le simp del: mod_less_divisor)

lemma carry_sum_0 [simp]: "carry_sum S = 0 \<longleftrightarrow> S = 0"
  by (simp add: carry_sum_def)

lemma carry_sum_mod: "carry_sum S mod 65535 = S mod 65535"
proof (cases "S = 0")
  case False
  then have "carry_sum S mod 65535 = ((S - 1) mod 65535 + 1) mod 65535" by (simp add: carry_sum_def)
  also have "\<dots> = (S - 1 + 1) mod 65535" by (rule mod_add_left_eq)
  finally show ?thesis using False by simp
qed (simp add: carry_sum_def)

lemma carry_sum_eqI:
  assumes "x \<le> 65535" "x mod 65535 = S mod 65535" "x = 0 \<longleftrightarrow> S = 0"
  shows "x = carry_sum S"
proof -
  have c: "x mod 65535 = carry_sum S mod 65535" "x = 0 \<longleftrightarrow> carry_sum S = 0" using assms(2,3) by (simp_all add: carry_sum_mod)
  have "y = (if y mod 65535 = 0 then if y = 0 then 0 else 65535 else y mod 65535)" if "y \<le> 65535" for y :: nat
    using that by (cases "y = 65535") auto
  from this[OF assms(1)] this[OF carry_sum_le[of S]] c show ?thesis by metis
qed

text \<open>Two numbers with the same sum.\<close>

definition ones_eq :: "nat \<Rightarrow> nat \<Rightarrow> bool" where
  "ones_eq S T \<longleftrightarrow> S mod 65535 = T mod 65535 \<and> (S = 0 \<longleftrightarrow> T = 0)"

lemma ones_eq_refl [simp, intro]: "ones_eq S S"
  by (simp add: ones_eq_def)

lemma ones_eq_sym: "ones_eq S T \<Longrightarrow> ones_eq T S"
  by (auto simp: ones_eq_def)

lemma ones_eq_trans [trans]: "ones_eq S T \<Longrightarrow> ones_eq T U \<Longrightarrow> ones_eq S U"
  by (simp add: ones_eq_def)

lemma ones_eq_add: "ones_eq S T \<Longrightarrow> ones_eq S' T' \<Longrightarrow> ones_eq (S + S') (T + T')"
  unfolding ones_eq_def using mod_add_cong[of S 65535 T S' T'] by simp

lemma ones_eq_mult: "ones_eq S T \<Longrightarrow> ones_eq (k * S) (k * T)"
  unfolding ones_eq_def using mod_mult_cong[of k 65535 k S T] by auto

lemma ones_eq_65536: "ones_eq (65536 * S) S"
proof -
  have "65536 * S = S + 65535 * S" by simp
  then have "65536 * S mod 65535 = S mod 65535" by (simp only: mod_mult_self2)
  then show ?thesis by (simp add: ones_eq_def)
qed

lemma ones_eq_carry_sum: "ones_eq (carry_sum S) S"
  by (simp add: ones_eq_def carry_sum_mod)

lemma carry_sum_cong: "ones_eq S T \<Longrightarrow> carry_sum S = carry_sum T"
  by (rule carry_sum_eqI) (auto simp: ones_eq_def carry_sum_mod carry_sum_le)

lemma carry_sumI: "x \<le> 65535 \<Longrightarrow> ones_eq x S \<Longrightarrow> x = carry_sum S"
  by (rule carry_sum_eqI) (auto simp: ones_eq_def)

end
