(* ===== verification/Net_Correct.thy ===== *)
theory Net_Correct
  imports Net Ones_Sum
begin

text \<open>
  What the network code puts on the wire: the checksum verifies at the receiver, and the two
  replies carry the addresses and the body they answer.
\<close>

section \<open>Checksum\<close>

lemma sum_shorts_unat: "n \<le> 65537 \<Longrightarrow> unat (sum_shorts f n) = (\<Sum>i<n. unat (f i))"
proof (induction n)
  case (Suc n)
  have f: "unat (f i) \<le> 65535" for i using unsigned_less[of "f i", where 'a = nat] by simp
  have "(\<Sum>i<n. unat (f i)) \<le> n * 65535" using sum_bounded_above[of "{..<n}" "\<lambda>i. unat (f i)" 65535] f by simp
  then have "(\<Sum>i<n. unat (f i)) + unat (f n) < 2 ^ 32" using Suc.prems f[of n] by simp
  moreover have "unat (ucast (f n) :: u32) = unat (f n)" using f[of n] by (simp add: unsigned_ucast_eq take_bit_nat_eq_self)
  ultimately show ?case using Suc by (simp add: unat_add_lt)
qed simp

lemma ipv4_checksum_unat:
  assumes "n \<le> 65537"
  shows "unat (ipv4_checksum f (int n)) = 65535 - carry_sum (\<Sum>i<n. unat (f i))"
proof -
  let ?w = "sum_shorts f n" and ?S = "\<Sum>i<n. unat (f i)"
  have S: "unat ?w = ?S" using assms by (rule sum_shorts_unat)
  have lt: "?S < 4294967296" using unsigned_less[of ?w, where 'a = nat] S by simp
  let ?w1 = "drop_bit 16 ?w + (?w AND 0xffff)"
  have w1: "unat ?w1 = ?S div 65536 + ?S mod 65536"
    by (subst unat_add_lt) (use lt in \<open>simp_all add: unat_drop_bit low16 S less_mult_imp_div_less\<close>)
  have "?S div 65536 < 65536" "?S mod 65536 < 65536" using lt by (simp_all add: div_less_iff_less_mult)
  then have b: "x div 65536 \<le> 131070 \<and> x < 131071" if "x = ?S div 65536 + ?S mod 65536" for x
    using that div_le_dividend[of x 65536] by linarith
  have "unat (?w1 + drop_bit 16 ?w1) = unat ?w1 + unat ?w1 div 65536"
    by (subst unat_add_lt) (use b[OF refl] in \<open>simp_all add: unat_drop_bit w1\<close>)
  then have "unat (?w1 + drop_bit 16 ?w1) mod 65536 = carry_sum ?S"
    using carry_sum_fold[OF lt] w1 by simp
  then show ?thesis by (simp add: ipv4_checksum_def Let_def not_low16)
qed

lemma checksum_verifies:
  assumes n: "n \<le> 65537" and k: "k < n" and z: "f k = 0"
    and g: "g k = ucast (ipv4_checksum f (int n))" "\<And>i. i < n \<Longrightarrow> i \<noteq> k \<Longrightarrow> g i = f i"
  shows "ipv4_checksum g (int n) = 0"
proof -
  let ?S = "\<Sum>i<n. unat (f i)"
  have c: "unat (g k) = 65535 - carry_sum ?S"
  proof -
    have "unat (g k) = unat (ipv4_checksum f (int n)) mod 65536"
      unfolding g(1) by (simp add: unsigned_ucast_eq take_bit_eq_mod)
    then show ?thesis using ipv4_checksum_unat[OF n, of f] by simp
  qed
  have "(\<Sum>i<n. unat (h i)) = unat (h k) + (\<Sum>i\<in>{..<n} - {k}. unat (h i))" for h :: "nat \<Rightarrow> u16"
    using k by (intro sum.remove) auto
  from this[of g] this[of f] have "(\<Sum>i<n. unat (g i)) = unat (g k) + ?S"
    using z g(2) by simp
  then have "unat (ipv4_checksum g (int n)) = 0"
    using ipv4_checksum_unat[OF n, of g] carry_sum_complement[of ?S] c by (simp add: add.commute)
  then show ?thesis by (simp only: unsigned_eq_0_iff)
qed

section \<open>Filling a packet in order\<close>

text \<open>\<open>p\<close> writes \<open>xs\<close> from index \<open>i\<close> on.\<close>

definition fills :: "nat \<Rightarrow> u8 list \<Rightarrow> patch \<Rightarrow> bool" where
  "fills i xs p \<longleftrightarrow>
     (\<forall>pre rest. length pre = i \<longrightarrow> length xs \<le> length rest \<longrightarrow>
        p (pre @ rest) = Some ((pre @ xs) @ drop (length xs) rest))"

lemma fills_put: "j = i \<Longrightarrow> fills i [v] (put j v)"
  unfolding fills_def put_def by (auto simp: list_update_append Suc_le_eq neq_Nil_conv)

lemma fills_cpy:
  assumes "j = i" "unat n = length src"
  shows "fills i src (cpy j src n)"
proof -
  have m: "map (\<lambda>i. src ! i) [0..<length src] = src" by (rule map_nth)
  show ?thesis
    unfolding fills_def cpy_def using assms m by (auto simp: memcpy_some)
qed

lemma fills_cpy_part:
  assumes "j = i" "unat n \<le> length src"
  shows "fills i (take (unat n) src) (cpy j src n)"
proof -
  have m: "map (\<lambda>i. src ! i) [0..<unat n] = take (unat n) src"
    using assms by (intro nth_equalityI) auto
  show ?thesis
    unfolding fills_def cpy_def using assms m by (auto simp: memcpy_some)
qed

lemma fills_skip: "fills i [] Some"
  by (simp add: fills_def)

lemma fills_Nil: "fills i [] (patches [])"
  by (simp add: fills_def)

lemma fills_Cons:
  assumes p: "fills i xs p" and q: "fills (i + length xs) ys (patches ps)"
  shows "fills i (xs @ ys) (patches (p # ps))"
  unfolding fills_def
proof (intro allI impI)
  fix pre rest :: "u8 list"
  assume l: "length pre = i" "length (xs @ ys) \<le> length rest"
  have "p (pre @ rest) = Some ((pre @ xs) @ drop (length xs) rest)"
    using p l unfolding fills_def by auto
  moreover have "patches ps ((pre @ xs) @ drop (length xs) rest)
      = Some (((pre @ xs) @ ys) @ drop (length ys) (drop (length xs) rest))"
    using q[unfolded fills_def, rule_format, of "pre @ xs" "drop (length xs) rest"] l by auto
  ultimately show "patches (p # ps) (pre @ rest) = Some ((pre @ xs @ ys) @ drop (length (xs @ ys)) rest)"
    by (simp add: add.commute)
qed

lemma fills_run: "fills 0 xs p \<Longrightarrow> length xs \<le> length buf \<Longrightarrow> p buf = Some (xs @ drop (length xs) buf)"
  unfolding fills_def by (drule spec[of _ "[]"], drule spec[of _ buf]) simp

lemma patches_append: "patches (ps @ qs) buf = (case patches ps buf of None \<Rightarrow> None | Some b \<Rightarrow> patches qs b)"
  by (induction ps arbitrary: buf) (auto split: option.splits)

text \<open>The reply to an ARP request.\<close>

definition arp_reply :: "u8 list \<Rightarrow> u8 list \<Rightarrow> u8 list" where
  "arp_reply mac ip =
     mac @ myMAC @ [0x08, 0x06, 0, 1, 8, 0, 6, 4, 0, 2] @ myMAC @ myIP @ mac @ ip"

lemma my_lengths: "length myMAC = 6" "length myIP = 4"
  by (simp_all add: myMAC_def ETH_MACADDR_def myIP_def)

lemma arp_frame_reply:
  assumes "length mac = 6" "length ip = 4"
  shows "arp_frame stk mac ip = Some (arp_reply mac ip)"
proof -
  have "fills 0 (mac @ myMAC @ [0x08] @ [0x06] @ [0] @ [1] @ [8] @ [0] @ [6] @ [4] @ [0] @ [2] @ myMAC @ myIP @ mac @ ip @ [])
      (patches
      [cpy ETH_DEST mac 6, cpy ETH_SOURCE myMAC 6,
       put (ETH_TYPE + 0) 0x08, put (ETH_TYPE + 1) 0x06,
       put (ARP_HTYPE + 0) 0, put (ARP_HTYPE + 1) 1,
       put (ARP_PTYPE + 0) 8, put (ARP_PTYPE + 1) 0,
       put ARP_HLEN 6, put ARP_PLEN 4,
       put (ARP_OPER + 0) 0, put (ARP_OPER + 1) 2,
       cpy ARP_SHA myMAC 6, cpy ARP_SPA myIP 4,
       cpy ARP_THA mac 6, cpy ARP_TPA ip 4])"
    by ((rule fills_Cons, (rule fills_put fills_cpy; simp add: assms my_lengths proto_defs))+, rule fills_Nil)
  from fills_run[OF this, of "map stk [0..<ARP_END]"] show ?thesis
    unfolding arp_frame_def arp_reply_def by (simp add: assms my_lengths proto_defs)
qed

section \<open>Echo replies\<close>

lemma shorts_at_update:
  assumes "i = off + 2 * k" "i + 1 < length buf" "w = push_bit 8 (ucast a) OR ucast b"
  shows "shorts_at (buf[i := a, i + 1 := b]) off j = (if j = k then w else shorts_at buf off j)"
  using assms by (auto simp: shorts_at_def nth_list_update)

lemma sum_bytes:
  fixes w :: u32
  shows "push_bit 8 (ucast (ucast (drop_bit 8 w) :: u8)) OR ucast (ucast (w AND 0xff) :: u8) = (ucast w :: u16)"
proof (rule bit_word_eqI)
  have f: "(0xff :: u32) = mask 8" by (simp add: mask_eq_exp_minus_1)
  fix n :: nat assume "n < LENGTH(16)"
  then show "bit (push_bit 8 (ucast (ucast (drop_bit 8 w) :: u8) :: u16) OR ucast (ucast (w AND 0xff) :: u8)) n = bit (ucast w :: u16) n"
    unfolding f by (auto simp: bit_simps)
qed

text \<open>Storing the checksum of \<open>n\<close> words in word \<open>k\<close> of them, which was zero, makes them verify.\<close>

lemma put_sum_verifies:
  assumes i: "i = off + 2 * k" "i + 1 < length buf" and k: "k < n" "n \<le> 65537"
    and z: "buf ! i = 0" "buf ! (i + 1) = 0"
  obtains a b where "put_sum i (\<lambda>buf. ipv4_checksum (shorts_at buf off) (int n)) buf = Some (buf[i := a, i + 1 := b])"
    "ipv4_checksum (shorts_at (buf[i := a, i + 1 := b]) off) (int n) = 0"
proof -
  let ?c = "ipv4_checksum (shorts_at buf off) (int n)"
  let ?a = "ucast (drop_bit 8 ?c) :: u8" and ?b = "ucast (?c AND 0xff) :: u8"
  have "put_sum i (\<lambda>buf. ipv4_checksum (shorts_at buf off) (int n)) buf = Some (buf[i := ?a, i + 1 := ?b])"
    using i by (simp add: put_sum_def put_def)
  moreover have "ipv4_checksum (shorts_at (buf[i := ?a, i + 1 := ?b]) off) (int n) = 0"
  proof (rule checksum_verifies[OF k(2,1)])
    show "shorts_at buf off k = 0" using i z by (simp add: shorts_at_def)
    note u = shorts_at_update[OF i sum_bytes[symmetric], of ?c]
    show "shorts_at (buf[i := ?a, i + 1 := ?b]) off k = ucast ?c" unfolding u by simp
    show "shorts_at (buf[i := ?a, i + 1 := ?b]) off j = shorts_at buf off j" if "j < n" "j \<noteq> k" for j
      unfolding u using that by simp
  qed
  ultimately show ?thesis by (rule that)
qed

lemma ipv4_checksum_cong:
  assumes "n \<le> 65537" "\<And>i. i < n \<Longrightarrow> f i = g i"
  shows "ipv4_checksum f (int n) = ipv4_checksum g (int n)"
proof -
  have "unat (ipv4_checksum f (int n)) = unat (ipv4_checksum g (int n))"
    unfolding ipv4_checksum_unat[OF assms(1)] using assms(2) by (intro arg_cong[where f = "\<lambda>s. 65535 - carry_sum s"] sum.cong) simp_all
  then show ?thesis by (simp add: word_unat_eq_iff)
qed

lemma ipv4_checksum_prefix:
  assumes "n \<le> 65537" "off + 2 * n \<le> length xs"
  shows "ipv4_checksum (shorts_at (xs @ r) off) (int n) = ipv4_checksum (shorts_at xs off) (int n)"
  by (rule ipv4_checksum_cong[OF assms(1)]) (use assms(2) in \<open>simp add: shorts_at_def nth_append\<close>)

text \<open>The reply to an echo request, with the bytes of its two checksums.\<close>

definition echo_reply :: "u8 list \<Rightarrow> u8 list \<Rightarrow> u8 list \<Rightarrow> u8 list \<Rightarrow> u8 list \<Rightarrow> u8 list" where
  "echo_reply mac ip body c k =
     mac @ myMAC @ [0x08, 0x00] @
     [0x45, 0, word_of_int ((int (length body) + 24) div 256), word_of_int ((int (length body) + 24) mod 256),
      0, 0, 0, 0, 63, 1] @ c @ myIP @ ip @
     [0, 0] @ k @ body"

lemma echo_reply_length:
  "length mac = 6 \<Longrightarrow> length ip = 4 \<Longrightarrow> length c = 2 \<Longrightarrow> length k = 2 \<Longrightarrow>
   length (echo_reply mac ip body c k) = 38 + length body"
  by (simp add: echo_reply_def my_lengths)

lemma echo_reply_set_icmp:
  assumes "length mac = 6" "length ip = 4"
  shows "(echo_reply mac ip body [c, d] [p, q] @ r)[36 := a, 37 := b] = echo_reply mac ip body [c, d] [a, b] @ r"
  using assms by (simp add: echo_reply_def my_lengths list_update_append)

lemma echo_reply_set_ip:
  assumes "length mac = 6" "length ip = 4"
  shows "(echo_reply mac ip body [p, q] k @ r)[24 := a, 25 := b] = echo_reply mac ip body [a, b] k @ r"
  using assms by (simp add: echo_reply_def my_lengths list_update_append)

lemma echo_frame_filled:
  assumes l: "length mac = 6" "length ip = 4" and n: "0 \<le> n" "n \<le> 462" "nat n \<le> length body"
  shows "patches
      [cpy ETH_DEST mac 6, cpy ETH_SOURCE myMAC 6,
       put (ETH_TYPE + 0) 0x08, put (ETH_TYPE + 1) 0x00,
       put IP_VERSION 0x45, put IP_TOS 0,
       put (IP_LEN + 0) (word_of_int ((n + 24) div 256)), put (IP_LEN + 1) (word_of_int ((n + 24) mod 256)),
       put (IP_ID + 0) 0, put (IP_ID + 1) 0,
       put (IP_FLAGS + 0) 0, put (IP_FLAGS + 1) 0,
       put IP_TTL 63, put IP_PROTOCOL 1,
       put (IP_CHECKSUM + 0) 0, put (IP_CHECKSUM + 1) 0,
       cpy IP_SOURCE myIP 4, cpy IP_DEST ip 4,
       put ICMP_TYPE 0, put ICMP_CODE 0,
       put (ICMP_CHECKSUM + 0) 0, put (ICMP_CHECKSUM + 1) 0,
       cpy ICMP_QUENCH body (word_of_int n),
       if n mod 2 \<noteq> 0 then put (nat (int ICMP_QUENCH + n)) 0 else Some] (map stk [0..<500])
    = Some (echo_reply mac ip (take (nat n) body) [0, 0] [0, 0] @
        (let pad = (if n mod 2 \<noteq> 0 then [0] else []) in pad @ drop (38 + nat n + length pad) (map stk [0..<500])))"
    (is "patches ?ps _ = _")
proof -
  let ?pad = "if n mod 2 \<noteq> 0 then [0] else [] :: u8 list"
  have u: "unat (word_of_int n :: u32) = nat n" using n by (simp add: unsigned_of_int take_bit_eq_mod)
  have pad: "fills (38 + nat n) ?pad (if n mod 2 \<noteq> 0 then put (nat (int ICMP_QUENCH + n)) 0 else Some)"
    using n fills_put[of "nat (38 + n)" "38 + nat n" 0] fills_skip[of "38 + nat n"]
    by (auto simp: proto_defs nat_add_distrib)
  have body: "fills 38 (take (nat n) body) (cpy ICMP_QUENCH body (word_of_int n))"
    using fills_cpy_part[of ICMP_QUENCH 38 "word_of_int n" body] n u by (simp add: proto_defs)
  have "fills 0 (mac @ myMAC @ [0x08] @ [0x00] @ [0x45] @ [0] @ [word_of_int ((n + 24) div 256)] @
      [word_of_int ((n + 24) mod 256)] @ [0] @ [0] @ [0] @ [0] @ [63] @ [1] @ [0] @ [0] @ myIP @ ip @
      [0] @ [0] @ [0] @ [0] @ take (nat n) body @ ?pad @ []) (patches ?ps)"
    by ((rule fills_Cons, (rule fills_put fills_cpy; simp add: l my_lengths proto_defs; fail))+)
      (rule fills_Cons, (use body pad n in \<open>simp add: l my_lengths\<close>; fail), rule fills_Cons, (use pad n in \<open>simp add: l my_lengths del: One_nat_def\<close>; fail), rule fills_Nil)
  moreover have b: "length (take (nat n) body) = nat n" using n by simp
  let ?r = "echo_reply mac ip (take (nat n) body) [0, 0] [0, 0]"
  have "mac @ myMAC @ [0x08] @ [0x00] @ [0x45] @ [0] @ [word_of_int ((n + 24) div 256)] @
      [word_of_int ((n + 24) mod 256)] @ [0] @ [0] @ [0] @ [0] @ [63] @ [1] @ [0] @ [0] @ myIP @ ip @
      [0] @ [0] @ [0] @ [0] @ take (nat n) body @ ?pad @ [] = ?r @ ?pad"
    using n unfolding echo_reply_def b by simp
  ultimately have f: "fills 0 (?r @ ?pad) (patches ?ps)" by (simp only:)
  have len: "length (?r @ ?pad) = 38 + nat n + length ?pad"
    using echo_reply_length[OF l, of "[0, 0]" "[0, 0]" "take (nat n) body"] b by simp
  have "length (?r @ ?pad) \<le> length (map stk [0..<500])"
    unfolding len using n by (cases "n = 462") (simp_all, linarith?)
  from fills_run[OF f this] show ?thesis unfolding len Let_def append_assoc .
qed

lemma echo_frame_patches:
  assumes "patches ps0 (map stk [0..<500]) = Some b"
    and "echo_frame stk mac ip body n = patches (ps0 @ [p, q]) (map stk [0..<500])"
  shows "echo_frame stk mac ip body n = patches [p, q] b"
  using assms by (simp only: patches_append option.case)

lemma echo_frame_verifies:
  assumes l: "length mac = 6" "length ip = 4" and n: "0 \<le> n" "n \<le> 462" "nat n \<le> length body"
  obtains buf c k r where "echo_frame stk mac ip body n = Some buf"
    "buf = echo_reply mac ip (take (nat n) body) c k @ r" "length c = 2" "length k = 2" "length buf = 500"
    "ipv4_checksum (shorts_at buf 14) 10 = 0" "ipv4_checksum (shorts_at buf 34) ((n + 5) div 2) = 0"
    "odd n \<Longrightarrow> r \<noteq> [] \<and> hd r = 0"
proof -
  define r where "r = (let pad = (if n mod 2 \<noteq> 0 then [0] else [] :: u8 list)
      in pad @ drop (38 + nat n + length pad) (map stk [0..<500]))"
  let ?r = "\<lambda>c k. echo_reply mac ip (take (nat n) body) c k @ r"
  let ?p = "put_sum ICMP_CHECKSUM (\<lambda>buf. ipv4_checksum (shorts_at buf ICMP_TYPE) ((n + 4 + 1) div 2))"
  let ?q = "put_sum IP_CHECKSUM (\<lambda>buf. ipv4_checksum (shorts_at buf IP_VERSION) 10)"
  have e: "echo_frame stk mac ip body n = patches [?p, ?q] (?r [0, 0] [0, 0])"
    by (rule echo_frame_patches[OF echo_frame_filled[OF l n, of stk, folded r_def]])
      (simp only: echo_frame_def append_Cons append_Nil)
  have len: "length (?r c k) = 500" if "length c = 2" "length k = 2" for c k
    using n echo_reply_length[OF l that, of "take (nat n) body"] unfolding r_def Let_def
    by (cases "n = 462") (auto; linarith)+
  have icmp: "?r c k ! 36 = k ! 0" "?r c k ! 37 = k ! 1" if "length c = 2" "length k = 2" for c k
    using l that by (simp_all add: echo_reply_def my_lengths nth_append)
  have ip: "?r c k ! 24 = c ! 0" "?r c k ! 25 = c ! 1" if "length c = 2" "length k = 2" for c k
    using l that by (simp_all add: echo_reply_def my_lengths nth_append)
  define m where "m = nat ((n + 5) div 2)"
  have m: "(n + 4 + 1) div 2 = int m" "(n + 5) div 2 = int m" "1 < m" "m \<le> 65537" using n by (auto simp: m_def)
  obtain a b where p: "?p (?r [0, 0] [0, 0]) = Some ((?r [0, 0] [0, 0])[36 := a, 36 + 1 := b])"
    "ipv4_checksum (shorts_at ((?r [0, 0] [0, 0])[36 := a, 36 + 1 := b]) 34) (int m) = 0"
    using put_sum_verifies[of 36 34 1 "?r [0, 0] [0, 0]" m] m len icmp[of "[0, 0]" "[0, 0]"]
    by (auto simp: proto_defs)
  have s1: "(?r [0, 0] [0, 0])[36 := a, 36 + 1 := b] = ?r [0, 0] [a, b]"
    using echo_reply_set_icmp[OF l, of "take (nat n) body" 0 0 0 0 r a b] by simp
  obtain c d where q: "?q (?r [0, 0] [a, b]) = Some ((?r [0, 0] [a, b])[24 := c, 24 + 1 := d])"
    "ipv4_checksum (shorts_at ((?r [0, 0] [a, b])[24 := c, 24 + 1 := d]) 14) (int 10) = 0"
    using put_sum_verifies[of 24 14 5 "?r [0, 0] [a, b]" 10] len ip[of "[0, 0]" "[a, b]"]
    by (auto simp: proto_defs)
  have s2: "(?r [0, 0] [a, b])[24 := c, 24 + 1 := d] = ?r [c, d] [a, b]"
    using echo_reply_set_ip[OF l, of "take (nat n) body" 0 0 "[a, b]" r c d] by simp
  have same: "shorts_at (?r [c, d] [a, b]) 34 = shorts_at (?r [0, 0] [a, b]) 34"
    unfolding s2[symmetric] by (simp add: shorts_at_def fun_eq_iff)
  show ?thesis
  proof (rule that)
    show "echo_frame stk mac ip body n = Some (?r [c, d] [a, b])"
      by (simp only: e patches.simps p(1) s1 option.case q(1) s2)
    show "ipv4_checksum (shorts_at (?r [c, d] [a, b]) 14) 10 = 0" using q(2) unfolding s2 by simp
    show "ipv4_checksum (shorts_at (?r [c, d] [a, b]) 34) ((n + 5) div 2) = 0"
      using p(2) unfolding same s1 m(2) .
    show "r \<noteq> [] \<and> hd r = 0" if "odd n" using that by (simp add: r_def Let_def odd_iff_mod_2_eq_one)
  qed (rule refl len | simp)+
qed

text \<open>
  What the receiver checks: the header, and the message, to which a zero byte is appended when its
  length is odd.
\<close>

lemma echo_reply_verifies:
  assumes l: "length (es :: u8 list) = 38 + nat n" and n: "0 \<le> n" "n \<le> 462"
    and buf: "ipv4_checksum (shorts_at (es @ r) 14) 10 = 0" "ipv4_checksum (shorts_at (es @ r) 34) ((n + 5) div 2) = 0"
    and pad: "odd n \<Longrightarrow> r \<noteq> [] \<and> hd r = 0"
  shows "ipv4_checksum (shorts_at es 14) 10 = 0"
    "ipv4_checksum (shorts_at (if odd n then es @ [0] else es) 34) ((n + 5) div 2) = 0"
proof -
  show "ipv4_checksum (shorts_at es 14) 10 = 0"
    using buf(1) ipv4_checksum_prefix[of 10 14 es r] l by simp
  define m where "m = nat ((n + 5) div 2)"
  have m: "(n + 5) div 2 = int m" "m \<le> 65537" using n by (simp_all add: m_def)
  show "ipv4_checksum (shorts_at (if odd n then es @ [0] else es) 34) ((n + 5) div 2) = 0"
  proof (cases "odd n")
    case True
    then obtain r' where "es @ r = (es @ [0]) @ r'" using pad by (cases r) auto
    moreover have "34 + 2 * m \<le> length (es @ [0])" using True n l by (auto simp: m_def elim!: oddE)
    ultimately show ?thesis using True buf(2) ipv4_checksum_prefix[OF m(2), of 34 "es @ [0]" r'] unfolding m(1) by simp
  next
    case False
    then have "34 + 2 * m \<le> length es" using n l by (auto simp: m_def elim!: evenE)
    then show ?thesis using False buf(2) ipv4_checksum_prefix[OF m(2), of 34 es r] unfolding m(1) by simp
  qed
qed

section \<open>Sending a reply\<close>

text \<open>The bytes written to a transmit buffer.\<close>

fun tx_bytes :: "access list \<Rightarrow> u8 list" where
  "tx_bytes [] = []"
| "tx_bytes (WrB a c # es) = c # tx_bytes es"
| "tx_bytes (e # es) = tx_bytes es"

lemma tx_bytes_append: "tx_bytes (es @ fs) = tx_bytes es @ tx_bytes fs"
  by (induction es rule: tx_bytes.induct) auto

lemma tx_bytes_Rd: "tx_bytes (map (Rd a) vs) = []"
  by (induction vs) auto

lemma tx_bytes_WrB: "tx_bytes (map (\<lambda>i. WrB (f i) (g i)) is) = map g is"
  by (induction "is") auto

text \<open>The Ethernet driver is set up and the descriptor of the next packet is free.\<close>

definition tx_ready :: "'h plat \<Rightarrow> 'h mach \<Rightarrow> bool" where
  "tx_ready B s \<longleftrightarrow> handle s Ethmac \<noteq> 0 \<and> ethmac_bd s \<noteq> 0 \<and>
     bd_free B (bd_len_status (tx_bd_of s) (next_tx_buf_num s)) s"

lemma tx_packet_bytes:
  assumes "tx_ready B s" "0 \<le> len" "nat len \<le> length data"
  obtains h es where "tx_packet B data len s = Some (Inr ((),
      (talk h es [(''> sending tx_packet\<newline>'', [])] s)\<lparr>next_tx_buf_num := (next_tx_buf_num s + 1) mod 8\<rparr>))"
    "tx_bytes es = take (nat len) data"
proof -
  let ?ls = "bd_len_status (tx_bd_of s) (next_tx_buf_num s)"
  let ?ad = "bd_addr (tx_bd_of s) (next_tx_buf_num s)"
  have g: "handle s Ethmac \<noteq> 0" "ethmac_bd s \<noteq> 0" "bd_free B ?ls s"
    using assms(1) by (simp_all add: tx_ready_def)
  obtain h v0 v1 v2 buf v3 v4 where r: "tx_packet B data len s = Some (Inr ((),
      (talk h ([Rd ?ls v0, Rd ?ls v1, Wr ?ls (v1 AND NOT OETH_TX_BD_STATS),
         Rd ?ls v2, Wr ?ls (tx_pad_status len v2),
         Rd ?ad buf] @
        map (\<lambda>i. WrB (buf + of_nat i) (data ! i)) [0..<nat len] @
        [Rd ?ls v3, Wr ?ls (tx_len_status len v3),
         Rd ?ls v4, Wr ?ls (v4 OR (OETH_TX_BD_READY OR OETH_TX_BD_CRC OR OETH_TX_BD_IRQ))])
        [(''> sending tx_packet\<newline>'', [])] s)
      \<lparr>next_tx_buf_num := (next_tx_buf_num s + 1) mod 8\<rparr>))"
    using tx_packet_run[OF g assms(2,3) refl refl] by (elim exE conjE)
  have m: "map (\<lambda>i. data ! i) [0..<nat len] = take (nat len) data"
    using assms(3) by (intro nth_equalityI) auto
  show ?thesis
    by (rule that, rule r) (simp only: tx_bytes_append tx_bytes_Rd tx_bytes_WrB tx_bytes.simps m append_Nil append_Nil2)
qed

lemma talk_ready: "h = hw s \<Longrightarrow> tx_ready B (talk h es cs s) \<longleftrightarrow> tx_ready B s"
  by (simp add: tx_ready_def tx_bd_of_def)

lemma bnd_gets_const: "bnd (gets (\<lambda>_. c)) f = f c"
  by (simp add: bnd_def fun_eq_iff)

lemma bnd_gets_comp:
  "bnd (gets g) (\<lambda>n. thn (tx_packet B buf (n + k)) q) = bnd (gets (\<lambda>s. g s + k)) (\<lambda>n. thn (tx_packet B buf n) q)"
  by (simp add: bnd_def fun_eq_iff)

text \<open>The shape both replies share.\<close>

lemma send_run:
  assumes f: "frame (talk (hw s) [] [(m, [])] s) = Some data" and n: "len (talk (hw s) [] [(m, [])] s) = n"
    and rdy: "tx_ready B s" and l: "0 \<le> n" "nat n \<le> length data"
  obtains h es cs where "thn (pp_printf m []) (bnd (gets frame) (\<lambda>r. bnd (or_overrun r) (\<lambda>buf.
      bnd (gets len) (\<lambda>n. thn (tx_packet B buf n) (modify fin))))) s
    = Some (Inr ((), fin ((talk h es cs s)\<lparr>next_tx_buf_num := (next_tx_buf_num s + 1) mod 8\<rparr>)))"
    "tx_bytes es = take (nat n) data"
proof -
  let ?s = "talk (hw s) [] [(m, [])] s"
  obtain h es where t: "tx_packet B data n ?s = Some (Inr ((),
      (talk h es [(''> sending tx_packet\<newline>'', [])] ?s)\<lparr>next_tx_buf_num := (next_tx_buf_num ?s + 1) mod 8\<rparr>))"
    "tx_bytes es = take (nat n) data"
    using tx_packet_bytes[of B ?s n data] rdy l talk_ready[of "hw s" s B] by blast
  have o: "or_overrun (frame ?s) ?s = Some (Inr (data, ?s))" by (simp add: or_overrun_def f)
  have "thn (pp_printf m []) (bnd (gets frame) (\<lambda>r. bnd (or_overrun r) (\<lambda>buf.
      bnd (gets len) (\<lambda>n. thn (tx_packet B buf n) (modify fin))))) s
    = Some (Inr ((), fin ((talk h es ([(m, [])] @ [(''> sending tx_packet\<newline>'', [])]) s)\<lparr>next_tx_buf_num := (next_tx_buf_num s + 1) mod 8\<rparr>)))"
    by (rule thn_runs, rule pp_printf_talk, rule bnd_runs, rule gets_run, rule bnd_runs, rule o,
        rule bnd_runs, rule gets_run, unfold n, rule thn_runs, rule t(1)) simp
  then show ?thesis using that t(2) by blast
qed

lemma sendARP_run:
  assumes "tx_ready B s" "length (hisMAC s) = 6" "length (hisIP s) = 4"
  obtains h es cs where "sendARP B stk s = Some (Inr ((),
      (talk h es cs s)\<lparr>next_tx_buf_num := (next_tx_buf_num s + 1) mod 8, sawARP := False\<rparr>))"
    "tx_bytes es = arp_reply (hisMAC s) (hisIP s)"
proof -
  let ?s = "talk (hw s) [] [(''> sending ARP packet\<newline>'', [])] s"
  have l: "length (arp_reply (hisMAC s) (hisIP s)) = ARP_END"
    using assms by (simp add: arp_reply_def my_lengths proto_defs)
  have f: "arp_frame stk (hisMAC ?s) (hisIP ?s) = Some (arp_reply (hisMAC s) (hisIP s))"
    using arp_frame_reply[of "hisMAC s" "hisIP s" stk] assms by simp
  have d: "sendARP B stk = thn (pp_printf ''> sending ARP packet\<newline>'' [])
      (bnd (gets (\<lambda>s. arp_frame stk (hisMAC s) (hisIP s))) (\<lambda>r. bnd (or_overrun r) (\<lambda>buf.
       bnd (gets (\<lambda>_. int ARP_END)) (\<lambda>n. thn (tx_packet B buf n) (modify (\<lambda>s. s\<lparr>sawARP := False\<rparr>))))))"
    unfolding sendARP_def bnd_gets_const ..
  show ?thesis
  proof (rule send_run[where frame = "\<lambda>s. arp_frame stk (hisMAC s) (hisIP s)" and s = s and B = B
        and m = "''> sending ARP packet\<newline>''" and len = "\<lambda>_. int ARP_END" and n = "int ARP_END"
        and fin = "\<lambda>s. s\<lparr>sawARP := False\<rparr>", OF f refl assms(1)], goal_cases)
    case (3 h es cs)
    show ?thesis by (rule that[of h es cs]) (use 3 l in \<open>simp_all add: d\<close>)
  qed (use l in simp_all)
qed

lemma sendECHO_run:
  assumes rdy: "tx_ready B s" and l: "length (hisMAC s) = 6" "length (hisIP s) = 4"
    and n: "0 \<le> hisBodyLen s" "hisBodyLen s \<le> 462" "nat (hisBodyLen s) \<le> length (hisBody s)"
  obtains h es cs c k where "sendECHO B stk s = Some (Inr ((),
      (talk h es cs s)\<lparr>next_tx_buf_num := (next_tx_buf_num s + 1) mod 8, sawPING := False\<rparr>))"
    "tx_bytes es = echo_reply (hisMAC s) (hisIP s) (take (nat (hisBodyLen s)) (hisBody s)) c k"
    "length c = 2" "length k = 2" "ipv4_checksum (shorts_at (tx_bytes es) 14) 10 = 0"
    "ipv4_checksum (shorts_at (if odd (hisBodyLen s) then tx_bytes es @ [0] else tx_bytes es) 34) ((hisBodyLen s + 5) div 2) = 0"
proof -
  let ?s = "talk (hw s) [] [(''> sending ECHO packet\<newline>'', [])] s"
  let ?n = "hisBodyLen s"
  let ?body = "take (nat ?n) (hisBody s)"
  obtain buf c k r where e: "echo_frame stk (hisMAC s) (hisIP s) (hisBody s) ?n = Some buf"
    "buf = echo_reply (hisMAC s) (hisIP s) ?body c k @ r" "length c = 2" "length k = 2" "length buf = 500"
    "ipv4_checksum (shorts_at buf 14) 10 = 0" "ipv4_checksum (shorts_at buf 34) ((?n + 5) div 2) = 0"
    "odd ?n \<Longrightarrow> r \<noteq> [] \<and> hd r = 0"
    using echo_frame_verifies[OF l n] by blast
  have f: "echo_frame stk (hisMAC ?s) (hisIP ?s) (hisBody ?s) (hisBodyLen ?s) = Some buf" using e(1) by simp
  have len: "nat (?n + int ICMP_QUENCH) = length (echo_reply (hisMAC s) (hisIP s) ?body c k)"
    using echo_reply_length[OF l e(3,4), of ?body] n by (simp add: proto_defs nat_add_distrib)
  have t: "take (nat (?n + int ICMP_QUENCH)) buf = echo_reply (hisMAC s) (hisIP s) ?body c k"
    unfolding len e(2) by simp
  have b: "nat (?n + int ICMP_QUENCH) \<le> length buf" unfolding len e(2) by simp
  have d: "sendECHO B stk = thn (pp_printf ''> sending ECHO packet\<newline>'' [])
      (bnd (gets (\<lambda>s. echo_frame stk (hisMAC s) (hisIP s) (hisBody s) (hisBodyLen s))) (\<lambda>r. bnd (or_overrun r) (\<lambda>buf.
       bnd (gets (\<lambda>s. hisBodyLen s + int ICMP_QUENCH)) (\<lambda>n. thn (tx_packet B buf n) (modify (\<lambda>s. s\<lparr>sawPING := False\<rparr>))))))"
    unfolding sendECHO_def by (subst bnd_gets_comp) (rule refl)
  show ?thesis
  proof (rule send_run[where frame = "\<lambda>s. echo_frame stk (hisMAC s) (hisIP s) (hisBody s) (hisBodyLen s)"
        and s = s and B = B and m = "''> sending ECHO packet\<newline>''" and n = "?n + int ICMP_QUENCH"
        and len = "\<lambda>s. hisBodyLen s + int ICMP_QUENCH"
        and fin = "\<lambda>s. s\<lparr>sawPING := False\<rparr>", OF f _ rdy _ b], goal_cases)
    case (3 h es cs)
    have b: "tx_bytes es = echo_reply (hisMAC s) (hisIP s) ?body c k" using 3 t by simp
    have "length (tx_bytes es) = 38 + nat ?n" unfolding b using echo_reply_length[OF l e(3,4), of ?body] n by simp
    note v = echo_reply_verifies[OF this n(1,2) e(6,7)[unfolded e(2), folded b] e(8)]
    show ?thesis by (rule that[OF _ b e(3,4) v, of h cs]) (use 3 d in simp_all)
  qed (use n in simp_all)
qed

section \<open>Properties\<close>

text \<open>
  C32 (roundtrip). Storing the result of \<^verbatim>\<open>ipv4_checksum\<close> in the checksum word, which was zero while it
  was computed, makes the receiver's check succeed: the checksum of the words is then zero. This
  holds for every sequence of words whose sum does not overflow, up to 65537 of them.
\<close>

theorem ipv4_checksum_verifies:
  assumes "n \<le> 65537" "k < n" "f k = 0"
  shows "ipv4_checksum (f(k := ucast (ipv4_checksum f (int n)))) (int n) = 0"
  by (rule checksum_verifies[of n k f, OF assms]) simp_all

theorem ipv4_checksum_verifies_witness:
  "ipv4_checksum ((\<lambda>i. [0x4500, 0x0073, 0, 0x4000, 0x4011, 0, 0xc0a8, 0x0001, 0xc0a8, 0x00c7] ! i)
      (5 := ucast (ipv4_checksum (\<lambda>i. [0x4500, 0x0073, 0, 0x4000, 0x4011, 0, 0xc0a8, 0x0001, 0xc0a8, 0x00c7] ! i) (int 10))))
    (int 10) = 0"
  by (rule ipv4_checksum_verifies) simp_all

lemma patches_None:
  assumes "p \<in> set ps" "\<And>buf. length buf = n \<Longrightarrow> p buf = None"
    and keep: "\<And>q buf buf'. q \<in> set ps \<Longrightarrow> q buf = Some buf' \<Longrightarrow> length buf' = length buf"
    and "length buf = n"
  shows "patches ps buf = None"
  using assms
proof (induction ps arbitrary: buf)
  case (Cons q qs)
  show ?case
  proof (cases "q buf")
    case (Some b)
    then have "p \<in> set qs" "length b = n" using Cons.prems(1,2,4) Cons.prems(3)[of q buf b] by auto
    then have "patches qs b = None" using Cons.prems by (intro Cons.IH) auto
    then show ?thesis using Some by simp
  qed simp
next
  case Nil
  from Nil(1) show ?case by simp
qed

lemma put_length: "put i v buf = Some buf' \<Longrightarrow> length buf' = length buf"
  by (auto simp: put_def split: if_splits)

lemma cpy_length: "cpy i src n buf = Some buf' \<Longrightarrow> length buf' = length buf"
  by (simp add: cpy_def memcpy_length)

lemma put_sum_length: "put_sum i f buf = Some buf' \<Longrightarrow> length buf' = length buf"
  by (auto simp: put_sum_def dest!: put_length split: option.splits)

lemma echo_frame_overrun:
  assumes "462 < n \<or> n < 0" "n < 2 ^ 31" "- (2 ^ 31) \<le> n"
  shows "echo_frame stk mac ip body n = None"
proof -
  have "462 < unat (word_of_int n :: u32)"
  proof (cases "n < 0")
    case True
    have "n mod 4294967296 = n + 4294967296"
      using mod_add_self2[of n 4294967296] mod_pos_pos_trivial[of "n + 4294967296" 4294967296] assms True by simp
    then show ?thesis using assms by (simp add: unsigned_of_int take_bit_eq_mod)
  next
    case False
    then show ?thesis using assms by (simp add: unsigned_of_int take_bit_eq_mod)
  qed
  then have c: "cpy ICMP_QUENCH body (word_of_int n) buf = None" if "length buf = 500" for buf
    unfolding cpy_def using that by (intro memcpy_none) (simp_all add: proto_defs)
  show ?thesis
    unfolding echo_frame_def
    by (rule patches_None[where p = "cpy ICMP_QUENCH body (word_of_int n)" and n = 500])
      (auto simp: c dest: put_length cpy_length put_sum_length split: if_splits)
qed

text \<open>
  The packet of \<^verbatim>\<open>sendECHO\<close> is a local array of 500 bytes: whenever the length of the body
  recorded for the reply is negative or exceeds 462, the copy of the body runs past its end. The
  receive routine records lengths from -24 to 65511 and accepts bodies up to 1516 bytes.
\<close>

lemma sendECHO_overruns:
  assumes "462 < hisBodyLen s \<or> hisBodyLen s < 0" "hisBodyLen s < 2 ^ 31" "- (2 ^ 31) \<le> hisBodyLen s"
  shows "sendECHO B stk s = Some (Inl BufferOverrun)"
  unfolding sendECHO_def
  by (rule thn_runs, rule pp_printf_talk, rule bnd_runs, rule gets_run)
    (simp add: echo_frame_overrun[OF assms] or_overrun_def bnd_def)

lemma sendECHO_overruns_witness:
  "sendECHO demo_plat (\<lambda>_. 0) (boot demo_layout 0\<lparr>hisBodyLen := 463\<rparr>) = Some (Inl BufferOverrun)"
  by (rule sendECHO_overruns) simp_all

end
