(* ===== verification/Intr.thy ===== *)
theory Intr
  imports Machine
begin

text \<open>
  Interrupts: the table of handlers and its dispatch (\<^verbatim>\<open>lib/int.c\<close>) and the control registers of
  the LM32 (\<^verbatim>\<open>arch/lm32/irq.c\<close>, \<^verbatim>\<open>include/irq.h\<close>).
\<close>

section \<open>Control registers\<close>

definition set_mask :: "u32 \<Rightarrow> ('h mach, unit) prog" where
  "set_mask msk = modify (\<lambda>s. s\<lparr>csr_im := msk\<rparr>)"

definition get_mask :: "('h mach, u32) prog" where
  "get_mask = gets csr_im"

definition get_pending :: "('h mach, u32) prog" where
  "get_pending = gets csr_ip"

text \<open>Writing a one to a bit of IP clears it.\<close>

definition wcsr_ip :: "u32 \<Rightarrow> ('h mach, unit) prog" where
  "wcsr_ip v = modify (\<lambda>s. s\<lparr>csr_ip := csr_ip s AND NOT v\<rparr>)"

definition clear_pending :: "('h mach, unit) prog" where
  "clear_pending = wcsr_ip 0xffffffff"

definition clear_irq :: "('h mach, unit) prog" where
  "clear_irq = wcsr_ip 1"

definition disable_irq :: "('h mach, unit) prog" where
  "disable_irq =
     bnd (gets csr_ie) (\<lambda>ie.
     thn (modify (\<lambda>s. s\<lparr>csr_ie := ie AND NOT 1\<rparr>))
     (bnd (gets csr_im) (\<lambda>im. modify (\<lambda>s. s\<lparr>csr_im := im AND NOT 1\<rparr>))))"

definition enable_irq :: "('h mach, unit) prog" where
  "enable_irq =
     bnd (gets csr_ie) (\<lambda>ie0.
     let ie = ie0 AND NOT 1 in
     thn (modify (\<lambda>s. s\<lparr>csr_ie := ie\<rparr>))
     (bnd (gets csr_im) (\<lambda>im.
     thn (modify (\<lambda>s. s\<lparr>csr_im := im OR 1\<rparr>))
     (modify (\<lambda>s. s\<lparr>csr_ie := ie OR 1\<rparr>)))))"

section \<open>Handlers\<close>

text \<open>\<^verbatim>\<open>1 << i\<close>\<close>

definition line_bit :: "nat \<Rightarrow> u32" where
  "line_bit i = push_bit i 1"

definition MAX_INT_HANDLERS :: nat where "MAX_INT_HANDLERS = 32"

text \<open>
  The entry of the table for line \<open>i\<close>; \<open>call\<close> runs the function a pointer of the table points to.
\<close>

definition irq_line :: "(hnd \<Rightarrow> u32 \<Rightarrow> ('h mach, unit) prog) \<Rightarrow> u32 \<Rightarrow> nat \<Rightarrow> ('h mach, unit) prog" where
  "irq_line call work i =
     bnd (gets (\<lambda>s. handlers s i)) (\<lambda>h.
       if work AND line_bit i \<noteq> 0
       then (case h of None \<Rightarrow> ret () | Some (f, arg) \<Rightarrow> call f arg)
       else ret ())"

text \<open>The flush of the data cache has no effect on this state.\<close>

definition irq_entry :: "(hnd \<Rightarrow> u32 \<Rightarrow> ('h mach, unit) prog) \<Rightarrow> ('h mach, unit) prog" where
  "irq_entry call =
     bnd get_pending (\<lambda>work.
     thn clear_pending
     (doall (map (irq_line call work) [0..<MAX_INT_HANDLERS])))"

definition int_init :: "('h mach, int) prog" where
  "int_init =
     thn (modify (\<lambda>s. s\<lparr>handlers := (\<lambda>i. if i < MAX_INT_HANDLERS then None else handlers s i)\<rparr>))
     (thn (set_mask 0)
     (thn (modify (\<lambda>s. s\<lparr>csr_ie := 1\<rparr>))
     (ret 0)))"

definition int_add :: "u32 \<Rightarrow> hnd \<Rightarrow> u32 \<Rightarrow> ('h mach, int) prog" where
  "int_add i handler arg =
     (if MAX_INT_HANDLERS \<le> unat i then fail BufferOverrun
      else
        thn (modify (\<lambda>s. s\<lparr>handlers := (handlers s)(unat i \<mapsto> (handler, arg))\<rparr>))
        (bnd get_mask (\<lambda>m.
        thn (set_mask (m OR line_bit (unat i)))
        (ret 0))))"

section \<open>Correctness\<close>

text \<open>Every line the mask lets through has a handler.\<close>

definition mask_ok :: "'h mach \<Rightarrow> bool" where
  "mask_ok s \<longleftrightarrow> (\<forall>i<MAX_INT_HANDLERS. bit (csr_im s) i \<longrightarrow> handlers s i \<noteq> None)"

lemma bit_line_bit: "bit (line_bit i) n \<longleftrightarrow> n = i \<and> i < 32"
  by (auto simp: line_bit_def bit_simps bit_1_iff simp del: push_bit_of_1)

lemma and_line_bit: "w AND line_bit i \<noteq> 0 \<longleftrightarrow> bit w i"
proof -
  have "bit w i \<Longrightarrow> i < 32" using bit_imp_le_length[of w i] by simp
  moreover have "w AND line_bit i = 0 \<longleftrightarrow> (\<forall>n<32. \<not> bit (w AND line_bit i) n)"
    by (subst bit_eq_iff) simp
  ultimately show ?thesis by (auto simp: bit_and_iff bit_line_bit)
qed

lemma ones_word: "(0xffffffff :: u32) = - 1"
  by simp

lemma int_add_run:
  "unat i < MAX_INT_HANDLERS \<Longrightarrow>
   int_add i f a s = Some (Inr (0, s\<lparr>handlers := (handlers s)(unat i \<mapsto> (f, a)),
     csr_im := csr_im s OR line_bit (unat i)\<rparr>))"
  by (simp add: int_add_def thn_def bnd_def get_mask_def set_mask_def)

lemma int_init_run:
  "int_init s = Some (Inr (0, s\<lparr>handlers := (\<lambda>i. if i < MAX_INT_HANDLERS then None else handlers s i),
     csr_im := 0, csr_ie := 1\<rparr>))"
  by (simp add: int_init_def thn_def bnd_def set_mask_def)

lemma mask_ok_add:
  assumes "mask_ok s" "unat i < MAX_INT_HANDLERS"
  shows "mask_ok (s\<lparr>handlers := (handlers s)(unat i \<mapsto> (f, a)), csr_im := csr_im s OR line_bit (unat i)\<rparr>)"
  using assms by (auto simp: mask_ok_def bit_or_iff bit_line_bit)

text \<open>The lines that are pending and have a handler, and the call for one of them.\<close>

definition served :: "'h mach \<Rightarrow> nat list" where
  "served s = filter (\<lambda>i. bit (csr_ip s) i \<and> handlers s i \<noteq> None) [0..<MAX_INT_HANDLERS]"

definition call_line ::
  "(hnd \<Rightarrow> u32 \<Rightarrow> ('h mach, unit) prog) \<Rightarrow> (nat \<Rightarrow> (hnd \<times> u32) option) \<Rightarrow> nat \<Rightarrow> ('h mach, unit) prog" where
  "call_line call hs i = (case hs i of None \<Rightarrow> ret () | Some (f, arg) \<Rightarrow> call f arg)"

definition keeps_handlers :: "(hnd \<Rightarrow> u32 \<Rightarrow> ('h mach, unit) prog) \<Rightarrow> bool" where
  "keeps_handlers call \<longleftrightarrow>
     (\<forall>f arg s t. call f arg s = Some (Inr ((), t)) \<longrightarrow> handlers t = handlers s)"

lemma doall_filter:
  assumes keep: "keeps_handlers call" and hs: "handlers s = hs"
  shows "doall (map (irq_line call work) is) s
    = doall (map (call_line call hs) (filter (\<lambda>i. bit work i \<and> hs i \<noteq> None) is)) s"
  using hs
proof (induction "is" arbitrary: s)
  case (Cons i "is")
  show ?case
  proof (cases "bit work i \<and> hs i \<noteq> None")
    case True
    then obtain f arg where h: "hs i = Some (f, arg)" by auto
    have l: "irq_line call work i s = call f arg s"
      using True h Cons.prems by (simp add: irq_line_def bnd_def and_line_bit)
    have lc: "call_line call hs i = call f arg" using h by (simp add: call_line_def)
    have tail: "doall (map (irq_line call work) is) t
        = doall (map (call_line call hs) (filter (\<lambda>i. bit work i \<and> hs i \<noteq> None) is)) t"
      if "call f arg s = Some (Inr ((), t))" for t
      using Cons.IH[of t] keep that Cons.prems unfolding keeps_handlers_def by simp
    show ?thesis
      using True tail lc
      by (auto simp: thn_def bnd_def l split: option.splits sum.splits)
  next
    case False
    then have "irq_line call work i s = Some (Inr ((), s))"
      using Cons.prems by (cases "hs i") (auto simp: irq_line_def bnd_def and_line_bit)
    then show ?thesis using False Cons by (auto simp: thn_def bnd_def)
  qed
qed simp

text \<open>The calls of an interrupt, when no handler changes the table.\<close>

lemma irq_entry_served:
  assumes "keeps_handlers call"
  shows "irq_entry call s = doall (map (call_line call (handlers s)) (served s)) (s\<lparr>csr_ip := 0\<rparr>)"
proof -
  have c: "clear_pending s = Some (Inr ((), s\<lparr>csr_ip := 0\<rparr>))"
    using ones_word by (simp only: clear_pending_def wcsr_ip_def modify_run bit.compl_one bit.conj_zero_right)
  show ?thesis
    unfolding irq_entry_def get_pending_def
    by (rule bnd_runs, rule gets_run, rule thn_runs, rule c)
      (use doall_filter[OF assms, of "s\<lparr>csr_ip := 0\<rparr>" "handlers s" "csr_ip s"] in \<open>simp add: served_def\<close>)
qed

text \<open>A sequence of installations.\<close>

fun int_adds :: "(u32 \<times> hnd \<times> u32) list \<Rightarrow> ('h mach, unit) prog" where
  "int_adds [] = ret ()"
| "int_adds ((i, f, a) # cs) = thn (int_add i f a) (int_adds cs)"

lemma int_adds_run:
  assumes "\<forall>c\<in>set cs. unat (fst c) < MAX_INT_HANDLERS" "mask_ok s"
  shows "\<exists>t. int_adds cs s = Some (Inr ((), t)) \<and> mask_ok t \<and> csr_ie t = csr_ie s \<and>
    handlers t = handlers s ++ map_of (rev (map (\<lambda>(i, f, a). (unat i, (f, a))) cs))"
  using assms
proof (induction cs arbitrary: s)
  case (Cons c cs)
  obtain i f a where c: "c = (i, f, a)" by (cases c)
  let ?s = "s\<lparr>handlers := (handlers s)(unat i \<mapsto> (f, a)), csr_im := csr_im s OR line_bit (unat i)\<rparr>"
  have i: "unat i < MAX_INT_HANDLERS" using Cons.prems c by simp
  have "\<forall>c\<in>set cs. unat (fst c) < MAX_INT_HANDLERS" using Cons.prems by simp
  from Cons.IH[OF this mask_ok_add[OF Cons.prems(2) i, of f a]]
  obtain t where t: "int_adds cs ?s = Some (Inr ((), t))" "mask_ok t" "csr_ie t = csr_ie ?s"
    "handlers t = handlers ?s ++ map_of (rev (map (\<lambda>(i, f, a). (unat i, (f, a))) cs))"
    by (elim exE conjE)
  have m: "handlers ?s ++ map_of xs = handlers s ++ map_of (xs @ [(unat i, f, a)])" for xs
    by (rule ext) (simp add: map_add_def split: option.splits)
  have "int_adds (c # cs) s = Some (Inr ((), t))"
    unfolding c int_adds.simps by (rule thn_runs, rule int_add_run[OF i], rule t(1))
  moreover have "handlers t = handlers s ++ map_of (rev (map (\<lambda>(i, f, a). (unat i, (f, a))) (c # cs)))"
    unfolding t(4) m c by simp
  ultimately show ?case using t(2,3) by (intro exI conjI) simp_all
qed auto

text \<open>
  After \<^verbatim>\<open>int_init\<close> and any sequence of \<^verbatim>\<open>int_add\<close> calls for lines of the table, all of
  which succeed, interrupts are enabled, every line the mask lets through has a handler, and
  each line has the handler of the last call for it.
\<close>

lemma int_adds_masked:
  assumes "\<forall>c\<in>set cs. unat (fst c) < MAX_INT_HANDLERS"
  shows "\<exists>t. thn int_init (int_adds cs) s = Some (Inr ((), t)) \<and> csr_ie t = 1 \<and> mask_ok t \<and>
    (\<forall>i<MAX_INT_HANDLERS. handlers t i = map_of (rev (map (\<lambda>(i, f, a). (unat i, (f, a))) cs)) i)"
proof -
  let ?s = "s\<lparr>handlers := (\<lambda>i. if i < MAX_INT_HANDLERS then None else handlers s i), csr_im := 0, csr_ie := 1\<rparr>"
  have "mask_ok ?s" by (simp add: mask_ok_def)
  from int_adds_run[OF assms this] obtain t where t: "int_adds cs ?s = Some (Inr ((), t))" "mask_ok t"
    "csr_ie t = csr_ie ?s"
    "handlers t = handlers ?s ++ map_of (rev (map (\<lambda>(i, f, a). (unat i, (f, a))) cs))"
    by (elim exE conjE)
  have "thn int_init (int_adds cs) s = Some (Inr ((), t))"
    by (rule thn_runs, rule int_init_run, rule t(1))
  then show ?thesis using t(2,3,4) by (auto simp: map_add_def split: option.splits)
qed

lemma int_adds_masked_witness:
  "\<exists>t. thn int_init (int_adds [(0, Oeth_interrupt, 0), (2, Button, 0), (0, Oeth_interrupt, 0), (4, Set_eb_done, 0)])
      (boot demo_layout (0::nat)) = Some (Inr ((), t)) \<and> csr_ie t = 1 \<and> mask_ok t \<and>
    handlers t 2 = Some (Button, 0) \<and> handlers t 3 = None"
proof -
  let ?cs = "[(0, Oeth_interrupt, 0), (2, Button, 0), (0, Oeth_interrupt, 0), (4, Set_eb_done, 0)] :: (u32 \<times> hnd \<times> u32) list"
  have "\<forall>c\<in>set ?cs. unat (fst c) < MAX_INT_HANDLERS" by (simp add: MAX_INT_HANDLERS_def)
  from int_adds_masked[OF this, of "boot demo_layout (0::nat)"]
  obtain t where t: "thn int_init (int_adds ?cs) (boot demo_layout (0::nat)) = Some (Inr ((), t))"
    "csr_ie t = 1" "mask_ok t"
    "\<forall>i<MAX_INT_HANDLERS. handlers t i = map_of (rev (map (\<lambda>(i, f, a). (unat i, (f, a))) ?cs)) i"
    by (elim exE conjE)
  show ?thesis
    using t(4)[rule_format, of 2] t(4)[rule_format, of 3] t(1-3)
    by (intro exI conjI) (simp_all add: MAX_INT_HANDLERS_def)
qed

end
