(* ===== verification/Talks.thy ===== *)
theory Talks
  imports Ethmac_Correct
begin

text \<open>
  Programs that only use the bus and the console. \<open>talks P p Q\<close>: from every state where \<open>P\<close> holds,
  \<open>p\<close> returns with the rest of the state unchanged, and its result and its bus accesses satisfy
  \<open>Q\<close>. The rules compose such facts along a program, for conditions \<open>P\<close> that talking cannot break.
\<close>

definition talks :: "('h mach \<Rightarrow> bool) \<Rightarrow> ('h mach, 'a) prog \<Rightarrow> ('a \<Rightarrow> access list \<Rightarrow> bool) \<Rightarrow> bool" where
  "talks P p Q \<longleftrightarrow> (\<forall>s. P s \<longrightarrow> (\<exists>r h es cs. p s = Some (Inr (r, talk h es cs s)) \<and> Q r es))"

lemma talksI: "(\<And>s. P s \<Longrightarrow> \<exists>r h es cs. p s = Some (Inr (r, talk h es cs s)) \<and> Q r es) \<Longrightarrow> talks P p Q"
  by (simp add: talks_def)

lemma talksE:
  assumes "talks P p Q" "P s"
  obtains r h es cs where "p s = Some (Inr (r, talk h es cs s))" "Q r es"
  using assms unfolding talks_def by blast

lemma talks_weaken: "talks P p Q \<Longrightarrow> (\<And>r es. Q r es \<Longrightarrow> R r es) \<Longrightarrow> talks P p R"
  unfolding talks_def by blast

lemma talks_ret: "Q r [] \<Longrightarrow> talks P (ret r) Q"
  by (rule talksI) (auto intro!: exI[of _ "[]"] simp: talk_nil intro: talk_nil[symmetric])

lemma talks_if:
  "(b \<Longrightarrow> talks P p Q) \<Longrightarrow> (\<not> b \<Longrightarrow> talks P q Q) \<Longrightarrow> talks P (if b then p else q) Q"
  by simp

locale talker =
  fixes P :: "'h mach \<Rightarrow> bool"
  assumes talk_keeps: "P s \<Longrightarrow> P (talk h es cs s)"
begin

lemma bndI:
  assumes "talks P p (\<lambda>r es. talks P (f r) (\<lambda>r' es'. R r' (es @ es')))"
  shows "talks P (bnd p f) R"
proof (rule talksI)
  fix s assume s: "P s"
  obtain r h es cs where r: "p s = Some (Inr (r, talk h es cs s))" "talks P (f r) (\<lambda>r' es'. R r' (es @ es'))"
    using assms s by (rule talksE)
  obtain r' h' es' cs' where r': "f r (talk h es cs s) = Some (Inr (r', talk h' es' cs' (talk h es cs s)))"
    "R r' (es @ es')"
    using r(2) talk_keeps[OF s] by (rule talksE)
  have "bnd p f s = Some (Inr (r', talk h' (es @ es') (cs @ cs') s))"
    by (rule bnd_runs, rule r(1)) (simp add: r'(1))
  then show "\<exists>r h es cs. bnd p f s = Some (Inr (r, talk h es cs s)) \<and> R r es" using r'(2) by blast
qed

lemma thnI: "talks P p (\<lambda>_ es. talks P q (\<lambda>r' es'. R r' (es @ es'))) \<Longrightarrow> talks P (thn p q) R"
  unfolding thn_def by (rule bndI)

lemma rdI: "(\<And>v. Q v [Rd a v]) \<Longrightarrow> talks P (rd B a) Q"
  by (rule talksI) (auto simp: rd_run on_bus_talk)

lemma wrI: "Q () [Wr a v] \<Longrightarrow> talks P (wr B a v) Q"
  by (rule talksI) (auto simp: wr_run on_bus_talk)

lemma updI: "(\<And>v. Q () [Rd a v, Wr a (f v)]) \<Longrightarrow> talks P (upd B a f) Q"
  by (rule talksI) (auto simp: upd_run Let_def)

lemma printI: "Q () [] \<Longrightarrow> talks P (pp_printf fmt as) Q"
  by (rule talksI) (use pp_printf_talk in blast)

lemma delayI: "Q 0 [] \<Longrightarrow> talks P (delay n) Q"
  by (simp add: delay_def talks_ret)

lemma nilI: "Q () [] \<Longrightarrow> talks P (doall []) Q"
  by (simp add: talks_ret)

lemma consI: "talks P p (\<lambda>_ es. talks P (doall ps) (\<lambda>r' es'. R r' (es @ es'))) \<Longrightarrow> talks P (doall (p # ps)) R"
  unfolding doall.simps by (rule thnI)

lemma debugI:
  assumes "talks P args (\<lambda>_. Q ())" "Q () []"
  shows "talks P (DBE_DEBUG dbg fmt args) Q"
proof (cases "dbg AND DBG_SUBSYS_ON \<noteq> 0 \<and> DBG_MIN_LEVEL \<le> dbg AND DBE_DBG_MASK")
  case True
  have "talks P (bnd args (pp_printf fmt)) Q"
    by (rule bndI, rule talks_weaken[OF assms(1)], rule printI) simp
  then show ?thesis using True by (simp add: DBE_DEBUG_def)
qed (use assms(2) in \<open>auto simp: DBE_DEBUG_def talks_ret\<close>)

lemmas rules = bndI thnI consI nilI rdI wrI updI printI delayI debugI talks_ret

end

text \<open>The base address of a device instance stays what it is.\<close>

definition at_base :: "dev_kind \<Rightarrow> u32 \<Rightarrow> u32 \<Rightarrow> 'h mach \<Rightarrow> bool" where
  "at_base k idx b s \<longleftrightarrow> handle s k \<noteq> 0 \<and> words s (handle s k + 4 * unat idx) = b"

interpretation base: talker "at_base k idx b" for k idx b
  by unfold_locales (simp add: at_base_def)

lemma talks_dev_base: "Q b [] \<Longrightarrow> talks (at_base k idx b) (dev_base k idx) Q"
proof (rule talksI)
  fix s :: "'a mach" assume q: "Q b []" and "at_base k idx b s"
  then have "dev_base k idx s = Some (Inr (b, s))" by (simp add: at_base_def dev_base_run)
  then show "\<exists>r h es cs. dev_base k idx s = Some (Inr (r, talk h es cs s)) \<and> Q r es"
    using q by (metis talk_nil)
qed

text \<open>The values read from a register.\<close>

fun reads_at :: "u32 \<Rightarrow> access list \<Rightarrow> u32 list" where
  "reads_at a [] = []"
| "reads_at a (Rd x v # es) = (if x = a then v # reads_at a es else reads_at a es)"
| "reads_at a (e # es) = reads_at a es"

lemma reads_at_append [simp]: "reads_at a (es @ fs) = reads_at a es @ reads_at a fs"
  by (induction a es rule: reads_at.induct) auto

section \<open>What the drivers keep\<close>

lemma keeps_deref: "keeps I (deref p)"
  unfolding deref_def by (intro keeps_if keeps_fail keeps_ret)

lemma keeps_dev_base: "keeps I (dev_base k idx)"
  unfolding dev_base_def by (intro keeps_bnd keeps_thn keeps_gets keeps_deref)

lemma keeps_load_word: "keeps I (load_word g idx)"
  unfolding load_word_def by (intro keeps_bnd keeps_thn keeps_gets keeps_deref)

lemma keeps_eth_regs: "keeps I eth_regs"
  unfolding eth_regs_def by (rule keeps_dev_base)

lemmas keeps_pure = keeps_ret keeps_fail keeps_gets keeps_bnd keeps_thn keeps_if keeps_deref
  keeps_wait_while keeps_dev_base keeps_load_word keeps_eth_regs

text \<open>The drivers of the bus keep whatever talking cannot break.\<close>

context talker
begin

lemma keeps_rd: "keeps P (rd B a)"
  using talk_keeps by (auto simp: keeps_def rd_run on_bus_talk)

lemma keeps_wr: "keeps P (wr B a v)"
  using talk_keeps by (auto simp: keeps_def wr_run on_bus_talk)

lemma keeps_wrb: "keeps P (wrb B a v)"
  using talk_keeps by (auto simp: keeps_def wrb_run)

lemma keeps_upd: "keeps P (upd B a f)"
  unfolding upd_def by (intro keeps_bnd keeps_rd keeps_wr)

lemma keeps_print: "keeps P (pp_printf fmt as)"
  using talk_keeps by (auto simp: keeps_def pp_printf_talk)

lemma keeps_debug: "keeps P args \<Longrightarrow> keeps P (DBE_DEBUG dbg fmt args)"
  unfolding DBE_DEBUG_def by (intro keeps_if keeps_bnd keeps_print keeps_ret)

lemmas keeps_bus = keeps_rd keeps_wr keeps_wrb keeps_upd keeps_print keeps_debug

lemma keeps_tx_copy: "keeps P (tx_copy B data len buf)"
  unfolding tx_copy_def by (intro keeps_if keeps_fail keeps_doall) (auto intro: keeps_wrb)

lemma keeps_rx_checks: "keeps P (rx_checks B ls cs bad)"
proof (induction B ls cs bad rule: rx_checks.induct)
  case (1 B ls bad)
  show ?case unfolding rx_checks.simps by (rule keeps_ret)
next
  case (2 B ls m t cs bad)
  show ?case
    unfolding rx_checks.simps
    by (intro keeps_bnd keeps_bus keeps_if keeps_thn keeps_ret 2)
qed

lemma keeps_rx_release: "keeps P (rx_release B ls)"
  unfolding rx_release_def by (intro keeps_thn keeps_upd)

lemma keeps_oeth_rx_bd:
  assumes "\<And>data len. keeps P (recv data len)"
  shows "keeps P (oeth_rx_bd B recv rx i)"
  unfolding oeth_rx_bd_def rx_deliver_def Let_def
  by (intro keeps_pure keeps_bus keeps_rx_checks keeps_rx_release assms)

lemma keeps_oeth_rx:
  assumes "\<And>data len. keeps P (recv data len)"
  shows "keeps P (oeth_rx B recv)"
  unfolding oeth_rx_def
  by (intro keeps_pure keeps_bus keeps_doall) (auto intro: keeps_oeth_rx_bd assms)

lemma keeps_oeth_tx: "keeps P (oeth_tx B)"
  unfolding oeth_tx_def
  by (intro keeps_pure keeps_bus keeps_doall)
    (auto simp: oeth_tx_bd_def Let_def intro!: keeps_pure keeps_bus)

lemma keeps_oeth_interrupt:
  assumes "\<And>data len. keeps P (recv data len)"
  shows "keeps P (oeth_interrupt B recv)"
  unfolding oeth_interrupt_def
  by (intro keeps_pure keeps_bus keeps_doall)
    (auto intro!: keeps_pure keeps_bus keeps_oeth_rx keeps_oeth_tx assms)

end

end
