(* ===== verification/Fmc516.thy ===== *)
theory Fmc516
  imports Talks
begin

text \<open>
  The FMC516 ADC board: the clock distribution chip LMK02000 (\<^verbatim>\<open>fmc/fmc516/lmk02000.c\<close>), the ADCs
  ISLA216P25 (\<^verbatim>\<open>fmc/fmc516/isla216p25.c\<close>), both behind the SPI driver, and the registers of the
  board's core (\<^verbatim>\<open>fmc/fmc516/fmc516.c\<close>).
\<close>

section \<open>Tables of default registers\<close>

datatype reg_type = REGS_DEFAULT_NO_INIT | REGS_DEFAULT_INIT | REGS_DEFAULT_END

record default_dev_regs_t =
  reg_type :: reg_type
  reg_size :: u8
  reg_addr :: u32
  reg_val :: u32

definition lmk02000_regs_default :: "default_dev_regs_t list" where
  "lmk02000_regs_default =
     [\<lparr>reg_type = REGS_DEFAULT_INIT, reg_size = 4, reg_addr = 0x0, reg_val = push_bit 31 1\<rparr>,
      \<lparr>reg_type = REGS_DEFAULT_INIT, reg_size = 4, reg_addr = 0x0, reg_val = push_bit 8 1\<rparr>,
      \<lparr>reg_type = REGS_DEFAULT_NO_INIT, reg_size = 4, reg_addr = 0x1, reg_val = 0\<rparr>,
      \<lparr>reg_type = REGS_DEFAULT_INIT, reg_size = 4, reg_addr = 0x2, reg_val = push_bit 16 1 OR push_bit 8 1 OR 2\<rparr>,
      \<lparr>reg_type = REGS_DEFAULT_NO_INIT, reg_size = 4, reg_addr = 0x3, reg_val = 0\<rparr>,
      \<lparr>reg_type = REGS_DEFAULT_INIT, reg_size = 4, reg_addr = 0x4, reg_val = push_bit 16 1 OR push_bit 8 1 OR 4\<rparr>,
      \<lparr>reg_type = REGS_DEFAULT_INIT, reg_size = 4, reg_addr = 0x5, reg_val = push_bit 16 1 OR push_bit 8 1 OR 5\<rparr>,
      \<lparr>reg_type = REGS_DEFAULT_INIT, reg_size = 4, reg_addr = 0x6, reg_val = push_bit 16 1 OR push_bit 8 1 OR 6\<rparr>,
      \<lparr>reg_type = REGS_DEFAULT_INIT, reg_size = 4, reg_addr = 0x7, reg_val = push_bit 16 1 OR push_bit 8 1 OR 7\<rparr>,
      \<lparr>reg_type = REGS_DEFAULT_NO_INIT, reg_size = 4, reg_addr = 0xb, reg_val = 0\<rparr>,
      \<lparr>reg_type = REGS_DEFAULT_INIT, reg_size = 4, reg_addr = 0xe, reg_val = 0x2b100100 OR 14\<rparr>,
      \<lparr>reg_type = REGS_DEFAULT_NO_INIT, reg_size = 4, reg_addr = 0xf, reg_val = 0x4003e800 OR 15\<rparr>,
      \<lparr>reg_type = REGS_DEFAULT_END, reg_size = 0, reg_addr = 0, reg_val = 0\<rparr>]"

definition isla216p25_regs_default :: "default_dev_regs_t list" where
  "isla216p25_regs_default =
     [\<lparr>reg_type = REGS_DEFAULT_INIT, reg_size = 1, reg_addr = 0x00, reg_val = push_bit 5 1\<rparr>,
      \<lparr>reg_type = REGS_DEFAULT_INIT, reg_size = 1, reg_addr = 0x00, reg_val = push_bit 5 0\<rparr>,
      \<lparr>reg_type = REGS_DEFAULT_INIT, reg_size = 1, reg_addr = 0x2b, reg_val = push_bit 0 1\<rparr>,
      \<lparr>reg_type = REGS_DEFAULT_INIT, reg_size = 1, reg_addr = 0x72, reg_val = push_bit 0 1\<rparr>,
      \<lparr>reg_type = REGS_DEFAULT_END, reg_size = 0, reg_addr = 0, reg_val = 0\<rparr>]"

text \<open>
  The loop over a table, which must have an end mark; \<open>note\<close> is the message of an iteration and
  \<open>put\<close> writes one register.
\<close>

fun load_regset ::
  "(nat \<Rightarrow> ('s, unit) prog) \<Rightarrow> (default_dev_regs_t \<Rightarrow> ('s, unit) prog) \<Rightarrow> nat \<Rightarrow> default_dev_regs_t list \<Rightarrow>
   ('s, unit) prog" where
  "load_regset note put i [] = fail BufferOverrun"
| "load_regset note put i (r # rs) =
     (case reg_type r of
        REGS_DEFAULT_END \<Rightarrow> ret ()
      | REGS_DEFAULT_INIT \<Rightarrow> thn (note i) (thn (put r) (load_regset note put (Suc i) rs))
      | REGS_DEFAULT_NO_INIT \<Rightarrow> thn (note i) (load_regset note put (Suc i) rs))"

section \<open>LMK02000\<close>

definition FMC516_ISLA216P25_SPI_ID :: u32 where "FMC516_ISLA216P25_SPI_ID = 0"
definition FMC516_LMK02000_SPI_ID :: u32 where "FMC516_LMK02000_SPI_ID = 1"
definition FMC516_LMK02000_CS :: nat where "FMC516_LMK02000_CS = 0"
definition FMC516_LMK02000_SIZE :: u32 where "FMC516_LMK02000_SIZE = 28 + 4"

definition fmc516_lmk02000_write_reg :: "'h plat \<Rightarrow> u32 \<Rightarrow> ('h mach, unit) prog" where
  "fmc516_lmk02000_write_reg B val =
     thn (msg (DBG_SPI OR DBE_DBG_TRACE) ''> fmc516_lmk02000_write_reg...\<newline>'')
     (thn (oc_spi_txrx B FMC516_LMK02000_SPI_ID FMC516_LMK02000_CS FMC516_LMK02000_SIZE val) (ret ()))"

definition fmc516_lmk02000_load_regset :: "'h plat \<Rightarrow> default_dev_regs_t list \<Rightarrow> ('h mach, unit) prog" where
  "fmc516_lmk02000_load_regset B regs =
     thn (msg (DBG_SPI OR DBE_DBG_TRACE) ''> fmc516_lmk02000_load_regset...\<newline>'')
     (load_regset
        (\<lambda>i. DBE_DEBUG (DBG_SPI OR DBE_DBG_TRACE) ''> fmc516_lmk02000_load_regset while: %d...\<newline>''
           (ret [Num (of_nat i)]))
        (\<lambda>r. fmc516_lmk02000_write_reg B (reg_val r)) 0 regs)"

definition fmc516_lmk02000_init :: "'h plat \<Rightarrow> ('h mach, int) prog" where
  "fmc516_lmk02000_init B =
     thn (msg (DBG_SPI OR DBE_DBG_TRACE) ''> fmc516_lmk02000_init...\<newline>'')
     (thn (fmc516_lmk02000_load_regset B lmk02000_regs_default) (ret 0))"

section \<open>ISLA216P25\<close>

definition FMC516_NUM_ISLA216 :: nat where "FMC516_NUM_ISLA216 = 4"

definition FMC516_ISLA216_READ :: u32 where "FMC516_ISLA216_READ = push_bit 15 1 AND 0x8000"
definition FMC516_ISLA216_LENGTH :: "u32 \<Rightarrow> u32" where "FMC516_ISLA216_LENGTH x = push_bit 13 x AND 0x6000"
definition FMC516_ISLA216_ADDR :: "u32 \<Rightarrow> u32" where "FMC516_ISLA216_ADDR x = x AND 0x1FFF"
definition FMC516_ISLA216_INSTADDR_SIZE :: u32 where "FMC516_ISLA216_INSTADDR_SIZE = 1 + 2 + 13"
definition FMC516_ISLA216_WORD_SIZE :: u32 where "FMC516_ISLA216_WORD_SIZE = 8"

definition ISLA216_CHIPID_REG :: u32 where "ISLA216_CHIPID_REG = 0x08"
definition ISLA216_CHIPVER_REG :: u32 where "ISLA216_CHIPVER_REG = 0x09"
definition ISLA216_CALSTATUS_REG :: u32 where "ISLA216_CALSTATUS_REG = 0xb6"
definition ISLA216_TESTIO_REG :: u32 where "ISLA216_TESTIO_REG = 0xC0"
definition ISLA216_OUT_TESTMODE :: "u32 \<Rightarrow> u32" where "ISLA216_OUT_TESTMODE x = push_bit 4 x AND 0xf0"
definition ISLA216_OUT_TESTIO_MIDSHORT :: u32 where "ISLA216_OUT_TESTIO_MIDSHORT = 1"
definition ISLA216_OUT_TESTIO_RAMP :: u32 where "ISLA216_OUT_TESTIO_RAMP = 10"

definition fmc516_isla216_write_instaddr_raw :: "'h plat \<Rightarrow> u32 \<Rightarrow> nat \<Rightarrow> ('h mach, unit) prog" where
  "fmc516_isla216_write_instaddr_raw B val ss =
     thn (oc_spi_three_mode_tx B FMC516_ISLA216P25_SPI_ID ss FMC516_ISLA216_INSTADDR_SIZE val) (ret ())"

definition fmc516_isla216_readw_raw :: "'h plat \<Rightarrow> nat \<Rightarrow> ('h mach, u32) prog" where
  "fmc516_isla216_readw_raw B ss =
     bnd (oc_spi_three_mode_rx B FMC516_ISLA216P25_SPI_ID ss FMC516_ISLA216_WORD_SIZE) (\<lambda>r. ret (snd r))"

definition fmc516_isla216_writew_raw :: "'h plat \<Rightarrow> u32 \<Rightarrow> nat \<Rightarrow> ('h mach, unit) prog" where
  "fmc516_isla216_writew_raw B val ss =
     thn (oc_spi_three_mode_tx B FMC516_ISLA216P25_SPI_ID ss FMC516_ISLA216_WORD_SIZE val) (ret ())"

definition isla216_instaddr :: "u32 \<Rightarrow> nat \<Rightarrow> bool \<Rightarrow> u32" where
  "isla216_instaddr addr len read =
     (let reg = FMC516_ISLA216_ADDR addr OR FMC516_ISLA216_LENGTH (of_nat len - 1)
      in if read then reg OR FMC516_ISLA216_READ else reg)"

definition fmc516_isla216_write_instaddr ::
  "'h plat \<Rightarrow> u32 \<Rightarrow> nat \<Rightarrow> bool \<Rightarrow> nat \<Rightarrow> ('h mach, unit) prog" where
  "fmc516_isla216_write_instaddr B addr len read ss =
     fmc516_isla216_write_instaddr_raw B (isla216_instaddr addr len read) ss"

definition fmc516_isla216_read_byte :: "'h plat \<Rightarrow> u32 \<Rightarrow> nat \<Rightarrow> ('h mach, u32) prog" where
  "fmc516_isla216_read_byte B addr ss =
     thn (fmc516_isla216_write_instaddr B addr 1 True ss)
     (bnd (fmc516_isla216_readw_raw B ss) (\<lambda>val.
     thn (DBE_DEBUG (DBG_SPI OR DBE_DBG_TRACE) ''fmc_read_byte: 0X%8X\<newline>'' (ret [Num val]))
     (ret (val AND 0xff))))"

definition fmc516_isla216_write_byte :: "'h plat \<Rightarrow> u32 \<Rightarrow> u32 \<Rightarrow> nat \<Rightarrow> ('h mach, unit) prog" where
  "fmc516_isla216_write_byte B val addr ss =
     thn (fmc516_isla216_write_instaddr B addr 1 False ss) (fmc516_isla216_writew_raw B val ss)"

text \<open>The loop of \<^verbatim>\<open>read_n\<close>: \<open>i\<close> bytes are read, \<open>n\<close> remain, with the value and the mask so far.\<close>

fun isla216_read_loop :: "'h plat \<Rightarrow> nat \<Rightarrow> nat \<Rightarrow> nat \<Rightarrow> u32 \<Rightarrow> u32 \<Rightarrow> ('h mach, u32) prog" where
  "isla216_read_loop B ss i 0 r m = ret (r AND m)"
| "isla216_read_loop B ss i (Suc n) r m =
     bnd (fmc516_isla216_readw_raw B ss) (\<lambda>val.
       isla216_read_loop B ss (Suc i) n (r OR push_bit (8 * i) (val AND 0xff)) (m OR push_bit (8 * i) 0xff))"

definition fmc516_isla216_read_n :: "'h plat \<Rightarrow> u32 \<Rightarrow> nat \<Rightarrow> nat \<Rightarrow> ('h mach, u32) prog" where
  "fmc516_isla216_read_n B addr len ss =
     thn (fmc516_isla216_write_instaddr B addr len True ss) (isla216_read_loop B ss 0 len 0 0)"

definition fmc516_isla216_write_n :: "'h plat \<Rightarrow> u32 \<Rightarrow> u32 \<Rightarrow> nat \<Rightarrow> nat \<Rightarrow> ('h mach, unit) prog" where
  "fmc516_isla216_write_n B val addr len ss =
     thn (fmc516_isla216_write_instaddr B addr len False ss)
     (doall (map (\<lambda>i. fmc516_isla216_writew_raw B (signed_drop_bit (8 * i) val) ss) [0..<len]))"

definition fmc516_isla216_load_regset :: "'h plat \<Rightarrow> default_dev_regs_t list \<Rightarrow> nat \<Rightarrow> ('h mach, unit) prog" where
  "fmc516_isla216_load_regset B regs ss =
     load_regset (\<lambda>_. ret ()) (\<lambda>r. fmc516_isla216_write_byte B (reg_val r) (reg_addr r) ss) 0 regs"

definition fmc516_isla216_all_init :: "'h plat \<Rightarrow> ('h mach, int) prog" where
  "fmc516_isla216_all_init B =
     thn (doall (map (fmc516_isla216_load_regset B isla216p25_regs_default) [0..<FMC516_NUM_ISLA216])) (ret 0)"

definition fmc516_isla216_init :: "'h plat \<Rightarrow> nat \<Rightarrow> ('h mach, int) prog" where
  "fmc516_isla216_init B ss = thn (fmc516_isla216_load_regset B isla216p25_regs_default ss) (ret 0)"

definition fmc516_isla216_chkcal_stat :: "'h plat \<Rightarrow> nat \<Rightarrow> ('h mach, u32) prog" where
  "fmc516_isla216_chkcal_stat B ss =
     bnd (fmc516_isla216_read_byte B ISLA216_CALSTATUS_REG ss) (\<lambda>v. ret (v AND 0x01))"

definition fmc516_isla216_test_ramp :: "'h plat \<Rightarrow> nat \<Rightarrow> ('h mach, unit) prog" where
  "fmc516_isla216_test_ramp B ss =
     fmc516_isla216_write_byte B (ISLA216_OUT_TESTMODE ISLA216_OUT_TESTIO_RAMP) ISLA216_TESTIO_REG ss"

definition fmc516_isla216_test_midscale :: "'h plat \<Rightarrow> nat \<Rightarrow> ('h mach, unit) prog" where
  "fmc516_isla216_test_midscale B ss =
     fmc516_isla216_write_byte B (ISLA216_OUT_TESTMODE ISLA216_OUT_TESTIO_MIDSHORT) ISLA216_TESTIO_REG ss"

definition fmc516_isla216_get_chipid :: "'h plat \<Rightarrow> nat \<Rightarrow> ('h mach, u32) prog" where
  "fmc516_isla216_get_chipid B ss =
     bnd (fmc516_isla216_read_byte B ISLA216_CHIPID_REG ss) (\<lambda>v. ret (v AND 0xff))"

definition fmc516_isla216_get_chipver :: "'h plat \<Rightarrow> nat \<Rightarrow> ('h mach, u32) prog" where
  "fmc516_isla216_get_chipver B ss =
     bnd (fmc516_isla216_read_byte B ISLA216_CHIPVER_REG ss) (\<lambda>v. ret (v AND 0xff))"

section \<open>Registers of the core\<close>

definition WBGEN2_GEN_MASK :: "nat \<Rightarrow> nat \<Rightarrow> u32" where
  "WBGEN2_GEN_MASK off sz = push_bit off (push_bit sz 1 - 1)"

definition WBGEN2_GEN_WRITE :: "int \<Rightarrow> nat \<Rightarrow> nat \<Rightarrow> u32" where
  "WBGEN2_GEN_WRITE value off sz = push_bit off (word_of_int value AND (push_bit sz 1 - 1))"

definition WBGEN2_GEN_READ :: "u32 \<Rightarrow> nat \<Rightarrow> nat \<Rightarrow> u32" where
  "WBGEN2_GEN_READ reg off sz = drop_bit off reg AND (push_bit sz 1 - 1)"

definition FMC516_FMC_CTL :: u32 where "FMC516_FMC_CTL = 0x4"
definition FMC516_ADC_CTL :: u32 where "FMC516_ADC_CTL = 0x10"
definition FMC516_CH_STA :: "nat \<Rightarrow> u32" where "FMC516_CH_STA ch = 0x14 + 0xc * of_nat ch"
definition FMC516_CH_FN_DLY :: "nat \<Rightarrow> u32" where "FMC516_CH_FN_DLY ch = 0x18 + 0xc * of_nat ch"
definition FMC516_CH_CS_DLY :: "nat \<Rightarrow> u32" where "FMC516_CH_CS_DLY ch = 0x1c + 0xc * of_nat ch"

definition FMC516_FMC_CTL_LED_0 :: u32 where "FMC516_FMC_CTL_LED_0 = WBGEN2_GEN_MASK 1 1"
definition FMC516_FMC_CTL_LED_1 :: u32 where "FMC516_FMC_CTL_LED_1 = WBGEN2_GEN_MASK 2 1"
definition FMC516_FMC_CTL_CLK_SEL :: u32 where "FMC516_FMC_CTL_CLK_SEL = WBGEN2_GEN_MASK 3 1"
definition FMC516_ADC_CTL_UPDATE_CLK_DLY :: u32 where "FMC516_ADC_CTL_UPDATE_CLK_DLY = WBGEN2_GEN_MASK 0 1"
definition FMC516_ADC_CTL_UPDATE_DATA_DLY :: u32 where "FMC516_ADC_CTL_UPDATE_DATA_DLY = WBGEN2_GEN_MASK 1 1"
definition FMC516_ADC_CTL_RST_ADCS :: u32 where "FMC516_ADC_CTL_RST_ADCS = WBGEN2_GEN_MASK 2 1"
definition FMC516_ADC_CTL_RST_DIV_ADCS :: u32 where "FMC516_ADC_CTL_RST_DIV_ADCS = WBGEN2_GEN_MASK 3 1"

definition fmc516_set :: "'h plat \<Rightarrow> u32 \<Rightarrow> u32 \<Rightarrow> u32 \<Rightarrow> ('h mach, unit) prog" where
  "fmc516_set B idx reg bits = bnd (dev_base Fmc516 idx) (\<lambda>b. upd B (b + reg) (\<lambda>v. v OR bits))"

definition fmc516_update_clk_dly :: "'h plat \<Rightarrow> u32 \<Rightarrow> ('h mach, unit) prog" where
  "fmc516_update_clk_dly B idx = fmc516_set B idx FMC516_ADC_CTL FMC516_ADC_CTL_UPDATE_CLK_DLY"

definition fmc516_update_data_dly :: "'h plat \<Rightarrow> u32 \<Rightarrow> ('h mach, unit) prog" where
  "fmc516_update_data_dly B idx = fmc516_set B idx FMC516_ADC_CTL FMC516_ADC_CTL_UPDATE_DATA_DLY"

definition fmc516_clk_sel :: "'h plat \<Rightarrow> u32 \<Rightarrow> int \<Rightarrow> ('h mach, unit) prog" where
  "fmc516_clk_sel B idx ext_clk =
     (if ext_clk \<noteq> 0 then fmc516_set B idx FMC516_FMC_CTL FMC516_FMC_CTL_CLK_SEL else ret ())"

definition fmc516_led0 :: "'h plat \<Rightarrow> u32 \<Rightarrow> int \<Rightarrow> ('h mach, unit) prog" where
  "fmc516_led0 B idx on =
     (if on \<noteq> 0 then fmc516_set B idx FMC516_FMC_CTL FMC516_FMC_CTL_LED_0 else ret ())"

definition fmc516_led1 :: "'h plat \<Rightarrow> u32 \<Rightarrow> int \<Rightarrow> ('h mach, unit) prog" where
  "fmc516_led1 B idx on =
     (if on \<noteq> 0 then fmc516_set B idx FMC516_FMC_CTL FMC516_FMC_CTL_LED_1 else ret ())"

definition fmc516_reset_adcs :: "'h plat \<Rightarrow> u32 \<Rightarrow> ('h mach, unit) prog" where
  "fmc516_reset_adcs B idx = fmc516_set B idx FMC516_ADC_CTL FMC516_ADC_CTL_RST_ADCS"

definition fmc516_resetdiv_adcs :: "'h plat \<Rightarrow> u32 \<Rightarrow> ('h mach, unit) prog" where
  "fmc516_resetdiv_adcs B idx = fmc516_set B idx FMC516_ADC_CTL FMC516_ADC_CTL_RST_DIV_ADCS"

text \<open>The register of a channel; another channel is reported and replaced by the first.\<close>

definition fmc_ch_handler :: "(nat \<Rightarrow> u32) \<Rightarrow> int \<Rightarrow> u32 \<Rightarrow> ('h mach, u32) prog" where
  "fmc_ch_handler reg ch b =
     (if 0 \<le> ch \<and> ch < 4 then ret (b + reg (nat ch))
      else thn (pp_printf ''> Unsupported FMC516 ADC channel\<newline>'' []) (ret (b + reg 0)))"

definition put_field :: "nat \<Rightarrow> nat \<Rightarrow> int \<Rightarrow> u32 \<Rightarrow> u32" where
  "put_field off sz value reg = (reg AND NOT (WBGEN2_GEN_MASK off sz)) OR WBGEN2_GEN_WRITE value off sz"

definition adj_delay_value :: "int \<Rightarrow> int \<Rightarrow> u32 \<Rightarrow> u32" where
  "adj_delay_value clk_dly data_dly reg0 =
     (let reg1 = (if clk_dly \<noteq> -1 then put_field 0 5 clk_dly reg0 else reg0)
      in if data_dly \<noteq> -1 then put_field 8 5 data_dly reg1 else reg1)"

definition fmc516_adj_delay ::
  "'h plat \<Rightarrow> u32 \<Rightarrow> int \<Rightarrow> int \<Rightarrow> int \<Rightarrow> int \<Rightarrow> ('h mach, unit) prog" where
  "fmc516_adj_delay B idx ch clk_dly data_dly commit =
     bnd (dev_base Fmc516 idx) (\<lambda>b.
     bnd (fmc_ch_handler FMC516_CH_FN_DLY ch b) (\<lambda>a.
     thn (upd B a (adj_delay_value clk_dly data_dly))
     (if commit \<noteq> 0 then thn (fmc516_update_data_dly B idx) (fmc516_update_clk_dly B idx) else ret ())))"

definition dly_code :: "int \<Rightarrow> int \<Rightarrow> int" where
  "dly_code d1 d2 = (if d2 \<noteq> 0 then 3 else if d1 \<noteq> 0 then 1 else 0)"

definition fe_rg_value :: "int \<Rightarrow> int \<Rightarrow> int \<Rightarrow> int \<Rightarrow> u32 \<Rightarrow> u32" where
  "fe_rg_value fe_dly_d1 fe_dly_d2 rg_dly_d1 rg_dly_d2 reg =
     put_field 8 2 (dly_code rg_dly_d1 rg_dly_d2) (put_field 0 2 (dly_code fe_dly_d1 fe_dly_d2) reg)"

definition fmc516_fe_rg_dly ::
  "'h plat \<Rightarrow> u32 \<Rightarrow> int \<Rightarrow> int \<Rightarrow> int \<Rightarrow> int \<Rightarrow> int \<Rightarrow> ('h mach, unit) prog" where
  "fmc516_fe_rg_dly B idx ch fe_dly_d1 fe_dly_d2 rg_dly_d1 rg_dly_d2 =
     bnd (dev_base Fmc516 idx) (\<lambda>b.
     bnd (fmc_ch_handler FMC516_CH_CS_DLY ch b) (\<lambda>a.
     bnd (rd B a) (\<lambda>v.
     let reg = fe_rg_value fe_dly_d1 fe_dly_d2 rg_dly_d1 rg_dly_d2 v in
     thn (wr B a reg)
     (DBE_DEBUG (DBG_GENERIC OR DBE_DBG_TRACE) ''dly_ctl_reg, *fmc_ch_handler = %08X, %08X\<newline>''
       (bnd (rd B a) (\<lambda>w. ret [Num reg, Num w]))))))"

abbreviation gen_info :: u32 where "gen_info \<equiv> DBG_GENERIC OR DBE_DBG_INFO"
abbreviation gen_trace :: u32 where "gen_trace \<equiv> DBG_GENERIC OR DBE_DBG_TRACE"

definition fmc516_init_regs :: "'h plat \<Rightarrow> u32 \<Rightarrow> ('h mach, unit) prog" where
  "fmc516_init_regs B idx =
     doall
      [msg gen_info ''> Leds and clock select\<newline>'',
       fmc516_clk_sel B idx 1,
       fmc516_led0 B idx 1,
       fmc516_adj_delay B idx 0 5 24 1,
       fmc516_adj_delay B idx 1 5 14 1,
       fmc516_adj_delay B idx 2 5 15 1,
       fmc516_adj_delay B idx 3 5 28 1,
       fmc516_fe_rg_dly B idx 0 0 0 0 0,
       fmc516_fe_rg_dly B idx 1 0 0 0 0,
       fmc516_fe_rg_dly B idx 2 0 0 0 0,
       fmc516_fe_rg_dly B idx 3 0 0 0 0]"

text \<open>The messages of \<^verbatim>\<open>fmc516_sweep_delays\<close>: the field at \<open>off\<close> of a register of each channel.\<close>

definition sweep_messages ::
  "'h plat \<Rightarrow> u32 \<Rightarrow> string \<Rightarrow> (nat \<Rightarrow> u32) \<Rightarrow> nat \<Rightarrow> nat \<Rightarrow> ('h mach, unit) prog list" where
  "sweep_messages B idx fmt reg off sz =
     map (\<lambda>ch. DBE_DEBUG gen_trace fmt
       (bnd (dev_base Fmc516 idx) (\<lambda>b. bnd (rd B (b + reg ch)) (\<lambda>v.
         ret [Num (of_nat ch), Num (WBGEN2_GEN_READ v off sz)])))) [0..<4]"

definition fmc516_sweep_delays :: "'h plat \<Rightarrow> u32 \<Rightarrow> ('h mach, unit) prog" where
  "fmc516_sweep_delays B idx =
     doall
      (sweep_messages B idx ''> ADC%d fine data delay: %d\<newline>'' FMC516_CH_FN_DLY 8 5 @
       sweep_messages B idx ''> ADC%d fe coarse data delay: %d\<newline>'' FMC516_CH_CS_DLY 0 2 @
       sweep_messages B idx ''> ADC%d rg coarse data delay: %d\<newline>'' FMC516_CH_CS_DLY 8 2)"

definition fmc516_read_adc :: "'h plat \<Rightarrow> nat \<Rightarrow> u32 \<Rightarrow> ('h mach, u32) prog" where
  "fmc516_read_adc B ch idx =
     bnd (dev_base Fmc516 idx) (\<lambda>b.
     bnd (rd B (b + FMC516_CH_STA ch)) (\<lambda>v. ret (WBGEN2_GEN_READ v 0 16)))"

definition fmc516_conf :: "'h plat \<Rightarrow> nat \<Rightarrow> u32 \<Rightarrow> ('h mach, bool) prog" where
  "fmc516_conf B i base =
     thn (doall
      [msg gen_info ''> initilizing fmc516 regs\<newline>'',
       fmc516_init_regs B (of_nat i),
       msg gen_info ''> initilizing fmc516 lmk02000\<newline>'',
       thn (fmc516_lmk02000_init B) (ret ()),
       debug_addr gen_info ''> fmc516 addr[%d]: %08X\<newline>'' i base,
       thn (delay 1000) (ret ()),
       msg gen_info ''> resetting ADCs\<newline>'',
       fmc516_reset_adcs B (of_nat i),
       thn (delay 1000) (ret ()),
       fmc516_resetdiv_adcs B (of_nat i),
       thn (delay 1000) (ret ()),
       DBE_DEBUG gen_info ''> ADCs reset values(rst|divrst)): %08X|%08X\<newline>''
         (bnd (dev_base Fmc516 (of_nat i)) (\<lambda>b.
          bnd (rd B (b + FMC516_ADC_CTL)) (\<lambda>v.
          bnd (rd B (b + FMC516_ADC_CTL)) (\<lambda>w.
            ret [Num (v AND FMC516_ADC_CTL_RST_ADCS), Num (w AND FMC516_ADC_CTL_RST_DIV_ADCS)])))),
       msg gen_info ''> initilizing fmc516 isla216\<newline>'',
       thn (fmc516_isla216_all_init B) (ret ())])
     (ret True)"

definition fmc516_init :: "'h plat \<Rightarrow> ('h mach, int) prog" where
  "fmc516_init B =
     dev_init B Fmc516 (\<lambda>_. ret ()) (fmc516_conf B) (debug_size gen_info ''> fmc516 size: %d\<newline>'')"

definition fmc516_exit :: "('h mach, int) prog" where
  "fmc516_exit = bnd (gets (\<lambda>s. handle s Fmc516)) (\<lambda>p. thn (mfree p) (ret 0))"

section \<open>Correctness\<close>

lemma gen_mask: "WBGEN2_GEN_MASK off sz = push_bit off (mask sz)"
  by (simp add: WBGEN2_GEN_MASK_def mask_eq_exp_minus_1)

lemma gen_write: "WBGEN2_GEN_WRITE v off sz = push_bit off (take_bit sz (word_of_int v))"
  by (simp add: WBGEN2_GEN_WRITE_def take_bit_eq_mask mask_eq_exp_minus_1)

lemma bit_put_field:
  assumes "off + sz \<le> 32" "n < 32"
  shows "bit (put_field off sz v w) n =
    (if off \<le> n \<and> n < off + sz then bit (word_of_int v :: u32) (n - off) else bit w n)"
  using assms
  by (auto simp: put_field_def gen_mask gen_write bit_or_iff bit_and_iff bit_not_iff bit_push_bit_iff
      bit_mask_iff bit_take_bit_iff)

lemma fmc_ch_handlerI:
  "0 \<le> ch \<Longrightarrow> ch < 4 \<Longrightarrow> Q (b + reg (nat ch)) [] \<Longrightarrow> talks P (fmc_ch_handler reg ch b) Q"
  by (simp add: fmc_ch_handler_def talks_ret del: ret_run)

lemma fmc516_setI:
  "(\<And>v. Q () [Rd (b + reg) v, Wr (b + reg) (v OR bits)]) \<Longrightarrow> talks (at_base Fmc516 idx b) (fmc516_set B idx reg bits) Q"
  unfolding fmc516_set_def by (intro base.rules talks_dev_base) simp

text \<open>
  \<^verbatim>\<open>fmc516_adj_delay\<close> changes only the delay fields of the register of its channel: bits 0
  to 4 become the clock delay and bits 8 to 12 the data delay, unless the argument is -1, and
  every other bit is written back as it was read. With \<^verbatim>\<open>commit\<close> it then sets the update bit of the data
  chains and after it that of the clock chains, so the new delays are in place before the
  core is told to use them.
\<close>

lemma fmc516_adj_delay_fields:
  assumes "at_base Fmc516 idx b s" "0 \<le> ch" "ch < 4"
  shows "\<exists>h es cs v w c1 c2. fmc516_adj_delay B idx ch clk_dly data_dly commit s = Some (Inr ((), talk h es cs s)) \<and>
    es = [Rd (b + FMC516_CH_FN_DLY (nat ch)) v, Wr (b + FMC516_CH_FN_DLY (nat ch)) w] @
      (if commit \<noteq> 0 then
        [Rd (b + FMC516_ADC_CTL) c1, Wr (b + FMC516_ADC_CTL) (c1 OR FMC516_ADC_CTL_UPDATE_DATA_DLY),
         Rd (b + FMC516_ADC_CTL) c2, Wr (b + FMC516_ADC_CTL) (c2 OR FMC516_ADC_CTL_UPDATE_CLK_DLY)] else []) \<and>
    (\<forall>n<32. bit w n =
      (if clk_dly \<noteq> - 1 \<and> n < 5 then bit (word_of_int clk_dly :: u32) n
       else if data_dly \<noteq> - 1 \<and> 8 \<le> n \<and> n < 13 then bit (word_of_int data_dly :: u32) (n - 8)
       else bit v n))"
    (is "\<exists>h es cs v w c1 c2. _ \<and> es = ?es v w c1 c2 \<and> ?ok v w")
proof -
  have ok: "?ok v (adj_delay_value clk_dly data_dly v)" for v
    by (auto simp: adj_delay_value_def Let_def bit_put_field)
  have "talks (at_base Fmc516 idx b) (fmc516_adj_delay B idx ch clk_dly data_dly commit)
      (\<lambda>_ es. \<exists>v c1 c2. es = ?es v (adj_delay_value clk_dly data_dly v) c1 c2)"
    unfolding fmc516_adj_delay_def fmc516_update_data_dly_def fmc516_update_clk_dly_def
    by (intro base.bndI base.thnI base.updI talks_dev_base fmc_ch_handlerI[OF assms(2,3)] talks_if fmc516_setI
        talks_ret exI) simp_all
  then obtain h es cs v c1 c2 where
    "fmc516_adj_delay B idx ch clk_dly data_dly commit s = Some (Inr ((), talk h es cs s))"
    "es = ?es v (adj_delay_value clk_dly data_dly v) c1 c2"
    using assms(1) unfolding talks_def by fastforce
  with ok[of v] show ?thesis by (intro exI conjI)
qed

definition fmc516_demo :: "nat mach" where
  "fmc516_demo = boot demo_layout 0\<lparr>handle := (\<lambda>_. 0)(Fmc516 := 64), words := (\<lambda>_. 0)(64 := 0x1000)\<rparr>"

lemma fmc516_adj_delay_fields_witness:
  "\<exists>h es cs v w c1 c2. fmc516_adj_delay demo_plat 0 2 5 24 1 fmc516_demo = Some (Inr ((), talk h es cs fmc516_demo)) \<and>
    es = [Rd (0x1000 + FMC516_CH_FN_DLY (nat 2)) v, Wr (0x1000 + FMC516_CH_FN_DLY (nat 2)) w] @
      (if (1 :: int) \<noteq> 0 then
        [Rd (0x1000 + FMC516_ADC_CTL) c1, Wr (0x1000 + FMC516_ADC_CTL) (c1 OR FMC516_ADC_CTL_UPDATE_DATA_DLY),
         Rd (0x1000 + FMC516_ADC_CTL) c2, Wr (0x1000 + FMC516_ADC_CTL) (c2 OR FMC516_ADC_CTL_UPDATE_CLK_DLY)] else []) \<and>
    (\<forall>n<32. bit w n =
      (if (5 :: int) \<noteq> - 1 \<and> n < 5 then bit (word_of_int 5 :: u32) n
       else if (24 :: int) \<noteq> - 1 \<and> 8 \<le> n \<and> n < 13 then bit (word_of_int 24 :: u32) (n - 8)
       else bit v n))"
  by (rule fmc516_adj_delay_fields) (simp_all add: at_base_def fmc516_demo_def)

end
