(* ===== verification/Fmc150.thy ===== *)
theory Fmc150
  imports Fmc516
begin

text \<open>
  The FMC150 ADC/DAC board (\<^verbatim>\<open>fmc/fmc150/fmc150.c\<close>): access to the registers of its chips and the
  set-up of the clock distribution chip CDCE72010, which reads back every register it writes.
\<close>

section \<open>Registers\<close>

definition FMC150_FLGS_PULSE :: u32 where "FMC150_FLGS_PULSE = 0x0"
definition FMC150_FLGS_IN :: u32 where "FMC150_FLGS_IN = 0x4"
definition FMC150_ADDR :: u32 where "FMC150_ADDR = 0x8"
definition FMC150_DATA_IN :: u32 where "FMC150_DATA_IN = 0xc"
definition FMC150_CS :: u32 where "FMC150_CS = 0x10"
definition FMC150_ADC_DLY :: u32 where "FMC150_ADC_DLY = 0x14"
definition FMC150_DATA_OUT :: u32 where "FMC150_DATA_OUT = 0x18"
definition FMC150_FLGS_OUT :: u32 where "FMC150_FLGS_OUT = 0x1c"

definition FMC150_FLGS_IN_SPI_RW :: u32 where "FMC150_FLGS_IN_SPI_RW = WBGEN2_GEN_MASK 0 1"
definition FMC150_CS_CDCE72010 :: u32 where "FMC150_CS_CDCE72010 = WBGEN2_GEN_MASK 0 1"
definition FMC150_FLGS_OUT_SPI_BUSY :: u32 where "FMC150_FLGS_OUT_SPI_BUSY = WBGEN2_GEN_MASK 0 1"

definition FMC150_SPI_DELAY :: int where "FMC150_SPI_DELAY = 300"
definition SPI_BUSY_MAX_TRIES :: nat where "SPI_BUSY_MAX_TRIES = 10"
definition CDCE72010_NUMREGS :: nat where "CDCE72010_NUMREGS = 12"

definition cdce72010_regs :: "u32 list" where
  "cdce72010_regs =
     [0x682C0290, 0x68840041, 0x83860002, 0x68400003, 0xE9800004, 0x68000005, 0x68000006, 0x83800017,
      0x68000098, 0x68000049, 0x007C003A, 0x8000050B]"

section \<open>Operations\<close>

text \<open>\<^verbatim>\<open>fmc150\<close> points to the registers of the first board; it is kept as their base address.\<close>

definition fmc150_base :: "('h mach, u32) prog" where
  "fmc150_base = bnd (gets (\<lambda>s. handle s Fmc150)) (\<lambda>p. thn (deref p) (ret (of_nat p)))"

definition fmc150_init :: "('h mach, int) prog" where
  "fmc150_init =
     bnd (gets (\<lambda>s. devl s Fmc150)) (\<lambda>l.
     thn (deref l)
     (bnd (gets (\<lambda>s. devl_devices s l)) (\<lambda>d.
       if d \<noteq> 0
       then bnd (gets (\<lambda>s. node_base s d)) (\<lambda>b.
            thn (modify (\<lambda>s. s\<lparr>handle := (handle s)(Fmc150 := unat b)\<rparr>)) (ret 0))
       else ret (-1))))"

definition update_fmc150_adc_delay :: "'h plat \<Rightarrow> u8 \<Rightarrow> u8 \<Rightarrow> u8 \<Rightarrow> ('h mach, unit) prog" where
  "update_fmc150_adc_delay B adc_strobe_delay adc_cha_delay adc_chb_delay =
     bnd fmc150_base (\<lambda>b.
     thn (wr B (b + FMC150_ADC_DLY)
           (WBGEN2_GEN_WRITE (uint adc_strobe_delay) 0 5 + WBGEN2_GEN_WRITE (uint adc_cha_delay) 8 5 +
            WBGEN2_GEN_WRITE (uint adc_chb_delay) 16 5))
     (wr B (b + FMC150_FLGS_PULSE) 0x1))"

definition fmc150_spi_busy :: "'h plat \<Rightarrow> ('h mach, u32) prog" where
  "fmc150_spi_busy B =
     bnd fmc150_base (\<lambda>b. bnd (rd B (b + FMC150_FLGS_OUT)) (\<lambda>v. ret (v AND FMC150_FLGS_OUT_SPI_BUSY)))"

text \<open>The result is -1, or 0 with the word that is stored through the pointer.\<close>

definition read_fmc150_register :: "'h plat \<Rightarrow> u32 \<Rightarrow> u32 \<Rightarrow> ('h mach, int \<times> u32 option) prog" where
  "read_fmc150_register B cs addr =
     bnd (fmc150_spi_busy B) (\<lambda>busy.
       if busy \<noteq> 0 then ret (-1, None)
       else
         bnd fmc150_base (\<lambda>b.
         thn (doall
          [upd B (b + FMC150_FLGS_IN) (\<lambda>v. v OR FMC150_FLGS_IN_SPI_RW),
           wr B (b + FMC150_ADDR) addr,
           upd B (b + FMC150_CS) (\<lambda>v. v XOR cs),
           thn (delay FMC150_SPI_DELAY) (ret ())])
         (bnd (rd B (b + FMC150_DATA_OUT)) (\<lambda>v. ret (0, Some v)))))"

definition write_fmc150_register :: "'h plat \<Rightarrow> u32 \<Rightarrow> u32 \<Rightarrow> u32 \<Rightarrow> ('h mach, int) prog" where
  "write_fmc150_register B cs addr data =
     bnd (fmc150_spi_busy B) (\<lambda>busy.
       if busy \<noteq> 0 then ret (-1)
       else
         bnd fmc150_base (\<lambda>b.
         thn (doall
          [upd B (b + FMC150_FLGS_IN) (\<lambda>v. v AND NOT FMC150_FLGS_IN_SPI_RW),
           wr B (b + FMC150_ADDR) addr,
           wr B (b + FMC150_DATA_IN) data,
           upd B (b + FMC150_CS) (\<lambda>v. v XOR cs)])
         (ret 0)))"

text \<open>\<open>n\<close> tries are left.\<close>

fun spi_busy_loop :: "'h plat \<Rightarrow> nat \<Rightarrow> ('h mach, int) prog" where
  "spi_busy_loop B 0 = ret (-1)"
| "spi_busy_loop B (Suc n) =
     bnd (fmc150_spi_busy B) (\<lambda>busy.
       if busy = 0 then ret 0 else thn (delay FMC150_SPI_DELAY) (spi_busy_loop B n))"

definition fmc150_spi_busy_loop :: "'h plat \<Rightarrow> ('h mach, int) prog" where
  "fmc150_spi_busy_loop B = spi_busy_loop B SPI_BUSY_MAX_TRIES"

text \<open>
  The loop over the registers from number \<open>i\<close> on; \<open>reg\<close> is the local variable, which a failed
  read leaves unchanged.
\<close>

fun cdce_loop :: "'h plat \<Rightarrow> nat \<Rightarrow> u32 list \<Rightarrow> u32 \<Rightarrow> ('h mach, int) prog" where
  "cdce_loop B i [] reg = ret 0"
| "cdce_loop B i (v # vs) reg =
     bnd (fmc150_spi_busy_loop B) (\<lambda>e.
       if e < 0 then thn (pp_printf ''init_cdce72010: max SPI tries excceded!\<newline>'' []) (ret (-1))
       else
         thn (pp_printf ''init_cdce72010: writing data: 0x%x at register addr: 0x%x\<newline>'' [Num v, Num (of_nat i)])
         (thn (write_fmc150_register B FMC150_CS_CDCE72010 (of_nat i) v)
         (thn (delay FMC150_SPI_DELAY)
         (bnd (fmc150_spi_busy_loop B) (\<lambda>e.
           if e < 0 then thn (pp_printf ''init_cdce72010: max SPI tries excceded!\<newline>'' []) (ret (-1))
           else
             bnd (read_fmc150_register B FMC150_CS_CDCE72010 (of_nat i)) (\<lambda>r.
             let reg' = (case snd r of None \<Rightarrow> reg | Some w \<Rightarrow> w) in
             thn (pp_printf ''init_cdce72010: reading data: 0x%x at register addr: 0x%x\<newline>'' [Num reg', Num (of_nat i)])
             (if v \<noteq> reg'
              then thn (pp_printf ''init_cdce72010: error: data written (0x%x) != data read (0x%x)!\<newline>'' [Num v, Num reg'])
                (ret (-1))
              else thn (delay FMC150_SPI_DELAY) (cdce_loop B (Suc i) vs reg'))))))))"

text \<open>\<open>junk\<close> is the value of the uninitialised variable \<^verbatim>\<open>reg\<close>.\<close>

definition init_cdce72010 :: "'h plat \<Rightarrow> u32 \<Rightarrow> ('h mach, int) prog" where
  "init_cdce72010 B junk = cdce_loop B 0 (take CDCE72010_NUMREGS cdce72010_regs) junk"

section \<open>Correctness\<close>

definition at_fmc150 :: "u32 \<Rightarrow> 'h mach \<Rightarrow> bool" where
  "at_fmc150 b s \<longleftrightarrow> b \<noteq> 0 \<and> handle s Fmc150 = unat b"

interpretation fmc150: talker "at_fmc150 b" for b
  by unfold_locales (simp add: at_fmc150_def)

lemma fmc150_baseI: "Q b [] \<Longrightarrow> talks (at_fmc150 b) fmc150_base Q"
proof (rule talksI)
  fix s :: "'a mach" assume q: "Q b []" and "at_fmc150 b s"
  then have "fmc150_base s = Some (Inr (b, s))"
    by (simp add: at_fmc150_def fmc150_base_def bnd_def thn_def deref_def unsigned_eq_0_iff)
  then show "\<exists>r h es cs. fmc150_base s = Some (Inr (r, talk h es cs s)) \<and> Q r es"
    using q by (metis talk_nil)
qed

text \<open>What is read back from the chips.\<close>

abbreviation read_back :: "u32 \<Rightarrow> access list \<Rightarrow> u32 list" where
  "read_back b \<equiv> reads_at (b + FMC150_DATA_OUT)"

lemmas fmc150_offs = FMC150_FLGS_PULSE_def FMC150_FLGS_IN_def FMC150_ADDR_def FMC150_DATA_IN_def
  FMC150_CS_def FMC150_ADC_DLY_def FMC150_DATA_OUT_def FMC150_FLGS_OUT_def

lemma fmc150_busy: "talks (at_fmc150 b) (fmc150_spi_busy B) (\<lambda>_ es. read_back b es = [])"
  unfolding fmc150_spi_busy_def by (intro fmc150.rules fmc150_baseI) (simp add: fmc150_offs)

lemma fmc150_busy_loop:
  "talks (at_fmc150 b) (fmc150_spi_busy_loop B) (\<lambda>r es. r \<in> {0, - 1} \<and> read_back b es = [])"
proof -
  have "talks (at_fmc150 b) (spi_busy_loop B n) (\<lambda>r es. r \<in> {0, - 1} \<and> read_back b es = [])" for n
  proof (induction n)
    case 0
    show ?case unfolding spi_busy_loop.simps by (rule talks_ret) simp
  next
    case (Suc n)
    show ?case
      unfolding spi_busy_loop.simps
      by (intro fmc150.bndI talks_weaken[OF fmc150_busy] talks_if fmc150.thnI fmc150.delayI talks_ret
          talks_weaken[OF Suc]) simp_all
  qed
  then show ?thesis unfolding fmc150_spi_busy_loop_def .
qed

lemma fmc150_write:
  "talks (at_fmc150 b) (write_fmc150_register B cs a v) (\<lambda>_ es. read_back b es = [])"
  unfolding write_fmc150_register_def
  by (rule fmc150.bndI, rule talks_weaken[OF fmc150_busy], rule talks_if)
    (intro fmc150.rules fmc150_baseI, simp add: fmc150_offs)+

lemma fmc150_read:
  "talks (at_fmc150 b) (read_fmc150_register B cs a)
     (\<lambda>r es. read_back b es = (case snd r of None \<Rightarrow> [] | Some v \<Rightarrow> [v]))"
  unfolding read_fmc150_register_def
  by (rule fmc150.bndI, rule talks_weaken[OF fmc150_busy], rule talks_if)
    (intro fmc150.rules fmc150_baseI, simp add: fmc150_offs)+

lemma cdce_loop_checks:
  assumes "successively (\<noteq>) (reg # vs)"
  shows "talks (at_fmc150 b) (cdce_loop B i vs reg)
    (\<lambda>r es. r \<in> {0, - 1} \<and> (r = 0 \<longrightarrow> read_back b es = vs))"
  using assms
proof (induction vs arbitrary: i reg)
  case Nil
  show ?case unfolding cdce_loop.simps by (rule talks_ret) simp
next
  case (Cons v vs)
  have ne: "reg \<noteq> v" and tl: "successively (\<noteq>) (v # vs)" using Cons.prems by simp_all
  show ?case
    unfolding cdce_loop.simps Let_def
    by (intro fmc150.bndI fmc150.thnI fmc150.printI fmc150.delayI talks_weaken[OF fmc150_busy_loop]
        talks_weaken[OF fmc150_write] talks_weaken[OF fmc150_read] talks_if talks_ret
        talks_weaken[OF Cons.IH]) (use ne tl in \<open>auto split: option.splits\<close>)
qed

text \<open>
  \<^verbatim>\<open>init_cdce72010\<close> always returns, with 0 or -1, after at most ten polls per wait. It returns 0
  only when each of the twelve registers was read back from the chip, in order, with exactly the
  value of the table: a read that fails because the chip is busy again, whose error code the
  code ignores, cannot pass for one. The one assumption is that the uninitialised variable the
  comparison uses does not by chance hold the first value.
\<close>

lemma init_cdce72010_verifies:
  assumes "at_fmc150 b s" "junk \<noteq> cdce72010_regs ! 0"
  shows "\<exists>r h es cs. init_cdce72010 B junk s = Some (Inr (r, talk h es cs s)) \<and> r \<in> {0, - 1} \<and>
    (r = 0 \<longrightarrow> reads_at (b + FMC150_DATA_OUT) es = cdce72010_regs)"
proof -
  have t: "take CDCE72010_NUMREGS cdce72010_regs = cdce72010_regs"
    by (simp add: CDCE72010_NUMREGS_def cdce72010_regs_def)
  have "successively (\<noteq>) (junk # cdce72010_regs)" using assms(2) by (simp add: cdce72010_regs_def)
  from cdce_loop_checks[OF this, of b B 0] show ?thesis
    using assms(1) unfolding talks_def init_cdce72010_def t by blast
qed

definition fmc150_demo :: "nat mach" where
  "fmc150_demo = boot demo_layout 0\<lparr>handle := (\<lambda>_. 0)(Fmc150 := 64)\<rparr>"

lemma init_cdce72010_verifies_witness:
  "\<exists>r h es cs. init_cdce72010 demo_plat 0 fmc150_demo = Some (Inr (r, talk h es cs fmc150_demo)) \<and>
    r \<in> {0, - 1} \<and> (r = 0 \<longrightarrow> reads_at (64 + FMC150_DATA_OUT) es = cdce72010_regs)"
  by (rule init_cdce72010_verifies) (simp_all add: at_fmc150_def fmc150_demo_def cdce72010_regs_def)

end
