(* ===== verification/Dbe_Main.thy ===== *)
theory Dbe_Main
  imports Net_Correct Intr Fmc150
begin

text \<open>
  The application (\<^verbatim>\<open>dbe_main.c\<close>): reception of frames in the interrupt handler, the tests of the
  board, initialisation, and the main loop that answers ARP and echo requests.
\<close>

section \<open>Interrupt handlers\<close>

definition set_eb_done :: "u32 \<Rightarrow> ('h mach, unit) prog" where
  "set_eb_done arg = modify (\<lambda>s. s\<lparr>eb_done := True\<rparr>)"

definition button :: "u32 \<Rightarrow> ('h mach, unit) prog" where
  "button arg = pp_printf ''> button pushed!\<newline>'' []"

text \<open>
  \<^verbatim>\<open>debug_print2\<close> prints an array byte by byte (\<^verbatim>\<open>char\<close> is unsigned on this CPU); \<^verbatim>\<open>DBE_DEBUG_ARRAY\<close> calls it
  when the level of the message is enabled.
\<close>

definition debug_print2 :: "string \<Rightarrow> (nat \<Rightarrow> u8) \<Rightarrow> nat \<Rightarrow> ('h mach, unit) prog" where
  "debug_print2 fmt data len =
     thn (doall (map (\<lambda>i. pp_printf fmt [Num (ucast (data i))]) [0..<len])) (pp_printf ''\<newline>'' [])"

definition DBE_DEBUG_ARRAY :: "u32 \<Rightarrow> string \<Rightarrow> (nat \<Rightarrow> u8) \<Rightarrow> nat \<Rightarrow> ('h mach, unit) prog" where
  "DBE_DEBUG_ARRAY dbg fmt data len =
     (if dbg AND DBG_SUBSYS_ON \<noteq> 0 \<and> DBG_MIN_LEVEL \<le> dbg AND DBE_DBG_MASK
      then debug_print2 fmt data len else ret ())"

text \<open>\<^verbatim>\<open>memcpy(g + off, src, n)\<close> on a global array.\<close>

definition copy_to ::
  "('h mach \<Rightarrow> u8 list) \<Rightarrow> (u8 list \<Rightarrow> 'h mach \<Rightarrow> 'h mach) \<Rightarrow> nat \<Rightarrow> (nat \<Rightarrow> u8) \<Rightarrow> u32 \<Rightarrow> ('h mach, unit) prog" where
  "copy_to g store off src n =
     bnd (gets g) (\<lambda>a. bnd (or_overrun (memcpy a off src n)) (\<lambda>a'. modify (store a')))"

abbreviation to_hisMAC :: "nat \<Rightarrow> (nat \<Rightarrow> u8) \<Rightarrow> u32 \<Rightarrow> ('h mach, unit) prog" where
  "to_hisMAC \<equiv> copy_to hisMAC (\<lambda>a s. s\<lparr>hisMAC := a\<rparr>)"
abbreviation to_hisIP :: "nat \<Rightarrow> (nat \<Rightarrow> u8) \<Rightarrow> u32 \<Rightarrow> ('h mach, unit) prog" where
  "to_hisIP \<equiv> copy_to hisIP (\<lambda>a s. s\<lparr>hisIP := a\<rparr>)"
abbreviation to_hisBody :: "nat \<Rightarrow> (nat \<Rightarrow> u8) \<Rightarrow> u32 \<Rightarrow> ('h mach, unit) prog" where
  "to_hisBody \<equiv> copy_to hisBody (\<lambda>a s. s\<lparr>hisBody := a\<rparr>)"

text \<open>The bytes of a received frame from an index on.\<close>

definition bytes_from :: "(nat \<Rightarrow> u8) \<Rightarrow> nat \<Rightarrow> nat \<Rightarrow> u8" where
  "bytes_from data i k = data (i + k)"

definition is_arp_request :: "(nat \<Rightarrow> u8) \<Rightarrow> bool" where
  "is_arp_request data \<longleftrightarrow>
     data (ETH_TYPE + 0) = 0x08 \<and> data (ETH_TYPE + 1) = 0x06 \<and>
     data (ARP_OPER + 0) = 0 \<and> data (ARP_OPER + 1) = 1 \<and>
     memcmp (bytes_from data ARP_TPA) (\<lambda>i. myIP ! i) 4 = 0"

definition is_our_ip :: "(nat \<Rightarrow> u8) \<Rightarrow> bool" where
  "is_our_ip data \<longleftrightarrow>
     data (ETH_TYPE + 0) = 0x08 \<and> data (ETH_TYPE + 1) = 0x00 \<and> data IP_VERSION = 0x45 \<and>
     memcmp (bytes_from data IP_DEST) (\<lambda>i. myIP ! i) 4 = 0"

definition ip_len :: "(nat \<Rightarrow> u8) \<Rightarrow> int" where
  "ip_len data = uint (data (IP_LEN + 0)) * 256 + uint (data (IP_LEN + 1))"

definition recv_arp :: "(nat \<Rightarrow> u8) \<Rightarrow> ('h mach, unit) prog" where
  "recv_arp data =
     (if is_arp_request data then
        doall
         [modify (\<lambda>s. s\<lparr>sawARP := True\<rparr>),
          to_hisMAC 0 (bytes_from data ARP_SHA) 6,
          to_hisIP 0 (bytes_from data ARP_SPA) 4,
          msg eth_trace ''> ARP request\<newline>'']
      else msg eth_trace ''> no ARP request\<newline>'')"

text \<open>The comparison with \<^verbatim>\<open>sizeof(hisBody)\<close> is one of unsigned numbers.\<close>

definition recv_icmp :: "(nat \<Rightarrow> u8) \<Rightarrow> ('h mach, unit) prog" where
  "recv_icmp data =
     (if data IP_PROTOCOL = 0x01 \<and> data ICMP_TYPE = 0x08 then
        thn (modify (\<lambda>s. s\<lparr>hisBodyLen := ip_len data - 24\<rparr>))
        (bnd (gets hisBodyLen) (\<lambda>n.
          if (word_of_int n :: u32) \<le> 1516 then
            doall
             [modify (\<lambda>s. s\<lparr>sawPING := True\<rparr>),
              to_hisMAC 0 (bytes_from data ETH_SOURCE) 6,
              to_hisIP 0 (bytes_from data IP_SOURCE) 4,
              to_hisBody 0 (bytes_from data ICMP_QUENCH) (word_of_int n),
              msg eth_trace ''> PING request\<newline>'']
          else ret ()))
      else msg eth_trace ''> no PING request\<newline>'')"

text \<open>
  A UDP packet is passed to the Etherbone slave. The routine runs in the interrupt handler, and
  the CPU takes no interrupt before that returns, so nothing changes \<^verbatim>\<open>eb_done\<close> during the wait.
\<close>

definition recv_udp :: "'h plat \<Rightarrow> (nat \<Rightarrow> u8) \<Rightarrow> ('h mach, unit) prog" where
  "recv_udp B data =
     (if data IP_PROTOCOL = 0x11 then
        doall
         [to_hisBody 0 data 14,
          to_hisBody 16 (bytes_from data 14) (word_of_int (ip_len data)),
          modify (\<lambda>s. s\<lparr>eb_done := False\<rparr>),
          thn (ethmac_adapt_set_length B 0 (word_of_int (ip_len data + 16))) (ret ()),
          thn (ethmac_adapt_go B 0) (ret ()),
          wait_while (gets (\<lambda>s. \<not> eb_done s)),
          msg eth_trace ''> EBONE request\<newline>'',
          doall (map (\<lambda>i. modify (\<lambda>s. s\<lparr>hisBody := (hisBody s)[i := hisBody s ! (i - 2)]\<rparr>)) (rev [2..<13])),
          bnd (gets hisBody) (\<lambda>body. tx_packet B (drop 2 body) (ip_len data + 14))]
      else msg eth_trace ''> no EBONE request\<newline>'')"

definition user_recv :: "'h plat \<Rightarrow> 'h recv" where
  "user_recv B data len =
     thn (doall
      [msg eth_trace ''user_recv:\<newline>'',
       msg eth_trace ''> mac: '',
       DBE_DEBUG_ARRAY eth_trace ''%2X '' data 6])
     (if memcmp data (\<lambda>i. allMAC ! i) 6 \<noteq> 0 \<and> memcmp data (\<lambda>i. myMAC ! i) 6 \<noteq> 0
      then msg eth_trace ''> MAC does not match ours, ignoring packet\<newline>''
      else
        doall
         [msg eth_trace ''> destination MAC is correct\<newline>'',
          msg eth_trace ''> ethtype: '',
          DBE_DEBUG_ARRAY eth_trace ''%2X '' (bytes_from data ETH_TYPE) 2,
          msg eth_trace ''> arp_oper: '',
          DBE_DEBUG_ARRAY eth_trace ''%2X '' (bytes_from data ARP_OPER) 2,
          msg eth_trace ''> arp_tpa: '',
          DBE_DEBUG_ARRAY eth_trace ''%2X '' (bytes_from data ARP_TPA) 4,
          recv_arp data,
          msg eth_trace ''> ip version: '',
          DBE_DEBUG_ARRAY eth_trace ''%2X '' (bytes_from data IP_VERSION) 1,
          msg eth_trace ''> ip dest: '',
          DBE_DEBUG_ARRAY eth_trace ''%d '' (bytes_from data IP_DEST) 4,
          if is_our_ip data then thn (recv_icmp data) (recv_udp B data) else ret ()])"

text \<open>The functions the table of interrupt handlers points to.\<close>

definition call_hnd :: "'h plat \<Rightarrow> hnd \<Rightarrow> u32 \<Rightarrow> ('h mach, unit) prog" where
  "call_hnd B f arg =
     (case f of
        Oeth_interrupt \<Rightarrow> oeth_interrupt B (user_recv B)
      | Set_eb_done \<Rightarrow> set_eb_done arg
      | Button \<Rightarrow> button arg)"

section \<open>Initialisation and tests\<close>

definition board_init :: "('h mach, int) prog" where "board_init = ret 0"
definition board_update :: "('h mach, int) prog" where "board_update = ret 0"

text \<open>Run an init routine; -1 is reported with \<open>text\<close> and ends the sequence.\<close>

definition or_quit :: "('h mach, int) prog \<Rightarrow> ('h mach, unit) prog \<Rightarrow> ('h mach, int) prog \<Rightarrow> ('h mach, int) prog" where
  "or_quit p note k = bnd p (\<lambda>e. if e = -1 then thn note (ret (-1)) else k)"

definition dbe_init :: "'h plat \<Rightarrow> rom \<Rightarrow> ('h mach, int) prog" where
  "dbe_init B rom =
     thn (modify (\<lambda>s. s\<lparr>heap := memmgr_init (lay B) (heap s)\<rparr>))
     (thn (sdb_find_devices B rom)
     (or_quit (uart_init B) (ret ())
     (thn (sdb_print_devices rom)
     (or_quit (dma_init B) (pp_printf ''> error initializing DMA! Exiting...\<newline>'' [])
     (or_quit (gpio_init B) (pp_printf ''> error initializing GPIO! Exiting...\<newline>'' [])
     (or_quit (ethmac_init B) (pp_printf ''> error initializing Ethernet MAC! Exiting...\<newline>'' [])
     (or_quit (ethmac_adapt_init B) (pp_printf ''> error initializing Ethernet MAC adapter! Exiting...\<newline>'' [])
     (or_quit int_init (pp_printf ''> error initializing Interrupts! Exiting...\<newline>'' [])
     (ret 0)))))))))"

definition dbe_exit :: "('h mach, int) prog" where
  "dbe_exit = thn gpio_exit (thn uart_exit (thn fmc516_exit (ret 0)))"

definition print_all :: "string list \<Rightarrow> ('h mach, unit) prog" where
  "print_all ts = doall (map (\<lambda>t. pp_printf t []) ts)"

definition print_header :: "('h mach, unit) prog" where
  "print_header = print_all
     [''-------------------------------------------\<newline>'',
      ''|       DBE EXAMPLE APPLICATION           |\<newline>'',
      ''|                                         |\<newline>'',
      ''|  This application aims to demostrate    |\<newline>'',
      ''|  the capabilities of the DBE project    |\<newline>'',
      ''-------------------------------------------\<newline>\<newline>'']"

definition print_end_header :: "('h mach, unit) prog" where
  "print_end_header = print_all
     [''-------------------------------------------\<newline>'',
      ''|       END OF TEST APPLICATION           |\<newline>'',
      ''-------------------------------------------\<newline>\<newline>'']"

definition print_stats :: "'h plat \<Rightarrow> ('h mach, unit) prog" where
  "print_stats B s =
     (case memmgr_print_stats (lay B) (heap s) of
        None \<Rightarrow> None
      | Some (free_pos, left, blks, frees) \<Rightarrow>
          thn (print_all
            [''-------------------------------------------\<newline>'',
             ''|            Memory manager stats         |\<newline>'',
             ''-------------------------------------------\<newline>\<newline>''])
          (thn (pp_printf ''pool: free_pos = %u (%u bytes left)\<newline>\<newline>'' [Num free_pos, Num left])
          (thn (doall (map (\<lambda>(p, z). pp_printf ''   * addr: 0x%8u; size: %8u\<newline>'' [Num (of_nat p), Num z]) blks))
          (thn (pp_printf ''\<newline>free list:\<newline>\<newline>'' [])
          (if freep (heap s) \<noteq> 0
           then doall (map (\<lambda>(p, z, n). pp_printf ''   * addr: 0x%8u; size: %8u; next: 0x%8u\<newline>''
                  [Num (of_nat p), Num z, Num (of_nat n)]) frees)
           else pp_printf ''empty\<newline>'' [])))) s)"

text \<open>
  The string copied to the new block is printed as a format. Releasing a null pointer, when
  the allocation failed, uses the header in front of it.
\<close>

definition memmgr_test :: "'h plat \<Rightarrow> ('h mach, unit) prog" where
  "memmgr_test B =
     bnd (malloc B 100) (\<lambda>p.
     doall
      [print_all
        [''-------------------------------------------\<newline>'',
         ''|            Memory pool test             |\<newline>'',
         ''-------------------------------------------\<newline>\<newline>'',
         ''memmgr_test:\<newline>''],
       if p \<noteq> 0
       then print_all [''> dynamic allocated string with memory pool\<newline>\<newline>'', ''> test passed!\<newline>'']
       else print_all [''> test failed. Could not allocate memory!\<newline>''],
       print_stats B,
       thn (deref p) (mfree p)])"

definition LED_DELAY :: int where "LED_DELAY = 100000000 div 4 div 5"
definition NUM_LEDS :: nat where "NUM_LEDS = 8"
definition NUM_LED_ITER :: nat where "NUM_LED_ITER = 4"
definition TEST_BUTTONS_MASK :: u32 where "TEST_BUTTONS_MASK = 0x00000003"
definition TEST_BUTTONS_TRIES :: nat where "TEST_BUTTONS_TRIES = 10"
definition TEST_BUTTONS_ITER :: nat where "TEST_BUTTONS_ITER = 2"
definition TEST_BUTTONS_DELAY :: int where "TEST_BUTTONS_DELAY = 100000000 div 4 div 5"

definition blink :: "'h plat \<Rightarrow> nat \<Rightarrow> ('h mach, unit) prog" where
  "blink B i = doall [gpio_out B 0 i 1, thn (delay LED_DELAY) (ret ()), gpio_out B 0 i 0]"

definition leds_test :: "'h plat \<Rightarrow> ('h mach, unit) prog" where
  "leds_test B =
     doall
      ([print_all
         [''-------------------------------------------\<newline>'',
          ''|                Leds test                |\<newline>'',
          ''-------------------------------------------\<newline>\<newline>'',
          ''leds_test:\<newline>'',
          ''> blinking leds\<newline>'']] @
       concat (map (\<lambda>j. map (blink B) [0..<NUM_LEDS]) [0..<NUM_LED_ITER]) @
       [gpio_out B 0 0 1, gpio_out B 0 2 1, gpio_out B 0 4 1, gpio_out B 0 6 1,
        pp_printf ''> test passed!\<newline>'' []])"

text \<open>One try: each button not yet pressed is read; both operands of \<^verbatim>\<open>&\<close> are evaluated.\<close>

fun button_scan :: "'h plat \<Rightarrow> nat list \<Rightarrow> u32 \<Rightarrow> ('h mach, u32) prog" where
  "button_scan B [] pressed = ret pressed"
| "button_scan B (j # js) pressed =
     bnd (gpio_in B 1 j) (\<lambda>v.
       if pressed AND push_bit j 1 = 0 \<and> v = 1
       then thn (pp_printf ''button%d pressed!\<newline>'' [Num (of_nat j)])
              (button_scan B js (pressed OR push_bit j 1))
       else button_scan B js pressed)"

text \<open>The tries from number \<open>i\<close> on, of which \<open>n\<close> are left.\<close>

fun button_tries :: "'h plat \<Rightarrow> nat \<Rightarrow> nat \<Rightarrow> u32 \<Rightarrow> ('h mach, unit) prog" where
  "button_tries B i 0 pressed = pp_printf ''> test failed!\<newline>'' []"
| "button_tries B i (Suc n) pressed =
     bnd (button_scan B [0..<TEST_BUTTONS_ITER] pressed) (\<lambda>p.
       if p = TEST_BUTTONS_MASK then pp_printf ''> test passed!\<newline>'' []
       else
         thn (pp_printf ''> remaining time to press buttons: %ds\<newline>'' [Num (of_nat (TEST_BUTTONS_TRIES - i))])
         (thn (delay TEST_BUTTONS_DELAY)
         (button_tries B (Suc i) n p)))"

definition button_test :: "'h plat \<Rightarrow> ('h mach, unit) prog" where
  "button_test B =
     doall
      ([print_all
         [''-------------------------------------------\<newline>'',
          ''|               Button test               |\<newline>'',
          ''-------------------------------------------\<newline>\<newline>'',
          ''buttons_test:\<newline>'',
          ''> press (switch) buttons '']] @
       map (\<lambda>i. pp_printf ''%d, '' [Num (of_nat i)]) [0..<TEST_BUTTONS_ITER - 1] @
       [pp_printf ''%d\<newline>'' [Num (of_nat TEST_BUTTONS_ITER)],
        button_tries B 0 TEST_BUTTONS_TRIES 0])"

definition DEFAULT_FMC516_ID :: u32 where "DEFAULT_FMC516_ID = 0"

text \<open>Five readings of one channel with the pauses between them; the last pause differs.\<close>

definition adc_prints :: "'h plat \<Rightarrow> string \<Rightarrow> nat \<Rightarrow> int \<Rightarrow> ('h mach, unit) prog" where
  "adc_prints B fmt ch last_pause =
     doall (map (\<lambda>pause.
       bnd (fmc516_read_adc B ch DEFAULT_FMC516_ID) (\<lambda>v.
       thn (pp_printf fmt [Num v]) (thn (delay pause) (ret ()))))
      [LED_DELAY + 32, LED_DELAY + 124, LED_DELAY + 1, LED_DELAY, last_pause])"

definition print_fmc516_data :: "'h plat \<Rightarrow> u32 \<Rightarrow> ('h mach, unit) prog" where
  "print_fmc516_data B idx =
     doall
      [adc_prints B ''> ADC data0 %d\<newline>'' 0 (LED_DELAY + 12384),
       adc_prints B ''> ADC data1 %d\<newline>'' 1 (LED_DELAY + 12384),
       adc_prints B ''> ADC data2 %d\<newline>'' 2 (LED_DELAY + 456),
       adc_prints B ''> ADC data3 %d\<newline>'' 3 (LED_DELAY + 79)]"

definition fmc516_test :: "'h plat \<Rightarrow> ('h mach, unit) prog" where
  "fmc516_test B =
     (let adcs = [0..<FMC516_NUM_ISLA216]; num = (\<lambda>i. Num (of_nat i :: u32))
      in doall
          ([print_all
             [''-------------------------------------------\<newline>'',
              ''|                FMC516 test              |\<newline>'',
              ''-------------------------------------------\<newline>\<newline>'',
              ''> FMC516 ADCs info...\<newline>'']] @
           map (\<lambda>i. doall
             [pp_printf ''> FMC516_ISLA216_ADC%d calibration progress...\<newline>'' [num i],
              wait_while (bnd (fmc516_isla216_chkcal_stat B i) (\<lambda>v. ret (v = 0))),
              pp_printf ''done\<newline>'' []]) adcs @
           map (\<lambda>i. bnd (fmc516_isla216_get_chipid B i) (\<lambda>v.
             pp_printf ''> FMC516_ISLA216_ADC%d chip id: %d\<newline>'' [num i, Num v])) adcs @
           map (\<lambda>i. bnd (fmc516_isla216_get_chipver B i) (\<lambda>v.
             pp_printf ''> FMC516_ISLA216_ADC%d chip version: %d\<newline>'' [num i, Num v])) adcs @
           map (\<lambda>i. thn (fmc516_isla216_test_ramp B i)
             (pp_printf ''> FMC516_ISLA216_ADC%d: ramp test enabled!\<newline>'' [num i])) adcs @
           map (\<lambda>i. bnd (fmc516_isla216_read_byte B ISLA216_TESTIO_REG i) (\<lambda>v.
             pp_printf ''> FMC516_ISLA216_ADC%d: testio reg: 0X%8X\<newline>'' [num i, Num v])) adcs @
           [pp_printf ''> initilizing fmc516 delays\<newline>'' [],
            fmc516_sweep_delays B DEFAULT_FMC516_ID,
            pp_printf ''> test finished...\<newline>'' []]))"

section \<open>Main program\<close>

definition ETH0_IRQ :: u32 where "ETH0_IRQ = 0"
definition ETH0_PHY :: u8 where "ETH0_PHY = 0x7"

text \<open>
  \<^verbatim>\<open>main\<close> up to its endless loop, with the result -1 where it returns early and 0 where it enters
  the loop; \<open>body\<close> is the address of \<^verbatim>\<open>hisBody\<close>.
\<close>

definition main_setup :: "'h plat \<Rightarrow> rom \<Rightarrow> u32 \<Rightarrow> ('h mach, int) prog" where
  "main_setup B rom body =
     or_quit board_init (ret ())
     (or_quit (dbe_init B rom) (pp_printf ''> error initializing DBE Board! Exiting...\<newline>'' [])
     (thn (doall
       [print_header,
        memmgr_test B,
        leds_test B,
        button_test B,
        print_end_header,
        thn (int_add ETH0_IRQ Oeth_interrupt 0) (ret ()),
        thn (int_add 2 Button 0) (ret ()),
        ethmac_setup B ETH0_PHY,
        thn (int_add ETH0_IRQ Oeth_interrupt 0) (ret ()),
        thn (ethmac_adapt_set_base B 0 body body) (ret ()),
        thn (int_add 4 Set_eb_done 0) (ret ()),
        msg gen_info ''> waiting for ARP or ICMP request\<newline>'',
        pp_printf ''> waiting for ARP or ICMP request\<newline>'' []])
     (ret 0)))"

text \<open>The two statements of the loop.\<close>

definition poll_arp :: "'h plat \<Rightarrow> (nat \<Rightarrow> u8) \<Rightarrow> ('h mach, unit) prog" where
  "poll_arp B stk =
     bnd (gets sawARP) (\<lambda>saw.
       if saw then thn (msg gen_info ''> saw ARP request\<newline>'') (sendARP B stk) else ret ())"

definition poll_ping :: "'h plat \<Rightarrow> (nat \<Rightarrow> u8) \<Rightarrow> ('h mach, unit) prog" where
  "poll_ping B stk =
     bnd (gets sawPING) (\<lambda>saw.
       if saw then thn (msg gen_info ''> saw PING request\<newline>'') (sendECHO B stk) else ret ())"

text \<open>
  One pass of the endless loop, as it runs when no interrupt comes in between. Interrupts are enabled
  throughout the loop, so a handler may run between any two accesses of a pass; where that matters, a
  statement places the handler explicitly.
\<close>

definition main_pass :: "'h plat \<Rightarrow> (nat \<Rightarrow> u8) \<Rightarrow> ('h mach, unit) prog" where
  "main_pass B stk = thn (poll_arp B stk) (poll_ping B stk)"

end
