(* ===== verification/Dbe_Correct.thy ===== *)
theory Dbe_Correct
  imports Dbe_Main
begin

text \<open>
  The behaviour of the application: what a received frame does, how requests are answered, which
  packets stop or break the firmware, and how interrupts are dispatched to the handlers.
\<close>

section \<open>Reception\<close>

text \<open>The bytes of a frame, and the requests the firmware answers.\<close>

definition slice :: "(nat \<Rightarrow> u8) \<Rightarrow> nat \<Rightarrow> nat \<Rightarrow> u8 list" where
  "slice data i n = map data [i..<i + n]"

definition for_us :: "(nat \<Rightarrow> u8) \<Rightarrow> bool" where
  "for_us data \<longleftrightarrow> slice data 0 6 \<in> {allMAC, myMAC}"

definition arp_request :: "(nat \<Rightarrow> u8) \<Rightarrow> bool" where
  "arp_request data \<longleftrightarrow> for_us data \<and> slice data 12 2 = [8, 6] \<and> slice data 20 2 = [0, 1] \<and> slice data 38 4 = myIP"

definition ip_packet :: "(nat \<Rightarrow> u8) \<Rightarrow> bool" where
  "ip_packet data \<longleftrightarrow> for_us data \<and> slice data 12 2 = [8, 0] \<and> data 14 = 0x45 \<and> slice data 30 4 = myIP"

definition echo_request :: "(nat \<Rightarrow> u8) \<Rightarrow> bool" where
  "echo_request data \<longleftrightarrow> ip_packet data \<and> data 23 = 1 \<and> data 34 = 8"

definition udp_packet :: "(nat \<Rightarrow> u8) \<Rightarrow> bool" where
  "udp_packet data \<longleftrightarrow> ip_packet data \<and> data 23 = 0x11"

lemma slice_eq_iff: "length xs = n \<Longrightarrow> slice data i n = xs \<longleftrightarrow> (\<forall>j<n. data (i + j) = xs ! j)"
  by (auto simp: slice_def list_eq_iff_nth_eq)

lemma memcmp_slice: "length xs = n \<Longrightarrow> memcmp (bytes_from data i) (\<lambda>j. xs ! j) n = 0 \<longleftrightarrow> slice data i n = xs"
  by (simp add: memcmp_eq bytes_from_def slice_eq_iff)

lemma memcmp_slice0: "length xs = n \<Longrightarrow> memcmp data (\<lambda>j. xs ! j) n = 0 \<longleftrightarrow> slice data 0 n = xs"
  by (simp add: memcmp_eq slice_eq_iff)

lemma slice_two: "slice data i 2 = [a, b] \<longleftrightarrow> data i = a \<and> data (i + 1) = b"
  by (simp add: slice_def upt_rec)

lemma allMAC_length: "length allMAC = 6"
  by (simp add: allMAC_def)

lemma is_arp_request_iff:
  "is_arp_request data \<longleftrightarrow> slice data 12 2 = [8, 6] \<and> slice data 20 2 = [0, 1] \<and> slice data 38 4 = myIP"
  unfolding is_arp_request_def memcmp_slice[OF my_lengths(2)] by (auto simp: slice_two proto_defs)

lemma is_our_ip_iff:
  "is_our_ip data \<longleftrightarrow> slice data 12 2 = [8, 0] \<and> data 14 = 0x45 \<and> slice data 30 4 = myIP"
  unfolding is_our_ip_def memcmp_slice[OF my_lengths(2)] by (auto simp: slice_two proto_defs)

lemma array_trace_off: "DBE_DEBUG_ARRAY eth_trace fmt data n = ret ()"
  by (simp add: DBE_DEBUG_ARRAY_def DBG_ETH_def DBE_DBG_TRACE_def DBE_DBG_INFO_def DBG_MIN_LEVEL_def
      DBE_DBG_MASK_def)

lemma user_recv_eq:
  "user_recv B data len =
     (if for_us data
      then thn (recv_arp data) (if is_our_ip data then thn (recv_icmp data) (recv_udp B data) else ret ())
      else ret ())"
proof -
  have us: "(memcmp data (\<lambda>i. allMAC ! i) 6 \<noteq> 0 \<and> memcmp data (\<lambda>i. myMAC ! i) 6 \<noteq> 0) = (\<not> for_us data)"
    unfolding memcmp_slice0[OF allMAC_length] memcmp_slice0[OF my_lengths(1)] for_us_def by simp
  have e: "thn p (ret ()) = p" for p :: "('a mach, unit) prog"
    by (auto simp: thn_def bnd_def fun_eq_iff split: option.splits sum.splits)
  show ?thesis
    unfolding user_recv_def us eth_trace_off array_trace_off doall.simps thn_ret e by (rule ext) simp
qed

lemma copy_to_run:
  "g s = a \<Longrightarrow> memcpy a off src n = Some a' \<Longrightarrow> copy_to g st off src n s = Some (Inr ((), st a' s))"
  by (simp add: copy_to_def bnd_def or_overrun_def)

lemma copy_slice:
  assumes "unat n = k" "length a = k"
  shows "memcpy a 0 (bytes_from data i) n = Some (slice data i k)"
proof -
  have "map (bytes_from data i) [0..<k] = slice data i k"
    by (auto simp: slice_def bytes_from_def list_eq_iff_nth_eq)
  then show ?thesis using memcpy_some[of 0 n a "bytes_from data i"] assms by simp
qed

text \<open>The arrays of the network code keep their sizes.\<close>

definition net_ok :: "'h mach \<Rightarrow> bool" where
  "net_ok s \<longleftrightarrow> length (hisMAC s) = 6 \<and> length (hisIP s) = 4 \<and> length (hisBody s) = 1516 \<and>
     - 24 \<le> hisBodyLen s \<and> hisBodyLen s \<le> 65511"

lemma recv_arp_run:
  assumes "net_ok s"
  shows "recv_arp data s = Some (Inr ((),
    if is_arp_request data
    then s\<lparr>sawARP := True, hisMAC := slice data 22 6, hisIP := slice data 28 4\<rparr> else s))"
proof (cases "is_arp_request data")
  case True
  have m: "to_hisMAC 0 (bytes_from data 22) 6 (s\<lparr>sawARP := True\<rparr>)
      = Some (Inr ((), s\<lparr>sawARP := True, hisMAC := slice data 22 6\<rparr>))"
    by (rule copy_to_run[OF _ copy_slice[of 6 6 "hisMAC s" data 22], THEN trans])
      (use assms in \<open>simp_all add: net_ok_def\<close>)
  have i: "to_hisIP 0 (bytes_from data 28) 4 (s\<lparr>sawARP := True, hisMAC := slice data 22 6\<rparr>)
      = Some (Inr ((), s\<lparr>sawARP := True, hisMAC := slice data 22 6, hisIP := slice data 28 4\<rparr>))"
    by (rule copy_to_run[OF _ copy_slice[of 4 4 "hisIP s" data 28], THEN trans])
      (use assms in \<open>simp_all add: net_ok_def\<close>)
  have "doall
         [modify (\<lambda>s. s\<lparr>sawARP := True\<rparr>),
          to_hisMAC 0 (bytes_from data 22) 6,
          to_hisIP 0 (bytes_from data 28) 4, ret ()] s
      = Some (Inr ((), s\<lparr>sawARP := True, hisMAC := slice data 22 6, hisIP := slice data 28 4\<rparr>))"
    by (rule doall_runs, rule modify_run, rule doall_runs, rule m, rule doall_runs, rule i) simp
  then show ?thesis using True unfolding recv_arp_def eth_trace_off by (simp add: proto_defs)
qed (simp add: recv_arp_def eth_trace_off)

lemma ip_len_eq: "ip_len data = uint (data 16) * 256 + uint (data 17)"
  by (simp add: ip_len_def proto_defs)

lemma ip_len_range: "0 \<le> ip_len data" "ip_len data \<le> 65535"
  using unsigned_less[of "data 16", where 'a = int] unsigned_less[of "data 17", where 'a = int]
  unfolding ip_len_eq by simp_all

lemma fits_body:
  assumes "- 24 \<le> n" "n \<le> 65511"
  shows "(word_of_int n :: u32) \<le> 1516 \<longleftrightarrow> 0 \<le> n \<and> n \<le> 1516"
proof (cases "n < 0")
  case True
  have "n mod 4294967296 = n + 4294967296"
    using mod_add_self2[of n 4294967296] mod_pos_pos_trivial[of "n + 4294967296" 4294967296] assms True by simp
  then show ?thesis using assms True by (simp add: word_le_nat_alt unsigned_of_int take_bit_eq_mod)
next
  case False
  then show ?thesis using assms by (simp add: word_le_nat_alt unsigned_of_int take_bit_eq_mod nat_le_iff)
qed

lemma unat_body: "0 \<le> n \<Longrightarrow> n \<le> 65535 \<Longrightarrow> unat (word_of_int n :: u32) = nat n"
  by (simp add: unsigned_of_int take_bit_eq_mod)

lemma copy_part:
  assumes "unat n = k" "k \<le> length a"
  shows "memcpy a 0 (bytes_from data i) n = Some (slice data i k @ drop k a)"
proof -
  have "map (bytes_from data i) [0..<k] = slice data i k"
    by (auto simp: slice_def bytes_from_def list_eq_iff_nth_eq)
  then show ?thesis using memcpy_some[of 0 n a "bytes_from data i"] assms by simp
qed

lemma recv_icmp_run:
  assumes "net_ok s" "data 23 = 1" "data 34 = 8" and n: "n = ip_len data - 24"
  shows "recv_icmp data s = Some (Inr ((),
    if 0 \<le> n \<and> n \<le> 1516
    then s\<lparr>hisBodyLen := n, sawPING := True, hisMAC := slice data 6 6, hisIP := slice data 26 4,
           hisBody := slice data 38 (nat n) @ drop (nat n) (hisBody s)\<rparr>
    else s\<lparr>hisBodyLen := n\<rparr>))"
proof -
  have r: "- 24 \<le> n" "n \<le> 65511" using ip_len_range[of data] n by simp_all
  have start: "recv_icmp data s = (if 0 \<le> n \<and> n \<le> 1516 then
      doall
       [modify (\<lambda>s. s\<lparr>sawPING := True\<rparr>),
        to_hisMAC 0 (bytes_from data 6) 6,
        to_hisIP 0 (bytes_from data 26) 4,
        to_hisBody 0 (bytes_from data 38) (word_of_int n),
        ret ()]
      else ret ()) (s\<lparr>hisBodyLen := n\<rparr>)"
    using assms(2,3) fits_body[OF r] unfolding recv_icmp_def n[symmetric] eth_trace_off
    by (simp add: thn_def bnd_def proto_defs del: doall.simps)
  show ?thesis
  proof (cases "0 \<le> n \<and> n \<le> 1516")
    case True
    let ?s = "s\<lparr>hisBodyLen := n, sawPING := True\<rparr>"
    have m: "to_hisMAC 0 (bytes_from data 6) 6 ?s = Some (Inr ((), ?s\<lparr>hisMAC := slice data 6 6\<rparr>))"
      by (rule copy_to_run[OF _ copy_slice[of 6 6 "hisMAC s"]]) (use assms in \<open>simp_all add: net_ok_def\<close>)
    let ?s2 = "?s\<lparr>hisMAC := slice data 6 6\<rparr>"
    have i: "to_hisIP 0 (bytes_from data 26) 4 ?s2 = Some (Inr ((), ?s2\<lparr>hisIP := slice data 26 4\<rparr>))"
      by (rule copy_to_run[OF _ copy_slice[of 4 4 "hisIP s"]]) (use assms in \<open>simp_all add: net_ok_def\<close>)
    let ?s3 = "?s2\<lparr>hisIP := slice data 26 4\<rparr>"
    have b: "to_hisBody 0 (bytes_from data 38) (word_of_int n) ?s3
        = Some (Inr ((), ?s3\<lparr>hisBody := slice data 38 (nat n) @ drop (nat n) (hisBody s)\<rparr>))"
      by (rule copy_to_run[OF _ copy_part[of _ "nat n" "hisBody s"]])
        (use assms(1) True unat_body[of n] in \<open>simp_all add: net_ok_def nat_le_iff\<close>)
    have "doall
       [modify (\<lambda>s. s\<lparr>sawPING := True\<rparr>),
        to_hisMAC 0 (bytes_from data 6) 6,
        to_hisIP 0 (bytes_from data 26) 4,
        to_hisBody 0 (bytes_from data 38) (word_of_int n),
        ret ()] (s\<lparr>hisBodyLen := n\<rparr>)
      = Some (Inr ((), ?s3\<lparr>hisBody := slice data 38 (nat n) @ drop (nat n) (hisBody s)\<rparr>))"
      by (rule doall_runs, rule modify_run, rule doall_runs, rule m, rule doall_runs, rule i, rule doall_runs,
          rule b) simp
    then show ?thesis unfolding start if_P[OF True] .
  next
    case False
    show ?thesis unfolding start if_not_P[OF False] by (rule ret_run)
  qed
qed

lemma recv_icmp_skip: "data 23 \<noteq> 1 \<or> data 34 \<noteq> 8 \<Longrightarrow> recv_icmp data = ret ()"
  by (auto simp: recv_icmp_def eth_trace_off proto_defs)

lemma recv_udp_skip: "data 23 \<noteq> 0x11 \<Longrightarrow> recv_udp B data = ret ()"
  by (simp add: recv_udp_def eth_trace_off proto_defs)

lemma request_parts:
  "arp_request data \<longleftrightarrow> for_us data \<and> is_arp_request data"
  "ip_packet data \<longleftrightarrow> for_us data \<and> is_our_ip data"
  by (auto simp: arp_request_def ip_packet_def is_arp_request_iff is_our_ip_iff)

lemma arp_not_ip: "is_arp_request data \<Longrightarrow> \<not> is_our_ip data"
  by (auto simp: is_arp_request_iff is_our_ip_iff)

lemma net_ok_arp: "net_ok s \<Longrightarrow> net_ok (s\<lparr>sawARP := b, hisMAC := slice data i 6, hisIP := slice data j 4\<rparr>)"
  by (simp add: net_ok_def slice_def)

lemma user_recv_arp:
  assumes "net_ok s" "arp_request data"
  shows "user_recv B data len s
    = Some (Inr ((), s\<lparr>sawARP := True, hisMAC := slice data 22 6, hisIP := slice data 28 4\<rparr>))"
proof -
  have a: "for_us data" "is_arp_request data" "\<not> is_our_ip data"
    using assms(2) arp_not_ip by (auto simp: request_parts)
  show ?thesis
    unfolding user_recv_eq using a recv_arp_run[OF assms(1), of data] by (simp add: thn_def bnd_def)
qed

lemma user_recv_echo:
  assumes "net_ok s" "echo_request data" and n: "n = ip_len data - 24"
  shows "user_recv B data len s = Some (Inr ((),
    if 0 \<le> n \<and> n \<le> 1516
    then s\<lparr>hisBodyLen := n, sawPING := True, hisMAC := slice data 6 6, hisIP := slice data 26 4,
           hisBody := slice data 38 (nat n) @ drop (nat n) (hisBody s)\<rparr>
    else s\<lparr>hisBodyLen := n\<rparr>))"
proof -
  have e: "for_us data" "\<not> is_arp_request data" "is_our_ip data" "data 23 = 1" "data 34 = 8"
    using assms(2) arp_not_ip by (auto simp: echo_request_def request_parts)
  have u: "recv_udp B data = ret ()" using e by (simp add: recv_udp_skip)
  show ?thesis
    unfolding user_recv_eq using e(1,2,3) recv_arp_run[OF assms(1), of data] recv_icmp_run[OF assms(1) e(4,5) n]
    by (simp add: thn_def bnd_def u)
qed

lemma user_recv_other:
  assumes "net_ok s" "\<not> arp_request data" "\<not> echo_request data" "\<not> udp_packet data"
  shows "user_recv B data len s = Some (Inr ((), s))"
proof (cases "for_us data")
  case True
  then have a: "\<not> is_arp_request data" using assms(2) by (simp add: request_parts)
  show ?thesis
  proof (cases "is_our_ip data")
    case ip: True
    then have "recv_icmp data = (ret () :: ('a mach, unit) prog)" "recv_udp B data = ret ()"
      using True assms(3,4) by (auto simp: echo_request_def udp_packet_def request_parts intro: recv_icmp_skip recv_udp_skip)
    then show ?thesis
      unfolding user_recv_eq using True a ip recv_arp_run[OF assms(1), of data]
      by (auto simp: thn_def bnd_def dest: fun_cong)
  next
    case False
    then show ?thesis
      unfolding user_recv_eq using True a recv_arp_run[OF assms(1), of data] by (simp add: thn_def bnd_def)
  qed
qed (simp add: user_recv_eq)

lemma recv_udp_hangs:
  assumes "net_ok s" "handle s Ethmac_Adapt \<noteq> 0" "data 23 = 0x11" "ip_len data \<le> 1500"
  shows "recv_udp B data s = None"
proof -
  have l: "length (hisBody s) = 1516" using assms(1) by (simp add: net_ok_def)
  have c1: "to_hisBody 0 data 14 s = Some (Inr ((), s\<lparr>hisBody := map data [0..<14] @ drop 14 (hisBody s)\<rparr>))"
    by (rule copy_to_run[OF refl]) (use l memcpy_some[of 0 14 "hisBody s" data] in simp)
  let ?s1 = "s\<lparr>hisBody := map data [0..<14] @ drop 14 (hisBody s)\<rparr>"
  have u: "unat (word_of_int (ip_len data) :: u32) = nat (ip_len data)"
    using ip_len_range[of data] by (simp add: unat_body)
  obtain b2 where m: "memcpy (hisBody ?s1) 16 (bytes_from data 14) (word_of_int (ip_len data)) = Some b2"
    using memcpy_some[of 16 "word_of_int (ip_len data)" "hisBody ?s1" "bytes_from data 14"] l u assms(4) by auto
  have c2: "to_hisBody 16 (bytes_from data 14) (word_of_int (ip_len data)) ?s1 = Some (Inr ((), ?s1\<lparr>hisBody := b2\<rparr>))"
    using copy_to_run[where g = hisBody and s = ?s1, OF refl m] .
  let ?s3 = "?s1\<lparr>hisBody := b2\<rparr>\<lparr>eb_done := False\<rparr>"
  have h3: "handle ?s3 Ethmac_Adapt \<noteq> 0" using assms(2) by simp
  obtain h es where c4: "thn (ethmac_adapt_set_length B 0 (word_of_int (ip_len data + 16))) (ret ()) ?s3
      = Some (Inr ((), talk h es [] ?s3))"
    using h3 by (auto simp: ethmac_adapt_set_length_def bnd_def thn_def dev_base_run wr_run on_bus_talk)
  obtain h' es' where c5: "thn (ethmac_adapt_go B 0) (ret ()) (talk h es [] ?s3)
      = Some (Inr ((), talk h' es' [] (talk h es [] ?s3)))"
    using h3 by (auto simp: ethmac_adapt_go_def bnd_def thn_def dev_base_run wr_run on_bus_talk)
  have w: "wait_while (gets (\<lambda>s. \<not> eb_done s)) (talk h' es' [] (talk h es [] ?s3)) = None"
    by (rule wait_stuck) simp
  have none: "doall (p # ps) t = None" if "p t = None" for p ps and t :: "'a mach"
    using that by (simp add: thn_def bnd_def)
  show ?thesis
    unfolding recv_udp_def
    by (subst if_P, use assms(3) in \<open>simp add: proto_defs\<close>)
      (rule doall_runs, rule c1, rule doall_runs, rule c2, rule doall_runs, rule modify_run, rule doall_runs,
       rule c4, rule doall_runs, rule c5, rule none, rule w)
qed

section \<open>Requests and replies\<close>

text \<open>
  The abstract view: who asked last, whether an ARP reply is due, and the body of the echo
  request to be answered.
\<close>

record net =
  peer :: "u8 list \<times> u8 list"
  arp_due :: bool
  ping :: "u8 list option"

definition abs_net :: "'h mach \<Rightarrow> net" where
  "abs_net s = \<lparr>peer = (hisMAC s, hisIP s), arp_due = sawARP s,
     ping = (if sawPING s then Some (take (nat (hisBodyLen s)) (hisBody s)) else None)\<rparr>"

definition spec_recv :: "(nat \<Rightarrow> u8) \<Rightarrow> net \<Rightarrow> net" where
  "spec_recv data n =
     (if arp_request data then n\<lparr>arp_due := True, peer := (slice data 22 6, slice data 28 4)\<rparr>
      else if echo_request data
      then n\<lparr>ping := Some (slice data 38 (nat (ip_len data - 24))), peer := (slice data 6 6, slice data 26 4)\<rparr>
      else n)"

lemma arp_not_echo: "arp_request data \<Longrightarrow> \<not> echo_request data"
  using arp_not_ip by (auto simp: request_parts echo_request_def)

lemma slice_length [simp]: "length (slice data i n) = n"
  by (simp add: slice_def)

lemma user_recv_spec:
  assumes "net_ok s" "\<not> udp_packet data"
    and "echo_request data \<Longrightarrow> 24 \<le> ip_len data \<and> ip_len data \<le> 1540"
  shows "\<exists>t. user_recv B data len s = Some (Inr ((), t)) \<and> abs_net t = spec_recv data (abs_net s) \<and>
    net_ok t \<and> trace t = trace s \<and> hw t = hw s"
proof -
  consider (arp) "arp_request data" "\<not> echo_request data" | (echo) "echo_request data" "\<not> arp_request data"
    | (other) "\<not> arp_request data" "\<not> echo_request data"
    using arp_not_echo by blast
  then show ?thesis
  proof cases
    case arp
    then show ?thesis
      using user_recv_arp[OF assms(1) arp(1), of B len] assms(1)
      by (simp add: abs_net_def spec_recv_def net_ok_def)
  next
    case echo
    define n where "n = ip_len data - 24"
    have n: "0 \<le> n" "n \<le> 1516" using assms(3) echo by (auto simp: n_def)
    have "user_recv B data len s = Some (Inr ((),
        s\<lparr>hisBodyLen := n, sawPING := True, hisMAC := slice data 6 6, hisIP := slice data 26 4,
          hisBody := slice data 38 (nat n) @ drop (nat n) (hisBody s)\<rparr>))"
      using user_recv_echo[OF assms(1) echo(1) n_def, of B len] n by simp
    then show ?thesis
      using assms(1) echo n by (simp add: abs_net_def spec_recv_def net_ok_def n_def[symmetric])
  next
    case other
    then show ?thesis
      using user_recv_other[OF assms(1) other assms(2), of B len] assms(1) by (simp add: spec_recv_def)
  qed
qed

text \<open>
  C6 (refinement). On every frame that is not a UDP packet for this host, \<^verbatim>\<open>user_recv\<close> returns without using
  the bus and changes at most the variables that describe the peer and its request. An echo request whose
  length field is below 24 or above 1540 is rejected, but its length less 24 is left in \<^verbatim>\<open>hisBodyLen\<close>; on every
  other frame the routine does what the abstract receiver does: an ARP request for our address or an echo
  request records the peer, and the latter also its body. A frame that is none of these changes nothing.
\<close>

theorem user_recv_refines:
  assumes "net_ok s" "\<not> udp_packet data"
  shows "\<exists>t. user_recv B data len s = Some (Inr ((), t)) \<and> net_ok t \<and>
    t = s\<lparr>hisMAC := hisMAC t, hisIP := hisIP t, sawARP := sawARP t, sawPING := sawPING t,
          hisBodyLen := hisBodyLen t, hisBody := hisBody t\<rparr> \<and>
    (if echo_request data \<and> (ip_len data < 24 \<or> 1540 < ip_len data) then t = s\<lparr>hisBodyLen := ip_len data - 24\<rparr>
     else if arp_request data \<or> echo_request data then abs_net t = spec_recv data (abs_net s)
     else t = s)"
proof -
  consider (arp) "arp_request data" "\<not> echo_request data" | (echo) "echo_request data" "\<not> arp_request data"
    | (other) "\<not> arp_request data" "\<not> echo_request data"
    using arp_not_echo by blast
  then show ?thesis
  proof cases
    case arp
    then show ?thesis
      using user_recv_arp[OF assms(1) arp(1), of B len] assms(1)
      by (simp add: abs_net_def spec_recv_def net_ok_def)
  next
    case echo
    define n where "n = ip_len data - 24"
    have n: "- 24 \<le> n" "n \<le> 65511" "(ip_len data < 24 \<or> 1540 < ip_len data) = (n < 0 \<or> 1516 < n)"
      using ip_len_range[of data] by (auto simp: n_def)
    show ?thesis
      using user_recv_echo[OF assms(1) echo(1) n_def, of B len] assms(1) echo n
      by (auto simp: abs_net_def spec_recv_def net_ok_def n_def[symmetric])
  next
    case other
    then show ?thesis
      using user_recv_other[OF assms(1) other assms(2), of B len] assms(1) by simp
  qed
qed

lemma msg_gen_info: "msg gen_info t s = Some (Inr ((), talk (hw s) [] [(t, [])] s))"
  by (simp add: DBE_DEBUG_def DBG_ETH_def DBE_DBG_INFO_def DBG_SUBSYS_ON_def DBG_MIN_LEVEL_def
      DBE_DBG_MASK_def DBG_GENERIC_def DBG_GPIO_def DBG_SPI_def DBG_UART_def DBG_I2C_def DBG_OWR_def
      bnd_def pp_printf_def talk_def)

lemma poll_arp_run: "sawARP s \<Longrightarrow> poll_arp B stk s = sendARP B stk (talk (hw s) [] [(''> saw ARP request\<newline>'', [])] s)"
  unfolding poll_arp_def by (rule bnd_runs, rule gets_run, subst if_P, assumption, rule thn_runs, rule msg_gen_info, rule refl)

lemma poll_ping_run: "sawPING s \<Longrightarrow> poll_ping B stk s = sendECHO B stk (talk (hw s) [] [(''> saw PING request\<newline>'', [])] s)"
  unfolding poll_ping_def by (rule bnd_runs, rule gets_run, subst if_P, assumption, rule thn_runs, rule msg_gen_info, rule refl)

text \<open>
  C7 (functional). An ARP request for our address is answered by the next pass of the main loop, when the driver
  is set up and the next transmit descriptor is free (its interrupt flag, which the driver's handler clears
  after a transmission, reads as clear): the bytes put in the transmit buffer are the reply of 42 bytes, sent to the hardware address of the
  sender with our own addresses as source, whatever the stack held before; and no further
  reply is due.
\<close>

theorem arp_answered:
  assumes "net_ok s" "arp_request data" "tx_ready B s"
  shows "\<exists>t es. thn (user_recv B data len) (poll_arp B stk) s = Some (Inr ((), t)) \<and> \<not> sawARP t \<and>
    trace t = trace s @ es \<and> tx_bytes es = arp_reply (slice data 22 6) (slice data 28 4)"
proof -
  let ?s = "s\<lparr>sawARP := True, hisMAC := slice data 22 6, hisIP := slice data 28 4\<rparr>"
  let ?m = "talk (hw ?s) [] [(''> saw ARP request\<newline>'', [])] ?s"
  have r: "user_recv B data len s = Some (Inr ((), ?s))" by (rule user_recv_arp[OF assms(1,2)])
  have rdy: "tx_ready B ?m" using assms(3) by (simp add: tx_ready_def tx_bd_of_def)
  have ok: "length (hisMAC ?m) = 6" "length (hisIP ?m) = 4" by simp_all
  obtain h es cs where a: "sendARP B stk ?m = Some (Inr ((),
      (talk h es cs ?m)\<lparr>next_tx_buf_num := (next_tx_buf_num ?m + 1) mod 8, sawARP := False\<rparr>))"
    "tx_bytes es = arp_reply (hisMAC ?m) (hisIP ?m)"
    by (rule sendARP_run[OF rdy ok])
  have p: "poll_arp B stk ?s = sendARP B stk ?m" by (rule poll_arp_run) simp
  have t: "thn (user_recv B data len) (poll_arp B stk) s = Some (Inr ((),
      (talk h es cs ?m)\<lparr>next_tx_buf_num := (next_tx_buf_num ?m + 1) mod 8, sawARP := False\<rparr>))"
    by (rule thn_runs, rule r, unfold p, rule a(1))
  have b: "tx_bytes es = arp_reply (slice data 22 6) (slice data 28 4)" unfolding a(2) by simp
  show ?thesis by (rule exI, rule exI[of _ es], intro conjI, rule t) (simp_all add: b talk_def)
qed

text \<open>
  C8 (functional). An echo request for our address with a body of at most 462 bytes is answered by the next
  pass of the main loop, when the driver is set up and the next transmit descriptor is free: the reply goes
  back to the sender with the same body, and both its checksums verify at the receiver, which appends a zero
  byte to a message of odd length.
\<close>

theorem echo_answered:
  assumes "net_ok s" "echo_request data" "tx_ready B s" "24 \<le> ip_len data" "ip_len data \<le> 486"
  shows "\<exists>t es c k. thn (user_recv B data len) (poll_ping B stk) s = Some (Inr ((), t)) \<and> \<not> sawPING t \<and>
    trace t = trace s @ es \<and> length c = 2 \<and> length k = 2 \<and>
    tx_bytes es = echo_reply (slice data 6 6) (slice data 26 4) (slice data 38 (nat (ip_len data - 24))) c k \<and>
    ipv4_checksum (shorts_at (tx_bytes es) 14) 10 = 0 \<and>
    ipv4_checksum (shorts_at (if odd (ip_len data) then tx_bytes es @ [0] else tx_bytes es) 34) ((ip_len data - 19) div 2) = 0"
proof -
  define n where "n = ip_len data - 24"
  have n: "0 \<le> n" "n \<le> 462" "(ip_len data - 19) div 2 = (n + 5) div 2" "odd (ip_len data) = odd n"
    using assms(4,5) by (simp_all add: n_def)
  let ?s = "s\<lparr>hisBodyLen := n, sawPING := True, hisMAC := slice data 6 6, hisIP := slice data 26 4,
      hisBody := slice data 38 (nat n) @ drop (nat n) (hisBody s)\<rparr>"
  let ?m = "talk (hw ?s) [] [(''> saw PING request\<newline>'', [])] ?s"
  have r: "user_recv B data len s = Some (Inr ((), ?s))"
    using user_recv_echo[OF assms(1,2) n_def, of B len] n by simp
  have rdy: "tx_ready B ?m" using assms(3) by (simp add: tx_ready_def tx_bd_of_def)
  have ok: "length (hisMAC ?m) = 6" "length (hisIP ?m) = 4" "0 \<le> hisBodyLen ?m" "hisBodyLen ?m \<le> 462"
    "nat (hisBodyLen ?m) \<le> length (hisBody ?m)"
    using n assms(1) by (simp_all add: net_ok_def)
  obtain h es cs c k where a: "sendECHO B stk ?m = Some (Inr ((),
      (talk h es cs ?m)\<lparr>next_tx_buf_num := (next_tx_buf_num ?m + 1) mod 8, sawPING := False\<rparr>))"
    "tx_bytes es = echo_reply (hisMAC ?m) (hisIP ?m) (take (nat (hisBodyLen ?m)) (hisBody ?m)) c k"
    "length c = 2" "length k = 2" "ipv4_checksum (shorts_at (tx_bytes es) 14) 10 = 0"
    "ipv4_checksum (shorts_at (if odd (hisBodyLen ?m) then tx_bytes es @ [0] else tx_bytes es) 34) ((hisBodyLen ?m + 5) div 2) = 0"
    by (rule sendECHO_run[OF rdy ok])
  have p: "poll_ping B stk ?s = sendECHO B stk ?m" by (rule poll_ping_run) simp
  have t: "thn (user_recv B data len) (poll_ping B stk) s = Some (Inr ((),
      (talk h es cs ?m)\<lparr>next_tx_buf_num := (next_tx_buf_num ?m + 1) mod 8, sawPING := False\<rparr>))"
    by (rule thn_runs, rule r, unfold p, rule a(1))
  have b: "tx_bytes es = echo_reply (slice data 6 6) (slice data 26 4) (slice data 38 (nat n)) c k"
    unfolding a(2) by simp
  have k: "ipv4_checksum (shorts_at (if odd n then tx_bytes es @ [0] else tx_bytes es) 34) ((n + 5) div 2) = 0" using a(6) by simp
  show ?thesis
    unfolding n(3,4) n_def[symmetric]
    by (rule exI, rule exI[of _ es], rule exI[of _ c], rule exI[of _ k], intro conjI, rule t, goal_cases)
      (rule a(3) a(4) a(5) b k | simp add: talk_def)+
qed

section \<open>What goes wrong\<close>

lemma net_ok_range: "net_ok s \<Longrightarrow> hisBodyLen s < 2 ^ 31 \<and> - (2 ^ 31) \<le> hisBodyLen s"
  by (simp add: net_ok_def)

lemma poll_ping_overruns:
  assumes "sawPING s" "462 < hisBodyLen s \<or> hisBodyLen s < 0" "net_ok s"
  shows "poll_ping B stk s = Some (Inl BufferOverrun)"
proof -
  let ?m = "talk (hw s) [] [(''> saw PING request\<newline>'', [])] s"
  have "echo_frame stk mac ip body (hisBodyLen s) = None" for mac ip body
    using assms(2) net_ok_range[OF assms(3)] by (intro echo_frame_overrun) simp_all
  then have "sendECHO B stk ?m = Some (Inl BufferOverrun)"
    unfolding sendECHO_def
    by (intro thn_runs[OF pp_printf_talk] bnd_runs[OF gets_run]) (simp add: or_overrun_def bnd_def)
  then show ?thesis using poll_ping_run[OF assms(1)] by simp
qed

text \<open>
  C34 (bounds). An echo request whose length field is below 24 or above 486 makes the main loop overrun the
  packet of \<^verbatim>\<open>sendECHO\<close> when a reply is due: its length is recorded even if the request is
  rejected, so one malformed packet between a valid request and its reply is enough, and a
  request with a body of 463 to 1516 bytes is accepted and does it alone.
\<close>

theorem echo_length_overruns:
  assumes "net_ok s" "echo_request data" "ip_len data < 24 \<or> 486 < ip_len data"
    and "sawPING s \<or> 24 \<le> ip_len data \<and> ip_len data \<le> 1540"
  shows "thn (user_recv B data len) (poll_ping B stk) s = Some (Inl BufferOverrun)"
proof -
  define n where "n = ip_len data - 24"
  define t where "t = (if 0 \<le> n \<and> n \<le> 1516
    then s\<lparr>hisBodyLen := n, sawPING := True, hisMAC := slice data 6 6, hisIP := slice data 26 4,
           hisBody := slice data 38 (nat n) @ drop (nat n) (hisBody s)\<rparr>
    else s\<lparr>hisBodyLen := n\<rparr>)"
  have r: "user_recv B data len s = Some (Inr ((), t))"
    unfolding t_def by (rule user_recv_echo[OF assms(1,2) n_def])
  have "sawPING t" "462 < hisBodyLen t \<or> hisBodyLen t < 0" "net_ok t"
    using assms ip_len_range[of data] by (auto simp: t_def net_ok_def n_def)
  then have "poll_ping B stk t = Some (Inl BufferOverrun)" by (rule poll_ping_overruns)
  then show ?thesis using r by (simp add: thn_def bnd_def)
qed

lemma recv_udp_overruns:
  assumes "net_ok s" "data 23 = 0x11" "1500 < ip_len data"
  shows "recv_udp B data s = Some (Inl BufferOverrun)"
proof -
  have l: "length (hisBody s) = 1516" using assms(1) by (simp add: net_ok_def)
  have c1: "to_hisBody 0 data 14 s = Some (Inr ((), s\<lparr>hisBody := map data [0..<14] @ drop 14 (hisBody s)\<rparr>))"
    by (rule copy_to_run[OF refl]) (use l memcpy_some[of 0 14 "hisBody s" data] in simp)
  let ?s1 = "s\<lparr>hisBody := map data [0..<14] @ drop 14 (hisBody s)\<rparr>"
  have u: "unat (word_of_int (ip_len data) :: u32) = nat (ip_len data)"
    using ip_len_range[of data] by (simp add: unat_body)
  have "memcpy (hisBody ?s1) 16 (bytes_from data 14) (word_of_int (ip_len data)) = None"
    using l u assms(3) by (intro memcpy_none) simp_all
  then have c2: "to_hisBody 16 (bytes_from data 14) (word_of_int (ip_len data)) ?s1 = Some (Inl BufferOverrun)"
    by (simp add: copy_to_def bnd_def or_overrun_def)
  have stop: "doall (p # ps) t = Some (Inl e)" if "p t = Some (Inl e)" for p ps e and t :: "'a mach"
    using that by (simp add: thn_def bnd_def)
  show ?thesis
    unfolding recv_udp_def
    by (subst if_P, use assms(2) in \<open>simp add: proto_defs\<close>) (rule doall_runs, rule c1, rule stop, rule c2)
qed

text \<open>
  C35 (termination). A UDP packet for our address whose length field is at most 1500 stops the firmware: the
  receive routine passes it to the Etherbone slave and waits for a variable that only another
  interrupt handler sets. It runs as an interrupt handler itself, so it never returns; and a
  larger length field overruns the body buffer.
\<close>

theorem udp_never_returns:
  assumes "net_ok s" "udp_packet data" "handle s Ethmac_Adapt \<noteq> 0"
  shows "user_recv B data len s = (if ip_len data \<le> 1500 then None else Some (Inl BufferOverrun))"
proof -
  have d: "for_us data" "is_our_ip data" "\<not> is_arp_request data" "data 23 = 0x11"
    using assms(2) arp_not_ip by (auto simp: udp_packet_def request_parts)
  have i: "recv_icmp data = (ret () :: ('a mach, unit) prog)" using d(4) by (simp add: recv_icmp_skip)
  have e: "user_recv B data len s = recv_udp B data s"
    unfolding user_recv_eq using d(1,2,3) recv_arp_run[OF assms(1), of data]
    by (simp add: i thn_def bnd_def)
  show ?thesis
  proof (cases "ip_len data \<le> 1500")
    case True
    then show ?thesis using e recv_udp_hangs[of s data B, OF assms(1,3) d(4)] by simp
  next
    case False
    then show ?thesis using e recv_udp_overruns[of s data B, OF assms(1) d(4)] by simp
  qed
qed

text \<open>
  Interrupts are enabled while a reply is sent. The last statement of \<^verbatim>\<open>sendARP\<close> clears \<^verbatim>\<open>sawARP\<close>; \<open>arp_send\<close> is
  all that comes before it.
\<close>

definition arp_send :: "'h plat \<Rightarrow> (nat \<Rightarrow> u8) \<Rightarrow> ('h mach, unit) prog" where
  "arp_send B stk =
     thn (pp_printf ''> sending ARP packet\<newline>'' [])
     (bnd (gets (\<lambda>s. arp_frame stk (hisMAC s) (hisIP s))) (\<lambda>r.
     bnd (or_overrun r) (\<lambda>buf. tx_packet B buf (int ARP_END))))"

lemma sendARP_split: "sendARP B stk = thn (arp_send B stk) (modify (\<lambda>s. s\<lparr>sawARP := False\<rparr>))"
  unfolding sendARP_def arp_send_def thn_def bnd_def
  by (rule ext) (simp split: option.splits sum.splits)

lemma arp_send_run:
  assumes "tx_ready B s" "length (hisMAC s) = 6" "length (hisIP s) = 4"
  obtains h es cs where "arp_send B stk s = Some (Inr ((),
      (talk h es cs s)\<lparr>next_tx_buf_num := (next_tx_buf_num s + 1) mod 8\<rparr>))"
    "tx_bytes es = arp_reply (hisMAC s) (hisIP s)"
proof -
  let ?s = "talk (hw s) [] [(''> sending ARP packet\<newline>'', [])] s" and ?d = "arp_reply (hisMAC s) (hisIP s)"
  have l: "length ?d = ARP_END" using assms by (simp add: arp_reply_def my_lengths proto_defs)
  have f: "or_overrun (arp_frame stk (hisMAC ?s) (hisIP ?s)) ?s = Some (Inr (?d, ?s))"
    using arp_frame_reply[of "hisMAC s" "hisIP s" stk] assms by (simp add: or_overrun_def)
  obtain h es where t: "tx_packet B ?d (int ARP_END) ?s = Some (Inr ((),
      (talk h es [(''> sending tx_packet\<newline>'', [])] ?s)\<lparr>next_tx_buf_num := (next_tx_buf_num ?s + 1) mod 8\<rparr>))"
    "tx_bytes es = take (nat (int ARP_END)) ?d"
    using tx_packet_bytes[of B ?s "int ARP_END" ?d] assms(1) talk_ready[of "hw s" s B] l by auto
  have run: "arp_send B stk s = Some (Inr ((),
      (talk h es [(''> sending tx_packet\<newline>'', [])] ?s)\<lparr>next_tx_buf_num := (next_tx_buf_num ?s + 1) mod 8\<rparr>))"
    unfolding arp_send_def by (rule thn_runs, rule pp_printf_talk, rule bnd_runs, rule gets_run, rule bnd_runs, rule f, rule t(1))
  show ?thesis
    by (rule that[of h es "[(''> sending ARP packet\<newline>'', []), (''> sending tx_packet\<newline>'', [])]"])
      (use run t(2) l in simp_all)
qed

text \<open>
  C33 (safety). An ARP request that arrives while the reply to another one is sent gets no answer: when the
  receive handler runs before the last statement of \<^verbatim>\<open>sendARP\<close>, that statement clears the flag the handler has set;
  the peer recorded is the second one, the reply sent was for the first, and the next test of the flag sends
  nothing. (The driver is set up and the next transmit descriptor is free.)
\<close>

theorem arp_request_lost:
  assumes "net_ok s" "tx_ready B s" "arp_request data"
  shows "sendARP B stk = thn (arp_send B stk) (modify (\<lambda>s. s\<lparr>sawARP := False\<rparr>)) \<and>
    (\<exists>t es. thn (arp_send B stk) (thn (user_recv B data len) (modify (\<lambda>s. s\<lparr>sawARP := False\<rparr>))) s = Some (Inr ((), t)) \<and>
      trace t = trace s @ es \<and> tx_bytes es = arp_reply (hisMAC s) (hisIP s) \<and>
      hisMAC t = slice data 22 6 \<and> hisIP t = slice data 28 4 \<and> \<not> sawARP t \<and> poll_arp B stk' t = Some (Inr ((), t)))"
proof -
  have l: "length (hisMAC s) = 6" "length (hisIP s) = 4" using assms(1) by (simp_all add: net_ok_def)
  obtain h es cs where a: "arp_send B stk s = Some (Inr ((),
      (talk h es cs s)\<lparr>next_tx_buf_num := (next_tx_buf_num s + 1) mod 8\<rparr>))"
    "tx_bytes es = arp_reply (hisMAC s) (hisIP s)"
    by (rule arp_send_run[OF assms(2) l])
  let ?u = "(talk h es cs s)\<lparr>next_tx_buf_num := (next_tx_buf_num s + 1) mod 8\<rparr>"
  have ok: "net_ok ?u" using assms(1) by (simp add: net_ok_def talk_def)
  let ?t = "?u\<lparr>sawARP := False, hisMAC := slice data 22 6, hisIP := slice data 28 4\<rparr>"
  have run: "thn (arp_send B stk) (thn (user_recv B data len) (modify (\<lambda>s. s\<lparr>sawARP := False\<rparr>))) s = Some (Inr ((), ?t))"
    by (rule thn_runs, rule a(1), rule thn_runs, rule user_recv_arp[OF ok assms(3)]) simp
  have poll: "poll_arp B stk' ?t = Some (Inr ((), ?t))" by (simp add: poll_arp_def bnd_def)
  show ?thesis
    by (rule conjI, rule sendARP_split, rule exI[of _ ?t], rule exI[of _ es], intro conjI, rule run)
      (use a(2) poll in \<open>simp_all add: talk_def\<close>)
qed

section \<open>Frames to run on\<close>

text \<open>An ARP request, an echo request with three bytes of body, one with a length of zero, and a UDP packet.\<close>

definition frame_of :: "u8 list \<Rightarrow> nat \<Rightarrow> u8" where
  "frame_of xs i = (if i < length xs then xs ! i else 0)"

definition demo_arp :: "nat \<Rightarrow> u8" where
  "demo_arp = frame_of [0xff, 0xff, 0xff, 0xff, 0xff, 0xff, 1, 2, 3, 4, 5, 6, 8, 6, 0, 1, 8, 0, 6, 4, 0, 1, 1, 2, 3, 4, 5, 6, 10, 0, 18, 1,
     0, 0, 0, 0, 0, 0, 10, 0, 18, 148]"

definition demo_ip :: "u8 \<Rightarrow> u8 \<Rightarrow> nat \<Rightarrow> u8" where
  "demo_ip len proto = frame_of [0, 0x0a, 0x35, 0x02, 0x53, 0x2d, 1, 2, 3, 4, 5, 6, 8, 0, 0x45, 0, 0, len, 0, 0, 0, 0, 64, proto,
     0, 0, 10, 0, 18, 1, 10, 0, 18, 148, 8, 0, 0, 0, 7, 8, 9]"

lemma slice_eval: "slice data i (numeral n) = map data [i..<i + numeral n]"
  by (simp add: slice_def)

lemma demo_arp_request: "arp_request demo_arp" "slice demo_arp 22 6 = [1, 2, 3, 4, 5, 6]" "slice demo_arp 28 4 = [10, 0, 18, 1]"
  by (simp_all add: arp_request_def for_us_def slice_eval demo_arp_def frame_of_def allMAC_def myIP_def upt_rec)

lemma demo_ip_packet: "ip_packet (demo_ip len proto)" "demo_ip len proto 23 = proto" "demo_ip len proto 34 = 8"
  "ip_len (demo_ip len proto) = uint len"
  by (simp_all add: ip_packet_def for_us_def slice_eval demo_ip_def frame_of_def myMAC_def ETH_MACADDR_def
      myIP_def upt_rec ip_len_eq)

lemma demo_echo: "echo_request (demo_ip len 1)" "udp_packet (demo_ip len 0x11)" "\<not> udp_packet (demo_ip len 1)"
  using demo_ip_packet[of len 1] demo_ip_packet[of len "0x11"] by (simp_all add: echo_request_def udp_packet_def)

lemma demo_net_ok: "net_ok (demo_eth h)"
  by (simp add: net_ok_def demo_eth_def demo_table_def boot_def)

lemma demo_tx_ready: "tx_ready demo_mac (demo_eth 0)"
  by (simp add: tx_ready_def demo_mac_def)

theorem user_recv_refines_witness:
  "(\<exists>t. user_recv demo_mac (demo_ip 27 1) 41 (demo_eth 0) = Some (Inr ((), t)) \<and>
     abs_net t = spec_recv (demo_ip 27 1) (abs_net (demo_eth (0::nat)))) \<and>
   user_recv demo_mac (demo_ip 0 1) 41 (demo_eth 0) = Some (Inr ((), (demo_eth (0::nat))\<lparr>hisBodyLen := - 24\<rparr>))"
proof -
  note r = user_recv_refines[OF demo_net_ok demo_echo(3)]
  show ?thesis
    using r[of demo_mac 27 41 "0::nat"] r[of demo_mac 0 41 "0::nat"] demo_echo(1)[of 27] demo_echo(1)[of 0]
    by (auto simp: demo_ip_packet)
qed

theorem arp_answered_witness:
  "\<exists>t es. thn (user_recv demo_mac demo_arp 42) (poll_arp demo_mac (\<lambda>_. 0xAA)) (demo_eth 0) = Some (Inr ((), t)) \<and>
    \<not> sawARP t \<and> trace t = trace (demo_eth (0::nat)) @ es \<and>
    tx_bytes es = arp_reply [1, 2, 3, 4, 5, 6] [10, 0, 18, 1]"
  using arp_answered[OF demo_net_ok demo_arp_request(1) demo_tx_ready, of 42 "\<lambda>_. 0xAA"]
  unfolding demo_arp_request(2,3) .

theorem arp_request_lost_witness:
  "\<exists>t. thn (arp_send demo_mac (\<lambda>_. 0)) (thn (user_recv demo_mac demo_arp 42) (modify (\<lambda>s. s\<lparr>sawARP := False\<rparr>))) (demo_eth (0::nat))
      = Some (Inr ((), t)) \<and> hisMAC t = [1, 2, 3, 4, 5, 6] \<and> \<not> sawARP t"
  using arp_request_lost[OF demo_net_ok demo_tx_ready demo_arp_request(1), of "\<lambda>_. 0" 42]
  unfolding demo_arp_request(2,3) by blast

theorem echo_answered_witness:
  "\<exists>t es c k. thn (user_recv demo_mac (demo_ip 27 1) 41) (poll_ping demo_mac (\<lambda>_. 0xAA)) (demo_eth 0) = Some (Inr ((), t)) \<and>
    \<not> sawPING t \<and> trace t = trace (demo_eth (0::nat)) @ es \<and> length c = 2 \<and> length k = 2 \<and>
    tx_bytes es = echo_reply (slice (demo_ip 27 1) 6 6) (slice (demo_ip 27 1) 26 4)
      (slice (demo_ip 27 1) 38 (nat (ip_len (demo_ip 27 1) - 24))) c k \<and>
    ipv4_checksum (shorts_at (tx_bytes es) 14) 10 = 0 \<and>
    ipv4_checksum (shorts_at (if odd (ip_len (demo_ip 27 1)) then tx_bytes es @ [0] else tx_bytes es) 34)
      ((ip_len (demo_ip 27 1) - 19) div 2) = 0"
  by (rule echo_answered[OF demo_net_ok demo_echo(1) demo_tx_ready]) (simp_all add: demo_ip_packet)

theorem echo_length_overruns_witness:
  "thn (user_recv demo_mac (demo_ip 0 1) 41) (poll_ping demo_mac (\<lambda>_. 0)) (demo_eth 0\<lparr>sawPING := True, hisBodyLen := 3\<rparr>)
    = Some (Inl BufferOverrun)"
  by (rule echo_length_overruns[OF _ demo_echo(1)])
    (simp_all add: demo_ip_packet net_ok_def demo_eth_def demo_table_def boot_def)

theorem udp_never_returns_witness:
  "user_recv demo_mac (demo_ip 40 0x11) 54 (demo_eth 0\<lparr>handle := \<lambda>_. 8\<rparr>) = None"
  using udp_never_returns[OF _ demo_echo(2), of "demo_eth 0\<lparr>handle := \<lambda>_. 8\<rparr>" demo_mac 40 54]
  by (simp add: demo_ip_packet net_ok_def demo_eth_def demo_table_def boot_def)

section \<open>What the handlers keep\<close>

text \<open>
  A condition that survives talking and the assignments of the network code, which keep the sizes
  of its arrays, survives everything the handlers do.
\<close>

lemma keeps_copy_to:
  assumes "\<And>s a. I s \<Longrightarrow> length a = length (g s) \<Longrightarrow> I (st a s)"
  shows "keeps I (copy_to g st off src n)"
  unfolding keeps_def copy_to_def or_overrun_def
  using assms memcpy_length by (fastforce simp: bnd_ok_iff split: option.splits)

locale net_kept = talker +
  assumes mac_keeps: "P s \<Longrightarrow> length a = length (hisMAC s) \<Longrightarrow> P (s\<lparr>hisMAC := a\<rparr>)"
    and ip_keeps: "P s \<Longrightarrow> length a = length (hisIP s) \<Longrightarrow> P (s\<lparr>hisIP := a\<rparr>)"
    and body_keeps: "P s \<Longrightarrow> length a = length (hisBody s) \<Longrightarrow> P (s\<lparr>hisBody := a\<rparr>)"
    and len_keeps: "P s \<Longrightarrow> - 24 \<le> n \<Longrightarrow> n \<le> 65511 \<Longrightarrow> P (s\<lparr>hisBodyLen := n\<rparr>)"
    and flags_keep: "P s \<Longrightarrow> P (s\<lparr>sawARP := b\<rparr>)" "P s \<Longrightarrow> P (s\<lparr>sawPING := b\<rparr>)" "P s \<Longrightarrow> P (s\<lparr>eb_done := b\<rparr>)"
    and tx_keeps: "P s \<Longrightarrow> k < OETH_TXBD_NUM \<Longrightarrow> P (s\<lparr>next_tx_buf_num := k\<rparr>)"
    and csr_keeps: "P s \<Longrightarrow> P (s\<lparr>csr_ip := w\<rparr>)" "P s \<Longrightarrow> P (s\<lparr>csr_ie := w\<rparr>)"
begin

lemmas all_keeps = keeps_pure keeps_bus

lemma copies_keep: "keeps P (to_hisMAC off src n)" "keeps P (to_hisIP off src n)" "keeps P (to_hisBody off src n)"
  by (rule keeps_copy_to, simp add: mac_keeps ip_keeps body_keeps)+

lemma tx_packet_keeps: "keeps P (tx_packet B data len)"
proof -
  have "(n + 1) AND OETH_TXBD_NUM_MASK < OETH_TXBD_NUM" for n :: nat
    using take_bit_eq_mask[of 3 "n + 1"]
    by (simp add: OETH_TXBD_NUM_MASK_def OETH_TXBD_NUM_def mask_eq_exp_minus_1 take_bit_eq_mod)
  then have "keeps P (modify (\<lambda>s. s\<lparr>next_tx_buf_num := (next_tx_buf_num s + 1) AND OETH_TXBD_NUM_MASK\<rparr>))"
    by (intro keeps_modify tx_keeps)
  then show ?thesis
    unfolding tx_packet_def tx_descriptor_def Let_def
    by (intro all_keeps keeps_doall) (auto intro!: all_keeps keeps_tx_copy)
qed

lemma adapt_keeps: "keeps P (ethmac_adapt_set_length B i n)" "keeps P (ethmac_adapt_go B i)"
  unfolding ethmac_adapt_set_length_def ethmac_adapt_go_def by (intro all_keeps)+

lemma recv_arp_keeps: "keeps P (recv_arp data)"
  unfolding recv_arp_def
  by (intro keeps_if keeps_doall all_keeps)
    (auto intro!: all_keeps copies_keep keeps_modify flags_keep)

lemma recv_icmp_keeps: "keeps P (recv_icmp data)"
proof -
  have l: "keeps P (modify (\<lambda>s. s\<lparr>hisBodyLen := ip_len data - 24\<rparr>))"
    using ip_len_range[of data] by (intro keeps_modify len_keeps) simp_all
  show ?thesis
    unfolding recv_icmp_def
    by (intro all_keeps keeps_doall l) (auto intro!: all_keeps copies_keep keeps_modify flags_keep)
qed

lemma recv_udp_keeps: "keeps P (recv_udp B data)"
  unfolding recv_udp_def
  by (intro all_keeps keeps_doall)
    (auto intro!: all_keeps copies_keep adapt_keeps tx_packet_keeps keeps_modify keeps_doall flags_keep body_keeps)

lemma user_recv_keeps: "keeps P (user_recv B data len)"
  unfolding user_recv_eq by (intro keeps_if keeps_thn keeps_ret recv_arp_keeps recv_icmp_keeps recv_udp_keeps)

lemma call_hnd_keeps: "keeps P (call_hnd B f arg)"
  unfolding call_hnd_def set_eb_done_def button_def
  by (cases f) (auto intro!: keeps_oeth_interrupt user_recv_keeps keeps_modify keeps_print flags_keep)

lemma irq_entry_keeps: "keeps P (irq_entry (call_hnd B))"
proof -
  have "keeps P (irq_line (call_hnd B) work i)" for work i
    unfolding irq_line_def by (intro all_keeps) (auto intro!: all_keeps call_hnd_keeps split: option.splits)
  then show ?thesis
    unfolding irq_entry_def get_pending_def clear_pending_def wcsr_ip_def
    by (intro all_keeps keeps_doall keeps_modify) (auto intro: csr_keeps)
qed

end

interpretation hnds: net_kept "\<lambda>s. handlers s = H" for H
  by unfold_locales (simp_all add: talk_def)

lemma call_hnd_keeps_handlers: "keeps_handlers (call_hnd B)"
  using hnds.call_hnd_keeps[of _ B] unfolding keeps_handlers_def keeps_def by blast

text \<open>
  C28 (equivalence). An interrupt of the firmware runs, with all pending bits cleared, exactly the handlers of
  the lines that were pending and have one, each once with its argument and in the order of the
  lines; a handler that does not return or faults ends the sequence.
\<close>

theorem interrupt_dispatch:
  "irq_entry (call_hnd B) s = doall (map (call_line (call_hnd B) (handlers s)) (served s)) (s\<lparr>csr_ip := 0\<rparr>)"
  by (rule irq_entry_served[OF call_hnd_keeps_handlers])

end
