(* ===== verification/Receive.thy ===== *)
theory Receive
  imports Dbe_Correct
begin

text \<open>
  Reception as a whole: the Ethernet interrupt, the MAC driver and the application together. What
  the interrupt does to the network state is what the abstract receiver does on the frames that
  wait in the ring, in the order of their descriptors.
\<close>

section \<open>The frames that wait\<close>

definition waiting :: "(nat \<Rightarrow> 'h \<Rightarrow> u32) \<Rightarrow> 'h \<Rightarrow> nat \<Rightarrow> bool" where
  "waiting st h i \<longleftrightarrow> st i h AND OETH_RX_BD_EMPTY = 0 \<and> \<not> rx_bad (st i h)"

definition frame_at :: "'h plat \<Rightarrow> (nat \<Rightarrow> 'h \<Rightarrow> u32) \<Rightarrow> 'h \<Rightarrow> nat \<Rightarrow> nat \<Rightarrow> u8" where
  "frame_at B adr h i k = mem_byte B (adr i h + of_nat k) h"

definition frames ::
  "'h plat \<Rightarrow> (nat \<Rightarrow> 'h \<Rightarrow> u32) \<Rightarrow> (nat \<Rightarrow> 'h \<Rightarrow> u32) \<Rightarrow> 'h \<Rightarrow> nat list \<Rightarrow> (nat \<Rightarrow> u8) list" where
  "frames B st adr h xs = map (frame_at B adr h) (filter (waiting st h) xs)"

text \<open>
  The receiving side of the core: its descriptors are memory, the interrupt source register reads
  without side effect, and writing it or the status of a descriptor does not touch the buffers
  and the other descriptors.
\<close>

definition rx_core ::
  "'h plat \<Rightarrow> u32 \<Rightarrow> u32 \<Rightarrow> ('h \<Rightarrow> u32) \<Rightarrow> (nat \<Rightarrow> 'h \<Rightarrow> u32) \<Rightarrow> (nat \<Rightarrow> 'h \<Rightarrow> u32) \<Rightarrow> bool" where
  "rx_core B regs rx ev st adr \<longleftrightarrow> bd_ram B rx st adr \<and>
     (\<forall>h. bus_read B (regs + ETH_int_src) h = (ev h, h)) \<and>
     (\<forall>v h. (\<forall>i<8. st i (bus_write B (regs + ETH_int_src) v h) = st i h \<and>
        adr i (bus_write B (regs + ETH_int_src) v h) = adr i h) \<and>
        (\<forall>a. mem_byte B a (bus_write B (regs + ETH_int_src) v h) = mem_byte B a h)) \<and>
     (\<forall>i<8. \<forall>v h. (\<forall>j<8. adr j (bus_write B (bd_len_status rx i) v h) = adr j h) \<and>
        (\<forall>a. mem_byte B a (bus_write B (bd_len_status rx i) v h) = mem_byte B a h))"

lemma rx_coreD:
  assumes "rx_core B regs rx ev st adr"
  shows "bd_ram B rx st adr" "bus_read B (regs + ETH_int_src) h = (ev h, h)"
    "i < 8 \<Longrightarrow> st i (bus_write B (regs + ETH_int_src) v h) = st i h"
    "i < 8 \<Longrightarrow> adr i (bus_write B (regs + ETH_int_src) v h) = adr i h"
    "mem_byte B a (bus_write B (regs + ETH_int_src) v h) = mem_byte B a h"
    "i < 8 \<Longrightarrow> j < 8 \<Longrightarrow> adr j (bus_write B (bd_len_status rx i) v h) = adr j h"
    "i < 8 \<Longrightarrow> mem_byte B a (bus_write B (bd_len_status rx i) v h) = mem_byte B a h"
  using assms by (auto simp: rx_core_def)

text \<open>The buffers, and the status of the descriptors of a set, are the same in two states of the gateware.\<close>

definition same_rx ::
  "'h plat \<Rightarrow> (nat \<Rightarrow> 'h \<Rightarrow> u32) \<Rightarrow> (nat \<Rightarrow> 'h \<Rightarrow> u32) \<Rightarrow> nat set \<Rightarrow> 'h \<Rightarrow> 'h \<Rightarrow> bool" where
  "same_rx B st adr J h h' \<longleftrightarrow>
     (\<forall>j<8. adr j h' = adr j h) \<and> (\<forall>a. mem_byte B a h' = mem_byte B a h) \<and> (\<forall>j\<in>J. st j h' = st j h)"

lemma same_rx_frames:
  assumes "same_rx B st adr J h h'" "set xs \<subseteq> J" "set xs \<subseteq> {..<8}"
  shows "frames B st adr h' xs = frames B st adr h xs"
proof -
  have w: "waiting st h' i = waiting st h i" and f: "frame_at B adr h' i = frame_at B adr h i" if "i \<in> set xs" for i
    using that assms by (auto simp: same_rx_def waiting_def frame_at_def fun_eq_iff subset_iff)
  then show ?thesis
    unfolding frames_def by (intro map_cong filter_cong) auto
qed

section \<open>One descriptor\<close>

definition answerable :: "(nat \<Rightarrow> u8) \<Rightarrow> bool" where
  "answerable data \<longleftrightarrow> \<not> udp_packet data \<and> (echo_request data \<longrightarrow> 24 \<le> ip_len data \<and> ip_len data \<le> 1540)"

lemma net_ok_talk [simp]: "net_ok (talk h es cs s) = net_ok s" "abs_net (talk h es cs s) = abs_net s"
  by (simp_all add: net_ok_def abs_net_def talk_def)

lemma rx_release_core:
  assumes "rx_core B regs rx ev st adr" "i < 8"
  shows "\<exists>h es. rx_release B (bd_len_status rx i) s = Some (Inr ((), talk h es [] s)) \<and>
    st i h AND OETH_RX_BD_EMPTY \<noteq> 0 \<and> same_rx B st adr ({..<8} - {i}) (hw s) h"
proof -
  have e: "(v OR OETH_RX_BD_EMPTY) AND OETH_RX_BD_EMPTY \<noteq> 0" for v
    by (simp add: OETH_RX_BD_EMPTY_def bit.conj_disj_distrib2 or_eq_0_iff)
  have w: "st j (bus_write B (bd_len_status rx i) v h) = (if i = j then v else st j h)" if "j < 8" for j v h
    using rx_coreD(1)[OF assms(1)] assms(2) that by (auto simp: bd_ram_def)
  show ?thesis
    unfolding rx_release_def same_rx_def
    by (intro exI conjI, rule thn_runs, rule upd_run[unfolded Let_def], subst upd_run)
      (use assms(2) e in \<open>auto simp: Let_def w bd_ramD(1)[OF rx_coreD(1)[OF assms(1)]] rx_coreD(6,7)[OF assms(1)] split: if_splits\<close>)
qed

lemma rx_bd_spec:
  assumes core: "rx_core B regs rx ev st adr" and i: "i < 8" and ok: "net_ok s"
    and ans: "waiting st (hw s) i \<longrightarrow> answerable (frame_at B adr (hw s) i)"
  shows "\<exists>t. oeth_rx_bd B (user_recv B) rx i s = Some (Inr ((), t)) \<and> net_ok t \<and>
    abs_net t = fold spec_recv (frames B st adr (hw s) [i]) (abs_net s) \<and>
    st i (hw t) AND OETH_RX_BD_EMPTY \<noteq> 0 \<and> same_rx B st adr ({..<8} - {i}) (hw s) (hw t)"
proof -
  let ?v = "st i (hw s)" and ?d = "frame_at B adr (hw s) i"
  obtain es where run: "oeth_rx_bd B (user_recv B) rx i s =
    (if ?v AND OETH_RX_BD_EMPTY \<noteq> 0 then ret ()
     else if rx_bad ?v then rx_release B (bd_len_status rx i)
     else thn (user_recv B ?d (uint (drop_bit 16 ?v))) (rx_release B (bd_len_status rx i))) (talk (hw s) es [] s)"
    using oeth_rx_bd_run[OF rx_coreD(1)[OF core] i, of "user_recv B" s] unfolding frame_at_def[abs_def] by blast
  let ?s = "talk (hw s) es [] s"
  have release: "\<exists>t. rx_release B (bd_len_status rx i) u = Some (Inr ((), t)) \<and> net_ok t \<and> abs_net t = abs_net u \<and>
      st i (hw t) AND OETH_RX_BD_EMPTY \<noteq> 0 \<and> same_rx B st adr ({..<8} - {i}) (hw s) (hw t)"
    if "net_ok u" "hw u = hw s" for u
    using rx_release_core[OF core i, of u] that by auto
  consider (empty) "?v AND OETH_RX_BD_EMPTY \<noteq> 0" | (bad) "?v AND OETH_RX_BD_EMPTY = 0" "rx_bad ?v" | (good) "waiting st (hw s) i"
    by (auto simp: waiting_def)
  then show ?thesis
  proof cases
    case empty
    then show ?thesis using run ok by (simp add: frames_def waiting_def same_rx_def)
  next
    case bad
    then show ?thesis using run release[of ?s] ok by (auto simp: frames_def waiting_def)
  next
    case good
    obtain u where u: "user_recv B ?d (uint (drop_bit 16 ?v)) ?s = Some (Inr ((), u))"
      "abs_net u = spec_recv ?d (abs_net ?s)" "net_ok u" "hw u = hw ?s"
      using user_recv_spec[of ?s ?d B "uint (drop_bit 16 ?v)"] ok good ans by (auto simp: answerable_def)
    then show ?thesis
      using run release[of u] good by (auto simp: frames_def waiting_def thn_def bnd_def)
  qed
qed

section \<open>The ring\<close>

lemma frames_Cons: "frames B st adr h (i # xs) = frames B st adr h [i] @ frames B st adr h xs"
  by (simp add: frames_def)

lemma rx_ring_spec:
  assumes core: "rx_core B regs rx ev st adr" and "set xs \<subseteq> {..<8}" "distinct xs" "net_ok s"
    and "list_all answerable (frames B st adr (hw s) xs)"
  shows "\<exists>t. doall (map (oeth_rx_bd B (user_recv B) rx) xs) s = Some (Inr ((), t)) \<and> net_ok t \<and>
    abs_net t = fold spec_recv (frames B st adr (hw s) xs) (abs_net s) \<and>
    (\<forall>i\<in>set xs. st i (hw t) AND OETH_RX_BD_EMPTY \<noteq> 0) \<and> same_rx B st adr ({..<8} - set xs) (hw s) (hw t)"
  using assms(2-)
proof (induction xs arbitrary: s)
  case Nil
  then show ?case by (simp add: frames_def same_rx_def)
next
  case (Cons i xs)
  have i: "i < 8" and ans: "waiting st (hw s) i \<longrightarrow> answerable (frame_at B adr (hw s) i)"
    using Cons.prems by (auto simp: frames_def)
  obtain t where t: "oeth_rx_bd B (user_recv B) rx i s = Some (Inr ((), t))" "net_ok t"
    "abs_net t = fold spec_recv (frames B st adr (hw s) [i]) (abs_net s)"
    "st i (hw t) AND OETH_RX_BD_EMPTY \<noteq> 0" "same_rx B st adr ({..<8} - {i}) (hw s) (hw t)"
    using rx_bd_spec[OF core i Cons.prems(3) ans] by (elim exE conjE)
  have fr: "frames B st adr (hw t) xs = frames B st adr (hw s) xs"
    using Cons.prems by (intro same_rx_frames[OF t(5)]) auto
  have ans': "list_all answerable (frames B st adr (hw t) xs)"
    using Cons.prems(4) frames_Cons[of B st adr "hw s" i xs] fr by simp
  have xs: "set xs \<subseteq> {..<8}" "distinct xs" "i \<notin> set xs" using Cons.prems by auto
  obtain u where u: "doall (map (oeth_rx_bd B (user_recv B) rx) xs) t = Some (Inr ((), u))" "net_ok u"
    "abs_net u = fold spec_recv (frames B st adr (hw t) xs) (abs_net t)"
    "\<forall>i\<in>set xs. st i (hw u) AND OETH_RX_BD_EMPTY \<noteq> 0" "same_rx B st adr ({..<8} - set xs) (hw t) (hw u)"
    using Cons.IH[OF xs(1,2) t(2) ans'] by (elim exE conjE)
  have sti: "st i (hw u) = st i (hw t)" using u(5) i xs(3) by (simp add: same_rx_def)
  have same: "same_rx B st adr ({..<8} - set (i # xs)) (hw s) (hw u)"
    using t(5) u(5) by (auto simp: same_rx_def)
  have "doall (map (oeth_rx_bd B (user_recv B) rx) (i # xs)) s = Some (Inr ((), u))"
    using t(1) u(1) by (simp add: thn_def bnd_def)
  moreover have "abs_net u = fold spec_recv (frames B st adr (hw s) (i # xs)) (abs_net s)"
    unfolding u(3) fr t(3) frames_Cons[of B st adr "hw s" i xs] by simp
  ultimately show ?case using u(2,4) t(4) sti same by auto
qed

section \<open>The interrupt\<close>

definition regs_of :: "'h mach \<Rightarrow> u32" where
  "regs_of s = words s (handle s Ethmac + 4 * unat OETH_ID)"

definition rx_bd_of :: "'h mach \<Rightarrow> u32" where
  "rx_bd_of s = words s (ethmac_bd s + 4 * unat OETH_ID) + of_nat (8 * OETH_TXBD_NUM)"

lemma of_talk [simp]: "regs_of (talk h es cs s) = regs_of s" "rx_bd_of (talk h es cs s) = rx_bd_of s"
  by (simp_all add: regs_of_def rx_bd_of_def talk_def)

lemma oeth_rx_ring:
  assumes "handle s Ethmac \<noteq> 0" "ethmac_bd s \<noteq> 0"
  shows "oeth_rx B recv s = doall (map (oeth_rx_bd B recv (rx_bd_of s)) [0..<8]) s"
  unfolding oeth_rx_def eth_trace_off thn_ret eth_regs_def OETH_RXBD_NUM_def rx_bd_of_def
  by (rule bnd_runs, rule dev_base_run, rule assms(1), rule bnd_runs, rule load_word_run, rule assms(2), rule refl)

text \<open>An interrupt for received frames only runs the receive handler, once.\<close>

lemma oeth_interrupt_rx:
  assumes core: "rx_core B (regs_of s) (rx_bd_of s) ev st adr" and h: "handle s Ethmac \<noteq> 0"
    and rx: "ev (hw s) AND (OETH_INT_RXF OR OETH_INT_RXE OR OETH_INT_BUSY) \<noteq> 0"
    and tx: "ev (hw s) AND (OETH_INT_TXB OR OETH_INT_TXE) = 0"
  shows "oeth_interrupt B recv s = oeth_rx B recv
    (talk (bus_write B (regs_of s + ETH_int_src) (ev (hw s)) (hw s))
      [Rd (regs_of s + ETH_int_src) (ev (hw s)), Wr (regs_of s + ETH_int_src) (ev (hw s))] [] s)"
proof -
  let ?a = "regs_of s + ETH_int_src" and ?v = "ev (hw s)"
  have r: "eth_regs s = Some (Inr (regs_of s, s))"
    unfolding eth_regs_def regs_of_def by (rule dev_base_run[OF h])
  have i: "rd B ?a s = Some (Inr (?v, talk (hw s) [Rd ?a ?v] [] s))"
    using rx_coreD(2)[OF core] by (rule rd_talk)
  have w: "wr B ?a ?v (talk (hw s) [Rd ?a ?v] [] s) = Some (Inr ((), talk (bus_write B ?a ?v (hw s)) [Rd ?a ?v, Wr ?a ?v] [] s))"
    by (simp add: wr_def talk_def)
  have busy: "?v AND (OETH_INT_RXF OR OETH_INT_RXE) = 0 \<Longrightarrow> ?v AND OETH_INT_BUSY \<noteq> 0"
    using rx and_or_zero[of ?v "OETH_INT_RXF OR OETH_INT_RXE" OETH_INT_BUSY] by (simp add: or.assoc)
  have one: "thn p (ret ()) = p" for p :: "('a mach, unit) prog"
    by (rule ext) (simp add: thn_def bnd_def split: option.splits sum.splits)
  show ?thesis
    unfolding oeth_interrupt_def eth_trace_off thn_ret
    by (rule bnd_runs, rule r, rule bnd_runs, rule i, rule doall_runs, rule w)
      (use busy tx in \<open>simp add: one\<close>)
qed

lemma rx_interrupt_spec:
  assumes "net_ok s" "handle s Ethmac \<noteq> 0" "ethmac_bd s \<noteq> 0" "rx_core B (regs_of s) (rx_bd_of s) ev st adr"
    and "ev (hw s) AND (OETH_INT_RXF OR OETH_INT_RXE OR OETH_INT_BUSY) \<noteq> 0"
    and "ev (hw s) AND (OETH_INT_TXB OR OETH_INT_TXE) = 0"
    and "list_all answerable (frames B st adr (hw s) [0..<8])"
  shows "\<exists>t. oeth_interrupt B (user_recv B) s = Some (Inr ((), t)) \<and> net_ok t \<and>
    abs_net t = fold spec_recv (frames B st adr (hw s) [0..<8]) (abs_net s) \<and>
    list_all (\<lambda>i. st i (hw t) AND OETH_RX_BD_EMPTY \<noteq> 0) [0..<8]"
proof -
  let ?h = "bus_write B (regs_of s + ETH_int_src) (ev (hw s)) (hw s)"
  let ?s = "talk ?h [Rd (regs_of s + ETH_int_src) (ev (hw s)), Wr (regs_of s + ETH_int_src) (ev (hw s))] [] s"
  have run: "oeth_interrupt B (user_recv B) s = doall (map (oeth_rx_bd B (user_recv B) (rx_bd_of s)) [0..<8]) ?s"
    using oeth_interrupt_rx[OF assms(4,2,5,6), of "user_recv B"] oeth_rx_ring[of ?s B "user_recv B"] assms(2,3)
    by (simp add: talk_def rx_bd_of_def)
  have "same_rx B st adr {..<8} (hw s) ?h"
    using rx_coreD(3,4,5)[OF assms(4)] by (simp add: same_rx_def)
  then have fr: "frames B st adr ?h [0..<8] = frames B st adr (hw s) [0..<8]"
    by (rule same_rx_frames) auto
  have "\<exists>t. doall (map (oeth_rx_bd B (user_recv B) (rx_bd_of s)) [0..<8]) ?s = Some (Inr ((), t)) \<and> net_ok t \<and>
      abs_net t = fold spec_recv (frames B st adr (hw ?s) [0..<8]) (abs_net ?s) \<and>
      (\<forall>i\<in>set [0..<8]. st i (hw t) AND OETH_RX_BD_EMPTY \<noteq> 0) \<and> same_rx B st adr ({..<8} - set [0..<8]) (hw ?s) (hw t)"
    by (rule rx_ring_spec[OF assms(4)]) (use assms(1,7) fr in auto)
  then show ?thesis
    unfolding run list_all_iff using fr by auto
qed

section \<open>A gateware to run on\<close>

text \<open>
  Registers, and a separate memory for the packets: an ARP request waits in descriptor 0, an echo
  request in descriptor 3.
\<close>

definition demo_core :: "((u32 \<Rightarrow> u32) \<times> (u32 \<Rightarrow> u8)) plat" where
  "demo_core =
     \<lparr>bus_read = \<lambda>a h. (fst h a, h), bus_write = \<lambda>a v h. ((fst h)(a := v), snd h), mem_byte = \<lambda>a h. snd h a,
      mem_put = \<lambda>a c h. (fst h, (snd h)(a := c)), lay = demo_layout\<rparr>"

definition demo_packets :: "(u32 \<Rightarrow> u32) \<times> (u32 \<Rightarrow> u8)" where
  "demo_packets =
     ((\<lambda>_. 0x8000)(0x104 := OETH_INT_RXF, 0x140 := 0x002A0000, 0x144 := 0x1000, 0x158 := 0x00290000, 0x15C := 0x2000),
      \<lambda>a. if a < 0x2000 then demo_arp (unat (a - 0x1000)) else demo_ip 27 1 (unat (a - 0x2000)))"

abbreviation demo_st :: "nat \<Rightarrow> (u32 \<Rightarrow> u32) \<times> (u32 \<Rightarrow> u8) \<Rightarrow> u32" where
  "demo_st i h \<equiv> fst h (bd_len_status 0x140 i)"

abbreviation demo_adr :: "nat \<Rightarrow> (u32 \<Rightarrow> u32) \<times> (u32 \<Rightarrow> u8) \<Rightarrow> u32" where
  "demo_adr i h \<equiv> fst h (bd_addr 0x140 i)"

definition demo_rx :: "((u32 \<Rightarrow> u32) \<times> (u32 \<Rightarrow> u8)) mach" where
  "demo_rx = (demo_eth demo_packets)\<lparr>handlers := [0 \<mapsto> (Oeth_interrupt, 0)], csr_ip := 1\<rparr>"

lemma demo_rx_core: "rx_core demo_core 0x100 0x140 (\<lambda>h. fst h 0x104) demo_st demo_adr"
proof -
  have n: "bd_len_status 0x140 i \<noteq> 0x104" "bd_addr 0x140 i \<noteq> 0x104" if "i < 8" for i
  proof -
    from that have "i \<in> set [0..<8]" by simp
    then show "bd_len_status 0x140 i \<noteq> 0x104" "bd_addr 0x140 i \<noteq> 0x104"
      by (auto simp: upt_rec bd_len_status_def bd_addr_def)
  qed
  have b: "bd_ram demo_core 0x140 demo_st demo_adr"
    using bd_word_neq(2)[of _ _ "0x140"] by (auto simp: bd_ram_def demo_core_def)
  have c: "bd_addr 0x140 j \<noteq> bd_len_status 0x140 i" if "i < 8" "j < 8" for i j
    using bd_word_neq(3)[of i j "0x140"] that by auto
  show ?thesis
    unfolding rx_core_def using b n c by (auto simp: demo_core_def ETH_int_src_def)
qed

lemma demo_frames_two: "frames demo_core demo_st demo_adr demo_packets [0..<8] =
    [frame_at demo_core demo_adr demo_packets 0, frame_at demo_core demo_adr demo_packets 3]"
proof -
  have "\<not> rx_bad 0x002A0000" "\<not> rx_bad 0x00290000" by code_simp+
  then have "filter (waiting demo_st demo_packets) [0..<8] = [0, 3]"
    by (simp add: upt_rec waiting_def demo_packets_def bd_len_status_def OETH_RX_BD_EMPTY_def)
  then show ?thesis by (simp add: frames_def)
qed

lemma demo_frame_bytes:
  "k < 0x1000 \<Longrightarrow> frame_at demo_core demo_adr demo_packets 0 k = demo_arp k"
  "k < 0x1000 \<Longrightarrow> frame_at demo_core demo_adr demo_packets 3 k = demo_ip 27 1 k"
proof -
  assume k: "k < 0x1000"
  then have u: "unat (of_nat k :: u32) = k" by (simp add: unat_of_nat)
  have v: "unat (0x1000 + of_nat k :: u32) = 0x1000 + k" "unat (0x2000 + of_nat k :: u32) = 0x2000 + k"
    using k u by (simp_all add: unat_word_ariths)
  have c: "(0x1000 + of_nat k :: u32) < 0x2000" "\<not> (0x2000 + of_nat k :: u32) < 0x2000"
    using k v by (simp_all add: word_less_nat_alt)
  show "frame_at demo_core demo_adr demo_packets 0 k = demo_arp k"
    "frame_at demo_core demo_adr demo_packets 3 k = demo_ip 27 1 k"
    using c u by (simp_all add: frame_at_def demo_core_def demo_packets_def bd_addr_def)
qed

lemma demo_frame_kinds:
  "arp_request (frame_at demo_core demo_adr demo_packets 0)" "\<not> udp_packet (frame_at demo_core demo_adr demo_packets 0)"
  "\<not> echo_request (frame_at demo_core demo_adr demo_packets 0)" "\<not> arp_request (frame_at demo_core demo_adr demo_packets 3)"
  "echo_request (frame_at demo_core demo_adr demo_packets 3)" "ip_len (frame_at demo_core demo_adr demo_packets 3) = 27"
  "\<not> udp_packet (frame_at demo_core demo_adr demo_packets 3)"
proof -
  let ?a = "frame_at demo_core demo_adr demo_packets 0" and ?e = "frame_at demo_core demo_adr demo_packets 3"
  have sl: "slice ?a i n = slice demo_arp i n" "slice ?e i n = slice (demo_ip 27 1) i n" if "i + n \<le> 0x1000" for i n
    using that by (auto simp: slice_def demo_frame_bytes)
  show a: "arp_request ?a" using demo_arp_request(1) unfolding arp_request_def for_us_def
    by (simp add: sl demo_frame_bytes)
  show e: "echo_request ?e" and "ip_len ?e = 27" and "\<not> udp_packet ?e"
    using demo_echo(1,3)[of 27] demo_ip_packet(4)[of 27 1]
    unfolding echo_request_def udp_packet_def ip_packet_def for_us_def ip_len_eq
    by (simp_all add: sl demo_frame_bytes)
  show "\<not> udp_packet ?a" "\<not> echo_request ?a" "\<not> arp_request ?e"
    using a e arp_not_echo arp_not_ip by (auto simp: udp_packet_def request_parts)
qed

lemma demo_received:
  "fold spec_recv (frames demo_core demo_st demo_adr demo_packets [0..<8]) n
     = n\<lparr>peer := ([1, 2, 3, 4, 5, 6], [10, 0, 18, 1]), arp_due := True, ping := Some [7, 8, 9]\<rparr>"
  unfolding demo_frames_two
  by (simp add: spec_recv_def demo_frame_kinds slice_eval upt_rec demo_frame_bytes demo_ip_def frame_of_def)

end
