(* ===== verification/Ethmac_Lwip.thy ===== *)
theory Ethmac_Lwip
  imports Ethmac_Correct
begin

text \<open>
  The Ethernet driver of the firmware variant that uses lwIP (\<^verbatim>\<open>lib/ethmac/ethmac.c\<close>) and the network
  interface over it (\<^verbatim>\<open>contrib/ports/ethmac10100-drv/netif/ethernetif.c\<close>). The driver keeps its state in an array of
  private structures instead of global tables. The stack is a parameter: what \<^verbatim>\<open>pbuf_alloc\<close>, \<^verbatim>\<open>mem_malloc\<close> and
  \<^verbatim>\<open>netif->input\<close> answer. Registers and descriptors are those of the other driver.
\<close>

section \<open>State\<close>

record oeth_private =
  tx_next :: u16
  tx_last :: u16
  tx_full :: u16
  rx_cur :: u16
  regs :: u32
  rx_bd_base :: u32
  tx_bd_base :: u32
  buf :: u32

text \<open>\<^verbatim>\<open>struct netif\<close>, as far as the port sets it.\<close>

record netif =
  hwaddr :: "u8 list"
  mtu :: u16
  nflags :: u32
  if_name :: string
  if_state :: addr
  ip_addr :: u32
  netmask :: u32
  gw :: u32
  if_num :: u8

text \<open>
  The machine, the pointer to the private structures and their contents, the buffer of the port, the one
  interface, whether \<^verbatim>\<open>netif_list\<close> and \<^verbatim>\<open>netif_default\<close> point to it, how many were added, and the packets given to
  the stack and those freed by the port, each as its chain of buffers.
\<close>

record 'h lw =
  mach :: "'h mach"
  ethmac_private :: addr
  privs :: "nat \<Rightarrow> oeth_private"
  OutputBuffer :: "u8 list"
  interface :: netif
  netif_list :: bool
  netif_default :: bool
  netif_num :: u8
  delivered :: "u8 list list list"
  freed :: "u8 list list list"

text \<open>\<open>pbuf_alloc\<close> answers with the lengths of the chain, or not at all.\<close>

record stack =
  pbuf_alloc :: "u16 \<Rightarrow> nat list option"
  mem_malloc :: addr
  input_ok :: "u8 list list \<Rightarrow> bool"

definition on_mach :: "('h mach, 'a) prog \<Rightarrow> ('h lw, 'a) prog" where
  "on_mach = zoom mach (\<lambda>m s. s\<lparr>mach := m\<rparr>)"

text \<open>\<^verbatim>\<open>ethmac_private[OETH_ID]\<close>.\<close>

definition eth_priv :: "('h lw, oeth_private) prog" where
  "eth_priv =
     bnd (gets ethmac_private) (\<lambda>p.
       if p = 0 then fail NullPointer else gets (\<lambda>s. privs s (unat OETH_ID)))"

definition set_eth_priv :: "(oeth_private \<Rightarrow> oeth_private) \<Rightarrow> ('h lw, unit) prog" where
  "set_eth_priv f =
     thn eth_priv (modify (\<lambda>s. s\<lparr>privs := (privs s)(unat OETH_ID := f (privs s (unat OETH_ID)))\<rparr>))"

section \<open>Initialisation\<close>

definition sizeof_oeth_private :: nat where "sizeof_oeth_private = 4 * 2 + 4 * 4"

text \<open>
  The structures are stored into the block of the memory manager one after the other; a store past its end
  is a fault.
\<close>

fun lw_init_loop :: "addr \<Rightarrow> u32 \<Rightarrow> nat \<Rightarrow> nat \<Rightarrow> addr \<Rightarrow> ('h lw, unit) prog" where
  "lw_init_loop p b i 0 d = ret ()"
| "lw_init_loop p b i (Suc n) d =
     thn (on_mach (deref d))
     (bnd (gets (\<lambda>s. node_base (mach s) d)) (\<lambda>base.
     let tx = base + OETH_BD_BASE_OFFS;
         rx = tx + of_nat (8 * OETH_RXBD_NUM) in
     thn (on_mach (deref p))
     (bnd (gets (\<lambda>s. payload (heap (mach s)) p)) (\<lambda>room.
     thn (if room < (i + 1) * sizeof_oeth_private then fail BufferOverrun else ret ())
     (thn (modify (\<lambda>s. s\<lparr>privs := (privs s)(i :=
             \<lparr>tx_next = 0, tx_last = 0, tx_full = 0, rx_cur = 0, regs = base, rx_bd_base = rx, tx_bd_base = tx, buf = b\<rparr>)\<rparr>))
     (thn (on_mach (debug_addr eth_info ''> ethmac regs addr[%d]: %08X\<newline>'' i base))
     (thn (on_mach (debug_addr eth_info ''> ethmac_bd tx addr[%d]: %08X\<newline>'' i tx))
     (thn (on_mach (debug_addr eth_info ''> ethmac_bd rx addr[%d]: %08X\<newline>'' i rx))
     (thn (on_mach (debug_addr eth_info ''> ethmac_buf addr[%d]: %08X\<newline>'' i b))
     (bnd (gets (\<lambda>s. node_next (mach s) d)) (\<lambda>d'. lw_init_loop p b (Suc i) n d')))))))))))"

definition lw_ethmac_init :: "'h plat \<Rightarrow> ('h lw, int) prog" where
  "lw_ethmac_init B =
     bnd (gets (\<lambda>s. devl (mach s) Ethmac)) (\<lambda>l.
     thn (on_mach (deref l))
     (bnd (gets (\<lambda>s. devl_devices (mach s) l)) (\<lambda>d.
       if d = 0 then ret (- 1)
       else
         bnd (gets (\<lambda>s. devl (mach s) Mem)) (\<lambda>ml.
         thn (on_mach (deref ml))
         (bnd (gets (\<lambda>s. devl_devices (mach s) ml)) (\<lambda>md.
           if md = 0 then ret (- 1)
           else
             bnd (gets (\<lambda>s. devl_size (mach s) l)) (\<lambda>n.
             bnd (on_mach (malloc B (4 * n))) (\<lambda>p.
             thn (modify (\<lambda>s. s\<lparr>ethmac_private := p\<rparr>))
             (bnd (gets (\<lambda>s. devl_size (mach s) ml)) (\<lambda>mn.
             bnd (on_mach (walk_nodes (unat (mn - 1)) md)) (\<lambda>last.
             thn (on_mach (deref last))
             (bnd (gets (\<lambda>s. node_base (mach s) last)) (\<lambda>b.
             thn (lw_init_loop p b 0 (unat n) d) (ret 0))))))))))))))"

definition lw_ethmac_exit :: "('h lw, unit) prog" where
  "lw_ethmac_exit = bnd (gets ethmac_private) (\<lambda>p. on_mach (mfree p))"

section \<open>MII management\<close>

definition lw_mii_write :: "'h plat \<Rightarrow> u8 \<Rightarrow> u16 \<Rightarrow> u16 \<Rightarrow> ('h lw, unit) prog" where
  "lw_mii_write B phynum regnum data =
     bnd eth_priv (\<lambda>e. on_mach (doall
      [wr B (regs e + ETH_miiaddress) (mii_address phynum regnum),
       wr B (regs e + ETH_miitx_data) (scast data),
       wr B (regs e + ETH_miicommand) OETH_MIICOMMAND_WCTRLDATA,
       wr B (regs e + ETH_miicommand) 0,
       mii_wait B (regs e)]))"

definition lw_mii_read :: "'h plat \<Rightarrow> u8 \<Rightarrow> u16 \<Rightarrow> ('h lw, u16) prog" where
  "lw_mii_read B phynum regnum =
     bnd eth_priv (\<lambda>e. on_mach
      (thn (doall
        [wr B (regs e + ETH_miiaddress) (mii_address phynum regnum),
         wr B (regs e + ETH_miicommand) OETH_MIICOMMAND_RSTAT,
         wr B (regs e + ETH_miicommand) 0,
         mii_wait B (regs e)])
       (bnd (rd B (regs e + ETH_miirx_data)) (\<lambda>v. ret (ucast v)))))"

definition lw_mii_update :: "'h plat \<Rightarrow> u8 \<Rightarrow> u8 \<Rightarrow> u16 \<Rightarrow> (u16 \<Rightarrow> u16) \<Rightarrow> ('h lw, unit) prog" where
  "lw_mii_update B rphy phynum regnum f =
     bnd (lw_mii_read B rphy regnum) (\<lambda>cr. lw_mii_write B phynum regnum (f cr))"

section \<open>Set-up\<close>

definition OETH_PKTLEN_MINFL :: u32 where "OETH_PKTLEN_MINFL = 0x40"
definition OETH_PKTLEN_DEFAULT_ETH :: nat where "OETH_PKTLEN_DEFAULT_ETH = 0x5F0"
definition OETH_PKTLEN_EXTRA :: nat where "OETH_PKTLEN_EXTRA = 0x10"
definition OETH_PKTLEN_MAXFL :: nat where "OETH_PKTLEN_MAXFL = OETH_PKTLEN_DEFAULT_ETH + OETH_PKTLEN_EXTRA"

definition lw_setup_regs :: "'h plat \<Rightarrow> u32 \<Rightarrow> ('h mach, unit) prog" where
  "lw_setup_regs B r =
     doall
      [wr B (r + ETH_miimoder) OETH_MIIMODER_RST,
       upd B (r + ETH_miimoder) (\<lambda>v. v AND NOT OETH_MIIMODER_RST),
       wr B (r + ETH_miimoder) 0x64,
       wr B (r + ETH_moder) OETH_MODER_RST,
       upd B (r + ETH_moder) (\<lambda>v. v AND NOT OETH_MODER_RST),
       wr B (r + ETH_tx_bd_num) (of_nat OETH_TXBD_NUM),
       DBE_DEBUG eth_info ''TX BD num = 0X%08X\<newline>''
         (bnd (rd B (r + ETH_tx_bd_num)) (\<lambda>v. ret [Num v])),
       wr B (r + ETH_packet_len) (push_bit 16 OETH_PKTLEN_MINFL OR of_nat OETH_PKTLEN_MAXFL),
       wr B (r + ETH_ipgt) 0x12,
       wr B (r + ETH_ipgr1) 0x0000000c,
       wr B (r + ETH_ipgr2) 0x00000012,
       wr B (r + ETH_collconf) 0x000f003f,
       wr B (r + ETH_ctrlmoder) 0,
       wr B (r + ETH_miitx_data) 0,
       wr B (r + ETH_miiaddress) 0,
       wr B (r + ETH_miicommand) 0,
       wr B (r + ETH_mac_addr1) (push_bit 8 (ucast (ETH_MACADDR ! 0)) OR ucast (ETH_MACADDR ! 1)),
       wr B (r + ETH_mac_addr0)
         (push_bit 24 (ucast (ETH_MACADDR ! 2)) OR push_bit 16 (ucast (ETH_MACADDR ! 3)) OR
          push_bit 8 (ucast (ETH_MACADDR ! 4)) OR ucast (ETH_MACADDR ! 5)),
       wr B (r + ETH_int_src) 0xffffffff,
       upd B (r + ETH_moder)
         (\<lambda>v. v OR (OETH_MODER_PAD OR OETH_MODER_IFG OR OETH_MODER_CRCEN OR OETH_MODER_FULLD)),
       wr B (r + ETH_int_mask) OETH_INT_MASK_ALL]"

definition lw_setup_buffers :: "'h plat \<Rightarrow> u32 \<Rightarrow> u32 \<Rightarrow> u32 \<Rightarrow> ('h mach, unit) prog" where
  "lw_setup_buffers B tx_bd rx_bd mem_addr =
     doall
      ([DBE_DEBUG eth_info ''> tx_bd = 0X%08X\<newline>'' (ret [Num tx_bd]),
        DBE_DEBUG eth_info ''> rx_bd = 0X%08X\<newline>'' (ret [Num rx_bd]),
        DBE_DEBUG eth_info ''> ethmac buffer addr = 0X%08X\<newline>'' (ret [Num mem_addr])] @
       map (setup_bd B ''> tx_bd[%d].addr: 0X%8X\<newline>'' (OETH_TX_BD_PAD OR OETH_TX_BD_CRC) tx_bd mem_addr)
         [0..<OETH_TXBD_NUM] @
       [upd B (bd_len_status tx_bd (OETH_TXBD_NUM - 1)) (\<lambda>v. v OR OETH_TX_BD_WRAP)] @
       map (setup_bd B ''> rx_bd[%d].addr: 0X%8X\<newline>'' (OETH_RX_BD_EMPTY OR OETH_RX_BD_IRQ) rx_bd
             (mem_addr + of_nat OETH_TXBD_NUM * BUFF_SIZE))
         [0..<OETH_RXBD_NUM] @
       [upd B (bd_len_status rx_bd (OETH_RXBD_NUM - 1)) (\<lambda>v. v OR OETH_RX_BD_WRAP)])"

definition lw_setup_phy :: "'h plat \<Rightarrow> u8 \<Rightarrow> ('h lw, unit) prog" where
  "lw_setup_phy B phynum =
     doall
      [lw_mii_update B phynum phynum MII_ADVERTISE (\<lambda>cr. cr OR ADVERTISE_ALL),
       lw_mii_update B phynum phynum MII_CTRL1000 (\<lambda>cr. cr AND NOT (ADVERTISE_1000FULL OR ADVERTISE_1000HALF)),
       lw_mii_update B phynum phynum MII_EXPANSION (\<lambda>cr. cr AND NOT (ESTATUS_1000_THALF OR ESTATUS_1000_TFULL)),
       lw_mii_update B 0 phynum MII_BMCR (\<lambda>cr. cr OR (BMCR_ANRESTART OR BMCR_ANENABLE))]"

definition lw_ethmac_setup :: "'h plat \<Rightarrow> u8 \<Rightarrow> ('h lw, unit) prog" where
  "lw_ethmac_setup B phynum =
     bnd eth_priv (\<lambda>e.
     doall
      [on_mach (msg eth_info ''> setting up ethmac...\<newline>''),
       on_mach (lw_setup_regs B (regs e)),
       on_mach (lw_setup_buffers B (tx_bd_base e) (rx_bd_base e) (buf e)),
       lw_setup_phy B phynum,
       on_mach (upd B (regs e + ETH_moder) (\<lambda>v. v OR (OETH_MODER_RXEN OR OETH_MODER_TXEN)))])"

definition lw_moder :: "'h plat \<Rightarrow> (u32 \<Rightarrow> u32) \<Rightarrow> ('h lw, unit) prog" where
  "lw_moder B f = bnd eth_priv (\<lambda>e. on_mach (upd B (regs e + ETH_moder) f))"

definition oeth_enable_rx :: "'h plat \<Rightarrow> ('h lw, unit) prog" where
  "oeth_enable_rx B = lw_moder B (\<lambda>v. v OR OETH_MODER_RXEN)"

definition oeth_disable_rx :: "'h plat \<Rightarrow> ('h lw, unit) prog" where
  "oeth_disable_rx B = lw_moder B (\<lambda>v. v AND NOT OETH_MODER_RXEN)"

definition lw_ethmac_halt :: "'h plat \<Rightarrow> ('h lw, unit) prog" where
  "lw_ethmac_halt B = lw_moder B (\<lambda>v. v AND NOT (OETH_MODER_RXEN OR OETH_MODER_TXEN))"

section \<open>Transmission\<close>

text \<open>The number of transmit descriptors the core still has to serve.\<close>

fun count_ready :: "'h plat \<Rightarrow> u32 \<Rightarrow> nat \<Rightarrow> nat list \<Rightarrow> ('h mach, nat) prog" where
  "count_ready B tx k [] = ret k"
| "count_ready B tx k (i # is) =
     bnd (rd B (bd_len_status tx i)) (\<lambda>v. count_ready B tx (if v AND OETH_TX_BD_READY \<noteq> 0 then k + 1 else k) is)"

definition num_tx_ready_bd :: "'h plat \<Rightarrow> ('h lw, nat) prog" where
  "num_tx_ready_bd B = bnd eth_priv (\<lambda>e. on_mach (count_ready B (tx_bd_base e) 0 [0..<OETH_TXBD_NUM]))"

definition all_tx_bd_clear :: "'h plat \<Rightarrow> ('h lw, bool) prog" where
  "all_tx_bd_clear B = bnd (num_tx_ready_bd B) (\<lambda>n. ret (n = 0))"

definition wait_for_tx_bd_clear :: "'h plat \<Rightarrow> int \<Rightarrow> ('h lw, unit) prog" where
  "wait_for_tx_bd_clear B num_tx_clear =
     (let num = (if num_tx_clear > int OETH_TXBD_NUM then int OETH_TXBD_NUM else if num_tx_clear < 0 then 0 else num_tx_clear);
          num_tx_ready = int OETH_TXBD_NUM - num
      in wait_while (bnd (num_tx_ready_bd B) (\<lambda>n. ret (int n > num_tx_ready))))"

definition BMCR_SPEED100 :: u16 where "BMCR_SPEED100 = 0x2000"

definition ethphy_set_10mbit :: "'h plat \<Rightarrow> u8 \<Rightarrow> ('h lw, unit) prog" where
  "ethphy_set_10mbit B phynum =
     thn (wait_while (bnd (all_tx_bd_clear B) (\<lambda>c. ret (\<not> c))))
         (lw_mii_update B phynum phynum MII_BMCR (\<lambda>cr. cr AND NOT BMCR_ANENABLE AND NOT BMCR_SPEED100))"

definition ethphy_set_100mbit :: "'h plat \<Rightarrow> u8 \<Rightarrow> ('h lw, unit) prog" where
  "ethphy_set_100mbit B phynum =
     thn (wait_while (bnd (all_tx_bd_clear B) (\<lambda>c. ret (\<not> c))))
         (lw_mii_update B phynum phynum MII_BMCR (\<lambda>cr. cr OR BMCR_ANENABLE OR BMCR_SPEED100))"

definition lw_tx_packet :: "'h plat \<Rightarrow> u8 list \<Rightarrow> int \<Rightarrow> ('h lw, unit) prog" where
  "lw_tx_packet B data len =
     bnd eth_priv (\<lambda>e.
     thn (on_mach (msg eth_info ''> sending tx_packet\<newline>''))
    (thn (on_mach (tx_descriptor B (tx_bd_base e) (unat (tx_next e)) data len))
         (set_eth_priv (\<lambda>e. e\<lparr>tx_next := (tx_next e + 1) AND of_nat OETH_TXBD_NUM_MASK\<rparr>))))"

section \<open>Reception\<close>

text \<open>The search for a descriptor with a frame: its length, or -1.\<close>

fun check_rx_bds :: "'h plat \<Rightarrow> u32 \<Rightarrow> nat list \<Rightarrow> ('h lw, int) prog" where
  "check_rx_bds B rx [] = ret (- 1)"
| "check_rx_bds B rx (i # is) =
     (let ls = bd_len_status rx i; ad = bd_addr rx i in
      thn (on_mach (DBE_DEBUG eth_trace ''> rxbd_num: %d\<newline>'' (ret [Num (of_nat i)])))
     (thn (on_mach (DBE_DEBUG eth_trace ''> rxbd[%d]: 0X%08X\<newline>''
            (bnd (rd B ls) (\<lambda>v. bnd (rd B ad) (\<lambda>w. ret [Num (of_nat i), Num v, Num w])))))
     (thn (on_mach (DBE_DEBUG eth_trace ''> rxbd[%d].addr: 0X%08X\<newline>''
            (bnd (rd B ad) (\<lambda>w. ret [Num (of_nat i), Num w]))))
     (bnd (on_mach (rd B ls)) (\<lambda>v.
       if v AND OETH_RX_BD_EMPTY = 0 then
         thn (on_mach (DBE_DEBUG eth_trace ''> len_status: 0X%8X\<newline>'' (bnd (rd B ls) (\<lambda>v. ret [Num v]))))
         (bnd (on_mach (rx_checks B ls rx_errors False)) (\<lambda>bad.
           if bad then thn (on_mach (rx_release B ls)) (ret (- 1))
           else thn (set_eth_priv (\<lambda>e. e\<lparr>rx_cur := of_nat i\<rparr>))
                    (bnd (on_mach (rd B ls)) (\<lambda>v. ret (uint (drop_bit 16 v))))))
       else check_rx_bds B rx is)))))"

definition oeth_check_rx_bd :: "'h plat \<Rightarrow> ('h lw, int) prog" where
  "oeth_check_rx_bd B =
     bnd eth_priv (\<lambda>e.
     thn (on_mach (msg eth_trace ''oeth_rx:\<newline>'')) (check_rx_bds B (rx_bd_base e) [0..<OETH_RXBD_NUM]))"

text \<open>The bytes come from \<^verbatim>\<open>ethmac_private->buf\<close>, where the buffers begin.\<close>

definition rx_packet :: "'h plat \<Rightarrow> nat \<Rightarrow> ('h lw, u8 list) prog" where
  "rx_packet B len =
     bnd eth_priv (\<lambda>e.
     thn (on_mach (msg eth_trace ''> processing incoming packet\<newline>''))
    (bnd (gets (\<lambda>s. map (\<lambda>k. mem_byte B (buf e + of_nat k) (hw (mach s))) [0..<len])) (\<lambda>d.
     thn (on_mach (rx_release B (bd_len_status (rx_bd_base e) (unat (rx_cur e))))) (ret d))))"

definition oeth_drop_rx_bd :: "'h plat \<Rightarrow> ('h lw, unit) prog" where
  "oeth_drop_rx_bd B =
     bnd eth_priv (\<lambda>e. on_mach (rx_release B (bd_len_status (rx_bd_base e) (unat (rx_cur e)))))"

section \<open>The network interface\<close>

definition PHY_NUM :: u8 where "PHY_NUM = 7"
definition MAC_CFG_MAC_ADDR_UPPER_16 :: u32 where "MAC_CFG_MAC_ADDR_UPPER_16 = 0x000A"
definition MAC_CFG_MAC_ADDR_LOWER_32 :: u32 where "MAC_CFG_MAC_ADDR_LOWER_32 = 0x3502532D"
definition ERR_OK :: int where "ERR_OK = 0"
definition ERR_MEM :: int where "ERR_MEM = - 1"
definition ETHTYPE_IP :: nat where "ETHTYPE_IP = 0x0800"
definition ETHTYPE_ARP :: nat where "ETHTYPE_ARP = 0x0806"

text \<open>The result of \<^verbatim>\<open>ethmac_init\<close> is not used.\<close>

definition low_level_init :: "'h plat \<Rightarrow> ('h lw, unit) prog" where
  "low_level_init B =
     thn (modify (\<lambda>s. s\<lparr>interface := (interface s)\<lparr>
       hwaddr := [ucast (drop_bit 8 MAC_CFG_MAC_ADDR_UPPER_16), ucast MAC_CFG_MAC_ADDR_UPPER_16,
                  ucast (drop_bit 24 MAC_CFG_MAC_ADDR_LOWER_32), ucast (drop_bit 16 MAC_CFG_MAC_ADDR_LOWER_32),
                  ucast (drop_bit 8 MAC_CFG_MAC_ADDR_LOWER_32), ucast MAC_CFG_MAC_ADDR_LOWER_32],
       mtu := of_nat OETH_PKTLEN_DEFAULT_ETH - 18, nflags := 0x02 OR 0x20\<rparr>\<rparr>))
    (thn (bnd (lw_ethmac_init B) (\<lambda>_. ret ()))
         (lw_ethmac_setup B PHY_NUM))"

text \<open>The chain of a packet is copied as far as whole buffers fit a frame; the rest is left out.\<close>

fun gather :: "nat \<Rightarrow> u8 list \<Rightarrow> u8 list list \<Rightarrow> u8 list" where
  "gather total_bytes out [] = out"
| "gather total_bytes out (q # qs) =
     (if total_bytes + length q > OETH_PKTLEN_DEFAULT_ETH then out else gather (total_bytes + length q) (out @ q) qs)"

definition low_level_output :: "'h plat \<Rightarrow> u8 list list \<Rightarrow> ('h lw, int) prog" where
  "low_level_output B p =
     thn (wait_for_tx_bd_clear B (int OETH_TXBD_NUM div 2))
    (let d = gather 0 [] p in
     thn (modify (\<lambda>s. s\<lparr>OutputBuffer := d @ drop (length d) (OutputBuffer s)\<rparr>))
    (bnd (gets OutputBuffer) (\<lambda>out. thn (lw_tx_packet B out (int (length d))) (ret ERR_OK))))"

fun read_chain :: "'h plat \<Rightarrow> nat \<Rightarrow> nat list \<Rightarrow> ('h lw, u8 list list) prog" where
  "read_chain B bytesToRead [] = ret []"
| "read_chain B bytesToRead (len # lens) =
     (let size' = (if bytesToRead > len then len else bytesToRead) in
      bnd (rx_packet B size') (\<lambda>d. bnd (read_chain B (bytesToRead - size') lens) (\<lambda>ds. ret (d # ds))))"

text \<open>The length passes through a variable of type \<^verbatim>\<open>u16_t\<close>, so -1 becomes 65535.\<close>

definition low_level_input :: "'h plat \<Rightarrow> stack \<Rightarrow> ('h lw, u8 list list option) prog" where
  "low_level_input B S =
     bnd (oeth_check_rx_bd B) (\<lambda>r.
     let len = word_of_int r :: u16; bytesToRead = uint len in
     if bytesToRead \<le> 0 then ret None
     else case pbuf_alloc S len of
            Some lens \<Rightarrow> bnd (read_chain B (nat bytesToRead) lens) (\<lambda>p. ret (Some p))
          | None \<Rightarrow> thn (oeth_drop_rx_bd B) (ret None))"

text \<open>
  A packet goes to the stack when it is IP or ARP; otherwise, and when the stack refuses it, it is freed. The
  type is read from the first buffer.
\<close>

definition ethernetif_input :: "'h plat \<Rightarrow> stack \<Rightarrow> ('h lw, unit) prog" where
  "ethernetif_input B S =
     bnd (low_level_input B S) (\<lambda>r.
     case r of None \<Rightarrow> ret ()
     | Some p \<Rightarrow>
         if p = [] \<or> length (hd p) < 14 then fail BufferOverrun
         else let ethtype = 256 * unat (hd p ! 12) + unat (hd p ! 13) in
           if ethtype = ETHTYPE_IP \<or> ethtype = ETHTYPE_ARP then
             thn (modify (\<lambda>s. s\<lparr>delivered := delivered s @ [p]\<rparr>))
                 (if input_ok S p then ret () else modify (\<lambda>s. s\<lparr>freed := freed s @ [p]\<rparr>))
           else modify (\<lambda>s. s\<lparr>freed := freed s @ [p]\<rparr>))"

definition ethernetif_init :: "'h plat \<Rightarrow> stack \<Rightarrow> ('h lw, int) prog" where
  "ethernetif_init B S =
     (if mem_malloc S = 0 then ret ERR_MEM
      else thn (modify (\<lambda>s. s\<lparr>interface := (interface s)\<lparr>if_name := ''en'', if_state := mem_malloc S\<rparr>\<rparr>))
          (thn (low_level_init B) (ret ERR_OK)))"

section \<open>Interrupts\<close>

definition lw_oeth_tx :: "'h plat \<Rightarrow> ('h lw, unit) prog" where
  "lw_oeth_tx B =
     bnd eth_priv (\<lambda>e.
     thn (on_mach (msg eth_trace ''> oeth_tx trace\<newline>''))
         (on_mach (doall (map (oeth_tx_bd B (tx_bd_base e)) [0..<OETH_TXBD_NUM]))))"

definition lw_oeth_interrupt :: "'h plat \<Rightarrow> stack \<Rightarrow> ('h lw, unit) prog" where
  "lw_oeth_interrupt B S =
     bnd eth_priv (\<lambda>e.
     bnd (on_mach (rd B (regs e + ETH_int_src))) (\<lambda>int_events.
     doall
      [on_mach (wr B (regs e + ETH_int_src) int_events),
       on_mach (DBE_DEBUG eth_trace ''> int_events = 0x%8X\<newline>'' (ret [Num int_events])),
       if int_events AND (OETH_INT_RXF OR OETH_INT_RXE) \<noteq> 0
       then thn (on_mach (msg eth_trace ''> interrupt on rx line\<newline>'')) (ethernetif_input B S) else ret (),
       if int_events AND (OETH_INT_TXB OR OETH_INT_TXE) \<noteq> 0
       then thn (on_mach (msg eth_trace ''> interrupt on tx line\<newline>'')) (lw_oeth_tx B) else ret (),
       if int_events AND OETH_INT_BUSY \<noteq> 0
       then thn (on_mach (msg eth_trace ''> receive busy\<newline>''))
         (if int_events AND (OETH_INT_RXF OR OETH_INT_RXE) = 0 then ethernetif_input B S else ret ())
       else ret (),
       on_mach (msg eth_trace ''> nothing\<newline>'')]))"

section \<open>Initialisation never succeeds\<close>

lemma wp_on_mach [wp_simps]: "wp (on_mach p) Q s = wp p (\<lambda>a m. Q a (s\<lparr>mach := m\<rparr>)) (mach s)"
  unfolding on_mach_def by (rule wp_zoom)

lemma wp_deref: "wp (deref p) Q s \<longleftrightarrow> p \<noteq> 0 \<and> Q () s"
  by (simp add: deref_def wp_def)

lemma wp_debug_addr: "wp (debug_addr eth_info fmt i w) Q s = Q () (talk (hw s) [] [(fmt, [Num (of_nat i), Num w])] s)"
  unfolding debug_addr_def wp_def by (subst DBE_INFO_run) simp_all

lemma wp_walk_nodes: "wp (walk_nodes n d) Q s \<Longrightarrow> \<exists>d'. Q d' s"
proof (induction n arbitrary: d)
  case (Suc n)
  then show ?case by (simp add: wp_thn wp_bnd wp_gets wp_deref) blast
qed (auto simp: wp_ret)

text \<open>A block that is too small for all the structures: the loop does not get to its end.\<close>

lemma lw_init_loop_overruns:
  "payload (heap (mach s)) p < (i + n) * sizeof_oeth_private \<Longrightarrow> 0 < n \<Longrightarrow> \<not> wp (lw_init_loop p b i n d) Q s"
proof (induction n arbitrary: i d s)
  case (Suc n)
  show ?case
  proof
    assume w: "wp (lw_init_loop p b i (Suc n) d) Q s"
    then have room: "(i + 1) * sizeof_oeth_private \<le> payload (heap (mach s)) p"
      by (auto simp: wp_simps wp_deref Let_def split: if_splits)
    then have n: "0 < n" using Suc.prems(1) by (cases n) auto
    from w obtain s' d' where "wp (lw_init_loop p b (Suc i) n d') Q s'" "heap (mach s') = heap (mach s)"
      using room by (auto simp: wp_simps wp_deref wp_debug_addr Let_def)
    with Suc.IH[of s' "Suc i" d'] n Suc.prems(1) show False by simp
  qed
qed simp

text \<open>
  The memory for the private structures is computed with the size of a pointer: with a device in the table,
  \<^verbatim>\<open>ethmac_init\<close> gets a block that is too small for them, or none. When it returns, it has found no device or
  no memory for packets, and has done nothing.
\<close>

lemma lw_ethmac_init_fails:
  assumes live: "live B (mach s) P" and n0: "n = devl_size (mach s) (devl (mach s) Ethmac)" "4 * unat n < 2 ^ 31"
    and d: "n = 0 \<longrightarrow> devl_devices (mach s) (devl (mach s) Ethmac) = 0" and w: "wp (lw_ethmac_init B) Q s"
  shows "Q (- 1) s"
proof (rule ccontr)
  let ?d = "devl_devices (mach s) (devl (mach s) Ethmac)" and ?ml = "devl (mach s) Mem"
  assume q: "\<not> Q (- 1) s"
  have "?d \<noteq> 0"
  proof
    assume "?d = 0"
    then show False using w q by (simp add: lw_ethmac_init_def wp_simps wp_deref)
  qed
  then have n: "n = devl_size (mach s) (devl (mach s) Ethmac)" "0 < unat n" "4 * unat n < 2 ^ 31"
    using n0 d by (auto simp: unat_gt_0)
  note q
  with w have "wp (malloc B (4 * n)) (\<lambda>p m. wp (walk_nodes (unat (devl_size m ?ml - 1)) (devl_devices (mach s) ?ml))
      (\<lambda>l m'. l \<noteq> 0 \<and> wp (lw_init_loop p (node_base m' l) 0 (unat n) ?d) (\<lambda>_. Q 0) (s\<lparr>ethmac_private := p, mach := m'\<rparr>)) m) (mach s)"
    unfolding lw_ethmac_init_def by (auto simp: wp_simps wp_deref n(1)[symmetric] split: if_splits)
  then have w: "wp (malloc B (4 * n))
      (\<lambda>p m. \<exists>b s'. heap (mach s') = heap m \<and> wp (lw_init_loop p b 0 (unat n) ?d) (\<lambda>_. Q 0) s') (mach s)"
  proof (rule wp_mono)
    fix p m
    assume "wp (walk_nodes (unat (devl_size m ?ml - 1)) (devl_devices (mach s) ?ml))
      (\<lambda>l m'. l \<noteq> 0 \<and> wp (lw_init_loop p (node_base m' l) 0 (unat n) ?d) (\<lambda>_. Q 0) (s\<lparr>ethmac_private := p, mach := m'\<rparr>)) m"
    from wp_walk_nodes[OF this] obtain l where
      "wp (lw_init_loop p (node_base m l) 0 (unat n) ?d) (\<lambda>_. Q 0) (s\<lparr>ethmac_private := p, mach := m\<rparr>)" by blast
    then show "\<exists>b s'. heap (mach s') = heap m \<and> wp (lw_init_loop p b 0 (unat n) ?d) (\<lambda>_. Q 0) s'"
      by (intro exI[of _ "node_base m l"] exI[of _ "s\<lparr>ethmac_private := p, mach := m\<rparr>"]) simp
  qed
  have u: "unat (4 * n) = 4 * unat n" using n(3) by (subst unat_mult_lt) simp_all
  then have ok: "request_ok (4 * n)" using n(3) by (simp add: request_ok_def POOL_SIZE_def)
  from w obtain p m b s' where m: "memmgr_alloc (lay B) (4 * n) (heap (mach s)) = Some (p, m)"
    and s': "heap (mach s') = m" and loop: "wp (lw_init_loop p b 0 (unat n) ?d) (\<lambda>_. Q 0) s'"
    unfolding wp_iff[of "malloc B (4 * n)"] by (auto simp: malloc_def split: option.splits)
  have "p \<noteq> 0" using loop n(2) by (cases "unat n") (auto simp: wp_simps wp_deref Let_def)
  from alloc_payload[OF live ok m this] have "payload m p < (0 + unat n) * sizeof_oeth_private"
    using n(2) by (simp add: u sizeof_oeth_private_def)
  with lw_init_loop_overruns[of s' p 0 "unat n"] loop n(2) s' show False by auto
qed

lemma wp_eth_priv: "wp eth_priv Q s \<longleftrightarrow> ethmac_private s \<noteq> 0 \<and> Q (privs s (unat OETH_ID)) s"
  by (simp add: eth_priv_def wp_simps)

text \<open>
  With lwIP the network interface is never set up: once memory for its state is there, \<^verbatim>\<open>ethernetif_init\<close> does not
  return. The private structures of the driver are stored past the end of the block allocated for them, which
  has the size of pointers to them, and when the driver reports an error instead, that is ignored and the null
  pointer is used.
\<close>

lemma ethernetif_init_fails:
  assumes "live B (mach s) P" and "ethmac_private s = 0" and "mem_malloc S \<noteq> 0"
    and "n = devl_size (mach s) (devl (mach s) Ethmac)" and "4 * unat n < 2 ^ 31"
    and "n = 0 \<longrightarrow> devl_devices (mach s) (devl (mach s) Ethmac) = 0"
  shows "\<not> wp (ethernetif_init B S) Q s"
proof
  assume "wp (ethernetif_init B S) Q s"
  then obtain i where w: "wp (lw_ethmac_init B) (\<lambda>_ s. wp (lw_ethmac_setup B PHY_NUM) (\<lambda>_. Q ERR_OK) s) (s\<lparr>interface := i\<rparr>)"
    using assms(3) unfolding ethernetif_init_def low_level_init_def by (auto simp: wp_simps)
  from lw_ethmac_init_fails[OF _ _ assms(5) _ w] assms(1,4,6)
  have "wp (lw_ethmac_setup B PHY_NUM) (\<lambda>_. Q ERR_OK) (s\<lparr>interface := i\<rparr>)" by simp
  then show False using assms(2) by (simp add: lw_ethmac_setup_def wp_bnd wp_eth_priv)
qed

section \<open>Output\<close>

lemma gather_all: "total_bytes + length (concat p) \<le> OETH_PKTLEN_DEFAULT_ETH \<Longrightarrow> gather total_bytes out p = out @ concat p"
  by (induction total_bytes out p rule: gather.induct) auto

text \<open>
  A packet whose chain fits a frame is sent whole: once half of the descriptors are free, the bytes of the
  chain, one buffer behind the other, are written to the buffer of the next descriptor, before that is
  handed to the core with their number as length.
\<close>

lemma low_level_output_sends:
  assumes fits: "length (concat p) \<le> OETH_PKTLEN_DEFAULT_ETH"
    and wait: "wait_for_tx_bd_clear B (int OETH_TXBD_NUM div 2) s = Some (Inr ((), t))"
    and e: "ethmac_private t \<noteq> 0" "e = privs t (unat OETH_ID)"
    and ls: "ls = bd_len_status (tx_bd_base e) (unat (tx_next e))" and ad: "ad = bd_addr (tx_bd_base e) (unat (tx_next e))"
    and st: "bd_free B ls (mach t)"
  shows "\<exists>t' h v0 v1 v2 bf v3 v4. low_level_output B p s = Some (Inr (ERR_OK, t')) \<and>
    mach t' = talk h (tx_accesses ls ad (concat p) (int (length (concat p))) v0 v1 v2 bf v3 v4)
      [(''> sending tx_packet\<newline>'', [])] (mach t) \<and>
    tx_next (privs t' (unat OETH_ID)) = (tx_next e + 1) AND 7"
proof -
  let ?d = "concat p"
  define out where "out = ?d @ drop (length ?d) (OutputBuffer t)"
  let ?t1 = "t\<lparr>OutputBuffer := out\<rparr>" and ?m0 = "talk (hw (mach t)) [] [(''> sending tx_packet\<newline>'', [])] (mach t)"
  have len: "0 \<le> int (length ?d)" "nat (int (length ?d)) \<le> length out" by (simp_all add: out_def)
  obtain h v0 v1 v2 bf v3 v4 where d: "tx_descriptor B (tx_bd_base e) (unat (tx_next e)) out (int (length ?d)) ?m0 =
      Some (Inr ((), talk h (tx_accesses ls ad out (int (length ?d)) v0 v1 v2 bf v3 v4) [] ?m0))"
    using tx_descriptor_run[OF _ len ls ad, of B ?m0] st by auto
  have acc: "tx_accesses ls ad out (int (length ?d)) v0 v1 v2 bf v3 v4 = tx_accesses ls ad ?d (int (length ?d)) v0 v1 v2 bf v3 v4"
    by (auto simp: tx_accesses_def out_def nth_append)
  have p0: "eth_priv ?t1 = Some (Inr (e, ?t1))" using e by (simp add: eth_priv_def bnd_def)
  let ?t2 = "?t1\<lparr>mach := ?m0\<rparr>" and ?t3 = "?t1\<lparr>mach := talk h (tx_accesses ls ad out (int (length ?d)) v0 v1 v2 bf v3 v4) [] ?m0\<rparr>"
  have m: "on_mach (msg eth_info ''> sending tx_packet\<newline>'') ?t1 = Some (Inr ((), ?t2))"
    unfolding on_mach_def by (subst zoom_run[OF msg_info]) simp
  have b: "on_mach (tx_descriptor B (tx_bd_base e) (unat (tx_next e)) out (int (length ?d))) ?t2 = Some (Inr ((), ?t3))"
    unfolding on_mach_def using d by (subst zoom_run) simp_all
  let ?f = "\<lambda>e. e\<lparr>tx_next := (tx_next e + 1) AND of_nat OETH_TXBD_NUM_MASK\<rparr>"
  let ?t4 = "?t3\<lparr>privs := (privs t)(unat OETH_ID := ?f e)\<rparr>"
  have a: "set_eth_priv ?f ?t3 = Some (Inr ((), ?t4))"
    using e by (simp add: set_eth_priv_def eth_priv_def thn_def bnd_def)
  have tx: "lw_tx_packet B out (int (length ?d)) ?t1 = Some (Inr ((), ?t4))"
    unfolding lw_tx_packet_def by (rule bnd_runs, rule p0, rule thn_runs, rule m, rule thn_runs, rule b, rule a)
  have run: "low_level_output B p s = Some (Inr (ERR_OK, ?t4))"
    unfolding low_level_output_def Let_def using gather_all[of 0 p "[]"] fits
    by (simp add: wait thn_def bnd_def tx out_def[symmetric])
  have m7: "of_nat OETH_TXBD_NUM_MASK = (7 :: u16)" by (simp add: OETH_TXBD_NUM_MASK_def OETH_TXBD_NUM_def)
  show ?thesis
    by (rule exI[of _ ?t4], rule exI[of _ h], rule exI[of _ v0], rule exI[of _ v1], rule exI[of _ v2], rule exI[of _ bf], rule exI[of _ v3], rule exI[of _ v4])
      (use run acc m7 in \<open>simp add: talk_def\<close>)
qed

section \<open>Input\<close>

text \<open>
  A frame is read from where the buffers begin, which is the first transmit buffer, and not from the
  buffer of its descriptor.
\<close>

lemma low_level_input_first_buffer:
  assumes "oeth_check_rx_bd B s = Some (Inr (r, t))" "0 < r" "r < 65536" and "pbuf_alloc S (word_of_int r) = Some [nat r]"
  shows "low_level_input B S s =
    bnd (rx_packet B (nat r)) (\<lambda>d. ret (Some [d])) t"
    and "rx_packet B (nat r) t = Some (Inr (d, t')) \<Longrightarrow>
      d = map (\<lambda>k. mem_byte B (buf (privs t (unat OETH_ID)) + of_nat k) (hw (mach t))) [0..<nat r]"
proof -
  have "uint (word_of_int r :: u16) = r" using assms(2,3) by (simp add: uint_word_of_int)
  then show "low_level_input B S s = bnd (rx_packet B (nat r)) (\<lambda>d. ret (Some [d])) t"
    using assms unfolding low_level_input_def
    by (simp add: bnd_def Let_def split: option.splits sum.splits)
next
  assume "rx_packet B (nat r) t = Some (Inr (d, t'))"
  then show "d = map (\<lambda>k. mem_byte B (buf (privs t (unat OETH_ID)) + of_nat k) (hw (mach t))) [0..<nat r]"
    by (auto simp: rx_packet_def eth_priv_def eth_trace_off on_mach_def zoom_def bnd_def thn_def
        split: option.splits sum.splits if_splits)
qed

text \<open>
  Without a frame, or after a damaged one, a packet of 65535 bytes is asked for; when the stack has no room
  for it, the descriptor of the last good frame is marked empty, whatever it holds by now.
\<close>

lemma low_level_input_no_frame:
  assumes "oeth_check_rx_bd B s = Some (Inr (- 1, t))" and "pbuf_alloc S 65535 = None"
  shows "low_level_input B S s = thn (oeth_drop_rx_bd B) (ret None) t"
proof -
  have m: "(- 1 :: u16) = 65535" by code_simp
  show ?thesis using assms unfolding low_level_input_def by (simp add: bnd_def Let_def m)
qed

end
