(* ===== verification/Lwip_Memp.thy ===== *)
theory Lwip_Memp
  imports Prog
begin

text \<open>
  The fixed-size memory pools of lwIP (\<^verbatim>\<open>lib/lwip/src/core/memp.c\<close>) with the pools of this configuration
  (\<^verbatim>\<open>memp_std.h\<close>, \<^verbatim>\<open>lwipopts.h\<close>): one block of memory, cut into elements that are linked into a free list per pool.
  The link of a free element lies where the element's own first field is, so the map \<open>memp_next\<close> is
  shared with the users of the elements.
\<close>

section \<open>Layout\<close>

definition MEM_ALIGNMENT :: nat where "MEM_ALIGNMENT = 4"

definition LWIP_MEM_ALIGN :: "nat \<Rightarrow> nat" where
  "LWIP_MEM_ALIGN n = (n + MEM_ALIGNMENT - 1) div MEM_ALIGNMENT * MEM_ALIGNMENT"

text \<open>
  The pools: RAW_PCB, TCP_PCB, TCP_PCB_LISTEN, TCP_SEG, ARP_QUEUE, SYS_TIMEOUT, PBUF, PBUF_POOL, with their
  numbers of elements. The sizes of the elements are those of structures, a parameter of the model with the
  address of the memory.
\<close>

definition memp_num :: "nat list" where "memp_num = [4, 10, 8, 8, 30, 3, 20, 16]"
definition MEMP_MAX :: nat where "MEMP_MAX = 8"
definition MEMP_SYS_TIMEOUT :: nat where "MEMP_SYS_TIMEOUT = 5"

lemma memp_num_length [simp]: "length memp_num = MEMP_MAX"
  by (simp add: memp_num_def MEMP_MAX_def)

record memp_layout =
  memp_memory :: addr
  struct_sizes :: "nat list"

definition memp_sizes :: "memp_layout \<Rightarrow> nat list" where
  "memp_sizes L = map LWIP_MEM_ALIGN (struct_sizes L)"

definition pools_ok :: "memp_layout \<Rightarrow> bool" where
  "pools_ok L \<longleftrightarrow> 0 < memp_memory L \<and> length (struct_sizes L) = MEMP_MAX \<and> (\<forall>z\<in>set (struct_sizes L). 0 < z)"

section \<open>Operations\<close>

record memp =
  memp_tab :: "nat \<Rightarrow> addr"
  memp_next :: "addr \<Rightarrow> addr"

text \<open>
  A failed assertion prints a message and calls \<^verbatim>\<open>_exit\<close>, which ends in \<^verbatim>\<open>while(1)\<close> (\<^verbatim>\<open>minimal_newlibc.c\<close>).
\<close>

definition LWIP_ASSERT :: "bool \<Rightarrow> ('s, unit) prog" where
  "LWIP_ASSERT b = (if b then ret () else wait_while (ret True))"

text \<open>The elements of pool \<open>i\<close>, from address \<open>p\<close> on.\<close>

fun memp_carve :: "nat \<Rightarrow> nat \<Rightarrow> nat \<Rightarrow> addr \<Rightarrow> 'z memp_scheme \<Rightarrow> addr \<times> 'z memp_scheme" where
  "memp_carve i z 0 p s = (p, s)"
| "memp_carve i z (Suc n) p s =
     memp_carve i z n (p + z) (s\<lparr>memp_next := (memp_next s)(p := memp_tab s i), memp_tab := (memp_tab s)(i := p)\<rparr>)"

fun memp_pools :: "nat \<Rightarrow> (nat \<times> nat) list \<Rightarrow> addr \<Rightarrow> 'z memp_scheme \<Rightarrow> 'z memp_scheme" where
  "memp_pools i [] p s = s"
| "memp_pools i ((z, n) # ps) p s =
     (let (p', s') = memp_carve i z n p (s\<lparr>memp_tab := (memp_tab s)(i := 0)\<rparr>) in memp_pools (Suc i) ps p' s')"

definition memp_init :: "memp_layout \<Rightarrow> ('z memp_scheme, unit) prog" where
  "memp_init L = modify (memp_pools 0 (zip (memp_sizes L) memp_num) (LWIP_MEM_ALIGN (memp_memory L)))"

definition memp_malloc :: "nat \<Rightarrow> ('z memp_scheme, addr) prog" where
  "memp_malloc type =
     thn (LWIP_ASSERT (type < MEMP_MAX))
     (bnd (gets (\<lambda>s. memp_tab s type)) (\<lambda>memp.
       if memp \<noteq> 0 then
         thn (modify (\<lambda>s. s\<lparr>memp_tab := (memp_tab s)(type := memp_next s memp)\<rparr>))
         (thn (LWIP_ASSERT (memp mod MEM_ALIGNMENT = 0)) (ret memp))
       else ret 0))"

definition memp_free :: "nat \<Rightarrow> addr \<Rightarrow> ('z memp_scheme, unit) prog" where
  "memp_free type mem =
     (if mem = 0 then ret ()
      else thn (LWIP_ASSERT (mem mod MEM_ALIGNMENT = 0))
        (modify (\<lambda>s. s\<lparr>memp_next := (memp_next s)(mem := memp_tab s type), memp_tab := (memp_tab s)(type := mem)\<rparr>)))"

section \<open>Free lists\<close>

text \<open>Where a pool begins, and its elements in the order of their addresses.\<close>

fun pool_base :: "(nat \<times> nat) list \<Rightarrow> addr \<Rightarrow> nat \<Rightarrow> addr" where
  "pool_base ((z, n) # ps) p (Suc i) = pool_base ps (p + n * z) i"
| "pool_base ps p i = p"

definition elements :: "memp_layout \<Rightarrow> nat \<Rightarrow> addr list" where
  "elements L i =
     map (\<lambda>j. pool_base (zip (memp_sizes L) memp_num) (LWIP_MEM_ALIGN (memp_memory L)) i + j * memp_sizes L ! i)
       [0..<memp_num ! i]"

definition free_list :: "memp_layout \<Rightarrow> nat \<Rightarrow> 'z memp_scheme \<Rightarrow> addr list \<Rightarrow> bool" where
  "free_list L i s els \<longleftrightarrow>
     pools_ok L \<and> i < MEMP_MAX \<and> path (memp_next s) (memp_tab s i) els \<and> distinct els \<and> set els \<subseteq> set (elements L i)"

lemma elements_iff:
  "a \<in> set (elements L i) \<longleftrightarrow>
     (\<exists>j<memp_num ! i. a = pool_base (zip (memp_sizes L) memp_num) (LWIP_MEM_ALIGN (memp_memory L)) i + j * memp_sizes L ! i)"
  by (auto simp: elements_def)

lemma align_mod: "LWIP_MEM_ALIGN n mod MEM_ALIGNMENT = 0"
  by (simp add: LWIP_MEM_ALIGN_def MEM_ALIGNMENT_def)

lemma align_ge: "n \<le> LWIP_MEM_ALIGN n"
  unfolding LWIP_MEM_ALIGN_def MEM_ALIGNMENT_def by linarith

lemma pool_base_mod:
  "(\<forall>(z, n)\<in>set ps. z mod MEM_ALIGNMENT = 0) \<Longrightarrow> p mod MEM_ALIGNMENT = 0 \<Longrightarrow> pool_base ps p i mod MEM_ALIGNMENT = 0"
proof (induction ps p i rule: pool_base.induct)
  case (1 z n ps p i)
  then have "(p + n * z) mod MEM_ALIGNMENT = 0" by (auto simp: mod_simps simp flip: dvd_eq_mod_eq_0)
  with 1 show ?case by auto
qed auto

lemma pool_base_ge: "p \<le> pool_base ps p i"
proof (induction ps p i rule: pool_base.induct)
  case (1 z n ps p i)
  then show ?case by (simp add: add_leD1)
qed auto

text \<open>A pool ends where the next one begins, or earlier.\<close>

lemma pool_base_apart:
  "i < j \<Longrightarrow> i < length ps \<Longrightarrow> pool_base ps p i + snd (ps ! i) * fst (ps ! i) \<le> pool_base ps p j"
proof (induction ps p j arbitrary: i rule: pool_base.induct)
  case (1 z n ps p j)
  then show ?case by (cases i) (auto simp: pool_base_ge)
qed auto

lemma sizes_nth:
  assumes "pools_ok L" "i < MEMP_MAX"
  shows "memp_sizes L ! i mod MEM_ALIGNMENT = 0" "0 < memp_sizes L ! i" "length (memp_sizes L) = MEMP_MAX"
    "zip (memp_sizes L) memp_num ! i = (memp_sizes L ! i, memp_num ! i)"
proof -
  show len: "length (memp_sizes L) = MEMP_MAX" using assms(1) by (simp add: memp_sizes_def pools_ok_def)
  have "memp_sizes L ! i = LWIP_MEM_ALIGN (struct_sizes L ! i)"
    using assms by (simp add: memp_sizes_def pools_ok_def)
  moreover have "0 < struct_sizes L ! i" using assms by (simp add: pools_ok_def)
  ultimately show "memp_sizes L ! i mod MEM_ALIGNMENT = 0" "0 < memp_sizes L ! i"
    using align_mod[of "struct_sizes L ! i"] align_ge[of "struct_sizes L ! i"] by simp_all
  show "zip (memp_sizes L) memp_num ! i = (memp_sizes L ! i, memp_num ! i)"
    using assms(2) len by (simp add: memp_num_def MEMP_MAX_def)
qed

lemma elements_mod:
  assumes "pools_ok L" "i < MEMP_MAX" "a \<in> set (elements L i)"
  shows "a mod MEM_ALIGNMENT = 0" "a \<noteq> 0"
proof -
  let ?ps = "zip (memp_sizes L) memp_num" and ?p = "LWIP_MEM_ALIGN (memp_memory L)"
  have "\<forall>(z, n)\<in>set ?ps. z mod MEM_ALIGNMENT = 0"
    using align_mod by (fastforce simp: memp_sizes_def dest: set_zip_leftD)
  from pool_base_mod[OF this align_mod] have b: "pool_base ?ps ?p i mod MEM_ALIGNMENT = 0" .
  then show "a mod MEM_ALIGNMENT = 0"
    using assms(3) sizes_nth(1)[OF assms(1,2)] by (auto simp: elements_def simp flip: dvd_eq_mod_eq_0)
  have "0 < memp_memory L" using assms(1) by (simp add: pools_ok_def)
  then show "a \<noteq> 0"
    using assms(3) pool_base_ge[of ?p ?ps i] align_ge[of "memp_memory L"] by (auto simp: elements_def)
qed

lemma elements_distinct: "pools_ok L \<Longrightarrow> i < MEMP_MAX \<Longrightarrow> distinct (elements L i)"
  using sizes_nth(2)[of L i] by (auto simp: elements_def distinct_map inj_on_def)

text \<open>Two elements of the pools never overlap.\<close>

lemma elements_apart:
  assumes "pools_ok L" "i < MEMP_MAX" "j < MEMP_MAX" "a \<in> set (elements L i)" "b \<in> set (elements L j)" "a < b"
  shows "a + memp_sizes L ! i \<le> b"
proof -
  let ?ps = "zip (memp_sizes L) memp_num" and ?p = "LWIP_MEM_ALIGN (memp_memory L)"
  let ?z = "memp_sizes L ! i" and ?w = "memp_sizes L ! j"
  obtain k l where a: "a = pool_base ?ps ?p i + k * ?z" "k < memp_num ! i"
    and b: "b = pool_base ?ps ?p j + l * ?w" "l < memp_num ! j" using assms(4,5) unfolding elements_iff by blast
  note len = sizes_nth(3)[OF assms(1,2)]
  have ak: "a + ?z \<le> pool_base ?ps ?p i + memp_num ! i * ?z"
    using a(1) mult_le_mono1[of "Suc k" "memp_num ! i" ?z] a(2) by simp
  have bl: "b + ?w \<le> pool_base ?ps ?p j + memp_num ! j * ?w"
    using b(1) mult_le_mono1[of "Suc l" "memp_num ! j" ?w] b(2) by simp
  consider "i < j" | "j < i" | "i = j" by linarith
  then show ?thesis
  proof cases
    case 1
    then have "pool_base ?ps ?p i + memp_num ! i * ?z \<le> pool_base ?ps ?p j"
      using pool_base_apart[of i j ?ps ?p] assms(2) len sizes_nth(4)[OF assms(1,2)] by simp
    then show ?thesis using ak b(1) by simp
  next
    case 2
    then have "pool_base ?ps ?p j + memp_num ! j * ?w \<le> pool_base ?ps ?p i"
      using pool_base_apart[of j i ?ps ?p] assms(3) len sizes_nth(4)[OF assms(1,3)] by simp
    then show ?thesis using bl a(1) assms(6) by simp
  next
    case 3
    then have "k < l" using a(1) b(1) assms(6) sizes_nth(2)[OF assms(1,2)] by (auto intro: ccontr)
    then show ?thesis using a(1) b(1) 3 mult_le_mono1[of "Suc k" l ?z] by simp
  qed
qed

text \<open>Initialisation puts every element into the list of its pool, the last one first.\<close>

lemma memp_carve_list:
  "0 < p \<Longrightarrow> 0 < z \<Longrightarrow> path (memp_next s) (memp_tab s i) els \<Longrightarrow> \<forall>a\<in>set els. a < p \<Longrightarrow> memp_carve i z n p s = (p', t) \<Longrightarrow>
   path (memp_next t) (memp_tab t i) (rev (map (\<lambda>j. p + j * z) [0..<n]) @ els) \<and> p' = p + n * z \<and>
   (\<forall>j. j \<noteq> i \<longrightarrow> memp_tab t j = memp_tab s j) \<and> (\<forall>a<p. memp_next t a = memp_next s a)"
proof (induction n arbitrary: p s els)
  case (Suc n)
  let ?s = "s\<lparr>memp_next := (memp_next s)(p := memp_tab s i), memp_tab := (memp_tab s)(i := p)\<rparr>"
  have p: "p \<notin> set els" using Suc.prems(4) by auto
  have "map (\<lambda>j. p + j * z) [0..<Suc n] = p # map (\<lambda>j. p + z + j * z) [0..<n]"
    by (simp add: upt_conv_Cons map_Suc_upt[symmetric] comp_def add.assoc del: upt_Suc)
  moreover have "path (memp_next t) (memp_tab t i) (rev (map (\<lambda>j. p + z + j * z) [0..<n]) @ p # els) \<and> p' = p + z + n * z \<and>
      (\<forall>j. j \<noteq> i \<longrightarrow> memp_tab t j = memp_tab ?s j) \<and> (\<forall>a<p + z. memp_next t a = memp_next ?s a)"
  proof (rule Suc.IH)
    show "path (memp_next ?s) (memp_tab ?s i) (p # els)" using path_upd[OF p] Suc.prems(1,3) by simp
  qed (use Suc.prems in \<open>auto intro: trans_less_add1\<close>)
  ultimately show ?case using Suc.prems(2) by (auto intro: trans_less_add1 simp del: upt_Suc)
qed simp

lemma memp_pools_frame:
  "0 < p \<Longrightarrow> \<forall>(z, n)\<in>set ps. 0 < z \<Longrightarrow> t = memp_pools i ps p s \<Longrightarrow>
   (\<forall>j<i. memp_tab t j = memp_tab s j) \<and> (\<forall>a<p. memp_next t a = memp_next s a)"
proof (induction i ps p s rule: memp_pools.induct)
  case (2 i z n ps p s)
  let ?s = "s\<lparr>memp_tab := (memp_tab s)(i := 0)\<rparr>"
  obtain p' s' where c: "memp_carve i z n p ?s = (p', s')" by fastforce
  have "p' = p + n * z" "\<forall>j. j \<noteq> i \<longrightarrow> memp_tab s' j = memp_tab ?s j" "\<forall>a<p. memp_next s' a = memp_next ?s a"
    using memp_carve_list[of p z ?s i "[]", OF _ _ _ _ c] 2(2,3) by auto
  then show ?case using 2(1)[OF c[symmetric] refl] 2(2-4) c by auto
qed simp

lemma memp_pools_lists:
  "0 < p \<Longrightarrow> \<forall>(z, n)\<in>set ps. 0 < z \<Longrightarrow> t = memp_pools i ps p s \<Longrightarrow> k < length ps \<Longrightarrow>
   path (memp_next t) (memp_tab t (i + k)) (rev (map (\<lambda>j. pool_base ps p k + j * fst (ps ! k)) [0..<snd (ps ! k)]))"
proof (induction i ps p s arbitrary: k rule: memp_pools.induct)
  case (2 i z n ps p s)
  let ?s = "s\<lparr>memp_tab := (memp_tab s)(i := 0)\<rparr>"
  obtain p' s' where c: "memp_carve i z n p ?s = (p', s')" by fastforce
  have p': "p' = p + n * z" and l: "path (memp_next s') (memp_tab s' i) (rev (map (\<lambda>j. p + j * z) [0..<n]))"
    using memp_carve_list[of p z ?s i "[]", OF _ _ _ _ c] 2(2,3) by auto
  have t: "t = memp_pools (Suc i) ps p' s'" using 2(4) c by simp
  show ?case
  proof (cases k)
    case 0
    have f: "memp_tab t i = memp_tab s' i" "\<forall>a<p'. memp_next t a = memp_next s' a"
      using memp_pools_frame[OF _ _ t] 2(2,3) p' by auto
    have "\<forall>a\<in>set (rev (map (\<lambda>j. p + j * z) [0..<n])). a < p'"
      using p' 2(3) by (auto simp: mult_less_mono1)
    then show ?thesis using path_cong[of "rev (map (\<lambda>j. p + j * z) [0..<n])" "memp_next t" "memp_next s'"] l f 0 by auto
  next
    case (Suc k')
    then show ?thesis using 2(1)[OF c[symmetric] refl, of k'] 2(2,3,5) t p' by simp
  qed
qed simp

lemma memp_init_lists:
  assumes "pools_ok L" "i < MEMP_MAX"
  shows "wp (memp_init L) (\<lambda>_ t. free_list L i t (rev (elements L i))) s"
proof -
  let ?ps = "zip (memp_sizes L) memp_num" and ?p = "LWIP_MEM_ALIGN (memp_memory L)"
  note len = sizes_nth(3)[OF assms]
  have "0 < memp_sizes L ! k" if "k < MEMP_MAX" for k using sizes_nth(2)[OF assms(1) that] .
  then have z: "\<forall>(z, n)\<in>set ?ps. 0 < z"
    using sizes_nth(3)[OF assms] by (fastforce simp: set_zip MEMP_MAX_def)
  have p: "0 < ?p" using assms(1) align_ge[of "memp_memory L"] by (simp add: pools_ok_def)
  have "path (memp_next (memp_pools 0 ?ps ?p s)) (memp_tab (memp_pools 0 ?ps ?p s) i) (rev (elements L i))"
    using memp_pools_lists[OF p z refl, of i 0 s] assms(2) len sizes_nth(4)[OF assms] by (simp add: elements_def)
  then show ?thesis
    using assms elements_distinct[OF assms] by (simp add: memp_init_def wp_simps free_list_def)
qed

section \<open>The contract of a pool\<close>

text \<open>
  A pool hands out its elements and takes them back. \<open>avail s els\<close> says which elements are free; a client that
  holds the others gets, from these laws, that it is never given an element it holds and that the null pointer
  means that it holds them all.
\<close>

locale element_pool =
  fixes elems :: "addr set" and avail :: "'s \<Rightarrow> addr list \<Rightarrow> bool"
    and obtain_elem :: "('s, addr) prog" and release_elem :: "addr \<Rightarrow> ('s, unit) prog"
  assumes avail_elems: "avail s els \<Longrightarrow> distinct els \<and> set els \<subseteq> elems \<and> 0 \<notin> elems \<and> finite elems"
    and obtain_first: "avail s (a # els) \<Longrightarrow> wp obtain_elem (\<lambda>r t. r = a \<and> avail t els) s"
    and obtain_null: "avail s [] \<Longrightarrow> wp obtain_elem (\<lambda>r t. r = 0 \<and> t = s) s"
    and release_first: "avail s els \<Longrightarrow> a \<in> elems \<Longrightarrow> a \<notin> set els \<Longrightarrow> wp (release_elem a) (\<lambda>_ t. avail t (a # els)) s"
begin

definition held :: "'s \<Rightarrow> addr set \<Rightarrow> bool" where
  "held s H \<longleftrightarrow> (\<exists>els. avail s els \<and> set els = elems - H \<and> H \<subseteq> elems)"

lemma obtain_held:
  assumes "held s H"
  shows "wp obtain_elem (\<lambda>r t. if H = elems then r = 0 \<and> t = s else r \<in> elems - H \<and> held t (insert r H)) s"
proof -
  obtain els where a: "avail s els" "set els = elems - H" "H \<subseteq> elems" using assms by (auto simp: held_def)
  show ?thesis
  proof (cases els)
    case Nil
    then show ?thesis using obtain_null[of s] a by (auto intro: wp_mono)
  next
    case (Cons x xs)
    have x: "x \<in> elems" "x \<notin> H" using a(2) Cons by auto
    have "set xs = elems - insert x H" using avail_elems[OF a(1)] a(2) Cons by auto
    moreover have "H \<noteq> elems" using x by auto
    ultimately show ?thesis
      using a(1) x a(3) unfolding Cons by (auto simp: held_def intro!: wp_mono[OF obtain_first])
  qed
qed

lemma release_held:
  assumes "held s H" "a \<in> H"
  shows "wp (release_elem a) (\<lambda>_ t. held t (H - {a})) s"
proof -
  obtain els where a: "avail s els" "set els = elems - H" "H \<subseteq> elems" using assms by (auto simp: held_def)
  then show ?thesis
    using assms(2) unfolding held_def by (intro wp_mono[OF release_first[OF a(1)]]) (auto intro!: exI[of _ "a # els"])
qed

end

lemma wp_LWIP_ASSERT [wp_simps]: "wp (LWIP_ASSERT b) Q s \<longleftrightarrow> b \<and> Q () s"
  using wait_stuck[of "ret True" s] by (simp add: LWIP_ASSERT_def wp_def)

lemma wp_memp_malloc:
  assumes "free_list L i s els"
  shows "wp (memp_malloc i) Q s \<longleftrightarrow>
    (case els of [] \<Rightarrow> Q 0 s | a # els' \<Rightarrow> Q a (s\<lparr>memp_tab := (memp_tab s)(i := memp_next s a)\<rparr>))"
  using assms elements_mod[of L i]
  by (cases els) (auto simp: memp_malloc_def wp_simps free_list_def)

lemma wp_memp_free:
  assumes "free_list L i s els" "a \<in> set (elements L i)"
  shows "wp (memp_free i a) Q s \<longleftrightarrow>
    Q () (s\<lparr>memp_next := (memp_next s)(a := memp_tab s i), memp_tab := (memp_tab s)(i := a)\<rparr>)"
  using assms elements_mod[of L i a] by (simp add: memp_free_def wp_simps free_list_def)

interpretation memp: element_pool "set (elements L i)" "free_list L i" "memp_malloc i" "memp_free i" for L i
proof (unfold_locales, goal_cases)
  case (1 s els)
  then show ?case using elements_mod(2)[of L i 0] by (auto simp: free_list_def)
next
  case (2 s a els)
  then show ?case by (subst wp_memp_malloc[OF 2]) (auto simp: free_list_def)
next
  case (3 s)
  then show ?case by (subst wp_memp_malloc[OF 3]) simp
next
  case (4 s els a)
  then show ?case using elements_mod(2)[of L i a] path_upd[of a els] by (subst wp_memp_free[OF 4(1,2)]) (simp add: free_list_def)
qed

text \<open>Which elements of a pool are in use.\<close>

definition pool_held :: "memp_layout \<Rightarrow> nat \<Rightarrow> 'z memp_scheme \<Rightarrow> addr set \<Rightarrow> bool" where
  "pool_held L i s H \<longleftrightarrow> (\<exists>els. free_list L i s els \<and> set els = set (elements L i) - H \<and> H \<subseteq> set (elements L i))"

lemma pool_held_eq: "pool_held L i = memp.held L i"
  by (simp add: pool_held_def memp.held_def fun_eq_iff)

lemma elements_disjoint:
  assumes "pools_ok L" "i < MEMP_MAX" "j < MEMP_MAX" "a \<in> set (elements L i)" "b \<in> set (elements L j)" "a \<noteq> b"
  shows "{a..<a + memp_sizes L ! i} \<inter> {b..<b + memp_sizes L ! j} = {}"
proof (cases "a < b")
  case True
  then show ?thesis using elements_apart[OF assms(1-5)] by auto
next
  case False
  then show ?thesis using elements_apart[OF assms(1,3,2,5,4)] assms(6) by auto
qed

text \<open>
  C29 (safety). The elements of a memory pool are handed out exclusively: with the elements \<open>H\<close> of a pool in
  use, \<^verbatim>\<open>memp_malloc\<close> returns, without a failed assertion, an element that is not among them and does not overlap
  any other element of any pool, or the null pointer exactly when all elements are in use.
\<close>

theorem memp_malloc_exclusive:
  assumes "pool_held L i s H"
  shows "wp (memp_malloc i) (\<lambda>r t.
    if H = set (elements L i) then r = 0 \<and> t = s
    else r \<in> set (elements L i) - H \<and> pool_held L i t (insert r H) \<and>
      (\<forall>j<MEMP_MAX. \<forall>b\<in>set (elements L j). b \<noteq> r \<longrightarrow>
         {r..<r + memp_sizes L ! i} \<inter> {b..<b + memp_sizes L ! j} = {})) s"
proof -
  obtain els where "free_list L i s els" using assms by (auto simp: pool_held_def)
  then have ok: "pools_ok L" "i < MEMP_MAX" by (auto simp: free_list_def)
  show ?thesis
    unfolding pool_held_eq
    by (rule wp_mono[OF memp.obtain_held[OF assms[unfolded pool_held_eq]]])
      (use elements_disjoint[OF ok(1) ok(2)] in \<open>auto split: if_splits simp del: Int_atLeastLessThan atLeastLessThan_empty_iff\<close>)
qed

definition demo_pools :: memp_layout where
  "demo_pools = \<lparr>memp_memory = 0x1002, struct_sizes = [24, 140, 28, 16, 8, 20, 16, 528]\<rparr>"

lemma demo_pools_ok: "pools_ok demo_pools"
  by (simp add: pools_ok_def demo_pools_def MEMP_MAX_def)

lemma memp_init_held:
  assumes "pools_ok L" "i < MEMP_MAX"
  shows "wp (memp_init L) (\<lambda>_ t. pool_held L i t {}) s"
  by (rule wp_mono[OF memp_init_lists[OF assms]]) (auto simp: pool_held_def)

theorem memp_malloc_exclusive_witness:
  "wp (thn (memp_init demo_pools) (memp_malloc MEMP_SYS_TIMEOUT))
     (\<lambda>r t. r \<in> set (elements demo_pools MEMP_SYS_TIMEOUT) \<and> pool_held demo_pools MEMP_SYS_TIMEOUT t {r})
     \<lparr>memp_tab = \<lambda>_. 0, memp_next = \<lambda>_. 0\<rparr>"
proof -
  have i: "MEMP_SYS_TIMEOUT < MEMP_MAX" by (simp add: MEMP_SYS_TIMEOUT_def MEMP_MAX_def)
  have ne: "{} \<noteq> set (elements demo_pools MEMP_SYS_TIMEOUT)"
    by (simp add: elements_def MEMP_SYS_TIMEOUT_def memp_num_def)
  show ?thesis
    unfolding wp_thn
  proof (rule wp_mono[OF memp_init_held[OF demo_pools_ok i]])
    fix t :: memp
    assume "pool_held demo_pools MEMP_SYS_TIMEOUT t {}"
    from memp_malloc_exclusive[OF this, unfolded if_not_P[OF ne]]
    show "wp (memp_malloc MEMP_SYS_TIMEOUT)
      (\<lambda>r t. r \<in> set (elements demo_pools MEMP_SYS_TIMEOUT) \<and> pool_held demo_pools MEMP_SYS_TIMEOUT t {r}) t"
      by (rule wp_mono) simp
  qed
qed

end
