(* ===== verification/Lwip_Timers.thy ===== *)
theory Lwip_Timers
  imports Lwip_Memp "HOL-Library.Multiset"
begin

text \<open>
  The timers of lwIP (\<^verbatim>\<open>lib/lwip/src/core/timers.c\<close>) in this configuration (no operating system, TCP and ARP): a list
  of timeouts in which each element holds the time after its predecessor. The main loop of the lwIP firmware
  does nothing but call \<^verbatim>\<open>sys_check_timeouts\<close>. The rest of the stack is a parameter: the clock, the two
  routines called periodically, and whether TCP has connections. They do not use the timers themselves.
\<close>

section \<open>State\<close>

datatype tmr_handler = Tcpip_tcp_timer | Arp_timer

text \<open>
  The fields of \<^verbatim>\<open>struct sys_timeo\<close> as maps over addresses; its first field \<^verbatim>\<open>next\<close> is \<open>memp_next\<close>. A null function pointer
  is \<open>None\<close>.
\<close>

record 'e tmo = memp +
  timeo_time :: "addr \<Rightarrow> u32"
  timeo_h :: "addr \<Rightarrow> tmr_handler option"
  timeo_arg :: "addr \<Rightarrow> addr"
  next_timeout :: addr
  timeouts_last_time :: u32
  tcpip_tcp_timer_active :: bool
  env :: 'e

record 'e services =
  sys_now :: "('e, u32) prog"
  tcp_tmr :: "('e, unit) prog"
  tcp_pcbs :: "'e \<Rightarrow> bool"
  etharp_tmr :: "('e, unit) prog"
  check_free_ooseq :: "('e, unit) prog"

definition on_env :: "('e, 'a) prog \<Rightarrow> ('e tmo, 'a) prog" where
  "on_env = zoom env (\<lambda>e s. s\<lparr>env := e\<rparr>)"

definition TCP_TMR_INTERVAL :: u32 where "TCP_TMR_INTERVAL = 250"
definition ARP_TMR_INTERVAL :: u32 where "ARP_TMR_INTERVAL = 5000"

section \<open>The list of timeouts\<close>

text \<open>The search for the place of a new timeout, from \<open>t\<close> on.\<close>

partial_function (option) timeo_insert :: "addr \<Rightarrow> addr \<Rightarrow> 'e tmo \<Rightarrow> (fault + unit \<times> 'e tmo) option" where
  "timeo_insert timeout t s =
     (if t = 0 then ret () s
      else
        let s1 = s\<lparr>timeo_time := (timeo_time s)(timeout := timeo_time s timeout - timeo_time s t)\<rparr>;
            n = memp_next s1 t
        in if n = 0 \<or> timeo_time s1 n > timeo_time s1 timeout then
             let s2 = (if n \<noteq> 0 then s1\<lparr>timeo_time := (timeo_time s1)(n := timeo_time s1 n - timeo_time s1 timeout)\<rparr> else s1)
             in modify (\<lambda>s. s\<lparr>memp_next := (memp_next s)(timeout := n, t := timeout)\<rparr>) s2
           else timeo_insert timeout n s1)"

definition link_timeo :: "addr \<Rightarrow> u32 \<Rightarrow> ('e tmo, unit) prog" where
  "link_timeo timeout msecs =
     bnd (gets next_timeout) (\<lambda>n.
       if n = 0 then modify (\<lambda>s. s\<lparr>next_timeout := timeout\<rparr>)
       else bnd (gets (\<lambda>s. timeo_time s n)) (\<lambda>tm.
         if tm > msecs then
           modify (\<lambda>s. s\<lparr>timeo_time := (timeo_time s)(n := timeo_time s n - msecs),
             memp_next := (memp_next s)(timeout := n), next_timeout := timeout\<rparr>)
         else timeo_insert timeout n))"

definition sys_timeout :: "u32 \<Rightarrow> tmr_handler option \<Rightarrow> addr \<Rightarrow> ('e tmo, unit) prog" where
  "sys_timeout msecs handler arg =
     bnd (memp_malloc MEMP_SYS_TIMEOUT) (\<lambda>timeout.
       if timeout = 0 then LWIP_ASSERT (timeout \<noteq> 0)
       else
         thn (modify (\<lambda>s. s\<lparr>memp_next := (memp_next s)(timeout := 0), timeo_h := (timeo_h s)(timeout := handler),
           timeo_arg := (timeo_arg s)(timeout := arg), timeo_time := (timeo_time s)(timeout := msecs)\<rparr>))
         (link_timeo timeout msecs))"

text \<open>The search of \<^verbatim>\<open>sys_untimeout\<close>, at \<open>t\<close> with the predecessor \<open>prev\<close>.\<close>

partial_function (option) untimeo :: "tmr_handler option \<Rightarrow> addr \<Rightarrow> addr \<Rightarrow> addr \<Rightarrow> 'e tmo \<Rightarrow> (fault + unit \<times> 'e tmo) option" where
  "untimeo handler arg prev t s =
     (if t = 0 then ret () s
      else if timeo_h s t = handler \<and> timeo_arg s t = arg then
        let n = memp_next s t;
            s1 = (if prev = 0 then s\<lparr>next_timeout := n\<rparr> else s\<lparr>memp_next := (memp_next s)(prev := n)\<rparr>);
            s2 = (if n \<noteq> 0 then s1\<lparr>timeo_time := (timeo_time s1)(n := timeo_time s1 n + timeo_time s1 t)\<rparr> else s1)
        in memp_free MEMP_SYS_TIMEOUT t s2
      else untimeo handler arg t (memp_next s t) s)"

definition sys_untimeout :: "tmr_handler option \<Rightarrow> addr \<Rightarrow> ('e tmo, unit) prog" where
  "sys_untimeout handler arg =
     bnd (gets next_timeout) (\<lambda>n. if n = 0 then ret () else untimeo handler arg 0 n)"

section \<open>Periodic timers\<close>

definition tcpip_tcp_timer :: "'e services \<Rightarrow> ('e tmo, unit) prog" where
  "tcpip_tcp_timer S =
     thn (on_env (tcp_tmr S))
     (bnd (gets (\<lambda>s. tcp_pcbs S (env s))) (\<lambda>b.
       if b then sys_timeout TCP_TMR_INTERVAL (Some Tcpip_tcp_timer) 0
       else modify (\<lambda>s. s\<lparr>tcpip_tcp_timer_active := False\<rparr>)))"

definition tcp_timer_needed :: "'e services \<Rightarrow> ('e tmo, unit) prog" where
  "tcp_timer_needed S =
     bnd (gets (\<lambda>s. \<not> tcpip_tcp_timer_active s \<and> tcp_pcbs S (env s))) (\<lambda>b.
       if b then
         thn (modify (\<lambda>s. s\<lparr>tcpip_tcp_timer_active := True\<rparr>))
             (sys_timeout TCP_TMR_INTERVAL (Some Tcpip_tcp_timer) 0)
       else ret ())"

definition arp_timer :: "'e services \<Rightarrow> ('e tmo, unit) prog" where
  "arp_timer S = thn (on_env (etharp_tmr S)) (sys_timeout ARP_TMR_INTERVAL (Some Arp_timer) 0)"

definition sys_timeouts_init :: "'e services \<Rightarrow> ('e tmo, unit) prog" where
  "sys_timeouts_init S =
     thn (sys_timeout ARP_TMR_INTERVAL (Some Arp_timer) 0)
     (bnd (on_env (sys_now S)) (\<lambda>now. modify (\<lambda>s. s\<lparr>timeouts_last_time := now\<rparr>)))"

definition run_handler :: "'e services \<Rightarrow> tmr_handler option \<Rightarrow> ('e tmo, unit) prog" where
  "run_handler S handler =
     (case handler of
        None \<Rightarrow> ret ()
      | Some Tcpip_tcp_timer \<Rightarrow> tcpip_tcp_timer S
      | Some Arp_timer \<Rightarrow> arp_timer S)"

text \<open>The removal of the first timeout, and the call of its handler.\<close>

definition fire :: "'e services \<Rightarrow> addr \<Rightarrow> ('e tmo, unit) prog" where
  "fire S tmptimeout =
     thn (modify (\<lambda>s. s\<lparr>next_timeout := memp_next s tmptimeout\<rparr>))
     (bnd (gets (\<lambda>s. timeo_h s tmptimeout)) (\<lambda>handler.
       thn (memp_free MEMP_SYS_TIMEOUT tmptimeout) (run_handler S handler)))"

partial_function (option) check_timeouts :: "'e services \<Rightarrow> u32 \<Rightarrow> u32 \<Rightarrow> 'e tmo \<Rightarrow> (fault + unit \<times> 'e tmo) option" where
  "check_timeouts S now diff s =
     thn (on_env (check_free_ooseq S))
     (bnd (gets (\<lambda>s. (next_timeout s, timeo_time s (next_timeout s)))) (\<lambda>(tmptimeout, tm).
       if tmptimeout \<noteq> 0 \<and> tm \<le> diff then
         thn (modify (\<lambda>s. s\<lparr>timeouts_last_time := now\<rparr>))
         (thn (fire S tmptimeout) (check_timeouts S now (diff - tm)))
       else ret ())) s"

definition sys_check_timeouts :: "'e services \<Rightarrow> ('e tmo, unit) prog" where
  "sys_check_timeouts S =
     bnd (gets next_timeout) (\<lambda>n.
       if n \<noteq> 0 then
         bnd (on_env (sys_now S)) (\<lambda>now.
         bnd (gets timeouts_last_time) (\<lambda>last_time. check_timeouts S now (now - last_time)))
       else ret ())"

definition sys_restart_timeouts :: "'e services \<Rightarrow> ('e tmo, unit) prog" where
  "sys_restart_timeouts S = bnd (on_env (sys_now S)) (\<lambda>now. modify (\<lambda>s. s\<lparr>timeouts_last_time := now\<rparr>))"

section \<open>Abstract timeouts\<close>

text \<open>
  A timeout is due some time after the last check, with a handler and its argument. The abstract list
  has the timeouts in the order in which they are due; among those due at the same time, the older first.
\<close>

type_synonym timeout = "nat \<times> tmr_handler option \<times> addr"

definition spec_timeout :: "timeout \<Rightarrow> timeout list \<Rightarrow> timeout list" where
  "spec_timeout x l = takeWhile (\<lambda>y. fst y \<le> fst x) l @ x # dropWhile (\<lambda>y. fst y \<le> fst x) l"

fun spec_untimeout :: "tmr_handler option \<times> addr \<Rightarrow> timeout list \<Rightarrow> timeout list" where
  "spec_untimeout k [] = []"
| "spec_untimeout k (x # l) = (if snd x = k then l else x # spec_untimeout k l)"

text \<open>The timeouts the elements of a list stand for, from \<open>d\<close> on.\<close>

fun due_list :: "nat \<Rightarrow> 'e tmo \<Rightarrow> addr list \<Rightarrow> timeout list" where
  "due_list d s [] = []"
| "due_list d s (a # els) =
     (d + unat (timeo_time s a), timeo_h s a, timeo_arg s a) # due_list (d + unat (timeo_time s a)) s els"

definition timer_list :: "memp_layout \<Rightarrow> 'e tmo \<Rightarrow> addr list \<Rightarrow> bool" where
  "timer_list L s els \<longleftrightarrow>
     path (memp_next s) (next_timeout s) els \<and> distinct els \<and> pool_held L MEMP_SYS_TIMEOUT s (set els)"

definition timers :: "memp_layout \<Rightarrow> 'e tmo \<Rightarrow> timeout list \<Rightarrow> bool" where
  "timers L s l \<longleftrightarrow> (\<exists>els. timer_list L s els \<and> l = due_list 0 s els) \<and> (\<forall>x\<in>set l. fst x < 2 ^ 32)"

lemma due_list_cong:
  "(\<And>a. a \<in> set els \<Longrightarrow> timeo_time t a = timeo_time s a \<and> timeo_h t a = timeo_h s a \<and> timeo_arg t a = timeo_arg s a) \<Longrightarrow>
   due_list d t els = due_list d s els"
  by (induction els arbitrary: d) auto

lemma due_list_length [simp]: "length (due_list d s els) = length els"
  by (induction els arbitrary: d) auto

lemma due_list_ge: "x \<in> set (due_list d s els) \<Longrightarrow> d \<le> fst x"
  by (induction els arbitrary: d) force+

lemma due_list_sorted: "sorted (map fst (due_list d s els))"
  by (induction els arbitrary: d) (auto dest: due_list_ge)

lemma due_list_shift: "due_list (d + e) s els = map (\<lambda>(u, x). (u + e, x)) (due_list d s els)"
proof (induction els arbitrary: d)
  case (Cons a els)
  show ?case using Cons.IH[of "d + unat (timeo_time s a)"] by (simp add: ac_simps)
qed simp

lemma pool_held_frame:
  assumes "pool_held L i s H" "memp_tab t i = memp_tab s i" "\<And>a. a \<in> set (elements L i) - H \<Longrightarrow> memp_next t a = memp_next s a"
  shows "pool_held L i t H"
proof -
  obtain els where els: "free_list L i s els" "set els = set (elements L i) - H" "H \<subseteq> set (elements L i)"
    using assms(1) by (auto simp: pool_held_def)
  have "path (memp_next t) (memp_tab t i) els = path (memp_next s) (memp_tab t i) els"
    using assms(3) els(2) by (intro path_cong) simp
  then show ?thesis using els assms(2) by (auto simp: pool_held_def free_list_def)
qed

text \<open>The abstract list decides how many elements of the pool are left.\<close>

lemma elements_length: "i < MEMP_MAX \<Longrightarrow> length (elements L i) = memp_num ! i"
  by (simp add: elements_def)

lemma timer_list_room:
  assumes "timer_list L s els"
  shows "length els \<le> 3" "length els < 3 \<longleftrightarrow> set els \<noteq> set (elements L MEMP_SYS_TIMEOUT)"
proof -
  have ok: "pools_ok L" "set els \<subseteq> set (elements L MEMP_SYS_TIMEOUT)" "distinct els" "MEMP_SYS_TIMEOUT < MEMP_MAX"
    using assms by (auto simp: timer_list_def pool_held_def free_list_def)
  have c: "card (set (elements L MEMP_SYS_TIMEOUT)) = 3"
    using elements_distinct[OF ok(1,4)] elements_length[OF ok(4)] by (simp add: distinct_card MEMP_SYS_TIMEOUT_def memp_num_def)
  have l: "length els = card (set els)" using ok(3) by (simp add: distinct_card)
  show "length els \<le> 3" unfolding l using card_mono[OF _ ok(2)] c by simp
  show "length els < 3 \<longleftrightarrow> set els \<noteq> set (elements L MEMP_SYS_TIMEOUT)"
    unfolding l using c ok(2) psubset_card_mono[of "set (elements L MEMP_SYS_TIMEOUT)" "set els"] by (cases "set els = set (elements L MEMP_SYS_TIMEOUT)") auto
qed

section \<open>Setting a timeout\<close>

text \<open>
  The search for the place of the new element \<open>t\<close> behind \<open>p\<close>: it returns, links the element in, and changes
  the times of nothing but the new element and its successor.
\<close>

lemma timeo_insert_run:
  assumes "path (memp_next s) p (p # ps)" "distinct (t # p # ps)" "t \<noteq> 0" "timeo_time s p \<le> timeo_time s t"
  shows "\<exists>nx tm qs. timeo_insert t p s = Some (Inr ((), s\<lparr>memp_next := nx, timeo_time := tm\<rparr>)) \<and>
    path nx p qs \<and> distinct qs \<and> set qs = set (t # p # ps) \<and>
    due_list d (s\<lparr>memp_next := nx, timeo_time := tm\<rparr>) qs =
      spec_timeout (d + unat (timeo_time s t), timeo_h s t, timeo_arg s t) (due_list d s (p # ps)) \<and>
    (\<forall>a. a \<notin> set (t # p # ps) \<longrightarrow> nx a = memp_next s a \<and> tm a = timeo_time s a) \<and> tm p = timeo_time s p"
  using assms
proof (induction ps arbitrary: p s d)
  case Nil
  let ?tm = "(timeo_time s)(t := timeo_time s t - timeo_time s p)" and ?nx = "(memp_next s)(t := 0, p := t)"
  have u: "unat (timeo_time s t - timeo_time s p) = unat (timeo_time s t) - unat (timeo_time s p)"
    "unat (timeo_time s p) \<le> unat (timeo_time s t)"
    using Nil(4) by (simp_all add: unat_sub_le unat_le_iff_nat)
  have run: "timeo_insert t p s = Some (Inr ((), s\<lparr>memp_next := ?nx, timeo_time := ?tm\<rparr>))"
    using Nil by (subst timeo_insert.simps) (simp add: Let_def)
  show ?case
    by (intro exI[of _ ?nx] exI[of _ ?tm] exI[of _ "[p, t]"] conjI, rule run)
      (use Nil u in \<open>auto simp: spec_timeout_def\<close>)
next
  case (Cons q ps)
  let ?r = "timeo_time s t - timeo_time s p"
  let ?s1 = "s\<lparr>timeo_time := (timeo_time s)(t := ?r)\<rparr>"
  have u: "unat ?r = unat (timeo_time s t) - unat (timeo_time s p)" "unat (timeo_time s p) \<le> unat (timeo_time s t)"
    using Cons.prems(4) by (simp_all add: unat_sub_le unat_le_iff_nat)
  have ne: "p \<noteq> 0" "q \<noteq> 0" "t \<noteq> p" "t \<noteq> q" "p \<noteq> q" "memp_next s p = q" using Cons.prems by auto
  have dl: "due_list e ?s1 els = due_list e s els" if "t \<notin> set els" for e els
    using that by (intro due_list_cong) auto
  show ?case
  proof (cases "?r < timeo_time s q")
    case True
    let ?tm = "(timeo_time s)(t := ?r, q := timeo_time s q - ?r)" and ?nx = "(memp_next s)(t := q, p := t)"
    let ?s' = "s\<lparr>memp_next := ?nx, timeo_time := ?tm\<rparr>"
    have v: "unat (timeo_time s q - ?r) = unat (timeo_time s q) - unat ?r" "unat ?r < unat (timeo_time s q)"
      using unat_sub_le[OF less_imp_le[OF True]] True by (simp_all add: word_less_nat_alt)
    have run: "timeo_insert t p s = Some (Inr ((), ?s'))"
      using True ne by (subst timeo_insert.simps) (simp add: Let_def)
    have c: "due_list e ?s' ps = due_list e s ps" for e
      using Cons.prems(2) by (intro due_list_cong) auto
    have pth: "path ?nx p (p # t # q # ps)"
      using Cons.prems ne path_upd[of p ps "(memp_next s)(t := q)"] path_upd[of t ps "memp_next s"] by auto
    have due: "due_list d ?s' (p # t # q # ps) =
        spec_timeout (d + unat (timeo_time s t), timeo_h s t, timeo_arg s t) (due_list d s (p # q # ps))"
    proof -
      have "unat (timeo_time s t) = unat (timeo_time s p) + unat ?r" "0 < unat (timeo_time s q - ?r)"
        "unat (timeo_time s q) = unat ?r + unat (timeo_time s q - ?r)" using u v by simp_all
      then show ?thesis using ne c by (simp add: spec_timeout_def add.assoc)
    qed
    show ?thesis
      by (intro exI[of _ ?nx] exI[of _ ?tm] exI[of _ "p # t # q # ps"] conjI,
          rule run, rule pth, use Cons.prems(2) ne in force, force, rule due)
        (use Cons.prems(2) ne in auto)
  next
    case False
    have run: "timeo_insert t p s = timeo_insert t q ?s1"
      using False ne by (subst timeo_insert.simps) (simp add: Let_def)
    have "path (memp_next ?s1) q (q # ps)" "distinct (t # q # ps)" "timeo_time ?s1 q \<le> timeo_time ?s1 t"
      using Cons.prems ne False by auto
    from Cons.IH[OF this(1,2) Cons.prems(3) this(3), of "d + unat (timeo_time s p)"] obtain nx tm qs where
      i: "timeo_insert t q ?s1 = Some (Inr ((), ?s1\<lparr>memp_next := nx, timeo_time := tm\<rparr>))"
      "path nx q qs" "distinct qs" "set qs = set (t # q # ps)"
      "due_list (d + unat (timeo_time s p)) (?s1\<lparr>memp_next := nx, timeo_time := tm\<rparr>) qs =
        spec_timeout (d + unat (timeo_time s p) + unat (timeo_time ?s1 t), timeo_h ?s1 t, timeo_arg ?s1 t)
          (due_list (d + unat (timeo_time s p)) ?s1 (q # ps))"
      "\<forall>a. a \<notin> set (t # q # ps) \<longrightarrow> nx a = memp_next ?s1 a \<and> tm a = timeo_time ?s1 a" by blast
    have p: "nx p = q" "tm p = timeo_time s p" "p \<notin> set qs" using i(4,6) Cons.prems(2) ne by auto
    have "due_list d (s\<lparr>memp_next := nx, timeo_time := tm\<rparr>) (p # qs) =
        spec_timeout (d + unat (timeo_time s t), timeo_h s t, timeo_arg s t) (due_list d s (p # q # ps))"
      using i(5) u p(2) dl[of "q # ps"] Cons.prems(2) by (simp add: spec_timeout_def)
    then show ?thesis
      using run i p ne by (intro exI[of _ nx] exI[of _ tm] exI[of _ "p # qs"] conjI) auto
  qed
qed

lemma spec_timeout_set: "set (spec_timeout x l) = insert x (set l)"
  unfolding spec_timeout_def by (subst (3) takeWhile_dropWhile_id[symmetric, of _ "\<lambda>y. fst y \<le> fst x"]) (simp only: set_append list.set, blast)

lemma spec_timeout_length [simp]: "length (spec_timeout x l) = Suc (length l)"
proof -
  let ?P = "\<lambda>y. fst y \<le> fst x"
  have "length (takeWhile ?P l) + length (dropWhile ?P l) = length l"
    by (subst length_append[symmetric]) (simp only: takeWhile_dropWhile_id)
  then show ?thesis by (simp add: spec_timeout_def)
qed

text \<open>The new element, taken from the pool and filled in.\<close>

definition new_timeo :: "addr \<Rightarrow> u32 \<Rightarrow> tmr_handler option \<Rightarrow> addr \<Rightarrow> 'e tmo \<Rightarrow> 'e tmo" where
  "new_timeo f m h a s =
     s\<lparr>memp_tab := (memp_tab s)(MEMP_SYS_TIMEOUT := memp_next s f), memp_next := (memp_next s)(f := 0),
       timeo_h := (timeo_h s)(f := h), timeo_arg := (timeo_arg s)(f := a), timeo_time := (timeo_time s)(f := m)\<rparr>"

lemma new_timeo_sel [simp]:
  "next_timeout (new_timeo f m h a s) = next_timeout s" "timeouts_last_time (new_timeo f m h a s) = timeouts_last_time s"
  "tcpip_tcp_timer_active (new_timeo f m h a s) = tcpip_tcp_timer_active s" "env (new_timeo f m h a s) = env s"
  "memp_next (new_timeo f m h a s) = (memp_next s)(f := 0)" "timeo_time (new_timeo f m h a s) = (timeo_time s)(f := m)"
  "timeo_h (new_timeo f m h a s) = (timeo_h s)(f := h)" "timeo_arg (new_timeo f m h a s) = (timeo_arg s)(f := a)"
  by (simp_all add: new_timeo_def)

lemma new_timeo_held:
  assumes "timer_list L s els" "length els < 3"
  obtains f where "f \<noteq> 0" "f \<notin> set els" "pool_held L MEMP_SYS_TIMEOUT (new_timeo f m h a s) (insert f (set els))"
    "\<And>Q. wp (memp_malloc MEMP_SYS_TIMEOUT) Q s \<longleftrightarrow> Q f (s\<lparr>memp_tab := (memp_tab s)(MEMP_SYS_TIMEOUT := memp_next s f)\<rparr>)"
proof -
  let ?i = MEMP_SYS_TIMEOUT
  obtain fs where fs: "free_list L ?i s fs" "set fs = set (elements L ?i) - set els" "set els \<subseteq> set (elements L ?i)"
    using assms(1) by (auto simp: timer_list_def pool_held_def)
  have "fs \<noteq> []" using timer_list_room(2)[OF assms(1)] assms(2) fs(2,3) by auto
  then obtain f fs' where f: "fs = f # fs'" by (cases fs) auto
  have n: "f \<notin> set fs'" "f \<in> set (elements L ?i)" "f \<notin> set els" "path (memp_next s) (memp_next s f) fs'" "f \<noteq> 0"
    using fs(1,2) f by (auto simp: free_list_def)
  have "free_list L ?i (new_timeo f m h a s) fs'"
    using fs(1) f n path_upd[of f fs' "memp_next s"] by (simp add: free_list_def new_timeo_def)
  moreover have "set fs' = set (elements L ?i) - insert f (set els)" using fs(2) f n(1) by auto
  ultimately have "pool_held L ?i (new_timeo f m h a s) (insert f (set els))"
    using fs(3) n(2) by (auto simp: pool_held_def)
  with that[of f] n(3,5) show thesis using wp_memp_malloc[OF fs(1)] f by simp
qed

lemma wp_sys_timeout:
  assumes "timers L s l" "length l < 3"
  shows "wp (sys_timeout m h a) (\<lambda>_ t. timers L t (spec_timeout (unat m, h, a) l) \<and>
    timeouts_last_time t = timeouts_last_time s \<and> tcpip_tcp_timer_active t = tcpip_tcp_timer_active s \<and> env t = env s) s"
    (is "wp _ (\<lambda>_ t. ?Q t) s")
proof -
  let ?i = MEMP_SYS_TIMEOUT
  obtain els where els: "timer_list L s els" "l = due_list 0 s els" "\<forall>x\<in>set l. fst x < 2 ^ 32"
    using assms(1) by (auto simp: timers_def)
  then have l3: "length els < 3" using assms(2) by simp
  obtain f where f: "f \<noteq> 0" "f \<notin> set els" "pool_held L ?i (new_timeo f m h a s) (insert f (set els))"
    and w: "\<And>Q. wp (memp_malloc ?i) Q s \<longleftrightarrow> Q f (s\<lparr>memp_tab := (memp_tab s)(?i := memp_next s f)\<rparr>)"
    using new_timeo_held[OF els(1) l3, where m = m and h = h and a = a] by blast
  let ?s0 = "new_timeo f m h a s"
  have p: "path (memp_next s) (next_timeout s) els" "distinct els" using els(1) by (auto simp: timer_list_def)
  have p0: "path ((memp_next s)(f := v)) (next_timeout s) els" for v using p(1) f(2) by simp
  have bound: "\<forall>x\<in>set (spec_timeout (unat m, h, a) l). fst x < 2 ^ 32"
    using els(3) unsigned_less[of m] by (simp add: spec_timeout_set)
  have dl: "due_list d ?s0 els = due_list d s els" for d using f(2) by (intro due_list_cong) auto
  have fin: "?Q t" if "timer_list L t qs" "due_list 0 t qs = spec_timeout (unat m, h, a) l"
    "timeouts_last_time t = timeouts_last_time s" "tcpip_tcp_timer_active t = tcpip_tcp_timer_active s" "env t = env s" for t qs
    using that bound by (auto simp: timers_def)
  have "wp (link_timeo f m) (\<lambda>_ t. ?Q t) ?s0"
  proof (cases els)
    case Nil
    have "?Q (?s0\<lparr>next_timeout := f\<rparr>)"
      by (rule fin[of _ "[f]"])
        (use f(1,3) Nil els(2) in \<open>auto simp: timer_list_def spec_timeout_def intro: pool_held_frame[of L ?i ?s0]\<close>)
    then show ?thesis using p(1) Nil by (simp add: link_timeo_def wp_simps)
  next
    case (Cons n ns)
    have n: "n \<noteq> 0" "next_timeout s = n" "n \<noteq> f" "n \<notin> set ns" "f \<notin> set ns" using p f(2) Cons by auto
    show ?thesis
    proof (cases "m < timeo_time s n")
      case True
      have v: "unat (timeo_time s n - m) = unat (timeo_time s n) - unat m" "unat m < unat (timeo_time s n)"
        using unat_sub_le[OF less_imp_le[OF True]] True by (simp_all add: word_less_nat_alt)
      let ?t = "?s0\<lparr>timeo_time := (timeo_time ?s0)(n := timeo_time ?s0 n - m), memp_next := (memp_next ?s0)(f := n), next_timeout := f\<rparr>"
      have c: "due_list d ?t ns = due_list d s ns" for d using n by (intro due_list_cong) auto
      have "?Q ?t"
      proof (rule fin[of _ "f # els"])
        have "pool_held L ?i ?t (insert f (set els))" by (rule pool_held_frame[OF f(3)]) auto
        then show "timer_list L ?t (f # els)"
          using f(1,2) p0[of n] p(2) n by (simp add: timer_list_def)
        show "due_list 0 ?t (f # els) = spec_timeout (unat m, h, a) l"
          using v n c els(2) Cons by (simp add: spec_timeout_def)
      qed simp_all
      then show ?thesis using True n by (simp add: link_timeo_def wp_simps)
    next
      case False
      have "path (memp_next ?s0) n (n # ns)" using p0[of 0] n Cons by simp
      moreover have "distinct (f # n # ns)" "timeo_time ?s0 n \<le> timeo_time ?s0 f" using p(2) n Cons False by auto
      ultimately obtain nx tm qs where i: "timeo_insert f n ?s0 = Some (Inr ((), ?s0\<lparr>memp_next := nx, timeo_time := tm\<rparr>))"
        "path nx n qs" "distinct qs" "set qs = set (f # n # ns)"
        "due_list 0 (?s0\<lparr>memp_next := nx, timeo_time := tm\<rparr>) qs =
          spec_timeout (0 + unat (timeo_time ?s0 f), timeo_h ?s0 f, timeo_arg ?s0 f) (due_list 0 ?s0 (n # ns))"
        "\<forall>a. a \<notin> set (f # n # ns) \<longrightarrow> nx a = memp_next ?s0 a"
        using timeo_insert_run[of ?s0 n ns f 0] f(1) by blast
      let ?t = "?s0\<lparr>memp_next := nx, timeo_time := tm\<rparr>"
      have "?Q ?t"
      proof (rule fin[of _ qs])
        have "pool_held L ?i ?t (insert f (set els))" by (rule pool_held_frame[OF f(3)]) (use i(6) Cons in auto)
        then show "timer_list L ?t qs" using i(2-4) n Cons by (simp add: timer_list_def)
        show "due_list 0 ?t qs = spec_timeout (unat m, h, a) l"
          using i(5) dl[of 0] unfolding els(2) Cons by (simp del: due_list.simps)
      qed simp_all
      then show ?thesis using False n i(1) by (simp add: link_timeo_def bnd_def wp_def)
    qed
  qed
  then show ?thesis
    using f(1) unfolding sys_timeout_def wp_bnd w by (simp add: wp_simps new_timeo_def)
qed

text \<open>Without a free element the assertion fails, and nothing returns any more.\<close>

lemma sys_timeout_full:
  assumes "timers L s l" "length l = 3"
  shows "\<not> wp (sys_timeout m h a) Q s"
proof -
  let ?i = MEMP_SYS_TIMEOUT
  obtain els where els: "timer_list L s els" "l = due_list 0 s els" using assms(1) by (auto simp: timers_def)
  obtain fs where fs: "free_list L ?i s fs" "set fs = set (elements L ?i) - set els"
    using els(1) by (auto simp: timer_list_def pool_held_def)
  have "fs = []" using timer_list_room(2)[OF els(1)] assms(2) els(2) fs(2) by auto
  then show ?thesis unfolding sys_timeout_def wp_bnd wp_memp_malloc[OF fs(1)] by (simp add: wp_simps)
qed

section \<open>Cancelling a timeout\<close>

text \<open>Giving an element back to the pool.\<close>

definition give_back :: "addr \<Rightarrow> 'e tmo \<Rightarrow> 'e tmo" where
  "give_back a s =
     s\<lparr>memp_next := (memp_next s)(a := memp_tab s MEMP_SYS_TIMEOUT), memp_tab := (memp_tab s)(MEMP_SYS_TIMEOUT := a)\<rparr>"

lemma give_back_sel [simp]:
  "next_timeout (give_back a s) = next_timeout s" "timeouts_last_time (give_back a s) = timeouts_last_time s"
  "tcpip_tcp_timer_active (give_back a s) = tcpip_tcp_timer_active s" "env (give_back a s) = env s"
  "memp_next (give_back a s) = (memp_next s)(a := memp_tab s MEMP_SYS_TIMEOUT)" "timeo_time (give_back a s) = timeo_time s"
  "timeo_h (give_back a s) = timeo_h s" "timeo_arg (give_back a s) = timeo_arg s"
  by (simp_all add: give_back_def)

lemma give_back_held:
  assumes "pool_held L MEMP_SYS_TIMEOUT s H" "a \<in> H"
  shows "wp (memp_free MEMP_SYS_TIMEOUT a) Q s \<longleftrightarrow> Q () (give_back a s)"
    and "pool_held L MEMP_SYS_TIMEOUT (give_back a s) (H - {a})"
proof -
  obtain els where els: "free_list L MEMP_SYS_TIMEOUT s els" "a \<in> set (elements L MEMP_SYS_TIMEOUT)"
    using assms by (auto simp: pool_held_def)
  show w: "wp (memp_free MEMP_SYS_TIMEOUT a) Q s \<longleftrightarrow> Q () (give_back a s)" for Q
    unfolding wp_memp_free[OF els] give_back_def ..
  show "pool_held L MEMP_SYS_TIMEOUT (give_back a s) (H - {a})"
    using memp.release_held[of L MEMP_SYS_TIMEOUT s H a] assms unfolding pool_held_eq w by blast
qed

lemma path_remove:
  "path nx a (ws @ p # y # ys) \<Longrightarrow> distinct (ws @ p # y # ys) \<Longrightarrow> path (nx(p := nx y)) a (ws @ p # ys)"
  by (induction ws arbitrary: a) auto

lemma path_next: "path nx a (xs @ y # ys) \<Longrightarrow> nx y = (case ys of [] \<Rightarrow> 0 | z # _ \<Rightarrow> z)"
  by (induction xs arbitrary: a) (auto split: list.splits)

lemma due_list_append:
  "due_list d s (xs @ ys) = due_list d s xs @ due_list (d + sum_list (map (\<lambda>a. unat (timeo_time s a)) xs)) s ys"
  by (induction xs arbitrary: d) (auto simp: add.assoc)

lemma spec_untimeout_append:
  "(\<forall>x\<in>set l. snd x \<noteq> k) \<Longrightarrow> spec_untimeout k (l @ m) = l @ spec_untimeout k m"
  by (induction l) auto

lemma spec_untimeout_set: "set (spec_untimeout k l) \<subseteq> set l"
  by (induction k l rule: spec_untimeout.induct) auto

text \<open>
  The list without its element \<open>y\<close>: the element behind it takes over its time. \<open>prev\<close> is its predecessor, or null
  when it is the first.
\<close>

definition unlink :: "addr \<Rightarrow> addr \<Rightarrow> 'e tmo \<Rightarrow> 'e tmo" where
  "unlink prev y s =
     (let n = memp_next s y;
          s1 = (if prev = 0 then s\<lparr>next_timeout := n\<rparr> else s\<lparr>memp_next := (memp_next s)(prev := n)\<rparr>)
      in if n \<noteq> 0 then s1\<lparr>timeo_time := (timeo_time s1)(n := timeo_time s1 n + timeo_time s1 y)\<rparr> else s1)"

lemma unlink_timers:
  assumes tl: "timer_list L s (xs @ y # ys)" and b: "\<forall>x\<in>set (due_list 0 s (xs @ y # ys)). fst x < 2 ^ 32"
    and prev: "prev = (if xs = [] then 0 else last xs)" and t: "t = give_back y (unlink prev y s)"
  shows "timer_list L t (xs @ ys)"
    and "due_list 0 t (xs @ ys) = due_list 0 s xs @ tl (due_list (sum_list (map (\<lambda>a. unat (timeo_time s a)) xs)) s (y # ys))"
    and "wp (memp_free MEMP_SYS_TIMEOUT y) Q (unlink prev y s) \<longleftrightarrow> Q () t"
proof -
  let ?i = MEMP_SYS_TIMEOUT and ?H = "set (xs @ y # ys)" and ?u = "unlink prev y s"
  have p: "path (memp_next s) (next_timeout s) (xs @ y # ys)" "distinct (xs @ y # ys)" "pool_held L ?i s ?H"
    using tl by (auto simp: timer_list_def)
  have nz: "0 \<notin> set (xs @ y # ys)"
    using p(3) elements_mod(2)[of L ?i 0] by (auto simp: pool_held_def free_list_def)
  have "last xs \<noteq> 0" if "xs \<noteq> []" using nz last_in_set[OF that] by (metis Un_iff set_append)
  then have pr: "prev = 0 \<longleftrightarrow> xs = []" "xs \<noteq> [] \<Longrightarrow> prev \<in> set xs" using prev by auto
  have "pool_held L ?i ?u ?H"
    by (rule pool_held_frame[OF p(3)]) (use pr in \<open>auto simp: unlink_def Let_def\<close>)
  note g = give_back_held[OF this, of y]
  show "wp (memp_free ?i y) Q ?u \<longleftrightarrow> Q () t" using g(1) t by simp
  have "path (memp_next ?u) (next_timeout ?u) (xs @ ys)"
  proof (cases xs rule: rev_cases)
    case Nil
    then show ?thesis using p(1) prev by (auto simp: unlink_def Let_def)
  next
    case (snoc ws q)
    then have u: "memp_next ?u = (memp_next s)(q := memp_next s y)" "next_timeout ?u = next_timeout s"
      using prev nz by (simp_all add: unlink_def Let_def)
    show ?thesis unfolding u using path_remove[of "memp_next s" _ ws q y ys] p(1,2) snoc by simp
  qed
  then show "timer_list L t (xs @ ys)"
    using g(2) p(2) t path_upd[of y "xs @ ys" "memp_next ?u"] by (auto simp: timer_list_def insert_Diff_if Un_Diff)
  let ?T = "sum_list (map (\<lambda>a. unat (timeo_time s a)) xs)"
  have ny: "memp_next s y = (case ys of [] \<Rightarrow> 0 | z # _ \<Rightarrow> z)" by (rule path_next[OF p(1)])
  show "due_list 0 t (xs @ ys) = due_list 0 s xs @ tl (due_list ?T s (y # ys))"
  proof (cases ys)
    case Nil
    then have "due_list 0 t xs = due_list 0 s xs"
      using ny t by (intro due_list_cong) (simp add: unlink_def Let_def)
    then show ?thesis using Nil by simp
  next
    case (Cons z zs)
    have z: "z \<notin> set xs" "z \<notin> set zs" "z \<noteq> y" "z \<noteq> 0" using p(2) nz Cons by auto
    have tm: "timeo_time t = (timeo_time s)(z := timeo_time s z + timeo_time s y)" "timeo_h t = timeo_h s" "timeo_arg t = timeo_arg s"
      using ny t z Cons by (simp_all add: unlink_def Let_def)
    have "?T + unat (timeo_time s y) + unat (timeo_time s z) < 2 ^ 32"
      using b Cons by (simp add: due_list_append)
    then have u: "unat (timeo_time s z + timeo_time s y) = unat (timeo_time s z) + unat (timeo_time s y)"
      by (intro unat_add_lt) simp
    have x: "due_list 0 t xs = due_list 0 s xs" "due_list e t zs = due_list e s zs" for e
      using tm z by (auto intro!: due_list_cong)
    have "map (\<lambda>a. unat (timeo_time t a)) xs = map (\<lambda>a. unat (timeo_time s a)) xs" using tm z by auto
    then have T: "sum_list (map (\<lambda>a. unat (timeo_time t a)) xs) = ?T" by (rule arg_cong)
    have tz: "timeo_time t z = timeo_time s z + timeo_time s y" using tm(1) by simp
    show ?thesis unfolding due_list_append T Cons using x u tz tm(2,3) by (simp add: ac_simps)
  qed
qed

lemma untimeo_run:
  assumes "timer_list L s (xs @ ys)" "\<forall>x\<in>set (due_list 0 s (xs @ ys)). fst x < 2 ^ 32"
    and "prev = (if xs = [] then 0 else last xs)" "path (memp_next s) t ys" "\<forall>x\<in>set (due_list 0 s xs). snd x \<noteq> (h, a)"
  shows "wp (untimeo h a prev t) (\<lambda>_ r. timers L r (spec_untimeout (h, a) (due_list 0 s (xs @ ys))) \<and>
    timeouts_last_time r = timeouts_last_time s \<and> tcpip_tcp_timer_active r = tcpip_tcp_timer_active s \<and> env r = env s) s"
  using assms
proof (induction ys arbitrary: xs prev t)
  case Nil
  then have "untimeo h a prev t s = Some (Inr ((), s))" by (subst untimeo.simps) simp
  moreover have "spec_untimeout (h, a) (due_list 0 s xs) = due_list 0 s xs"
    using spec_untimeout_append[of "due_list 0 s xs" "(h, a)" "[]"] Nil(5) by simp
  ultimately show ?case using Nil(1,2) by (auto simp: wp_def timers_def)
next
  case (Cons y ys)
  have y: "t = y" "y \<noteq> 0" using Cons.prems(4) by auto
  show ?case
  proof (cases "timeo_h s y = h \<and> timeo_arg s y = a")
    case True
    let ?r = "give_back y (unlink prev y s)"
    note un = unlink_timers[OF Cons.prems(1-3) refl]
    have run: "untimeo h a prev t s = memp_free MEMP_SYS_TIMEOUT y (unlink prev y s)"
      using True y by (subst untimeo.simps) (simp add: unlink_def Let_def)
    have "spec_untimeout (h, a) (due_list 0 s (xs @ y # ys)) = due_list 0 ?r (xs @ ys)"
      unfolding un(2) due_list_append[of 0 s xs "y # ys"] spec_untimeout_append[OF Cons.prems(5)] using True by simp
    moreover have "\<forall>x\<in>set (spec_untimeout (h, a) (due_list 0 s (xs @ y # ys))). fst x < 2 ^ 32"
      using spec_untimeout_set Cons.prems(2) by blast
    ultimately have "timers L ?r (spec_untimeout (h, a) (due_list 0 s (xs @ y # ys)))"
      using un(1) by (auto simp: timers_def)
    then show ?thesis
      unfolding wp_def run unfolding wp_def[symmetric] un(3) by (simp add: unlink_def Let_def)
  next
    case False
    then have run: "untimeo h a prev t s = untimeo h a y (memp_next s y) s"
      using y by (subst untimeo.simps) auto
    have "wp (untimeo h a y (memp_next s y)) (\<lambda>_ r. timers L r (spec_untimeout (h, a) (due_list 0 s ((xs @ [y]) @ ys))) \<and>
      timeouts_last_time r = timeouts_last_time s \<and> tcpip_tcp_timer_active r = tcpip_tcp_timer_active s \<and> env r = env s) s"
      by (rule Cons.IH) (use Cons.prems False in \<open>auto simp: due_list_append\<close>)
    then show ?thesis unfolding wp_def run by (simp only: append_assoc append_Cons append_Nil)
  qed
qed

lemma wp_sys_untimeout:
  assumes "timers L s l"
  shows "wp (sys_untimeout h a) (\<lambda>_ r. timers L r (spec_untimeout (h, a) l) \<and>
    timeouts_last_time r = timeouts_last_time s \<and> tcpip_tcp_timer_active r = tcpip_tcp_timer_active s \<and> env r = env s) s"
proof -
  obtain els where els: "timer_list L s els" "l = due_list 0 s els" "\<forall>x\<in>set l. fst x < 2 ^ 32"
    using assms by (auto simp: timers_def)
  show ?thesis
  proof (cases els)
    case Nil
    then show ?thesis using els assms by (simp add: sys_untimeout_def wp_simps timer_list_def)
  next
    case (Cons n ns)
    then have "next_timeout s \<noteq> 0" "path (memp_next s) (next_timeout s) els" using els(1) by (auto simp: timer_list_def)
    then show ?thesis
      using untimeo_run[of L s "[]" els 0 "next_timeout s" h a] els by (simp add: sys_untimeout_def wp_simps)
  qed
qed

section \<open>Checking the timeouts\<close>

lemma due_list_irrelevant [simp]:
  "due_list d (s\<lparr>env := e\<rparr>) els = due_list d s els" "due_list d (s\<lparr>timeouts_last_time := n\<rparr>) els = due_list d s els"
  "due_list d (s\<lparr>tcpip_tcp_timer_active := b\<rparr>) els = due_list d s els" "due_list d (s\<lparr>next_timeout := p\<rparr>) els = due_list d s els"
  "due_list d (give_back a s) els = due_list d s els"
  by (auto intro: due_list_cong)

lemma pool_held_irrelevant [simp]:
  "pool_held L i (s\<lparr>env := e\<rparr>) H = pool_held L i s H" "pool_held L i (s\<lparr>timeouts_last_time := n\<rparr>) H = pool_held L i s H"
  "pool_held L i (s\<lparr>tcpip_tcp_timer_active := b\<rparr>) H = pool_held L i s H" "pool_held L i (s\<lparr>next_timeout := p\<rparr>) H = pool_held L i s H"
  by (simp_all add: pool_held_def free_list_def)

lemma timers_irrelevant [simp]:
  "timers L (s\<lparr>env := e\<rparr>) l = timers L s l" "timers L (s\<lparr>timeouts_last_time := n\<rparr>) l = timers L s l"
  "timers L (s\<lparr>tcpip_tcp_timer_active := b\<rparr>) l = timers L s l"
  by (simp_all add: timers_def timer_list_def)

lemma check_timeouts_unfold:
  "check_timeouts S now diff =
     thn (on_env (check_free_ooseq S))
     (bnd (gets (\<lambda>s. (next_timeout s, timeo_time s (next_timeout s)))) (\<lambda>(tmptimeout, tm).
       if tmptimeout \<noteq> 0 \<and> tm \<le> diff then
         thn (modify (\<lambda>s. s\<lparr>timeouts_last_time := now\<rparr>))
         (thn (fire S tmptimeout) (check_timeouts S now (diff - tm)))
       else ret ()))"
  by (rule ext) (rule check_timeouts.simps)

text \<open>The first timeout of the list; the others are due as much earlier after its removal.\<close>

lemma timers_Nil: "timers L s [] \<Longrightarrow> next_timeout s = 0"
  by (auto simp: timers_def timer_list_def) (metis due_list_length length_0_conv path.simps(1))

definition pop :: "'e tmo \<Rightarrow> 'e tmo" where
  "pop s = give_back (next_timeout s) (s\<lparr>next_timeout := memp_next s (next_timeout s)\<rparr>)"

lemma timers_Cons:
  assumes "timers L s ((d, h, a) # l)"
  shows "next_timeout s \<noteq> 0" "unat (timeo_time s (next_timeout s)) = d" "timeo_h s (next_timeout s) = h"
    and "timers L (pop s) (map (\<lambda>(u, x). (u - d, x)) l)" "\<forall>x\<in>set l. d \<le> fst x"
    and "wp (fire S (next_timeout s)) Q s = wp (run_handler S h) Q (pop s)"
proof -
  obtain els where els: "timer_list L s els" "(d, h, a) # l = due_list 0 s els" "\<forall>x\<in>set ((d, h, a) # l). fst x < 2 ^ 32"
    using assms unfolding timers_def by blast
  then obtain ns where ns: "els = next_timeout s # ns" "next_timeout s \<noteq> 0" "path (memp_next s) (memp_next s (next_timeout s)) ns"
    by (cases els) (auto simp: timer_list_def)
  let ?n = "next_timeout s" and ?s = "s\<lparr>next_timeout := memp_next s (next_timeout s)\<rparr>"
  have n: "pool_held L MEMP_SYS_TIMEOUT s (insert ?n (set ns))" "distinct ns" "?n \<notin> set ns"
    using els(1) unfolding ns(1) by (auto simp: timer_list_def)
  show "?n \<noteq> 0" "unat (timeo_time s ?n) = d" and h: "timeo_h s ?n = h" using ns(2) els(2) unfolding ns(1) by auto
  have l: "l = map (\<lambda>(u, x). (u + d, x)) (due_list 0 s ns)"
    using els(2) due_list_shift[of 0 d s ns] unfolding ns(1) by auto
  then show "\<forall>x\<in>set l. d \<le> fst x" by auto
  have l': "due_list 0 s ns = map (\<lambda>(u, x). (u - d, x)) l" unfolding l map_map by (rule map_idI[symmetric]) auto
  have g: "pool_held L MEMP_SYS_TIMEOUT ?s (insert ?n (set ns))" using n(1) by simp
  from give_back_held[OF this, of ?n] have "pool_held L MEMP_SYS_TIMEOUT (pop s) (set ns)" using n(3) by (simp add: pop_def)
  then have "timer_list L (pop s) ns" using ns(3) n by (simp add: timer_list_def pop_def)
  moreover have "\<forall>x\<in>set (map (\<lambda>(u, x). (u - d, x)) l). fst x < 2 ^ 32" using els(3) by force
  ultimately show "timers L (pop s) (map (\<lambda>(u, x). (u - d, x)) l)"
    unfolding timers_def l'[symmetric] by (auto simp: pop_def)
  show "wp (fire S ?n) Q s = wp (run_handler S h) Q (pop s)"
    using give_back_held(1)[OF g, of ?n] h by (simp add: fire_def wp_simps pop_def)
qed

text \<open>The routines of the stack return.\<close>

definition services_return :: "'e services \<Rightarrow> bool" where
  "services_return S \<longleftrightarrow>
     (\<forall>e. wp (sys_now S) (\<lambda>_ _. True) e \<and> wp (tcp_tmr S) (\<lambda>_ _. True) e \<and>
          wp (etharp_tmr S) (\<lambda>_ _. True) e \<and> wp (check_free_ooseq S) (\<lambda>_ _. True) e)"

text \<open>The timeouts of the stack: the one for ARP, and one for TCP while its timer is active.\<close>

definition stack_timers :: "bool \<Rightarrow> timeout list \<Rightarrow> bool" where
  "stack_timers active l \<longleftrightarrow>
     mset (map snd l) = {#(Some Arp_timer, 0)#} + (if active then {#(Some Tcpip_tcp_timer, 0)#} else {#})"

lemma mset_spec_timeout [simp]: "mset (spec_timeout x l) = add_mset x (mset l)"
proof -
  have "mset (takeWhile P l) + mset (dropWhile P l) = mset l" for P
    by (subst mset_append[symmetric]) (simp only: takeWhile_dropWhile_id)
  then show ?thesis by (simp add: spec_timeout_def)
qed

lemma mset_shift: "mset (map snd (map (\<lambda>(u, x). (u - d, x)) l)) = mset (map snd l)"
  by (simp add: comp_def case_prod_unfold)

lemma arp_only: "stack_timers False [(d, Some Arp_timer, 0)]"
  by (simp add: stack_timers_def)

lemma stack_timers_length: "stack_timers b l \<Longrightarrow> length l \<le> 2"
  unfolding stack_timers_def by (drule arg_cong[of _ _ size]) (simp split: if_splits)

lemma wp_on_env: "wp p (\<lambda>_ _. True) (env s) \<Longrightarrow> (\<And>r e. Q r (s\<lparr>env := e\<rparr>)) \<Longrightarrow> wp (on_env p) Q s"
  unfolding on_env_def wp_zoom by (rule wp_mono) auto

text \<open>How many timeouts are due at once.\<close>

definition due_now :: "timeout list \<Rightarrow> nat" where "due_now l = size {#x \<in># mset l. fst x = 0#}"

lemma due_now_le: "due_now l \<le> length l"
  unfolding due_now_def size_mset[symmetric] by (rule size_filter_mset_lesseq)

lemma due_now_spec_timeout: "0 < fst x \<Longrightarrow> due_now (spec_timeout x l) = due_now l"
  by (simp add: due_now_def)

text \<open>A handler of the stack sets its timeout again, or leaves it.\<close>

lemma wp_run_handler:
  assumes S: "services_return S" and t: "timers L s l" and "length l \<le> 1"
    and st: "mset (map snd l) + {#(h, a)#} = {#(Some Arp_timer, 0)#} + (if tcpip_tcp_timer_active s then {#(Some Tcpip_tcp_timer, 0)#} else {#})"
  shows "wp (run_handler S h) (\<lambda>_ t. \<exists>l'. timers L t l' \<and> stack_timers (tcpip_tcp_timer_active t) l' \<and>
    due_now l' = due_now l \<and> timeouts_last_time t = timeouts_last_time s) s"
proof -
  have len: "length l < 3" using assms(3) by simp
  have "(h, a) \<in># {#(Some Arp_timer, 0)#} + (if tcpip_tcp_timer_active s then {#(Some Tcpip_tcp_timer, 0)#} else {#})"
    unfolding st[symmetric] by simp
  then consider "h = Some Arp_timer" "a = 0" | "h = Some Tcpip_tcp_timer" "a = 0" "tcpip_tcp_timer_active s"
    by (auto split: if_splits)
  then show ?thesis
  proof cases
    case 1
    have *: "wp (sys_timeout ARP_TMR_INTERVAL h 0) (\<lambda>_ t. \<exists>l'. timers L t l' \<and> stack_timers (tcpip_tcp_timer_active t) l' \<and>
        due_now l' = due_now l \<and> timeouts_last_time t = timeouts_last_time s) (s\<lparr>env := e\<rparr>)" for e
      by (rule wp_mono[OF wp_sys_timeout[of L _ l]])
        (use t len st 1 in \<open>auto simp: stack_timers_def due_now_spec_timeout ARP_TMR_INTERVAL_def
          intro!: exI[of _ "spec_timeout (5000, Some Arp_timer, 0) l"]\<close>)
    show ?thesis
      unfolding 1(1) run_handler_def arp_timer_def option.case tmr_handler.case wp_thn
      by (rule wp_on_env) (use S * 1 in \<open>auto simp: services_return_def\<close>)
  next
    case 2
    have *: "wp (sys_timeout TCP_TMR_INTERVAL h 0) (\<lambda>_ t. \<exists>l'. timers L t l' \<and> stack_timers (tcpip_tcp_timer_active t) l' \<and>
        due_now l' = due_now l \<and> timeouts_last_time t = timeouts_last_time s) (s\<lparr>env := e\<rparr>)" for e
      by (rule wp_mono[OF wp_sys_timeout[of L _ l]])
        (use t len st 2 in \<open>auto simp: stack_timers_def due_now_spec_timeout TCP_TMR_INTERVAL_def
          intro!: exI[of _ "spec_timeout (250, Some Tcpip_tcp_timer, 0) l"]\<close>)
    have "timers L (s\<lparr>env := e, tcpip_tcp_timer_active := False\<rparr>) l" "stack_timers False l" for e
      using t st 2 by (auto simp: stack_timers_def)
    then have **: "wp (modify (\<lambda>s. s\<lparr>tcpip_tcp_timer_active := False\<rparr>))
       (\<lambda>_ t. \<exists>l'. timers L t l' \<and> stack_timers (tcpip_tcp_timer_active t) l' \<and>
        due_now l' = due_now l \<and> timeouts_last_time t = timeouts_last_time s) (s\<lparr>env := e\<rparr>)" for e
      by (auto simp: wp_simps)
    show ?thesis
      unfolding 2(1) run_handler_def tcpip_tcp_timer_def option.case tmr_handler.case wp_thn
      by (rule wp_on_env) (use S *[unfolded 2(1)] ** in \<open>auto simp: services_return_def wp_bnd wp_gets\<close>)
  qed
qed

lemma wp_check_timeouts:
  assumes S: "services_return S"
  shows "timers L s l \<Longrightarrow> stack_timers (tcpip_tcp_timer_active s) l \<Longrightarrow>
    wp (check_timeouts S now diff) (\<lambda>_ t. \<exists>l'. timers L t l' \<and> stack_timers (tcpip_tcp_timer_active t) l') s"
proof (induction "unat diff * 4 + due_now l" arbitrary: diff s l rule: less_induct)
  case less
  let ?P = "\<lambda>t. \<exists>l'. timers L t l' \<and> stack_timers (tcpip_tcp_timer_active t) l'"
  have "\<not> stack_timers (tcpip_tcp_timer_active s) []" by (simp add: stack_timers_def)
  then obtain d h a l0 where l: "l = (d, h, a) # l0" using less.prems(2) by (cases l) auto
  let ?l1 = "map (\<lambda>(u, x). (u - d, x)) l0"
  have len: "length l0 \<le> 1" using stack_timers_length[OF less.prems(2)] l by simp
  have step: "wp (if next_timeout s' \<noteq> 0 \<and> timeo_time s' (next_timeout s') \<le> diff then
         thn (modify (\<lambda>s. s\<lparr>timeouts_last_time := now\<rparr>))
         (thn (fire S (next_timeout s')) (check_timeouts S now (diff - timeo_time s' (next_timeout s'))))
       else ret ()) (\<lambda>_. ?P) s'" if s': "s' = s\<lparr>env := e\<rparr>" for s' e
  proof (cases "timeo_time s' (next_timeout s') \<le> diff")
    case False
    then show ?thesis using less.prems s' by (auto simp: wp_simps)
  next
    case True
    let ?s1 = "s'\<lparr>timeouts_last_time := now\<rparr>" and ?tm = "timeo_time s' (next_timeout s')"
    have t1: "timers L ?s1 ((d, h, a) # l0)" using less.prems(1) s' l by simp
    note c = timers_Cons[OF t1]
    have tm: "unat ?tm = d" "unat (diff - ?tm) = unat diff - d" "d \<le> unat diff"
      using c(2) unat_sub_le[OF True] True by (auto simp: unat_le_iff_nat)
    have act: "tcpip_tcp_timer_active (pop ?s1) = tcpip_tcp_timer_active s" using s' by (simp add: pop_def)
    have st: "mset (map snd ?l1) + {#(h, a)#} =
        {#(Some Arp_timer, 0)#} + (if tcpip_tcp_timer_active (pop ?s1) then {#(Some Tcpip_tcp_timer, 0)#} else {#})"
      using less.prems(2) unfolding act l mset_shift stack_timers_def by simp
    have "unat (diff - ?tm) * 4 + due_now ?l1 < unat diff * 4 + due_now l"
    proof (cases "d = 0")
      case True
      then show ?thesis using tm l by (simp add: due_now_def case_prod_unfold)
    next
      case False
      have "due_now ?l1 \<le> 1" using due_now_le[of ?l1] len by simp
      then show ?thesis using False tm by simp
    qed
    have "wp (run_handler S h) (\<lambda>_ t. \<exists>l'. timers L t l' \<and> stack_timers (tcpip_tcp_timer_active t) l' \<and> due_now l' = due_now ?l1 \<and>
        timeouts_last_time t = timeouts_last_time (pop ?s1)) (pop ?s1)"
      by (rule wp_run_handler[OF S c(4) _ st]) (use len in simp)
    then have "wp (run_handler S h) (\<lambda>_ t. wp (check_timeouts S now (diff - ?tm)) (\<lambda>_. ?P) t) (pop ?s1)"
    proof (rule wp_mono, elim exE conjE)
      fix t :: "'a tmo" and l'
      assume t: "timers L t l'" "stack_timers (tcpip_tcp_timer_active t) l'" "due_now l' = due_now ?l1"
      then show "wp (check_timeouts S now (diff - ?tm)) (\<lambda>_. ?P) t"
        using less.hyps[of "diff - ?tm" l' t] \<open>unat (diff - ?tm) * 4 + due_now ?l1 < unat diff * 4 + due_now l\<close> by simp
    qed
    then show ?thesis using True c(1,6) by (simp add: wp_thn wp_modify)
  qed
  show ?case
    unfolding check_timeouts_unfold[of S now diff] wp_thn
    by (rule wp_on_env) (use S step in \<open>simp_all add: services_return_def wp_bnd wp_gets\<close>)
qed

section \<open>Initialisation\<close>

lemma memp_carve_keeps:
  "next_timeout (snd (memp_carve i z n p s)) = next_timeout s \<and> env (snd (memp_carve i z n p s)) = env s \<and>
   tcpip_tcp_timer_active (snd (memp_carve i z n p s)) = tcpip_tcp_timer_active s \<and>
   timeouts_last_time (snd (memp_carve i z n p s)) = timeouts_last_time s"
  by (induction i z n p s rule: memp_carve.induct) simp_all

lemma memp_pools_keeps:
  "next_timeout (memp_pools i ps p s) = next_timeout s \<and> env (memp_pools i ps p s) = env s \<and>
   tcpip_tcp_timer_active (memp_pools i ps p s) = tcpip_tcp_timer_active s \<and>
   timeouts_last_time (memp_pools i ps p s) = timeouts_last_time s"
proof (induction i ps p s rule: memp_pools.induct)
  case (2 i z n ps p s)
  let ?s = "s\<lparr>memp_tab := (memp_tab s)(i := 0)\<rparr>"
  obtain p' s' where c: "memp_carve i z n p ?s = (p', s')" by fastforce
  show ?case using 2[OF c[symmetric] refl] memp_carve_keeps[of i z n p ?s] c by simp
qed simp

text \<open>The pools are set up before the timers (\<^verbatim>\<open>lwip_init\<close>); then the list has the timeout for ARP only.\<close>

lemma wp_memp_init_timers:
  assumes "pools_ok L" "next_timeout s = 0"
  shows "wp (memp_init L) (\<lambda>_ t. timers L t [] \<and> env t = env s \<and> tcpip_tcp_timer_active t = tcpip_tcp_timer_active s \<and>
    timeouts_last_time t = timeouts_last_time s) s"
proof -
  have "MEMP_SYS_TIMEOUT < MEMP_MAX" by (simp add: MEMP_SYS_TIMEOUT_def MEMP_MAX_def)
  from memp_init_held[OF assms(1) this, of s] show ?thesis
    using assms(2) by (auto simp: memp_pools_keeps memp_init_def wp_modify timers_def timer_list_def intro!: exI[of _ "[]"])
qed

lemma wp_sys_timeouts_init:
  assumes "services_return S" "timers L s []" "\<not> tcpip_tcp_timer_active s"
  shows "wp (sys_timeouts_init S) (\<lambda>_ t. timers L t [(5000, Some Arp_timer, 0)] \<and> \<not> tcpip_tcp_timer_active t) s"
  unfolding sys_timeouts_init_def wp_thn
  by (rule wp_mono[OF wp_sys_timeout[OF assms(2)]])
    (use assms(1,3) in \<open>auto simp: services_return_def wp_bnd wp_modify spec_timeout_def ARP_TMR_INTERVAL_def intro!: wp_on_env\<close>)

text \<open>A new connection starts the timer for TCP; it finds a free element.\<close>

lemma wp_tcp_timer_needed:
  assumes "timers L s l" "stack_timers (tcpip_tcp_timer_active s) l"
  shows "wp (tcp_timer_needed S) (\<lambda>_ t. \<exists>l'. timers L t l' \<and> stack_timers (tcpip_tcp_timer_active t) l' \<and>
    (tcp_pcbs S (env t) \<longrightarrow> tcpip_tcp_timer_active t)) s"
proof (cases "\<not> tcpip_tcp_timer_active s \<and> tcp_pcbs S (env s)")
  case True
  have len: "length l < 3" using stack_timers_length[OF assms(2)] by simp
  have "wp (sys_timeout TCP_TMR_INTERVAL (Some Tcpip_tcp_timer) 0) (\<lambda>_ t. \<exists>l'. timers L t l' \<and>
      stack_timers (tcpip_tcp_timer_active t) l' \<and> (tcp_pcbs S (env t) \<longrightarrow> tcpip_tcp_timer_active t)) (s\<lparr>tcpip_tcp_timer_active := True\<rparr>)"
    by (rule wp_mono[OF wp_sys_timeout[of L _ l]])
      (use assms True len in \<open>auto simp: stack_timers_def intro!: exI[of _ "spec_timeout (unat TCP_TMR_INTERVAL, Some Tcpip_tcp_timer, 0) l"]\<close>)
  then show ?thesis using True by (simp add: tcp_timer_needed_def wp_simps)
next
  case False
  then show ?thesis using assms by (auto simp: tcp_timer_needed_def wp_simps)
qed

text \<open>A stack with a clock that stands still and a counter of the calls of \<^verbatim>\<open>etharp_tmr\<close>.\<close>

definition demo_services :: "(u32 \<times> nat) services" where
  "demo_services =
     \<lparr>sys_now = gets fst, tcp_tmr = ret (), tcp_pcbs = \<lambda>_. False,
      etharp_tmr = modify (\<lambda>(c, n). (c, Suc n)), check_free_ooseq = ret ()\<rparr>"

definition demo_tmo :: "(u32 \<times> nat) tmo" where
  "demo_tmo =
     \<lparr>memp_tab = \<lambda>_. 0, memp_next = \<lambda>_. 0, timeo_time = \<lambda>_. 0, timeo_h = \<lambda>_. None, timeo_arg = \<lambda>_. 0,
      next_timeout = 0, timeouts_last_time = 0, tcpip_tcp_timer_active = False, env = (12000, 0)\<rparr>"

lemma demo_services_return: "services_return demo_services"
  by (simp add: services_return_def demo_services_def wp_simps)

lemma demo_tmo_init:
  "wp (memp_init demo_pools) (\<lambda>_ t. timers demo_pools t [] \<and> env t = (12000, 0) \<and> \<not> tcpip_tcp_timer_active t \<and>
     timeouts_last_time t = 0) demo_tmo"
  using wp_memp_init_timers[OF demo_pools_ok, of demo_tmo] by (simp add: demo_tmo_def)

text \<open>
  C23 (termination). The main loop of the lwIP firmware never stops in its timers: from any state in which the list
  holds the timeout for ARP and, while TCP is active, the one for TCP, \<^verbatim>\<open>sys_check_timeouts\<close> returns, whatever the
  time, with such a list again. In particular the pool of timeouts is never exhausted, and the ARP timer
  is never lost.
\<close>

theorem sys_check_timeouts_returns:
  assumes "services_return S" "timers L s l" "stack_timers (tcpip_tcp_timer_active s) l"
  shows "wp (sys_check_timeouts S) (\<lambda>_ t. \<exists>l'. timers L t l' \<and> stack_timers (tcpip_tcp_timer_active t) l') s"
proof -
  have "wp (if next_timeout s \<noteq> 0 then bnd (on_env (sys_now S)) (\<lambda>now. bnd (gets timeouts_last_time)
      (\<lambda>last_time. check_timeouts S now (now - last_time))) else ret ())
    (\<lambda>_ t. \<exists>l'. timers L t l' \<and> stack_timers (tcpip_tcp_timer_active t) l') s"
    using assms wp_check_timeouts[OF assms(1)]
    by (auto simp: wp_bnd wp_gets wp_ret services_return_def intro!: wp_on_env)
  then show ?thesis by (simp add: sys_check_timeouts_def wp_bnd wp_gets)
qed

theorem sys_check_timeouts_returns_witness:
  "wp (thn (memp_init demo_pools) (thn (sys_timeouts_init demo_services) (sys_check_timeouts demo_services)))
     (\<lambda>_ t. \<exists>l. timers demo_pools t l \<and> stack_timers (tcpip_tcp_timer_active t) l) demo_tmo"
  unfolding wp_thn
proof (rule wp_mono[OF demo_tmo_init])
  fix t :: "(u32 \<times> nat) tmo"
  assume "timers demo_pools t [] \<and> env t = (12000, 0) \<and> \<not> tcpip_tcp_timer_active t \<and> timeouts_last_time t = 0"
  then show "wp (sys_timeouts_init demo_services) (\<lambda>_. wp (sys_check_timeouts demo_services)
      (\<lambda>_ t. \<exists>l. timers demo_pools t l \<and> stack_timers (tcpip_tcp_timer_active t) l)) t"
    by (intro wp_mono[OF wp_sys_timeouts_init[OF demo_services_return]])
      (auto intro!: sys_check_timeouts_returns[OF demo_services_return] simp: arp_only)
qed

section \<open>The period of the ARP timer\<close>

text \<open>How often a timeout that is due after \<open>d\<close> and then again every 5000 ms is due within \<open>D\<close>.\<close>

definition rounds :: "nat \<Rightarrow> nat \<Rightarrow> nat" where
  "rounds d D = (if D < d then 0 else Suc ((D - d) div 5000))"

lemma rounds_next: "d \<le> D \<Longrightarrow> rounds d D = Suc (rounds 5000 (D - d))"
  by (simp add: rounds_def le_div_geq)

lemma wp_check_arp:
  assumes A: "\<And>e. etharp_tmr S e = Some (Inr ((), A e))" and O: "\<And>e. check_free_ooseq S e = Some (Inr ((), e))"
  shows "timers L s [(d, Some Arp_timer, 0)] \<Longrightarrow>
    wp (check_timeouts S now diff) (\<lambda>_ t. env t = (A ^^ rounds d (unat diff)) (env s) \<and>
      timers L t [(if unat diff < d then d else 5000, Some Arp_timer, 0)] \<and>
      timeouts_last_time t = (if unat diff < d then timeouts_last_time s else now)) s"
proof (induction "unat diff + (if d = 0 then 1 else 0)" arbitrary: diff s d rule: less_induct)
  case less
  let ?s1 = "s\<lparr>timeouts_last_time := now\<rparr>" and ?tm = "timeo_time s (next_timeout s)"
  have t1: "timers L ?s1 ((d, Some Arp_timer, 0) # [])" using less.prems by simp
  note c = timers_Cons[OF t1]
  have oo: "on_env (check_free_ooseq S) s = Some (Inr ((), s))" by (simp add: on_env_def zoom_def O)
  show ?case
  proof (cases "?tm \<le> diff")
    case False
    then have "unat diff < d" using c(2) by (simp add: unat_le_iff_nat)
    then show ?thesis
      unfolding check_timeouts_unfold[of S now diff] using False less.prems oo
      by (simp add: wp_def thn_def bnd_def rounds_def)
  next
    case True
    have tm: "unat (diff - ?tm) = unat diff - d" "d \<le> unat diff"
      using c(2) unat_sub_le[OF True] True by (auto simp: unat_le_iff_nat)
    let ?Q = "\<lambda>_ t. env t = (A ^^ rounds d (unat diff)) (env s) \<and> timers L t [(5000, Some Arp_timer, 0)] \<and> timeouts_last_time t = now"
    have "wp (sys_timeout ARP_TMR_INTERVAL (Some Arp_timer) 0) (\<lambda>_ t. wp (check_timeouts S now (diff - ?tm)) ?Q t)
        ((pop ?s1)\<lparr>env := A (env s)\<rparr>)"
    proof (rule wp_mono[OF wp_sys_timeout[of L _ "[]"]])
      show "timers L ((pop ?s1)\<lparr>env := A (env s)\<rparr>) []" using c(4) by simp
      fix t :: "'a tmo"
      assume t: "timers L t (spec_timeout (unat ARP_TMR_INTERVAL, Some Arp_timer, 0) []) \<and>
        timeouts_last_time t = timeouts_last_time ((pop ?s1)\<lparr>env := A (env s)\<rparr>) \<and>
        tcpip_tcp_timer_active t = tcpip_tcp_timer_active ((pop ?s1)\<lparr>env := A (env s)\<rparr>) \<and>
        env t = env ((pop ?s1)\<lparr>env := A (env s)\<rparr>)"
      then have "timers L t [(5000, Some Arp_timer, 0)]" by (simp add: spec_timeout_def ARP_TMR_INTERVAL_def)
      moreover have "unat (diff - ?tm) + (if 5000 = (0 :: nat) then 1 else 0) < unat diff + (if d = 0 then 1 else 0)"
        using tm by simp
      ultimately have "wp (check_timeouts S now (diff - ?tm)) (\<lambda>_ t'. env t' = (A ^^ rounds 5000 (unat (diff - ?tm))) (env t) \<and>
          timers L t' [(if unat (diff - ?tm) < 5000 then 5000 else 5000, Some Arp_timer, 0)] \<and>
          timeouts_last_time t' = (if unat (diff - ?tm) < 5000 then timeouts_last_time t else now)) t"
        by (intro less.hyps)
      then show "wp (check_timeouts S now (diff - ?tm)) ?Q t"
        by (rule wp_mono) (use t tm in \<open>auto simp: rounds_next funpow_swap1 pop_def split: if_splits\<close>)
    qed simp
    then have "wp (run_handler S (Some Arp_timer)) (\<lambda>_ t. wp (check_timeouts S now (diff - ?tm)) ?Q t) (pop ?s1)"
      by (simp add: run_handler_def arp_timer_def wp_thn on_env_def wp_zoom wp_def[of "etharp_tmr S"] A pop_def)
    then have "wp (check_timeouts S now diff) ?Q s"
      unfolding check_timeouts_unfold[of S now diff] using True c(1,6) oo
      by (simp add: wp_def[of "on_env _"] wp_thn wp_bnd wp_gets wp_modify)
    then show ?thesis using tm by (simp add: linorder_not_less)
  qed
qed

text \<open>
  C37 (functional). The ARP timer loses time. With the ARP timeout alone in the list, due \<open>d\<close> after the last check that
  fired, a call of \<^verbatim>\<open>sys_check_timeouts\<close> at a time \<open>D\<close> after that (also past the wrap of the clock) runs
  \<^verbatim>\<open>etharp_tmr\<close> once for every time it was due; but then the next one is due 5000 after this call, and not after
  the time at which the last one should have been: what passed since then is dropped.
\<close>

theorem arp_timer_drifts:
  assumes "\<forall>e. etharp_tmr S e = Some (Inr ((), A e)) \<and> check_free_ooseq S e = Some (Inr ((), e))"
    and "timers L s [(d, Some Arp_timer, 0)]" and "sys_now S (env s) = Some (Inr (now, e))"
    and "D = unat (now - timeouts_last_time s)"
  shows "wp (sys_check_timeouts S) (\<lambda>_ t. env t = (A ^^ rounds d D) e \<and>
    timers L t [(if D < d then d else 5000, Some Arp_timer, 0)] \<and>
    timeouts_last_time t = (if D < d then timeouts_last_time s else now)) s"
proof -
  have "next_timeout s \<noteq> 0" by (rule timers_Cons(1)[OF assms(2)])
  moreover have "wp (check_timeouts S now (now - timeouts_last_time s)) (\<lambda>_ t. env t = (A ^^ rounds d D) e \<and>
    timers L t [(if D < d then d else 5000, Some Arp_timer, 0)] \<and>
    timeouts_last_time t = (if D < d then timeouts_last_time s else now)) (s\<lparr>env := e\<rparr>)"
    by (rule wp_mono[OF wp_check_arp[where A = A and L = L and d = d]]) (use assms in auto)
  ultimately show ?thesis
    by (simp add: sys_check_timeouts_def wp_bnd wp_gets on_env_def wp_zoom wp_def[of "sys_now S"] assms(3))
qed

theorem arp_timer_drifts_witness:
  "wp (thn (memp_init demo_pools) (thn (sys_timeout ARP_TMR_INTERVAL (Some Arp_timer) 0) (sys_check_timeouts demo_services)))
     (\<lambda>_ t. env t = (12000, 2) \<and> timers demo_pools t [(5000, Some Arp_timer, 0)] \<and> timeouts_last_time t = 12000)
     demo_tmo"
proof -
  let ?A = "\<lambda>(c, n). (c, Suc n)"
  show ?thesis
    unfolding wp_thn
  proof (rule wp_mono[OF demo_tmo_init], elim conjE)
    fix t :: "(u32 \<times> nat) tmo"
    assume t: "timers demo_pools t []" "env t = (12000, 0)" "timeouts_last_time t = 0"
    show "wp (sys_timeout ARP_TMR_INTERVAL (Some Arp_timer) 0) (\<lambda>_. wp (sys_check_timeouts demo_services)
      (\<lambda>_ t. env t = (12000, 2) \<and> timers demo_pools t [(5000, Some Arp_timer, 0)] \<and> timeouts_last_time t = 12000)) t"
    proof (rule wp_mono[OF wp_sys_timeout[OF t(1)]], simp, elim conjE)
      fix r :: "(u32 \<times> nat) tmo"
      assume "timers demo_pools r (spec_timeout (unat ARP_TMR_INTERVAL, Some Arp_timer, 0) [])"
        and r: "timeouts_last_time r = timeouts_last_time t" "env r = env t"
      then have "timers demo_pools r [(5000, Some Arp_timer, 0)]" by (simp add: spec_timeout_def ARP_TMR_INTERVAL_def)
      moreover have D: "unat (12000 - timeouts_last_time r) = 12000" using r t by simp
      moreover have "sys_now demo_services (env r) = Some (Inr (12000, (12000, 0)))" using r t by (simp add: demo_services_def)
      moreover have "\<forall>e. etharp_tmr demo_services e = Some (Inr ((), ?A e)) \<and> check_free_ooseq demo_services e = Some (Inr ((), e))"
        by (simp add: demo_services_def)
      ultimately have "wp (sys_check_timeouts demo_services) (\<lambda>_ t. env t = (?A ^^ rounds 5000 12000) (12000, 0) \<and>
          timers demo_pools t [(if (12000 :: nat) < 5000 then 5000 else 5000, Some Arp_timer, 0)] \<and>
          timeouts_last_time t = (if (12000 :: nat) < 5000 then timeouts_last_time r else 12000)) r"
        using arp_timer_drifts[of demo_services ?A demo_pools r 5000 12000 "(12000, 0)" 12000] by metis
      then show "wp (sys_check_timeouts demo_services)
        (\<lambda>_ t. env t = (12000, 2) \<and> timers demo_pools t [(5000, Some Arp_timer, 0)] \<and> timeouts_last_time t = 12000) r"
        by (rule wp_mono) (simp add: rounds_def numeral_2_eq_2)
    qed
  qed
qed

section \<open>Sequences of calls\<close>

text \<open>The calls a program makes, and what they do to the abstract list.\<close>

datatype timer_call = Set_timeout u32 "tmr_handler option" addr | Cancel_timeout "tmr_handler option" addr

fun do_timer :: "timer_call \<Rightarrow> ('e tmo, unit) prog" where
  "do_timer (Set_timeout m h a) = sys_timeout m h a"
| "do_timer (Cancel_timeout h a) = sys_untimeout h a"

fun spec_call :: "timer_call \<Rightarrow> timeout list \<Rightarrow> timeout list" where
  "spec_call (Set_timeout m h a) l = spec_timeout (unat m, h, a) l"
| "spec_call (Cancel_timeout h a) l = spec_untimeout (h, a) l"

fun calls_fit :: "timer_call list \<Rightarrow> timeout list \<Rightarrow> bool" where
  "calls_fit [] l \<longleftrightarrow> True"
| "calls_fit (Set_timeout m h a # cs) l \<longleftrightarrow> length l < 3 \<and> calls_fit cs (spec_call (Set_timeout m h a) l)"
| "calls_fit (Cancel_timeout h a # cs) l \<longleftrightarrow> calls_fit cs (spec_call (Cancel_timeout h a) l)"

text \<open>
  C9 (refinement). The list of timeouts implements a list of absolute times. Any sequence of calls of
  \<^verbatim>\<open>sys_timeout\<close> and \<^verbatim>\<open>sys_untimeout\<close> for which the pool has elements returns, and afterwards the elements, with the times
  each holds after its predecessor, stand for the list on which the abstract operations were run: a timeout is
  put behind those due no later, and the first one with the handler and argument is removed. The times are
  sorted and never wrap.
\<close>

theorem timer_calls_refine:
  assumes "timers L s l" "calls_fit cs l"
  shows "wp (doall (map do_timer cs)) (\<lambda>_ t. timers L t (fold spec_call cs l) \<and>
    timeouts_last_time t = timeouts_last_time s \<and> sorted (map fst (fold spec_call cs l))) s"
  using assms
proof (induction cs arbitrary: s l)
  case Nil
  then have "sorted (map fst l)" by (auto simp: timers_def due_list_sorted)
  then show ?case using Nil by (simp add: wp_def)
next
  case (Cons c cs)
  obtain l' where l': "l' = spec_call c l" "calls_fit cs l'" using Cons.prems(2) by (cases c) auto
  have "wp (do_timer c) (\<lambda>_ t. timers L t l' \<and> timeouts_last_time t = timeouts_last_time s) s"
  proof (cases c)
    case (Set_timeout m h a)
    then show ?thesis using Cons.prems(2) l'(1) by (auto intro!: wp_mono[OF wp_sys_timeout[OF Cons.prems(1)]])
  next
    case (Cancel_timeout h a)
    then show ?thesis using l'(1) by (auto intro!: wp_mono[OF wp_sys_untimeout[OF Cons.prems(1)]])
  qed
  then have "wp (do_timer c) (\<lambda>_. wp (doall (map do_timer cs)) (\<lambda>_ t. timers L t (fold spec_call cs l') \<and>
    timeouts_last_time t = timeouts_last_time s \<and> sorted (map fst (fold spec_call cs l')))) s"
    by (rule wp_mono) (auto intro!: wp_mono[OF Cons.IH[OF _ l'(2)]])
  then show ?case using l'(1) by (simp only: list.map doall.simps wp_thn fold_Cons comp_apply)
qed

theorem timer_calls_refine_witness:
  "wp (thn (memp_init demo_pools) (doall (map do_timer
       [Set_timeout 700 (Some Arp_timer) 0, Set_timeout 300 (Some Tcpip_tcp_timer) 0, Set_timeout 700 None 0,
        Cancel_timeout (Some Arp_timer) 0])))
     (\<lambda>_ t. timers demo_pools t [(300, Some Tcpip_tcp_timer, 0), (700, None, 0)]) demo_tmo"
proof -
  let ?cs = "[Set_timeout 700 (Some Arp_timer) 0, Set_timeout 300 (Some Tcpip_tcp_timer) 0, Set_timeout 700 None 0,
        Cancel_timeout (Some Arp_timer) 0]"
  have f: "fold spec_call ?cs [] = [(300, Some Tcpip_tcp_timer, 0), (700, None, 0)]" "calls_fit ?cs []"
    by (simp_all add: spec_timeout_def)
  show ?thesis
    unfolding wp_thn
  proof (rule wp_mono[OF demo_tmo_init], elim conjE)
    fix t :: "(u32 \<times> nat) tmo"
    assume "timers demo_pools t []"
    from timer_calls_refine[OF this f(2), unfolded f(1)]
    show "wp (doall (map do_timer ?cs)) (\<lambda>_ t. timers demo_pools t [(300, Some Tcpip_tcp_timer, 0), (700, None, 0)]) t"
      by (rule wp_mono) simp
  qed
qed

end
