(* ===== verification/Dbe_Lwip.thy ===== *)
theory Dbe_Lwip
  imports Ethmac_Lwip Dbe_Main Talks Lwip_Timers
begin

text \<open>
  The application of the lwIP firmware (\<^verbatim>\<open>dbe_lwip.c\<close>), with the part of \<^verbatim>\<open>lib/lwip/src/core/netif.c\<close> that adds its
  interface and the initialisation of the stack (\<^verbatim>\<open>init.c\<close>). The drivers, the board tests, the Ethernet driver with
  its port and the timers are those of the other theories; TCP and ARP are parameters.
\<close>

section \<open>State\<close>

text \<open>
  The state is that of the timers, around that of the driver and whatever else the stack keeps. The stack is given by
  the layout of its pools, its answers to the port, what its timers call, the initialisation of its heap, what a change of
  the address does to TCP connections, the sending of an ARP request, and the address of \<^verbatim>\<open>netif\<close>.
\<close>

type_synonym ('h, 'x) fw = "('h lw \<times> 'x) tmo"

record ('h, 'x) lwip =
  pools :: memp_layout
  answers :: stack
  svc :: "('h lw \<times> 'x) services"
  mem_init :: "('x, unit) prog"
  tcp_rebind :: "u32 \<Rightarrow> u32 \<Rightarrow> ('h lw \<times> 'x, unit) prog"
  etharp_request :: "('h lw \<times> 'x, unit) prog"
  netif_ptr :: u32

definition on_lw :: "('h lw, 'a) prog \<Rightarrow> (('h, 'x) fw, 'a) prog" where
  "on_lw p = on_env (zoom fst (\<lambda>d e. (d, snd e)) p)"

definition on_board :: "('h mach, 'a) prog \<Rightarrow> (('h, 'x) fw, 'a) prog" where
  "on_board p = on_lw (on_mach p)"

text \<open>\<^verbatim>\<open>sys_now\<close> is an alias of \<^verbatim>\<open>timer_get_tics\<close> (\<^verbatim>\<open>dev/timer.c\<close>).\<close>

definition lw_services :: "'h plat \<Rightarrow> ('h, 'x) lwip \<Rightarrow> ('h lw \<times> 'x) services" where
  "lw_services B F = (svc F)\<lparr>sys_now := zoom fst (\<lambda>d e. (d, snd e)) (on_mach (timer_get_tics B))\<rparr>"

section \<open>The network interface\<close>

definition set_netif :: "(netif \<Rightarrow> netif) \<Rightarrow> (('h, 'x) fw, unit) prog" where
  "set_netif f = on_lw (modify (\<lambda>s. s\<lparr>interface := f (interface s)\<rparr>))"

definition netif_set_ipaddr :: "('h, 'x) lwip \<Rightarrow> u32 \<Rightarrow> (('h, 'x) fw, unit) prog" where
  "netif_set_ipaddr F ipaddr =
     thn (bnd (on_lw (gets (\<lambda>s. ip_addr (interface s)))) (\<lambda>old.
            if ipaddr \<noteq> old then on_env (tcp_rebind F old ipaddr) else ret ()))
         (set_netif (\<lambda>i. i\<lparr>ip_addr := ipaddr\<rparr>))"

definition netif_set_netmask :: "u32 \<Rightarrow> (('h, 'x) fw, unit) prog" where
  "netif_set_netmask nm = set_netif (\<lambda>i. i\<lparr>netmask := nm\<rparr>)"

definition netif_set_gw :: "u32 \<Rightarrow> (('h, 'x) fw, unit) prog" where
  "netif_set_gw g = set_netif (\<lambda>i. i\<lparr>gw := g\<rparr>)"

definition netif_set_addr :: "('h, 'x) lwip \<Rightarrow> u32 \<Rightarrow> u32 \<Rightarrow> u32 \<Rightarrow> (('h, 'x) fw, unit) prog" where
  "netif_set_addr F ipaddr nm g = doall [netif_set_ipaddr F ipaddr, netif_set_netmask nm, netif_set_gw g]"

text \<open>The result tells whether the pointer returned is not null.\<close>

definition netif_add :: "('h, 'x) lwip \<Rightarrow> u32 \<Rightarrow> u32 \<Rightarrow> u32 \<Rightarrow> addr \<Rightarrow> ('h lw, int) prog \<Rightarrow> (('h, 'x) fw, bool) prog" where
  "netif_add F ipaddr nm g state init =
     thn (set_netif (\<lambda>i. i\<lparr>ip_addr := 0, netmask := 0, gw := 0, nflags := 0, if_state := state\<rparr>))
    (thn (on_lw (modify (\<lambda>s. s\<lparr>interface := (interface s)\<lparr>if_num := netif_num s\<rparr>, netif_num := netif_num s + 1\<rparr>)))
    (thn (netif_set_addr F ipaddr nm g)
    (bnd (on_lw init) (\<lambda>e.
      if e \<noteq> ERR_OK then ret False
      else thn (on_lw (modify (\<lambda>s. s\<lparr>netif_list := True\<rparr>))) (ret True)))))"

definition netif_set_default :: "(('h, 'x) fw, unit) prog" where
  "netif_set_default = on_lw (modify (\<lambda>s. s\<lparr>netif_default := True\<rparr>))"

definition NETIF_FLAG_UP :: u32 where "NETIF_FLAG_UP = 0x01"
definition NETIF_FLAG_LINK_UP :: u32 where "NETIF_FLAG_LINK_UP = 0x10"
definition NETIF_FLAG_ETHARP :: u32 where "NETIF_FLAG_ETHARP = 0x20"

definition netif_set_up :: "('h, 'x) lwip \<Rightarrow> (('h, 'x) fw, unit) prog" where
  "netif_set_up F =
     bnd (on_lw (gets (\<lambda>s. nflags (interface s)))) (\<lambda>flags.
       if flags AND NETIF_FLAG_UP = 0 then
         thn (set_netif (\<lambda>i. i\<lparr>nflags := nflags i OR NETIF_FLAG_UP\<rparr>))
         (bnd (on_lw (gets (\<lambda>s. nflags (interface s)))) (\<lambda>flags.
           if flags AND NETIF_FLAG_LINK_UP \<noteq> 0 \<and> flags AND NETIF_FLAG_ETHARP \<noteq> 0
           then on_env (etharp_request F) else ret ()))
       else ret ())"

section \<open>Initialisation\<close>

text \<open>The other modules of the stack have nothing to initialise in this configuration.\<close>

definition lwip_init :: "'h plat \<Rightarrow> ('h, 'x) lwip \<Rightarrow> (('h, 'x) fw, unit) prog" where
  "lwip_init B F =
     thn (on_env (zoom snd (\<lambda>x e. (fst e, x)) (mem_init F)))
    (thn (memp_init (pools F))
         (sys_timeouts_init (lw_services B F)))"

definition lw_dbe_init :: "'h plat \<Rightarrow> rom \<Rightarrow> ('h mach, int) prog" where
  "lw_dbe_init B rom =
     thn (modify (\<lambda>s. s\<lparr>heap := memmgr_init (lay B) (heap s)\<rparr>))
     (thn (sdb_find_devices B rom)
     (or_quit (uart_init B) (ret ())
     (thn (sdb_print_devices rom)
     (or_quit (dma_init B) (pp_printf ''> error initializing DMA! Exiting...\<newline>'' [])
     (or_quit (gpio_init B) (pp_printf ''> error initializing GPIO! Exiting...\<newline>'' [])
     (or_quit (timer_init B) (pp_printf ''> error initializing TIMER! Exiting...\<newline>'' [])
     (or_quit (ethmac_adapt_init B) (pp_printf ''> error initializing Ethernet MAC adapter! Exiting...\<newline>'' [])
     (or_quit int_init (pp_printf ''> error initializing Interrupts! Exiting...\<newline>'' [])
     (ret 0)))))))))"

definition lw_dbe_exit :: "(('h, 'x) fw, int) prog" where
  "lw_dbe_exit =
     thn (on_board (thn gpio_exit (thn uart_exit timer_exit))) (thn (on_lw lw_ethmac_exit) (ret 0))"

definition IP4_ADDR :: "u32 \<Rightarrow> u32 \<Rightarrow> u32 \<Rightarrow> u32 \<Rightarrow> u32" where
  "IP4_ADDR a b c d =
     push_bit 24 (a AND 0xff) OR push_bit 16 (b AND 0xff) OR push_bit 8 (c AND 0xff) OR d AND 0xff"

definition init_netifs :: "'h plat \<Rightarrow> ('h, 'x) lwip \<Rightarrow> (('h, 'x) fw, int) prog" where
  "init_netifs B F =
     thn (on_board (thn (msg gen_trace ''> initializing lwip netifs...\<newline>'') (msg gen_trace ''> using static ip address\<newline>'')))
    (bnd (netif_add F (IP4_ADDR 10 0 18 148) (IP4_ADDR 255 255 255 0) (IP4_ADDR 10 0 18 1) 0 (ethernetif_init B (answers F))) (\<lambda>_.
     thn netif_set_default
    (thn (netif_set_up F) (ret 0))))"

text \<open>
  \<^verbatim>\<open>main\<close> up to its loop, with the result -1 where it returns early and 0 where it enters the loop. The handler of
  the Ethernet interrupt is the one of this driver.
\<close>

definition lw_main_setup :: "'h plat \<Rightarrow> rom \<Rightarrow> ('h, 'x) lwip \<Rightarrow> (('h, 'x) fw, int) prog" where
  "lw_main_setup B rom F =
     bnd (on_board board_init) (\<lambda>e. if e = -1 then ret (-1) else
     bnd (on_board (lw_dbe_init B rom)) (\<lambda>e.
       if e = -1 then thn (on_board (pp_printf ''> error initializing DBE Board! Exiting...\<newline>'' [])) (ret (-1))
       else
         thn (lwip_init B F)
         (bnd (init_netifs B F) (\<lambda>e.
           if e = -1 then thn (on_board (pp_printf ''> error initializing lwIP netif! Exiting...\<newline>'' [])) (ret (-1))
           else
             thn (on_board (doall
              [print_header,
               memmgr_test B,
               leds_test B,
               button_test B,
               print_end_header,
               thn (int_add ETH0_IRQ Oeth_interrupt (netif_ptr F)) (ret ()),
               thn (int_add 2 Button 0) (ret ()),
               msg gen_trace ''> begin main lwip loop\<newline>'']))
             (ret 0)))))"

definition lw_main :: "'h plat \<Rightarrow> rom \<Rightarrow> ('h, 'x) lwip \<Rightarrow> (('h, 'x) fw, int) prog" where
  "lw_main B rom F =
     bnd (lw_main_setup B rom F) (\<lambda>e.
       if e = -1 then ret (-1)
       else thn (wait_while (thn (sys_check_timeouts (lw_services B F)) (ret True))) (thn lw_dbe_exit (ret 0)))"

section \<open>The device lists stay as they are\<close>

text \<open>
  What the set-up of the network relies on: the memory manager is intact, the lists are short, and the list of Ethernet cores
  is empty when it has no device.
\<close>

definition lists_ok :: "'h plat \<Rightarrow> 'h mach \<Rightarrow> bool" where
  "lists_ok B s \<longleftrightarrow>
     (\<exists>P. live B s P) \<and> (\<forall>k\<in>fst ` set sdb_ids. unat (devl_size s (devl s k)) \<le> 0x3FFF) \<and>
     (devl_size s (devl s Ethmac) = 0 \<longrightarrow> devl_devices s (devl s Ethmac) = 0)"


lemma lists_ok_fields [simp]:
  "lists_ok B (s\<lparr>words := w\<rparr>) = lists_ok B s" "lists_ok B (s\<lparr>handle := f\<rparr>) = lists_ok B s"
  "lists_ok B (s\<lparr>handlers := g\<rparr>) = lists_ok B s" "lists_ok B (s\<lparr>csr_im := v\<rparr>) = lists_ok B s"
  "lists_ok B (s\<lparr>csr_ie := v\<rparr>) = lists_ok B s" "lists_ok B (s\<lparr>console := c\<rparr>) = lists_ok B s"
  by (simp_all add: lists_ok_def)










section \<open>The set-up is not completed\<close>














end
