(* ===== verification/Lwip_Chksum.thy ===== *)
theory Lwip_Chksum
  imports Ones_Sum Lwip_Memp
begin

text \<open>
  The checksums of lwIP (\<^verbatim>\<open>lib/lwip/src/core/ipv4/inet_chksum.c\<close>): the three versions of the sum the file offers (the second
  is the one this configuration compiles), and the checksums over a buffer, over a chain of buffers and with the
  pseudo header of TCP. The machine is big-endian, so \<^verbatim>\<open>htons\<close> does nothing. A buffer is its address and its bytes.
\<close>

section \<open>Definitions\<close>

definition FOLD_U32T :: "u32 \<Rightarrow> u32" where
  "FOLD_U32T u = drop_bit 16 u + (u AND 0x0000ffff)"

definition SWAP_BYTES_IN_WORD :: "u32 \<Rightarrow> u32" where
  "SWAP_BYTES_IN_WORD w = push_bit 8 (w AND 0xff) OR drop_bit 8 (w AND 0xff00)"

text \<open>The \<^verbatim>\<open>u16_t\<close> and the \<^verbatim>\<open>u32_t\<close> stored in consecutive bytes.\<close>

definition short_at :: "u8 \<Rightarrow> u8 \<Rightarrow> u16" where
  "short_at a b = push_bit 8 (ucast a) OR ucast b"

definition long_at :: "u8 \<Rightarrow> u8 \<Rightarrow> u8 \<Rightarrow> u8 \<Rightarrow> u32" where
  "long_at a b c d = push_bit 16 (ucast (short_at a b)) OR ucast (short_at c d)"

text \<open>The loop over pairs of bytes, with the sum and the bytes left.\<close>

fun add_shorts :: "u8 list \<Rightarrow> u32 \<Rightarrow> u32 \<times> u8 list" where
  "add_shorts (a # b # bs) s = add_shorts bs (s + ucast (short_at a b))"
| "add_shorts bs s = (s, bs)"

text \<open>Version 1, whose length has 16 bits.\<close>

definition lwip_chksum_1 :: "u8 list \<Rightarrow> u16 \<Rightarrow> u16" where
  "lwip_chksum_1 bs len =
     (let (acc, rest) = add_shorts (take (unat len) bs) 0;
          acc = (case rest of [] \<Rightarrow> acc | b # _ \<Rightarrow> acc + ucast (short_at b 0));
          acc = FOLD_U32T acc;
          acc = (if acc AND 0xffff0000 \<noteq> 0 then FOLD_U32T acc else acc)
      in ucast acc)"

text \<open>
  \<open>head_byte\<close> puts a byte at an odd address in the second byte of \<^verbatim>\<open>t\<close>, \<open>tail_byte\<close> a left-over byte in the first one.
\<close>

definition head_byte :: "addr \<Rightarrow> u8 list \<Rightarrow> u16 \<times> addr \<times> u8 list" where
  "head_byte a bs = (if a mod 2 = 1 \<and> bs \<noteq> [] then (ucast (hd bs), a + 1, tl bs) else (0, a, bs))"

definition tail_byte :: "u8 list \<Rightarrow> u16 \<Rightarrow> u16" where
  "tail_byte rest t = (case rest of [] \<Rightarrow> t | b # _ \<Rightarrow> push_bit 8 (ucast b) OR (t AND 0xff))"

definition end_sum :: "addr \<Rightarrow> u32 \<Rightarrow> u16" where
  "end_sum a s =
     (let sum = FOLD_U32T s;
          sum = FOLD_U32T sum
      in ucast (if a mod 2 = 1 then SWAP_BYTES_IN_WORD sum else sum))"

definition lwip_standard_chksum :: "addr \<Rightarrow> u8 list \<Rightarrow> u16" where
  "lwip_standard_chksum dataptr bs =
     (let (t, _, bs) = head_byte dataptr bs;
          (sum, rest) = add_shorts bs 0
      in end_sum dataptr (sum + ucast (tail_byte rest t)))"

text \<open>An addition whose carry is added back, and the loop over eight bytes.\<close>

definition add_carry :: "u32 \<Rightarrow> u32 \<Rightarrow> u32" where
  "add_carry s w = (let tmp = s + w in if tmp < s then tmp + 1 else tmp)"

function add_longs :: "u8 list \<Rightarrow> u32 \<Rightarrow> u32 \<times> u8 list" where
  "add_longs bs s =
     (if length bs > 7 then
        add_longs (drop 8 bs)
          (add_carry (add_carry s (long_at (bs ! 0) (bs ! 1) (bs ! 2) (bs ! 3))) (long_at (bs ! 4) (bs ! 5) (bs ! 6) (bs ! 7)))
      else (s, bs))"
  by pat_completeness auto
termination by (relation "measure (\<lambda>(bs, _). length bs)") auto

declare add_longs.simps [simp del]

definition lwip_chksum_3 :: "addr \<Rightarrow> u8 list \<Rightarrow> u16" where
  "lwip_chksum_3 dataptr bs =
     (let (t, ps, bs) = head_byte dataptr bs;
          (sum, bs) = (if ps mod 4 \<noteq> 0 \<and> length bs > 1 then (ucast (short_at (bs ! 0) (bs ! 1)), drop 2 bs) else (0, bs));
          (sum, bs) = add_longs bs sum;
          (sum, rest) = add_shorts bs (FOLD_U32T sum)
      in end_sum dataptr (sum + ucast (tail_byte rest t)))"

text \<open>The checksum functions. A chain of buffers is a list.\<close>

type_synonym chain = "(addr \<times> u8 list) list"

definition inet_chksum :: "addr \<Rightarrow> u8 list \<Rightarrow> u16" where
  "inet_chksum dataptr bs = NOT (lwip_standard_chksum dataptr bs)"

definition add_pbuf :: "nat \<Rightarrow> u16 \<Rightarrow> u32 \<times> bool \<Rightarrow> u32 \<times> bool" where
  "add_pbuf len c acs =
     (let (acc, swapped) = acs;
          acc = FOLD_U32T (acc + ucast c)
      in if len mod 2 \<noteq> 0 then (SWAP_BYTES_IN_WORD acc, \<not> swapped) else (acc, swapped))"

fun chain_sum :: "chain \<Rightarrow> u32 \<times> bool \<Rightarrow> u32 \<times> bool" where
  "chain_sum [] acs = acs"
| "chain_sum ((a, bs) # q) acs = chain_sum q (add_pbuf (length bs) (lwip_standard_chksum a bs) acs)"

definition unswap :: "u32 \<times> bool \<Rightarrow> u32" where
  "unswap acs = (if snd acs then SWAP_BYTES_IN_WORD (fst acs) else fst acs)"

definition inet_chksum_pbuf :: "chain \<Rightarrow> u16" where
  "inet_chksum_pbuf p = ucast (NOT (unswap (chain_sum p (0, False)) AND 0xffff))"

definition add_pseudo :: "u32 \<Rightarrow> u32 \<Rightarrow> u8 \<Rightarrow> u16 \<Rightarrow> u32 \<Rightarrow> u16" where
  "add_pseudo src dest proto proto_len acc =
     (let acc = acc + (src AND 0xffff);
          acc = acc + (drop_bit 16 src AND 0xffff);
          acc = acc + (dest AND 0xffff);
          acc = acc + (drop_bit 16 dest AND 0xffff);
          acc = acc + ucast proto;
          acc = acc + ucast proto_len;
          acc = FOLD_U32T acc;
          acc = FOLD_U32T acc
      in ucast (NOT (acc AND 0xffff)))"

definition inet_chksum_pseudo :: "chain \<Rightarrow> u32 \<Rightarrow> u32 \<Rightarrow> u8 \<Rightarrow> u16 \<Rightarrow> u16" where
  "inet_chksum_pseudo p src dest proto proto_len =
     add_pseudo src dest proto proto_len (unswap (chain_sum p (0, False)))"

fun partial_sum :: "chain \<Rightarrow> nat \<Rightarrow> u32 \<times> bool \<Rightarrow> ('s, u32 \<times> bool) prog" where
  "partial_sum [] chksum_len acs = ret acs"
| "partial_sum ((a, bs) # q) chksum_len acs =
     (if chksum_len > 0 then
        let chklen = (if length bs > chksum_len then chksum_len else length bs);
            c = lwip_standard_chksum a (take chklen bs)
        in thn (LWIP_ASSERT (chksum_len - chklen < 0x7fff))
               (partial_sum q (chksum_len - chklen) (add_pbuf (length bs) c acs))
      else ret acs)"

definition inet_chksum_pseudo_partial :: "chain \<Rightarrow> u32 \<Rightarrow> u32 \<Rightarrow> u8 \<Rightarrow> u16 \<Rightarrow> u16 \<Rightarrow> ('s, u16) prog" where
  "inet_chksum_pseudo_partial p src dest proto proto_len chksum_len =
     bnd (partial_sum p (unat chksum_len) (0, False)) (\<lambda>acs. ret (add_pseudo src dest proto proto_len (unswap acs)))"

section \<open>The Internet sum\<close>

text \<open>The sum of the bytes as big-endian 16-bit words, the last one filled with a zero byte, with end-around carry.\<close>

fun word_sum :: "u8 list \<Rightarrow> nat" where
  "word_sum (a # b # bs) = 256 * unat a + unat b + word_sum bs"
| "word_sum [a] = 256 * unat a"
| "word_sum [] = 0"

definition internet_sum :: "u8 list \<Rightarrow> nat" where
  "internet_sum bs = carry_sum (word_sum bs)"

lemma word_sum_append_even: "even (length xs) \<Longrightarrow> word_sum (xs @ ys) = word_sum xs + word_sum ys"
  by (induction xs rule: word_sum.induct) auto

lemma word_sum_Cons: "word_sum (x # bs) mod 65535 = (256 * (unat x + word_sum bs)) mod 65535"
proof (induction bs arbitrary: x rule: word_sum.induct)
  case (1 a b bs)
  have "word_sum (x # a # b # bs) mod 65535 = (256 * unat x + unat a + word_sum (b # bs) mod 65535) mod 65535"
    by (simp add: mod_simps)
  also have "\<dots> = (256 * unat x + unat a + 256 * (unat b + word_sum bs)) mod 65535" unfolding "1.IH" by (simp add: mod_simps)
  also have "\<dots> = (256 * unat x + unat a + 256 * (unat b + word_sum bs) + 65535 * unat a) mod 65535"
    by (simp only: mod_mult_self2)
  also have "256 * unat x + unat a + 256 * (unat b + word_sum bs) + 65535 * unat a =
      256 * (unat x + word_sum (a # b # bs))" by simp
  finally show ?case .
next
  case (2 a)
  have "256 * (unat x + word_sum [a]) = word_sum [x, a] + 65535 * unat a" by simp
  then show ?case by (simp only: mod_mult_self2)
qed simp

lemma word_sum_append_odd:
  "odd (length xs) \<Longrightarrow> word_sum (xs @ ys) mod 65535 = (word_sum xs + 256 * word_sum ys) mod 65535"
proof (induction xs rule: word_sum.induct)
  case (1 a b xs)
  then have "word_sum (xs @ ys) mod 65535 = (word_sum xs + 256 * word_sum ys) mod 65535" by simp
  from mod_add_cong[OF refl this, of "256 * unat a + unat b"] show ?case by (simp add: ac_simps)
next
  case (2 a)
  show ?case using word_sum_Cons[of a ys] by (simp add: distrib_left)
qed simp

lemma word_sum_0: "word_sum bs = 0 \<longleftrightarrow> (\<forall>b\<in>set bs. b = 0)"
  by (induction bs rule: word_sum.induct) (auto simp: unsigned_eq_0_iff)

lemma unat_lt8: "unat (b :: u8) < 256" using unsigned_less[of b, where 'a = nat] by simp
lemma unat_lt16: "unat (b :: u16) < 65536" using unsigned_less[of b, where 'a = nat] by simp
lemma unat_lt32: "unat (b :: u32) < 4294967296" using unsigned_less[of b, where 'a = nat] by simp

lemma word_sum_bound: "word_sum bs \<le> 65535 * ((length bs + 1) div 2)"
proof (induction bs rule: word_sum.induct)
  case (1 a b bs)
  then show ?case using unat_lt8[of a] unat_lt8[of b] by simp
next
  case (2 a)
  then show ?case using unat_lt8[of a] by simp
qed simp

section \<open>Reading the arithmetic\<close>

lemma unat_push_or:
  fixes x y :: "'a::len word"
  assumes "unat x * 2 ^ k < 2 ^ LENGTH('a)" "unat y < 2 ^ k" "k < LENGTH('a)"
  shows "unat (push_bit k x OR y) = unat x * 2 ^ k + unat y"
proof -
  have y: "take_bit k y = y"
    using assms(2) by (simp add: word_unat_eq_iff unsigned_take_bit_eq take_bit_nat_eq_self)
  have "push_bit k x AND y = 0"
  proof (rule bit_eqI)
    fix n
    show "bit (push_bit k x AND y) n = bit (0 :: 'a word) n"
      by (subst y[symmetric]) (auto simp: bit_simps)
  qed
  then have "push_bit k x OR y = push_bit k x + y" by (simp add: disjunctive_add_eq_or)
  moreover have p: "unat (push_bit k x) = unat x * 2 ^ k"
    using assms(1) by (simp only: unsigned_push_bit_eq) (simp add: push_bit_eq_mult take_bit_nat_eq_self)
  moreover have "unat x * 2 ^ k + unat y < 2 ^ LENGTH('a)"
  proof -
    have e: "(2 :: nat) ^ LENGTH('a) = 2 ^ (LENGTH('a) - k) * 2 ^ k" using assms(3) by (simp flip: power_add)
    then have "unat x < 2 ^ (LENGTH('a) - k)" using assms(1) by simp
    then have "(unat x + 1) * 2 ^ k \<le> 2 ^ (LENGTH('a) - k) * 2 ^ k" by (intro mult_right_mono) simp_all
    then show ?thesis using assms(2) e by (simp add: algebra_simps)
  qed
  ultimately show ?thesis by (simp add: unat_add_lt)
qed

lemma short_unat: "unat (short_at a b) = 256 * unat a + unat b"
proof -
  have "unat (push_bit 8 (ucast a) OR ucast b :: u16) = unat (ucast a :: u16) * 2 ^ 8 + unat (ucast b :: u16)"
    by (rule unat_push_or) (use unat_lt8[of a] unat_lt8[of b] in \<open>simp_all add: unsigned_ucast_eq take_bit_nat_eq_self\<close>)
  then show ?thesis using unat_lt8[of a] unat_lt8[of b] by (simp add: short_at_def unsigned_ucast_eq take_bit_nat_eq_self)
qed

lemma ucast_unat [simp]:
  "unat (ucast (w :: u16) :: u32) = unat w" "unat (ucast (b :: u8) :: u16) = unat b" "unat (ucast (b :: u8) :: u32) = unat b"
  using unat_lt8[of b] unat_lt16[of w] by (simp_all add: unsigned_ucast_eq take_bit_nat_eq_self)

lemma long_unat: "unat (long_at a b c d) = 65536 * unat (short_at a b) + unat (short_at c d)"
proof -
  have "unat (push_bit 16 (ucast (short_at a b)) OR ucast (short_at c d) :: u32) =
      unat (ucast (short_at a b) :: u32) * 2 ^ 16 + unat (ucast (short_at c d) :: u32)"
    by (rule unat_push_or) (use unat_lt16[of "short_at a b"] unat_lt16[of "short_at c d"] in \<open>simp_all\<close>)
  then show ?thesis by (simp add: long_at_def)
qed

lemma fold_unat: "unat (FOLD_U32T w) = unat w div 65536 + unat w mod 65536"
  unfolding FOLD_U32T_def
  by (subst unat_add_lt) (use unat_lt32[of w] in \<open>simp_all add: unat_drop_bit low16 less_mult_imp_div_less\<close>)

lemma fold_le: "unat (FOLD_U32T w) \<le> 131070" "unat w \<le> 131070 \<Longrightarrow> unat (FOLD_U32T w) \<le> 65535"
proof -
  have "unat w div 65536 < 65536" using unat_lt32[of w] by (simp add: div_less_iff_less_mult)
  then show "unat (FOLD_U32T w) \<le> 131070" using mod_less_divisor[of 65536 "unat w"] unfolding fold_unat by linarith
  show "unat (FOLD_U32T w) \<le> 65535" if "unat w \<le> 131070"
    using that mod_less_divisor[of 65536 "unat w"] div_mult_mod_eq[of "unat w" 65536] unfolding fold_unat by linarith
qed

lemma fold_mod: "unat (FOLD_U32T w) mod 65535 = unat w mod 65535"
proof -
  have "unat w = unat w div 65536 + unat w mod 65536 + 65535 * (unat w div 65536)"
    using div_mult_mod_eq[of "unat w" 65536] by linarith
  then show ?thesis unfolding fold_unat by (metis mod_mult_self2)
qed

lemma fold_0: "unat (FOLD_U32T w) = 0 \<longleftrightarrow> unat w = 0"
  unfolding fold_unat using div_mult_mod_eq[of "unat w" 65536] by auto

lemma fold_twice: "unat (FOLD_U32T (FOLD_U32T w)) = carry_sum (unat w)"
  by (rule carry_sum_eqI) (simp_all add: fold_le fold_mod fold_0 del: unsigned_eq_0_iff)

lemma swap_unat:
  assumes "unat w \<le> 65535"
  shows "unat (SWAP_BYTES_IN_WORD w) = 256 * (unat w mod 256) + unat w div 256"
proof -
  have "(0xff :: u32) = mask 8" by (simp add: mask_eq_exp_minus_1)
  then have "w AND 0xff = take_bit 8 w" by (simp only: take_bit_eq_mask)
  then have l: "unat (w AND 0xff) = unat w mod 256" by (simp only: unsigned_take_bit_eq) (simp add: take_bit_eq_mod)
  have "w = take_bit 16 w"
    using assms by (simp add: word_unat_eq_iff unsigned_take_bit_eq take_bit_nat_eq_self)
  have "drop_bit 8 (w AND 0xff00) = drop_bit 8 w"
  proof (rule bit_eqI)
    fix n
    have "bit w (8 + n) \<Longrightarrow> n < 8" using \<open>w = take_bit 16 w\<close> by (metis bit_take_bit_iff nat_add_left_cancel_less numeral_Bit0)
    moreover have "n < 8 \<Longrightarrow> bit (0xff00 :: u32) (8 + n)" by (auto simp: less_Suc_eq numeral_eq_Suc)
    ultimately show "bit (drop_bit 8 (w AND 0xff00)) n = bit (drop_bit 8 w) n"
      by (simp only: bit_drop_bit_eq bit_and_iff comp_def) blast
  qed
  then have h: "unat (drop_bit 8 (w AND 0xff00)) = unat w div 256" by (simp add: unat_drop_bit)
  have "unat (push_bit 8 (w AND 0xff) OR drop_bit 8 (w AND 0xff00)) = unat (w AND 0xff) * 2 ^ 8 + unat (drop_bit 8 (w AND 0xff00))"
    by (rule unat_push_or, simp_all only: l h) (use assms in \<open>simp_all add: div_less_iff_less_mult\<close>)
  then show ?thesis unfolding SWAP_BYTES_IN_WORD_def l h by simp
qed

lemma swap_facts:
  assumes "unat w \<le> 65535"
  shows "unat (SWAP_BYTES_IN_WORD w) \<le> 65535" "unat (SWAP_BYTES_IN_WORD w) mod 65535 = 256 * unat w mod 65535"
    "unat (SWAP_BYTES_IN_WORD w) = 0 \<longleftrightarrow> unat w = 0"
proof -
  note s = swap_unat[OF assms] and d = div_mult_mod_eq[of "unat w" 256]
  have q: "unat w div 256 \<le> 255" using assms by (simp add: div_le_mono[of _ 65535 256, simplified])
  show "unat (SWAP_BYTES_IN_WORD w) \<le> 65535" using q mod_less_divisor[of 256 "unat w"] unfolding s by linarith
  have "256 * unat w = 256 * (unat w mod 256) + unat w div 256 + 65535 * (unat w div 256)" using d by linarith
  then show "unat (SWAP_BYTES_IN_WORD w) mod 65535 = 256 * unat w mod 65535" unfolding s by (metis mod_mult_self2)
  show "unat (SWAP_BYTES_IN_WORD w) = 0 \<longleftrightarrow> unat w = 0" unfolding s using d by auto
qed

lemma fold_eq: "ones_eq (unat (FOLD_U32T w)) (unat w)"
  unfolding ones_eq_def using fold_mod fold_0 by blast

lemma swap_eq: "unat w \<le> 65535 \<Longrightarrow> ones_eq (unat (SWAP_BYTES_IN_WORD w)) (256 * unat w)"
  unfolding ones_eq_def using swap_facts by fastforce

lemma word_sum_Cons_eq: "ones_eq (word_sum (x # bs)) (256 * (unat x + word_sum bs))"
proof -
  have "word_sum (x # bs) = 0 \<longleftrightarrow> 256 * (unat x + word_sum bs) = 0" by (simp add: word_sum_0 unsigned_eq_0_iff)
  then show ?thesis unfolding ones_eq_def using word_sum_Cons by blast
qed

lemma word_sum_append_eq: "odd (length xs) \<Longrightarrow> ones_eq (word_sum (xs @ ys)) (word_sum xs + 256 * word_sum ys)"
proof -
  assume "odd (length xs)"
  moreover have "word_sum (xs @ ys) = 0 \<longleftrightarrow> word_sum xs + 256 * word_sum ys = 0" by (simp add: word_sum_0 ball_Un)
  ultimately show ?thesis unfolding ones_eq_def using word_sum_append_odd by blast
qed

section \<open>The three versions of the sum\<close>

lemma add_shorts_run:
  assumes "unat s + 65535 * (length bs div 2) < 2 ^ 32"
  obtains s' rest where "add_shorts bs s = (s', rest)" "length rest \<le> 1" "unat s' + word_sum rest = unat s + word_sum bs"
    "unat s' \<le> unat s + 65535 * (length bs div 2)"
  using assms
proof (induction bs s arbitrary: thesis rule: add_shorts.induct)
  case (1 a b bs s)
  have u: "unat (s + ucast (short_at a b)) = unat s + (256 * unat a + unat b)"
    by (subst unat_add_lt) (use 1(3) unat_lt16[of "short_at a b"] in \<open>simp_all add: short_unat\<close>)
  have "256 * unat a + unat b \<le> 65535" using unat_lt16[of "short_at a b"] by (simp add: short_unat)
  then have l: "unat (s + ucast (short_at a b)) + 65535 * (length bs div 2) \<le> unat s + 65535 * (length (a # b # bs) div 2)"
    unfolding u by simp
  from 1(1)[OF _ order_le_less_trans[OF l 1(3)]] obtain s' rest where
    r: "add_shorts bs (s + ucast (short_at a b)) = (s', rest)" "length rest \<le> 1"
    "unat s' + word_sum rest = unat (s + ucast (short_at a b)) + word_sum bs"
    "unat s' \<le> unat (s + ucast (short_at a b)) + 65535 * (length bs div 2)" by blast
  show ?case
  proof (rule 1(2))
    show "add_shorts (a # b # bs) s = (s', rest)" using r(1) by simp
    show "unat s' + word_sum rest = unat s + word_sum (a # b # bs)" using r(3) u by simp
    show "unat s' \<le> unat s + 65535 * (length (a # b # bs) div 2)" using r(4) l by (rule order_trans)
  qed (rule r(2))
qed auto

lemma tail_unat:
  assumes "length rest \<le> 1" "unat t < 256"
  shows "unat (tail_byte rest t) = word_sum rest + unat t"
proof (cases rest)
  case (Cons b bs)
  have "(0xff :: u16) = mask 8" by (simp add: mask_eq_exp_minus_1)
  then have "t AND 0xff = take_bit 8 t" by (simp only: take_bit_eq_mask)
  then have "t AND 0xff = t" using assms(2) by (simp add: word_unat_eq_iff unsigned_take_bit_eq take_bit_nat_eq_self)
  moreover have "unat (push_bit 8 (ucast b) OR t) = unat (ucast b :: u16) * 2 ^ 8 + unat t"
    by (rule unat_push_or) (use unat_lt8[of b] assms(2) in simp_all)
  ultimately show ?thesis using Cons assms(1) by (simp add: tail_byte_def)
qed (simp add: tail_byte_def)

lemma ucast_small: "unat (w :: u32) \<le> 65535 \<Longrightarrow> unat (ucast w :: u16) = unat w"
  by (simp add: unsigned_ucast_eq take_bit_nat_eq_self)

lemma end_sum_unat: "unat (end_sum a s) = carry_sum (if a mod 2 = 1 then 256 * unat s else unat s)"
proof -
  let ?f = "FOLD_U32T (FOLD_U32T s)"
  have f: "unat ?f = carry_sum (unat s)" by (rule fold_twice)
  then have le: "unat ?f \<le> 65535" by (simp add: carry_sum_le)
  have "ones_eq (unat (SWAP_BYTES_IN_WORD ?f)) (256 * unat s)"
    using ones_eq_trans[OF swap_eq[OF le] ones_eq_mult[OF ones_eq_carry_sum, of 256 "unat s", folded f]] .
  then have "unat (SWAP_BYTES_IN_WORD ?f) = carry_sum (256 * unat s)" by (rule carry_sumI[OF swap_facts(1)[OF le]])
  then show ?thesis using f le swap_facts(1)[OF le] by (simp add: end_sum_def ucast_small)
qed

lemma head_sum:
  assumes "head_byte a bs = (t, p, bs')"
  shows "unat t < 256" "length bs' \<le> length bs"
    "carry_sum (if a mod 2 = 1 then 256 * (unat t + word_sum bs') else unat t + word_sum bs') = internet_sum bs"
proof -
  have e: "carry_sum (256 * (unat x + word_sum xs)) = internet_sum (x # xs)" for x xs
    unfolding internet_sum_def by (rule carry_sum_cong[OF ones_eq_sym[OF word_sum_Cons_eq]])
  show "unat t < 256" "length bs' \<le> length bs"
    "carry_sum (if a mod 2 = 1 then 256 * (unat t + word_sum bs') else unat t + word_sum bs') = internet_sum bs"
    using assms e[of "hd bs" "tl bs"] by (auto simp: head_byte_def internet_sum_def unat_lt8 split: if_splits)
qed

lemma standard_unat:
  assumes "length bs \<le> 0x20000"
  shows "unat (lwip_standard_chksum a bs) = internet_sum bs"
proof -
  obtain t p bs' where h: "head_byte a bs = (t, p, bs')" by (cases "head_byte a bs")
  have l: "length bs' div 2 \<le> 65536" using head_sum(2)[OF h] assms by linarith
  then have "unat (0 :: u32) + 65535 * (length bs' div 2) < 2 ^ 32" by simp
  then obtain s rest where s: "add_shorts bs' 0 = (s, rest)" "length rest \<le> 1" "unat s + word_sum rest = word_sum bs'"
    "unat s \<le> 65535 * (length bs' div 2)" using add_shorts_run[of 0 bs'] by auto
  have "unat (s + ucast (tail_byte rest t)) = unat s + unat (tail_byte rest t)"
    by (subst unat_add_lt) (use s(4) l unat_lt16[of "tail_byte rest t"] in simp_all)
  then have "unat (s + ucast (tail_byte rest t)) = unat t + word_sum bs'"
    using tail_unat[OF s(2) head_sum(1)[OF h]] s(3) by simp
  then show ?thesis using head_sum(3)[OF h] by (simp only: lwip_standard_chksum_def h s(1) end_sum_unat Let_def prod.case)
qed

lemma high_zero: "w AND 0xffff0000 = 0 \<Longrightarrow> unat w \<le> 65535" for w :: u32
proof -
  assume "w AND 0xffff0000 = 0"
  moreover have "w = w AND (0xffff0000 OR 0xffff)"
  proof -
    have "(0xffff0000 OR 0xffff :: u32) = - 1" by simp
    then show ?thesis by (simp only: and.right_neutral)
  qed
  ultimately have "w = w AND 0xffff" by (metis bit.conj_disj_distrib or.left_neutral)
  then have "unat w = unat w mod 65536" using low16[of w] by simp
  then show ?thesis using mod_less_divisor[of 65536 "unat w"] by linarith
qed

lemma version_1_unat:
  shows "unat (lwip_chksum_1 as len) = internet_sum (take (unat len) as)"
proof -
  define bs where "bs = take (unat len) as"
  have assms: "length bs \<le> 0x20000" using unat_lt16[of len] by (simp add: bs_def)
  have "unat (0 :: u32) + 65535 * (length bs div 2) < 2 ^ 32" using assms by simp
  then obtain s rest where s: "add_shorts bs 0 = (s, rest)" "length rest \<le> 1" "unat s + word_sum rest = word_sum bs"
    "unat s \<le> 65535 * (length bs div 2)" using add_shorts_run[of 0 bs] by auto
  define acc where "acc = (case rest of [] \<Rightarrow> s | b # _ \<Rightarrow> s + ucast (short_at b 0))"
  have l: "unat s \<le> 65535 * 65536" using s(4) assms by linarith
  have acc: "unat acc = word_sum bs"
  proof (cases rest)
    case (Cons b bs')
    have "unat (s + ucast (short_at b 0)) = unat s + unat (short_at b 0)"
      by (subst unat_add_lt) (use l unat_lt16[of "short_at b 0"] in simp_all)
    then show ?thesis using Cons s(2,3) by (simp add: acc_def short_unat)
  qed (use s in \<open>simp add: acc_def\<close>)
  let ?f = "FOLD_U32T acc"
  have id: "FOLD_U32T ?f = ?f" if "?f AND 0xffff0000 = 0"
    using high_zero[OF that] by (simp add: word_unat_eq_iff fold_unat[of ?f])
  have f: "lwip_chksum_1 as len = ucast (FOLD_U32T ?f)"
    using id by (simp add: lwip_chksum_1_def s(1)[unfolded bs_def] acc_def[symmetric] Let_def)
  show ?thesis unfolding f bs_def[symmetric] internet_sum_def acc[symmetric] fold_twice[symmetric] by (rule ucast_small[OF fold_le(2)[OF fold_le(1)]])
qed

lemma add_carry_eq: "ones_eq (unat (add_carry s w)) (unat s + unat w)"
proof (cases "unat s + unat w < 2 ^ 32")
  case True
  then have u: "unat (s + w) = unat s + unat w" by (simp add: unat_add_lt)
  then have "\<not> s + w < s" by (simp add: word_less_nat_alt)
  then show ?thesis by (simp add: add_carry_def u)
next
  case False
  have u: "unat (s + w) = unat s + unat w - 2 ^ 32"
    using False unat_lt32[of s] unat_lt32[of w] by (simp add: unat_word_ariths le_mod_geq)
  then have lt: "s + w < s" using False unat_lt32[of w] by (simp add: word_less_nat_alt)
  have "unat (s + w + 1) = unat (s + w) + 1"
    by (subst unat_add_lt) (use u unat_lt32[of s] unat_lt32[of w] in simp_all)
  then have c: "unat (add_carry s w) = unat s + unat w - 2 ^ 32 + 1" using lt u by (simp add: add_carry_def Let_def)
  then have "unat s + unat w = unat (add_carry s w) + 65535 * 65537" using False by simp
  then have "(unat s + unat w) mod 65535 = unat (add_carry s w) mod 65535" by (simp only: mod_mult_self2)
  moreover have "unat (add_carry s w) \<noteq> 0" using c by simp
  moreover have "unat s + unat w \<noteq> 0" using False by (metis zero_less_numeral zero_less_power)
  ultimately show ?thesis unfolding ones_eq_def by metis
qed

lemma long_eq: "ones_eq (unat (long_at a b c d)) (word_sum [a, b, c, d])"
proof -
  have "ones_eq (65536 * unat (short_at a b) + unat (short_at c d)) (unat (short_at a b) + unat (short_at c d))"
    by (intro ones_eq_add ones_eq_65536 ones_eq_refl)
  then show ?thesis by (simp add: long_unat short_unat ac_simps)
qed

lemma add_longs_run:
  obtains s' rest where "add_longs bs s = (s', rest)" "length rest \<le> 7" "ones_eq (unat s' + word_sum rest) (unat s + word_sum bs)"
proof (induction bs s arbitrary: thesis rule: add_longs.induct)
  case (1 bs s)
  show ?case
  proof (cases "length bs > 7")
    case True
    let ?a = "long_at (bs ! 0) (bs ! 1) (bs ! 2) (bs ! 3)" and ?b = "long_at (bs ! 4) (bs ! 5) (bs ! 6) (bs ! 7)"
    let ?s = "add_carry (add_carry s ?a) ?b"
    from 1(1)[OF True] obtain s' rest where r: "add_longs (drop 8 bs) ?s = (s', rest)" "length rest \<le> 7"
      "ones_eq (unat s' + word_sum rest) (unat ?s + word_sum (drop 8 bs))" by blast
    have u: "[0..<8] = [0, 1, 2, 3, 4, 5, 6, 7 :: nat]" by code_simp
    have l: "take 8 bs = map ((!) bs) [0..<8]" by (rule nth_equalityI) (use True in auto)
    have "word_sum bs = word_sum (take 8 bs) + word_sum (drop 8 bs)"
      using word_sum_append_even[of "take 8 bs" "drop 8 bs"] True by (simp add: min_absorb2)
    then have w: "word_sum bs = (word_sum [bs ! 0, bs ! 1, bs ! 2, bs ! 3] + word_sum [bs ! 4, bs ! 5, bs ! 6, bs ! 7]) +
      word_sum (drop 8 bs)" unfolding l u list.map by simp
    have "ones_eq (unat ?s) ((unat s + word_sum [bs ! 0, bs ! 1, bs ! 2, bs ! 3]) + word_sum [bs ! 4, bs ! 5, bs ! 6, bs ! 7])"
      by (intro ones_eq_trans[OF add_carry_eq] ones_eq_add long_eq ones_eq_refl)
    from ones_eq_trans[OF r(3) ones_eq_add[OF this ones_eq_refl]]
    have "ones_eq (unat s' + word_sum rest) (unat s + word_sum bs)" unfolding w by (simp add: ac_simps)
    then show ?thesis using 1(2)[OF _ r(2)] r(1) True by (simp add: add_longs.simps[of bs s])
  next
    case False
    then show ?thesis using 1(2)[of s bs] by (simp add: add_longs.simps[of bs s])
  qed
qed

lemma version_3_unat: "unat (lwip_chksum_3 a bs) = internet_sum bs"
proof -
  obtain t p bs' where h: "head_byte a bs = (t, p, bs')" by (cases "head_byte a bs")
  define s0 b0 where "s0 = (if p mod 4 \<noteq> 0 \<and> length bs' > 1 then ucast (short_at (bs' ! 0) (bs' ! 1)) else 0 :: u32)"
    and "b0 = (if p mod 4 \<noteq> 0 \<and> length bs' > 1 then drop 2 bs' else bs')"
  have 0: "unat s0 + word_sum b0 = word_sum bs'"
    by (cases bs' rule: word_sum.cases) (auto simp: s0_def b0_def short_unat)
  obtain s1 b1 where s1: "add_longs b0 s0 = (s1, b1)" "length b1 \<le> 7" "ones_eq (unat s1 + word_sum b1) (unat s0 + word_sum b0)"
    by (rule add_longs_run)
  have l: "unat (FOLD_U32T s1) + 65535 * (length b1 div 2) \<le> 131070 + 65535 * 3"
    using fold_le(1)[of s1] s1(2) by (intro add_mono mult_left_mono) simp_all
  then have "unat (FOLD_U32T s1) + 65535 * (length b1 div 2) < 2 ^ 32" by simp
  then obtain s2 rest where s2: "add_shorts b1 (FOLD_U32T s1) = (s2, rest)" "length rest \<le> 1"
    "unat s2 + word_sum rest = unat (FOLD_U32T s1) + word_sum b1" "unat s2 \<le> unat (FOLD_U32T s1) + 65535 * (length b1 div 2)"
    using add_shorts_run by blast
  have "unat (s2 + ucast (tail_byte rest t)) = unat s2 + unat (tail_byte rest t)"
    by (subst unat_add_lt) (use s2(4) l unat_lt16[of "tail_byte rest t"] in simp_all)
  then have u: "unat (s2 + ucast (tail_byte rest t)) = unat t + (unat (FOLD_U32T s1) + word_sum b1)"
    using tail_unat[OF s2(2) head_sum(1)[OF h]] s2(3) by simp
  have "ones_eq (unat (FOLD_U32T s1) + word_sum b1) (word_sum bs')"
    using ones_eq_trans[OF ones_eq_add[OF fold_eq ones_eq_refl] s1(3)] unfolding 0 .
  then have e: "ones_eq (unat (s2 + ucast (tail_byte rest t))) (unat t + word_sum bs')"
    unfolding u by (rule ones_eq_add[OF ones_eq_refl])
  have d: "lwip_chksum_3 a bs = end_sum a (s2 + ucast (tail_byte rest t))"
    using s1(1) s2(1) by (auto simp: lwip_chksum_3_def h s0_def b0_def Let_def split: if_splits)
  show ?thesis
    unfolding d end_sum_unat using head_sum(3)[OF h] carry_sum_cong[OF e] carry_sum_cong[OF ones_eq_mult[OF e, of 256]]
    by (cases "a mod 2 = 1") (simp_all only: if_True if_False refl simp_thms)
qed

section \<open>Chains\<close>

text \<open>The loop variables of the functions over chains, after the bytes \<open>P\<close>.\<close>

definition chain_ok :: "u32 \<times> bool \<Rightarrow> u8 list \<Rightarrow> bool" where
  "chain_ok acs P \<longleftrightarrow>
     unat (fst acs) \<le> 65535 \<and> ones_eq (unat (fst acs)) (if snd acs then 256 * word_sum P else word_sum P)"

lemma swap_back: "ones_eq (256 * (256 * S)) S"
  using ones_eq_65536[of S] by simp

lemma add_pbuf_ok:
  assumes ok: "chain_ok acs P" and sw: "snd acs = odd (length P)" and c: "unat c = internet_sum bs"
  shows "chain_ok (add_pbuf n c acs) (P @ bs)"
proof -
  obtain acc sw where acs: "acs = (acc, sw)" by (cases acs)
  have acc: "unat acc \<le> 65535" "ones_eq (unat acc) (if sw then 256 * word_sum P else word_sum P)"
    using ok by (simp_all add: chain_ok_def acs)
  have cb: "unat c \<le> 65535" using unat_lt16[of c] by simp
  have u: "unat (acc + ucast c) = unat acc + unat c" by (subst unat_add_lt) (use acc(1) cb in simp_all)
  let ?f = "FOLD_U32T (acc + ucast c)"
  have le: "unat ?f \<le> 65535" by (rule fold_le(2)) (use u acc(1) cb in simp)
  have "ones_eq (unat c) (word_sum bs)" using ones_eq_carry_sum[of "word_sum bs"] c by (simp add: internet_sum_def)
  then have "ones_eq (unat acc + unat c) ((if sw then 256 * word_sum P else word_sum P) + word_sum bs)" by (rule ones_eq_add[OF acc(2)])
  from ones_eq_trans[OF fold_eq this[folded u]]
  have f: "ones_eq (unat ?f) ((if sw then 256 * word_sum P else word_sum P) + word_sum bs)" .
  have g: "ones_eq (unat ?f) (if sw then 256 * word_sum (P @ bs) else word_sum (P @ bs))"
  proof (cases sw)
    case True
    then have "odd (length P)" using assms(2) acs by simp
    from ones_eq_mult[OF word_sum_append_eq[OF this], of 256 bs]
    have "ones_eq (256 * word_sum (P @ bs)) (256 * word_sum P + 256 * (256 * word_sum bs))" by (simp only: distrib_left)
    then have "ones_eq (256 * word_sum (P @ bs)) (256 * word_sum P + word_sum bs)"
      by (rule ones_eq_trans[OF _ ones_eq_add[OF ones_eq_refl swap_back]])
    from ones_eq_trans[OF _ ones_eq_sym[OF this]] f True show ?thesis by simp
  next
    case False
    then show ?thesis using f assms(2) acs by (simp add: word_sum_append_even)
  qed
  have s: "ones_eq (unat (SWAP_BYTES_IN_WORD ?f)) (if sw then word_sum (P @ bs) else 256 * word_sum (P @ bs))"
    using ones_eq_trans[OF swap_eq[OF le] ones_eq_mult[OF g, of 256]] ones_eq_trans[OF _ swap_back] by (cases sw) auto
  show ?thesis using le swap_facts(1)[OF le] g s by (cases sw) (simp_all add: chain_ok_def add_pbuf_def acs Let_def)
qed

lemma add_pbuf_swapped: "snd acs = odd n \<Longrightarrow> snd (add_pbuf m c acs) = odd (n + m)"
  by (cases acs) (auto simp: add_pbuf_def Let_def odd_iff_mod_2_eq_one)

lemma chain_sum_ok:
  assumes "chain_ok acs P" "snd acs = odd (length P)" "\<forall>(a, bs)\<in>set q. length bs \<le> 0x20000"
  shows "chain_ok (chain_sum q acs) (P @ concat (map snd q))"
  using assms
proof (induction q acs arbitrary: P rule: chain_sum.induct)
  case (2 a bs q acs)
  have "unat (lwip_standard_chksum a bs) = internet_sum bs" using 2(4) by (intro standard_unat) simp
  from 2(1)[OF add_pbuf_ok[OF 2(2,3) this, of "length bs"]] add_pbuf_swapped[OF 2(3)] 2(4) show ?case by simp
qed simp

lemma chain_start: "chain_ok (0, False) []" by (simp add: chain_ok_def)

lemma unswap_unat:
  assumes "chain_ok acs P"
  shows "unat (unswap acs) = internet_sum P"
proof -
  have a: "unat (fst acs) \<le> 65535" "ones_eq (unat (fst acs)) (if snd acs then 256 * word_sum P else word_sum P)"
    using assms by (simp_all add: chain_ok_def)
  have "ones_eq (unat (SWAP_BYTES_IN_WORD (fst acs))) (word_sum P)" if "snd acs"
    using ones_eq_trans[OF swap_eq[OF a(1)] ones_eq_mult[OF a(2), of 256]] ones_eq_trans[OF _ swap_back] that by simp
  then show ?thesis
    unfolding internet_sum_def using a swap_facts(1)[OF a(1)] by (intro carry_sumI) (auto simp: unswap_def)
qed

lemma not_unat: "unat (ucast (NOT (w AND 0xffff)) :: u16) = 65535 - unat w mod 65536" for w :: u32
proof -
  have "unat (NOT (w AND 0xffff)) mod 65536 = 65535 - unat w mod 65536"
    using not_low16[of "w AND 0xffff"] unfolding low16 by simp
  then show ?thesis by (simp add: unsigned_ucast_eq take_bit_eq_mod)
qed

lemma pbuf_unat:
  assumes "\<forall>(a, bs)\<in>set p. length bs \<le> 0x20000"
  shows "unat (inet_chksum_pbuf p) = 65535 - internet_sum (concat (map snd p))"
proof -
  have "unat (unswap (chain_sum p (0, False))) = internet_sum (concat (map snd p))"
    using unswap_unat[OF chain_sum_ok[OF chain_start _ assms]] by simp
  moreover have "internet_sum (concat (map snd p)) < 65536"
    using carry_sum_le[of "word_sum (concat (map snd p))"] by (simp add: internet_sum_def)
  ultimately show ?thesis unfolding inet_chksum_pbuf_def not_unat by simp
qed

section \<open>The pseudo header\<close>

text \<open>The bytes of the pseudo header: the two addresses, a zero, the protocol and the length.\<close>

definition addr_bytes :: "u32 \<Rightarrow> u8 list" where
  "addr_bytes w = [ucast (drop_bit 24 w), ucast (drop_bit 16 w), ucast (drop_bit 8 w), ucast w]"

definition pseudo_header :: "u32 \<Rightarrow> u32 \<Rightarrow> u8 \<Rightarrow> u16 \<Rightarrow> u8 list" where
  "pseudo_header src dest proto proto_len =
     addr_bytes src @ addr_bytes dest @ [0, proto, ucast (drop_bit 8 proto_len), ucast proto_len]"

lemma low_byte: "unat (ucast w :: u8) = unat w mod 256" for w :: "'a::len word"
  by (simp add: unsigned_ucast_eq take_bit_eq_mod)

lemma addr_sum: "word_sum (addr_bytes w) = unat w mod 65536 + unat w div 65536"
proof -
  define n where "n = unat w"
  have n: "n < 4294967296" using unat_lt32[of w] by (simp add: n_def)
  have b: "x div 256 mod 256 * 256 + x mod 256 = x mod 65536" for x :: nat
    using mod_mult2_eq[of x 256 256] by simp
  have "word_sum (addr_bytes w) = (n div 65536 div 256 mod 256 * 256 + n div 65536 mod 256) + (n div 256 mod 256 * 256 + n mod 256)"
    by (simp add: addr_bytes_def low_byte unat_drop_bit n_def div_mult2_eq[symmetric])
  also have "\<dots> = n div 65536 mod 65536 + n mod 65536" unfolding b ..
  also have "n div 65536 mod 65536 = n div 65536" using n by (simp add: div_less_iff_less_mult)
  finally show ?thesis by (simp add: n_def)
qed

lemma pseudo_sum:
  "word_sum (pseudo_header src dest proto proto_len @ bs) =
     word_sum (addr_bytes src) + word_sum (addr_bytes dest) + unat proto + unat proto_len + word_sum bs"
proof -
  have l: "unat proto_len = unat proto_len div 256 mod 256 * 256 + unat proto_len mod 256"
    using unat_lt16[of proto_len] by (simp add: div_less_iff_less_mult)
  have "even (length (addr_bytes w))" for w by (simp add: addr_bytes_def)
  then show ?thesis
    by (simp add: pseudo_header_def word_sum_append_even low_byte unat_drop_bit) (use l in linarith)
qed

lemma add_pseudo_unat:
  assumes "unat acc = internet_sum bs"
  shows "unat (add_pseudo src dest proto proto_len acc) = 65535 - internet_sum (pseudo_header src dest proto proto_len @ bs)"
proof -
  let ?w = "acc + (src AND 0xffff) + (drop_bit 16 src AND 0xffff) + (dest AND 0xffff) + (drop_bit 16 dest AND 0xffff) +
    ucast proto + ucast proto_len"
  have h: "unat (drop_bit 16 w AND 0xffff) = unat w div 65536" "unat w div 65536 < 65536" for w :: u32
    using unat_lt32[of w] by (simp_all only: low16 unat_drop_bit) (simp_all add: div_less_iff_less_mult)
  have a: "unat acc \<le> 65535" using assms carry_sum_le by (simp add: internet_sum_def)
  have "unat ?w = unat acc + unat src mod 65536 + unat src div 65536 + unat dest mod 65536 + unat dest div 65536 +
      unat proto + unat proto_len"
    using a h(2)[of src] h(2)[of dest] unat_lt8[of proto] unat_lt16[of proto_len]
      mod_less_divisor[of 65536 "unat src"] mod_less_divisor[of 65536 "unat dest"]
    by (simp add: unat_add_lt low16[of src] low16[of dest] h(1))
  then have w: "unat ?w = word_sum (addr_bytes src) + word_sum (addr_bytes dest) + unat proto + unat proto_len + unat acc"
    by (simp add: addr_sum)
  have "ones_eq (unat ?w) (word_sum (pseudo_header src dest proto proto_len @ bs))"
    unfolding w pseudo_sum assms internet_sum_def by (intro ones_eq_add ones_eq_refl ones_eq_carry_sum)
  then have "unat (FOLD_U32T (FOLD_U32T ?w)) = internet_sum (pseudo_header src dest proto proto_len @ bs)"
    unfolding fold_twice internet_sum_def by (rule carry_sum_cong)
  moreover have "internet_sum (pseudo_header src dest proto proto_len @ bs) \<le> 65535"
    by (simp add: internet_sum_def carry_sum_le)
  ultimately show ?thesis unfolding add_pseudo_def Let_def not_unat by simp
qed

lemma partial_sum_ok:
  assumes "chain_ok acs P" "snd acs = odd (length P)" "\<forall>(a, bs)\<in>set q. length bs \<le> 0x20000"
    and "n < 0x7fff + length (concat (map snd (take 1 q)))"
  shows "wp (partial_sum q n acs) (\<lambda>r t. chain_ok r (P @ take n (concat (map snd q))) \<and> t = s) s"
  using assms
proof (induction q n acs arbitrary: P rule: partial_sum.induct)
  case (2 a bs q n acs)
  let ?k = "if length bs > n then n else length bs"
  let ?c = "lwip_standard_chksum a (take ?k bs)"
  have c: "unat ?c = internet_sum (take ?k bs)" using 2(4) by (intro standard_unat) auto
  show ?case
  proof (cases "n = 0")
    case False
    have lt: "n - ?k < 0x7fff" using 2(5) False by auto
    note ok = add_pbuf_ok[OF 2(2,3) c, of "length bs"]
    have e: "P @ take n (concat (map snd ((a, bs) # q))) = (P @ take ?k bs) @ take (n - ?k) (concat (map snd q))"
      by (auto simp: min_def)
    have "wp (partial_sum q (n - ?k) (add_pbuf (length bs) ?c acs))
      (\<lambda>r t. chain_ok r ((P @ take ?k bs) @ take (n - ?k) (concat (map snd q))) \<and> t = s) s"
    proof (cases "n \<le> length bs")
      case True
      then have "n - ?k = 0" by auto
      then show ?thesis using ok by (cases q) (auto simp: wp_ret)
    next
      case longer: False
      show ?thesis
        by (rule 2(1)) (use False longer lt ok add_pbuf_swapped[OF 2(3)] 2(4) in auto)
    qed
    then show ?thesis unfolding e using False lt by (simp add: LWIP_ASSERT_def Let_def wp_thn wp_ret)
  qed (use 2 in \<open>simp add: wp_def\<close>)
qed (simp add: wp_ret)

text \<open>The partial checksum, and the assertion that stops it once 0x7fff bytes or more are left after a buffer.\<close>

lemma partial_ok:
  assumes "\<forall>(a, bs)\<in>set p. length bs \<le> 0x20000" and "p = [] \<or> unat chksum_len < 0x7fff + length (snd (hd p))"
  shows "wp (inet_chksum_pseudo_partial p src dest proto proto_len chksum_len) (\<lambda>r t. t = s \<and>
      unat r = 65535 - internet_sum (pseudo_header src dest proto proto_len @ take (unat chksum_len) (concat (map snd p)))) s"
proof -
  have "wp (partial_sum p (unat chksum_len) (0, False)) (\<lambda>r t. chain_ok r (take (unat chksum_len) (concat (map snd p))) \<and> t = s) s"
  proof (cases p)
    case (Cons x q)
    then show ?thesis using partial_sum_ok[OF chain_start _ assms(1), of "unat chksum_len"] assms(2) by simp
  qed (simp add: wp_ret chain_start)
  then have "wp (partial_sum p (unat chksum_len) (0, False)) (\<lambda>acs t. t = s \<and> unat (add_pseudo src dest proto proto_len (unswap acs)) =
      65535 - internet_sum (pseudo_header src dest proto proto_len @ take (unat chksum_len) (concat (map snd p)))) s"
    by (rule wp_mono) (auto intro: add_pseudo_unat unswap_unat)
  then show ?thesis unfolding inet_chksum_pseudo_partial_def wp_bnd wp_ret .
qed

lemma partial_asserts:
  assumes "0x7fff \<le> unat chksum_len - length bs"
  shows "\<not> wp (inet_chksum_pseudo_partial ((a, bs) # p) src dest proto proto_len chksum_len) Q s"
proof -
  have "\<not> unat chksum_len < length bs" "unat chksum_len > 0" "\<not> unat chksum_len - length bs < 0x7fff" using assms by auto
  then show ?thesis by (simp add: inet_chksum_pseudo_partial_def wp_bnd wp_thn wp_LWIP_ASSERT Let_def)
qed

section \<open>Properties\<close>

text \<open>
  C30 (equivalence). The versions of the checksum agree. For up to 0x20000 bytes at any address, even or odd, the version this
  configuration compiles, which adds 16-bit words and swaps the result, computes the Internet sum of the bytes, exactly:
  the sum of the big-endian words with end-around carry. So does the third version, which adds 32-bit words and their
  carries. The first, which combines bytes, has a length of 16 bits: it computes the sum of as many bytes as that length
  says, which are all of them below 64k.
\<close>

theorem lwip_chksum_versions:
  assumes "length bs \<le> 0x20000"
  shows "unat (lwip_standard_chksum a bs) = internet_sum bs \<and>
    unat (lwip_chksum_1 bs (of_nat (length bs))) = internet_sum (take (length bs mod 0x10000) bs) \<and>
    unat (lwip_chksum_3 a bs) = internet_sum bs"
  using standard_unat[OF assms] version_1_unat[of bs "of_nat (length bs)"] version_3_unat by (simp add: unat_of_nat)

theorem lwip_chksum_versions_witness:
  "unat (lwip_standard_chksum 0x1001 [0x45, 0x00, 0xff, 0xff, 0x9a]) = 0xdf00 \<and>
   unat (lwip_chksum_1 [0x45, 0x00, 0xff, 0xff, 0x9a] 5) = 0xdf00 \<and>
   unat (lwip_chksum_3 0x1001 [0x45, 0x00, 0xff, 0xff, 0x9a]) = 0xdf00"
  using lwip_chksum_versions[of "[0x45, 0x00, 0xff, 0xff, 0x9a]" "0x1001"] by (simp add: internet_sum_def carry_sum_def)

text \<open>
  C31 (functional). The checksum of a chain of buffers is that of its bytes. However a TCP segment is cut into buffers, with odd
  lengths and odd addresses among them, \<^verbatim>\<open>inet_chksum_pseudo\<close> is the complement of the Internet sum of the pseudo header
  followed by all bytes of the chain; \<^verbatim>\<open>inet_chksum_pseudo_partial\<close> is that of the pseudo header and the first
  \<^verbatim>\<open>chksum_len\<close> bytes when fewer than 0x7fff bytes to sum lie behind the first buffer; otherwise its assertion stops it.
  (The length of a buffer has 16 bits.)
\<close>

theorem inet_chksum_pseudo_chain:
  assumes "\<forall>(a, bs)\<in>set p. length bs < 0x10000"
  shows "unat (inet_chksum_pseudo p src dest proto proto_len) =
      65535 - internet_sum (pseudo_header src dest proto proto_len @ concat (map snd p)) \<and>
    (if p = [] \<or> unat chksum_len < 0x7fff + length (snd (hd p))
     then wp (inet_chksum_pseudo_partial p src dest proto proto_len chksum_len) (\<lambda>r t. t = s \<and>
       unat r = 65535 - internet_sum (pseudo_header src dest proto proto_len @ take (unat chksum_len) (concat (map snd p)))) s
     else \<not> wp (inet_chksum_pseudo_partial p src dest proto proto_len chksum_len) (\<lambda>_ _. True) s)"
proof
  have len: "\<forall>(a, bs)\<in>set p. length bs \<le> 0x20000" using assms by fastforce
  show "unat (inet_chksum_pseudo p src dest proto proto_len) =
      65535 - internet_sum (pseudo_header src dest proto proto_len @ concat (map snd p))"
    unfolding inet_chksum_pseudo_def
    by (rule add_pseudo_unat) (use unswap_unat[OF chain_sum_ok[OF chain_start _ len]] in simp)
  show "if p = [] \<or> unat chksum_len < 0x7fff + length (snd (hd p))
     then wp (inet_chksum_pseudo_partial p src dest proto proto_len chksum_len) (\<lambda>r t. t = s \<and>
       unat r = 65535 - internet_sum (pseudo_header src dest proto proto_len @ take (unat chksum_len) (concat (map snd p)))) s
     else \<not> wp (inet_chksum_pseudo_partial p src dest proto proto_len chksum_len) (\<lambda>_ _. True) s"
  proof (cases "p = [] \<or> unat chksum_len < 0x7fff + length (snd (hd p))")
    case True
    then show ?thesis using partial_ok[OF len, of chksum_len] by auto
  next
    case False
    then obtain a bs q where p: "p = (a, bs) # q" by (cases p) auto
    then have "0x7fff \<le> unat chksum_len - length bs" using False by auto
    then show ?thesis using False unfolding p by (simp add: partial_asserts)
  qed
qed

text \<open>Two buffers of odd length, the second at an odd address.\<close>

definition demo_chain :: chain where
  "demo_chain = [(0x1000, [0x12, 0x34, 0x56]), (0x2001, [0x78, 0x9a, 0xbc])]"

theorem inet_chksum_pseudo_chain_witness:
  "unat (inet_chksum_pseudo demo_chain 0x0a001294 0x0a001201 6 6) =
      65535 - internet_sum (pseudo_header 0x0a001294 0x0a001201 6 6 @ [0x12, 0x34, 0x56, 0x78, 0x9a, 0xbc]) \<and>
   wp (inet_chksum_pseudo_partial demo_chain 0x0a001294 0x0a001201 6 6 4) (\<lambda>r t. t = () \<and>
      unat r = 65535 - internet_sum (pseudo_header 0x0a001294 0x0a001201 6 6 @ [0x12, 0x34, 0x56, 0x78])) ()"
  using inet_chksum_pseudo_chain[of demo_chain "0x0a001294" "0x0a001201" 6 6 4 "()"]
  by (simp add: demo_chain_def)

end
