(* ===== verification/Newlib.thy ===== *)
theory Newlib
  imports Machine
begin

text \<open>
  The system calls the lwIP build gives to the C library (\<^verbatim>\<open>lib/minimal_newlibc.c\<close>): a table of devices that stands for the
  files, memory for \<^verbatim>\<open>malloc\<close>, and the end of the program.
\<close>

section \<open>Definitions\<close>

text \<open>
  The variables of the file and the machine under it. \<open>reent_errno\<close> is the field \<^verbatim>\<open>_errno\<close> of the structure each call gets, \<open>errno\<close> the
  global one; a null \<open>heap_end\<close> is 0.
\<close>

record 'h newlib =
  board :: "'h mach"
  fail_code :: u32
  errno :: int
  reent_errno :: int
  heap_end :: addr

record 's devoptab =
  dev_name :: string
  open_r :: "string \<Rightarrow> int \<Rightarrow> int \<Rightarrow> ('s, int) prog"
  close_r :: "int \<Rightarrow> ('s, int) prog"
  write_r :: "int \<Rightarrow> u8 list \<Rightarrow> int \<Rightarrow> ('s, int) prog"
  read_r :: "int \<Rightarrow> int \<Rightarrow> ('s, int) prog"
  lseek_r :: "int \<Rightarrow> int \<Rightarrow> int \<Rightarrow> ('s, int) prog"

text \<open>\<^verbatim>\<open>EIO\<close> is 5 and \<^verbatim>\<open>ENODEV\<close> is 19.\<close>

definition undef_open_r :: "string \<Rightarrow> int \<Rightarrow> int \<Rightarrow> ('s, int) prog" where
  "undef_open_r nm flags mode = ret (-1)"

definition undef_close_r :: "int \<Rightarrow> ('s, int) prog" where
  "undef_close_r fd = ret (-1)"

definition undef_write_r :: "int \<Rightarrow> u8 list \<Rightarrow> int \<Rightarrow> ('s, int) prog" where
  "undef_write_r fd ptr len = ret len"

definition undef_read_r :: "int \<Rightarrow> int \<Rightarrow> ('s, int) prog" where
  "undef_read_r fd len = ret len"

definition undef_lseek_r :: "int \<Rightarrow> int \<Rightarrow> int \<Rightarrow> ('h newlib, int) prog" where
  "undef_lseek_r fd offset whence = thn (modify (\<lambda>s. s\<lparr>errno := 5\<rparr>)) (ret (-1))"

definition devoptab_tty0 :: "'h newlib devoptab" where
  "devoptab_tty0 =
     \<lparr>dev_name = ''tty0'', open_r = undef_open_r, close_r = undef_close_r, write_r = undef_write_r, read_r = undef_read_r,
      lseek_r = undef_lseek_r\<rparr>"

text \<open>The table ends with a null pointer. \<^verbatim>\<open>devoptab_tty0\<close> is weak, so that another file may replace it: the table is an argument.\<close>

definition devoptab_list :: "'h newlib devoptab option list" where
  "devoptab_list = [Some devoptab_tty0, Some devoptab_tty0, Some devoptab_tty0, None]"

text \<open>\<^verbatim>\<open>devoptab_list[fd]->\<close>\<close>

definition dev_at :: "'s devoptab option list \<Rightarrow> int \<Rightarrow> ('s, 's devoptab) prog" where
  "dev_at tab fd =
     (if fd < 0 \<or> int (length tab) \<le> fd then fail BufferOverrun
      else case tab ! nat fd of None \<Rightarrow> fail NullPointer | Some d \<Rightarrow> ret d)"

definition nl_write_r :: "'s devoptab option list \<Rightarrow> int \<Rightarrow> u8 list \<Rightarrow> int \<Rightarrow> ('s, int) prog" where
  "nl_write_r tab fd buf cnt = bnd (dev_at tab fd) (\<lambda>d. write_r d fd buf cnt)"

definition nl_read_r :: "'s devoptab option list \<Rightarrow> int \<Rightarrow> int \<Rightarrow> ('s, int) prog" where
  "nl_read_r tab fd cnt = bnd (dev_at tab fd) (\<lambda>d. read_r d fd cnt)"

definition nl_close_r :: "'s devoptab option list \<Rightarrow> int \<Rightarrow> ('s, int) prog" where
  "nl_close_r tab fd = bnd (dev_at tab fd) (\<lambda>d. close_r d fd)"

definition nl_lseek_r :: "'s devoptab option list \<Rightarrow> int \<Rightarrow> int \<Rightarrow> int \<Rightarrow> ('s, int) prog" where
  "nl_lseek_r tab fd offset whence = bnd (dev_at tab fd) (\<lambda>d. lseek_r d fd offset whence)"

text \<open>The loop of \<^verbatim>\<open>_open_r\<close>: the index of the device, or -1.\<close>

partial_function (option) search_dev :: "'s devoptab option list \<Rightarrow> string \<Rightarrow> int \<Rightarrow> ('s, int) prog" where
  "search_dev tab nm i s =
     bnd (dev_at tab i) (\<lambda>d.
       if dev_name d = nm then ret i
       else if tab ! nat i \<noteq> None then search_dev tab nm (i + 1)
       else ret (-1)) s"

definition nl_open_r :: "'h newlib devoptab option list \<Rightarrow> string \<Rightarrow> int \<Rightarrow> int \<Rightarrow> ('h newlib, int) prog" where
  "nl_open_r tab nm flags mode =
     bnd (search_dev tab nm 0) (\<lambda>fd.
       if fd \<noteq> -1 then bnd (dev_at tab fd) (\<lambda>d. thn (open_r d nm flags mode) (ret fd))
       else thn (modify (\<lambda>s. s\<lparr>reent_errno := 19\<rparr>)) (ret fd))"

text \<open>The linker's \<^verbatim>\<open>_end\<close> and the stack pointer at the call are arguments.\<close>

definition nl_sbrk_r :: "addr \<Rightarrow> addr \<Rightarrow> int \<Rightarrow> ('h newlib, addr) prog" where
  "nl_sbrk_r lim sp incr =
     thn (modify (\<lambda>s. if heap_end s = 0 then s\<lparr>heap_end := lim\<rparr> else s))
     (bnd (gets heap_end) (\<lambda>prev_heap_end.
       if int prev_heap_end + incr > int sp then ret 0
       else thn (modify (\<lambda>s. s\<lparr>heap_end := nat (int prev_heap_end + incr)\<rparr>)) (ret prev_heap_end)))"

definition nl_exit :: "u32 \<Rightarrow> ('h newlib, unit) prog" where
  "nl_exit f =
     thn (modify (\<lambda>s. s\<lparr>fail_code := f\<rparr>))
    (thn (bnd (gets fail_code) (\<lambda>c. zoom board (\<lambda>m s. s\<lparr>board := m\<rparr>)
           (DBE_DEBUG (DBG_GENERIC OR DBE_DBG_INFO) ''> fatal error! exit code: %d'' (ret [Num c]))))
         (wait_while (ret True)))"

section \<open>Behaviour\<close>

text \<open>The program ends by never returning; this is where a failed assertion of lwIP stays.\<close>

lemma nl_exit_never: "\<not> wp (nl_exit f) Q s"
proof
  assume "wp (nl_exit f) Q s"
  then have "\<exists>P t. wp (wait_while (ret True) :: ('a newlib, unit) prog) P t"
    unfolding nl_exit_def wp_thn[of _ "wait_while (ret True)"] wp_thn[of "modify _"] by (auto simp: wp_iff)
  then show False by (auto simp: wp_def wait_stuck)
qed

text \<open>
  A table as the code declares it, with devices in front of the null pointer: the search ends in the first device with the name. For
  any other name it goes on to the null pointer and uses it, so that the branch which reports
  \<^verbatim>\<open>ENODEV\<close> is never taken.
\<close>

lemma search_dev_run:
  assumes "n \<le> length ds"
  shows "search_dev (map Some ds @ [None]) nm (int n) s =
    (if nm \<in> set (map dev_name (drop n ds))
     then Some (Inr (int (n + length (takeWhile (\<lambda>d. dev_name d \<noteq> nm) (drop n ds))), s)) else Some (Inl NullPointer))"
  using assms
proof (induction "length ds - n" arbitrary: n)
  case 0
  then have "n = length ds" by simp
  then show ?case by (subst search_dev.simps) (simp add: dev_at_def nth_append bnd_def)
next
  case (Suc k)
  then have n: "n < length ds" by simp
  have d: "dev_at (map Some ds @ [None]) (int n) s = Some (Inr (ds ! n, s))" "(map Some ds @ [None]) ! n = Some (ds ! n)"
    using n by (simp_all add: dev_at_def nth_append)
  have e: "drop n ds = ds ! n # drop (Suc n) ds" using n by (simp add: Cons_nth_drop_Suc)
  have IH: "search_dev (map Some ds @ [None]) nm (int n + 1) s =
    (if nm \<in> set (map dev_name (drop (Suc n) ds))
     then Some (Inr (int (Suc n + length (takeWhile (\<lambda>d. dev_name d \<noteq> nm) (drop (Suc n) ds))), s)) else Some (Inl NullPointer))"
    using Suc(1)[of "Suc n"] Suc(2) n by (simp add: add.commute)
  show ?case
    by (subst search_dev.simps) (use d IH in \<open>auto simp: bnd_def e\<close>)
qed

lemma open_unknown_device:
  assumes "nm \<notin> set (map dev_name ds)"
  shows "nl_open_r (map Some ds @ [None]) nm flags mode s = Some (Inl NullPointer)"
  using search_dev_run[of 0 ds nm s] assms by (simp add: nl_open_r_def bnd_def)

lemma open_not_tty0: "nm \<noteq> ''tty0'' \<Longrightarrow> nl_open_r devoptab_list nm flags mode s = Some (Inl NullPointer)"
  using open_unknown_device[of nm "[devoptab_tty0, devoptab_tty0, devoptab_tty0]" flags mode s]
  by (simp add: devoptab_list_def devoptab_tty0_def)

text \<open>Memory is handed out once: successive blocks of positive size follow each other between \<^verbatim>\<open>_end\<close> and the stack.\<close>

lemma sbrk_blocks:
  assumes "0 < lim" "heap_end s = 0 \<or> lim \<le> heap_end s" "0 \<le> incr"
  shows "wp (nl_sbrk_r lim sp incr) (\<lambda>r t. lim \<le> heap_end t \<and>
    (r \<noteq> 0 \<longrightarrow> r = (if heap_end s = 0 then lim else heap_end s) \<and> int (heap_end t) = int r + incr \<and> heap_end t \<le> sp)) s"
  using assms by (auto simp: nl_sbrk_r_def wp_simps)

end
