(* ===== verification/Digits.thy ===== *)
theory Digits
  imports Prelude "HOL-Library.Char_ord"
begin

text \<open>
  Numbers as text: the conversions of \<^verbatim>\<open>printf\<close> and \<^verbatim>\<open>strtol\<close> that programs on the host use. Characters are
  compared by their codes.
\<close>

definition NL :: string where "NL = [CHR 0x0A]"
definition TAB :: string where "TAB = [CHR 0x09]"

definition digit :: "char \<Rightarrow> bool" where
  "digit c \<longleftrightarrow> CHR ''0'' \<le> c \<and> c \<le> CHR ''9''"

section \<open>Printing\<close>

fun decimal :: "nat \<Rightarrow> string" where
  "decimal n = (if n < 10 then [] else decimal (n div 10)) @ [char_of (48 + n mod 10)]"

fun hexadecimal :: "nat \<Rightarrow> string" where
  "hexadecimal n = (if n < 16 then [] else hexadecimal (n div 16)) @ [''0123456789abcdef'' ! (n mod 16)]"

declare decimal.simps [simp del] hexadecimal.simps [simp del]

definition show_int :: "u32 \<Rightarrow> string" where
  "show_int w = (if sint w < 0 then CHR ''-'' # decimal (nat (- sint w)) else decimal (nat (sint w)))"

definition show_long :: "int \<Rightarrow> string" where
  "show_long n = (if n < 0 then CHR ''-'' # decimal (nat (- n)) else decimal (nat n))"

definition pad :: "char \<Rightarrow> nat \<Rightarrow> string \<Rightarrow> string" where
  "pad c n t = replicate (n - length t) c @ t"

text \<open>\<^verbatim>\<open>%02x\<close> or \<^verbatim>\<open>%02X\<close> of a byte, with the digits of the alphabet \<open>ds\<close>.\<close>

definition hex2 :: "string \<Rightarrow> u8 \<Rightarrow> string" where
  "hex2 ds b = [ds ! (unat b div 16), ds ! (unat b mod 16)]"

section \<open>Reading\<close>

definition isspace :: "char \<Rightarrow> bool" where
  "isspace c \<longleftrightarrow> c = CHR '' '' \<or> CHR 0x09 \<le> c \<and> c \<le> CHR 0x0D"

definition digit_val :: "char \<Rightarrow> nat option" where
  "digit_val c =
     (if CHR ''0'' \<le> c \<and> c \<le> CHR ''9'' then Some (of_char c - 48)
      else if CHR ''a'' \<le> c \<and> c \<le> CHR ''z'' then Some (of_char c - 87)
      else if CHR ''A'' \<le> c \<and> c \<le> CHR ''Z'' then Some (of_char c - 55)
      else None)"

fun digits_from :: "nat \<Rightarrow> nat \<Rightarrow> string \<Rightarrow> nat \<times> string" where
  "digits_from b n [] = (n, [])"
| "digits_from b n (c # cs) =
     (case digit_val c of
        Some d \<Rightarrow> if d < b then digits_from b (n * b + d) cs else (n, c # cs)
      | None \<Rightarrow> (n, c # cs))"

definition hex_prefix :: "string \<Rightarrow> bool" where
  "hex_prefix s \<longleftrightarrow>
     (case s of z # x # d # _ \<Rightarrow> z = CHR ''0'' \<and> (x = CHR ''x'' \<or> x = CHR ''X'') \<and> (\<exists>v\<in>set_option (digit_val d). v < 16)
      | _ \<Rightarrow> False)"

text \<open>\<^verbatim>\<open>strtol\<close> with base \<open>b\<close>, where 0 lets the prefix decide: the value, kept in the range of \<^verbatim>\<open>long\<close>, and the rest.\<close>

definition strtol :: "nat \<Rightarrow> string \<Rightarrow> int \<times> string" where
  "strtol b s =
     (let t = dropWhile isspace s;
          (neg, u) = (case t of c # cs \<Rightarrow> if c = CHR ''-'' then (True, cs) else if c = CHR ''+'' then (False, cs) else (False, t)
                      | [] \<Rightarrow> (False, t));
          (b', v) = (if (b = 0 \<or> b = 16) \<and> hex_prefix u then (16, drop 2 u)
                     else if b = 0 then (if take 1 u = ''0'' then 8 else 10, u) else (b, u));
          (n, rest) = digits_from b' 0 v
      in if rest = v then (0, s)
         else (max (- (2 ^ 63)) (min (2 ^ 63 - 1) (if neg then - int n else int n)), rest))"

text \<open>\<^verbatim>\<open>atoi\<close> keeps the low 32 bits.\<close>

definition atoi :: "string \<Rightarrow> int" where
  "atoi s = sint (word_of_int (fst (strtol 10 s)) :: u32)"

section \<open>Reading back\<close>

fun number_of :: "nat \<Rightarrow> string \<Rightarrow> nat" where
  "number_of n [] = n"
| "number_of n (c # cs) = number_of (10 * n + (of_char c - 48)) cs"

fun unhex :: "string \<Rightarrow> u8 list" where
  "unhex (h # l # cs) = of_nat (16 * the (digit_val h) + the (digit_val l)) # unhex cs"
| "unhex cs = []"

lemma digit_char: "d < 10 \<Longrightarrow> digit (char_of (48 + d :: nat)) \<and> of_char (char_of (48 + d :: nat) :: char) = 48 + d"
  by (simp add: digit_def less_eq_char_def)

lemma number_of_append: "number_of n (s @ t) = number_of (number_of n s) t"
  by (induction n s rule: number_of.induct) simp_all

lemma number_of_decimal [simp]: "number_of 0 (decimal n) = n"
proof (induction n rule: decimal.induct)
  case (1 n)
  then show ?case using digit_char[of "n mod 10"]
    by (subst decimal.simps) (auto simp: number_of_append)
qed

lemma decimal_digits: "list_all digit (decimal n)"
proof (induction n rule: decimal.induct)
  case (1 n)
  then show ?case using digit_char[of "n mod 10"] by (subst decimal.simps) auto
qed

lemma decimal_nonempty [simp]: "decimal n \<noteq> []"
  by (subst decimal.simps) simp

lemma hex_digit_val:
  assumes "d < 16" and "ds = ''0123456789abcdef'' \<or> ds = ''0123456789ABCDEF''"
  shows "digit_val (ds ! d) = Some d"
proof -
  have "d \<in> set [0..<16]" using assms(1) by simp
  then show ?thesis
    using assms(2) by (auto simp: upt_rec digit_val_def less_eq_char_def)
qed

lemma unhex_hex2:
  assumes "ds = ''0123456789abcdef'' \<or> ds = ''0123456789ABCDEF''"
  shows "unhex (hex2 ds b @ cs) = b # unhex cs"
proof -
  have b: "unat b < 256" using unsigned_less[of b, where 'a = nat] by simp
  then have "16 * (unat b div 16) + unat b mod 16 = unat b" by simp
  then show ?thesis
    using b assms by (simp add: hex2_def hex_digit_val less_mult_imp_div_less)
qed

lemma unhex_concat:
  assumes "ds = ''0123456789abcdef'' \<or> ds = ''0123456789ABCDEF''"
  shows "unhex (concat (map (hex2 ds) bs)) = bs"
  by (induction bs) (simp_all add: unhex_hex2[OF assms])

end
