(* ===== verification/Ramtools.thy ===== *)
theory Ramtools
  imports Digits "HOL-Library.Signed_Division"
begin

text \<open>
  The tools that turn the linked firmware into the initial contents of the processor's memory:
  \<^verbatim>\<open>tools/genraminit.c\<close> writes a script for the simulator, \<^verbatim>\<open>tools/genramvhd.c\<close> a VHDL package. A program is a
  function from its arguments and files to its exit status and its standard output; what it prints to
  \<^verbatim>\<open>stderr\<close> is left out.
\<close>

section \<open>Files\<close>

text \<open>A file open for reading: what is left of it, and whether a read came to its end.\<close>

record stream =
  pending :: "u8 list"
  at_eof :: bool

definition open_stream :: "u8 list \<Rightarrow> stream" where
  "open_stream bs = \<lparr>pending = bs, at_eof = False\<rparr>"

text \<open>\<^verbatim>\<open>fread(x, 1, n, f)\<close>: bytes that were not read stay as they are in \<open>x\<close>.\<close>

definition fread :: "u8 list \<Rightarrow> nat \<Rightarrow> stream \<Rightarrow> u8 list \<times> nat \<times> stream" where
  "fread x n f =
     (let got = take n (pending f)
      in (got @ drop (length got) x, length got,
          \<lparr>pending = drop n (pending f), at_eof = at_eof f \<or> length (pending f) < n\<rparr>))"

section \<open>genraminit\<close>

definition write_line :: "nat \<Rightarrow> u8 list \<Rightarrow> string" where
  "write_line i x = ''write '' @ hexadecimal i @ '' '' @ concat (map (hex2 ''0123456789ABCDEF'') (take 4 x)) @ NL"

text \<open>The loop over the file: the text, and the number of words written.\<close>

function init_words :: "u8 list \<Rightarrow> nat \<Rightarrow> stream \<Rightarrow> string \<times> nat" where
  "init_words x i f =
     (if at_eof f then ([], i)
      else let (x', n, f') = fread x 4 f; (out, k) = init_words x' (i + 1) f'
           in (write_line i x' @ out, k))"
  by pat_completeness auto
termination
  by (relation "measure (\<lambda>(x, i, f). length (pending f) + (if at_eof f then 0 else 1))")
     (auto simp: fread_def Let_def)

declare init_words.simps [simp del]

definition init_fill :: "nat \<Rightarrow> int \<Rightarrow> string" where
  "init_fill i n = concat (map (\<lambda>k. write_line k [0, 0, 0, 0]) [i..<nat n])"

text \<open>\<open>x\<close> is the former contents of the buffer on the stack.\<close>

definition genraminit :: "string list \<Rightarrow> (string \<Rightarrow> u8 list option) \<Rightarrow> u8 list \<Rightarrow> int \<times> string" where
  "genraminit argv files x =
     (if length argv < 3 then (- 1, [])
      else case files (argv ! 1) of
             None \<Rightarrow> (- 1, [])
           | Some bs \<Rightarrow>
               let n = atoi (argv ! 2); (out, i) = init_words x 0 (open_stream bs)
               in (0, out @ init_fill i n))"

section \<open>genramvhd\<close>

definition my_isalpha :: "char \<Rightarrow> bool" where
  "my_isalpha c \<longleftrightarrow> CHR ''a'' \<le> c \<and> c \<le> CHR ''z'' \<or> CHR ''A'' \<le> c \<and> c \<le> CHR ''Z''"

definition my_isok :: "char \<Rightarrow> bool" where
  "my_isok c \<longleftrightarrow> c = CHR ''_'' \<or> my_isalpha c \<or> CHR ''0'' \<le> c \<and> c \<le> CHR ''9''"

text \<open>
  The options as \<^verbatim>\<open>getopt\<close> hands them out. An invalid number is reported and sets \<^verbatim>\<open>error\<close>, which nothing reads;
  its value is used all the same. \<^verbatim>\<open>verbose\<close> is not read either.
\<close>

datatype vhd_opt = Opt_w string | Opt_p string | Opt_s string | Opt_b | Opt_l | Opt_v | Opt_h | Opt_bad

record vhd_conf =
  package :: "string option"
  width :: int
  bigendian :: bool
  vsize :: int

definition vhd_default :: vhd_conf where
  "vhd_default = \<lparr>package = None, width = 4, bigendian = True, vsize = - 1\<rparr>"

fun vhd_options :: "vhd_opt list \<Rightarrow> vhd_conf \<Rightarrow> vhd_conf option" where
  "vhd_options [] c = Some c"
| "vhd_options (Opt_w s # os) c = vhd_options os (c\<lparr>width := fst (strtol 0 s)\<rparr>)"
| "vhd_options (Opt_p s # os) c = vhd_options os (c\<lparr>package := Some s\<rparr>)"
| "vhd_options (Opt_s s # os) c = vhd_options os (c\<lparr>vsize := fst (strtol 0 s)\<rparr>)"
| "vhd_options (Opt_b # os) c = vhd_options os (c\<lparr>bigendian := True\<rparr>)"
| "vhd_options (Opt_l # os) c = vhd_options os (c\<lparr>bigendian := False\<rparr>)"
| "vhd_options (Opt_v # os) c = vhd_options os c"
| "vhd_options (Opt_h # os) c = None"
| "vhd_options (Opt_bad # os) c = vhd_options os c"

text \<open>The name of the package, from the option or from the file name, which has to fit the buffer.\<close>

definition vhd_package :: "string option \<Rightarrow> string \<Rightarrow> string option" where
  "vhd_package p filename =
     (case p of
        None \<Rightarrow>
          if length filename \<ge> 100 - 5 then None
          else let buf = map (\<lambda>c. if my_isok c then c else CHR ''_'') (dropWhile (\<lambda>c. \<not> my_isalpha c) filename)
               in if buf = [] then None else Some buf
      | Some s \<Rightarrow>
          (case s of [] \<Rightarrow> None
           | c # cs \<Rightarrow> if my_isalpha c \<and> list_all my_isok cs then Some s else None))"

text \<open>The digits of the size: \<^verbatim>\<open>i\<close> is the power of ten, no result when it exceeds \<^verbatim>\<open>long\<close>.\<close>

function vhd_digits :: "nat \<Rightarrow> int \<Rightarrow> nat option" where
  "vhd_digits i_width n =
     (if 10 ^ i_width \<le> n
      then if (10::int) ^ (i_width + 1) < 2 ^ 63 then vhd_digits (i_width + 1) n else None
      else Some i_width)"
  by pat_completeness auto
termination
proof (relation "measure (\<lambda>(k, n). 64 - k)")
  fix k :: nat and n :: int
  assume "(10::int) ^ (k + 1) < 2 ^ 63"
  moreover have "(2::int) ^ (k + 1) \<le> 10 ^ (k + 1)" by (rule power_mono) simp_all
  ultimately have "(2::int) ^ (k + 1) < 2 ^ 63" by linarith
  then have "k + 1 < 63" by (rule power_less_imp_less_exp[rotated]) simp
  then show "((k + 1, n), (k, n)) \<in> measure (\<lambda>(k, n). 64 - k)" by simp
qed simp

datatype crash = Division_by_zero | Overrun | Overflow

text \<open>\<^verbatim>\<open>%*ld => x"\<close>, the bytes of the buffer in the order of the option, and the closing quote.\<close>

definition vhd_entry :: "bool \<Rightarrow> nat \<Rightarrow> nat \<Rightarrow> nat \<Rightarrow> u8 list \<Rightarrow> string" where
  "vhd_entry big w i_width i x =
     pad CHR '' '' i_width (decimal i) @ '' => x'' @ [CHR 0x22] @
     concat (map (hex2 ''0123456789abcdef'') (if big then take w x else rev (take w x))) @ [CHR 0x22]"

definition vhd_sep :: "nat \<Rightarrow> nat \<Rightarrow> nat \<Rightarrow> string" where
  "vhd_sep columns n i =
     (if i + 1 = n then '');'' @ NL else if (i + 1) mod columns = 0 then '','' @ NL else '', '')"

text \<open>The loop over the table from entry \<open>i\<close> on; a short read ends it with status 1.\<close>

function vhd_rows :: "bool \<Rightarrow> nat \<Rightarrow> nat \<Rightarrow> nat \<Rightarrow> nat \<Rightarrow> nat \<Rightarrow> nat \<Rightarrow> stream \<Rightarrow> u8 list \<Rightarrow> bool \<times> string" where
  "vhd_rows big w i_width columns elements n i f x =
     (if i < n
      then let indent = (if i mod columns = 0 then TAB @ TAB else []);
               (x', got, f') = (if i < elements then fread x w f else (replicate 16 0, w, f))
           in if got \<noteq> w then (False, indent)
              else let (ok, out) = vhd_rows big w i_width columns elements n (i + 1) f' x'
                   in (ok, indent @ vhd_entry big w i_width i x' @ vhd_sep columns n i @ out)
      else (True, []))"
  by pat_completeness auto
termination
  by (relation "measure (\<lambda>(big, w, i_width, columns, elements, n, i, f, x). n - i)") auto

declare vhd_rows.simps [simp del]

definition vhd_head :: "string \<Rightarrow> string \<Rightarrow> int \<Rightarrow> int \<Rightarrow> string" where
  "vhd_head arg1 pkg n w =
     ''-- AUTOGENERATED FILE (from genramvhd.c run on '' @ arg1 @ '') --'' @ NL @
     ''library IEEE;'' @ NL @ ''use IEEE.std_logic_1164.all;'' @ NL @ ''use IEEE.numeric_std.all;'' @ NL @ NL @
     ''library work;'' @ NL @ ''use work.memory_loader_pkg.all;'' @ NL @ NL @
     ''package '' @ pkg @ ''_pkg is'' @ NL @
     TAB @ ''constant '' @ pkg @ ''_init : t_meminit_array('' @ show_long (n - 1) @ '' downto 0, '' @
     show_long (w * 8 - 1) @ '' downto 0) := ('' @ NL"

text \<open>
  The output. The buffer has 16 bytes; 0 columns or a width above 16 only matter when there is an entry.
\<close>

definition fits_long :: "int \<Rightarrow> bool" where
  "fits_long n \<longleftrightarrow> - (2 ^ 63) \<le> n \<and> n < 2 ^ 63"

definition vhd_print :: "vhd_conf \<Rightarrow> string \<Rightarrow> string \<Rightarrow> int \<Rightarrow> int \<Rightarrow> u8 list \<Rightarrow> u8 list \<Rightarrow> crash + int \<times> string" where
  "vhd_print c arg1 pkg n elements bs x =
     (case vhd_digits 1 n of
        None \<Rightarrow> Inl Overflow
      | Some i_width \<Rightarrow>
          let entry_width = int i_width + 6 + width c * 2 + 3 in
          if \<not> fits_long (width c * 8 - 1) then Inl Overflow
          else if entry_width = 0 then Inl Division_by_zero
          else let columns = 76 sdiv entry_width in
            if n > 0 \<and> columns = 0 then Inl Division_by_zero
            else if n > 0 \<and> width c > 16 then Inl Overrun
            else let (ok, rows) = vhd_rows (bigendian c) (nat (width c)) i_width (nat \<bar>columns\<bar>) (nat elements) (nat n) 0
                       (open_stream bs) x;
                     out = vhd_head arg1 pkg n (width c) @ rows
                 in Inr (if ok then (0, out @ ''end '' @ pkg @ ''_pkg;'' @ NL) else (1, out)))"

definition genramvhd ::
  "string \<Rightarrow> vhd_opt list \<Rightarrow> string list \<Rightarrow> (string \<Rightarrow> u8 list option) \<Rightarrow> u8 list \<Rightarrow> crash + int \<times> string" where
  "genramvhd arg1 opts rest files x =
     (case vhd_options opts vhd_default of
        None \<Rightarrow> Inr (1, [])
      | Some c \<Rightarrow>
          if length rest \<noteq> 1 then Inr (1, [])
          else case files (rest ! 0) of
            None \<Rightarrow> Inr (1, [])
          | Some bs \<Rightarrow>
              let elements = int (length bs); sz = (if vsize c = - 1 then elements else vsize c) in
              if sz < elements then Inr (1, [])
              else if width c = 0 then Inl Division_by_zero
              else if elements smod width c \<noteq> 0 then Inr (1, [])
              else if sz smod width c \<noteq> 0 then Inr (1, [])
              else case vhd_package (package c) (rest ! 0) of
                     None \<Rightarrow> Inr (1, [])
                   | Some pkg \<Rightarrow> vhd_print c arg1 pkg (sz sdiv width c) (elements sdiv width c) bs x)"

section \<open>Reading the table back\<close>

text \<open>
  The pieces of a text between quotes, and the entries of a table: the number in front of \<^verbatim>\<open> => x\<close> and
  the quoted digits.
\<close>

abbreviation quote :: char where "quote \<equiv> CHR 0x22"

fun pieces :: "string \<Rightarrow> string list" where
  "pieces [] = [[]]"
| "pieces (c # cs) =
     (if c = quote then [] # pieces cs else case pieces cs of p # ps \<Rightarrow> (c # p) # ps | [] \<Rightarrow> [[c]])"

definition index_of :: "string \<Rightarrow> nat" where
  "index_of p = number_of 0 (rev (takeWhile digit (drop 5 (rev p))))"

fun entries :: "string list \<Rightarrow> (nat \<times> string) list" where
  "entries (p # q # ps) = (index_of p, q) # entries ps"
| "entries ps = []"

definition table_of :: "string \<Rightarrow> (nat \<times> string) list" where
  "table_of out = entries (pieces out)"

definition unpack :: "bool \<Rightarrow> string \<Rightarrow> u8 list" where
  "unpack big q = (if big then unhex q else rev (unhex q))"

lemma pieces_none: "quote \<notin> set a \<Longrightarrow> pieces a = [a]"
  by (induction a) auto

lemma pieces_quote: "quote \<notin> set a \<Longrightarrow> pieces (a @ quote # b) = a # pieces b"
  by (induction a) auto

lemma entries_none: "quote \<notin> set a \<Longrightarrow> entries (pieces a) = []"
  by (simp add: pieces_none)

lemma hex2_no_quote: "quote \<notin> set (concat (map (hex2 ''0123456789abcdef'') bs))"
proof -
  have "quote \<notin> set (hex2 ''0123456789abcdef'' b)" for b
  proof -
    have ne: "''0123456789abcdef'' ! d \<noteq> quote" if "d < 16" for d
    proof -
      have "''0123456789abcdef'' ! d \<in> set ''0123456789abcdef''" using that by (intro nth_mem) simp
      then show ?thesis by auto
    qed
    have "unat b div 16 < 16" using unsigned_less[of b, where 'a = nat] by (simp add: less_mult_imp_div_less)
    from ne[OF this] ne[of "unat b mod 16"] show ?thesis unfolding hex2_def by auto
  qed
  then show ?thesis by auto
qed

lemma decimal_no_quote: "quote \<notin> set (decimal n)"
  using decimal_digits[of n] by (auto simp: list_all_iff digit_def less_eq_char_def)

lemma index_of_padded:
  assumes "pre = [] \<or> \<not> digit (last pre)"
  shows "index_of (pre @ pad CHR '' '' w (decimal n) @ '' => x'') = n"
proof -
  let ?front = "rev (replicate (w - length (decimal n)) CHR '' '') @ rev pre"
  have "?front = [] \<or> \<not> digit (hd ?front)"
    using assms by (auto simp: hd_append hd_rev digit_def less_eq_char_def)
  then have stop: "takeWhile digit ?front = []" by (cases ?front) auto
  have "takeWhile digit (rev (decimal n) @ ?front) = rev (decimal n)"
    using decimal_digits[of n] stop by (subst takeWhile_append2) (auto simp: list_all_iff)
  then show ?thesis by (simp add: index_of_def pad_def)
qed

lemma entries_entry:
  assumes "quote \<notin> set pre" and "pre = [] \<or> \<not> digit (last pre)"
  shows "entries (pieces (pre @ vhd_entry big w i_width i x @ rest)) =
    (i, concat (map (hex2 ''0123456789abcdef'') (if big then take w x else rev (take w x)))) # entries (pieces rest)"
proof -
  let ?p = "pre @ pad CHR '' '' i_width (decimal i) @ '' => x''"
  let ?q = "concat (map (hex2 ''0123456789abcdef'') (if big then take w x else rev (take w x)))"
  have "pre @ vhd_entry big w i_width i x @ rest = ?p @ quote # ?q @ quote # rest"
    by (simp add: vhd_entry_def)
  moreover have p: "quote \<notin> set ?p" using assms(1) decimal_no_quote by (auto simp: pad_def)
  moreover have q: "quote \<notin> set ?q" by (rule hex2_no_quote)
  ultimately show ?thesis
    by (simp only: pieces_quote[OF p] pieces_quote[OF q] entries.simps index_of_padded[OF assms(2)])
qed

lemma unpack_hex: "unpack big (concat (map (hex2 ''0123456789abcdef'') (if big then ws else rev ws))) = ws"
  by (cases big) (simp_all only: unpack_def if_True if_False unhex_concat[OF disjI1[OF refl]] rev_rev_ident)

lemma concat_chunks:
  "length xs = n * w \<Longrightarrow> concat (map (\<lambda>k. take w (drop (k * w) xs)) [0..<n]) = xs"
proof (induction n arbitrary: xs)
  case (Suc n)
  have "concat (map (\<lambda>k. take w (drop (k * w) (take (n * w) xs))) [0..<n]) = take (n * w) xs"
    using Suc.prems by (intro Suc.IH) simp
  moreover have "map (\<lambda>k. take w (drop (k * w) (take (n * w) xs))) [0..<n] = map (\<lambda>k. take w (drop (k * w) xs)) [0..<n]"
  proof (rule map_cong[OF refl])
    fix k assume "k \<in> set [0..<n]"
    then have "k < n" by simp
    then have "k * w + w \<le> n * w" by (metis Suc_leI add.commute mult_Suc mult_le_mono1)
    then show "take w (drop (k * w) (take (n * w) xs)) = take w (drop (k * w) xs)"
      by (simp only: take_drop take_take) (simp add: min_absorb1 add.commute)
  qed
  ultimately have "concat (map (\<lambda>k. take w (drop (k * w) xs)) [0..<n]) = take (n * w) xs"
    by simp
  then show ?case using Suc.prems by simp
qed simp

lemma vhd_rows_table:
  assumes "0 < w" "w \<le> 16" and bs: "length bs = elements * w" and n: "elements \<le> n"
    and "pending f = drop (i * w) bs" "length x = 16"
    and pre: "quote \<notin> set pre" "pre = [] \<or> \<not> digit (last pre)" and post: "quote \<notin> set post"
  shows "fst (vhd_rows big w i_width columns elements n i f x) \<and>
    entries (pieces (pre @ snd (vhd_rows big w i_width columns elements n i f x) @ post)) =
      map (\<lambda>k. (k, let ws = take w (drop (k * w) (bs @ replicate ((n - elements) * w) 0))
                  in concat (map (hex2 ''0123456789abcdef'') (if big then ws else rev ws)))) [i..<n]"
  using assms(5-8)
proof (induction "n - i" arbitrary: i f x pre)
  case 0
  then show ?case using post by (subst (1 2) vhd_rows.simps) (simp add: entries_none)
next
  case (Suc d)
  let ?img = "bs @ replicate ((n - elements) * w) 0"
  define r where "r = (if i < elements then fread x w f else (replicate 16 0, w, f))"
  obtain x' got f' where r': "r = (x', got, f')" by (cases r)
  have i: "i < n" using Suc.hyps by simp
  have word: "got = w \<and> take w x' = take w (drop (i * w) ?img) \<and> length x' = 16 \<and> pending f' = drop ((i + 1) * w) bs"
  proof (cases "i < elements")
    case True
    then have "i * w + w \<le> elements * w" by (metis Suc_leI add.commute mult_Suc mult_le_mono1)
    then show ?thesis
      using r' Suc.prems True bs assms(2) by (auto simp: r_def fread_def Let_def add.commute)
  next
    case False
    then have le: "elements * w \<le> i * w" "elements * w \<le> w + i * w" by (simp_all add: trans_le_add2)
    have "i * w + w \<le> n * w" using i by (metis Suc_leI add.commute mult_Suc mult_le_mono1)
    then have "w \<le> (n - elements) * w - (i * w - elements * w)" using le(1) n by (simp add: diff_mult_distrib)
    then show ?thesis
      using r' Suc.prems False bs assms(2) le by (auto simp: r_def)
  qed
  let ?pre = "vhd_sep columns n i"
  have sep: "quote \<notin> set ?pre" "\<not> digit (last ?pre)"
    by (auto simp: vhd_sep_def NL_def digit_def less_eq_char_def)
  let ?rows = "vhd_rows big w i_width columns elements n (i + 1) f' x'"
  have IH: "fst ?rows \<and> entries (pieces (?pre @ snd ?rows @ post)) =
      map (\<lambda>k. (k, let ws = take w (drop (k * w) ?img)
                  in concat (map (hex2 ''0123456789abcdef'') (if big then ws else rev ws)))) [i + 1..<n]"
    using Suc.hyps(2) word sep by (intro Suc.hyps(1)) auto
  let ?indent = "if i mod columns = 0 then TAB @ TAB else []"
  have ind: "quote \<notin> set (pre @ ?indent)" "pre @ ?indent = [] \<or> \<not> digit (last (pre @ ?indent))"
    using Suc.prems by (auto simp: TAB_def digit_def less_eq_char_def)
  have run: "vhd_rows big w i_width columns elements n i f x =
      (fst ?rows, ?indent @ vhd_entry big w i_width i x' @ ?pre @ snd ?rows)"
    using i word r'[unfolded r_def]
    by (subst vhd_rows.simps) (simp add: Let_def split_beta)
  have "pre @ snd (vhd_rows big w i_width columns elements n i f x) @ post =
      (pre @ ?indent) @ vhd_entry big w i_width i x' @ ?pre @ snd ?rows @ post"
    by (simp add: run)
  then show ?case
    using IH word i by (simp only: entries_entry[OF ind] run fst_conv upt_conv_Cons list.map Let_def) simp
qed

lemma vhd_digits_some: "n < 10 ^ 18 \<Longrightarrow> k \<le> 18 \<Longrightarrow> \<exists>d \<le> 18. vhd_digits k n = Some d"
proof (induction k n rule: vhd_digits.induct)
  case (1 k n)
  show ?case
  proof (cases "10 ^ k \<le> n")
    case True
    then have "(10::int) ^ k < 10 ^ 18" using "1.prems"(1) by linarith
    then have "k < 18" by (rule power_less_imp_less_exp[rotated]) simp
    then have k: "k + 1 \<le> 18" by simp
    have "(10::int) ^ (k + 1) \<le> 10 ^ 18" using k by (rule power_increasing) simp
    then have "(10::int) ^ (k + 1) < 2 ^ 63" by (rule order_le_less_trans) simp
    with "1.IH"[OF True this "1.prems"(1) k] True show ?thesis by (subst vhd_digits.simps) simp
  next
    case False
    then show ?thesis using "1.prems"(2) by (subst vhd_digits.simps) simp
  qed
qed

text \<open>A package name that is accepted is a letter followed by letters, digits and underscores.\<close>

lemma vhd_package_ok: "vhd_package p name = Some pkg \<Longrightarrow> pkg \<noteq> [] \<and> my_isalpha (hd pkg) \<and> list_all my_isok pkg"
proof (cases p)
  case None
  assume s: "vhd_package p name = Some pkg"
  let ?rest = "dropWhile (\<lambda>c. \<not> my_isalpha c) name"
  have "?rest \<noteq> []" and pkg: "pkg = map (\<lambda>c. if my_isok c then c else CHR ''_'') ?rest"
    using s None by (auto simp: vhd_package_def Let_def split: if_splits)
  then have "my_isalpha (hd ?rest)" by (rule_tac hd_dropWhile[of "\<lambda>c. \<not> my_isalpha c", simplified]) simp
  with \<open>?rest \<noteq> []\<close> show ?thesis by (auto simp: pkg hd_map my_isok_def list_all_iff)
next
  case (Some q)
  assume "vhd_package p name = Some pkg"
  with Some show ?thesis by (auto simp: vhd_package_def my_isok_def split: list.splits if_splits)
qed

lemma my_isok_quote: "my_isok c \<Longrightarrow> c \<noteq> quote"
  by (auto simp: my_isok_def my_isalpha_def less_eq_char_def)

lemma vhd_head_no_quote:
  assumes "quote \<notin> set arg1" and "list_all my_isok pkg"
  shows "quote \<notin> set (vhd_head arg1 pkg n w)" and "\<not> digit (last (vhd_head arg1 pkg n w))"
    and "quote \<notin> set (''end '' @ pkg @ ''_pkg;'' @ NL)"
proof -
  have "quote \<notin> set pkg" using assms(2) my_isok_quote by (auto simp: list_all_iff)
  moreover have "quote \<notin> set (show_long k)" for k using decimal_no_quote by (simp add: show_long_def)
  ultimately show "quote \<notin> set (vhd_head arg1 pkg n w)" "quote \<notin> set (''end '' @ pkg @ ''_pkg;'' @ NL)"
    using assms(1) by (simp_all add: vhd_head_def NL_def TAB_def)
  show "\<not> digit (last (vhd_head arg1 pkg n w))" by (simp add: vhd_head_def NL_def digit_def less_eq_char_def)
qed

lemma vhd_print_reads_back:
  assumes w: "width c = int w" "0 < w" "w \<le> 16" and bs: "length bs = elements * w" and n: "elements \<le> n" "n < 10 ^ 18"
    and x: "length x = 16" and q: "quote \<notin> set arg1" "list_all my_isok pkg"
  shows "\<exists>out. vhd_print c arg1 pkg (int n) (int elements) bs x = Inr (0, out) \<and>
    map fst (table_of out) = [0..<n] \<and>
    concat (map (unpack (bigendian c) \<circ> snd) (table_of out)) = bs @ replicate ((n - elements) * w) 0"
proof -
  obtain d where d: "vhd_digits 1 (int n) = Some d" "d \<le> 18" using vhd_digits_some[of "int n" 1] n(2) by auto
  let ?e = "int d + 6 + int w * 2 + 3"
  have e: "0 < ?e" "?e \<le> 76" using d(2) w by auto
  have cols: "76 sdiv ?e \<noteq> 0" using e pos_imp_zdiv_pos_iff[of ?e 76] by (simp add: signed_divide_int_def)
  let ?cols = "nat \<bar>76 sdiv ?e\<bar>"
  let ?rows = "vhd_rows (bigendian c) w d ?cols elements n 0 (open_stream bs) x"
  let ?head = "vhd_head arg1 pkg (int n) (int w)" and ?foot = "''end '' @ pkg @ ''_pkg;'' @ NL"
  let ?img = "bs @ replicate ((n - elements) * w) 0"
  let ?out = "?head @ snd ?rows @ ?foot"
  have rows: "fst ?rows" "table_of ?out =
      map (\<lambda>k. (k, let ws = take w (drop (k * w) ?img)
                  in concat (map (hex2 ''0123456789abcdef'') (if bigendian c then ws else rev ws)))) [0..<n]"
    using vhd_rows_table[OF w(2,3) bs n(1) _ x vhd_head_no_quote(1)[OF q] disjI2[OF vhd_head_no_quote(2)[OF q]]
        vhd_head_no_quote(3)[OF q], of "open_stream bs" 0]
    by (auto simp: table_of_def open_stream_def)
  have "vhd_print c arg1 pkg (int n) (int elements) bs x = Inr (0, ?out)"
    using d e w cols rows(1) by (simp add: vhd_print_def Let_def split_beta fits_long_def)
  moreover have "map fst (table_of ?out) = [0..<n]" unfolding rows(2) by (simp add: o_def Let_def)
  moreover have "concat (map (unpack (bigendian c) \<circ> snd) (table_of ?out)) = ?img"
  proof -
    have "map (unpack (bigendian c) \<circ> snd) (table_of ?out) = map (\<lambda>k. take w (drop (k * w) ?img)) [0..<n]"
      unfolding rows(2) by (simp only: map_map o_def snd_conv Let_def unpack_hex)
    also have "concat \<dots> = ?img"
      using bs n(1) by (intro concat_chunks) (simp add: diff_mult_distrib le_add_diff_inverse)
    finally show ?thesis .
  qed
  ultimately show ?thesis by blast
qed

text \<open>
  C20 (roundtrip). Reading the table in the VHDL package back gives the image: for a file whose length is a
  multiple of a valid width, and a size that is one too and not below it, the tool succeeds, the table has
  the entries from 0 on, each once and in order, and the bytes of the entries, in the byte order asked
  for, are the bytes of the file followed by zeros up to the size.
\<close>

theorem genramvhd_reads_back:
  assumes "vhd_options opts vhd_default = Some c" and "files name = Some bs"
    and "width c = int w" and "w \<in> {1, 2, 4, 8, 16}" and "length bs mod w = 0"
    and "vsize c = - 1 \<and> n = length bs \<or> vsize c = int n" and "n mod w = 0" and "length bs \<le> n" and "n < 10 ^ 18"
    and "vhd_package (package c) name = Some pkg" and "CHR 0x22 \<notin> set arg1" and "length x = 16"
  shows "\<exists>out. genramvhd arg1 opts [name] files x = Inr (0, out) \<and>
    map fst (table_of out) = [0..<n div w] \<and>
    concat (map (unpack (bigendian c) \<circ> snd) (table_of out)) = bs @ replicate (n - length bs) 0"
proof -
  have w: "0 < w" "w \<le> 16" using assms(4) by auto
  obtain e m where e: "length bs = e * w" and m: "n = m * w"
    using assms(5,7) by (metis dvd_div_mult_self dvd_eq_mod_eq_0)
  have le: "e \<le> m" using assms(8) e m w by simp
  have neg: "- 1 \<noteq> int m * int w" using mult_nonneg_nonneg[of "int m" "int w"] by linarith
  have smult: "int k * int w sdiv int w = int k" "int k * int w smod int w = 0" for k
    using w by (cases "k = 0"; simp add: signed_divide_int_def signed_modulo_int_def sgn_mult)+
  have "m < 10 ^ 18" using assms(9) m w by (cases w) auto
  note vhd_print_reads_back[OF assms(3) w e le this assms(12,11), of pkg]
  moreover have "genramvhd arg1 opts [name] files x = vhd_print c arg1 pkg (int m) (int e) bs x"
    using assms(1,2,3,6,8,10) w e m smult
    by (auto simp: genramvhd_def Let_def neg)
  ultimately show ?thesis
    using vhd_package_ok[OF assms(10)] e m w by (simp add: diff_mult_distrib)
qed

definition vhd_sample :: vhd_conf where
  "vhd_sample = \<lparr>package = None, width = 2, bigendian = False, vsize = 6\<rparr>"

lemma vhd_sample_options: "vhd_options [Opt_w ''2'', Opt_s ''0x6'', Opt_l] vhd_default = Some vhd_sample"
  by code_simp

lemma vhd_sample_package: "vhd_package None ''./dbe.bin'' = Some ''dbe_bin''"
  by code_simp

lemma two_zeros: "replicate 2 0 = [0, 0 :: u8]"
  by code_simp

theorem genramvhd_reads_back_witness:
  "\<exists>out. genramvhd ''-w'' [Opt_w ''2'', Opt_s ''0x6'', Opt_l] [''./dbe.bin''] (\<lambda>_. Some [1, 2, 3, 4]) (replicate 16 7) = Inr (0, out) \<and>
    map fst (table_of out) = [0..<3] \<and> concat (map (unpack False \<circ> snd) (table_of out)) = [1, 2, 3, 4, 0, 0]"
  using genramvhd_reads_back[OF vhd_sample_options, of "\<lambda>_. Some [1, 2, 3, 4]" "''./dbe.bin''" "[1, 2, 3, 4]" 2 6 "''dbe_bin''"
      "''-w''" "replicate 16 7"] vhd_sample_package
  by (simp add: vhd_sample_def two_zeros)

text \<open>A width that was reported as invalid is used all the same: with 0 the tool divides by zero.\<close>

lemma genramvhd_width_zero:
  "files name = Some bs \<Longrightarrow> genramvhd arg1 [Opt_w ''0''] [name] files x = Inl Division_by_zero"
proof -
  assume "files name = Some bs"
  moreover have "fst (strtol 0 ''0'') = 0" by code_simp
  ultimately show ?thesis by (simp add: genramvhd_def vhd_default_def Let_def)
qed

section \<open>The simulator script\<close>

lemma init_words_image:
  assumes "pending f = bs" "\<not> at_eof f" "length bs = 4 * m" "length x = 4"
  shows "init_words x i f =
    (concat (map (\<lambda>k. write_line (i + k) (take 4 (drop (4 * k) bs))) [0..<m]) @ write_line (i + m) (drop (4 * m) (x @ bs)),
     i + m + 1)"
  using assms
proof (induction m arbitrary: f bs x i)
  case 0
  then show ?case by (simp add: init_words.simps[of x] fread_def Let_def init_words.simps[of _ "Suc i"])
next
  case (Suc m)
  let ?f = "\<lparr>pending = drop 4 bs, at_eof = False\<rparr>"
  have IH: "init_words (take 4 bs) (i + 1) ?f =
      (concat (map (\<lambda>k. write_line (i + 1 + k) (take 4 (drop (4 * k) (drop 4 bs)))) [0..<m]) @
       write_line (i + 1 + m) (drop (4 * m) (take 4 bs @ drop 4 bs)), i + 1 + m + 1)"
    using Suc.prems by (intro Suc.IH) simp_all
  have r: "fread x 4 f = (take 4 bs, 4, ?f)" using Suc.prems by (simp add: fread_def Let_def)
  have "[0..<Suc m] = 0 # map Suc [0..<m]" by (simp add: upt_conv_Cons map_Suc_upt)
  then show ?case
    using Suc.prems IH by (subst init_words.simps) (simp add: r o_def add.commute del: upt_Suc)
qed

text \<open>
  The script for an image of \<open>m\<close> words writes them to the addresses from 0 on, and then one word more: the
  loop notices the end of the file only when it reads past it, so it prints the buffer once again, with
  the last word still in it, or what was on the stack when the file is empty.
\<close>

lemma genraminit_repeats_last:
  assumes "3 \<le> length argv" and "files (argv ! 1) = Some bs" and "length bs = 4 * m" and "length x = 4"
  shows "genraminit argv files x =
    (0, concat (map (\<lambda>k. write_line k (take 4 (drop (4 * k) bs))) [0..<m]) @ write_line m (drop (4 * m) (x @ bs)) @
        concat (map (\<lambda>k. write_line k [0, 0, 0, 0]) [m + 1..<nat (atoi (argv ! 2))]))"
  using assms init_words_image[of "open_stream bs" bs m x 0]
  by (simp add: genraminit_def open_stream_def init_fill_def)

lemma genraminit_repeats_last_witness:
  "genraminit [''genraminit'', ''dbe.bin'', ''0''] (\<lambda>_. Some [1, 2, 3, 4]) [0, 0, 0, 0] =
    (0, ''write 0 01020304'' @ NL @ ''write 1 01020304'' @ NL)"
proof -
  have "atoi ''0'' = 0" by code_simp
  moreover have "write_line 0 [1, 2, 3, 4] = ''write 0 01020304'' @ NL" "write_line 1 [1, 2, 3, 4] = ''write 1 01020304'' @ NL"
    by code_simp+
  ultimately show ?thesis
    using genraminit_repeats_last[of "[''genraminit'', ''dbe.bin'', ''0'']" "\<lambda>_. Some [1, 2, 3, 4]" "[1, 2, 3, 4]" 1 "[0, 0, 0, 0]"]
    by simp
qed

end
