(* ===== verification/Pcie_Kernel.thy ===== *)
theory Pcie_Kernel
  imports Prog "HOL-Library.Multiset"
begin

text \<open>
  The Linux kernel as the PCIe driver (\<^verbatim>\<open>sw/drivers/pcie\<close>) sees it, and the driver's data
  (\<^verbatim>\<open>common.h\<close>, \<^verbatim>\<open>pciDriver.h\<close>). The kernel is a parameter: a record of functions that answer the calls
  the driver makes, over a state of its own. Every call that acquires or releases something is
  appended to a log, so that one can ask what the driver holds. The model is that of a 64-bit
  kernel from 2.6.36 on. Calls of the driver are atomic: its locks, and the messages it prints to the
  kernel log, are left out.
\<close>

section \<open>Data of the driver\<close>

definition ENOENT :: int where "ENOENT = 2"
definition EIO :: int where "EIO = 5"
definition ENXIO :: int where "ENXIO = 6"
definition EAGAIN :: int where "EAGAIN = 11"
definition ENOMEM :: int where "ENOMEM = 12"
definition EFAULT :: int where "EFAULT = 14"
definition EINVAL :: int where "EINVAL = 22"
definition ENOMSG :: int where "ENOMSG = 42"

definition PAGE_SHIFT :: nat where "PAGE_SHIFT = 12"
definition PAGE_SIZE :: u64 where "PAGE_SIZE = push_bit PAGE_SHIFT 1"
definition PAGE_MASK :: u64 where "PAGE_MASK = NOT (PAGE_SIZE - 1)"

definition PCIDRIVER_MMAP_PCI :: u64 where "PCIDRIVER_MMAP_PCI = 0"
definition PCIDRIVER_MMAP_KMEM :: u64 where "PCIDRIVER_MMAP_KMEM = 1"
definition PCIDRIVER_BAR0 :: u64 where "PCIDRIVER_BAR0 = 0"
definition PCIDRIVER_BAR5 :: u64 where "PCIDRIVER_BAR5 = 5"
definition PCIDRIVER_DMA_BIDIRECTIONAL :: int where "PCIDRIVER_DMA_BIDIRECTIONAL = 0"
definition PCIDRIVER_DMA_TODEVICE :: int where "PCIDRIVER_DMA_TODEVICE = 1"
definition PCIDRIVER_DMA_FROMDEVICE :: int where "PCIDRIVER_DMA_FROMDEVICE = 2"
definition PCIDRIVER_SG_MERGED :: int where "PCIDRIVER_SG_MERGED = 1"
definition PCIDRIVER_INT_MAXSOURCES :: u64 where "PCIDRIVER_INT_MAXSOURCES = 16"
definition PCIDRIVER_PCI_CFG_SZ_BYTE :: int where "PCIDRIVER_PCI_CFG_SZ_BYTE = 1"
definition PCIDRIVER_PCI_CFG_SZ_WORD :: int where "PCIDRIVER_PCI_CFG_SZ_WORD = 2"
definition PCIDRIVER_PCI_CFG_SZ_DWORD :: int where "PCIDRIVER_PCI_CFG_SZ_DWORD = 3"

text \<open>The structures of the interface to user space.\<close>

record kmem_handle_t =
  pa :: u64
  kh_size :: u64
  kh_id :: u32

record kmem_sync_t =
  ks_handle :: kmem_handle_t
  ks_dir :: int

record umem_handle_t =
  uh_vma :: u64
  uh_size :: u64
  uh_id :: u32
  uh_dir :: int

record umem_sgentry_t =
  sge_addr :: u64
  sge_size :: u64

record umem_sglist_t =
  sgl_id :: u32
  sgl_type :: int
  sgl_nents :: u32
  sgl_sg :: u64

record pci_cfg_cmd =
  cfg_size :: int
  cfg_addr :: u32
  cfg_val :: u32

record pci_board_info =
  info_vendor_id :: u16
  info_device_id :: u16
  info_bus :: u16
  info_slot :: u16
  info_devfn :: u16
  interrupt_pin :: u8
  interrupt_line :: u8
  bar_start :: "u64 list"
  bar_length :: "u64 list"

text \<open>
  The structures the driver keeps. A linked list of entries is a list; an entry carries the address
  it was allocated at, and the name of its file in sysfs with the address of the string. The page
  table and the scatter/gather table of a mapping are given by their contents and their addresses.
\<close>

record sysfs_attr =
  attr_name :: string
  attr_ptr :: u64

record pcidriver_kmem_entry_t =
  ke_ptr :: u64
  ke_id :: u32
  dma_handle :: u64
  cpua :: u64
  ke_size :: u64
  ke_attr :: sysfs_attr

record scatterlist =
  sg_page :: u64
  sg_length :: u32
  sg_offset :: u32
  sg_dma_address :: u64
  sg_dma_len :: u32

record pcidriver_umem_entry_t =
  ue_ptr :: u64
  ue_id :: u32
  ue_pages :: "u64 list"
  ue_pages_ptr :: u64
  ue_nents :: u32
  ue_sg :: "scatterlist list"
  ue_sg_ptr :: u64
  ue_attr :: sysfs_attr

record pcidriver_privdata_t =
  devno :: nat
  class_dev :: u64
  mmap_mode :: u64
  mmap_area :: u64
  irq_enabled :: bool
  irq_count :: u32
  irq_outstanding :: "nat \<Rightarrow> u32"
  bars_kmapped :: "nat \<Rightarrow> u64"
  kmem_list :: "pcidriver_kmem_entry_t list"
  kmem_count :: u32
  umem_list :: "pcidriver_umem_entry_t list"
  umem_count :: u32

section \<open>The kernel\<close>

text \<open>What a driver can hold, and the calls it makes.\<close>

datatype resource =
    Kmem u64                  \<comment> \<open>a block of \<^verbatim>\<open>kmalloc\<close>, \<^verbatim>\<open>kcalloc\<close> or \<^verbatim>\<open>kstrdup\<close>\<close>
  | Vmem u64                  \<comment> \<open>a block of \<^verbatim>\<open>vmalloc\<close>\<close>
  | Dma u64 u64 u64           \<comment> \<open>consistent memory: size, CPU address, bus address\<close>
  | Page u64                  \<comment> \<open>a reference to a page of user memory\<close>
  | Sg u64                    \<comment> \<open>a scatter/gather table mapped for the bus\<close>
  | File u64 string           \<comment> \<open>a file of a class device in sysfs\<close>
  | Enabled                   \<comment> \<open>the enabled PCI device\<close>
  | Region nat                \<comment> \<open>a BAR reserved for the driver\<close>
  | Iomem u64                 \<comment> \<open>a BAR mapped into kernel space\<close>
  | Irq u64                   \<comment> \<open>the interrupt handler, with its argument\<close>
  | Class_dev nat             \<comment> \<open>a class device\<close>
  | Cdev u64                  \<comment> \<open>a character device\<close>
  | Chrdev                    \<comment> \<open>the range of device numbers\<close>
  | Class                     \<comment> \<open>the class of the module\<close>
  | Pci_driver                \<comment> \<open>the registration as PCI driver\<close>

datatype sync = For_device | For_cpu

datatype kev =
    Acq resource
  | Rel resource
  | Lock u64 | Unlock u64 | Dirty u64
  | Sync_single sync u64 u64 int
  | Sync_sg sync u64 u32 int
  | Remap u64 u64 u64         \<comment> \<open>\<^verbatim>\<open>remap_pfn_range\<close>: user address, first frame, size\<close>
  | Set_master
  | Mmio_write nat u32
  | Wake_up nat

text \<open>
  The functions of the kernel. A pointer of 0 and a number other than 0 are failures, except where
  noted; \<open>k_do\<close> is the effect of a call without a result. \<^verbatim>\<open>get_user_pages\<close> answers with an error
  number or the pages it took, \<^verbatim>\<open>pci_map_sg\<close> with the number of entries it used and the table with
  their bus addresses, \<^verbatim>\<open>device_create\<close> with a pointer that may be an error number. \<^verbatim>\<open>sscanf\<close> reads one number, or nothing,
  \<^verbatim>\<open>simple_strtol\<close> a number. The size of the
  private data depends on structures of the kernel. Config space is accessed with one, two or four bytes. \<open>k_wait\<close> is the number of
  interrupts that come during a wait.
\<close>

record 'k kern =
  k_malloc :: "nat \<Rightarrow> 'k \<Rightarrow> u64 \<times> 'k"
  k_vmalloc :: "u64 \<Rightarrow> 'k \<Rightarrow> u64 \<times> 'k"
  k_strdup :: "string \<Rightarrow> 'k \<Rightarrow> u64 \<times> 'k"
  k_create_file :: "u64 \<Rightarrow> string \<Rightarrow> 'k \<Rightarrow> int \<times> 'k"
  k_alloc_consistent :: "u64 \<Rightarrow> 'k \<Rightarrow> (u64 \<times> u64) \<times> 'k"
  k_get_user_pages :: "u64 \<Rightarrow> int \<Rightarrow> 'k \<Rightarrow> (int + u64 list) \<times> 'k"
  k_reserved :: "u64 \<Rightarrow> 'k \<Rightarrow> bool"
  k_locked :: "u64 \<Rightarrow> 'k \<Rightarrow> bool"
  k_map_sg :: "scatterlist list \<Rightarrow> 'k \<Rightarrow> (u32 \<times> scatterlist list) \<times> 'k"
  k_access :: "u64 \<Rightarrow> u64 \<Rightarrow> 'k \<Rightarrow> bool"
  k_config_read :: "nat \<Rightarrow> u32 \<Rightarrow> 'k \<Rightarrow> (int \<times> u32) \<times> 'k"
  k_config_write :: "nat \<Rightarrow> u32 \<Rightarrow> u32 \<Rightarrow> 'k \<Rightarrow> int \<times> 'k"
  k_resource_start :: "nat \<Rightarrow> u64"
  k_resource_len :: "nat \<Rightarrow> u64"
  k_resource_flags :: "nat \<Rightarrow> u64"
  k_request_region :: "nat \<Rightarrow> 'k \<Rightarrow> int \<times> 'k"
  k_ioremap :: "bool \<Rightarrow> u64 \<Rightarrow> u64 \<Rightarrow> 'k \<Rightarrow> u64 \<times> 'k"
  k_request_irq :: "'k \<Rightarrow> int \<times> 'k"
  k_virt_to_pfn :: "u64 \<Rightarrow> u64"
  k_remap :: "u64 \<Rightarrow> u64 \<Rightarrow> u64 \<Rightarrow> 'k \<Rightarrow> int \<times> 'k"
  k_mmio_read :: "nat \<Rightarrow> 'k \<Rightarrow> u32 \<times> 'k"
  k_wait :: "nat \<Rightarrow> 'k \<Rightarrow> nat \<times> 'k"
  k_enable_device :: "'k \<Rightarrow> int \<times> 'k"
  k_set_dma_mask :: "nat \<Rightarrow> 'k \<Rightarrow> int \<times> 'k"
  k_device_create :: "nat \<Rightarrow> 'k \<Rightarrow> u64 \<times> 'k"
  k_cdev_add :: "nat \<Rightarrow> 'k \<Rightarrow> int \<times> 'k"
  k_alloc_chrdev :: "'k \<Rightarrow> int \<times> 'k"
  k_class_create :: "'k \<Rightarrow> bool \<times> 'k"
  k_register_driver :: "'k \<Rightarrow> int \<times> 'k"
  k_sscanf_d :: "string \<Rightarrow> u32 option"
  k_sscanf_u :: "string \<Rightarrow> u32 option"
  k_sscanf_lu :: "string \<Rightarrow> u64 option"
  k_strtol :: "string \<Rightarrow> u32"
  k_sizeof_privdata :: nat
  k_vendor :: u16
  k_device :: u16
  k_bus :: u16
  k_devfn :: u16
  k_do :: "kev \<Rightarrow> 'k \<Rightarrow> 'k"

text \<open>
  The state: that of the kernel, the log, the private data of each device at the address it was
  allocated at, the globals of the module, and the structures in user memory at their addresses.
\<close>

record user_mem =
  u_kmem :: "u64 \<Rightarrow> kmem_handle_t"
  u_ksync :: "u64 \<Rightarrow> kmem_sync_t"
  u_umem :: "u64 \<Rightarrow> umem_handle_t"
  u_sglist :: "u64 \<Rightarrow> umem_sglist_t"
  u_sgentry :: "u64 \<Rightarrow> umem_sgentry_t"
  u_cfg :: "u64 \<Rightarrow> pci_cfg_cmd"
  u_info :: "u64 \<Rightarrow> pci_board_info"

record 'k sys =
  kst :: 'k
  klog :: "kev list"
  privs :: "u64 \<Rightarrow> pcidriver_privdata_t"
  deviceCount :: u32
  drvdata :: u64
  user :: user_mem

section \<open>Calls\<close>

text \<open>The last page of addresses stands for error numbers.\<close>

definition IS_ERR :: "u64 \<Rightarrow> bool" where
  "IS_ERR p \<longleftrightarrow> - 4095 \<le> p"

definition call :: "('k \<Rightarrow> 'a \<times> 'k) \<Rightarrow> ('k sys, 'a) prog" where
  "call f s = (let r = f (kst s) in Some (Inr (fst r, s\<lparr>kst := snd r\<rparr>)))"

definition event :: "'k kern \<Rightarrow> kev \<Rightarrow> ('k sys, unit) prog" where
  "event K e = modify (\<lambda>s. s\<lparr>kst := k_do K e (kst s), klog := klog s @ [e]\<rparr>)"

text \<open>A call that acquires something when its answer is good.\<close>

definition acquire :: "'k kern \<Rightarrow> ('k \<Rightarrow> 'a \<times> 'k) \<Rightarrow> ('a \<Rightarrow> bool) \<Rightarrow> ('a \<Rightarrow> resource) \<Rightarrow> ('k sys, 'a) prog" where
  "acquire K f good r =
     bnd (call f) (\<lambda>a. if good a then thn (event K (Acq (r a))) (ret a) else ret a)"

definition kmalloc :: "'k kern \<Rightarrow> nat \<Rightarrow> ('k sys, u64) prog" where
  "kmalloc K n = acquire K (k_malloc K n) (\<lambda>p. p \<noteq> 0) Kmem"

definition vmalloc :: "'k kern \<Rightarrow> u64 \<Rightarrow> ('k sys, u64) prog" where
  "vmalloc K n = acquire K (k_vmalloc K n) (\<lambda>p. p \<noteq> 0) Vmem"

definition kstrdup :: "'k kern \<Rightarrow> string \<Rightarrow> ('k sys, u64) prog" where
  "kstrdup K t = acquire K (k_strdup K t) (\<lambda>p. p \<noteq> 0) Kmem"

text \<open>\<^verbatim>\<open>kfree\<close> and \<^verbatim>\<open>vfree\<close> ignore the null pointer.\<close>

definition kfree :: "'k kern \<Rightarrow> u64 \<Rightarrow> ('k sys, unit) prog" where
  "kfree K p = (if p = 0 then ret () else event K (Rel (Kmem p)))"

definition vfree :: "'k kern \<Rightarrow> u64 \<Rightarrow> ('k sys, unit) prog" where
  "vfree K p = (if p = 0 then ret () else event K (Rel (Vmem p)))"

definition class_device_create_file :: "'k kern \<Rightarrow> u64 \<Rightarrow> string \<Rightarrow> ('k sys, int) prog" where
  "class_device_create_file K dev name = acquire K (k_create_file K dev name) (\<lambda>r. r = 0) (\<lambda>_. File dev name)"

definition class_device_remove_file :: "'k kern \<Rightarrow> u64 \<Rightarrow> string \<Rightarrow> ('k sys, unit) prog" where
  "class_device_remove_file K dev name = event K (Rel (File dev name))"

text \<open>Access to the private data of a device, and copies from and to user memory, which leave the target alone when they fail.\<close>

definition priv :: "u64 \<Rightarrow> ('k sys, pcidriver_privdata_t) prog" where
  "priv pd = gets (\<lambda>s. privs s pd)"

definition set_priv :: "u64 \<Rightarrow> (pcidriver_privdata_t \<Rightarrow> pcidriver_privdata_t) \<Rightarrow> ('k sys, unit) prog" where
  "set_priv pd f = modify (\<lambda>s. s\<lparr>privs := (privs s)(pd := f (privs s pd))\<rparr>)"

definition copy_from_user :: "'k kern \<Rightarrow> (user_mem \<Rightarrow> u64 \<Rightarrow> 'a) \<Rightarrow> u64 \<Rightarrow> u64 \<Rightarrow> ('k sys, 'a option) prog" where
  "copy_from_user K get a n = gets (\<lambda>s. if k_access K a n (kst s) then Some (get (user s) a) else None)"

definition copy_to_user :: "'k kern \<Rightarrow> (user_mem \<Rightarrow> user_mem) \<Rightarrow> u64 \<Rightarrow> u64 \<Rightarrow> ('k sys, bool) prog" where
  "copy_to_user K put a n s =
     (if k_access K a n (kst s) then Some (Inr (True, s\<lparr>user := put (user s)\<rparr>)) else Some (Inr (False, s)))"

section \<open>What is held\<close>

text \<open>
  The resources held after a log, from those held before it; there is no answer when something is
  released that is not held.
\<close>

fun balance :: "kev list \<Rightarrow> resource multiset \<Rightarrow> resource multiset option" where
  "balance [] H = Some H"
| "balance (Acq r # es) H = balance es (add_mset r H)"
| "balance (Rel r # es) H = (if r \<in># H then balance es (H - {#r#}) else None)"
| "balance (e # es) H = balance es H"

definition holds :: "'k sys \<Rightarrow> resource multiset \<Rightarrow> bool" where
  "holds s H \<longleftrightarrow> balance (klog s) {#} = Some H"

lemma balance_append: "balance (es @ fs) H = (case balance es H of None \<Rightarrow> None | Some H' \<Rightarrow> balance fs H')"
  by (induction es H rule: balance.induct) simp_all

lemma holds_unique: "holds s H \<Longrightarrow> holds s H' \<Longrightarrow> H = H'"
  by (simp add: holds_def)

lemma holds_cong [simp]:
  "holds (s\<lparr>kst := k\<rparr>) H = holds s H"
  "holds (s\<lparr>privs := p\<rparr>) H = holds s H"
  "holds (s\<lparr>deviceCount := n\<rparr>) H = holds s H"
  "holds (s\<lparr>drvdata := d\<rparr>) H = holds s H"
  "holds (s\<lparr>user := u\<rparr>) H = holds s H"
  by (simp_all add: holds_def)

text \<open>The block at a pointer, if there is one.\<close>

definition kres :: "u64 \<Rightarrow> resource multiset" where
  "kres p = (if p = 0 then {#} else {#Kmem p#})"

definition vres :: "u64 \<Rightarrow> resource multiset" where
  "vres p = (if p = 0 then {#} else {#Vmem p#})"

section \<open>Preconditions of the calls\<close>

text \<open>
  What a program does to the holdings of the driver does not depend on the answers of the kernel
  beyond their being failures or not; the rules below forget the state of the kernel and keep what is
  held.
\<close>

definition same :: "'k sys \<Rightarrow> 'k sys \<Rightarrow> bool" where
  "same s t \<longleftrightarrow> privs t = privs s \<and> deviceCount t = deviceCount s \<and> drvdata t = drvdata s \<and> user t = user s"

lemma same_refl [simp]: "same s s"
  by (simp add: same_def)

lemma same_trans [trans]: "same s t \<Longrightarrow> same t u \<Longrightarrow> same s u"
  by (simp add: same_def)

lemma wp_call:
  assumes "holds s H" and "\<And>a t. same s t \<Longrightarrow> holds t H \<Longrightarrow> Q a t"
  shows "wp (call f) Q s"
  by (simp add: wp_def call_def Let_def assms same_def)

lemma wp_event_Acq:
  assumes "holds s H" and "\<And>t. same s t \<Longrightarrow> holds t (add_mset r H) \<Longrightarrow> Q () t"
  shows "wp (event K (Acq r)) Q s"
  unfolding event_def wp_modify using assms(1)
  by (intro assms(2)) (simp_all add: holds_def balance_append same_def)

lemma wp_event_Rel:
  assumes "holds s H" and "r \<in># H" and "\<And>t. same s t \<Longrightarrow> holds t (H - {#r#}) \<Longrightarrow> Q () t"
  shows "wp (event K (Rel r)) Q s"
  unfolding event_def wp_modify using assms(1,2)
  by (intro assms(3)) (simp_all add: holds_def balance_append same_def)

definition neutral :: "kev \<Rightarrow> bool" where
  "neutral e = (case e of Acq _ \<Rightarrow> False | Rel _ \<Rightarrow> False | _ \<Rightarrow> True)"

lemma wp_event_neutral:
  assumes "holds s H" and "neutral e" and "\<And>t. same s t \<Longrightarrow> holds t H \<Longrightarrow> Q () t"
  shows "wp (event K e) Q s"
  unfolding event_def wp_modify using assms(1,2)
  by (intro assms(3)) (auto simp: holds_def balance_append neutral_def same_def split: kev.splits)

lemma wp_acquire_answer:
  assumes s: "holds s H"
    and good: "\<And>a t. same s t \<Longrightarrow> fst (f (kst s)) = a \<Longrightarrow> good a \<Longrightarrow> holds t (add_mset (r a) H) \<Longrightarrow> Q a t"
    and bad: "\<And>a t. same s t \<Longrightarrow> fst (f (kst s)) = a \<Longrightarrow> \<not> good a \<Longrightarrow> holds t H \<Longrightarrow> Q a t"
  shows "wp (acquire K f good r) Q s"
proof -
  obtain a k where a: "f (kst s) = (a, k)" by fastforce
  let ?t = "s\<lparr>kst := k\<rparr>"
  have t: "same s ?t" "holds ?t H" using s by (simp_all add: same_def)
  have "wp (if good a then thn (event K (Acq (r a))) (ret a) else ret a) Q ?t"
  proof (cases "good a")
    case True
    have "wp (event K (Acq (r a))) (\<lambda>_. Q a) ?t"
      by (rule wp_event_Acq[OF t(2)]) (rule good[OF same_trans[OF t(1)] _ True], simp_all add: a)
    then show ?thesis using True by (simp only: wp_simps if_True)
  next
    case False
    then show ?thesis using bad[OF t(1) _ False t(2)] a by (simp only: wp_simps if_False fst_conv)
  qed
  then show ?thesis by (simp add: acquire_def wp_def bnd_def call_def a)
qed

lemma wp_acquire:
  assumes "holds s H"
    and "\<And>a t. same s t \<Longrightarrow> good a \<Longrightarrow> holds t (add_mset (r a) H) \<Longrightarrow> Q a t"
    and "\<And>a t. same s t \<Longrightarrow> \<not> good a \<Longrightarrow> holds t H \<Longrightarrow> Q a t"
  shows "wp (acquire K f good r) Q s"
  by (rule wp_acquire_answer[OF assms(1)]) (rule assms(2,3); assumption)+

text \<open>The block a pointer stands for is released by the pointer.\<close>

lemma wp_kfree:
  assumes "holds s H" and "kres p \<subseteq># H" and "\<And>t. same s t \<Longrightarrow> holds t (H - kres p) \<Longrightarrow> Q () t"
  shows "wp (kfree K p) Q s"
proof (cases "p = 0")
  case True
  then show ?thesis using assms(1) assms(3)[of s] by (simp add: kfree_def kres_def wp_def)
next
  case False
  then show ?thesis using assms unfolding kfree_def
    by (auto simp: kres_def intro!: wp_event_Rel[OF assms(1)])
qed

lemma wp_vfree:
  assumes "holds s H" and "vres p \<subseteq># H" and "\<And>t. same s t \<Longrightarrow> holds t (H - vres p) \<Longrightarrow> Q () t"
  shows "wp (vfree K p) Q s"
proof (cases "p = 0")
  case True
  then show ?thesis using assms(1) assms(3)[of s] by (simp add: vfree_def vres_def wp_def)
next
  case False
  then show ?thesis using assms unfolding vfree_def
    by (auto simp: vres_def intro!: wp_event_Rel[OF assms(1)])
qed

lemma wp_priv [wp_simps]: "wp (priv pd) Q = (\<lambda>s. Q (privs s pd) s)"
  unfolding priv_def wp_gets ..

lemma wp_set_priv [wp_simps]:
  "wp (set_priv pd f) Q = (\<lambda>s. Q () (s\<lparr>privs := (privs s)(pd := f (privs s pd))\<rparr>))"
  unfolding set_priv_def wp_modify ..

lemma wp_copy_from_user [wp_simps]:
  "wp (copy_from_user K get a n) Q = (\<lambda>s. Q (if k_access K a n (kst s) then Some (get (user s) a) else None) s)"
  unfolding copy_from_user_def wp_gets ..

lemma wp_copy_to_user [wp_simps]:
  "wp (copy_to_user K put a n) Q = (\<lambda>s. if k_access K a n (kst s) then Q True (s\<lparr>user := put (user s)\<rparr>) else Q False s)"
  by (auto simp: copy_to_user_def wp_def fun_eq_iff)


section \<open>Lists of entries\<close>

text \<open>
  The private data of a device has lists of entries, each of which stands for resources. The contract: an
  operation releases an entry, that is, gives back what the entry stands for and takes the entry out of the
  list. Then the whole list can be released, and what is held for the list is always the sum over its
  entries.
\<close>

locale entry_list =
  fixes entries :: "pcidriver_privdata_t \<Rightarrow> 'e list"
    and set_entries :: "'e list \<Rightarrow> pcidriver_privdata_t \<Rightarrow> pcidriver_privdata_t"
    and res :: "u64 \<Rightarrow> 'e \<Rightarrow> resource multiset"
    and release :: "'k kern \<Rightarrow> u64 \<Rightarrow> 'e \<Rightarrow> ('k sys, int) prog"
  assumes entries_set [simp]: "entries (set_entries es p) = es"
    and set_set [simp]: "set_entries es (set_entries fs p) = set_entries es p"
    and set_same [simp]: "set_entries (entries p) p = p"
    and class_dev_set [simp]: "class_dev (set_entries es p) = class_dev p"
    and release: "holds s (res (class_dev (privs s pd)) e + G) \<Longrightarrow>
      (\<And>t. same (s\<lparr>privs := (privs s)(pd := set_entries (remove1 e (entries (privs s pd))) (privs s pd))\<rparr>) t \<Longrightarrow>
         holds t G \<Longrightarrow> Q 0 t) \<Longrightarrow> wp (release K pd e) Q s"
begin

lemma sum_remove:
  "e \<in> set (entries p) \<Longrightarrow> sum_list (map (res (class_dev p)) (entries p)) =
     res (class_dev p) e + sum_list (map (res (class_dev p)) (remove1 e (entries p)))"
  by (rule sum_list_map_remove1)

lemma release_in:
  assumes s: "holds s (sum_list (map (res (class_dev (privs s pd))) (entries (privs s pd))) + G)"
    and e: "e \<in> set (entries (privs s pd))"
    and ok: "\<And>t. same (s\<lparr>privs := (privs s)(pd := set_entries (remove1 e (entries (privs s pd))) (privs s pd))\<rparr>) t \<Longrightarrow>
       holds t (sum_list (map (res (class_dev (privs t pd))) (entries (privs t pd))) + G) \<Longrightarrow> Q 0 t"
  shows "wp (release K pd e) Q s"
proof (rule release)
  let ?es = "remove1 e (entries (privs s pd))"
  show "holds s (res (class_dev (privs s pd)) e + (sum_list (map (res (class_dev (privs s pd))) ?es) + G))"
    using s by (simp only: sum_remove[OF e] add.assoc)
  fix t assume "same (s\<lparr>privs := (privs s)(pd := set_entries ?es (privs s pd))\<rparr>) t"
    and "holds t (sum_list (map (res (class_dev (privs s pd))) ?es) + G)"
  then show "Q 0 t" by (intro ok) (simp_all add: same_def)
qed

lemma release_all:
  assumes s: "holds s (sum_list (map (res (class_dev (privs s pd))) (entries (privs s pd))) + G)"
    and ok: "\<And>t. same (s\<lparr>privs := (privs s)(pd := set_entries [] (privs s pd))\<rparr>) t \<Longrightarrow> holds t G \<Longrightarrow> Q 0 t"
  shows "wp (thn (doall (map (\<lambda>e. thn (release K pd e) (ret ())) (entries (privs s pd)))) (ret 0)) Q s"
proof -
  let ?I = "\<lambda>es t. same (s\<lparr>privs := (privs s)(pd := set_entries es (privs s pd))\<rparr>) t \<and>
    holds t (sum_list (map (res (class_dev (privs t pd))) (entries (privs t pd))) + G)"
  have "wp (doall (map (\<lambda>e. thn (release K pd e) (ret ())) (entries (privs s pd)))) (\<lambda>_. ?I []) s"
  proof (rule wp_doall_map[where I = ?I])
    show "?I (entries (privs s pd)) s" using s by (simp add: same_def)
    fix e es t assume t: "?I (e # es) t"
    have "wp (release K pd e) (\<lambda>_. ?I es) t"
      by (rule release_in[OF conjunct2[OF t]]) (use t in \<open>auto simp: same_def\<close>)
    then show "wp (thn (release K pd e) (ret ())) (\<lambda>_. ?I es) t" unfolding wp_simps .
  qed
  then show ?thesis unfolding wp_simps by (rule wp_mono) (auto intro!: ok simp: same_def)
qed

end

section \<open>A kernel that grants everything\<close>

text \<open>
  A kernel for concrete runs: it numbers what it gives out, takes any pages, maps a table entry by
  entry, and has one memory BAR of two pages. Its first state has no device yet.
\<close>

definition kern0 :: "u64 kern" where
  "kern0 = \<lparr>
     k_malloc = \<lambda>n k. (k + 1, k + 1),
     k_vmalloc = \<lambda>n k. if n = 0 \<or> 2 ^ 47 \<le> n then (0, k) else (k + 1, k + 1),
     k_strdup = \<lambda>t k. (k + 1, k + 1),
     k_create_file = \<lambda>dev name k. (0, k),
     k_alloc_consistent = \<lambda>n k. ((k + 1, 4096 * (k + 1)), k + 1),
     k_get_user_pages = \<lambda>vma n k. (Inr (map (\<lambda>i. drop_bit PAGE_SHIFT vma + of_nat i) [0..<nat n]), k),
     k_reserved = \<lambda>p k. False,
     k_locked = \<lambda>p k. True,
     k_map_sg = \<lambda>sg k. ((of_nat (length sg), map (\<lambda>e. e\<lparr>sg_dma_address := 4096 * sg_page e + ucast (sg_offset e),
                 sg_dma_len := sg_length e\<rparr>) sg), k),
     k_access = \<lambda>a n k. True,
     k_config_read = \<lambda>n a k. ((0, 1), k),
     k_config_write = \<lambda>n a v k. (0, k),
     k_resource_start = \<lambda>bar. if bar = 0 then 65536 else 0,
     k_resource_len = \<lambda>bar. if bar = 0 then 8192 else 0,
     k_resource_flags = \<lambda>bar. 0,
     k_request_region = \<lambda>bar k. (0, k),
     k_ioremap = \<lambda>c a n k. (k + 1, k + 1),
     k_request_irq = \<lambda>k. (0, k),
     k_virt_to_pfn = \<lambda>a. drop_bit PAGE_SHIFT a,
     k_remap = \<lambda>a f n k. (0, k),
     k_mmio_read = \<lambda>r k. (0, k),
     k_wait = \<lambda>i k. (1, k),
     k_enable_device = \<lambda>k. (0, k),
     k_set_dma_mask = \<lambda>n k. (0, k),
     k_device_create = \<lambda>d k. (16, k),
     k_cdev_add = \<lambda>d k. (0, k),
     k_alloc_chrdev = \<lambda>k. (0, k),
     k_class_create = \<lambda>k. (True, k),
     k_register_driver = \<lambda>k. (0, k),
     k_sscanf_d = \<lambda>t. None,
     k_sscanf_u = \<lambda>t. None,
     k_sscanf_lu = \<lambda>t. None,
     k_strtol = \<lambda>t. 0,
     k_sizeof_privdata = 1000, k_vendor = 0x10ee, k_device = 0x7021, k_bus = 1, k_devfn = 0,
     k_do = \<lambda>e k. k\<rparr>"

definition priv0 :: pcidriver_privdata_t where
  "priv0 = \<lparr>devno = 0, class_dev = 0, mmap_mode = 0, mmap_area = 0, irq_enabled = False, irq_count = 0,
     irq_outstanding = \<lambda>_. 0, bars_kmapped = \<lambda>_. 0, kmem_list = [], kmem_count = 0,
     umem_list = [], umem_count = 0\<rparr>"

definition user0 :: user_mem where
  "user0 = \<lparr>
     u_kmem = \<lambda>_. \<lparr>pa = 0, kh_size = 8192, kh_id = 0\<rparr>,
     u_ksync = \<lambda>_. \<lparr>ks_handle = \<lparr>pa = 0, kh_size = 0, kh_id = 0\<rparr>, ks_dir = 0\<rparr>,
     u_umem = \<lambda>a. \<lparr>uh_vma = 4100, uh_size = if a = 0 then 8192 else 16, uh_id = 0, uh_dir = 0\<rparr>,
     u_sglist = \<lambda>_. \<lparr>sgl_id = 0, sgl_type = 1, sgl_nents = 3, sgl_sg = 0\<rparr>,
     u_sgentry = \<lambda>_. \<lparr>sge_addr = 0, sge_size = 0\<rparr>,
     u_cfg = \<lambda>_. \<lparr>cfg_size = 1, cfg_addr = 0, cfg_val = 0\<rparr>,
     u_info = \<lambda>_. \<lparr>info_vendor_id = 0, info_device_id = 0, info_bus = 0, info_slot = 0, info_devfn = 0,
       interrupt_pin = 0, interrupt_line = 0, bar_start = replicate 6 0, bar_length = replicate 6 0\<rparr>\<rparr>"

definition sys0 :: "u64 sys" where
  "sys0 = \<lparr>kst = 0, klog = [], privs = \<lambda>_. priv0, deviceCount = 0, drvdata = 0, user = user0\<rparr>"

lemma holds_sys0: "holds sys0 {#}"
  by (simp add: holds_def sys0_def)

end
