(* ===== verification/Pcie_Kmem.thy ===== *)
theory Pcie_Kmem
  imports Pcie_Kernel Digits
begin

text \<open>
  The kernel buffers of the PCIe driver (\<^verbatim>\<open>kmem.c\<close>) and the files of the buffers in sysfs (first part of
  \<^verbatim>\<open>sysfs.c\<close>): what every operation acquires and releases on each of its paths.
\<close>

section \<open>Files of buffers\<close>

text \<open>
  \<^verbatim>\<open>_pcidriver_sysfs_initialize\<close>: the result, and the attribute as far as it is set up.
\<close>

definition pcidriver_sysfs_initialize ::
  "'k kern \<Rightarrow> u64 \<Rightarrow> u32 \<Rightarrow> string \<Rightarrow> ('k sys, int \<times> sysfs_attr) prog" where
  "pcidriver_sysfs_initialize K pd i prefix =
     (let namebuffer = take 15 (prefix @ show_int i) in
      bnd (kstrdup K namebuffer) (\<lambda>name.
      let attr = \<lparr>attr_name = namebuffer, attr_ptr = name\<rparr> in
      if name = 0 then ret (- ENOMEM, attr)
      else bnd (priv pd) (\<lambda>p.
        bnd (class_device_create_file K (class_dev p) namebuffer) (\<lambda>r.
        if r \<noteq> 0 then ret (- ENXIO, attr) else ret (0, attr)))))"

definition pcidriver_sysfs_initialize_kmem :: "'k kern \<Rightarrow> u64 \<Rightarrow> u32 \<Rightarrow> ('k sys, int \<times> sysfs_attr) prog" where
  "pcidriver_sysfs_initialize_kmem K pd i = pcidriver_sysfs_initialize K pd i ''kbuf''"

definition pcidriver_sysfs_initialize_umem :: "'k kern \<Rightarrow> u64 \<Rightarrow> u32 \<Rightarrow> ('k sys, int \<times> sysfs_attr) prog" where
  "pcidriver_sysfs_initialize_umem K pd i = pcidriver_sysfs_initialize K pd i ''umem''"

definition pcidriver_sysfs_remove :: "'k kern \<Rightarrow> u64 \<Rightarrow> sysfs_attr \<Rightarrow> ('k sys, unit) prog" where
  "pcidriver_sysfs_remove K pd attr =
     bnd (priv pd) (\<lambda>p.
       thn (class_device_remove_file K (class_dev p) (attr_name attr)) (kfree K (attr_ptr attr)))"

section \<open>Buffers\<close>

text \<open>\<^verbatim>\<open>list_for_each\<close> up to the entry with the bus address, or the number, of a handle.\<close>

definition pcidriver_kmem_find_entry :: "u64 \<Rightarrow> kmem_handle_t \<Rightarrow> ('k sys, pcidriver_kmem_entry_t option) prog" where
  "pcidriver_kmem_find_entry pd h =
     bnd (priv pd) (\<lambda>p. ret (find (\<lambda>e. dma_handle e = pa h) (kmem_list p)))"

definition pcidriver_kmem_find_entry_id :: "u64 \<Rightarrow> u32 \<Rightarrow> ('k sys, pcidriver_kmem_entry_t option) prog" where
  "pcidriver_kmem_find_entry_id pd i =
     bnd (priv pd) (\<lambda>p. ret (find (\<lambda>e. ke_id e = i) (kmem_list p)))"

text \<open>\<^verbatim>\<open>atomic_inc_return(&privdata->kmem_count) - 1\<close>.\<close>

definition kmem_count_inc :: "u64 \<Rightarrow> ('k sys, u32) prog" where
  "kmem_count_inc pd =
     bnd (priv pd) (\<lambda>p. thn (set_priv pd (\<lambda>p. p\<lparr>kmem_count := kmem_count p + 1\<rparr>)) (ret (kmem_count p)))"

definition pci_alloc_consistent :: "'k kern \<Rightarrow> u64 \<Rightarrow> ('k sys, u64 \<times> u64) prog" where
  "pci_alloc_consistent K n = acquire K (k_alloc_consistent K n) (\<lambda>a. fst a \<noteq> 0) (\<lambda>a. Dma n (fst a) (snd a))"

definition pci_free_consistent :: "'k kern \<Rightarrow> u64 \<Rightarrow> u64 \<Rightarrow> u64 \<Rightarrow> ('k sys, unit) prog" where
  "pci_free_consistent K n c d = event K (Rel (Dma n c d))"

text \<open>\<^verbatim>\<open>pcidriver_kmem_alloc\<close>: the result, and the handle as the caller finds it.\<close>

definition sizeof_kmem_entry :: nat where "sizeof_kmem_entry = 80"

definition pcidriver_kmem_alloc ::
  "'k kern \<Rightarrow> u64 \<Rightarrow> kmem_handle_t \<Rightarrow> ('k sys, int \<times> kmem_handle_t) prog" where
  "pcidriver_kmem_alloc K pd h =
     bnd (kmalloc K sizeof_kmem_entry) (\<lambda>ptr.
     if ptr = 0 then ret (- ENOMEM, h)
     else bnd (kmem_count_inc pd) (\<lambda>i.
       let h1 = h\<lparr>kh_id := i\<rparr> in
       bnd (pcidriver_sysfs_initialize_kmem K pd i) (\<lambda>ra.
       if fst ra \<noteq> 0 then thn (kfree K ptr) (ret (- ENOMEM, h1))
       else bnd (pci_alloc_consistent K (kh_size h)) (\<lambda>m.
         if fst m = 0 then thn (kfree K ptr) (ret (- ENOMEM, h1))
         else thn (set_priv pd (\<lambda>p. p\<lparr>kmem_list := kmem_list p @
                     [\<lparr>ke_ptr = ptr, ke_id = i, dma_handle = snd m, cpua = fst m,
                       ke_size = kh_size h, ke_attr = snd ra\<rparr>]\<rparr>))
                (ret (0, h1\<lparr>pa := snd m\<rparr>))))))"

definition pcidriver_kmem_free_entry :: "'k kern \<Rightarrow> u64 \<Rightarrow> pcidriver_kmem_entry_t \<Rightarrow> ('k sys, int) prog" where
  "pcidriver_kmem_free_entry K pd e =
     thn (pcidriver_sysfs_remove K pd (ke_attr e))
    (thn (pci_free_consistent K (ke_size e) (cpua e) (dma_handle e))
    (thn (set_priv pd (\<lambda>p. p\<lparr>kmem_list := remove1 e (kmem_list p)\<rparr>))
    (thn (kfree K (ke_ptr e)) (ret 0))))"

definition pcidriver_kmem_free :: "'k kern \<Rightarrow> u64 \<Rightarrow> kmem_handle_t \<Rightarrow> ('k sys, int) prog" where
  "pcidriver_kmem_free K pd h =
     bnd (pcidriver_kmem_find_entry pd h) (\<lambda>e.
       case e of None \<Rightarrow> ret (- EINVAL) | Some e \<Rightarrow> pcidriver_kmem_free_entry K pd e)"

definition pcidriver_kmem_free_all :: "'k kern \<Rightarrow> u64 \<Rightarrow> ('k sys, int) prog" where
  "pcidriver_kmem_free_all K pd =
     bnd (priv pd) (\<lambda>p.
       thn (doall (map (\<lambda>e. thn (pcidriver_kmem_free_entry K pd e) (ret ())) (kmem_list p))) (ret 0))"

definition pcidriver_kmem_sync :: "'k kern \<Rightarrow> u64 \<Rightarrow> kmem_sync_t \<Rightarrow> ('k sys, int) prog" where
  "pcidriver_kmem_sync K pd ks =
     bnd (pcidriver_kmem_find_entry pd (ks_handle ks)) (\<lambda>e.
       case e of None \<Rightarrow> ret (- EINVAL)
       | Some e \<Rightarrow>
           let sync = (\<lambda>w. event K (Sync_single w (dma_handle e) (ke_size e) (ks_dir ks))) in
           if ks_dir ks = PCIDRIVER_DMA_TODEVICE then thn (sync For_device) (ret 0)
           else if ks_dir ks = PCIDRIVER_DMA_FROMDEVICE then thn (sync For_cpu) (ret 0)
           else if ks_dir ks = PCIDRIVER_DMA_BIDIRECTIONAL then thn (sync For_device) (thn (sync For_cpu) (ret 0))
           else ret (- EINVAL))"

text \<open>\<^verbatim>\<open>remap_pfn_range\<close>.\<close>

definition remap_pfn_range :: "'k kern \<Rightarrow> u64 \<Rightarrow> u64 \<Rightarrow> u64 \<Rightarrow> ('k sys, int) prog" where
  "remap_pfn_range K start pfn n =
     bnd (call (k_remap K start pfn n)) (\<lambda>r. if r = 0 then thn (event K (Remap start pfn n)) (ret r) else ret r)"

definition pcidriver_mmap_kmem :: "'k kern \<Rightarrow> u64 \<Rightarrow> u64 \<Rightarrow> u64 \<Rightarrow> ('k sys, int) prog" where
  "pcidriver_mmap_kmem K pd vm_start vm_end =
     bnd (priv pd) (\<lambda>p.
     if kmem_list p = [] then ret (- EFAULT)
     else
       let e = last (kmem_list p); vma_size = vm_end - vm_start in
       if vma_size \<noteq> ke_size e \<and> (ke_size e < PAGE_SIZE \<and> vma_size \<noteq> PAGE_SIZE) then ret (- EINVAL)
       else bnd (remap_pfn_range K vm_start (k_virt_to_pfn K (cpua e)) (ke_size e)) (\<lambda>r.
              if r \<noteq> 0 then ret (- EAGAIN) else ret r))"

section \<open>What is held for buffers\<close>

definition attr_res :: "u64 \<Rightarrow> sysfs_attr \<Rightarrow> resource multiset" where
  "attr_res dev a = add_mset (File dev (attr_name a)) (kres (attr_ptr a))"

definition kmem_res :: "u64 \<Rightarrow> pcidriver_kmem_entry_t \<Rightarrow> resource multiset" where
  "kmem_res dev e =
     add_mset (Dma (ke_size e) (cpua e) (dma_handle e)) (attr_res dev (ke_attr e) + kres (ke_ptr e))"

text \<open>
  The file of a buffer: when it cannot be created, the string with its name stays allocated.
\<close>

lemma wp_sysfs_initialize:
  assumes s: "holds s H"
    and ok: "\<And>a t. same s t \<Longrightarrow> holds t (H + attr_res (class_dev (privs s pd)) a) \<Longrightarrow> Q (0, a) t"
    and nomem: "\<And>a t. same s t \<Longrightarrow> holds t H \<Longrightarrow> Q (- ENOMEM, a) t"
    and nofile: "\<And>a n t. same s t \<Longrightarrow> n \<noteq> 0 \<Longrightarrow> holds t (add_mset (Kmem n) H) \<Longrightarrow> Q (- ENXIO, a) t"
  shows "wp (pcidriver_sysfs_initialize K pd i prefix) Q s"
  unfolding pcidriver_sysfs_initialize_def Let_def kstrdup_def class_device_create_file_def wp_simps
  apply (rule wp_acquire[OF s])
  subgoal for n t
    apply simp
    apply (rule wp_acquire, assumption)
    subgoal for r u
      by (simp add: wp_simps, rule ok)
        (simp_all add: same_trans[of s t] attr_res_def kres_def same_def add_mset_commute)
    subgoal for r u
      by (simp add: wp_simps nofile[OF same_trans[of s t]])
    done
  subgoal for n t
    by (simp add: wp_simps nomem)
  done



text \<open>Every path of an allocation.\<close>

lemma wp_kmem_alloc:
  fixes s :: "'k sys" and pd
  defines "p \<equiv> privs s pd"
  assumes s: "holds s H"
    and ok: "\<And>e t. ke_id e = kmem_count p \<Longrightarrow> ke_size e = kh_size h \<Longrightarrow> cpua e \<noteq> 0 \<Longrightarrow> ke_ptr e \<noteq> 0 \<Longrightarrow>
               same (s\<lparr>privs := (privs s)(pd := p\<lparr>kmem_count := kmem_count p + 1, kmem_list := kmem_list p @ [e]\<rparr>)\<rparr>) t \<Longrightarrow>
               holds t (H + kmem_res (class_dev p) e) \<Longrightarrow> Q (0, h\<lparr>kh_id := kmem_count p, pa := dma_handle e\<rparr>) t"
    and noentry: "\<And>t. same s t \<Longrightarrow> holds t H \<Longrightarrow> Q (- ENOMEM, h) t"
    and fails: "\<And>t L. same (s\<lparr>privs := (privs s)(pd := p\<lparr>kmem_count := kmem_count p + 1\<rparr>)\<rparr>) t \<Longrightarrow> holds t (H + L) \<Longrightarrow>
               L = {#} \<or> (\<exists>n. L = {#Kmem n#}) \<or> (\<exists>a. L = attr_res (class_dev p) a) \<Longrightarrow> Q (- ENOMEM, h\<lparr>kh_id := kmem_count p\<rparr>) t"
  shows "wp (pcidriver_kmem_alloc K pd h) Q s"
  unfolding pcidriver_kmem_alloc_def kmalloc_def kmem_count_inc_def pcidriver_sysfs_initialize_kmem_def
    pci_alloc_consistent_def Let_def wp_simps
  apply (rule wp_acquire[OF s])
  subgoal for ptr t
    apply simp
    apply (rule wp_sysfs_initialize[where H = "add_mset (Kmem ptr) H"])
       apply simp
    subgoal for a u
      apply simp
      apply (rule wp_acquire, assumption)
      subgoal for m v
        by (simp add: wp_simps same_def,
            rule ok[unfolded p_def, where e = "\<lparr>ke_ptr = ptr, ke_id = kmem_count (privs s pd), dma_handle = snd m,
              cpua = fst m, ke_size = kh_size h, ke_attr = a\<rparr>", simplified])
          (simp_all add: same_def kmem_res_def kres_def add_mset_commute)
      subgoal for m v
        by (simp add: wp_simps same_def, rule wp_kfree, assumption, simp add: kres_def,
            rule fails[unfolded p_def, where L = "attr_res (class_dev (privs s pd)) a", simplified]) 
           (auto simp: same_def kres_def)
      done
    subgoal for a u
      by (simp add: wp_simps same_def ENOMEM_def, rule wp_kfree, assumption, simp add: kres_def,
          rule fails[unfolded p_def ENOMEM_def, where L = "{#}", simplified]) (auto simp: same_def kres_def)
    subgoal for a n u
      by (simp add: wp_simps same_def ENXIO_def, rule wp_kfree, assumption, simp add: kres_def,
          rule fails[unfolded p_def, where L = "{#Kmem n#}", simplified]) (auto simp: same_def kres_def)
    done
  subgoal for ptr t
    by (simp add: wp_simps noentry)
  done


lemma wp_sysfs_remove:
  assumes s: "holds s H" and sub: "attr_res (class_dev (privs s pd)) a \<subseteq># H"
    and ok: "\<And>t. same s t \<Longrightarrow> holds t (H - attr_res (class_dev (privs s pd)) a) \<Longrightarrow> Q () t"
  shows "wp (pcidriver_sysfs_remove K pd a) Q s"
  unfolding pcidriver_sysfs_remove_def class_device_remove_file_def wp_simps
  apply (rule wp_event_Rel[OF s])
  subgoal using sub by (simp add: attr_res_def insert_subset_eq_iff)
  subgoal for t
    apply (rule wp_kfree, assumption)
    subgoal using sub by (simp add: attr_res_def insert_subset_eq_iff)
    subgoal for u
      by (rule ok) (simp_all add: same_def attr_res_def)
    done
  done

definition kmem_removed :: "u64 \<Rightarrow> pcidriver_kmem_entry_t \<Rightarrow> 'k sys \<Rightarrow> 'k sys" where
  "kmem_removed pd e s =
     s\<lparr>privs := (privs s)(pd := (privs s pd)\<lparr>kmem_list := remove1 e (kmem_list (privs s pd))\<rparr>)\<rparr>"

lemma wp_kmem_free_entry:
  assumes s: "holds s H" and sub: "kmem_res (class_dev (privs s pd)) e \<subseteq># H"
    and ok: "\<And>t. same (kmem_removed pd e s) t \<Longrightarrow> holds t (H - kmem_res (class_dev (privs s pd)) e) \<Longrightarrow> Q 0 t"
  shows "wp (pcidriver_kmem_free_entry K pd e) Q s"
proof -
  let ?a = "attr_res (class_dev (privs s pd)) (ke_attr e)" and ?d = "Dma (ke_size e) (cpua e) (dma_handle e)"
  obtain G where G: "H = add_mset ?d (?a + kres (ke_ptr e)) + G"
    using sub unfolding kmem_res_def by (auto simp: subset_mset.le_iff_add)
  show ?thesis
    unfolding pcidriver_kmem_free_entry_def pci_free_consistent_def wp_simps
    apply (rule wp_sysfs_remove[OF s])
    subgoal by (simp add: G)
    subgoal for t
      apply (rule wp_event_Rel, assumption)
      subgoal by (simp add: G)
      subgoal for u
        apply (rule wp_kfree[where H = "kres (ke_ptr e) + G"])
        subgoal by (simp add: G)
        subgoal by simp
        subgoal for v by (rule ok) (simp_all add: same_def kmem_removed_def G kmem_res_def)
        done
      done
    done
qed

text \<open>The list of buffers, and what is held for all of them.\<close>

definition kmem_all :: "pcidriver_privdata_t \<Rightarrow> resource multiset" where
  "kmem_all p = sum_list (map (kmem_res (class_dev p)) (kmem_list p))"

interpretation kbuf: entry_list kmem_list "\<lambda>es p. p\<lparr>kmem_list := es\<rparr>" kmem_res pcidriver_kmem_free_entry
  by unfold_locales (simp_all, erule wp_kmem_free_entry, simp_all add: kmem_removed_def)

lemma wp_kmem_free_in:
  assumes "holds s (kmem_all (privs s pd) + G)" and "e \<in> set (kmem_list (privs s pd))"
    and "\<And>t. same (kmem_removed pd e s) t \<Longrightarrow> holds t (kmem_all (privs t pd) + G) \<Longrightarrow> Q 0 t"
  shows "wp (pcidriver_kmem_free_entry K pd e) Q s"
  using assms unfolding kmem_all_def kmem_removed_def by (rule kbuf.release_in)

lemma find_in: "find P xs = Some x \<Longrightarrow> x \<in> set xs"
  by (auto simp: find_Some_iff)

lemma wp_kmem_free:
  assumes s: "holds s (kmem_all (privs s pd) + G)"
    and ok: "\<And>e t. e \<in> set (kmem_list (privs s pd)) \<Longrightarrow> dma_handle e = pa h \<Longrightarrow> same (kmem_removed pd e s) t \<Longrightarrow>
               holds t (kmem_all (privs t pd) + G) \<Longrightarrow> Q 0 t"
    and no: "\<forall>e \<in> set (kmem_list (privs s pd)). dma_handle e \<noteq> pa h \<Longrightarrow> Q (- EINVAL) s"
  shows "wp (pcidriver_kmem_free K pd h) Q s"
proof (cases "find (\<lambda>e. dma_handle e = pa h) (kmem_list (privs s pd))")
  case None
  then have "Q (- EINVAL) s" by (intro no) (simp add: find_None_iff)
  then show ?thesis unfolding pcidriver_kmem_free_def pcidriver_kmem_find_entry_def wp_simps None option.case .
next
  case (Some e)
  have e: "dma_handle e = pa h" using Some by (auto simp: find_Some_iff)
  have "wp (pcidriver_kmem_free_entry K pd e) Q s"
    by (rule wp_kmem_free_in[OF s find_in[OF Some]]) (rule ok[OF find_in[OF Some] e])
  then show ?thesis unfolding pcidriver_kmem_free_def pcidriver_kmem_find_entry_def wp_simps Some option.case .
qed

lemma wp_kmem_free_all:
  assumes "holds s (kmem_all (privs s pd) + G)"
    and "\<And>t. same (s\<lparr>privs := (privs s)(pd := (privs s pd)\<lparr>kmem_list := []\<rparr>)\<rparr>) t \<Longrightarrow> holds t G \<Longrightarrow> Q 0 t"
  shows "wp (pcidriver_kmem_free_all K pd) Q s"
  unfolding pcidriver_kmem_free_all_def wp_bnd wp_priv
  using assms unfolding kmem_all_def by (rule kbuf.release_all)

text \<open>Synchronisation and mapping leave what is held alone.\<close>

lemma wp_kmem_sync:
  assumes s: "holds s H" and Q: "\<And>r t. same s t \<Longrightarrow> holds t H \<Longrightarrow> Q r t"
  shows "wp (pcidriver_kmem_sync K pd ks) Q s"
proof -
  have ev: "\<And>w d n i P u. same s u \<Longrightarrow> holds u H \<Longrightarrow> (\<And>t. same s t \<Longrightarrow> holds t H \<Longrightarrow> P () t) \<Longrightarrow>
     wp (event K (Sync_single w d n i)) P u"
    by (rule wp_event_neutral, assumption) (auto simp: neutral_def dest: same_trans)
  show ?thesis
    unfolding pcidriver_kmem_sync_def pcidriver_kmem_find_entry_def wp_simps Let_def
    by (auto simp: wp_simps Q s intro!: ev Q split: option.split)
qed

lemma wp_remap:
  assumes s: "holds s H" and Q: "\<And>r t. same s t \<Longrightarrow> holds t H \<Longrightarrow> Q r t"
  shows "wp (remap_pfn_range K a f n) Q s"
  unfolding remap_pfn_range_def wp_simps
  by (rule wp_call[OF s]) (auto simp: wp_simps neutral_def intro!: wp_event_neutral Q dest: same_trans)

lemma wp_mmap_kmem:
  assumes s: "holds s H" and Q: "\<And>r t. same s t \<Longrightarrow> holds t H \<Longrightarrow> Q r t"
  shows "wp (pcidriver_mmap_kmem K pd a b) Q s"
  unfolding pcidriver_mmap_kmem_def wp_simps Let_def
  by (auto simp: wp_simps s intro!: wp_remap[OF s] Q)


section \<open>Correctness\<close>

text \<open>
  An allocation of a buffer either succeeds, and then the new entry is the last of the
  list, has the size and the number the handle says, and everything it stands for is held on top of
  what was held before; or it fails with \<^verbatim>\<open>-ENOMEM\<close>, leaves the list alone, and holds at most the name
  of a file, or a file and its name, that nobody will release.
\<close>

lemma kmem_alloc_outcome:
  assumes "holds s H"
  shows "wp (pcidriver_kmem_alloc K pd h) (\<lambda>(r, h') t.
     let dev = class_dev (privs s pd); es = kmem_list (privs s pd) in
       (r = 0 \<and> (\<exists>e. kmem_list (privs t pd) = es @ [e] \<and> ke_size e = kh_size h \<and> cpua e \<noteq> 0 \<and>
            h' = \<lparr>pa = dma_handle e, kh_size = ke_size e, kh_id = ke_id e\<rparr> \<and> ke_id e = kmem_count (privs s pd) \<and>
            holds t (H + kmem_res dev e)))
     \<or> (r = - ENOMEM \<and> kmem_list (privs t pd) = es \<and>
          (holds t H \<or> (\<exists>n. holds t (H + {#Kmem n#})) \<or> (\<exists>a. holds t (H + attr_res dev a))))) s"
  by (rule wp_kmem_alloc[OF assms]) (auto simp: same_def)

lemma kmem_alloc_outcome_witness:
  "holds sys0 {#} \<and>
   wp (pcidriver_kmem_alloc kern0 7 (u_kmem user0 0)) (\<lambda>(r, h') t.
     let dev = class_dev (privs sys0 7); es = kmem_list (privs sys0 7) in
       (r = 0 \<and> (\<exists>e. kmem_list (privs t 7) = es @ [e] \<and> ke_size e = kh_size (u_kmem user0 0) \<and> cpua e \<noteq> 0 \<and>
            h' = \<lparr>pa = dma_handle e, kh_size = ke_size e, kh_id = ke_id e\<rparr> \<and> ke_id e = kmem_count (privs sys0 7) \<and>
            holds t ({#} + kmem_res dev e)))
     \<or> (r = - ENOMEM \<and> kmem_list (privs t 7) = es \<and>
          (holds t {#} \<or> (\<exists>n. holds t ({#} + {#Kmem n#})) \<or> (\<exists>a. holds t ({#} + attr_res dev a))))) sys0"
  using kmem_alloc_outcome[OF holds_sys0, where pd = 7 and K = kern0 and h = "u_kmem user0 0"] holds_sys0 by blast

end
