(* ===== verification/Pcie_Umem.thy ===== *)
theory Pcie_Umem
  imports Pcie_Kmem
begin

text \<open>
  User memory mapped for DMA (\<^verbatim>\<open>umem.c\<close>): the pages of a buffer, the scatter/gather table over them,
  and the table as user space sees it.
\<close>

section \<open>Pages\<close>

definition sizeof_ptr :: u64 where "sizeof_ptr = 8"
definition sizeof_scatterlist :: u64 where "sizeof_scatterlist = 32"
definition sizeof_umem_entry :: nat where "sizeof_umem_entry = 88"

text \<open>The number of pages of a buffer, an \<^verbatim>\<open>int\<close>.\<close>

definition sgmap_nr_pages :: "u64 \<Rightarrow> u64 \<Rightarrow> u32" where
  "sgmap_nr_pages vma n = ucast (drop_bit PAGE_SHIFT ((vma AND NOT PAGE_MASK) + n + NOT PAGE_MASK))"

text \<open>
  \<^verbatim>\<open>get_user_pages\<close>: the pages it took, none when it failed, at most as many as asked for.
\<close>

definition get_user_pages :: "'k kern \<Rightarrow> u64 \<Rightarrow> int \<Rightarrow> ('k sys, u64 list) prog" where
  "get_user_pages K vma n =
     bnd (call (k_get_user_pages K vma n)) (\<lambda>r.
       let ps = (case r of Inl _ \<Rightarrow> [] | Inr ps \<Rightarrow> take (nat n) ps) in
       thn (doall (map (\<lambda>p. event K (Acq (Page p))) ps)) (ret ps))"

definition PageReserved :: "'k kern \<Rightarrow> u64 \<Rightarrow> ('k sys, bool) prog" where
  "PageReserved K p = gets (\<lambda>s. k_reserved K p (kst s))"

definition PageLocked :: "'k kern \<Rightarrow> u64 \<Rightarrow> ('k sys, bool) prog" where
  "PageLocked K p = gets (\<lambda>s. k_locked K p (kst s))"

definition lock_page :: "'k kern \<Rightarrow> u64 \<Rightarrow> ('k sys, unit) prog" where
  "lock_page K p = bnd (PageReserved K p) (\<lambda>r. if r then ret () else event K (Lock p))"

text \<open>The release of a page when a mapping fails, and when it is undone.\<close>

definition drop_page :: "'k kern \<Rightarrow> u64 \<Rightarrow> ('k sys, unit) prog" where
  "drop_page K p =
     bnd (PageLocked K p) (\<lambda>l.
     thn (if l then event K (Unlock p) else ret ())
    (bnd (PageReserved K p) (\<lambda>r.
     thn (if r then ret () else event K (Dirty p))
         (event K (Rel (Page p))))))"

definition unmap_page :: "'k kern \<Rightarrow> u64 \<Rightarrow> ('k sys, unit) prog" where
  "unmap_page K p =
     bnd (PageReserved K p) (\<lambda>r.
     thn (if r then ret () else thn (event K (Dirty p)) (event K (Unlock p)))
         (event K (Rel (Page p))))"

section \<open>The scatter/gather table\<close>

text \<open>\<^verbatim>\<open>sg_set_page\<close> on an entry that was cleared by \<^verbatim>\<open>sg_init_table\<close>.\<close>

definition sg_set_page :: "u64 \<Rightarrow> u32 \<Rightarrow> u32 \<Rightarrow> scatterlist" where
  "sg_set_page p len off = \<lparr>sg_page = p, sg_length = len, sg_offset = off, sg_dma_address = 0, sg_dma_len = 0\<rparr>"

fun sg_rest :: "u64 \<Rightarrow> u64 list \<Rightarrow> scatterlist list" where
  "sg_rest left [] = []"
| "sg_rest left (p # ps) =
     (let e = sg_set_page p (ucast (if left > PAGE_SIZE then PAGE_SIZE else left)) 0
      in e # sg_rest (left - ucast (sg_length e)) ps)"

definition sg_table :: "u64 \<Rightarrow> u64 \<Rightarrow> u64 \<Rightarrow> u64 list \<Rightarrow> scatterlist list" where
  "sg_table vma n p ps =
     (let offset = vma AND NOT PAGE_MASK;
          len = (if n > PAGE_SIZE - offset then PAGE_SIZE - offset else n)
      in sg_set_page p (ucast len) (ucast offset) # sg_rest (n - len) ps)"

definition pci_map_sg :: "'k kern \<Rightarrow> u64 \<Rightarrow> scatterlist list \<Rightarrow> ('k sys, u32 \<times> scatterlist list) prog" where
  "pci_map_sg K ptr sg = acquire K (k_map_sg K sg) (\<lambda>m. fst m \<noteq> 0) (\<lambda>_. Sg ptr)"

definition pci_unmap_sg :: "'k kern \<Rightarrow> u64 \<Rightarrow> ('k sys, unit) prog" where
  "pci_unmap_sg K ptr = event K (Rel (Sg ptr))"

section \<open>Mapping\<close>

definition umem_count_inc :: "u64 \<Rightarrow> ('k sys, u32) prog" where
  "umem_count_inc pd =
     bnd (priv pd) (\<lambda>p. thn (set_priv pd (\<lambda>p. p\<lparr>umem_count := umem_count p + 1\<rparr>)) (ret (umem_count p)))"

text \<open>The labels \<^verbatim>\<open>umem_sgmap_unmap\<close> and \<^verbatim>\<open>umem_sgmap_pages\<close>.\<close>

definition umem_sgmap_unmap :: "'k kern \<Rightarrow> u64 list \<Rightarrow> u64 \<Rightarrow> u64 \<Rightarrow> umem_handle_t \<Rightarrow> ('k sys, int \<times> umem_handle_t) prog" where
  "umem_sgmap_unmap K pages pages_ptr sg_ptr h =
     thn (doall (map (drop_page K) pages))
    (thn (vfree K sg_ptr)
    (thn (vfree K pages_ptr) (ret (- ENOMEM, h))))"

text \<open>From the table on.\<close>

definition umem_sgmap_entry ::
  "'k kern \<Rightarrow> u64 \<Rightarrow> umem_handle_t \<Rightarrow> u64 list \<Rightarrow> u64 \<Rightarrow> u64 \<Rightarrow> u32 \<times> scatterlist list \<Rightarrow> ('k sys, int \<times> umem_handle_t) prog" where
  "umem_sgmap_entry K pd h pages pages_ptr sg_ptr m =
     (let undo = umem_sgmap_unmap K pages pages_ptr sg_ptr h in
      if fst m = 0 then undo
      else bnd (kmalloc K sizeof_umem_entry) (\<lambda>ptr.
        if ptr = 0 then thn (pci_unmap_sg K sg_ptr) undo
        else bnd (umem_count_inc pd) (\<lambda>i.
          bnd (pcidriver_sysfs_initialize_umem K pd i) (\<lambda>ra.
          if fst ra \<noteq> 0 then thn (kfree K ptr) (thn (pci_unmap_sg K sg_ptr) undo)
          else thn (set_priv pd (\<lambda>p. p\<lparr>umem_list := umem_list p @
                      [\<lparr>ue_ptr = ptr, ue_id = i, ue_pages = pages, ue_pages_ptr = pages_ptr, ue_nents = fst m,
                        ue_sg = snd m, ue_sg_ptr = sg_ptr, ue_attr = snd ra\<rparr>]\<rparr>))
                 (ret (0, h\<lparr>uh_id := i\<rparr>))))))"

definition pcidriver_umem_sgmap ::
  "'k kern \<Rightarrow> u64 \<Rightarrow> umem_handle_t \<Rightarrow> ('k sys, int \<times> umem_handle_t) prog" where
  "pcidriver_umem_sgmap K pd h =
     (if uh_size h = 0 then ret (- EINVAL, h)
      else let nr_pages = sgmap_nr_pages (uh_vma h) (uh_size h) in
        bnd (vmalloc K (scast nr_pages * sizeof_ptr)) (\<lambda>pages_ptr.
        if pages_ptr = 0 then ret (- ENOMEM, h)
        else bnd (vmalloc K (scast nr_pages * sizeof_scatterlist)) (\<lambda>sg_ptr.
          if sg_ptr = 0 then thn (vfree K pages_ptr) (ret (- ENOMEM, h))
          else bnd (get_user_pages K (uh_vma h) (sint nr_pages)) (\<lambda>pages.
            if int (length pages) < sint nr_pages then umem_sgmap_unmap K pages pages_ptr sg_ptr h
            else case pages of
                [] \<Rightarrow> fail BufferOverrun
              | p # ps \<Rightarrow>
                  thn (doall (map (lock_page K) pages))
                 (bnd (pci_map_sg K sg_ptr (sg_table (uh_vma h) (uh_size h) p ps))
                      (umem_sgmap_entry K pd h pages pages_ptr sg_ptr))))))"

definition pcidriver_umem_sgunmap :: "'k kern \<Rightarrow> u64 \<Rightarrow> pcidriver_umem_entry_t \<Rightarrow> ('k sys, int) prog" where
  "pcidriver_umem_sgunmap K pd e =
     thn (pcidriver_sysfs_remove K pd (ue_attr e))
    (thn (pci_unmap_sg K (ue_sg_ptr e))
    (thn (doall (map (unmap_page K) (ue_pages e)))
    (thn (set_priv pd (\<lambda>p. p\<lparr>umem_list := remove1 e (umem_list p)\<rparr>))
    (thn (vfree K (ue_pages_ptr e))
    (thn (vfree K (ue_sg_ptr e))
    (thn (kfree K (ue_ptr e)) (ret 0)))))))"

definition pcidriver_umem_sgunmap_all :: "'k kern \<Rightarrow> u64 \<Rightarrow> ('k sys, int) prog" where
  "pcidriver_umem_sgunmap_all K pd =
     bnd (priv pd) (\<lambda>p.
       thn (doall (map (\<lambda>e. thn (pcidriver_umem_sgunmap K pd e) (ret ())) (umem_list p))) (ret 0))"

definition pcidriver_umem_find_entry_id :: "u64 \<Rightarrow> u32 \<Rightarrow> ('k sys, pcidriver_umem_entry_t option) prog" where
  "pcidriver_umem_find_entry_id pd i =
     bnd (priv pd) (\<lambda>p. ret (find (\<lambda>e. ue_id e = i) (umem_list p)))"

definition pcidriver_umem_sync :: "'k kern \<Rightarrow> u64 \<Rightarrow> umem_handle_t \<Rightarrow> ('k sys, int) prog" where
  "pcidriver_umem_sync K pd h =
     bnd (pcidriver_umem_find_entry_id pd (uh_id h)) (\<lambda>e.
       case e of None \<Rightarrow> ret (- EINVAL)
       | Some e \<Rightarrow>
           let sync = (\<lambda>w. event K (Sync_sg w (ue_sg_ptr e) (ue_nents e) (uh_dir h))) in
           if uh_dir h = PCIDRIVER_DMA_TODEVICE then thn (sync For_device) (ret 0)
           else if uh_dir h = PCIDRIVER_DMA_FROMDEVICE then thn (sync For_cpu) (ret 0)
           else if uh_dir h = PCIDRIVER_DMA_BIDIRECTIONAL then thn (sync For_device) (thn (sync For_cpu) (ret 0))
           else ret (- EINVAL))"

section \<open>The table for user space\<close>

text \<open>
  The loops of \<^verbatim>\<open>pcidriver_umem_sgget\<close> over the array of the caller; no result when they write past
  its end. The first merges neighbours, the second copies.
\<close>

fun sgget_merge :: "umem_sgentry_t list \<Rightarrow> nat \<Rightarrow> scatterlist list \<Rightarrow> (umem_sgentry_t list \<times> nat) option" where
  "sgget_merge out idx [] = Some (out, idx)"
| "sgget_merge out idx (e # es) =
     (let cur_addr = sg_dma_address e; cur_size = sg_dma_len e in
      if \<not> idx < length out then None
      else if cur_addr = sge_addr (out ! idx) + sge_size (out ! idx)
        then sgget_merge (out[idx := (out ! idx)\<lparr>sge_size := sge_size (out ! idx) + ucast cur_size\<rparr>]) idx es
      else if cur_size = 0 then sgget_merge out idx es
      else if \<not> idx + 1 < length out then None
      else sgget_merge (out[idx + 1 := \<lparr>sge_addr = cur_addr, sge_size = ucast cur_size\<rparr>]) (idx + 1) es)"

definition sgget_merged :: "umem_sgentry_t list \<Rightarrow> scatterlist list \<Rightarrow> (umem_sgentry_t list \<times> u32) option" where
  "sgget_merged out sg =
     (case sg of
        [] \<Rightarrow> Some (out, 1)
      | e # es \<Rightarrow>
          if out = [] then None
          else case sgget_merge (out[0 := \<lparr>sge_addr = sg_dma_address e, sge_size = ucast (sg_dma_len e)\<rparr>]) 0 es of
                 None \<Rightarrow> None | Some (out', idx) \<Rightarrow> Some (out', of_nat idx + 1))"

fun sgget_copy :: "umem_sgentry_t list \<Rightarrow> nat \<Rightarrow> scatterlist list \<Rightarrow> umem_sgentry_t list option" where
  "sgget_copy out i [] = Some out"
| "sgget_copy out i (e # es) =
     (if \<not> i < length out then None
      else sgget_copy (out[i := \<lparr>sge_addr = sg_dma_address e, sge_size = ucast (sg_dma_len e)\<rparr>]) (i + 1) es)"

definition sgget_plain :: "umem_sgentry_t list \<Rightarrow> u32 \<Rightarrow> scatterlist list \<Rightarrow> (umem_sgentry_t list \<times> u32) option" where
  "sgget_plain out nents sg =
     (case sgget_copy out 0 sg of
        None \<Rightarrow> None
      | Some out' \<Rightarrow>
          if \<not> unat (nents - 1) < length out' then None
          else if sge_size (out' ! unat (nents - 1)) = 0 then Some (out', nents - 1) else Some (out', nents))"

text \<open>\<^verbatim>\<open>pcidriver_umem_sgget\<close>: the result, the array and the number of its entries in use.\<close>

definition pcidriver_umem_sgget ::
  "u64 \<Rightarrow> umem_sglist_t \<Rightarrow> umem_sgentry_t list \<Rightarrow> ('k sys, int \<times> umem_sgentry_t list \<times> u32) prog" where
  "pcidriver_umem_sgget pd l out =
     bnd (pcidriver_umem_find_entry_id pd (sgl_id l)) (\<lambda>e.
       case e of None \<Rightarrow> ret (- EINVAL, out, sgl_nents l)
       | Some e \<Rightarrow>
           if sgl_nents l < ue_nents e then ret (- EINVAL, out, sgl_nents l)
           else if length (ue_sg e) < unat (ue_nents e) then fail NullPointer
           else
             let sg = take (unat (ue_nents e)) (ue_sg e) in
             case (if sgl_type l = PCIDRIVER_SG_MERGED then sgget_merged out sg
                   else sgget_plain out (ue_nents e) sg) of
               None \<Rightarrow> fail BufferOverrun
             | Some (out', n) \<Rightarrow> ret (0, out', n))"


section \<open>What is held for mappings\<close>

definition page_res :: "u64 list \<Rightarrow> resource multiset" where
  "page_res ps = mset (map Page ps)"

definition umem_res :: "u64 \<Rightarrow> pcidriver_umem_entry_t \<Rightarrow> resource multiset" where
  "umem_res dev e =
     add_mset (Sg (ue_sg_ptr e)) (page_res (ue_pages e) + attr_res dev (ue_attr e) +
       (kres (ue_ptr e) + vres (ue_pages_ptr e) + vres (ue_sg_ptr e)))"

lemma wp_neutral_if:
  assumes "holds s H" and "neutral e" and "\<And>t. same s t \<Longrightarrow> holds t H \<Longrightarrow> Q () t"
  shows "wp (if b then event K e else ret ()) Q s" and "wp (if b then ret () else event K e) Q s"
  using assms by (auto simp: wp_simps intro: wp_event_neutral)

lemma wp_take_pages:
  assumes "holds s H" and Q: "\<And>t. same s t \<Longrightarrow> holds t (page_res ps + H) \<Longrightarrow> Q () t"
  shows "wp (doall (map (\<lambda>p. event K (Acq (Page p))) ps)) Q s"
  using assms
proof (induction ps arbitrary: s H)
  case Nil
  then show ?case unfolding list.map doall.simps wp_ret by (simp add: page_res_def)
next
  case (Cons p ps)
  show ?case
    unfolding list.map doall.simps wp_thn
    by (rule wp_event_Acq[OF Cons.prems(1)], rule Cons.IH, assumption, rule Cons.prems(2))
       (simp_all add: page_res_def same_def)
qed

lemma wp_get_user_pages:
  assumes s: "holds s H"
    and Q: "\<And>ps t. same s t \<Longrightarrow> length ps \<le> nat n \<Longrightarrow> holds t (page_res ps + H) \<Longrightarrow> Q ps t"
  shows "wp (get_user_pages K vma n) Q s"
  unfolding get_user_pages_def wp_bnd
  apply (rule wp_call[OF s])
  subgoal for r t
    unfolding Let_def wp_simps
    by (rule wp_take_pages, assumption, rule Q) (auto simp: same_def split: sum.split)
  done

lemma wp_lock_page:
  assumes "holds s H" and "\<And>t. same s t \<Longrightarrow> holds t H \<Longrightarrow> Q () t"
  shows "wp (lock_page K p) Q s"
  unfolding lock_page_def PageReserved_def wp_bnd wp_gets
  by (rule wp_neutral_if[OF assms(1)], simp add: neutral_def) (rule assms(2))

lemma wp_lock_pages:
  assumes "holds s H" and "\<And>t. same s t \<Longrightarrow> holds t H \<Longrightarrow> Q () t"
  shows "wp (doall (map (lock_page K) ps)) Q s"
  using assms
proof (induction ps arbitrary: s)
  case Nil
  then show ?case unfolding list.map doall.simps wp_ret by simp
next
  case (Cons p ps)
  show ?case
    unfolding list.map doall.simps wp_thn
    by (rule wp_lock_page[OF Cons.prems(1)], rule Cons.IH, assumption, rule Cons.prems(2))
       (simp_all add: same_def)
qed

lemma wp_drop_page:
  assumes s: "holds s (add_mset (Page p) H)" and Q: "\<And>t. same s t \<Longrightarrow> holds t H \<Longrightarrow> Q () t"
  shows "wp (drop_page K p) Q s"
  unfolding drop_page_def PageReserved_def PageLocked_def wp_bnd wp_gets wp_thn
  apply (rule wp_neutral_if[OF s], simp add: neutral_def)
  apply (rule wp_neutral_if, assumption, simp add: neutral_def)
  apply (rule wp_event_Rel, assumption, simp)
  by (rule Q) (simp_all add: same_def)

lemma wp_unmap_page:
  assumes s: "holds s (add_mset (Page p) H)" and Q: "\<And>t. same s t \<Longrightarrow> holds t H \<Longrightarrow> Q () t"
  shows "wp (unmap_page K p) Q s"
proof -
  have "wp (if r then ret () else thn (event K (Dirty p)) (event K (Unlock p))) (\<lambda>_. wp (event K (Rel (Page p))) Q) s" for r
  proof -
    have rel: "\<And>t. same s t \<Longrightarrow> holds t (add_mset (Page p) H) \<Longrightarrow> wp (event K (Rel (Page p))) Q t"
      by (rule wp_event_Rel, assumption, simp, rule Q) (simp_all add: same_def)
    have "wp (event K (Dirty p)) (\<lambda>_. wp (event K (Unlock p)) (\<lambda>_. wp (event K (Rel (Page p))) Q)) s"
      by (rule wp_event_neutral[OF s], simp add: neutral_def, rule wp_event_neutral, assumption,
          simp add: neutral_def, rule rel) (simp_all add: same_def)
    then show ?thesis using rel[OF same_refl s] by (simp add: wp_simps)
  qed
  then show ?thesis unfolding unmap_page_def PageReserved_def wp_bnd wp_gets wp_thn .
qed

lemma wp_drop_pages:
  assumes "holds s (page_res ps + H)" and "\<And>t. same s t \<Longrightarrow> holds t H \<Longrightarrow> Q () t"
    and f: "\<And>p s H Q. holds s (add_mset (Page p) H) \<Longrightarrow> (\<And>t. same s t \<Longrightarrow> holds t H \<Longrightarrow> Q () t) \<Longrightarrow> wp (f p) Q s"
  shows "wp (doall (map f ps)) Q s"
  using assms(1,2)
proof (induction ps arbitrary: s)
  case Nil
  then show ?case unfolding list.map doall.simps wp_ret by (simp add: page_res_def)
next
  case (Cons p ps)
  have "holds s (add_mset (Page p) (page_res ps + H))" using Cons.prems(1) by (simp add: page_res_def)
  then show ?case
    unfolding list.map doall.simps wp_thn
    by (rule f, intro Cons.IH Cons.prems(2)) (simp_all add: same_def)
qed

lemma wp_sgmap_unmap:
  assumes s: "holds s (page_res ps + (vres pp + vres sp) + H)"
    and Q: "\<And>t. same s t \<Longrightarrow> holds t H \<Longrightarrow> Q (- ENOMEM, h) t"
  shows "wp (umem_sgmap_unmap K ps pp sp h) Q s"
  unfolding umem_sgmap_unmap_def wp_simps
  apply (rule wp_drop_pages[of s ps "vres pp + vres sp + H"])
  subgoal using s by (simp add: ac_simps)
  subgoal for t
    apply (rule wp_vfree, assumption, simp)
    apply (rule wp_vfree, assumption, simp)
    by (rule Q) (simp_all add: same_def)
  subgoal by (rule wp_drop_page)
  done


text \<open>From the table on: a new entry, or everything is undone, but for a name.\<close>

lemma wp_sgmap_entry:
  fixes s :: "'k sys" and pd
  defines "p \<equiv> privs s pd"
  assumes s: "holds s (if fst m = 0 then G else add_mset (Sg sp) G)"
    and G: "G = page_res ps + (vres pp + vres sp) + H"
    and ok: "\<And>e t. fst m \<noteq> 0 \<Longrightarrow> ue_id e = umem_count p \<Longrightarrow> ue_pages e = ps \<Longrightarrow> ue_nents e = fst m \<Longrightarrow> ue_sg e = snd m \<Longrightarrow>
               same (s\<lparr>privs := (privs s)(pd := p\<lparr>umem_count := umem_count p + 1, umem_list := umem_list p @ [e]\<rparr>)\<rparr>) t \<Longrightarrow>
               holds t (H + umem_res (class_dev p) e) \<Longrightarrow> Q (0, h\<lparr>uh_id := umem_count p\<rparr>) t"
    and fails: "\<And>t L c. same (s\<lparr>privs := (privs s)(pd := p\<lparr>umem_count := c\<rparr>)\<rparr>) t \<Longrightarrow> holds t (H + L) \<Longrightarrow>
               L = {#} \<or> (\<exists>n. L = {#Kmem n#}) \<Longrightarrow> Q (- ENOMEM, h) t"
  shows "wp (umem_sgmap_entry K pd h ps pp sp m) Q s"
proof (cases "fst m = 0")
  case True
  then have "wp (umem_sgmap_unmap K ps pp sp h) Q s"
    using s unfolding G by (intro wp_sgmap_unmap[where H = H] fails[where L = "{#}" and c = "umem_count p"]) (simp_all add: same_def p_def)
  then show ?thesis using True by (simp add: umem_sgmap_entry_def)
next
  case False
  have undo: "wp (event K (Rel (Sg sp))) (\<lambda>_. wp (umem_sgmap_unmap K ps pp sp h) Q) t"
    if "holds t (add_mset (Sg sp) (G + L))" and "L = {#} \<or> (\<exists>n. L = {#Kmem n#})"
      and "same (s\<lparr>privs := (privs s)(pd := p\<lparr>umem_count := c\<rparr>)\<rparr>) t" for t L c
    using that by (intro wp_event_Rel[OF that(1)] wp_sgmap_unmap[where H = "H + L"] fails[where L = L and c = c])
      (simp_all add: same_def G ac_simps)
  have s': "holds s (add_mset (Sg sp) G)" using s False by simp
  show ?thesis
    unfolding umem_sgmap_entry_def kmalloc_def umem_count_inc_def pcidriver_sysfs_initialize_umem_def
      pci_unmap_sg_def Let_def if_not_P[OF False] wp_simps
    apply (rule wp_acquire[OF s'])
    subgoal for ptr t
      apply simp
      apply (rule wp_sysfs_initialize[where H = "add_mset (Kmem ptr) (add_mset (Sg sp) G)"])
         apply simp
      subgoal for a u
        by (simp add: wp_simps same_def,
            rule ok[unfolded p_def, where e = "\<lparr>ue_ptr = ptr, ue_id = umem_count (privs s pd), ue_pages = ps,
              ue_pages_ptr = pp, ue_nents = fst m, ue_sg = snd m, ue_sg_ptr = sp, ue_attr = a\<rparr>", simplified])
          (simp_all add: False same_def umem_res_def kres_def G ac_simps add_mset_commute)
      subgoal for a u
        by (simp add: ENOMEM_def wp_simps, rule wp_kfree, assumption, simp add: kres_def,
            rule undo[where L = "{#}" and c = "umem_count p + 1"]) (simp_all add: same_def p_def kres_def)
      subgoal for a n u
        by (simp add: ENXIO_def wp_simps, rule wp_kfree, assumption, simp add: kres_def,
            rule undo[where L = "{#Kmem n#}" and c = "umem_count p + 1"])
          (simp_all add: same_def p_def kres_def add_mset_commute)
      done
    subgoal for ptr t
      by (simp add: wp_simps, rule undo[where L = "{#}" and c = "umem_count p"]) (simp_all add: same_def p_def)
    done
qed


text \<open>
  \<^verbatim>\<open>vmalloc\<close> has no block of no bytes, and none that is larger than the address space of a 64-bit processor.
\<close>

definition vmalloc_sane :: "'k kern \<Rightarrow> bool" where
  "vmalloc_sane K \<longleftrightarrow> (\<forall>n k. n = 0 \<or> 2 ^ 47 \<le> n \<longrightarrow> fst (k_vmalloc K n k) = 0)"

lemma vmalloc_array_pos:
  fixes nr :: u32 and c :: u64
  assumes vm: "vmalloc_sane K" and p: "fst (k_vmalloc K (scast nr * c) k) \<noteq> 0" and c: "0 < uint c" "uint c \<le> 2 ^ 15"
  shows "0 < sint nr"
proof (rule ccontr)
  assume neg: "\<not> 0 < sint nr"
  have "scast nr * c = 0 \<or> 2 ^ 47 \<le> scast nr * c"
  proof (cases "nr = 0")
    case True
    then show ?thesis by simp
  next
    case False
    then have lt: "sint nr < 0" using neg by (metis linorder_neqE sint_0 signed_word_eqI)
    have "- sint nr \<le> 2 ^ 31" using sint_ge[of nr] by simp
    then have "- sint nr * uint c \<le> 2 ^ 31 * 2 ^ 15" using c lt by (intro mult_mono) simp_all
    then have ge: "- (2 ^ 46) \<le> sint nr * uint c" by simp
    have neg: "sint nr * uint c < 0" using lt c by (simp add: mult_neg_pos)
    have "scast nr * c = (word_of_int (sint nr * uint c) :: u64)"
      unfolding scast_eq wi_hom_mult[symmetric] by simp
    then have "uint (scast nr * c) = uint (word_of_int (sint nr * uint c) :: u64)" by (rule arg_cong)
    also have "\<dots> = (sint nr * uint c) mod 2 ^ 64" unfolding uint_word_of_int by simp
    also have "\<dots> = sint nr * uint c + 2 ^ 64"
      using mod_pos_pos_trivial[of "sint nr * uint c + 2 ^ 64" "2 ^ 64"] neg ge by simp
    finally show ?thesis using ge by (simp add: word_le_def)
  qed
  then show False using vm p by (auto simp: vmalloc_sane_def)
qed

lemma vmalloc_nonneg:
  "vmalloc_sane K \<Longrightarrow> fst (k_vmalloc K (scast nr * sizeof_ptr) k) = p \<Longrightarrow> p \<noteq> 0 \<Longrightarrow> 0 < sint nr" for nr :: u32
  by (rule vmalloc_array_pos[of K nr sizeof_ptr k]) (simp_all add: sizeof_ptr_def)

lemma wp_umem_sgmap:
  fixes s :: "'k sys" and pd h
  defines "p \<equiv> privs s pd" and "nr \<equiv> sgmap_nr_pages (uh_vma h) (uh_size h)"
  assumes s: "holds s H" and vm: "vmalloc_sane K"
    and ok: "\<And>e t q qs m k. uh_size h \<noteq> 0 \<Longrightarrow> fst (k_map_sg K (sg_table (uh_vma h) (uh_size h) q qs) k) = m \<Longrightarrow> fst m \<noteq> 0 \<Longrightarrow>
               int (length (q # qs)) = sint nr \<Longrightarrow>
               ue_id e = umem_count p \<Longrightarrow> ue_pages e = q # qs \<Longrightarrow> ue_nents e = fst m \<Longrightarrow> ue_sg e = snd m \<Longrightarrow>
               same (s\<lparr>privs := (privs s)(pd := p\<lparr>umem_count := umem_count p + 1, umem_list := umem_list p @ [e]\<rparr>)\<rparr>) t \<Longrightarrow>
               holds t (H + umem_res (class_dev p) e) \<Longrightarrow> Q (0, h\<lparr>uh_id := umem_count p\<rparr>) t"
    and empty: "uh_size h = 0 \<Longrightarrow> Q (- EINVAL, h) s"
    and fails: "\<And>t L c. uh_size h \<noteq> 0 \<Longrightarrow> same (s\<lparr>privs := (privs s)(pd := p\<lparr>umem_count := c\<rparr>)\<rparr>) t \<Longrightarrow> holds t (H + L) \<Longrightarrow>
               L = {#} \<or> (\<exists>n. L = {#Kmem n#}) \<Longrightarrow> Q (- ENOMEM, h) t"
  shows "wp (pcidriver_umem_sgmap K pd h) Q s"
proof (cases "uh_size h = 0")
  case True
  then show ?thesis using empty by (simp add: pcidriver_umem_sgmap_def wp_simps)
next
  case False
  have fail0: "Q (- ENOMEM, h) t" if "same s t" "holds t H" for t
    using that by (intro fails[where L = "{#}" and c = "umem_count p"] False) (simp_all add: same_def p_def)
  let ?rest = "\<lambda>ps pp sp. if int (length ps) < sint nr then wp (umem_sgmap_unmap K ps pp sp h) Q
    else wp (case ps of [] \<Rightarrow> fail BufferOverrun
             | q # qs \<Rightarrow> thn (doall (map (lock_page K) ps))
                 (bnd (pci_map_sg K sp (sg_table (uh_vma h) (uh_size h) q qs)) (umem_sgmap_entry K pd h ps pp sp))) Q"
  have pages: "?rest ps pp sp v"
    if v: "same s v" and held: "holds v (page_res ps + (vres pp + vres sp) + H)"
      and nr: "0 < sint nr" "length ps \<le> nat (sint nr)" for v ps pp sp
  proof (cases "int (length ps) < sint nr")
    case True
    then show ?thesis using v held by (auto intro!: wp_sgmap_unmap[where H = H] fail0 simp: same_def)
  next
    case all: False
    then obtain q qs where ps: "ps = q # qs" using nr by (cases ps) auto
    let ?G = "page_res ps + (vres pp + vres sp) + H"
    have entry: "wp (umem_sgmap_entry K pd h ps pp sp m) Q x"
      if "same s x" and m: "fst (k_map_sg K (sg_table (uh_vma h) (uh_size h) q qs) k) = m"
        and "holds x (if fst m = 0 then ?G else add_mset (Sg sp) ?G)" for m x k
    proof -
      have x: "privs x = privs s" "deviceCount x = deviceCount s" "drvdata x = drvdata s" "user x = user s"
        using that(1) by (simp_all add: same_def)
      have len: "int (length (q # qs)) = sint nr" using all nr(2) by (simp add: ps)
      show ?thesis
        apply (rule wp_sgmap_entry[OF that(3) refl]; unfold x)
        subgoal for e t
          unfolding p_def[symmetric] by (rule ok[OF False m]) (simp_all add: x ps same_def len[simplified])
        subgoal for t L c
          unfolding p_def[symmetric] by (rule fails[OF False]) (simp_all add: x same_def)
        done
    qed
    have "wp (doall (map (lock_page K) ps))
       (\<lambda>_. wp (pci_map_sg K sp (sg_table (uh_vma h) (uh_size h) q qs)) (\<lambda>m. wp (umem_sgmap_entry K pd h ps pp sp m) Q)) v"
      unfolding pci_map_sg_def
      by (rule wp_lock_pages[OF held], rule wp_acquire_answer, assumption)
         (rule entry, use v in \<open>simp add: same_def\<close>, assumption, simp)+
    then show ?thesis using all by (simp add: ps wp_simps)
  qed
  show ?thesis
    unfolding pcidriver_umem_sgmap_def Let_def if_not_P[OF False] wp_simps nr_def[symmetric] vmalloc_def
    apply (rule wp_acquire_answer[OF s])
    subgoal for pp t
      apply (frule_tac k = "kst s" in vmalloc_nonneg[OF vm], assumption)
      apply simp
      apply (rule wp_acquire, assumption)
      subgoal for sp u
        apply simp
        apply (rule wp_get_user_pages, assumption)
        subgoal for ps v
          by (rule pages[of v ps pp sp]) (simp_all add: same_def vres_def)
        done
      subgoal for sp u
        by (simp add: wp_simps, rule wp_vfree, assumption, simp add: vres_def, rule fail0) (simp_all add: same_def vres_def)
      done
    subgoal for pp t
      by (simp add: wp_simps fail0)
    done
qed


section \<open>Undoing a mapping\<close>

definition umem_removed :: "u64 \<Rightarrow> pcidriver_umem_entry_t \<Rightarrow> 'k sys \<Rightarrow> 'k sys" where
  "umem_removed pd e s =
     s\<lparr>privs := (privs s)(pd := (privs s pd)\<lparr>umem_list := remove1 e (umem_list (privs s pd))\<rparr>)\<rparr>"

lemma wp_umem_sgunmap:
  assumes s: "holds s (umem_res (class_dev (privs s pd)) e + G)"
    and ok: "\<And>t. same (umem_removed pd e s) t \<Longrightarrow> holds t G \<Longrightarrow> Q 0 t"
  shows "wp (pcidriver_umem_sgunmap K pd e) Q s"
proof -
  let ?k = "kres (ue_ptr e) + vres (ue_pages_ptr e) + vres (ue_sg_ptr e) + G"
  show ?thesis
    unfolding pcidriver_umem_sgunmap_def pci_unmap_sg_def wp_simps
    apply (rule wp_sysfs_remove[OF s])
    subgoal by (simp add: umem_res_def)
    subgoal for t
      apply (rule wp_event_Rel[where H = "add_mset (Sg (ue_sg_ptr e)) (page_res (ue_pages e) + ?k)"])
      subgoal by (simp add: umem_res_def ac_simps)
      subgoal by simp
      subgoal for u
        apply (rule wp_drop_pages[where H = ?k])
        subgoal by simp
        subgoal for v
          apply (rule wp_vfree[where H = ?k], simp, simp)
          apply (rule wp_vfree, assumption, simp)
          apply (rule wp_kfree, assumption, simp)
          by (rule ok) (simp_all add: same_def umem_removed_def)
        subgoal by (rule wp_unmap_page)
        done
      done
    done
qed

definition umem_all :: "pcidriver_privdata_t \<Rightarrow> resource multiset" where
  "umem_all p = sum_list (map (umem_res (class_dev p)) (umem_list p))"

interpretation umap: entry_list umem_list "\<lambda>es p. p\<lparr>umem_list := es\<rparr>" umem_res pcidriver_umem_sgunmap
  by unfold_locales (simp_all, erule wp_umem_sgunmap, simp add: umem_removed_def)

lemma wp_umem_unmap_in:
  assumes "holds s (umem_all (privs s pd) + G)" and "e \<in> set (umem_list (privs s pd))"
    and "\<And>t. same (umem_removed pd e s) t \<Longrightarrow> holds t (umem_all (privs t pd) + G) \<Longrightarrow> Q 0 t"
  shows "wp (pcidriver_umem_sgunmap K pd e) Q s"
  using assms unfolding umem_all_def umem_removed_def by (rule umap.release_in)

lemma wp_umem_sgunmap_all:
  assumes "holds s (umem_all (privs s pd) + G)"
    and "\<And>t. same (s\<lparr>privs := (privs s)(pd := (privs s pd)\<lparr>umem_list := []\<rparr>)\<rparr>) t \<Longrightarrow> holds t G \<Longrightarrow> Q 0 t"
  shows "wp (pcidriver_umem_sgunmap_all K pd) Q s"
  unfolding pcidriver_umem_sgunmap_all_def wp_bnd wp_priv
  using assms unfolding umem_all_def by (rule umap.release_all)

lemma wp_umem_sync:
  assumes s: "holds s H" and Q: "\<And>r t. same s t \<Longrightarrow> holds t H \<Longrightarrow> Q r t"
  shows "wp (pcidriver_umem_sync K pd h) Q s"
proof -
  have ev: "\<And>w d n i P u. same s u \<Longrightarrow> holds u H \<Longrightarrow> (\<And>t. same s t \<Longrightarrow> holds t H \<Longrightarrow> P () t) \<Longrightarrow>
     wp (event K (Sync_sg w d n i)) P u"
    by (rule wp_event_neutral, assumption) (auto simp: neutral_def dest: same_trans)
  show ?thesis
    unfolding pcidriver_umem_sync_def pcidriver_umem_find_entry_id_def wp_simps Let_def
    by (auto simp: wp_simps Q s intro!: ev Q split: option.split)
qed

section \<open>The bytes of a table\<close>

text \<open>The bytes an entry stands for, as pages and offsets.\<close>

definition sg_bytes :: "scatterlist \<Rightarrow> (u64 \<times> nat) list" where
  "sg_bytes e = map (\<lambda>j. (sg_page e, unat (sg_offset e) + j)) [0..<unat (sg_length e)]"

lemma PAGE_SIZE_val: "PAGE_SIZE = 4096"
  by (simp add: PAGE_SIZE_def PAGE_SHIFT_def)

lemma unat_4096: "unat (4096 :: u32) = 4096"
  by simp

lemma NOT_PAGE_MASK: "NOT PAGE_MASK = mask PAGE_SHIFT"
  by (simp add: PAGE_MASK_def PAGE_SIZE_def PAGE_SHIFT_def mask_eq_exp_minus_1)

lemma page_offset: "unat (vma AND NOT PAGE_MASK) = unat vma mod 4096"
  unfolding NOT_PAGE_MASK take_bit_eq_mask[symmetric]
  by (simp add: PAGE_SHIFT_def take_bit_eq_mod unat_mod)

lemma map_upt_split:
  "a \<le> m \<Longrightarrow> map f [0..<m] = map f [0..<a] @ map (\<lambda>x. f (x + a)) [0..<m - a]"
  by (rule nth_equalityI) (auto simp: nth_append)

lemma sg_bytes_set_page: "sg_bytes (sg_set_page p len off) = map (\<lambda>j. (p, unat off + j)) [0..<unat len]"
  by (simp add: sg_bytes_def sg_set_page_def)

lemma page_step: "(x + 4096) div 4096 = Suc (x div 4096)" for x :: nat
  using div_add_self2[of 4096 x] by simp

lemma first_page:
  "m \<le> 4096 - off \<Longrightarrow> map (\<lambda>j. (p, off + j)) [0..<m] =
    map (\<lambda>x. ((p # ps) ! ((off + x) div 4096), (off + x) mod 4096)) [0..<m]"
  by (intro map_cong) (auto simp: nth_Cons')

lemma unat_ucast_u32: "unat (ucast (w :: u32) :: u64) = unat w"
  by (simp add: unsigned_ucast_eq take_bit_nat_eq_self unsigned_less[THEN less_trans])

lemma sg_rest_bytes:
  assumes "unat left \<le> 4096 * length ps"
  shows "concat (map sg_bytes (sg_rest left ps)) = map (\<lambda>x. (ps ! (x div 4096), x mod 4096)) [0..<unat left]"
  using assms
proof (induction ps arbitrary: left)
  case Nil
  then show ?case by simp
next
  case (Cons p ps)
  show ?case
  proof (cases "left > PAGE_SIZE")
    case True
    then have gt: "4096 < unat left" by (simp add: PAGE_SIZE_val word_less_nat_alt)
    have left': "unat (left - 4096) = unat left - 4096" 
      using unat_sub[of 4096 left] gt by (simp add: word_le_nat_alt)
    have "concat (map sg_bytes (sg_rest (left - 4096) ps)) =
        map (\<lambda>x. (ps ! (x div 4096), x mod 4096)) [0..<unat left - 4096]"
      using Cons.IH[of "left - 4096"] Cons.prems left' by simp
    moreover have "sg_rest left (p # ps) = sg_set_page p 4096 0 # sg_rest (left - 4096) ps"
      using True by (simp add: PAGE_SIZE_val sg_set_page_def)
    moreover have "map (\<lambda>j. (p, j)) [0..<4096] = map (\<lambda>x. ((p # ps) ! (x div 4096), x mod 4096)) [0..<4096]"
      using first_page[of 4096 0 p ps] by (simp only: minus_nat.diff_0 order_refl add_0)
    moreover have "map (\<lambda>x. ((p # ps) ! (x div 4096), x mod 4096)) [0..<unat left] =
       map (\<lambda>x. ((p # ps) ! (x div 4096), x mod 4096)) [0..<4096] @
       map (\<lambda>x. (ps ! (x div 4096), x mod 4096)) [0..<unat left - 4096]"
      using gt by (subst map_upt_split[of 4096]) (simp_all only: less_imp_le_nat page_step nth_Cons_Suc mod_add_self2)
    ultimately show ?thesis
      by (simp only: list.map concat.simps sg_bytes_set_page unsigned_0 add_0 unat_4096)
  next
    case False
    then have le: "unat left \<le> 4096" by (simp add: PAGE_SIZE_val word_less_nat_alt)
    have u: "unat (ucast left :: u32) = unat left"
      using le by (simp add: unsigned_ucast_eq take_bit_nat_eq_self)
    then have z: "left - ucast (ucast left :: u32) = 0"
      by (simp add: word_unat_eq_iff[of left] unat_ucast_u32)
    have "concat (map sg_bytes (sg_rest 0 ps)) = []" using Cons.IH[of 0] by simp
    moreover have "sg_rest left (p # ps) = sg_set_page p (ucast left) 0 # sg_rest 0 ps"
      using False z by (simp add: sg_set_page_def)
    moreover have "map (\<lambda>j. (p, 0 + j)) [0..<unat left] = map (\<lambda>x. ((p # ps) ! ((0 + x) div 4096), (0 + x) mod 4096)) [0..<unat left]"
      using le by (intro first_page) simp
    ultimately show ?thesis by (simp only: list.map concat.simps sg_bytes_set_page u unsigned_0 add_0 append_Nil2)
  qed
qed

lemma sg_table_bytes:
  assumes "unat vma mod 4096 + unat n \<le> 4096 * length (q # qs)"
  shows "concat (map sg_bytes (sg_table vma n q qs)) =
    map (\<lambda>x. ((q # qs) ! ((unat vma mod 4096 + x) div 4096), (unat vma mod 4096 + x) mod 4096)) [0..<unat n]"
proof -
  let ?o = "unat vma mod 4096" and ?off = "vma AND NOT PAGE_MASK"
  let ?len = "if n > PAGE_SIZE - ?off then PAGE_SIZE - ?off else n"
  have off: "unat ?off = ?o" "?o < 4096" by (simp_all add: page_offset)
  have left: "unat (PAGE_SIZE - ?off) = 4096 - ?o"
    using off by (subst unat_sub) (simp_all add: PAGE_SIZE_val word_le_nat_alt)
  have len: "unat ?len = min (unat n) (4096 - ?o)"
    using left by (simp add: word_less_nat_alt)
  have u: "unat (ucast ?len :: u32) = min (unat n) (4096 - ?o)" "unat (ucast ?off :: u32) = ?o"
    using len off by (simp_all add: unsigned_ucast_eq take_bit_nat_eq_self)
  have rest: "unat (n - ?len) = unat n - min (unat n) (4096 - ?o)"
    using len by (subst unat_sub) (simp_all add: word_le_nat_alt)
  have r: "concat (map sg_bytes (sg_rest (n - ?len) qs)) =
      map (\<lambda>x. (qs ! (x div 4096), x mod 4096)) [0..<unat n - min (unat n) (4096 - ?o)]"
    using sg_rest_bytes[of "n - ?len" qs] rest assms by simp
  have later: "map (\<lambda>x. (qs ! (x div 4096), x mod 4096)) [0..<unat n - min (unat n) (4096 - ?o)] =
      map (\<lambda>x. ((q # qs) ! ((?o + (x + min (unat n) (4096 - ?o))) div 4096), (?o + (x + min (unat n) (4096 - ?o))) mod 4096))
        [0..<unat n - min (unat n) (4096 - ?o)]"
  proof (intro map_cong refl)
    fix x assume "x \<in> set [0..<unat n - min (unat n) (4096 - ?o)]"
    then have "?o + (x + min (unat n) (4096 - ?o)) = x + 4096" using off(2) by auto
    then show "(qs ! (x div 4096), x mod 4096) =
      ((q # qs) ! ((?o + (x + min (unat n) (4096 - ?o))) div 4096), (?o + (x + min (unat n) (4096 - ?o))) mod 4096)"
      by (simp only: page_step nth_Cons_Suc mod_add_self2)
  qed
  show ?thesis
    unfolding sg_table_def Let_def list.map concat.simps r
    unfolding map_upt_split[of "min (unat n) (4096 - ?o)" "unat n", OF min.cobounded1]
    by (simp only: sg_bytes_set_page u later first_page[of "min (unat n) (4096 - ?o)" ?o q qs, OF min.cobounded2])
qed


text \<open>The number of pages, as long as it fits.\<close>

lemma signed_take_bit_nat: "n < 2 ^ 31 \<Longrightarrow> signed_take_bit 31 (int n) = int n"
  by (intro signed_take_bit_int_eq_self) simp_all

lemma sint_small: "unat w < 2 ^ 31 \<Longrightarrow> sint w = int (unat w)" for w :: u32
  using signed_take_bit_nat[of "unat w"] by (simp only: sint_uint uint_nat) simp

lemma sgmap_nr_pages_exact:
  assumes "unat vma mod 4096 + unat n + 4095 < 2 ^ 43"
  shows "sint (sgmap_nr_pages vma n) = int ((unat vma mod 4096 + unat n + 4095) div 4096)"
proof -
  let ?w = "(vma AND NOT PAGE_MASK) + n + NOT PAGE_MASK" and ?m = "unat vma mod 4096 + unat n + 4095"
  have "unat (NOT PAGE_MASK) = 4095" by (simp add: PAGE_MASK_def PAGE_SIZE_val)
  then have "unat ?w = ?m" using assms by (simp add: unat_add_lt page_offset)
  then have "unat (drop_bit PAGE_SHIFT ?w) = ?m div 4096"
    by (simp add: unat_drop_bit PAGE_SHIFT_def)
  moreover have lt: "?m div 4096 < 2 ^ 31" using assms by simp
  ultimately have u: "unat (sgmap_nr_pages vma n) = ?m div 4096"
    unfolding sgmap_nr_pages_def by (simp add: unsigned_ucast_eq take_bit_nat_eq_self)
  then show ?thesis using lt by (simp add: sint_small)
qed

section \<open>The table as user space gets it\<close>

definition dma_bytes :: "scatterlist \<Rightarrow> u64 list" where
  "dma_bytes e = map (\<lambda>j. sg_dma_address e + of_nat j) [0..<unat (sg_dma_len e)]"

definition sge_bytes :: "umem_sgentry_t \<Rightarrow> u64 list" where
  "sge_bytes e = map (\<lambda>j. sge_addr e + of_nat j) [0..<unat (sge_size e)]"

text \<open>No entry starts where the one before it ends.\<close>

definition unmerged :: "umem_sgentry_t list \<Rightarrow> bool" where
  "unmerged es \<longleftrightarrow> (\<forall>i. Suc i < length es \<longrightarrow> sge_addr (es ! Suc i) \<noteq> sge_addr (es ! i) + sge_size (es ! i))"

lemma sge_bytes_entry: "sge_bytes \<lparr>sge_addr = sg_dma_address e, sge_size = ucast (sg_dma_len e)\<rparr> = dma_bytes e"
  by (simp add: sge_bytes_def dma_bytes_def unat_ucast_u32)

lemma sge_bytes_grow:
  assumes "unat (sge_size c) + unat (sg_dma_len e) < 2 ^ 64" and "sg_dma_address e = sge_addr c + sge_size c"
  shows "sge_bytes (c\<lparr>sge_size := sge_size c + ucast (sg_dma_len e)\<rparr>) = sge_bytes c @ dma_bytes e"
proof -
  have "unat (sge_size c + ucast (sg_dma_len e)) = unat (sge_size c) + unat (sg_dma_len e)"
    using assms(1) by (simp add: unat_add_lt unat_ucast_u32)
  then show ?thesis
    using assms(2) map_upt_split[of "unat (sge_size c)" "unat (sge_size c) + unat (sg_dma_len e)" "\<lambda>j. sge_addr c + of_nat j"]
    by (simp add: sge_bytes_def dma_bytes_def ac_simps)
qed


lemma take_next: "i < length xs \<Longrightarrow> take (Suc i) xs = take i xs @ [xs ! i]"
  by (rule take_Suc_conv_app_nth)

lemma unmerged_snoc:
  "unmerged (xs @ [x, y]) \<longleftrightarrow> unmerged (xs @ [x]) \<and> sge_addr y \<noteq> sge_addr x + sge_size x"
  unfolding unmerged_def
  by (auto simp: nth_append less_Suc_eq split: if_splits)

lemma sgget_merge_spec:
  assumes "idx + length es < length out" and "unat (sge_size (out ! idx)) + 2 ^ 32 * length es < 2 ^ 64"
    and "2 ^ 32 * Suc (length es) < 2 ^ 64" and "unmerged (take (Suc idx) out)"
  shows "\<exists>out' idx'. sgget_merge out idx es = Some (out', idx') \<and> length out' = length out \<and>
    idx' \<le> idx + length es \<and> unmerged (take (Suc idx') out') \<and>
    concat (map sge_bytes (take (Suc idx') out')) = concat (map sge_bytes (take (Suc idx) out)) @ concat (map dma_bytes es)"
  using assms
proof (induction es arbitrary: out idx)
  case Nil
  then show ?case by simp
next
  case (Cons e es)
  have idx: "idx < length out" "Suc idx < length out" using Cons.prems(1) by simp_all
  have e32: "unat (sg_dma_len e) < 2 ^ 32" using unsigned_less[of "sg_dma_len e"] by simp
  consider (next_to) "sg_dma_address e = sge_addr (out ! idx) + sge_size (out ! idx)"
    | (empty) "sg_dma_address e \<noteq> sge_addr (out ! idx) + sge_size (out ! idx)" "sg_dma_len e = 0"
    | (apart) "sg_dma_address e \<noteq> sge_addr (out ! idx) + sge_size (out ! idx)" "sg_dma_len e \<noteq> 0" by blast
  then show ?case
  proof cases
    case next_to
    let ?c = "(out ! idx)\<lparr>sge_size := sge_size (out ! idx) + ucast (sg_dma_len e)\<rparr>"
    have u: "unat (sge_size ?c) = unat (sge_size (out ! idx)) + unat (sg_dma_len e)"
      using Cons.prems(2) e32 by (simp add: unat_add_lt unat_ucast_u32)
    have m: "unmerged (take (Suc idx) (out[idx := ?c]))"
      using Cons.prems(4) idx unfolding unmerged_def by (auto simp: nth_list_update)
    obtain out' idx' where r: "sgget_merge (out[idx := ?c]) idx es = Some (out', idx')" "length out' = length out"
      "idx' \<le> idx + length es" "unmerged (take (Suc idx') out')"
      "concat (map sge_bytes (take (Suc idx') out')) =
         concat (map sge_bytes (take (Suc idx) (out[idx := ?c]))) @ concat (map dma_bytes es)"
      using Cons.IH[of idx "out[idx := ?c]"] Cons.prems(1-3) u e32 m idx(1) by auto
    have "concat (map sge_bytes (take (Suc idx) (out[idx := ?c]))) =
        concat (map sge_bytes (take (Suc idx) out)) @ dma_bytes e"
      using idx(1) sge_bytes_grow[OF _ next_to] Cons.prems(2) e32 by (simp add: take_next)
    then show ?thesis using r idx next_to by (auto simp: Let_def)
  next
    case empty
    then have "dma_bytes e = []" by (simp add: dma_bytes_def)
    then show ?thesis using Cons.IH[of idx out] Cons.prems idx empty by auto
  next
    case apart
    let ?n = "\<lparr>sge_addr = sg_dma_address e, sge_size = ucast (sg_dma_len e)\<rparr>"
    have t: "take (Suc (Suc idx)) (out[Suc idx := ?n]) = take idx out @ [out ! idx, ?n]"
      using idx by (simp add: take_next take_update_cancel)
    have m: "unmerged (take (Suc (Suc idx)) (out[Suc idx := ?n]))"
      unfolding t unmerged_snoc using Cons.prems(4) idx(1) apart(1) by (simp add: take_next)
    have b: "unat (sge_size ?n) + 2 ^ 32 * length es < 2 ^ 64"
      using Cons.prems(3) e32 by (simp add: unat_ucast_u32)
    obtain out' idx' where r: "sgget_merge (out[Suc idx := ?n]) (Suc idx) es = Some (out', idx')" "length out' = length out"
      "idx' \<le> Suc idx + length es" "unmerged (take (Suc idx') out')"
      "concat (map sge_bytes (take (Suc idx') out')) =
         concat (map sge_bytes (take (Suc (Suc idx)) (out[Suc idx := ?n]))) @ concat (map dma_bytes es)"
      using Cons.IH[of "Suc idx" "out[Suc idx := ?n]"] Cons.prems(1,3) b m idx by auto
    have "concat (map sge_bytes (take (Suc (Suc idx)) (out[Suc idx := ?n]))) =
        concat (map sge_bytes (take (Suc idx) out)) @ dma_bytes e"
      unfolding t using idx(1) by (simp add: take_next sge_bytes_entry)
    then show ?thesis using r idx apart by (auto simp: Let_def)
  qed
qed


lemma sgget_merged_spec:
  assumes "sg \<noteq> []" and "length sg \<le> length out" and "length sg < 2 ^ 32"
  shows "\<exists>out' n. sgget_merged out sg = Some (out', n) \<and> length out' = length out \<and> unat n \<le> length sg \<and>
    concat (map sge_bytes (take (unat n) out')) = concat (map dma_bytes sg) \<and> unmerged (take (unat n) out')"
proof -
  obtain e es where sg: "sg = e # es" using assms(1) by (cases sg) auto
  let ?c = "\<lparr>sge_addr = sg_dma_address e, sge_size = ucast (sg_dma_len e)\<rparr>"
  have ne: "out \<noteq> []" and len: "length es < length out" "length es < 2 ^ 32 - 1" using assms(2,3) sg by auto
  have "unat (sg_dma_len e) < 2 ^ 32" using unsigned_less[of "sg_dma_len e"] by simp
  then obtain out' i where r: "sgget_merge (out[0 := ?c]) 0 es = Some (out', i)" "length out' = length out"
    "i \<le> length es" "unmerged (take (Suc i) out')"
    "concat (map sge_bytes (take (Suc i) out')) = concat (map sge_bytes (take (Suc 0) (out[0 := ?c]))) @ concat (map dma_bytes es)"
    using sgget_merge_spec[of 0 es "out[0 := ?c]"] len ne by (auto simp: unat_ucast_u32 unmerged_def)
  have n: "unat (of_nat i + 1 :: u32) = Suc i"
  proof -
    have "unat (of_nat (Suc i) :: u32) = Suc i" using r(3) len(2) by (intro unat_of_nat_small) simp
    then show ?thesis by (simp only: of_nat_Suc add.commute)
  qed
  have first: "concat (map sge_bytes (take (Suc i) out')) = concat (map dma_bytes sg)"
    using r(5) ne by (cases out) (simp_all add: sg sge_bytes_entry)
  have "sgget_merged out sg = Some (out', of_nat i + 1)" using r(1) ne by (simp add: sgget_merged_def sg)
  then show ?thesis using r(2-4) n first sg by (intro exI[of _ out'] exI[of _ "of_nat i + 1"]) (simp only: n, simp)
qed

lemma sgget_copy_spec:
  assumes "i + length es \<le> length out"
  shows "sgget_copy out i es = Some (take i out @
     map (\<lambda>e. \<lparr>sge_addr = sg_dma_address e, sge_size = ucast (sg_dma_len e)\<rparr>) es @ drop (i + length es) out)"
  using assms
proof (induction es arbitrary: out i)
  case Nil
  then show ?case by simp
next
  case (Cons e es)
  have "take (Suc i) (out[i := x]) = take i out @ [x]" for x
    using Cons.prems by (simp add: take_next)
  then show ?case using Cons.IH[of "Suc i"] Cons.prems by simp
qed

lemma sgget_plain_spec:
  assumes "0 < nents" and "length sg = unat nents" and "length sg \<le> length out"
  shows "\<exists>out' n. sgget_plain out nents sg = Some (out', n) \<and> length out' = length out \<and> unat n \<le> length sg \<and>
    concat (map sge_bytes (take (unat n) out')) = concat (map dma_bytes sg)"
proof -
  let ?f = "\<lambda>e. \<lparr>sge_addr = sg_dma_address e, sge_size = ucast (sg_dma_len e)\<rparr>"
  let ?out = "map ?f sg @ drop (length sg) out"
  have pos: "0 < unat nents" using assms(1) by (simp add: word_less_nat_alt)
  have n1: "unat (nents - 1) = unat nents - 1" using unat_sub[of 1 nents] pos by (simp add: word_le_nat_alt)
  then have i: "unat (nents - 1) < length sg" using pos assms(2) by simp
  have copy: "sgget_copy out 0 sg = Some ?out" using sgget_copy_spec[of 0 sg out] assms(3) by simp
  have all: "concat (map sge_bytes (map ?f xs)) = concat (map dma_bytes xs)" for xs
    by (simp add: comp_def sge_bytes_entry)
  have t: "take m ?out = map ?f (take m sg)" if "m \<le> length sg" for m
    using that by (simp add: take_map)
  show ?thesis
  proof (cases "sge_size (?out ! unat (nents - 1)) = 0")
    case True
    have snoc: "sg = take (unat (nents - 1)) sg @ [sg ! unat (nents - 1)]"
      using i n1 assms(2) take_next[OF i] pos by simp
    have "sge_bytes (?f (sg ! unat (nents - 1))) = []" using True i by (simp add: nth_append sge_bytes_def)
    then have "concat (map dma_bytes sg) = concat (map dma_bytes (take (unat (nents - 1)) sg))"
      by (subst snoc) (simp add: sge_bytes_entry)
    then show ?thesis using True copy i assms(3) t[of "unat (nents - 1)"] all
      by (auto simp: sgget_plain_def n1)
  next
    case False
    then show ?thesis using copy i assms(2,3) t[of "unat nents"] all by (auto simp: sgget_plain_def)
  qed
qed


text \<open>Reading the table of a mapping, in both forms.\<close>

lemma wp_umem_sgget:
  assumes "find (\<lambda>e. ue_id e = sgl_id l) (umem_list (privs s pd)) = Some e"
    and "0 < ue_nents e" and "unat (ue_nents e) \<le> length (ue_sg e)" and "length out = unat (sgl_nents l)"
  shows "wp (pcidriver_umem_sgget pd l out) (\<lambda>(r, out', n) t. t = s \<and>
     (if sgl_nents l < ue_nents e then r = - EINVAL \<and> out' = out
      else r = 0 \<and> length out' = length out \<and> unat n \<le> unat (ue_nents e) \<and>
        concat (map sge_bytes (take (unat n) out')) = concat (map dma_bytes (take (unat (ue_nents e)) (ue_sg e))) \<and>
        (sgl_type l = PCIDRIVER_SG_MERGED \<longrightarrow> unmerged (take (unat n) out')))) s"
proof -
  let ?sg = "take (unat (ue_nents e)) (ue_sg e)"
  have sg: "length ?sg = unat (ue_nents e)" "?sg \<noteq> []" "length ?sg < 2 ^ 32"
    using assms(2,3) unsigned_less[of "ue_nents e"] by (auto simp: word_less_nat_alt)
  have fits: "length ?sg \<le> length out" if "\<not> sgl_nents l < ue_nents e"
    using that assms(3,4) by (simp add: word_less_nat_alt)
  have null: "\<not> length (ue_sg e) < unat (ue_nents e)" using assms(3) by simp
  show ?thesis
    using fits sgget_merged_spec[OF sg(2) _ sg(3), of out] sgget_plain_spec[OF assms(2) sg(1), of out] sg(1)
    unfolding pcidriver_umem_sgget_def pcidriver_umem_find_entry_id_def wp_simps assms(1) option.case Let_def if_not_P[OF null]
    by (auto simp: wp_simps)
qed


section \<open>Correctness\<close>

lemma vmalloc_sane_kern0: "vmalloc_sane kern0"
  by (simp add: vmalloc_sane_def kern0_def)

lemma pages_cover: "m \<le> 4096 * ((m + 4095) div 4096)" for m :: nat
  using div_mult_mod_eq[of "m + 4095" 4096] mod_less_divisor[of 4096 "m + 4095"] by linarith

text \<open>
  C13 (functional). A mapping of a user buffer that ends less than $2^{43} - 4095$ bytes after the start of its first
  page, so that the \<^verbatim>\<open>int\<close> number of pages counts its pages exactly (for a longer one the count is truncated),
  either succeeds, and then the table given to \<^verbatim>\<open>pci_map_sg\<close> covers the bytes of the buffer, all of
  them, once and in order, with as few pages as possible, and everything the new entry stands for is
  held; or the size is 0 and nothing happens; or it fails with \<^verbatim>\<open>-ENOMEM\<close>, and then every page, table
  and mapping has been given back, but for the name of a file.
\<close>

theorem sgmap_outcome:
  assumes "holds s H" and "vmalloc_sane K" and "unat (uh_vma h) mod 4096 + unat (uh_size h) + 4095 < 2 ^ 43"
  shows "wp (pcidriver_umem_sgmap K pd h) (\<lambda>(r, h') t.
     let dev = class_dev (privs s pd); es = umem_list (privs s pd); off = unat (uh_vma h) mod 4096 in
       (r = 0 \<and> (\<exists>e sg k. umem_list (privs t pd) = es @ [e] \<and> h' = h\<lparr>uh_id := ue_id e\<rparr> \<and>
            ue_id e = umem_count (privs s pd) \<and> holds t (H + umem_res dev e) \<and>
            length (ue_pages e) = (off + unat (uh_size h) + 4095) div 4096 \<and>
            fst (k_map_sg K sg k) = (ue_nents e, ue_sg e) \<and> ue_nents e \<noteq> 0 \<and>
            concat (map sg_bytes sg) =
              map (\<lambda>x. (ue_pages e ! ((off + x) div 4096), (off + x) mod 4096)) [0..<unat (uh_size h)]))
     \<or> (r = - EINVAL \<and> uh_size h = 0 \<and> t = s)
     \<or> (r = - ENOMEM \<and> umem_list (privs t pd) = es \<and> (holds t H \<or> (\<exists>n. holds t (H + {#Kmem n#}))))) s"
proof (rule wp_umem_sgmap[OF assms(1,2)], goal_cases)
  case (1 e t q qs m k)
  let ?n = "(unat (uh_vma h) mod 4096 + unat (uh_size h) + 4095) div 4096"
  have len: "length (q # qs) = ?n" using 1(4) sgmap_nr_pages_exact[OF assms(3)] by simp
  have "concat (map sg_bytes (sg_table (uh_vma h) (uh_size h) q qs)) = map (\<lambda>x. ((q # qs) !
      ((unat (uh_vma h) mod 4096 + x) div 4096), (unat (uh_vma h) mod 4096 + x) mod 4096)) [0..<unat (uh_size h)]"
    by (rule sg_table_bytes) (unfold len, rule pages_cover)
  then show ?case using 1 len
    by (auto simp: same_def Let_def intro!: exI[of _ "sg_table (uh_vma h) (uh_size h) q qs"] exI[of _ k])
qed (auto simp: same_def)

theorem sgmap_outcome_witness:
  "holds sys0 {#} \<and> vmalloc_sane kern0 \<and>
   wp (pcidriver_umem_sgmap kern0 7 (u_umem user0 0)) (\<lambda>(r, h') t.
     let dev = class_dev (privs sys0 7); es = umem_list (privs sys0 7); off = unat (uh_vma (u_umem user0 0)) mod 4096 in
       (r = 0 \<and> (\<exists>e sg k. umem_list (privs t 7) = es @ [e] \<and> h' = (u_umem user0 0)\<lparr>uh_id := ue_id e\<rparr> \<and>
            ue_id e = umem_count (privs sys0 7) \<and> holds t ({#} + umem_res dev e) \<and>
            length (ue_pages e) = (off + unat (uh_size (u_umem user0 0)) + 4095) div 4096 \<and>
            fst (k_map_sg kern0 sg k) = (ue_nents e, ue_sg e) \<and> ue_nents e \<noteq> 0 \<and>
            concat (map sg_bytes sg) =
              map (\<lambda>x. (ue_pages e ! ((off + x) div 4096), (off + x) mod 4096)) [0..<unat (uh_size (u_umem user0 0))]))
     \<or> (r = - EINVAL \<and> uh_size (u_umem user0 0) = 0 \<and> t = sys0)
     \<or> (r = - ENOMEM \<and> umem_list (privs t 7) = es \<and> (holds t {#} \<or> (\<exists>n. holds t ({#} + {#Kmem n#}))))) sys0"
  using sgmap_outcome[OF holds_sys0 vmalloc_sane_kern0, where pd = 7 and h = "u_umem user0 0"]
    holds_sys0 vmalloc_sane_kern0 by (simp add: user0_def)

text \<open>A mapping of three entries, the first two of which follow each other on the bus.\<close>

definition entry0 :: pcidriver_umem_entry_t where
  "entry0 = \<lparr>ue_ptr = 1, ue_id = 0, ue_pages = [1, 2, 9], ue_pages_ptr = 2, ue_nents = 3,
     ue_sg = [\<lparr>sg_page = 1, sg_length = 4000, sg_offset = 96, sg_dma_address = 4192, sg_dma_len = 4000\<rparr>,
              \<lparr>sg_page = 2, sg_length = 4096, sg_offset = 0, sg_dma_address = 8192, sg_dma_len = 4096\<rparr>,
              \<lparr>sg_page = 9, sg_length = 8, sg_offset = 0, sg_dma_address = 36864, sg_dma_len = 8\<rparr>],
     ue_sg_ptr = 3, ue_attr = \<lparr>attr_name = ''umem0'', attr_ptr = 4\<rparr>\<rparr>"

definition sys1 :: "u64 sys" where
  "sys1 = sys0\<lparr>privs := \<lambda>_. priv0\<lparr>umem_list := [entry0], umem_count := 1\<rparr>\<rparr>"

text \<open>
  C16 (equivalence). The table user space reads stands for the same bus addresses in the same order as
  the table of the driver, whether entries that follow each other are merged or copied one by one; it
  fits into the array of the caller, is refused when the array is too small for the driver's table, and a
  merged table has no two entries that could still be merged.
\<close>

theorem sgget_same_bytes:
  assumes "find (\<lambda>e. ue_id e = sgl_id l) (umem_list (privs s pd)) = Some e"
    and "0 < ue_nents e" and "unat (ue_nents e) \<le> length (ue_sg e)" and "length out = unat (sgl_nents l)"
  shows "wp (pcidriver_umem_sgget pd l out) (\<lambda>(r, out', n) t. t = s \<and>
     (if sgl_nents l < ue_nents e then r = - EINVAL \<and> out' = out
      else r = 0 \<and> length out' = length out \<and> unat n \<le> unat (ue_nents e) \<and>
        concat (map sge_bytes (take (unat n) out')) = concat (map dma_bytes (take (unat (ue_nents e)) (ue_sg e))) \<and>
        (sgl_type l = PCIDRIVER_SG_MERGED \<longrightarrow> unmerged (take (unat n) out')))) s"
  by (rule wp_umem_sgget[OF assms])

theorem sgget_same_bytes_witness:
  "find (\<lambda>e. ue_id e = sgl_id (u_sglist user0 0)) (umem_list (privs sys1 7)) = Some entry0 \<and> 0 < ue_nents entry0 \<and>
   unat (ue_nents entry0) \<le> length (ue_sg entry0) \<and>
   length (replicate 3 (u_sgentry user0 0)) = unat (sgl_nents (u_sglist user0 0)) \<and>
   wp (pcidriver_umem_sgget 7 (u_sglist user0 0) (replicate 3 (u_sgentry user0 0))) (\<lambda>(r, out', n) t. t = sys1 \<and>
     (if sgl_nents (u_sglist user0 0) < ue_nents entry0 then r = - EINVAL \<and> out' = replicate 3 (u_sgentry user0 0)
      else r = 0 \<and> length out' = length (replicate 3 (u_sgentry user0 0)) \<and> unat n \<le> unat (ue_nents entry0) \<and>
        concat (map sge_bytes (take (unat n) out')) =
          concat (map dma_bytes (take (unat (ue_nents entry0)) (ue_sg entry0))) \<and>
        (sgl_type (u_sglist user0 0) = PCIDRIVER_SG_MERGED \<longrightarrow> unmerged (take (unat n) out')))) sys1"
proof -
  have h: "find (\<lambda>e. ue_id e = sgl_id (u_sglist user0 0)) (umem_list (privs sys1 7)) = Some entry0"
      "0 < ue_nents entry0" "unat (ue_nents entry0) \<le> length (ue_sg entry0)"
      "length (replicate 3 (u_sgentry user0 0)) = unat (sgl_nents (u_sglist user0 0))"
    by (simp_all add: user0_def sys1_def sys0_def entry0_def)
  show ?thesis using h sgget_same_bytes[OF h] by blast
qed

end
