(* ===== verification/Pcie_Ioctl.thy ===== *)
theory Pcie_Ioctl
  imports Pcie_Umem
begin

text \<open>
  The entry points of the PCIe driver once a device is there: interrupts (\<^verbatim>\<open>int.c\<close>), \<^verbatim>\<open>ioctl\<close> (\<^verbatim>\<open>ioctl.c\<close>), the
  files in sysfs (\<^verbatim>\<open>sysfs.c\<close>) and \<^verbatim>\<open>mmap\<close> (\<^verbatim>\<open>base.c\<close>).
\<close>

section \<open>Interrupts\<close>

definition ABB_INT_ENABLE :: nat where "ABB_INT_ENABLE = 4"
definition ABB_INT_STAT :: nat where "ABB_INT_STAT = 2"
definition ABB_IG_CTRL :: nat where "ABB_IG_CTRL = 32"
definition ABB_IG_ACK :: u32 where "ABB_IG_ACK = 0xF0"
definition ABB_INT_IG :: u32 where "ABB_INT_IG = push_bit 2 1"

datatype irqreturn_t = IRQ_NONE | IRQ_HANDLED

text \<open>
  The acknowledgement of one channel, which nothing calls, and the function that would call it, all of
  whose statements but the last are commented out.
\<close>

definition check_acknowlegde_channel :: "'k kern \<Rightarrow> u64 \<Rightarrow> u32 \<Rightarrow> nat \<Rightarrow> ('k sys, bool) prog" where
  "check_acknowlegde_channel K pd interrupt channel =
     bnd (call (k_mmio_read K ABB_INT_STAT)) (\<lambda>st.
     if st AND interrupt = 0 then ret False
     else bnd (call (k_mmio_read K ABB_INT_ENABLE)) (\<lambda>en.
       thn (event K (Mmio_write ABB_INT_ENABLE (en AND (if interrupt = 0 then 1 else 0))))
      (thn (if interrupt = ABB_INT_IG then event K (Mmio_write ABB_IG_CTRL ABB_IG_ACK) else ret ())
      (thn (set_priv pd (\<lambda>p. p\<lparr>irq_outstanding := (irq_outstanding p)(channel := irq_outstanding p channel + 1)\<rparr>))
      (thn (event K (Wake_up channel)) (ret True))))))"

definition pcidriver_irq_acknowledge :: "u64 \<Rightarrow> ('k sys, bool) prog" where
  "pcidriver_irq_acknowledge pd = ret False"

definition pcidriver_irq_handler :: "u64 \<Rightarrow> ('k sys, irqreturn_t) prog" where
  "pcidriver_irq_handler pd =
     bnd (pcidriver_irq_acknowledge pd) (\<lambda>b.
     if \<not> b then ret IRQ_NONE
     else thn (set_priv pd (\<lambda>p. p\<lparr>irq_count := irq_count p + 1\<rparr>)) (ret IRQ_HANDLED))"

section \<open>ioctl\<close>

text \<open>\<^verbatim>\<open>READ_FROM_USER\<close> and \<^verbatim>\<open>WRITE_TO_USER\<close>, with the size of the structure.\<close>

definition READ_FROM_USER ::
  "'k kern \<Rightarrow> (user_mem \<Rightarrow> u64 \<Rightarrow> 'a) \<Rightarrow> u64 \<Rightarrow> u64 \<Rightarrow> ('a \<Rightarrow> ('k sys, int) prog) \<Rightarrow> ('k sys, int) prog" where
  "READ_FROM_USER K get n arg f =
     bnd (copy_from_user K get arg n) (\<lambda>v. case v of None \<Rightarrow> ret (- EFAULT) | Some a \<Rightarrow> f a)"

definition WRITE_TO_USER ::
  "'k kern \<Rightarrow> (user_mem \<Rightarrow> user_mem) \<Rightarrow> u64 \<Rightarrow> u64 \<Rightarrow> ('k sys, int) prog \<Rightarrow> ('k sys, int) prog" where
  "WRITE_TO_USER K put n arg f =
     bnd (copy_to_user K put arg n) (\<lambda>ok. if \<not> ok then ret (- EFAULT) else f)"

definition sizeof_kmem_handle :: u64 where "sizeof_kmem_handle = 24"
definition sizeof_kmem_sync :: u64 where "sizeof_kmem_sync = 32"
definition sizeof_umem_handle :: u64 where "sizeof_umem_handle = 24"
definition sizeof_umem_sglist :: u64 where "sizeof_umem_sglist = 24"
definition sizeof_umem_sgentry :: u64 where "sizeof_umem_sgentry = 16"
definition sizeof_pci_cfg_cmd :: u64 where "sizeof_pci_cfg_cmd = 12"
definition sizeof_pci_board_info :: u64 where "sizeof_pci_board_info = 112"

definition ioctl_mmap_mode :: "u64 \<Rightarrow> u64 \<Rightarrow> ('k sys, int) prog" where
  "ioctl_mmap_mode pd arg =
     (if arg \<noteq> PCIDRIVER_MMAP_PCI \<and> arg \<noteq> PCIDRIVER_MMAP_KMEM then ret (- EINVAL)
      else thn (set_priv pd (\<lambda>p. p\<lparr>mmap_mode := arg\<rparr>)) (ret 0))"

definition ioctl_mmap_area :: "u64 \<Rightarrow> u64 \<Rightarrow> ('k sys, int) prog" where
  "ioctl_mmap_area pd arg =
     (if arg < PCIDRIVER_BAR0 \<or> arg > PCIDRIVER_BAR5 then ret (- EINVAL)
      else thn (set_priv pd (\<lambda>p. p\<lparr>mmap_area := arg\<rparr>)) (ret 0))"

text \<open>
  The member of the union that an access of one, two or four bytes uses; on a little-endian machine it is
  the low end of the double word.
\<close>

definition cfg_bytes :: "int \<Rightarrow> nat option" where
  "cfg_bytes sz =
     (if sz = PCIDRIVER_PCI_CFG_SZ_BYTE then Some 1
      else if sz = PCIDRIVER_PCI_CFG_SZ_WORD then Some 2
      else if sz = PCIDRIVER_PCI_CFG_SZ_DWORD then Some 4 else None)"

definition PCIDRIVER_IOC :: "u32 \<Rightarrow> u32 \<Rightarrow> u32 \<Rightarrow> u32" where
  "PCIDRIVER_IOC dir sz nr = push_bit 30 dir OR push_bit 16 sz OR push_bit 8 0x70 OR (0xB0 + nr)"

definition PCIDRIVER_IOC_MMAP_MODE :: u32 where "PCIDRIVER_IOC_MMAP_MODE = PCIDRIVER_IOC 0 0 0"
definition PCIDRIVER_IOC_MMAP_AREA :: u32 where "PCIDRIVER_IOC_MMAP_AREA = PCIDRIVER_IOC 0 0 1"
definition PCIDRIVER_IOC_KMEM_ALLOC :: u32 where "PCIDRIVER_IOC_KMEM_ALLOC = PCIDRIVER_IOC 3 8 2"
definition PCIDRIVER_IOC_KMEM_FREE :: u32 where "PCIDRIVER_IOC_KMEM_FREE = PCIDRIVER_IOC 1 8 3"
definition PCIDRIVER_IOC_KMEM_SYNC :: u32 where "PCIDRIVER_IOC_KMEM_SYNC = PCIDRIVER_IOC 1 8 4"
definition PCIDRIVER_IOC_UMEM_SGMAP :: u32 where "PCIDRIVER_IOC_UMEM_SGMAP = PCIDRIVER_IOC 3 8 5"
definition PCIDRIVER_IOC_UMEM_SGUNMAP :: u32 where "PCIDRIVER_IOC_UMEM_SGUNMAP = PCIDRIVER_IOC 1 8 6"
definition PCIDRIVER_IOC_UMEM_SGGET :: u32 where "PCIDRIVER_IOC_UMEM_SGGET = PCIDRIVER_IOC 3 8 7"
definition PCIDRIVER_IOC_UMEM_SYNC :: u32 where "PCIDRIVER_IOC_UMEM_SYNC = PCIDRIVER_IOC 1 8 8"
definition PCIDRIVER_IOC_WAITI :: u32 where "PCIDRIVER_IOC_WAITI = PCIDRIVER_IOC 0 0 9"
definition PCIDRIVER_IOC_PCI_CFG_RD :: u32 where "PCIDRIVER_IOC_PCI_CFG_RD = PCIDRIVER_IOC 3 8 10"
definition PCIDRIVER_IOC_PCI_CFG_WR :: u32 where "PCIDRIVER_IOC_PCI_CFG_WR = PCIDRIVER_IOC 3 8 11"
definition PCIDRIVER_IOC_PCI_INFO :: u32 where "PCIDRIVER_IOC_PCI_INFO = PCIDRIVER_IOC 3 8 12"
definition PCIDRIVER_IOC_CLEAR_IOQ :: u32 where "PCIDRIVER_IOC_CLEAR_IOQ = PCIDRIVER_IOC 0 0 13"

text \<open>The results of the accesses to config space are overwritten before anybody looks at them.\<close>

definition ioctl_pci_config_read_write :: "'k kern \<Rightarrow> u32 \<Rightarrow> u64 \<Rightarrow> ('k sys, int) prog" where
  "ioctl_pci_config_read_write K cmd arg =
     READ_FROM_USER K u_cfg sizeof_pci_cfg_cmd arg (\<lambda>c.
     case cfg_bytes (cfg_size c) of
       None \<Rightarrow> ret (- EINVAL)
     | Some n \<Rightarrow>
         let write_back = (\<lambda>c. WRITE_TO_USER K (\<lambda>u. u\<lparr>u_cfg := (u_cfg u)(arg := c)\<rparr>) sizeof_pci_cfg_cmd arg (ret 0)) in
         if cmd = PCIDRIVER_IOC_PCI_CFG_RD then
           bnd (call (k_config_read K n (cfg_addr c))) (\<lambda>rv.
             write_back (c\<lparr>cfg_val := (cfg_val c AND NOT (mask (8 * n))) OR (snd rv AND mask (8 * n))\<rparr>))
         else
           bnd (call (k_config_write K n (cfg_addr c) (cfg_val c AND mask (8 * n)))) (\<lambda>_. write_back c))"

definition PCI_INTERRUPT_LINE :: u32 where "PCI_INTERRUPT_LINE = 0x3c"
definition PCI_INTERRUPT_PIN :: u32 where "PCI_INTERRUPT_PIN = 0x3d"

definition ioctl_pci_info :: "'k kern \<Rightarrow> u64 \<Rightarrow> ('k sys, int) prog" where
  "ioctl_pci_info K arg =
     READ_FROM_USER K u_info sizeof_pci_board_info arg (\<lambda>i.
     bnd (call (k_config_read K 1 PCI_INTERRUPT_PIN)) (\<lambda>pin.
     if fst pin \<noteq> 0 then ret (fst pin)
     else bnd (call (k_config_read K 1 PCI_INTERRUPT_LINE)) (\<lambda>line.
     if fst line \<noteq> 0 then ret (fst line)
     else
       let i' = i\<lparr>info_vendor_id := k_vendor K, info_device_id := k_device K, info_bus := k_bus K,
                  info_slot := drop_bit 3 (k_devfn K) AND 0x1f, info_devfn := k_devfn K,
                  interrupt_pin := ucast (snd pin), interrupt_line := ucast (snd line),
                  bar_start := map (k_resource_start K) [0..<6], bar_length := map (k_resource_len K) [0..<6]\<rparr>
       in WRITE_TO_USER K (\<lambda>u. u\<lparr>u_info := (u_info u)(arg := i')\<rparr>) sizeof_pci_board_info arg (ret 0))))"

definition ioctl_kmem_alloc :: "'k kern \<Rightarrow> u64 \<Rightarrow> u64 \<Rightarrow> ('k sys, int) prog" where
  "ioctl_kmem_alloc K pd arg =
     READ_FROM_USER K u_kmem sizeof_kmem_handle arg (\<lambda>khandle.
     bnd (pcidriver_kmem_alloc K pd khandle) (\<lambda>rh.
     if fst rh \<noteq> 0 then ret (fst rh)
     else WRITE_TO_USER K (\<lambda>u. u\<lparr>u_kmem := (u_kmem u)(arg := snd rh)\<rparr>) sizeof_kmem_handle arg (ret 0)))"

definition ioctl_kmem_free :: "'k kern \<Rightarrow> u64 \<Rightarrow> u64 \<Rightarrow> ('k sys, int) prog" where
  "ioctl_kmem_free K pd arg =
     READ_FROM_USER K u_kmem sizeof_kmem_handle arg (\<lambda>khandle.
     bnd (pcidriver_kmem_free K pd khandle) (\<lambda>r. if r \<noteq> 0 then ret r else ret 0))"

definition ioctl_kmem_sync :: "'k kern \<Rightarrow> u64 \<Rightarrow> u64 \<Rightarrow> ('k sys, int) prog" where
  "ioctl_kmem_sync K pd arg = READ_FROM_USER K u_ksync sizeof_kmem_sync arg (pcidriver_kmem_sync K pd)"

definition ioctl_umem_sgmap :: "'k kern \<Rightarrow> u64 \<Rightarrow> u64 \<Rightarrow> ('k sys, int) prog" where
  "ioctl_umem_sgmap K pd arg =
     READ_FROM_USER K u_umem sizeof_umem_handle arg (\<lambda>uhandle.
     bnd (pcidriver_umem_sgmap K pd uhandle) (\<lambda>rh.
     if fst rh \<noteq> 0 then ret (fst rh)
     else WRITE_TO_USER K (\<lambda>u. u\<lparr>u_umem := (u_umem u)(arg := snd rh)\<rparr>) sizeof_umem_handle arg (ret 0)))"

definition ioctl_umem_sgunmap :: "'k kern \<Rightarrow> u64 \<Rightarrow> u64 \<Rightarrow> ('k sys, int) prog" where
  "ioctl_umem_sgunmap K pd arg =
     READ_FROM_USER K u_umem sizeof_umem_handle arg (\<lambda>uhandle.
     bnd (pcidriver_umem_find_entry_id pd (uh_id uhandle)) (\<lambda>e.
     case e of None \<Rightarrow> ret (- EINVAL)
     | Some e \<Rightarrow> bnd (pcidriver_umem_sgunmap K pd e) (\<lambda>r. if r \<noteq> 0 then ret r else ret 0)))"

text \<open>The entries of an array in user memory, and user memory after they are written.\<close>

definition sg_array :: "u64 \<Rightarrow> nat \<Rightarrow> user_mem \<Rightarrow> umem_sgentry_t list" where
  "sg_array a n u = map (\<lambda>i. u_sgentry u (a + of_nat i * sizeof_umem_sgentry)) [0..<n]"

definition sg_write :: "u64 \<Rightarrow> umem_sgentry_t list \<Rightarrow> user_mem \<Rightarrow> user_mem" where
  "sg_write a es u =
     u\<lparr>u_sgentry := fold (\<lambda>(i, e) m. m(a + of_nat i * sizeof_umem_sgentry := e)) (List.enumerate 0 es) (u_sgentry u)\<rparr>"

text \<open>
  The array of the kernel is released only on the way to success. The address of the array in user memory
  is read there each time.
\<close>

definition ioctl_umem_sgget :: "'k kern \<Rightarrow> u64 \<Rightarrow> u64 \<Rightarrow> ('k sys, int) prog" where
  "ioctl_umem_sgget K pd arg =
     READ_FROM_USER K u_sglist sizeof_umem_sglist arg (\<lambda>l.
     bnd (vmalloc K (scast (sgl_nents l) * sizeof_umem_sgentry)) (\<lambda>ptr.
     if ptr = 0 then ret (- ENOMEM)
     else bnd (gets (\<lambda>s. sgl_sg (u_sglist (user s) arg))) (\<lambda>a.
       bnd (copy_from_user K (\<lambda>u a. sg_array a (nat (sint (sgl_nents l))) u) a (scast (sgl_nents l) * sizeof_umem_sgentry)) (\<lambda>arr.
       case arr of
         None \<Rightarrow> ret (- EFAULT)
       | Some out \<Rightarrow>
           bnd (pcidriver_umem_sgget pd l out) (\<lambda>(r, out', n).
           if r \<noteq> 0 then ret r
           else bnd (copy_to_user K (sg_write a (take (unat n) out')) a (scast n * sizeof_umem_sgentry)) (\<lambda>ok.
             if \<not> ok then ret (- EFAULT)
             else thn (vfree K ptr)
               (WRITE_TO_USER K (\<lambda>u. u\<lparr>u_sglist := (u_sglist u)(arg := l\<lparr>sgl_nents := n, sgl_sg := sgl_sg (u_sglist u arg)\<rparr>)\<rparr>)
                  sizeof_umem_sglist arg (ret 0))))))))"

definition ioctl_umem_sync :: "'k kern \<Rightarrow> u64 \<Rightarrow> u64 \<Rightarrow> ('k sys, int) prog" where
  "ioctl_umem_sync K pd arg = READ_FROM_USER K u_umem sizeof_umem_handle arg (pcidriver_umem_sync K pd)"

text \<open>
  The wait for an interrupt: during each sleep the handler runs as often as interrupts come; then the
  counter is decremented, and incremented again when that made it negative.
\<close>

definition wait_interrupt_round :: "'k kern \<Rightarrow> u64 \<Rightarrow> nat \<Rightarrow> ('k sys, bool) prog" where
  "wait_interrupt_round K pd i =
     bnd (call (k_wait K i)) (\<lambda>n.
     thn (doall (replicate n (thn (pcidriver_irq_handler pd) (ret ()))))
    (bnd (priv pd) (\<lambda>p.
       let c = irq_outstanding p i - 1 in
       thn (set_priv pd (\<lambda>p. p\<lparr>irq_outstanding := (irq_outstanding p)(i := c)\<rparr>))
      (if sint c < 0 then thn (set_priv pd (\<lambda>p. p\<lparr>irq_outstanding := (irq_outstanding p)(i := c + 1)\<rparr>)) (ret True)
       else ret False))))"

definition ioctl_wait_interrupt :: "'k kern \<Rightarrow> u64 \<Rightarrow> u64 \<Rightarrow> ('k sys, int) prog" where
  "ioctl_wait_interrupt K pd arg =
     (if arg \<ge> PCIDRIVER_INT_MAXSOURCES then ret (- EFAULT)
      else thn (wait_while (wait_interrupt_round K pd (unat arg))) (ret 0))"

definition ioctl_clear_ioq :: "u64 \<Rightarrow> u64 \<Rightarrow> ('k sys, int) prog" where
  "ioctl_clear_ioq pd arg =
     (if arg \<ge> PCIDRIVER_INT_MAXSOURCES then ret (- EFAULT)
      else thn (set_priv pd (\<lambda>p. p\<lparr>irq_outstanding := (irq_outstanding p)(unat arg := 0)\<rparr>)) (ret 0))"

definition pcidriver_ioctl :: "'k kern \<Rightarrow> u64 \<Rightarrow> u32 \<Rightarrow> u64 \<Rightarrow> ('k sys, int) prog" where
  "pcidriver_ioctl K pd cmd arg =
     (if cmd = PCIDRIVER_IOC_MMAP_MODE then ioctl_mmap_mode pd arg
      else if cmd = PCIDRIVER_IOC_MMAP_AREA then ioctl_mmap_area pd arg
      else if cmd = PCIDRIVER_IOC_PCI_CFG_RD \<or> cmd = PCIDRIVER_IOC_PCI_CFG_WR then ioctl_pci_config_read_write K cmd arg
      else if cmd = PCIDRIVER_IOC_PCI_INFO then ioctl_pci_info K arg
      else if cmd = PCIDRIVER_IOC_KMEM_ALLOC then ioctl_kmem_alloc K pd arg
      else if cmd = PCIDRIVER_IOC_KMEM_FREE then ioctl_kmem_free K pd arg
      else if cmd = PCIDRIVER_IOC_KMEM_SYNC then ioctl_kmem_sync K pd arg
      else if cmd = PCIDRIVER_IOC_UMEM_SGMAP then ioctl_umem_sgmap K pd arg
      else if cmd = PCIDRIVER_IOC_UMEM_SGUNMAP then ioctl_umem_sgunmap K pd arg
      else if cmd = PCIDRIVER_IOC_UMEM_SGGET then ioctl_umem_sgget K pd arg
      else if cmd = PCIDRIVER_IOC_UMEM_SYNC then ioctl_umem_sync K pd arg
      else if cmd = PCIDRIVER_IOC_WAITI then ioctl_wait_interrupt K pd arg
      else if cmd = PCIDRIVER_IOC_CLEAR_IOQ then ioctl_clear_ioq pd arg
      else ret (- EINVAL))"

section \<open>open and release\<close>

text \<open>
  A file refers to the private data of the device, which the handlers above take as an argument.
  \<open>off\<close> is the offset of the member \<^verbatim>\<open>cdev\<close> in the private data.
\<close>

record file_t =
  private_data :: u64

definition pcidriver_open :: "u64 \<Rightarrow> u64 \<Rightarrow> file_t \<Rightarrow> int \<times> file_t" where
  "pcidriver_open off i_cdev filp = (0, filp\<lparr>private_data := i_cdev - off\<rparr>)"

definition pcidriver_release :: "file_t \<Rightarrow> int \<times> file_t" where
  "pcidriver_release filp = (0, filp)"

section \<open>mmap\<close>

definition IORESOURCE_IO :: u64 where "IORESOURCE_IO = 0x100"
definition IORESOURCE_PREFETCH :: u64 where "IORESOURCE_PREFETCH = 0x2000"

text \<open>Both branches, for memory and for I/O, come to \<^verbatim>\<open>remap_pfn_range\<close> of the frames of the BAR.\<close>

definition pcidriver_mmap_pci :: "'k kern \<Rightarrow> u64 \<Rightarrow> u64 \<Rightarrow> nat \<Rightarrow> ('k sys, int) prog" where
  "pcidriver_mmap_pci K vm_start vm_end bar =
     (let bar_addr = k_resource_start K bar; bar_len = k_resource_len K bar; vma_size = vm_end - vm_start in
      if vma_size \<noteq> bar_len \<and> (bar_len < PAGE_SIZE \<and> vma_size \<noteq> PAGE_SIZE) then ret (- EINVAL)
      else bnd (remap_pfn_range K vm_start (drop_bit PAGE_SHIFT bar_addr) bar_len) (\<lambda>r.
             if r \<noteq> 0 then ret (- EAGAIN) else ret 0))"

definition pcidriver_mmap :: "'k kern \<Rightarrow> u64 \<Rightarrow> u64 \<Rightarrow> u64 \<Rightarrow> ('k sys, int) prog" where
  "pcidriver_mmap K pd vm_start vm_end =
     bnd (priv pd) (\<lambda>p.
     if mmap_mode p = PCIDRIVER_MMAP_PCI then
       if mmap_area p \<le> PCIDRIVER_BAR5 then pcidriver_mmap_pci K vm_start vm_end (unat (mmap_area p))
       else ret (- EINVAL)
     else if mmap_mode p = PCIDRIVER_MMAP_KMEM then pcidriver_mmap_kmem K pd vm_start vm_end
     else ret (- EINVAL))"

section \<open>Files in sysfs\<close>

text \<open>Writing a file gives back the number of characters written, whatever they were.\<close>

definition pcidriver_store_mmap_mode :: "'k kern \<Rightarrow> u64 \<Rightarrow> string \<Rightarrow> ('k sys, int) prog" where
  "pcidriver_store_mmap_mode K pd buf =
     thn (case k_sscanf_d K buf of
            None \<Rightarrow> ret ()
          | Some mode \<Rightarrow>
              if (ucast mode = PCIDRIVER_MMAP_PCI \<or> ucast mode = PCIDRIVER_MMAP_KMEM)
              then set_priv pd (\<lambda>p. p\<lparr>mmap_mode := ucast mode\<rparr>) else ret ())
         (ret (int (length buf)))"

definition pcidriver_store_mmap_area :: "'k kern \<Rightarrow> u64 \<Rightarrow> string \<Rightarrow> ('k sys, int) prog" where
  "pcidriver_store_mmap_area K pd buf =
     (let temp = (case k_sscanf_d K buf of None \<Rightarrow> - 1 | Some v \<Rightarrow> v) in
      thn (if sint temp \<ge> uint PCIDRIVER_BAR0 \<and> sint temp \<le> uint PCIDRIVER_BAR5
           then set_priv pd (\<lambda>p. p\<lparr>mmap_area := scast temp\<rparr>) else ret ())
          (ret (int (length buf))))"

definition pcidriver_store_kmem_alloc :: "'k kern \<Rightarrow> u64 \<Rightarrow> string \<Rightarrow> ('k sys, int) prog" where
  "pcidriver_store_kmem_alloc K pd buf =
     thn (case k_sscanf_lu K buf of
            None \<Rightarrow> ret ()
          | Some n \<Rightarrow> thn (pcidriver_kmem_alloc K pd \<lparr>pa = 0, kh_size = n, kh_id = 0\<rparr>) (ret ()))
         (ret (int (length buf)))"

definition pcidriver_store_kmem_free :: "'k kern \<Rightarrow> u64 \<Rightarrow> string \<Rightarrow> ('k sys, int) prog" where
  "pcidriver_store_kmem_free K pd buf =
     bnd (priv pd) (\<lambda>p.
     thn (case k_sscanf_u K buf of
            None \<Rightarrow> ret ()
          | Some i \<Rightarrow>
              if i \<ge> kmem_count p then ret ()
              else bnd (pcidriver_kmem_find_entry_id pd i) (\<lambda>e.
                case e of None \<Rightarrow> ret () | Some e \<Rightarrow> thn (pcidriver_kmem_free_entry K pd e) (ret ())))
         (ret (int (length buf))))"

definition pcidriver_store_umem_unmap :: "'k kern \<Rightarrow> u64 \<Rightarrow> string \<Rightarrow> ('k sys, int) prog" where
  "pcidriver_store_umem_unmap K pd buf =
     bnd (priv pd) (\<lambda>p.
     thn (case k_sscanf_u K buf of
            None \<Rightarrow> ret ()
          | Some i \<Rightarrow>
              if i \<ge> umem_count p then ret ()
              else bnd (pcidriver_umem_find_entry_id pd i) (\<lambda>e.
                case e of None \<Rightarrow> ret () | Some e \<Rightarrow> thn (pcidriver_umem_sgunmap K pd e) (ret ())))
         (ret (int (length buf))))"


text \<open>
  Reading a file gives its text, of which a page is kept, and the number of bytes the function returns.
  The tables count their lines into an offset, and one byte more.
\<close>

definition show_number :: "u32 \<Rightarrow> nat \<times> string" where
  "show_number w = (let t = show_int w @ NL in (length t, t))"

fun show_lines :: "nat \<Rightarrow> string list \<Rightarrow> nat" where
  "show_lines offset [] = (if offset > 4096 then 4096 else offset + 1)"
| "show_lines offset (l # ls) = (if offset > 4096 then 4096 else show_lines (offset + length l) ls)"

definition pcidriver_show_irq_count :: "pcidriver_privdata_t \<Rightarrow> nat \<times> string" where
  "pcidriver_show_irq_count p = show_number (irq_count p)"

definition irq_queue_line :: "pcidriver_privdata_t \<Rightarrow> nat \<Rightarrow> string" where
  "irq_queue_line p i = decimal i @ TAB @ show_int (irq_outstanding p i) @ NL"

definition pcidriver_show_irq_queues :: "pcidriver_privdata_t \<Rightarrow> nat \<times> string" where
  "pcidriver_show_irq_queues p =
     (let t = ''Queue'' @ TAB @ ''Outstanding IRQs'' @ NL @ concat (map (irq_queue_line p) [0..<16])
      in (if length t > 4096 then 4096 else length t + 1, t))"

definition pcidriver_show_mmap_mode :: "pcidriver_privdata_t \<Rightarrow> nat \<times> string" where
  "pcidriver_show_mmap_mode p = show_number (ucast (mmap_mode p))"

definition pcidriver_show_mmap_area :: "pcidriver_privdata_t \<Rightarrow> nat \<times> string" where
  "pcidriver_show_mmap_area p = show_number (ucast (mmap_area p))"

definition pcidriver_show_kmem_count :: "pcidriver_privdata_t \<Rightarrow> nat \<times> string" where
  "pcidriver_show_kmem_count p = show_number (kmem_count p)"

definition kbuffer_line :: "pcidriver_kmem_entry_t \<Rightarrow> string" where
  "kbuffer_line e =
     pad CHR '' '' 3 (show_int (ke_id e)) @ TAB @ pad CHR ''0'' 8 (hexadecimal (unat (dma_handle e))) @ TAB @
     decimal (unat (ke_size e)) @ NL"

definition pcidriver_show_kbuffers :: "pcidriver_privdata_t \<Rightarrow> nat \<times> string" where
  "pcidriver_show_kbuffers p =
     (let header = ''kbuf#'' @ TAB @ ''cpu addr'' @ TAB @ ''size'' @ NL; ls = map kbuffer_line (kmem_list p)
      in (show_lines (length header) ls, take 4095 (header @ concat ls)))"

definition umapping_line :: "pcidriver_umem_entry_t \<Rightarrow> string" where
  "umapping_line e =
     pad CHR '' '' 3 (show_int (ue_id e)) @ TAB @ decimal (length (ue_pages e)) @ TAB @ decimal (unat (ue_nents e)) @ NL"

definition pcidriver_show_umappings :: "pcidriver_privdata_t \<Rightarrow> nat \<times> string" where
  "pcidriver_show_umappings p =
     (let header = ''umap#'' @ TAB @ ''n_pages'' @ TAB @ ''sg_ents'' @ NL; ls = map umapping_line (umem_list p)
      in (show_lines (length header) ls, take 4095 (header @ concat ls)))"

text \<open>A table that fills the page exactly is reported one byte longer than the page.\<close>

lemma show_lines_total:
  "off + length (concat ls) \<le> 4096 \<Longrightarrow> show_lines off ls = off + length (concat ls) + 1"
  by (induction ls arbitrary: off) (simp_all add: add.assoc)

lemma show_lines_overflow:
  "4096 < off + length (concat ls) \<Longrightarrow> show_lines off ls = 4096"
  by (induction ls arbitrary: off) (simp_all add: add.assoc)

lemma show_lines_le: "show_lines off ls \<le> 4097"
  using show_lines_total[of off ls] show_lines_overflow[of off ls] by linarith

text \<open>
  The files of single buffers: that of a kernel buffer shows the number in its name, that of a mapping is empty.
  Their attributes are part of the entries.
\<close>

definition pcidriver_show_kmem_entry :: "'k kern \<Rightarrow> string \<Rightarrow> nat \<times> string" where
  "pcidriver_show_kmem_entry K name =
     (let t = ''I am in the kmem_entry show function for buffer '' @ show_int (k_strtol K (drop 4 name)) @ NL
      in (length t, take 4095 t))"

definition pcidriver_show_umem_entry :: "nat \<times> string" where
  "pcidriver_show_umem_entry = (0, [])"

section \<open>The invariant of a device\<close>

text \<open>
  What is held for a device: the entries of its two lists, and \<open>B\<close>, which is what was held when it was set up
  and what failed requests have lost since.
\<close>

definition umem_ok :: "pcidriver_umem_entry_t \<Rightarrow> bool" where
  "umem_ok e \<longleftrightarrow> 0 < ue_nents e \<and> unat (ue_nents e) \<le> length (ue_sg e)"

definition dev_inv :: "resource multiset \<Rightarrow> u64 \<Rightarrow> 'k sys \<Rightarrow> bool" where
  "dev_inv B pd s \<longleftrightarrow> holds s (kmem_all (privs s pd) + (umem_all (privs s pd) + B)) \<and>
     mmap_mode (privs s pd) \<le> PCIDRIVER_MMAP_KMEM \<and> mmap_area (privs s pd) \<le> PCIDRIVER_BAR5 \<and>
     (\<forall>i. irq_outstanding (privs s pd) i = 0) \<and> (\<forall>e \<in> set (umem_list (privs s pd)). umem_ok e)"

text \<open>\<^verbatim>\<open>pci_map_sg\<close> uses at most the entries there are, and keeps the table's length.\<close>

definition map_sg_sane :: "'k kern \<Rightarrow> bool" where
  "map_sg_sane K \<longleftrightarrow> (\<forall>sg k. unat (fst (fst (k_map_sg K sg k))) \<le> length (snd (fst (k_map_sg K sg k))))"

lemma dev_invI:
  assumes "holds t (kmem_all (privs t pd) + (umem_all (privs t pd) + B))"
    and "mmap_mode (privs t pd) \<le> PCIDRIVER_MMAP_KMEM" and "mmap_area (privs t pd) \<le> PCIDRIVER_BAR5"
    and "\<And>i. irq_outstanding (privs t pd) i = 0" and "\<And>e. e \<in> set (umem_list (privs t pd)) \<Longrightarrow> umem_ok e"
  shows "dev_inv B pd t"
  using assms by (auto simp: dev_inv_def)

lemma dev_invE:
  assumes "dev_inv B pd s"
  obtains "holds s (kmem_all (privs s pd) + (umem_all (privs s pd) + B))"
    and "mmap_mode (privs s pd) \<le> PCIDRIVER_MMAP_KMEM" and "mmap_area (privs s pd) \<le> PCIDRIVER_BAR5"
    and "\<forall>i. irq_outstanding (privs s pd) i = 0" and "\<forall>e \<in> set (umem_list (privs s pd)). umem_ok e"
  using assms by (auto simp: dev_inv_def)

lemma dev_inv_user: "dev_inv B pd s \<Longrightarrow> dev_inv B pd (s\<lparr>user := u\<rparr>)"
  by (elim dev_invE) (rule dev_invI, simp_all)

text \<open>A program that returns from every state with the invariant, without a fault, and keeps it.\<close>

definition safe :: "resource multiset \<Rightarrow> u64 \<Rightarrow> ('k sys, 'a) prog \<Rightarrow> bool" where
  "safe B pd p \<longleftrightarrow> (\<forall>s. dev_inv B pd s \<longrightarrow> wp p (\<lambda>_. dev_inv B pd) s)"

named_theorems safe_intros \<open>programs that keep the invariant\<close>

lemma safe_ret [safe_intros]: "safe B pd (ret a)"
  by (simp add: safe_def wp_def)

lemma safe_bnd [safe_intros]: "safe B pd p \<Longrightarrow> (\<And>a. safe B pd (f a)) \<Longrightarrow> safe B pd (bnd p f)"
  unfolding safe_def wp_bnd by (auto intro: wp_mono)

lemma safe_thn [safe_intros]: "safe B pd p \<Longrightarrow> safe B pd q \<Longrightarrow> safe B pd (thn p q)"
  unfolding safe_def wp_thn by (auto intro: wp_mono)

lemma safe_if [safe_intros]: "(b \<Longrightarrow> safe B pd p) \<Longrightarrow> (\<not> b \<Longrightarrow> safe B pd q) \<Longrightarrow> safe B pd (if b then p else q)"
  by simp

lemma safe_option [safe_intros]:
  "(x = None \<Longrightarrow> safe B pd p) \<Longrightarrow> (\<And>a. x = Some a \<Longrightarrow> safe B pd (f a)) \<Longrightarrow>
   safe B pd (case x of None \<Rightarrow> p | Some a \<Rightarrow> f a)"
  by (cases x) simp_all

lemma safe_gets [safe_intros]: "safe B pd (gets g)"
  by (simp add: safe_def wp_def)

lemma safe_priv [safe_intros]: "safe B pd (priv q)"
  unfolding priv_def by (rule safe_gets)

lemma same_inv: "same s t \<Longrightarrow> privs t = privs s"
  by (simp add: same_def)

lemma safe_call [safe_intros]: "safe B pd (call f)"
  unfolding safe_def by (auto elim!: dev_invE intro!: wp_call intro: dev_invI simp: same_def)

lemma safe_copy_from_user [safe_intros]: "safe B pd (copy_from_user K get a n)"
  unfolding copy_from_user_def by (rule safe_gets)

lemma safe_copy_to_user [safe_intros]: "safe B pd (copy_to_user K put a n)"
  unfolding safe_def wp_copy_to_user by (auto elim!: dev_invE intro!: dev_invI)

lemma wp_READ:
  "wp (READ_FROM_USER K get n arg f) Q s = (if k_access K arg n (kst s) then wp (f (get (user s) arg)) Q s else Q (- EFAULT) s)"
  by (simp add: READ_FROM_USER_def wp_bnd wp_copy_from_user wp_ret)

lemma safe_READ [safe_intros]: "(\<And>a. safe B pd (f a)) \<Longrightarrow> safe B pd (READ_FROM_USER K get n arg f)"
  unfolding READ_FROM_USER_def by (intro safe_intros) auto

lemma safe_WRITE [safe_intros]: "safe B pd f \<Longrightarrow> safe B pd (WRITE_TO_USER K put n arg f)"
  unfolding WRITE_TO_USER_def by (intro safe_intros)

text \<open>
  What a failed allocation of a buffer loses: the name of a file that could not be created, or a file with its
  name when there is no memory for the buffer. A failed mapping loses at most a name.
\<close>

definition kmem_lost :: "u64 \<Rightarrow> resource multiset \<Rightarrow> bool" where
  "kmem_lost dev D \<longleftrightarrow> (\<exists>n. D = {#Kmem n#}) \<or> (\<exists>a. D = attr_res dev a)"

definition umem_lost :: "resource multiset \<Rightarrow> bool" where
  "umem_lost D \<longleftrightarrow> (\<exists>n. D = {#Kmem n#})"

lemma wp_inv_kmem_alloc:
  fixes s :: "'k sys"
  assumes s: "dev_inv B pd s" and ok: "\<And>h' t. dev_inv B pd t \<Longrightarrow> Q (0, h') t"
    and fails: "\<And>h' t D. dev_inv (B + D) pd t \<Longrightarrow> kmem_list (privs t pd) = kmem_list (privs s pd) \<Longrightarrow>
      D = {#} \<or> kmem_lost (class_dev (privs s pd)) D \<Longrightarrow> Q (- ENOMEM, h') t"
  shows "wp (pcidriver_kmem_alloc K pd h) Q s"
proof -
  have held: "holds s (kmem_all (privs s pd) + (umem_all (privs s pd) + B))"
    and rest: "mmap_mode (privs s pd) \<le> PCIDRIVER_MMAP_KMEM" "mmap_area (privs s pd) \<le> PCIDRIVER_BAR5"
      "\<forall>i. irq_outstanding (privs s pd) i = 0" "\<forall>e \<in> set (umem_list (privs s pd)). umem_ok e"
    using s by (auto elim: dev_invE)
  show ?thesis
    apply (rule wp_kmem_alloc[OF held])
    subgoal for e t
      by (rule ok, rule dev_invI) (use rest in \<open>simp_all add: same_def kmem_all_def umem_all_def ac_simps\<close>)
    subgoal for t
      by (rule fails[where D = "{#}"], rule dev_invI) (use rest held in \<open>simp_all add: same_def\<close>)
    subgoal for t L
      by (rule fails[where D = L], rule dev_invI)
         (use rest in \<open>auto simp: same_def kmem_all_def umem_all_def ac_simps kmem_lost_def\<close>)
    done
qed

text \<open>A change of the entries that keeps the rest.\<close>

lemma safe_kmem_free_in:
  assumes s: "dev_inv B pd s" and e: "e \<in> set (kmem_list (privs s pd))"
  shows "wp (pcidriver_kmem_free_entry K pd e) (\<lambda>_. dev_inv B pd) s"
proof -
  have s: "holds s (kmem_all (privs s pd) + (umem_all (privs s pd) + B))"
    "mmap_mode (privs s pd) \<le> PCIDRIVER_MMAP_KMEM" "mmap_area (privs s pd) \<le> PCIDRIVER_BAR5"
    "\<forall>i. irq_outstanding (privs s pd) i = 0" "\<forall>e \<in> set (umem_list (privs s pd)). umem_ok e"
    using s by (auto elim: dev_invE)
  show ?thesis
    by (rule wp_kmem_free_in[OF s(1) e], rule dev_invI)
       (use s(2-) in \<open>simp_all add: same_def kmem_removed_def umem_all_def\<close>)
qed

lemma safe_kmem_free [safe_intros]: "safe B pd (pcidriver_kmem_free K pd h)"
  unfolding safe_def pcidriver_kmem_free_def pcidriver_kmem_find_entry_def wp_simps
  by (auto simp: wp_simps safe_kmem_free_in find_in split: option.split)

lemma safe_umem_unmap_in:
  assumes s: "dev_inv B pd s" and e: "e \<in> set (umem_list (privs s pd))"
  shows "wp (pcidriver_umem_sgunmap K pd e) (\<lambda>_. dev_inv B pd) s"
proof -
  have s: "holds s (kmem_all (privs s pd) + (umem_all (privs s pd) + B))"
    "mmap_mode (privs s pd) \<le> PCIDRIVER_MMAP_KMEM" "mmap_area (privs s pd) \<le> PCIDRIVER_BAR5"
    "\<forall>i. irq_outstanding (privs s pd) i = 0" "\<forall>e \<in> set (umem_list (privs s pd)). umem_ok e"
    using s by (auto elim: dev_invE)
  have h: "holds s (umem_all (privs s pd) + (kmem_all (privs s pd) + B))" using s(1) by (simp only: ac_simps)
  show ?thesis
    by (rule wp_umem_unmap_in[OF h e], rule dev_invI)
       (use s(2-) notin_set_remove1 in \<open>auto simp: same_def umem_removed_def kmem_all_def umem_all_def ac_simps\<close>)
qed

lemma safe_kmem_sync [safe_intros]: "safe B pd (pcidriver_kmem_sync K pd ks)"
  unfolding safe_def by (auto elim!: dev_invE intro!: wp_kmem_sync intro: dev_invI simp: same_def)

lemma safe_umem_sync [safe_intros]: "safe B pd (pcidriver_umem_sync K pd h)"
  unfolding safe_def by (auto elim!: dev_invE intro!: wp_umem_sync intro: dev_invI simp: same_def)

lemma safe_mmap_kmem [safe_intros]: "safe B pd (pcidriver_mmap_kmem K pd a b)"
  unfolding safe_def by (auto elim!: dev_invE intro!: wp_mmap_kmem intro: dev_invI simp: same_def)

lemma safe_remap [safe_intros]: "safe B pd (remap_pfn_range K a f n)"
  unfolding safe_def by (auto elim!: dev_invE intro!: wp_remap intro: dev_invI simp: same_def)

lemma wp_inv_sgmap:
  fixes s :: "'k sys"
  assumes K: "vmalloc_sane K" "map_sg_sane K" and s: "dev_inv B pd s"
    and ok: "\<And>r h' t. dev_inv B pd t \<Longrightarrow> Q (r, h') t"
    and fails: "\<And>h' t D. dev_inv (B + D) pd t \<Longrightarrow> umem_list (privs t pd) = umem_list (privs s pd) \<Longrightarrow> umem_lost D \<Longrightarrow>
      Q (- ENOMEM, h') t"
  shows "wp (pcidriver_umem_sgmap K pd h) Q s"
proof -
  have held: "holds s (kmem_all (privs s pd) + (umem_all (privs s pd) + B))"
    and rest: "mmap_mode (privs s pd) \<le> PCIDRIVER_MMAP_KMEM" "mmap_area (privs s pd) \<le> PCIDRIVER_BAR5"
      "\<forall>i. irq_outstanding (privs s pd) i = 0" "\<forall>e \<in> set (umem_list (privs s pd)). umem_ok e"
    using s by (auto elim: dev_invE)
  show ?thesis
    apply (rule wp_umem_sgmap[OF held K(1)])
    subgoal for e t q qs m k
    proof (rule ok, rule dev_invI, goal_cases)
      case (5 e')
      have "umem_ok e" using 5 K(2) by (auto simp: umem_ok_def map_sg_sane_def word_gt_0)
      then show ?case using 5 rest(4) by (auto simp: same_def)
    qed (use rest in \<open>simp_all add: same_def kmem_all_def umem_all_def ac_simps\<close>)
    subgoal by (rule ok[OF s])
    subgoal premises prems for t L c
    proof -
      have inv: "dev_inv (B + L) pd t"
        by (rule dev_invI) (use prems rest in \<open>auto simp: same_def kmem_all_def umem_all_def ac_simps\<close>)
      have l: "umem_list (privs t pd) = umem_list (privs s pd)" using prems(2) by (simp add: same_def)
      show ?thesis using prems(4) inv ok[of t] fails[OF inv l] by (auto simp: umem_lost_def)
    qed
    done
qed

lemma safe_sgunmap_found [safe_intros]:
  "safe B pd (bnd (pcidriver_umem_find_entry_id pd i) (\<lambda>e.
     case e of None \<Rightarrow> ret a | Some e \<Rightarrow> bnd (pcidriver_umem_sgunmap K pd e) (\<lambda>r. ret (f r))))"
  unfolding safe_def pcidriver_umem_find_entry_id_def wp_simps
  by (auto simp: wp_simps safe_umem_unmap_in find_in split: option.split)

lemma safe_set_priv:
  assumes "\<And>p. kmem_list (f p) = kmem_list p" and "\<And>p. umem_list (f p) = umem_list p"
    and "\<And>p. class_dev (f p) = class_dev p" and "\<And>p. mmap_mode p \<le> PCIDRIVER_MMAP_KMEM \<Longrightarrow> mmap_mode (f p) \<le> PCIDRIVER_MMAP_KMEM"
    and "\<And>p. mmap_area p \<le> PCIDRIVER_BAR5 \<Longrightarrow> mmap_area (f p) \<le> PCIDRIVER_BAR5"
    and "\<And>p i. (\<forall>i. irq_outstanding p i = 0) \<Longrightarrow> irq_outstanding (f p) i = 0"
  shows "safe B pd (set_priv pd f)"
  unfolding safe_def wp_set_priv
  by (auto elim!: dev_invE intro!: dev_invI simp: assms kmem_all_def umem_all_def)

lemma bar_le: "\<not> arg > PCIDRIVER_BAR5 \<Longrightarrow> arg \<le> PCIDRIVER_BAR5"
  by simp

lemma mode_le: "arg = PCIDRIVER_MMAP_PCI \<or> arg = PCIDRIVER_MMAP_KMEM \<Longrightarrow> arg \<le> PCIDRIVER_MMAP_KMEM"
  by (auto simp: PCIDRIVER_MMAP_PCI_def)

lemma mode_range: "m \<le> PCIDRIVER_MMAP_KMEM \<Longrightarrow> m \<in> {PCIDRIVER_MMAP_PCI, PCIDRIVER_MMAP_KMEM}"
proof -
  assume "m \<le> PCIDRIVER_MMAP_KMEM"
  then have "unat m = unat PCIDRIVER_MMAP_PCI \<or> unat m = unat PCIDRIVER_MMAP_KMEM"
    by (auto simp: PCIDRIVER_MMAP_PCI_def PCIDRIVER_MMAP_KMEM_def word_le_nat_alt)
  then show ?thesis unfolding word_unat_eq_iff[symmetric] by simp
qed

lemma safe_mmap_mode: "safe B pd (ioctl_mmap_mode pd arg)"
  unfolding ioctl_mmap_mode_def
  by (intro safe_intros safe_set_priv) (auto intro: mode_le)

lemma safe_mmap_area: "safe B pd (ioctl_mmap_area pd arg)"
  unfolding ioctl_mmap_area_def
  by (intro safe_intros safe_set_priv) (auto simp: not_less)

lemma safe_clear_ioq: "safe B pd (ioctl_clear_ioq pd arg)"
  unfolding ioctl_clear_ioq_def
  by (intro safe_intros safe_set_priv) auto

lemma safe_config: "safe B pd (ioctl_pci_config_read_write K cmd arg)"
  unfolding ioctl_pci_config_read_write_def Let_def by (intro safe_intros)

lemma safe_info: "safe B pd (ioctl_pci_info K arg)"
  unfolding ioctl_pci_info_def Let_def by (intro safe_intros)

lemma safe_ioctl_kmem: "safe B pd (ioctl_kmem_free K pd arg)" "safe B pd (ioctl_kmem_sync K pd arg)"
  unfolding ioctl_kmem_free_def ioctl_kmem_sync_def by (intro safe_intros)+

lemma if_ret: "(if b then ret a else ret c) = ret (if b then a else c)"
  by simp

lemma safe_ioctl_umem: "safe B pd (ioctl_umem_sgunmap K pd arg)" "safe B pd (ioctl_umem_sync K pd arg)"
  unfolding ioctl_umem_sgunmap_def ioctl_umem_sync_def if_ret by (intro safe_intros)+

lemma wp_inv_vfree:
  assumes s: "dev_inv (add_mset (Vmem p) B) pd s" and p: "p \<noteq> 0" and Q: "\<And>t. dev_inv B pd t \<Longrightarrow> Q () t"
  shows "wp (vfree K p) Q s"
  using s
proof (elim dev_invE)
  assume L: "holds s (kmem_all (privs s pd) + (umem_all (privs s pd) + add_mset (Vmem p) B))"
    "mmap_mode (privs s pd) \<le> PCIDRIVER_MMAP_KMEM" "mmap_area (privs s pd) \<le> PCIDRIVER_BAR5"
    "\<forall>i. irq_outstanding (privs s pd) i = 0" "\<forall>e\<in>set (umem_list (privs s pd)). umem_ok e"
  show ?thesis
    by (rule wp_vfree[OF L(1)], simp add: vres_def p, rule Q, rule dev_invI)
       (use L(2-) p in \<open>simp_all add: same_def vres_def\<close>)
qed

lemma wp_inv_vmalloc:
  assumes s: "dev_inv B pd s"
    and ok: "\<And>p t. p \<noteq> 0 \<Longrightarrow> fst (k_vmalloc K n (kst s)) = p \<Longrightarrow> same s t \<Longrightarrow> dev_inv (add_mset (Vmem p) B) pd t \<Longrightarrow> Q p t"
    and no: "\<And>t. dev_inv B pd t \<Longrightarrow> Q 0 t"
  shows "wp (vmalloc K n) Q s"
  using s
proof (elim dev_invE)
  assume L: "holds s (kmem_all (privs s pd) + (umem_all (privs s pd) + B))"
    "mmap_mode (privs s pd) \<le> PCIDRIVER_MMAP_KMEM" "mmap_area (privs s pd) \<le> PCIDRIVER_BAR5"
    "\<forall>i. irq_outstanding (privs s pd) i = 0" "\<forall>e\<in>set (umem_list (privs s pd)). umem_ok e"
  have i: "dev_inv (M + B) pd t" if "same s t" "holds t (M + (kmem_all (privs s pd) + (umem_all (privs s pd) + B)))" for M t
    using that L(2-) by (intro dev_invI) (simp_all add: same_def ac_simps)
  show ?thesis
    unfolding vmalloc_def
    by (rule wp_acquire_answer[OF L(1)])
       (use i[where M = "{#}"] i[where M = "{#Vmem p#}" for p] in \<open>auto intro!: ok no\<close>)
qed


lemma wp_inv_sgget:
  assumes s: "dev_inv B pd s" and out: "length out = unat (sgl_nents l)" and Q: "\<And>r out' n. Q (r, out', n) s"
  shows "wp (pcidriver_umem_sgget pd l out) Q s"
proof (cases "find (\<lambda>e. ue_id e = sgl_id l) (umem_list (privs s pd))")
  case None
  then show ?thesis
    using Q unfolding pcidriver_umem_sgget_def pcidriver_umem_find_entry_id_def wp_simps by (simp add: wp_simps)
next
  case (Some e)
  then have "umem_ok e" using s find_in[OF Some] by (auto simp: dev_inv_def)
  then show ?thesis
    using wp_mono[OF wp_umem_sgget[OF Some _ _ out], of Q] Q by (auto simp: umem_ok_def)
qed

lemma sint_pos_unat: "0 < sint w \<Longrightarrow> nat (sint w) = unat w" for w :: u32
proof -
  assume pos: "0 < sint w"
  have "(word_of_int (sint w) :: u32) = w" by simp
  then have "uint w = uint (word_of_int (sint w) :: u32)" by (rule arg_cong[OF sym])
  also have "\<dots> = sint w mod 2 ^ LENGTH(32)" by (rule uint_word_of_int)
  also have "\<dots> = sint w" using pos sint_lt[of w] by (intro mod_pos_pos_trivial) simp_all
  finally show ?thesis by (simp add: unat_eq_nat_uint)
qed

text \<open>The array for the table of a mapping is lost unless the request succeeds or the last copy alone fails.\<close>

lemma wp_inv_ioctl_sgget:
  fixes s :: "'k sys"
  assumes vm: "vmalloc_sane K" and s: "dev_inv B pd s" and ok: "\<And>r t. dev_inv B pd t \<Longrightarrow> Q r t"
    and lost: "\<And>r t v. r \<noteq> 0 \<Longrightarrow> dev_inv (add_mset (Vmem v) B) pd t \<Longrightarrow> Q r t"
  shows "wp (ioctl_umem_sgget K pd arg) Q s"
proof -
  let ?l = "u_sglist (user s) arg"
  let ?bytes = "scast (sgl_nents ?l) * sizeof_umem_sgentry"
  let ?wback = "\<lambda>n. WRITE_TO_USER K (\<lambda>u. u\<lparr>u_sglist := (u_sglist u)(arg := ?l\<lparr>sgl_nents := n, sgl_sg := sgl_sg (u_sglist u arg)\<rparr>)\<rparr>)
     sizeof_umem_sglist arg (ret 0)"
  let ?rest = "\<lambda>ptr. bnd (gets (\<lambda>s. sgl_sg (u_sglist (user s) arg))) (\<lambda>a.
       bnd (copy_from_user K (\<lambda>u a. sg_array a (nat (sint (sgl_nents ?l))) u) a ?bytes) (\<lambda>arr.
       case arr of None \<Rightarrow> ret (- EFAULT)
       | Some out \<Rightarrow> bnd (pcidriver_umem_sgget pd ?l out) (\<lambda>(r, out', n).
           if r \<noteq> 0 then ret r
           else bnd (copy_to_user K (sg_write a (take (unat n) out')) a (scast n * sizeof_umem_sgentry)) (\<lambda>ok.
             if \<not> ok then ret (- EFAULT) else thn (vfree K ptr) (?wback n)))))"
  have wr: "wp (?wback n) Q t" if "dev_inv B pd t" for n t
    using that by (auto simp: WRITE_TO_USER_def wp_simps intro!: ok dev_inv_user)
  have rest: "wp (?rest p) Q t"
    if "p \<noteq> 0" and pos: "0 < sint (sgl_nents ?l)" and t: "dev_inv (add_mset (Vmem p) B) pd t" for p t
  proof -
    have len: "length (sg_array a (nat (sint (sgl_nents ?l))) u) = unat (sgl_nents ?l)" for a u
      using sint_pos_unat[OF pos] by (simp add: sg_array_def)
    have e: "Q (- EFAULT) t" by (rule lost[OF _ t]) (simp add: EFAULT_def)
    show ?thesis
      unfolding wp_simps
      by (auto simp: wp_simps e intro!: wp_inv_sgget[OF t len] wp_inv_vfree[OF dev_inv_user[OF t]] wr lost[OF _ t] \<open>p \<noteq> 0\<close>)
  qed
  have "wp (vmalloc K ?bytes) (\<lambda>ptr. wp (if ptr = 0 then ret (- ENOMEM) else ?rest ptr) Q) s"
  proof (rule wp_inv_vmalloc[OF s], goal_cases)
    case (1 p t)
    have "0 < sint (sgl_nents ?l)"
      using 1(1,2) by (intro vmalloc_array_pos[OF vm, where c = sizeof_umem_sgentry and k = "kst s"])
        (simp_all add: sizeof_umem_sgentry_def)
    then show ?case using rest[of p t] 1 by simp
  qed (simp add: wp_simps ok)
  then show ?thesis
    unfolding ioctl_umem_sgget_def wp_READ wp_bnd[of "vmalloc _ _"] using ok[OF s] by simp
qed

lemma safe_mmap: "safe B pd (pcidriver_mmap K pd a b)"
  unfolding pcidriver_mmap_def pcidriver_mmap_pci_def Let_def by (intro safe_intros)

lemma safe_store_mmap_mode: "safe B pd (pcidriver_store_mmap_mode K pd buf)"
  unfolding pcidriver_store_mmap_mode_def
  by (intro safe_intros safe_set_priv) (auto intro: mode_le)

lemma area_le:
  fixes w :: u32
  assumes "0 \<le> sint w" and "sint w \<le> 5"
  shows "(scast w :: u64) \<le> PCIDRIVER_BAR5"
proof -
  have "uint (scast w :: u64) = uint (word_of_int (sint w) :: u64)" by (simp only: scast_eq)
  also have "\<dots> = sint w mod 2 ^ LENGTH(64)" by (rule uint_word_of_int)
  also have "\<dots> = sint w" using assms by (intro mod_pos_pos_trivial) simp_all
  finally show ?thesis using assms by (simp add: word_le_def PCIDRIVER_BAR5_def)
qed

lemma safe_store_mmap_area: "safe B pd (pcidriver_store_mmap_area K pd buf)"
  unfolding pcidriver_store_mmap_area_def Let_def
  by (intro safe_intros safe_set_priv)
     (auto intro!: area_le[unfolded PCIDRIVER_BAR5_def] simp: PCIDRIVER_BAR0_def PCIDRIVER_BAR5_def)

lemma safe_store_kmem_free: "safe B pd (pcidriver_store_kmem_free K pd buf)"
  unfolding safe_def pcidriver_store_kmem_free_def pcidriver_kmem_find_entry_id_def
  by (auto simp: wp_simps safe_kmem_free_in find_in split: option.split)

lemma safe_store_umem_unmap: "safe B pd (pcidriver_store_umem_unmap K pd buf)"
  unfolding safe_def pcidriver_store_umem_unmap_def pcidriver_umem_find_entry_id_def
  by (auto simp: wp_simps safe_umem_unmap_in find_in split: option.split)

section \<open>Waiting for an interrupt\<close>

lemma handler_runs: "pcidriver_irq_handler pd s = Some (Inr (IRQ_NONE, s))"
  by (simp add: pcidriver_irq_handler_def pcidriver_irq_acknowledge_def)

lemma handlers_run: "doall (replicate n (thn (pcidriver_irq_handler pd) (ret ()))) s = Some (Inr ((), s))"
  by (induction n) (simp_all add: thn_runs handler_runs)

lemma wp_call_eq: "wp (call f) Q = (\<lambda>s. Q (fst (f (kst s))) (s\<lparr>kst := snd (f (kst s))\<rparr>))"
  by (simp add: wp_def call_def Let_def fun_eq_iff)

lemma wp_handlers: "wp (doall (replicate n (thn (pcidriver_irq_handler pd) (ret ())))) Q = Q ()"
  by (simp add: wp_def handlers_run fun_eq_iff)

lemma wait_round_runs:
  assumes "irq_outstanding (privs s pd) i = 0"
  shows "\<exists>t. wait_interrupt_round K pd i s = Some (Inr (True, t)) \<and> irq_outstanding (privs t pd) i = 0"
proof -
  have "wp (wait_interrupt_round K pd i) (\<lambda>b t. b \<and> irq_outstanding (privs t pd) i = 0) s"
    unfolding wait_interrupt_round_def Let_def wp_simps wp_call_eq wp_handlers using assms by (simp add: wp_simps)
  then show ?thesis unfolding wp_iff by auto
qed

lemma wait_forever:
  assumes "irq_outstanding (privs s pd) (unat arg) = 0" and "arg < PCIDRIVER_INT_MAXSOURCES"
  shows "ioctl_wait_interrupt K pd arg s = None"
proof -
  have "wait_while (wait_interrupt_round K pd (unat arg)) s = None"
    by (rule wait_never[of "\<lambda>s. irq_outstanding (privs s pd) (unat arg) = 0"]) (use assms(1) wait_round_runs in auto)
  then show ?thesis using assms(2) by (simp add: ioctl_wait_interrupt_def thn_def bnd_def)
qed


section \<open>Any sequence of requests\<close>

text \<open>
  What user space and the hardware can ask of a device, and the states that a sequence of requests leads
  to; between two requests the kernel and the memory of the users may change in any way.
\<close>

datatype request =
    Ioctl u32 u64
  | Mmap u64 u64
  | Store_mmap_mode string
  | Store_mmap_area string
  | Store_kmem_alloc string
  | Store_kmem_free string
  | Store_umem_unmap string
  | Show string               \<comment> \<open>reading the file of this name\<close>
  | Interrupt

text \<open>
  Reading a file. Those of the device are known by their names; the file of a buffer leads to the attribute in
  the entry of the buffer. A file that is there although no entry has its attribute was left behind by a
  failed allocation: its attribute is in memory that was released.
\<close>

definition show_device :: "pcidriver_privdata_t \<Rightarrow> string \<Rightarrow> (nat \<times> string) option" where
  "show_device p name =
     (if name = ''irq_count'' then Some (pcidriver_show_irq_count p)
      else if name = ''irq_queues'' then Some (pcidriver_show_irq_queues p)
      else if name = ''mmap_mode'' then Some (pcidriver_show_mmap_mode p)
      else if name = ''mmap_area'' then Some (pcidriver_show_mmap_area p)
      else if name = ''kmem_count'' then Some (pcidriver_show_kmem_count p)
      else if name = ''kbuffers'' then Some (pcidriver_show_kbuffers p)
      else if name = ''umappings'' then Some (pcidriver_show_umappings p)
      else None)"

definition show_buffer :: "'k kern \<Rightarrow> pcidriver_privdata_t \<Rightarrow> string \<Rightarrow> (nat \<times> string) option" where
  "show_buffer K p name =
     (if \<exists>e \<in> set (kmem_list p). attr_name (ke_attr e) = name then Some (pcidriver_show_kmem_entry K name)
      else if \<exists>e \<in> set (umem_list p). attr_name (ue_attr e) = name then Some pcidriver_show_umem_entry
      else None)"

definition file_there :: "u64 \<Rightarrow> string \<Rightarrow> 'k sys \<Rightarrow> bool" where
  "file_there dev name s = (case balance (klog s) {#} of None \<Rightarrow> False | Some H \<Rightarrow> File dev name \<in># H)"

definition show_file :: "'k kern \<Rightarrow> u64 \<Rightarrow> string \<Rightarrow> ('k sys, int) prog" where
  "show_file K pd name =
     bnd (priv pd) (\<lambda>p.
     case show_device p name of
       Some t \<Rightarrow> ret (int (fst t))
     | None \<Rightarrow>
         if name = ''kmem_alloc'' \<or> name = ''kmem_free'' \<or> name = ''umem_unmap'' then ret (- EIO)
         else case show_buffer K p name of
           Some t \<Rightarrow> ret (int (fst t))
         | None \<Rightarrow> bnd (gets (file_there (class_dev p) name)) (\<lambda>b. if b then fail BadPointer else ret (- ENOENT)))"

fun serve :: "'k kern \<Rightarrow> u64 \<Rightarrow> request \<Rightarrow> ('k sys, int) prog" where
  "serve K pd (Ioctl cmd arg) = pcidriver_ioctl K pd cmd arg"
| "serve K pd (Mmap a b) = pcidriver_mmap K pd a b"
| "serve K pd (Store_mmap_mode buf) = pcidriver_store_mmap_mode K pd buf"
| "serve K pd (Store_mmap_area buf) = pcidriver_store_mmap_area K pd buf"
| "serve K pd (Store_kmem_alloc buf) = pcidriver_store_kmem_alloc K pd buf"
| "serve K pd (Store_kmem_free buf) = pcidriver_store_kmem_free K pd buf"
| "serve K pd (Store_umem_unmap buf) = pcidriver_store_umem_unmap K pd buf"
| "serve K pd (Show name) = show_file K pd name"
| "serve K pd Interrupt = thn (pcidriver_irq_handler pd) (ret 0)"

text \<open>The requests one after the other, each with the private data before and after it and its result.\<close>

type_synonym handled_request = "pcidriver_privdata_t \<times> request \<times> int \<times> pcidriver_privdata_t"

inductive handled :: "'k kern \<Rightarrow> u64 \<Rightarrow> 'k sys \<Rightarrow> handled_request list \<Rightarrow> 'k sys \<Rightarrow> bool" for K pd s where
  handled_start: "handled K pd s [] s"
| handled_request: "handled K pd s hs t \<Longrightarrow> serve K pd q t = Some (Inr (r, u)) \<Longrightarrow>
    handled K pd s (hs @ [(privs t pd, q, r, privs u pd)]) u"
| handled_other: "handled K pd s hs t \<Longrightarrow> handled K pd s hs (t\<lparr>kst := k, user := m\<rparr>)"

inductive serves :: "'k kern \<Rightarrow> u64 \<Rightarrow> 'k sys \<Rightarrow> 'k sys \<Rightarrow> bool" for K pd s where
  serves_start: "serves K pd s s"
| serves_request: "serves K pd s t \<Longrightarrow> serve K pd q t = Some (Inr (r, u)) \<Longrightarrow> serves K pd s u"
| serves_other: "serves K pd s t \<Longrightarrow> serves K pd s (t\<lparr>kst := k, user := m\<rparr>)"

definition waits :: "request \<Rightarrow> bool" where
  "waits q \<longleftrightarrow> (\<exists>arg < PCIDRIVER_INT_MAXSOURCES. q = Ioctl PCIDRIVER_IOC_WAITI arg)"

lemma safe_wait_refused: "\<not> arg < PCIDRIVER_INT_MAXSOURCES \<Longrightarrow> safe B pd (ioctl_wait_interrupt K pd arg)"
  unfolding ioctl_wait_interrupt_def by (auto simp: not_less intro: safe_ret)

lemma safe_handler: "safe B pd (thn (pcidriver_irq_handler pd) (ret a))"
  unfolding safe_def by (simp add: wp_iff thn_def bnd_def handler_runs)

text \<open>A file left behind by a failed allocation.\<close>

fun stale :: "u64 \<Rightarrow> request \<Rightarrow> 'k sys \<Rightarrow> bool" where
  "stale pd (Show name) s \<longleftrightarrow>
     name \<notin> set [''irq_count'', ''irq_queues'', ''mmap_mode'', ''mmap_area'', ''kmem_count'', ''kmem_alloc'',
       ''kmem_free'', ''kbuffers'', ''umappings'', ''umem_unmap''] \<and>
     (\<forall>e \<in> set (kmem_list (privs s pd)). attr_name (ke_attr e) \<noteq> name) \<and>
     (\<forall>e \<in> set (umem_list (privs s pd)). attr_name (ue_attr e) \<noteq> name) \<and>
     file_there (class_dev (privs s pd)) name s"
| "stale pd q s \<longleftrightarrow> False"

lemma show_file_runs:
  "stale pd (Show name) s \<Longrightarrow> show_file K pd name s = Some (Inl BadPointer)"
  "\<not> stale pd (Show name) s \<Longrightarrow> \<exists>r. show_file K pd name s = Some (Inr (r, s))"
  by (auto simp: show_file_def show_device_def show_buffer_def priv_def bnd_def)

lemma serve_stale:
  assumes "stale pd q s"
  shows "serve K pd q s = Some (Inl BadPointer)"
proof (cases q)
  case (Show name)
  then show ?thesis using show_file_runs(1)[where K = K] assms by (simp del: stale.simps)
qed (use assms in simp_all)

text \<open>What a request may lose, by its result and the private data before and after it.\<close>

definition leaves :: "handled_request \<Rightarrow> resource multiset \<Rightarrow> bool" where
  "leaves h D \<longleftrightarrow> D = {#} \<or> (case h of (p, q, r, p') \<Rightarrow>
     case q of
       Ioctl cmd arg \<Rightarrow>
         r \<noteq> 0 \<and>
        (cmd = PCIDRIVER_IOC_KMEM_ALLOC \<and> kmem_list p' = kmem_list p \<and> kmem_lost (class_dev p) D \<or>
         cmd = PCIDRIVER_IOC_UMEM_SGMAP \<and> umem_list p' = umem_list p \<and> umem_lost D \<or>
         cmd = PCIDRIVER_IOC_UMEM_SGGET \<and> (\<exists>v. D = {#Vmem v#}))
     | Store_kmem_alloc buf \<Rightarrow> kmem_list p' = kmem_list p \<and> kmem_lost (class_dev p) D
     | _ \<Rightarrow> False)"

definition leaky :: "resource multiset \<Rightarrow> u64 \<Rightarrow> request \<Rightarrow> ('k sys, int) prog \<Rightarrow> 'k sys \<Rightarrow> bool" where
  "leaky B pd q p s \<longleftrightarrow> wp p (\<lambda>r t. \<exists>D. leaves (privs s pd, q, r, privs t pd) D \<and> dev_inv (B + D) pd t) s"

lemma leaky_if: "(b \<Longrightarrow> leaky B pd q p s) \<Longrightarrow> (\<not> b \<Longrightarrow> leaky B pd q p' s) \<Longrightarrow> leaky B pd q (if b then p else p') s"
  by simp

lemma safe_leaky: "safe B pd p \<Longrightarrow> dev_inv B pd s \<Longrightarrow> leaky B pd q p s"
  unfolding safe_def leaky_def by (fastforce intro: wp_mono[of p] exI[of _ "{#}"] simp: leaves_def)

lemma leaky_kmem_alloc:
  assumes s: "dev_inv B pd s" and cmd: "cmd = PCIDRIVER_IOC_KMEM_ALLOC"
  shows "leaky B pd (Ioctl cmd arg) (ioctl_kmem_alloc K pd arg) s"
proof -
  have none: "\<exists>D. leaves h D \<and> dev_inv (B + D) pd t" if "dev_inv B pd t" for h t
    using that by (intro exI[of _ "{#}"]) (simp add: leaves_def)
  have "wp (pcidriver_kmem_alloc K pd h) (\<lambda>rh. wp (if fst rh \<noteq> 0 then ret (fst rh)
      else WRITE_TO_USER K (\<lambda>u. u\<lparr>u_kmem := (u_kmem u)(arg := snd rh)\<rparr>) sizeof_kmem_handle arg (ret 0))
      (\<lambda>r t. \<exists>D. leaves (privs s pd, Ioctl cmd arg, r, privs t pd) D \<and> dev_inv (B + D) pd t)) s" for h
  proof (rule wp_inv_kmem_alloc[OF s], goal_cases)
    case (1 h' t)
    then show ?case by (auto simp: WRITE_TO_USER_def wp_simps intro!: none dev_inv_user)
  next
    case (2 h' t D)
    then show ?case by (auto simp: wp_simps ENOMEM_def cmd leaves_def intro!: exI[of _ D])
  qed
  then show ?thesis
    unfolding leaky_def ioctl_kmem_alloc_def wp_READ wp_bnd using none[OF s] by simp
qed

lemma leaky_store_kmem_alloc:
  assumes s: "dev_inv B pd s"
  shows "leaky B pd (Store_kmem_alloc buf) (pcidriver_store_kmem_alloc K pd buf) s"
proof (cases "k_sscanf_lu K buf")
  case None
  then show ?thesis using s by (auto simp: leaky_def pcidriver_store_kmem_alloc_def wp_simps leaves_def intro!: exI[of _ "{#}"])
next
  case (Some n)
  have "wp (pcidriver_kmem_alloc K pd h) (\<lambda>_ t. \<exists>D. leaves (privs s pd, Store_kmem_alloc buf, int (length buf), privs t pd) D \<and>
      dev_inv (B + D) pd t) s" for h
  proof (rule wp_inv_kmem_alloc[OF s], goal_cases)
    case (1 h' t)
    then show ?case by (auto simp: leaves_def intro!: exI[of _ "{#}"])
  next
    case (2 h' t D)
    then show ?case by (auto simp: leaves_def intro!: exI[of _ D])
  qed
  then show ?thesis using Some by (simp add: leaky_def pcidriver_store_kmem_alloc_def wp_simps)
qed

lemma leaky_sgmap:
  assumes K: "vmalloc_sane K" "map_sg_sane K" and s: "dev_inv B pd s" and cmd: "cmd = PCIDRIVER_IOC_UMEM_SGMAP"
  shows "leaky B pd (Ioctl cmd arg) (ioctl_umem_sgmap K pd arg) s"
proof -
  have none: "\<exists>D. leaves h D \<and> dev_inv (B + D) pd t" if "dev_inv B pd t" for h t
    using that by (intro exI[of _ "{#}"]) (simp add: leaves_def)
  have "wp (pcidriver_umem_sgmap K pd h) (\<lambda>rh. wp (if fst rh \<noteq> 0 then ret (fst rh)
      else WRITE_TO_USER K (\<lambda>u. u\<lparr>u_umem := (u_umem u)(arg := snd rh)\<rparr>) sizeof_umem_handle arg (ret 0))
      (\<lambda>r t. \<exists>D. leaves (privs s pd, Ioctl cmd arg, r, privs t pd) D \<and> dev_inv (B + D) pd t)) s" for h
  proof (rule wp_inv_sgmap[OF K s], goal_cases)
    case (1 r h' t)
    then show ?case by (auto simp: WRITE_TO_USER_def wp_simps intro!: none dev_inv_user)
  next
    case (2 h' t D)
    then show ?case by (auto simp: wp_simps ENOMEM_def cmd leaves_def intro!: exI[of _ D])
  qed
  then show ?thesis
    unfolding leaky_def ioctl_umem_sgmap_def wp_READ wp_bnd using none[OF s] by simp
qed

lemma leaky_sgget:
  assumes vm: "vmalloc_sane K" and s: "dev_inv B pd s" and cmd: "cmd = PCIDRIVER_IOC_UMEM_SGGET"
  shows "leaky B pd (Ioctl cmd arg) (ioctl_umem_sgget K pd arg) s"
  unfolding leaky_def
proof (rule wp_inv_ioctl_sgget[OF vm s], goal_cases)
  case (1 r t)
  then show ?case by (auto simp: leaves_def intro!: exI[of _ "{#}"])
next
  case (2 r t v)
  then show ?case by (auto simp: leaves_def cmd intro!: exI[of _ "{#Vmem v#}"])
qed

lemma serve_leaky:
  assumes "vmalloc_sane K" and "map_sg_sane K" and "\<not> waits q" and "\<not> stale pd q s" and s: "dev_inv B pd s"
  shows "leaky B pd q (serve K pd q) s"
proof (cases q)
  case (Ioctl cmd arg)
  have w: "cmd = PCIDRIVER_IOC_WAITI \<Longrightarrow> \<not> arg < PCIDRIVER_INT_MAXSOURCES"
    using assms(3) Ioctl by (auto simp: waits_def)
  show ?thesis
    unfolding Ioctl serve.simps pcidriver_ioctl_def
    by (intro leaky_if leaky_kmem_alloc[OF s] leaky_sgmap[OF assms(1,2) s] leaky_sgget[OF assms(1) s] safe_leaky[OF _ s]
        safe_ret safe_mmap_mode safe_mmap_area safe_config safe_info safe_ioctl_kmem safe_ioctl_umem safe_wait_refused
        safe_clear_ioq w)
next
  case (Store_kmem_alloc buf)
  then show ?thesis using leaky_store_kmem_alloc[OF s] by simp
next
  case (Show name)
  then show ?thesis using show_file_runs(2)[where K = K and s = s and pd = pd and name = name] assms(4) s
    by (auto simp: leaky_def wp_iff leaves_def simp del: stale.simps intro!: exI[of _ "{#}"])
qed (use safe_leaky[OF _ s] in \<open>simp_all only: serve.simps safe_mmap safe_store_mmap_mode safe_store_mmap_area
      safe_store_kmem_free safe_store_umem_unmap safe_handler\<close>)

lemma ioctl_codes:
  "PCIDRIVER_IOC_WAITI \<notin> {PCIDRIVER_IOC_MMAP_MODE, PCIDRIVER_IOC_MMAP_AREA, PCIDRIVER_IOC_PCI_CFG_RD, PCIDRIVER_IOC_PCI_CFG_WR,
     PCIDRIVER_IOC_PCI_INFO, PCIDRIVER_IOC_KMEM_ALLOC, PCIDRIVER_IOC_KMEM_FREE, PCIDRIVER_IOC_KMEM_SYNC,
     PCIDRIVER_IOC_UMEM_SGMAP, PCIDRIVER_IOC_UMEM_SGUNMAP, PCIDRIVER_IOC_UMEM_SGGET, PCIDRIVER_IOC_UMEM_SYNC}"
  by code_simp

lemma wait_stuck_request:
  assumes "dev_inv B pd s" and "waits q"
  shows "serve K pd q s = None"
proof -
  obtain arg where q: "q = Ioctl PCIDRIVER_IOC_WAITI arg" "arg < PCIDRIVER_INT_MAXSOURCES"
    using assms(2) by (auto simp: waits_def)
  have "ioctl_wait_interrupt K pd arg s = None"
    using assms(1) by (intro wait_forever q(2)) (simp add: dev_inv_def)
  then show ?thesis using ioctl_codes unfolding q(1) serve.simps pcidriver_ioctl_def by simp
qed

lemma serve_inv:
  assumes "vmalloc_sane K" and "map_sg_sane K" and s: "dev_inv B pd s" and run: "serve K pd q s = Some (Inr (r, t))"
  obtains D where "leaves (privs s pd, q, r, privs t pd) D" and "dev_inv (B + D) pd t"
proof -
  have "\<not> waits q" using wait_stuck_request[OF s, of q K] run by auto
  moreover have "\<not> stale pd q s" using serve_stale[of pd q s K] run by auto
  ultimately have "leaky B pd q (serve K pd q) s" using assms(1,2) s by (intro serve_leaky)
  then show ?thesis using run that by (auto simp: leaky_def wp_iff)
qed

lemma dev_inv_other: "dev_inv B pd t \<Longrightarrow> dev_inv B pd (t\<lparr>kst := k, user := m\<rparr>)"
  by (elim dev_invE) (rule dev_invI, simp_all)

lemma handled_inv:
  assumes "handled K pd s hs t" and K: "vmalloc_sane K" "map_sg_sane K" and s: "dev_inv B pd s"
  shows "\<exists>Ds. list_all2 leaves hs Ds \<and> dev_inv (B + sum_list Ds) pd t"
  using assms(1)
proof induction
  case handled_start
  then show ?case using s by (intro exI[of _ "[]"]) simp
next
  case (handled_request hs t q r u)
  then obtain Ds where Ds: "list_all2 leaves hs Ds" "dev_inv (B + sum_list Ds) pd t" by blast
  obtain D where "leaves (privs t pd, q, r, privs u pd) D" "dev_inv (B + sum_list Ds + D) pd u"
    by (rule serve_inv[OF K Ds(2) handled_request(2)])
  then show ?case using Ds(1) by (intro exI[of _ "Ds @ [D]"] conjI list_all2_appendI) (simp_all add: add.assoc)
next
  case (handled_other hs t k m)
  then obtain Ds where "list_all2 leaves hs Ds" "dev_inv (B + sum_list Ds) pd t" by blast
  then show ?case by (intro exI[of _ Ds] conjI dev_inv_other)
qed

lemma handled_serves: "handled K pd s hs t \<Longrightarrow> serves K pd s t"
  by (induction rule: handled.induct) (auto intro: serves.intros)

lemma serves_inv:
  assumes "serves K pd s t" and K: "vmalloc_sane K" "map_sg_sane K" and s: "dev_inv B pd s"
  shows "\<exists>L. dev_inv (B + L) pd t"
  using assms(1)
proof induction
  case serves_start
  then show ?case using s by (intro exI[of _ "{#}"]) simp
next
  case (serves_request t q r u)
  then obtain L where "dev_inv (B + L) pd t" by blast
  then obtain D where "dev_inv (B + L + D) pd u" by (rule serve_inv[OF K _ serves_request(2)])
  then show ?case by (metis add.assoc)
next
  case (serves_other t k m)
  then obtain L where "dev_inv (B + L) pd t" by blast
  then show ?case by (intro exI[of _ L] dev_inv_other)
qed

lemma dev_inv_sys0: "dev_inv {#} 7 sys0"
  by (rule dev_invI)
     (simp_all add: sys0_def priv0_def kmem_all_def umem_all_def holds_def PCIDRIVER_MMAP_KMEM_def PCIDRIVER_BAR5_def)

lemma map_sg_sane_kern0: "map_sg_sane kern0"
  by (simp add: map_sg_sane_def kern0_def unsigned_of_nat take_bit_nat_less_eq_self)

text \<open>The state after a mapping and a buffer, by the commands of user space.\<close>

definition some_requests :: "(u64 sys, int) prog" where
  "some_requests =
     thn (serve kern0 7 (Ioctl PCIDRIVER_IOC_UMEM_SGMAP 0))
    (thn (serve kern0 7 (Ioctl PCIDRIVER_IOC_KMEM_ALLOC 0))
         (serve kern0 7 (Ioctl PCIDRIVER_IOC_UMEM_SGGET 0)))"

lemma some_requests_run:
  "wp some_requests (\<lambda>r t. r = 0 \<and> length (umem_list (privs t 7)) = 1 \<and> length (kmem_list (privs t 7)) = 1 \<and>
     sgl_nents (u_sglist (user t) 0) = 1 \<and> sge_size (u_sgentry (user t) 0) = 8192) sys0"
  by code_simp

lemma example_handled:
  "\<exists>t r0 r1 r2 p1 p2 p3. handled kern0 7 sys0 [(privs sys0 7, Ioctl PCIDRIVER_IOC_UMEM_SGMAP 0, r0, p1),
     (p1, Ioctl PCIDRIVER_IOC_KMEM_ALLOC 0, r1, p2), (p2, Ioctl PCIDRIVER_IOC_UMEM_SGGET 0, r2, p3)] t \<and>
     length (umem_list (privs t 7)) = 1 \<and> length (kmem_list (privs t 7)) = 1"
proof -
  obtain r2 t where t: "some_requests sys0 = Some (Inr (r2, t))" "length (umem_list (privs t 7)) = 1" "length (kmem_list (privs t 7)) = 1"
    using some_requests_run unfolding wp_iff by blast
  obtain r0 s1 r1 s2 where
    s1: "serve kern0 7 (Ioctl PCIDRIVER_IOC_UMEM_SGMAP 0) sys0 = Some (Inr (r0, s1))" and
    s2: "serve kern0 7 (Ioctl PCIDRIVER_IOC_KMEM_ALLOC 0) s1 = Some (Inr (r1, s2))" and
    s3: "serve kern0 7 (Ioctl PCIDRIVER_IOC_UMEM_SGGET 0) s2 = Some (Inr (r2, t))"
    using t(1) unfolding some_requests_def thn_ok_iff by blast
  have "handled kern0 7 sys0 (((([] @ [(privs sys0 7, Ioctl PCIDRIVER_IOC_UMEM_SGMAP 0, r0, privs s1 7)]) @
      [(privs s1 7, Ioctl PCIDRIVER_IOC_KMEM_ALLOC 0, r1, privs s2 7)])) @ [(privs s2 7, Ioctl PCIDRIVER_IOC_UMEM_SGGET 0, r2, privs t 7)]) t"
    by (rule handled_request[OF handled_request[OF handled_request[OF handled_start s1] s2] s3])
  then show ?thesis using t(2,3) unfolding append_Nil append_Cons by blast
qed

lemma example_state:
  "\<exists>t. serves kern0 7 sys0 t \<and> length (umem_list (privs t 7)) = 1 \<and> length (kmem_list (privs t 7)) = 1"
  using example_handled handled_serves by blast

section \<open>Correctness\<close>

text \<open>
  C10 (invariant). Whatever is asked of a device, in whatever order, and whatever the kernel answers and
  user space writes into its memory meanwhile: what the driver holds is what it held at first, the
  resources of the entries of its two lists, each exactly once, and what single requests have lost. A
  request loses nothing unless it is an allocation of a buffer that failed (then at most the name of a file, or
  a file and its name), a mapping that failed (at most the name of a file) or a failed request for a table
  (at most the array for it). Nothing is ever released that is not held. The mode and the BAR for \<^verbatim>\<open>mmap\<close> stay
  in range. (\<^verbatim>\<open>vmalloc\<close> fails for impossible sizes and \<^verbatim>\<open>pci_map_sg\<close> uses no more entries than it was given.)
\<close>

theorem driver_holds_its_lists:
  assumes "handled K pd s hs t" and "vmalloc_sane K" and "map_sg_sane K" and "dev_inv B pd s"
  shows "\<exists>Ds. list_all2 leaves hs Ds \<and>
      holds t (kmem_all (privs t pd) + (umem_all (privs t pd) + (B + sum_list Ds))) \<and>
      mmap_mode (privs t pd) \<in> {PCIDRIVER_MMAP_PCI, PCIDRIVER_MMAP_KMEM} \<and> mmap_area (privs t pd) \<le> PCIDRIVER_BAR5"
proof -
  obtain Ds where "list_all2 leaves hs Ds" "dev_inv (B + sum_list Ds) pd t"
    using handled_inv[OF assms] by blast
  then show ?thesis using mode_range by (auto simp: dev_inv_def)
qed

theorem driver_holds_its_lists_witness:
  "\<exists>t hs. handled kern0 7 sys0 hs t \<and> length hs = 3 \<and> length (umem_list (privs t 7)) = 1 \<and> length (kmem_list (privs t 7)) = 1 \<and>
     vmalloc_sane kern0 \<and> map_sg_sane kern0 \<and> dev_inv {#} 7 sys0 \<and>
     (\<exists>Ds. list_all2 leaves hs Ds \<and>
      holds t (kmem_all (privs t 7) + (umem_all (privs t 7) + ({#} + sum_list Ds))) \<and>
      mmap_mode (privs t 7) \<in> {PCIDRIVER_MMAP_PCI, PCIDRIVER_MMAP_KMEM} \<and> mmap_area (privs t 7) \<le> PCIDRIVER_BAR5)"
proof -
  obtain t r0 r1 r2 p1 p2 p3 where t: "handled kern0 7 sys0 [(privs sys0 7, Ioctl PCIDRIVER_IOC_UMEM_SGMAP 0, r0, p1),
     (p1, Ioctl PCIDRIVER_IOC_KMEM_ALLOC 0, r1, p2), (p2, Ioctl PCIDRIVER_IOC_UMEM_SGGET 0, r2, p3)] t"
    "length (umem_list (privs t 7)) = 1" "length (kmem_list (privs t 7)) = 1"
    using example_handled by blast
  show ?thesis
    by (rule exI[of _ t], rule exI, intro conjI, rule t(1))
       (use t(2,3) driver_holds_its_lists[OF t(1) vmalloc_sane_kern0 map_sg_sane_kern0 dev_inv_sys0]
          vmalloc_sane_kern0 map_sg_sane_kern0 dev_inv_sys0 in simp_all)
qed

text \<open>
  C19 (safety). In every state that a sequence of requests leads to, every further request returns without a
  fault of the kernel, with two exceptions: a wait for an interrupt of a source that exists, and reading the
  file of a buffer whose allocation failed after the file was made. That file is still there, but its
  attribute was in the entry that was released, so that reading it uses memory that is not the driver's any more.
\<close>

theorem requests_return:
  assumes "serves K pd s t" and "vmalloc_sane K" and "map_sg_sane K" and "dev_inv B pd s" and "\<not> waits q"
  shows "if stale pd q t then serve K pd q t = Some (Inl BadPointer) else (\<exists>r u. serve K pd q t = Some (Inr (r, u)))"
proof (cases "stale pd q t")
  case True
  then show ?thesis using serve_stale[of pd q t K] by simp
next
  case False
  obtain L where "dev_inv (B + L) pd t" using serves_inv[OF assms(1-4)] by blast
  then have "leaky (B + L) pd q (serve K pd q) t" using False assms by (intro serve_leaky)
  then show ?thesis using False by (auto simp: leaky_def wp_iff)
qed

text \<open>A kernel that has no memory for buffers: the file \<open>kbuf0\<close> of the first request stays.\<close>

definition kern_nodma :: "u64 kern" where
  "kern_nodma = kern0\<lparr>k_alloc_consistent := \<lambda>n k. ((0, 0), k)\<rparr>"

lemma kern_nodma_sane: "vmalloc_sane kern_nodma" "map_sg_sane kern_nodma"
  using vmalloc_sane_kern0 map_sg_sane_kern0 by (simp_all add: kern_nodma_def vmalloc_sane_def map_sg_sane_def kern0_def)

lemma failed_alloc_run: "wp (serve kern_nodma 7 (Ioctl PCIDRIVER_IOC_KMEM_ALLOC 0)) (\<lambda>r t. r = - 12 \<and> stale 7 (Show ''kbuf0'') t) sys0"
  by code_simp

theorem requests_return_witness:
  "\<exists>t. serves kern_nodma 7 sys0 t \<and> dev_inv {#} 7 sys0 \<and> vmalloc_sane kern_nodma \<and> map_sg_sane kern_nodma \<and>
     stale 7 (Show ''kbuf0'') t \<and> serve kern_nodma 7 (Show ''kbuf0'') t = Some (Inl BadPointer) \<and>
     \<not> stale 7 (Ioctl PCIDRIVER_IOC_WAITI 16) t \<and> (\<exists>r u. serve kern_nodma 7 (Ioctl PCIDRIVER_IOC_WAITI 16) t = Some (Inr (r, u)))"
proof -
  have w: "\<not> waits (Ioctl PCIDRIVER_IOC_WAITI 16)" "\<not> waits (Show ''kbuf0'')" by (simp_all add: waits_def PCIDRIVER_INT_MAXSOURCES_def)
  obtain r t where t: "serve kern_nodma 7 (Ioctl PCIDRIVER_IOC_KMEM_ALLOC 0) sys0 = Some (Inr (r, t))" "stale 7 (Show ''kbuf0'') t"
    using failed_alloc_run unfolding wp_iff by blast
  have r: "serves kern_nodma 7 sys0 t" by (rule serves_request[OF serves_start t(1)])
  note c = requests_return[OF r kern_nodma_sane dev_inv_sys0]
  have a: "serve kern_nodma 7 (Show ''kbuf0'') t = Some (Inl BadPointer)" using c[OF w(2)] t(2) by simp
  have b: "\<exists>r u. serve kern_nodma 7 (Ioctl PCIDRIVER_IOC_WAITI 16) t = Some (Inr (r, u))" using c[OF w(1)] by simp
  show ?thesis by (intro exI[of _ t] conjI r dev_inv_sys0 kern_nodma_sane t(2) a b) simp
qed

text \<open>
  C38 (liveness). A wait for an interrupt of a source that exists never returns, however many interrupts
  the device raises: the handler does not count them, because the code that would is commented out.
\<close>

theorem waits_forever:
  assumes "serves K pd s t" and "vmalloc_sane K" and "map_sg_sane K" and "dev_inv B pd s" and "arg < PCIDRIVER_INT_MAXSOURCES"
  shows "pcidriver_ioctl K pd PCIDRIVER_IOC_WAITI arg t = None"
  using serves_inv[OF assms(1-4)] wait_stuck_request[of _ pd t "Ioctl PCIDRIVER_IOC_WAITI arg" K] assms(5)
  by (auto simp: waits_def)

theorem waits_forever_witness:
  "\<exists>t. serves kern0 7 sys0 t \<and> length (umem_list (privs t 7)) = 1 \<and> length (kmem_list (privs t 7)) = 1 \<and>
     vmalloc_sane kern0 \<and> map_sg_sane kern0 \<and> dev_inv {#} 7 sys0 \<and> (3 :: u64) < PCIDRIVER_INT_MAXSOURCES \<and>
     pcidriver_ioctl kern0 7 PCIDRIVER_IOC_WAITI 3 t = None"
proof -
  have w: "(3 :: u64) < PCIDRIVER_INT_MAXSOURCES" by (simp add: PCIDRIVER_INT_MAXSOURCES_def)
  show ?thesis
    using example_state waits_forever[OF _ vmalloc_sane_kern0 map_sg_sane_kern0 dev_inv_sys0 w]
      vmalloc_sane_kern0 map_sg_sane_kern0 dev_inv_sys0 w by blast
qed


text \<open>
  A BAR of a page or more is mapped whole at the address of the request, whatever size was
  asked for: neither a smaller nor a larger area is refused.
\<close>

lemma mmap_ignores_size:
  assumes "mmap_mode (privs s pd) = PCIDRIVER_MMAP_PCI" and "mmap_area (privs s pd) \<le> PCIDRIVER_BAR5"
    and "bar = unat (mmap_area (privs s pd))" and "PAGE_SIZE \<le> k_resource_len K bar"
    and "fst (k_remap K vm_start (drop_bit PAGE_SHIFT (k_resource_start K bar)) (k_resource_len K bar) (kst s)) = 0"
  shows "wp (pcidriver_mmap K pd vm_start vm_end) (\<lambda>r t. r = 0 \<and>
     klog t = klog s @ [Remap vm_start (drop_bit PAGE_SHIFT (k_resource_start K bar)) (k_resource_len K bar)]) s"
  using assms unfolding pcidriver_mmap_def pcidriver_mmap_pci_def remap_pfn_range_def Let_def
  by (simp add: wp_simps wp_call_eq event_def not_less)

lemma mmap_ignores_size_witness:
  "mmap_mode (privs sys0 7) = PCIDRIVER_MMAP_PCI \<and> mmap_area (privs sys0 7) \<le> PCIDRIVER_BAR5 \<and>
   0 = unat (mmap_area (privs sys0 7)) \<and> PAGE_SIZE \<le> k_resource_len kern0 0 \<and>
   wp (pcidriver_mmap kern0 7 4096 8192) (\<lambda>r t. r = 0 \<and>
     klog t = klog sys0 @ [Remap 4096 (drop_bit PAGE_SHIFT (k_resource_start kern0 0)) (k_resource_len kern0 0)]) sys0 \<and>
   k_resource_len kern0 0 \<noteq> 8192 - 4096"
proof -
  have h: "mmap_mode (privs sys0 7) = PCIDRIVER_MMAP_PCI" "mmap_area (privs sys0 7) \<le> PCIDRIVER_BAR5"
    "0 = unat (mmap_area (privs sys0 7))" "PAGE_SIZE \<le> k_resource_len kern0 0"
    "fst (k_remap kern0 4096 (drop_bit PAGE_SHIFT (k_resource_start kern0 0)) (k_resource_len kern0 0) (kst sys0)) = 0"
    "k_resource_len kern0 0 \<noteq> 8192 - 4096"
    by (simp_all add: sys0_def priv0_def kern0_def PCIDRIVER_MMAP_PCI_def PCIDRIVER_BAR5_def PAGE_SIZE_val)
  show ?thesis using h mmap_ignores_size[OF h(1-5), of 8192] by blast
qed

end
