(* ===== verification/Pcie_Base.thy ===== *)
theory Pcie_Base
  imports Pcie_Ioctl
begin

text \<open>
  Loading the PCIe driver and attaching it to devices (\<^verbatim>\<open>base.c\<close>, and the set-up of interrupts in
  \<^verbatim>\<open>int.c\<close>): what a device holds once it is set up, what is left of it when the set-up fails and when it is
  removed.
\<close>

section \<open>BARs and interrupts\<close>

text \<open>The loop over the BARs of \<^verbatim>\<open>pcidriver_probe_irq\<close>.\<close>

fun map_bars :: "'k kern \<Rightarrow> u64 \<Rightarrow> nat list \<Rightarrow> ('k sys, int) prog" where
  "map_bars K pd [] = ret 0"
| "map_bars K pd (i # is) =
     (let bar_addr = k_resource_start K i; bar_len = k_resource_len K i; bar_flags = k_resource_flags K i in
      if bar_addr = 0 \<or> bar_len = 0 then map_bars K pd is
      else if bar_flags AND IORESOURCE_IO \<noteq> 0 then map_bars K pd is
      else bnd (acquire K (k_request_region K i) (\<lambda>r. r = 0) (\<lambda>_. Region i)) (\<lambda>err.
        if err \<noteq> 0 then ret err
        else bnd (acquire K (k_ioremap K (bar_flags AND IORESOURCE_PREFETCH \<noteq> 0) bar_addr bar_len) (\<lambda>p. p \<noteq> 0) Iomem) (\<lambda>a.
          thn (set_priv pd (\<lambda>p. p\<lparr>bars_kmapped := (bars_kmapped p)(i := a)\<rparr>))
              (if a = 0 then ret (- EIO) else map_bars K pd is))))"

text \<open>From the wait queues on.\<close>

definition setup_irq :: "'k kern \<Rightarrow> u64 \<Rightarrow> ('k sys, int) prog" where
  "setup_irq K pd =
     thn (set_priv pd (\<lambda>p. p\<lparr>irq_outstanding := \<lambda>i. if i < unat PCIDRIVER_INT_MAXSOURCES then 0 else irq_outstanding p i\<rparr>))
    (bnd (call (k_config_read K 1 PCI_INTERRUPT_PIN)) (\<lambda>pin.
       let int_pin = (if fst pin \<noteq> 0 then 0 else ucast (snd pin) :: u8) in
       thn (set_priv pd (\<lambda>p. p\<lparr>irq_enabled := False\<rparr>))
      (if int_pin = 0 then ret 0
       else bnd (call (k_config_read K 1 PCI_INTERRUPT_LINE)) (\<lambda>line.
         if fst line \<noteq> 0 then ret 0
         else bnd (acquire K (k_request_irq K) (\<lambda>r. r = 0) (\<lambda>_. Irq pd)) (\<lambda>err.
           if err \<noteq> 0 then ret 0
           else thn (set_priv pd (\<lambda>p. p\<lparr>irq_enabled := True\<rparr>)) (ret 0))))))"

definition pcidriver_probe_irq :: "'k kern \<Rightarrow> u64 \<Rightarrow> ('k sys, int) prog" where
  "pcidriver_probe_irq K pd =
     thn (set_priv pd (\<lambda>p. p\<lparr>bars_kmapped := \<lambda>i. if i < 6 then 0 else bars_kmapped p i\<rparr>))
    (bnd (map_bars K pd [0..<6]) (\<lambda>err. if err \<noteq> 0 then ret err else setup_irq K pd))"

definition unmap_bar :: "'k kern \<Rightarrow> u64 \<Rightarrow> nat \<Rightarrow> ('k sys, unit) prog" where
  "unmap_bar K pd i =
     bnd (priv pd) (\<lambda>p.
     if bars_kmapped p i = 0 then ret ()
     else thn (event K (Rel (Iomem (bars_kmapped p i)))) (event K (Rel (Region i))))"

definition pcidriver_irq_unmap_bars :: "'k kern \<Rightarrow> u64 \<Rightarrow> ('k sys, unit) prog" where
  "pcidriver_irq_unmap_bars K pd = doall (map (unmap_bar K pd) [0..<6])"

definition pcidriver_remove_irq :: "'k kern \<Rightarrow> u64 \<Rightarrow> ('k sys, unit) prog" where
  "pcidriver_remove_irq K pd =
     bnd (priv pd) (\<lambda>p.
     thn (if irq_enabled p then event K (Rel (Irq pd)) else ret ())
         (pcidriver_irq_unmap_bars K pd))"

section \<open>The module\<close>

definition MAXDEVICES :: nat where "MAXDEVICES = 4"

text \<open>
  \<^verbatim>\<open>pcidriver_init\<close>. When the class cannot be created, \<^verbatim>\<open>err\<close> is still what \<^verbatim>\<open>alloc_chrdev_region\<close> returned.
\<close>

definition pcidriver_init :: "'k kern \<Rightarrow> ('k sys, int) prog" where
  "pcidriver_init K =
     thn (modify (\<lambda>s. s\<lparr>deviceCount := 0\<rparr>))
    (bnd (acquire K (k_alloc_chrdev K) (\<lambda>r. r = 0) (\<lambda>_. Chrdev)) (\<lambda>err.
     if err \<noteq> 0 then ret err
     else bnd (acquire K (k_class_create K) (\<lambda>ok. ok) (\<lambda>_. Class)) (\<lambda>ok.
       if \<not> ok then thn (event K (Rel Chrdev)) (ret err)
       else bnd (acquire K (k_register_driver K) (\<lambda>r. r \<ge> 0) (\<lambda>_. Pci_driver)) (\<lambda>err.
         if err < 0 then thn (event K (Rel Class)) (thn (event K (Rel Chrdev)) (ret err))
         else ret 0))))"

definition pcidriver_exit :: "'k kern \<Rightarrow> ('k sys, unit) prog" where
  "pcidriver_exit K =
     thn (event K (Rel Pci_driver))
    (thn (event K (Rel Chrdev))
         (event K (Rel Class)))"

section \<open>Devices\<close>

definition device_files :: "string list" where
  "device_files = [''irq_count'', ''irq_queues'', ''mmap_mode'', ''mmap_area'', ''kmem_count'', ''kmem_alloc'',
     ''kmem_free'', ''kbuffers'', ''umappings'', ''umem_unmap'']"

text \<open>The files one after the other, up to the first that cannot be created.\<close>

fun create_files :: "'k kern \<Rightarrow> u64 \<Rightarrow> string list \<Rightarrow> ('k sys, bool) prog" where
  "create_files K dev [] = ret True"
| "create_files K dev (n # ns) =
     bnd (class_device_create_file K dev n) (\<lambda>r. if r \<noteq> 0 then ret False else create_files K dev ns)"

text \<open>The labels at the end of \<^verbatim>\<open>pcidriver_probe\<close>, the outer ones first.\<close>

definition probe_disable_device :: "'k kern \<Rightarrow> int \<Rightarrow> ('k sys, int) prog" where
  "probe_disable_device K err = thn (event K (Rel Enabled)) (ret err)"

definition probe_nomem :: "'k kern \<Rightarrow> int \<Rightarrow> ('k sys, int) prog" where
  "probe_nomem K err = thn (modify (\<lambda>s. s\<lparr>deviceCount := deviceCount s - 1\<rparr>)) (probe_disable_device K err)"

definition probe_fail :: "'k kern \<Rightarrow> u64 \<Rightarrow> int \<Rightarrow> ('k sys, int) prog" where
  "probe_fail K pd err =
     thn (pcidriver_irq_unmap_bars K pd)
    (thn (kfree K pd) (probe_nomem K err))"

text \<open>
  From the zeroed private data on. What \<^verbatim>\<open>device_create\<close> returns is used without a test, by \<^verbatim>\<open>class_set_devdata\<close>; when it
  is not a pointer to a device, that is a bad access of the kernel.
\<close>

definition no_device :: "u64 \<Rightarrow> bool" where
  "no_device c \<longleftrightarrow> c = 0 \<or> IS_ERR c"

definition probe_device :: "'k kern \<Rightarrow> u64 \<Rightarrow> nat \<Rightarrow> ('k sys, int) prog" where
  "probe_device K pd devid =
     thn (set_priv pd (\<lambda>_. priv0))
    (thn (modify (\<lambda>s. s\<lparr>drvdata := pd\<rparr>))
    (thn (set_priv pd (\<lambda>p. p\<lparr>devno := devid\<rparr>))
    (bnd (acquire K (k_device_create K devid) (\<lambda>c. \<not> no_device c) (\<lambda>_. Class_dev devid)) (\<lambda>c.
     thn (set_priv pd (\<lambda>p. p\<lparr>class_dev := c\<rparr>))
    (if no_device c then fail BadPointer
     else bnd (pcidriver_probe_irq K pd) (\<lambda>err.
       if err \<noteq> 0 then probe_fail K pd err
       else bnd (create_files K c device_files) (\<lambda>ok.
         if \<not> ok then probe_fail K pd err
         else bnd (acquire K (k_cdev_add K devid) (\<lambda>r. r = 0) (\<lambda>_. Cdev pd)) (\<lambda>err.
           if err \<noteq> 0 then probe_fail K pd err
           else ret 0))))))))"

definition pcidriver_probe :: "'k kern \<Rightarrow> ('k sys, int) prog" where
  "pcidriver_probe K =
     bnd (acquire K (k_enable_device K) (\<lambda>r. r = 0) (\<lambda>_. Enabled)) (\<lambda>err.
     if err \<noteq> 0 then ret err
     else thn (event K Set_master)
       (bnd (call (k_set_dma_mask K 64)) (\<lambda>err.
        bnd (if err \<noteq> 0 then call (k_set_dma_mask K 32) else ret err) (\<lambda>err.
        if err \<noteq> 0 then probe_disable_device K err
        else bnd (gets deviceCount) (\<lambda>devid.
          thn (modify (\<lambda>s. s\<lparr>deviceCount := deviceCount s + 1\<rparr>))
         (if sint devid \<ge> int MAXDEVICES then probe_disable_device K (- ENOMSG)
          else bnd (kmalloc K (k_sizeof_privdata K)) (\<lambda>pd.
            if pd = 0 then probe_nomem K (- ENOMEM)
            else probe_device K pd (unat devid))))))))"

definition pcidriver_remove :: "'k kern \<Rightarrow> ('k sys, unit) prog" where
  "pcidriver_remove K =
     bnd (gets drvdata) (\<lambda>pd.
     bnd (priv pd) (\<lambda>p.
       thn (doall (map (class_device_remove_file K (class_dev p)) device_files))
      (thn (pcidriver_kmem_free_all K pd)
      (thn (pcidriver_remove_irq K pd)
      (thn (event K (Rel (Cdev pd)))
      (thn (event K (Rel (Class_dev (devno p))))
      (thn (kfree K pd)
           (event K (Rel Enabled)))))))))"

section \<open>What a device holds\<close>

definition bar_res :: "pcidriver_privdata_t \<Rightarrow> nat \<Rightarrow> resource multiset" where
  "bar_res p i = (if bars_kmapped p i = 0 then {#} else {#Iomem (bars_kmapped p i), Region i#})"

definition bars_res :: "pcidriver_privdata_t \<Rightarrow> nat list \<Rightarrow> resource multiset" where
  "bars_res p is = sum_list (map (bar_res p) is)"

definition irq_res :: "u64 \<Rightarrow> pcidriver_privdata_t \<Rightarrow> resource multiset" where
  "irq_res pd p = (if irq_enabled p then {#Irq pd#} else {#})"

definition files_res :: "u64 \<Rightarrow> string list \<Rightarrow> resource multiset" where
  "files_res dev ns = mset (map (File dev) ns)"

definition dev_res :: "u64 \<Rightarrow> pcidriver_privdata_t \<Rightarrow> resource multiset" where
  "dev_res pd p =
     {#Enabled, Class_dev (devno p), Cdev pd#} + kres pd + files_res (class_dev p) device_files + irq_res pd p + bars_res p [0..<6]"


lemma bars_res_Cons: "bars_res p (i # is) = bar_res p i + bars_res p is"
  by (simp add: bars_res_def)

lemma bars_res_Nil [simp]: "bars_res p [] = {#}"
  by (simp add: bars_res_def)

lemma bars_res_cong: "(\<And>i. i \<in> set is \<Longrightarrow> bars_kmapped p i = bars_kmapped q i) \<Longrightarrow> bars_res p is = bars_res q is"
  unfolding bars_res_def by (rule arg_cong[where f = sum_list], rule map_cong) (simp_all add: bar_res_def)

lemma bars_res_none: "(\<And>i. i \<in> set is \<Longrightarrow> bars_kmapped p i = 0) \<Longrightarrow> bars_res p is = {#}"
  by (induction "is") (simp_all add: bars_res_Cons bar_res_def)

lemma wp_unmap_bar:
  assumes s: "holds s (bar_res (privs s pd) i + H)" and Q: "\<And>t. same s t \<Longrightarrow> holds t H \<Longrightarrow> Q () t"
  shows "wp (unmap_bar K pd i) Q s"
proof (cases "bars_kmapped (privs s pd) i = 0")
  case True
  then show ?thesis using s Q[of s] by (simp add: unmap_bar_def wp_simps bar_res_def)
next
  case False
  let ?m = "Iomem (bars_kmapped (privs s pd) i)"
  have h: "holds s (add_mset ?m (add_mset (Region i) H))" using s False by (simp add: bar_res_def)
  have "wp (event K (Rel ?m)) (\<lambda>_. wp (event K (Rel (Region i))) Q) s"
    by (rule wp_event_Rel[OF h], simp, rule wp_event_Rel, assumption, simp, rule Q) (simp_all add: same_def)
  then show ?thesis using False by (simp add: unmap_bar_def wp_simps)
qed

lemma wp_unmap_bars:
  assumes "holds s (bars_res (privs s pd) is + H)" and "\<And>t. same s t \<Longrightarrow> holds t H \<Longrightarrow> Q () t"
  shows "wp (doall (map (unmap_bar K pd) is)) Q s"
  using assms
proof (induction "is" arbitrary: s)
  case Nil
  then show ?case unfolding list.map doall.simps wp_ret by simp
next
  case (Cons i "is")
  have h: "holds s (bar_res (privs s pd) i + (bars_res (privs s pd) is + H))"
    using Cons.prems(1) by (simp add: bars_res_Cons ac_simps)
  show ?case
    unfolding list.map doall.simps wp_thn
    by (rule wp_unmap_bar[OF h], rule Cons.IH) (use Cons.prems(2) in \<open>simp_all add: same_def\<close>)
qed

lemma wp_remove_irq:
  assumes s: "holds s (irq_res pd (privs s pd) + (bars_res (privs s pd) [0..<6] + H))"
    and Q: "\<And>t. same s t \<Longrightarrow> holds t H \<Longrightarrow> Q () t"
  shows "wp (pcidriver_remove_irq K pd) Q s"
proof -
  have bars: "wp (pcidriver_irq_unmap_bars K pd) Q t"
    if "same s t" "holds t (bars_res (privs s pd) [0..<6] + H)" for t
    unfolding pcidriver_irq_unmap_bars_def
    by (rule wp_unmap_bars[where H = H]) (use that Q in \<open>simp_all add: same_def\<close>)
  show ?thesis
  proof (cases "irq_enabled (privs s pd)")
    case True
    have h: "holds s (add_mset (Irq pd) (bars_res (privs s pd) [0..<6] + H))" using s True by (simp add: irq_res_def)
    have "wp (event K (Rel (Irq pd))) (\<lambda>_. wp (pcidriver_irq_unmap_bars K pd) Q) s"
      by (rule wp_event_Rel[OF h], simp, rule bars) simp_all
    then show ?thesis using True by (simp add: pcidriver_remove_irq_def wp_simps)
  next
    case False
    then show ?thesis using bars[of s] s by (simp add: pcidriver_remove_irq_def wp_simps irq_res_def)
  qed
qed

text \<open>
  The BARs that are mapped are recorded; when one cannot be mapped, its region stays reserved.
\<close>

definition bars_refused :: "'k kern \<Rightarrow> int \<Rightarrow> resource multiset \<Rightarrow> bool" where
  "bars_refused K r L \<longleftrightarrow> r \<noteq> 0 \<and>
     (L = {#} \<and> (\<exists>i k. fst (k_request_region K i k) = r) \<or>
      r = - EIO \<and> (\<exists>i c k. L = {#Region i#} \<and> fst (k_ioremap K c (k_resource_start K i) (k_resource_len K i) k) = 0))"

definition bars_upd :: "u64 \<Rightarrow> (nat \<Rightarrow> u64) \<Rightarrow> 'k sys \<Rightarrow> 'k sys" where
  "bars_upd pd b s = s\<lparr>privs := (privs s)(pd := (privs s pd)\<lparr>bars_kmapped := b\<rparr>)\<rparr>"

lemma wp_map_bars:
  assumes "holds s H" and "distinct is" and "\<And>i. i \<in> set is \<Longrightarrow> bars_kmapped (privs s pd) i = 0"
    and "\<And>r t b L. same (bars_upd pd b s) t \<Longrightarrow> (\<And>i. i \<notin> set is \<Longrightarrow> b i = bars_kmapped (privs s pd) i) \<Longrightarrow>
        holds t (bars_res (privs t pd) is + (L + H)) \<Longrightarrow> r = 0 \<and> L = {#} \<or> bars_refused K r L \<Longrightarrow> Q r t"
  shows "wp (map_bars K pd is) Q s"
  using assms
proof (induction "is" arbitrary: s H Q)
  case Nil
  have "Q 0 s" by (rule Nil(4)[where b = "bars_kmapped (privs s pd)" and L = "{#}"])
     (use Nil in \<open>simp_all add: same_def bars_upd_def\<close>)
  then show ?case unfolding map_bars.simps wp_ret .
next
  case (Cons i "is")
  have skip: "wp (map_bars K pd is) Q s"
  proof (rule Cons.IH[OF Cons.prems(1)], goal_cases)
    case (3 b t L r)
    have "bars_kmapped (privs t pd) i = 0" using 3(1,2) Cons.prems(2,3) by (simp add: same_def bars_upd_def)
    then show ?case using 3 by (intro Cons.prems(4)[where b = b and t = t and L = L and r = r]) (auto simp: bars_res_Cons bar_res_def)
  qed (use Cons.prems in auto)
  have none: "bars_res (privs t pd) (i # is) = {#}" if "same s t" for t
    using that Cons.prems(3) by (intro bars_res_none) (simp add: same_def)
  let ?set = "\<lambda>a. set_priv pd (\<lambda>p. p\<lparr>bars_kmapped := (bars_kmapped p)(i := a)\<rparr>)"
  have mapped: "wp (thn (?set a) (map_bars K pd is)) Q t"
    if t: "same s t" "holds t (add_mset (Iomem a) (add_mset (Region i) H))" and a: "a \<noteq> 0" for t a
    unfolding wp_simps
  proof (rule Cons.IH[where H = "add_mset (Iomem a) (add_mset (Region i) H)"], goal_cases)
    case (4 b u L r)
    have b: "b i = a" using 4(2)[of i] Cons.prems(2) by simp
    then have "bar_res (privs u pd) i = {#Iomem a, Region i#}" using 4(1) a by (simp add: bar_res_def same_def bars_upd_def)
    then have "holds u (bars_res (privs u pd) (i # is) + (L + H))"
      using 4(3) by (simp add: bars_res_Cons ac_simps add_mset_commute)
    moreover have "same (bars_upd pd b s) u" using 4(1) t(1) by (simp add: same_def bars_upd_def)
    ultimately show ?case using 4(2,4) t(1) by (intro Cons.prems(4)[where b = b and t = u and L = L and r = r]) (auto simp: same_def split: if_splits)
  qed (use t Cons.prems(2,3) in \<open>auto simp: same_def\<close>)
  let ?f = "\<lambda>cc. k_ioremap K cc (k_resource_start K i) (k_resource_len K i)"
  have io: "wp (acquire K (?f cc) (\<lambda>p. p \<noteq> 0) Iomem) (\<lambda>a. wp (thn (?set a) (if a = 0 then ret (- EIO) else map_bars K pd is)) Q) t"
    if t: "same s t" "holds t (add_mset (Region i) H)" for t cc
    apply (rule wp_acquire_answer[OF t(2)])
    subgoal for a u
      using mapped[OF same_trans[OF t(1)], of u a] by simp
    subgoal for a u
    proof -
      assume u: "same t u" "\<not> a \<noteq> 0" "holds u (add_mset (Region i) H)" and a: "fst (?f cc (kst t)) = a"
      let ?u = "u\<lparr>privs := (privs u)(pd := (privs u pd)\<lparr>bars_kmapped := (bars_kmapped (privs u pd))(i := a)\<rparr>)\<rparr>"
      have z: "bars_kmapped (privs s pd) i = 0" using Cons.prems(3) by simp
      have "bars_res (privs ?u pd) (i # is) = {#}"
        using Cons.prems(3) t(1) u(1,2) by (intro bars_res_none) (auto simp: same_def)
      then have "Q (- EIO) ?u"
        using t(1) u a z by (intro Cons.prems(4)[where b = "bars_kmapped (privs s pd)" and L = "{#Region i#}"])
          (auto simp: same_def bars_upd_def EIO_def fun_upd_idem bars_refused_def)
      then show ?thesis using u(2) by (simp add: wp_simps)
    qed
    done
  have region: "wp (acquire K (k_request_region K i) (\<lambda>r. r = 0) (\<lambda>_. Region i)) (\<lambda>err.
     wp (if err \<noteq> 0 then ret err else bnd (acquire K (?f cc) (\<lambda>p. p \<noteq> 0) Iomem) (\<lambda>a.
       thn (?set a) (if a = 0 then ret (- EIO) else map_bars K pd is))) Q) s" for cc
    apply (rule wp_acquire_answer[OF Cons.prems(1)])
    subgoal for r t using io[of t cc] by (simp add: wp_simps)
    subgoal for r t
      using Cons.prems(4)[where b = "bars_kmapped (privs s pd)" and L = "{#}" and t = t and r = r] none[of t]
      by (auto simp: wp_simps same_def bars_upd_def bars_refused_def)
    done
  show ?case
    unfolding map_bars.simps Let_def using skip region by (simp add: wp_bnd)
qed


lemma wp_setup_irq:
  assumes s: "holds s H"
    and Q: "\<And>t on. same (s\<lparr>privs := (privs s)(pd := (privs s pd)\<lparr>irq_outstanding := \<lambda>i. if i < unat PCIDRIVER_INT_MAXSOURCES then 0
        else irq_outstanding (privs s pd) i, irq_enabled := on\<rparr>)\<rparr>) t \<Longrightarrow> holds t (irq_res pd (privs t pd) + H) \<Longrightarrow> Q 0 t"
  shows "wp (setup_irq K pd) Q s"
  unfolding setup_irq_def Let_def wp_simps
  apply (rule wp_call[where H = H], simp add: s)
  subgoal for pin t
    apply (cases "(if fst pin \<noteq> 0 then 0 else ucast (snd pin) :: u8) = 0")
    subgoal by (simp add: wp_simps, rule Q[of False]) (simp_all add: same_def irq_res_def)
    subgoal
      apply (simp add: wp_simps)
      apply (rule wp_call[where H = H], simp)
      subgoal for line u
        apply (cases "fst line = 0")
        subgoal
          apply (simp add: wp_simps)
          apply (rule wp_acquire, assumption)
          subgoal for r v by (simp add: wp_simps, rule Q[of True]) (simp_all add: same_def irq_res_def)
          subgoal for r v by (simp add: wp_simps, rule Q[of False]) (simp_all add: same_def irq_res_def)
          done
        subgoal by (simp add: wp_simps, rule Q[of False]) (simp_all add: same_def irq_res_def)
        done
      done
    done
  done

lemma wp_create_files:
  assumes "holds s H"
    and "\<And>t n. same s t \<Longrightarrow> n \<le> length ns \<Longrightarrow> holds t (files_res dev (take n ns) + H) \<Longrightarrow> Q (n = length ns) t"
  shows "wp (create_files K dev ns) Q s"
  using assms
proof (induction ns arbitrary: s H Q)
  case Nil
  then show ?case unfolding create_files.simps wp_ret using Nil(2)[of s 0] by (simp add: files_res_def)
next
  case (Cons f ns)
  show ?case
    unfolding create_files.simps class_device_create_file_def wp_bnd
    apply (rule wp_acquire[OF Cons.prems(1)])
    subgoal for r t
      apply simp
      apply (rule Cons.IH, assumption)
      subgoal for u n
        using Cons.prems(2)[of u "Suc n"] by (simp add: same_def files_res_def ac_simps)
      done
    subgoal for r t
      using Cons.prems(2)[of t 0] by (simp add: wp_simps files_res_def)
    done
qed

lemma wp_probe_fail:
  assumes s: "holds s (add_mset Enabled (kres pd + (bars_res (privs s pd) [0..<6] + H)))"
    and Q: "\<And>t. same (s\<lparr>deviceCount := deviceCount s - 1\<rparr>) t \<Longrightarrow> holds t H \<Longrightarrow> Q err t"
  shows "wp (probe_fail K pd err) Q s"
proof -
  have h: "holds s (bars_res (privs s pd) [0..<6] + (add_mset Enabled (kres pd + H)))" using s by (simp add: ac_simps)
  show ?thesis
    unfolding probe_fail_def probe_nomem_def probe_disable_device_def pcidriver_irq_unmap_bars_def wp_simps
    apply (rule wp_unmap_bars[OF h])
    apply (rule wp_kfree, assumption, simp)
    apply (rule wp_event_Rel[where H = "add_mset Enabled H"], simp, simp)
    by (rule Q) (simp_all add: same_def)
qed


text \<open>Of a fresh device, what the set-up of BARs and interrupts changes.\<close>

definition fresh :: "nat \<Rightarrow> u64 \<Rightarrow> (nat \<Rightarrow> u64) \<Rightarrow> bool \<Rightarrow> pcidriver_privdata_t" where
  "fresh d c b on = priv0\<lparr>devno := d, class_dev := c, bars_kmapped := b, irq_enabled := on\<rparr>"

lemma wp_probe_irq:
  assumes s: "holds s H" and p: "privs s pd = fresh d c (\<lambda>_. 0) False"
    and ok: "\<And>t b on. same (s\<lparr>privs := (privs s)(pd := fresh d c b on)\<rparr>) t \<Longrightarrow>
        holds t (irq_res pd (privs t pd) + (bars_res (privs t pd) [0..<6] + H)) \<Longrightarrow> Q 0 t"
    and fails: "\<And>r t b L. same (s\<lparr>privs := (privs s)(pd := fresh d c b False)\<rparr>) t \<Longrightarrow>
        holds t (bars_res (privs t pd) [0..<6] + (L + H)) \<Longrightarrow> bars_refused K r L \<Longrightarrow> Q r t"
  shows "wp (pcidriver_probe_irq K pd) Q s"
proof -
  have p0: "(privs s)(pd := (privs s pd)\<lparr>bars_kmapped := \<lambda>i. if i < 6 then 0 else bars_kmapped (privs s pd) i\<rparr>) = privs s"
    by (rule fun_upd_idem) (auto simp: p fresh_def priv0_def fun_eq_iff)
  show ?thesis
    unfolding pcidriver_probe_irq_def wp_simps p0
    apply (rule wp_map_bars[where H = H])
    subgoal using s by simp
    subgoal by simp
    subgoal using p by (simp add: fresh_def)
    subgoal for r t b L
      apply (cases "r = 0")
      subgoal
        apply simp
        apply (rule wp_setup_irq, assumption)
        subgoal premises prems for u on
        proof -
          have t: "privs t pd = fresh d c b False"
            using prems p by (simp add: same_def bars_upd_def fresh_def)
          have "bars_res (privs u pd) [0..<6] = bars_res (privs t pd) [0..<6]"
            by (rule bars_res_cong) (use prems in \<open>simp add: same_def\<close>)
          moreover have "(privs t pd)\<lparr>irq_outstanding := \<lambda>i. if i < unat PCIDRIVER_INT_MAXSOURCES then 0
               else irq_outstanding (privs t pd) i, irq_enabled := on\<rparr> = fresh d c b on"
            by (auto simp: t fresh_def priv0_def fun_eq_iff)
          ultimately show ?thesis
            using prems by (intro ok[of b on]) (simp_all add: same_def bars_upd_def bars_refused_def)
        qed
        done
      subgoal
        using p by (simp add: wp_simps, intro fails[of b t L r]) (auto simp: same_def bars_upd_def fresh_def)
      done
    done
qed


lemma kres_eq: "pd \<noteq> 0 \<Longrightarrow> kres pd = {#Kmem pd#}"
  by (simp add: kres_def)

text \<open>
  How the set-up can fail once the class device is there, with the number of files made, whether the interrupt
  handler is installed, and what of the BARs stays reserved: the BARs cannot be set up; a file cannot be made, and
  then the result is still 0; or the character device cannot be added.
\<close>

definition late_failure :: "'k kern \<Rightarrow> int \<Rightarrow> nat \<Rightarrow> bool \<Rightarrow> resource multiset \<Rightarrow> bool" where
  "late_failure K r n on L \<longleftrightarrow>
     n = 0 \<and> \<not> on \<and> bars_refused K r L \<or>
     n < length device_files \<and> r = 0 \<and> L = {#} \<or>
     n = length device_files \<and> r \<noteq> 0 \<and> L = {#}"

lemma wpx_set_priv: "wpx E (set_priv pd f) Q = (\<lambda>s. Q () (s\<lparr>privs := (privs s)(pd := f (privs s pd))\<rparr>))"
  unfolding set_priv_def wpx_simps ..

lemma wp_probe_device:
  assumes s: "holds s (add_mset Enabled (kres pd + H))"
    and dc: "\<And>k. no_device (fst (k_device_create K d k)) \<Longrightarrow> E BadPointer"
    and ok: "\<And>t c b on. same (s\<lparr>privs := (privs s)(pd := fresh d c b on), drvdata := pd\<rparr>) t \<Longrightarrow>
        holds t (dev_res pd (fresh d c b on) + H) \<Longrightarrow> Q 0 t"
    and fails: "\<And>r t c n on L. deviceCount t = deviceCount s - 1 \<Longrightarrow>
        holds t (add_mset (Class_dev d) (files_res c (take n device_files) + ((if on then {#Irq pd#} else {#}) + (L + H)))) \<Longrightarrow>
        late_failure K r n on L \<Longrightarrow> Q r t"
  shows "wpx E (probe_device K pd d) Q s"
proof -
  let ?c = "\<lambda>c. add_mset (Class_dev d) (add_mset Enabled (kres pd + H))"
  have failed: "wp (probe_fail K pd r) Q v"
    if "deviceCount v = deviceCount s" "privs v pd = fresh d c b on"
      "holds v (bars_res (fresh d c b on) [0..<6] + (files_res c (take n device_files) + ((if on then {#Irq pd#} else {#}) + (L + ?c c))))"
      "late_failure K r n on L" for v c b on n L r
    by (rule wp_probe_fail[where H = "add_mset (Class_dev d) (files_res c (take n device_files) +
         ((if on then {#Irq pd#} else {#}) + (L + H)))"]; (rule fails[OF _ _ that(4)])?)
       (use that(1-3) in \<open>simp_all add: same_def ac_simps add_mset_commute\<close>)
  have cdev: "wp (acquire K f (\<lambda>r. r = 0) (\<lambda>_. Cdev pd)) (\<lambda>err. wp (if err \<noteq> 0 then probe_fail K pd err else ret 0) Q) v"
    if v: "same (s\<lparr>privs := (privs s)(pd := fresh d c b on), drvdata := pd\<rparr>) v"
      and h: "holds v (files_res c device_files + (irq_res pd (fresh d c b on) + (bars_res (fresh d c b on) [0..<6] + ?c c)))"
    for v c b on f
    apply (rule wp_acquire[OF h])
    subgoal for r w
      using v ok[of c b on w] by (simp add: wp_simps same_def dev_res_def fresh_def ac_simps add_mset_commute)
    subgoal for r w
      using v by (simp, intro failed[of _ c b on "length device_files" "{#}"])
        (auto simp: same_def irq_res_def fresh_def ac_simps device_files_def late_failure_def)
    done
  have files: "wp (create_files K c device_files) (\<lambda>okk. wp (if \<not> okk then probe_fail K pd 0
       else bnd (acquire K f (\<lambda>r. r = 0) (\<lambda>_. Cdev pd)) (\<lambda>err. if err \<noteq> 0 then probe_fail K pd err else ret 0)) Q) u"
    if u: "same (s\<lparr>privs := (privs s)(pd := fresh d c b on), drvdata := pd\<rparr>) u"
      and h: "holds u (irq_res pd (fresh d c b on) + (bars_res (fresh d c b on) [0..<6] + ?c c))" for u c b on f
    apply (rule wp_create_files[OF h])
    subgoal for v n
      apply (cases "n = length device_files")
      subgoal using u cdev[of c b on v f] by (simp add: wp_bnd same_def)
      subgoal
        using u by (simp, intro failed[of _ c b on n "{#}"])
          (auto simp: same_def irq_res_def fresh_def ac_simps late_failure_def)
      done
    done
  show ?thesis
    unfolding probe_device_def wpx_simps wpx_set_priv
    apply (rule wp_wpx, rule wp_acquire_answer[where H = "add_mset Enabled (kres pd + H)"])
    subgoal using s by simp
    subgoal for c t
      apply simp
      apply (rule wp_wpx, rule wp_probe_irq[where d = d and c = c and H = "?c c"])
      subgoal by simp
      subgoal by (simp add: same_def fresh_def priv0_def)
      subgoal for u b on
        using wp_wpx[OF files[of c b on u "k_cdev_add K d", folded wp_bnd], of E] unfolding wpx_simps by (simp add: same_def)
      subgoal for r u b L
        using wp_wpx[OF failed[of u c b False 0 L r], of E]
        by (auto simp: same_def files_res_def late_failure_def bars_refused_def)
      done
    subgoal for c t using dc by (auto simp: wpx_simps)
    done
qed


lemma bars_res_fixed: "bars_kmapped p = bars_kmapped q \<Longrightarrow> bars_res p is = bars_res q is"
  by (rule bars_res_cong) simp

lemma bars_res_kmem [simp]: "bars_res (p\<lparr>kmem_list := l\<rparr>) is = bars_res p is"
  by (rule bars_res_fixed) simp

text \<open>Every path through the set-up of a device.\<close>

lemma wp_probe:
  assumes s: "holds s H" and dc: "\<And>k. no_device (fst (k_device_create K (unat (deviceCount s)) k)) \<Longrightarrow> E BadPointer"
    and ok: "\<And>t pd d c b on. pd \<noteq> 0 \<Longrightarrow>
        same (s\<lparr>privs := (privs s)(pd := fresh d c b on), drvdata := pd, deviceCount := deviceCount s + 1\<rparr>) t \<Longrightarrow>
        holds t (dev_res pd (fresh d c b on) + H) \<Longrightarrow> Q 0 t"
    and clean: "\<And>r t. r \<noteq> 0 \<Longrightarrow> holds t H \<Longrightarrow> Q r t"
    and fails: "\<And>r t pd d c n on L. deviceCount t = deviceCount s \<Longrightarrow>
        holds t (add_mset (Class_dev d) (files_res c (take n device_files) + ((if on then {#Irq pd#} else {#}) + (L + H)))) \<Longrightarrow>
        late_failure K r n on L \<Longrightarrow> Q r t"
  shows "wpx E (pcidriver_probe K) Q s"
proof -
  have off: "wpx E (probe_disable_device K r) Q t" if "holds t (add_mset Enabled H)" "r \<noteq> 0" for t r
    unfolding probe_disable_device_def wpx_simps
    by (rule wp_wpx, rule wp_event_Rel[OF that(1)], simp, rule clean[OF that(2)]) simp
  have memory: "wpx E (kmalloc K n) (\<lambda>pd. wpx E (if pd = 0 then probe_nomem K (- ENOMEM) else probe_device K pd (unat (deviceCount s))) Q) t"
    if t: "same (s\<lparr>deviceCount := deviceCount s + 1\<rparr>) t" "holds t (add_mset Enabled H)" for t n
    unfolding kmalloc_def
    apply (rule wp_wpx, rule wp_acquire[OF t(2)])
    subgoal for pd u
      apply simp
      apply (rule wp_probe_device[where H = H and E = E])
      subgoal by (simp add: kres_eq add_mset_commute)
      subgoal for k by (rule dc)
      subgoal for v c b on
        by (rule ok[of pd "unat (deviceCount s)" c b on]) (use t(1) in \<open>simp_all add: same_def\<close>)
      subgoal for r v c n on L
        by (rule fails[of v "unat (deviceCount s)" c n on pd L r]) (use t(1) in \<open>simp_all add: same_def\<close>)
      done
    subgoal for pd u
      using off[of "u\<lparr>deviceCount := deviceCount u - 1\<rparr>" "- ENOMEM"] by (simp add: probe_nomem_def wpx_simps ENOMEM_def)
    done
  let ?new = "bnd (gets deviceCount) (\<lambda>devid. thn (modify (\<lambda>s. s\<lparr>deviceCount := deviceCount s + 1\<rparr>))
        (if sint devid \<ge> int MAXDEVICES then probe_disable_device K (- ENOMSG)
         else bnd (kmalloc K (k_sizeof_privdata K)) (\<lambda>pd. if pd = 0 then probe_nomem K (- ENOMEM) else probe_device K pd (unat devid))))"
  have enabled: "wpx E ?new Q t" if t: "same s t" "holds t (add_mset Enabled H)" for t
    using t memory[of "t\<lparr>deviceCount := deviceCount t + 1\<rparr>"] off[of "t\<lparr>deviceCount := deviceCount t + 1\<rparr>"]
    by (simp add: wpx_simps same_def ENOMSG_def cong: if_cong)
  have chosen: "wpx E (if err \<noteq> 0 then probe_disable_device K err else ?new) Q t"
    if "same s t" "holds t (add_mset Enabled H)" for t err
    using enabled[OF that] off[OF that(2)] by simp
  have dma: "wpx E (if err \<noteq> 0 then call (k_set_dma_mask K 32) else ret err)
      (\<lambda>err. wpx E (if err \<noteq> 0 then probe_disable_device K err else ?new) Q) t"
    if t: "same s t" "holds t (add_mset Enabled H)" for t err
  proof (cases "err = 0")
    case True
    then show ?thesis using chosen[OF t, of 0] by (simp add: wpx_ret)
  next
    case False
    have "wpx E (call (k_set_dma_mask K 32)) (\<lambda>err. wpx E (if err \<noteq> 0 then probe_disable_device K err else ?new) Q) t"
      by (rule wp_wpx, rule wp_call[OF t(2)]) (rule chosen[OF same_trans[OF t(1)]])
    then show ?thesis using False by simp
  qed
  show ?thesis
    unfolding pcidriver_probe_def wpx_bnd
    apply (rule wp_wpx, rule wp_acquire[OF s])
    subgoal for r t
      apply (simp add: wpx_bnd wpx_thn del: if_split)
      apply (rule wp_wpx, rule wp_event_neutral, assumption, simp add: neutral_def)
      apply (rule wp_wpx, rule wp_call, assumption)
      subgoal for u err v
        using dma[OF same_trans[OF same_trans[of s t u]], of v err] by (simp add: wpx_bnd del: if_split)
      done
    subgoal for r t using clean[of r t] by (simp add: wpx_simps)
    done
qed


section \<open>Loading and unloading\<close>

text \<open>Loading either holds all three things or gives back what it took; so does unloading.\<close>

lemma wp_init:
  assumes "holds s H"
  shows "wp (pcidriver_init K) (\<lambda>r t. deviceCount t = 0 \<and> privs t = privs s \<and>
     (r = 0 \<and> holds t (add_mset Pci_driver (add_mset Class (add_mset Chrdev H))) \<or> holds t H)) s"
  unfolding pcidriver_init_def wp_simps
  apply (rule wp_acquire[where H = H])
  subgoal using assms by simp
  subgoal for r t
    apply simp
    apply (rule wp_acquire, assumption)
    subgoal for okc u
      apply simp
      apply (rule wp_acquire, assumption)
      subgoal for r' v by (simp add: wp_simps same_def)
      subgoal for r' v
        by (simp add: wp_simps same_def, rule wp_event_Rel, assumption, simp, rule wp_event_Rel, assumption, simp)
           (simp add: same_def)
      done
    subgoal for okc u
      by (simp add: wp_simps same_def, rule wp_event_Rel, assumption, simp) (simp add: same_def)
    done
  subgoal for r t by (simp add: wp_simps same_def)
  done

lemma init_class_failure:
  assumes "fst (k_alloc_chrdev K (kst s)) = 0" and "\<And>k. \<not> fst (k_class_create K k)"
  shows "wp (pcidriver_init K) (\<lambda>r t. r = 0) s"
  using assms by (simp add: pcidriver_init_def acquire_def wp_simps event_def wp_def bnd_def call_def thn_def Let_def)

lemma wp_exit:
  assumes "holds s (add_mset Pci_driver (add_mset Class (add_mset Chrdev H)))"
    and "\<And>t. same s t \<Longrightarrow> holds t H \<Longrightarrow> Q () t"
  shows "wp (pcidriver_exit K) Q s"
  unfolding pcidriver_exit_def wp_simps
  by (rule wp_event_Rel[OF assms(1)], simp, rule wp_event_Rel, assumption, simp, rule wp_event_Rel, assumption, simp, rule assms(2))
     (simp_all add: same_def)

section \<open>Removal\<close>

lemma wp_remove_files:
  assumes "holds s (files_res dev ns + H)" and "\<And>t. same s t \<Longrightarrow> holds t H \<Longrightarrow> Q () t"
  shows "wp (doall (map (class_device_remove_file K dev) ns)) Q s"
  using assms
proof (induction ns arbitrary: s)
  case Nil
  then show ?case unfolding list.map doall.simps wp_ret by (simp add: files_res_def)
next
  case (Cons f ns)
  show ?case
    unfolding list.map doall.simps wp_thn class_device_remove_file_def
    by (rule wp_event_Rel[OF Cons.prems(1)], simp add: files_res_def, rule Cons.IH[unfolded class_device_remove_file_def])
       (use Cons.prems(2) in \<open>simp_all add: files_res_def same_def\<close>)
qed

lemma wp_remove:
  assumes pd: "drvdata s = pd"
    and s: "holds s (kmem_all (privs s pd) + (dev_res pd (privs s pd) + H))"
    and Q: "\<And>t. deviceCount t = deviceCount s \<Longrightarrow> holds t H \<Longrightarrow> Q () t"
  shows "wp (pcidriver_remove K) Q s"
proof -
  let ?p = "privs s pd"
  let ?E = "add_mset (Cdev pd) (add_mset (Class_dev (devno ?p)) (kres pd + add_mset Enabled H))"
  let ?I = "irq_res pd ?p + (bars_res ?p [0..<6] + ?E)"
  have h: "holds s (files_res (class_dev ?p) device_files + (kmem_all ?p + ?I))"
    using s by (simp add: dev_res_def ac_simps add_mset_commute)
  show ?thesis
    unfolding pcidriver_remove_def wp_simps pd
    apply (rule wp_remove_files[OF h])
    subgoal for t
      apply (rule wp_kmem_free_all[where G = ?I])
      subgoal by (simp add: same_def)
      subgoal for u
        apply (rule wp_remove_irq[where H = ?E])
        subgoal by (simp add: same_def irq_res_def)
        subgoal for v
          apply (rule wp_event_Rel, assumption, simp)
          apply (rule wp_event_Rel, assumption, simp)
          apply (rule wp_kfree, assumption, simp)
          apply (rule wp_event_Rel, assumption, simp)
          by (rule Q) (simp_all add: same_def)
        done
      done
    done
qed

text \<open>What requests never change: the parts of the private data that say what was set up.\<close>

definition fixed :: "u64 \<Rightarrow> 'k sys \<Rightarrow> nat \<times> u64 \<times> bool \<times> (nat \<Rightarrow> u64) \<times> u64 \<times> u32" where
  "fixed pd s = (devno (privs s pd), class_dev (privs s pd), irq_enabled (privs s pd), bars_kmapped (privs s pd),
     drvdata s, deviceCount s)"

abbreviation stays :: "nat \<times> u64 \<times> bool \<times> (nat \<Rightarrow> u64) \<times> u64 \<times> u32 \<Rightarrow> u64 \<Rightarrow> ('k sys, 'a) prog \<Rightarrow> bool" where
  "stays c pd p \<equiv> keeps (\<lambda>s. fixed pd s = c) p"

lemma stays_call: "stays c pd (call f)"
  by (auto simp: keeps_def call_def fixed_def Let_def)

lemma stays_event: "stays c pd (event K e)"
  unfolding event_def by (rule keeps_modify) (simp add: fixed_def)

lemma stays_set_priv:
  assumes "\<And>p. devno (f p) = devno p" and "\<And>p. class_dev (f p) = class_dev p"
    and "\<And>p. irq_enabled (f p) = irq_enabled p" and "\<And>p. bars_kmapped (f p) = bars_kmapped p"
  shows "stays c pd (set_priv pd f)"
  unfolding set_priv_def by (rule keeps_modify) (simp add: fixed_def assms)

lemma stays_copy_to_user: "stays c pd (copy_to_user K put a n)"
  by (auto simp: keeps_def copy_to_user_def fixed_def split: if_splits)

lemma stays_copy_from_user: "stays c pd (copy_from_user K get a n)"
  unfolding copy_from_user_def by (rule keeps_gets)

lemma stays_priv: "stays c pd (priv q)"
  unfolding priv_def by (rule keeps_gets)

lemma stays_option:
  "stays c pd p \<Longrightarrow> (\<And>a. stays c pd (f a)) \<Longrightarrow> stays c pd (case x of None \<Rightarrow> p | Some a \<Rightarrow> f a)"
  by (cases x) simp_all

lemma stays_prod: "(\<And>a b. stays c pd (f a b)) \<Longrightarrow> stays c pd (case x of (a, b) \<Rightarrow> f a b)"
  by (cases x) simp

lemma stays_list:
  "stays c pd p \<Longrightarrow> (\<And>y ys. stays c pd (f y ys)) \<Longrightarrow> stays c pd (case xs of [] \<Rightarrow> p | y # ys \<Rightarrow> f y ys)"
  by (cases xs) simp_all

lemma stays_acquire: "stays c pd (acquire K f good r)"
  unfolding acquire_def by (intro keeps_bnd keeps_if keeps_thn keeps_ret stays_call stays_event)

lemma stays_doall_map: "(\<And>x. stays c pd (f x)) \<Longrightarrow> stays c pd (doall (map f xs))"
  by (rule keeps_doall) auto

lemmas stays_rules = keeps_bnd keeps_thn keeps_if keeps_ret keeps_fail keeps_gets keeps_wait_while stays_call stays_event
  stays_copy_to_user stays_copy_from_user stays_priv stays_option stays_prod stays_list stays_acquire stays_doall_map

lemma stays_sysfs: "stays c pd (pcidriver_sysfs_initialize K pd i t)" "stays c pd (pcidriver_sysfs_remove K pd a)"
  unfolding pcidriver_sysfs_initialize_def pcidriver_sysfs_remove_def kstrdup_def kfree_def
    class_device_create_file_def class_device_remove_file_def Let_def
  by (intro stays_rules)+

lemma stays_kmem:
  "stays c pd (pcidriver_kmem_alloc K pd h)" "stays c pd (pcidriver_kmem_free_entry K pd e)"
  "stays c pd (pcidriver_kmem_free K pd h)" "stays c pd (pcidriver_kmem_sync K pd ks)"
  "stays c pd (remap_pfn_range K a f n)" "stays c pd (pcidriver_mmap_kmem K pd a n)"
proof -
  show e: "stays c pd (pcidriver_kmem_free_entry K pd e)" for e
    unfolding pcidriver_kmem_free_entry_def pci_free_consistent_def kfree_def
    by (intro stays_rules stays_sysfs stays_set_priv) simp_all
  show r: "stays c pd (remap_pfn_range K a f n)" for a f n
    unfolding remap_pfn_range_def by (intro stays_rules)
  show "stays c pd (pcidriver_kmem_alloc K pd h)"
    unfolding pcidriver_kmem_alloc_def kmalloc_def kmem_count_inc_def pcidriver_sysfs_initialize_kmem_def
      pci_alloc_consistent_def kfree_def Let_def
    by (intro stays_rules stays_sysfs stays_set_priv) simp_all
  show "stays c pd (pcidriver_kmem_free K pd h)"
    unfolding pcidriver_kmem_free_def pcidriver_kmem_find_entry_def by (intro stays_rules e)
  show "stays c pd (pcidriver_kmem_sync K pd ks)"
    unfolding pcidriver_kmem_sync_def pcidriver_kmem_find_entry_def Let_def by (intro stays_rules)
  show "stays c pd (pcidriver_mmap_kmem K pd a n)"
    unfolding pcidriver_mmap_kmem_def Let_def by (intro stays_rules r)
qed


lemma stays_umem:
  "stays c pd (pcidriver_umem_sgmap K pd h)" "stays c pd (pcidriver_umem_sgunmap K pd e)"
  "stays c pd (pcidriver_umem_sync K pd h)" "stays c pd (pcidriver_umem_sgget pd l out)"
proof -
  have undo: "stays c pd (umem_sgmap_unmap K ps pp sp h)" for ps pp sp
    unfolding umem_sgmap_unmap_def drop_page_def PageLocked_def PageReserved_def vfree_def by (intro stays_rules)
  have entry: "stays c pd (umem_sgmap_entry K pd h ps pp sp m)" for ps pp sp m
    unfolding umem_sgmap_entry_def umem_count_inc_def kmalloc_def kfree_def pci_unmap_sg_def
      pcidriver_sysfs_initialize_umem_def Let_def
    by (intro stays_rules stays_sysfs stays_set_priv undo) simp_all
  show "stays c pd (pcidriver_umem_sgmap K pd h)"
    unfolding pcidriver_umem_sgmap_def get_user_pages_def lock_page_def PageReserved_def pci_map_sg_def vmalloc_def
      vfree_def Let_def
    by (intro stays_rules undo entry)
  show "stays c pd (pcidriver_umem_sgunmap K pd e)"
    unfolding pcidriver_umem_sgunmap_def pci_unmap_sg_def unmap_page_def PageReserved_def vfree_def kfree_def
    by (intro stays_rules stays_sysfs stays_set_priv) simp_all
  show "stays c pd (pcidriver_umem_sync K pd h)"
    unfolding pcidriver_umem_sync_def pcidriver_umem_find_entry_id_def Let_def by (intro stays_rules)
  show "stays c pd (pcidriver_umem_sgget pd l out)"
    unfolding pcidriver_umem_sgget_def pcidriver_umem_find_entry_id_def Let_def by (intro stays_rules)
qed

lemma stays_handler: "stays c pd (pcidriver_irq_handler pd)"
  by (simp add: keeps_def handler_runs)

lemma stays_wait: "stays c pd (ioctl_wait_interrupt K pd arg)"
proof -
  have "stays c pd (doall (replicate n (thn (pcidriver_irq_handler pd) (ret ()))))" for n
    by (simp add: keeps_def handlers_run)
  then show ?thesis
    unfolding ioctl_wait_interrupt_def wait_interrupt_round_def Let_def
    by (intro stays_rules stays_set_priv) simp_all
qed

lemma stays_ioctl: "stays c pd (pcidriver_ioctl K pd cmd arg)"
  unfolding pcidriver_ioctl_def ioctl_mmap_mode_def ioctl_mmap_area_def ioctl_pci_config_read_write_def ioctl_pci_info_def
    ioctl_kmem_alloc_def ioctl_kmem_free_def ioctl_kmem_sync_def ioctl_umem_sgmap_def ioctl_umem_sgunmap_def
    ioctl_umem_sgget_def ioctl_umem_sync_def ioctl_clear_ioq_def READ_FROM_USER_def WRITE_TO_USER_def
    pcidriver_umem_find_entry_id_def vmalloc_def vfree_def Let_def
  by (intro stays_rules stays_kmem stays_umem stays_wait stays_set_priv) simp_all

lemma stays_mmap: "stays c pd (pcidriver_mmap K pd a b)"
  unfolding pcidriver_mmap_def pcidriver_mmap_pci_def Let_def by (intro stays_rules stays_kmem)

lemma stays_store:
  "stays c pd (pcidriver_store_mmap_mode K pd buf)" "stays c pd (pcidriver_store_mmap_area K pd buf)"
  "stays c pd (pcidriver_store_kmem_alloc K pd buf)" "stays c pd (pcidriver_store_kmem_free K pd buf)"
  "stays c pd (pcidriver_store_umem_unmap K pd buf)"
  unfolding pcidriver_store_mmap_mode_def pcidriver_store_mmap_area_def pcidriver_store_kmem_alloc_def
    pcidriver_store_kmem_free_def pcidriver_store_umem_unmap_def pcidriver_kmem_find_entry_id_def
    pcidriver_umem_find_entry_id_def Let_def
  by (intro stays_rules stays_kmem stays_umem stays_set_priv; simp)+

lemma stays_show: "stays c pd (show_file K pd name)"
  unfolding show_file_def by (intro stays_rules)

lemma stays_serve: "stays c pd (serve K pd q)"
  by (cases q) (simp_all add: stays_show stays_ioctl stays_mmap stays_store keeps_thn[OF stays_handler keeps_ret] del: ret_run)

lemma serves_fixed: "serves K pd s t \<Longrightarrow> fixed pd t = fixed pd s"
proof (induction rule: serves.induct)
  case (serves_request t q r u)
  have "fixed pd u = fixed pd t"
    by (rule keepsD[where I = "\<lambda>s. fixed pd s = fixed pd t", OF stays_serve refl serves_request(2)])
  then show ?case using serves_request(3) by (rule trans)
qed (simp_all add: fixed_def)


section \<open>Correctness\<close>

lemma dev_inv_fresh:
  assumes "holds t (dev_res pd (fresh d c b on) + H)" and "privs t pd = fresh d c b on"
  shows "dev_inv (dev_res pd (privs t pd) + H) pd t"
  using assms by (intro dev_invI) (simp_all add: fresh_def priv0_def kmem_all_def umem_all_def)

lemma probe_cases:
  assumes "holds s H"
  shows "wpx (\<lambda>e. e = BadPointer \<and> (\<exists>k. no_device (fst (k_device_create K (unat (deviceCount s)) k)))) (pcidriver_probe K) (\<lambda>r t.
     (r = 0 \<and> deviceCount t = deviceCount s + 1 \<and> drvdata t \<noteq> 0 \<and>
        holds t (dev_res (drvdata t) (privs t (drvdata t)) + H) \<and>
        dev_inv (dev_res (drvdata t) (privs t (drvdata t)) + H) (drvdata t) t)
   \<or> (r \<noteq> 0 \<and> holds t H)
   \<or> (deviceCount t = deviceCount s \<and> (\<exists>pd d c n on L. late_failure K r n on L \<and>
        holds t (add_mset (Class_dev d) (files_res c (take n device_files) + ((if on then {#Irq pd#} else {#}) + (L + H))))))) s"
proof (rule wp_probe[OF assms], goal_cases)
  case (2 t pd d c b on)
  then show ?case using dev_inv_fresh[of t pd d c b on H] by (auto simp: same_def)
next
  case (4 r t pd d c n on L)
  then show ?case by blast
qed auto

text \<open>A device that is set up and has a mapping.\<close>

lemma balance_acquire: "balance (map Acq rs) H = Some (mset rs + H)"
  by (induction rs arbitrary: H) simp_all

definition sys2 :: "u64 sys" where
  "sys2 = sys0\<lparr>drvdata := 7, deviceCount := 1, privs := \<lambda>_. (fresh 0 16 (\<lambda>_. 0) False)\<lparr>umem_list := [entry0], umem_count := 1\<rparr>,
     klog := map Acq ([Enabled, Class_dev 0, Cdev 7, Kmem 7] @ map (File 16) device_files @
       [Sg 3, Page 1, Page 2, Page 9, File 16 ''umem0'', Kmem 4, Kmem 1, Vmem 2, Vmem 3])\<rparr>"

lemma dev_inv_sys2: "dev_inv (dev_res 7 (privs sys2 7) + {#}) 7 sys2"
proof (rule dev_invI)
  have bars: "bars_res (privs sys2 7) [0..<6] = {#}"
    by (rule bars_res_none) (simp add: sys2_def fresh_def)
  show "holds sys2 (kmem_all (privs sys2 7) + (umem_all (privs sys2 7) + (dev_res 7 (privs sys2 7) + {#})))"
    unfolding holds_def dev_res_def bars
    by (simp add: sys2_def balance_acquire kmem_all_def umem_all_def fresh_def priv0_def entry0_def umem_res_def
        page_res_def attr_res_def kres_def vres_def irq_res_def files_res_def flip: map_append)
qed (simp_all add: sys2_def fresh_def priv0_def entry0_def umem_ok_def)

text \<open>
  C24 (error). Setting up a device ends in one of four ways. It succeeds: the result is 0, the device is
  counted, everything that belongs to it is held, and the invariant of the device holds. It fails cleanly:
  the result is an error and nothing more is held than before. It fails late, and then the class
  device, the files created so far, the interrupt handler and possibly the region of a BAR stay behind,
  although the private data they refer to is freed: because the BARs cannot be set up, or the character device cannot be
  added, and then the result is an error; or because a file cannot be made, the first or a later one, and then the
  result is 0. Or \<^verbatim>\<open>device_create\<close> fails, and the kernel faults on its result, which is used untested.
\<close>

theorem probe_outcome:
  assumes "holds s H"
  shows "case pcidriver_probe K s of
     None \<Rightarrow> False
   | Some (Inl e) \<Rightarrow> e = BadPointer \<and> (\<exists>k. no_device (fst (k_device_create K (unat (deviceCount s)) k)))
   | Some (Inr (r, t)) \<Rightarrow>
       (r = 0 \<and> deviceCount t = deviceCount s + 1 \<and> drvdata t \<noteq> 0 \<and>
          holds t (dev_res (drvdata t) (privs t (drvdata t)) + H) \<and>
          dev_inv (dev_res (drvdata t) (privs t (drvdata t)) + H) (drvdata t) t)
     \<or> (r \<noteq> 0 \<and> holds t H)
     \<or> (deviceCount t = deviceCount s \<and> (\<exists>pd d c n on L.
          (n = 0 \<and> \<not> on \<and> bars_refused K r L \<or>
           n < length device_files \<and> r = 0 \<and> L = {#} \<or>
           n = length device_files \<and> r \<noteq> 0 \<and> L = {#}) \<and>
          holds t (add_mset (Class_dev d) (files_res c (take n device_files) + ((if on then {#Irq pd#} else {#}) + (L + H))))))"
  by (rule probe_cases[OF assms, of K, unfolded wpx_def late_failure_def])

text \<open>The set-up on the kernel that grants everything succeeds; when the first file is refused, the result is 0 as well.\<close>

definition kern_nofile :: "u64 kern" where
  "kern_nofile = kern0\<lparr>k_create_file := \<lambda>dev name k. (- 12, k)\<rparr>"

lemma probe_runs:
  "wp (pcidriver_probe kern0) (\<lambda>r t. r = 0 \<and> deviceCount t = 1) sys0"
  "wp (pcidriver_probe kern_nofile) (\<lambda>r t. r = 0 \<and> deviceCount t = 0) sys0"
  by code_simp+

theorem probe_outcome_witness:
  "holds sys0 {#} \<and>
   (\<exists>t. pcidriver_probe kern0 sys0 = Some (Inr (0, t)) \<and> dev_inv (dev_res (drvdata t) (privs t (drvdata t)) + {#}) (drvdata t) t) \<and>
   (\<exists>t pd d c on. pcidriver_probe kern_nofile sys0 = Some (Inr (0, t)) \<and>
      (\<exists>n. holds t (add_mset (Class_dev d) (files_res c (take n device_files) + ((if on then {#Irq pd#} else {#}) + ({#} + {#}))))))"
proof -
  obtain t where t: "pcidriver_probe kern0 sys0 = Some (Inr (0, t))" "deviceCount t = 1"
    using probe_runs(1) unfolding wp_iff by auto
  obtain u where u: "pcidriver_probe kern_nofile sys0 = Some (Inr (0, u))" "deviceCount u = 0"
    using probe_runs(2) unfolding wp_iff by auto
  have z: "deviceCount sys0 = 0" by (simp add: sys0_def)
  have a: "dev_inv (dev_res (drvdata t) (privs t (drvdata t)) + {#}) (drvdata t) t"
    using probe_outcome[OF holds_sys0, of kern0] unfolding t(1) by (auto simp: t(2) z)
  obtain pd d c n on L where n: "n = 0 \<and> \<not> on \<and> bars_refused kern_nofile 0 L \<or> n < length device_files \<and> (0 :: int) = 0 \<and> L = {#} \<or> n = length device_files \<and> (0 :: int) \<noteq> 0 \<and> L = {#}"
    "holds u (add_mset (Class_dev d) (files_res c (take n device_files) + ((if on then {#Irq pd#} else {#}) + (L + {#}))))"
    using probe_outcome[OF holds_sys0, of kern_nofile] unfolding u(1) option.case sum.case prod.case u(2) z
    by (elim disjE conjE exE) (simp, simp, blast+)
  have "L = {#}" using n(1) by (auto simp: bars_refused_def)
  then show ?thesis using a t(1) u(1) n(2) holds_sys0 by blast
qed

text \<open>
  C27 (safety). Removing a device, after any sequence of requests, gives back everything that was set up
  for it and all its kernel buffers, but not the mappings of user memory that are still in its list:
  their pages stay locked and their tables mapped. Apart from what was held before the set-up, and from what single failed
  requests have lost, nothing else is held at the end. The number of devices is not decremented.
\<close>

theorem remove_keeps_user_pages:
  assumes "handled K pd s hs t" and "vmalloc_sane K" and "map_sg_sane K"
    and "dev_inv (dev_res pd (privs s pd) + H) pd s" and "drvdata s = pd"
  shows "wp (pcidriver_remove K) (\<lambda>_ u. deviceCount u = deviceCount s \<and>
     (\<exists>Ds. list_all2 leaves hs Ds \<and> holds u (umem_all (privs t pd) + (H + sum_list Ds)))) t"
proof -
  obtain Ds where L: "list_all2 leaves hs Ds" "dev_inv (dev_res pd (privs s pd) + H + sum_list Ds) pd t"
    using handled_inv[OF assms(1-4)] by blast
  have f: "fixed pd t = fixed pd s" by (rule serves_fixed[OF handled_serves[OF assms(1)]])
  then have d: "dev_res pd (privs t pd) = dev_res pd (privs s pd)"
    using bars_res_fixed[of "privs t pd" "privs s pd"] by (simp add: fixed_def dev_res_def irq_res_def)
  have "holds t (kmem_all (privs t pd) + (dev_res pd (privs t pd) + (umem_all (privs t pd) + (H + sum_list Ds))))"
    using L(2) unfolding d dev_inv_def by (simp only: ac_simps)
  then show ?thesis
    by (intro wp_remove[where pd = pd and H = "umem_all (privs t pd) + (H + sum_list Ds)"])
       (use f assms(5) L(1) in \<open>auto simp: fixed_def\<close>)
qed


theorem remove_keeps_user_pages_witness:
  "handled kern0 7 sys2 [] sys2 \<and> vmalloc_sane kern0 \<and> map_sg_sane kern0 \<and>
   dev_inv (dev_res 7 (privs sys2 7) + {#}) 7 sys2 \<and> drvdata sys2 = 7 \<and> umem_list (privs sys2 7) = [entry0] \<and>
   wp (pcidriver_remove kern0) (\<lambda>_ u. deviceCount u = deviceCount sys2 \<and> holds u (umem_all (privs sys2 7))) sys2"
proof -
  have h: "handled kern0 7 sys2 [] sys2" "drvdata sys2 = 7" "umem_list (privs sys2 7) = [entry0]"
    by (simp_all add: handled_start sys2_def)
  have "wp (pcidriver_remove kern0) (\<lambda>_ u. deviceCount u = deviceCount sys2 \<and> holds u (umem_all (privs sys2 7))) sys2"
    by (rule wp_mono[OF remove_keeps_user_pages[OF h(1) vmalloc_sane_kern0 map_sg_sane_kern0 dev_inv_sys2 h(2)]]) auto
  then show ?thesis using h dev_inv_sys2 vmalloc_sane_kern0 map_sg_sane_kern0 by blast
qed

end
