(* ===== verification/Pcie_Lib.thy ===== *)
theory Pcie_Lib
  imports Pcie_Base
begin

text \<open>
  The C library of the PCIe driver (\<^verbatim>\<open>pciDriver_Capi.c\<close>), as a program of a process that calls the model of
  the driver.
\<close>

section \<open>The process\<close>

record pd_device_t =
  pd_handle :: u64          \<comment> \<open>the private data of the device behind the file handle\<close>
  pd_device :: u32
  pd_name :: string

record pd_kmem_t =
  km_pa :: u64
  km_size :: u64
  km_mem :: u64
  km_handle_id :: u32
  km_pci_handle :: pd_device_t

record pd_umem_t =
  um_vma :: u64
  um_size :: u64
  um_handle_id :: u32
  um_nents :: u32
  um_sg :: u64
  um_pci_handle :: pd_device_t

text \<open>
  The state of a process: the system below it, the mutex of its device, the blocks it has from
  \<^verbatim>\<open>posix_memalign\<close> and the areas it has mapped. What the C library and the kernel decide are parameters:
  the address of the local structures of a call, where a block or an area is placed (0 when there is no room),
  and which device a file name opens.
\<close>

record 'k proc =
  drv :: "'k sys"
  mmap_mutex :: bool
  heap :: "u64 list"
  areas :: "(u64 \<times> u64) list"

record libc =
  l_stack :: u64
  l_memalign :: "u64 \<Rightarrow> u64 list \<Rightarrow> u64"
  l_place :: "u64 \<Rightarrow> (u64 \<times> u64) list \<Rightarrow> u64"
  l_open :: "string \<Rightarrow> u64 option"

definition lift :: "('k sys, 'a) prog \<Rightarrow> ('k proc, 'a) prog" where
  "lift = zoom drv (\<lambda>s w. w\<lparr>drv := s\<rparr>)"

text \<open>Assignments to local structures, and their values.\<close>

definition poke :: "(user_mem \<Rightarrow> user_mem) \<Rightarrow> ('k proc, unit) prog" where
  "poke f = modify (\<lambda>w. w\<lparr>drv := (drv w)\<lparr>user := f (user (drv w))\<rparr>\<rparr>)"

definition peek :: "(user_mem \<Rightarrow> 'a) \<Rightarrow> ('k proc, 'a) prog" where
  "peek f = gets (\<lambda>w. f (user (drv w)))"

text \<open>The system calls: an error of the driver is -1.\<close>

definition ioctl :: "'k kern \<Rightarrow> u64 \<Rightarrow> u32 \<Rightarrow> u64 \<Rightarrow> ('k proc, int) prog" where
  "ioctl K pd cmd arg = bnd (lift (pcidriver_ioctl K pd cmd arg)) (\<lambda>r. ret (if r < 0 then - 1 else r))"

definition MAP_FAILED :: u64 where "MAP_FAILED = - 1"

definition mmap :: "'k kern \<Rightarrow> libc \<Rightarrow> u64 \<Rightarrow> u64 \<Rightarrow> ('k proc, u64) prog" where
  "mmap K C pd n =
     bnd (gets (\<lambda>w. l_place C n (areas w))) (\<lambda>a.
     if n = 0 \<or> a = 0 then ret MAP_FAILED
     else bnd (lift (pcidriver_mmap K pd a (a + ((n + NOT PAGE_MASK) AND PAGE_MASK)))) (\<lambda>r.
       if r \<noteq> 0 then ret MAP_FAILED
       else thn (modify (\<lambda>w. w\<lparr>areas := areas w @ [(a, n)]\<rparr>)) (ret a)))"

definition munmap :: "u64 \<Rightarrow> u64 \<Rightarrow> ('k proc, unit) prog" where
  "munmap a n = modify (\<lambda>w. w\<lparr>areas := remove1 (a, n) (areas w)\<rparr>)"

definition posix_memalign :: "libc \<Rightarrow> u64 \<Rightarrow> ('k proc, u64) prog" where
  "posix_memalign C n =
     bnd (gets (\<lambda>w. l_memalign C n (heap w))) (\<lambda>a.
     thn (if a = 0 then ret () else modify (\<lambda>w. w\<lparr>heap := a # heap w\<rparr>)) (ret a))"

definition free :: "u64 \<Rightarrow> ('k proc, unit) prog" where
  "free a = (if a = 0 then ret () else modify (\<lambda>w. w\<lparr>heap := remove1 a (heap w)\<rparr>))"

text \<open>A thread that locks a mutex that is locked waits; nothing in this model unlocks it meanwhile.\<close>

definition mutex_lock :: "('k proc, unit) prog" where
  "mutex_lock w = (if mmap_mutex w then None else Some (Inr ((), w\<lparr>mmap_mutex := True\<rparr>)))"

definition mutex_unlock :: "('k proc, unit) prog" where
  "mutex_unlock = modify (\<lambda>w. w\<lparr>mmap_mutex := False\<rparr>)"

section \<open>Helpers\<close>

definition pd_getpagesize :: u32 where "pd_getpagesize = 4096"

partial_function (option) pagemask_loop :: "u32 \<Rightarrow> u32 \<Rightarrow> u32 option" where
  "pagemask_loop pagemask temp =
     (if temp \<noteq> 1 then pagemask_loop (push_bit 1 pagemask + 1) (drop_bit 1 temp) else Some pagemask)"

definition pd_getpagemask :: "u32 option" where
  "pd_getpagemask = pagemask_loop 0 pd_getpagesize"

definition with_pagemask :: "(u32 \<Rightarrow> ('k proc, 'a) prog) \<Rightarrow> ('k proc, 'a) prog" where
  "with_pagemask f = (case pd_getpagemask of None \<Rightarrow> (\<lambda>_. None) | Some m \<Rightarrow> f m)"

definition pd_open :: "libc \<Rightarrow> u32 \<Rightarrow> ('k proc, int \<times> pd_device_t option) prog" where
  "pd_open C dev =
     (let name = ''/dev/fpga'' @ show_int dev in
      case l_open C name of
        None \<Rightarrow> ret (- 1, None)
      | Some pd \<Rightarrow>
          thn mutex_unlock (ret (0, Some \<lparr>pd_handle = pd, pd_device = dev, pd_name = name\<rparr>)))"

section \<open>Kernel memory\<close>

definition pd_allocKernelMemory ::
  "'k kern \<Rightarrow> libc \<Rightarrow> pd_device_t \<Rightarrow> u32 \<Rightarrow> ('k proc, u64 \<times> pd_kmem_t option) prog" where
  "pd_allocKernelMemory K C h n =
     (let fd = pd_handle h; kh = l_stack C;
          err = thn mutex_unlock (thn (ioctl K fd PCIDRIVER_IOC_KMEM_FREE kh) (ret (0, None))) in
      thn (poke (\<lambda>u. u\<lparr>u_kmem := (u_kmem u)(kh := (u_kmem u kh)\<lparr>kh_size := ucast n\<rparr>)\<rparr>))
     (bnd (ioctl K fd PCIDRIVER_IOC_KMEM_ALLOC kh) (\<lambda>r.
      if r \<noteq> 0 then ret (0, None)
      else bnd (peek (\<lambda>u. u_kmem u kh)) (\<lambda>k.
        thn mutex_lock
       (bnd (ioctl K fd PCIDRIVER_IOC_MMAP_MODE PCIDRIVER_MMAP_KMEM) (\<lambda>r.
        if r \<noteq> 0 then err
        else bnd (mmap K C fd (ucast n)) (\<lambda>mem.
          if mem = MAP_FAILED \<or> mem = 0 then err
          else thn mutex_unlock
            (ret (mem, Some \<lparr>km_pa = pa k, km_size = ucast n, km_mem = mem, km_handle_id = kh_id k, km_pci_handle = h\<rparr>)))))))))"

definition pd_freeKernelMemory :: "'k kern \<Rightarrow> libc \<Rightarrow> pd_kmem_t option \<Rightarrow> ('k proc, int) prog" where
  "pd_freeKernelMemory K C km =
     (case km of
        None \<Rightarrow> ret (- 1)
      | Some k \<Rightarrow>
          thn (munmap (km_mem k) (km_size k))
         (thn (poke (\<lambda>u. u\<lparr>u_kmem := (u_kmem u)(l_stack C := \<lparr>pa = km_pa k, kh_size = km_size k, kh_id = km_handle_id k\<rparr>)\<rparr>))
         (bnd (ioctl K (pd_handle (km_pci_handle k)) PCIDRIVER_IOC_KMEM_FREE (l_stack C)) (\<lambda>r.
          if r \<noteq> 0 then ret r else ret 0))))"

definition pd_syncKernelMemory :: "'k kern \<Rightarrow> libc \<Rightarrow> pd_kmem_t option \<Rightarrow> int \<Rightarrow> ('k proc, int) prog" where
  "pd_syncKernelMemory K C km dir =
     (case km of
        None \<Rightarrow> ret (- 1)
      | Some k \<Rightarrow>
          thn (poke (\<lambda>u. u\<lparr>u_ksync := (u_ksync u)(l_stack C :=
                 \<lparr>ks_handle = \<lparr>pa = km_pa k, kh_size = km_size k, kh_id = km_handle_id k\<rparr>, ks_dir = dir\<rparr>)\<rparr>))
         (bnd (ioctl K (pd_handle (km_pci_handle k)) PCIDRIVER_IOC_KMEM_SYNC (l_stack C)) (\<lambda>r.
          if r \<noteq> 0 then ret (- 1) else ret 0)))"

section \<open>User memory\<close>

text \<open>\<^verbatim>\<open>size / getpagesize() + 1\<close> entries; the handle of the caller gets neither \<^verbatim>\<open>vma\<close> nor \<^verbatim>\<open>size\<close>.\<close>

definition sgl_entries :: "u32 \<Rightarrow> u32" where
  "sgl_entries n = n div pd_getpagesize + 1"

definition map_sglist :: "'k kern \<Rightarrow> libc \<Rightarrow> u64 \<Rightarrow> u32 \<Rightarrow> u32 \<Rightarrow> pd_umem_t \<Rightarrow> ('k proc, int \<times> pd_umem_t) prog" where
  "map_sglist K C fd n i um =
     (let st = l_stack C in
      bnd (posix_memalign C (scast (sgl_entries n) * sizeof_umem_sgentry)) (\<lambda>sg.
      thn (poke (\<lambda>u. u\<lparr>u_sglist := (u_sglist u)(st :=
             \<lparr>sgl_id = i, sgl_type = PCIDRIVER_SG_MERGED, sgl_nents = sgl_entries n, sgl_sg = sg\<rparr>)\<rparr>))
     (bnd (ioctl K fd PCIDRIVER_IOC_UMEM_SGGET st) (\<lambda>r.
      if r \<noteq> 0 then
        thn (ioctl K fd PCIDRIVER_IOC_UMEM_SGUNMAP st) (thn (free sg) (ret (- 1, um)))
      else bnd (peek (\<lambda>u. u_sglist u st)) (\<lambda>l.
        ret (0, um\<lparr>um_nents := sgl_nents l, um_sg := sgl_sg l\<rparr>))))))"

definition pd_mapUserMemory ::
  "'k kern \<Rightarrow> libc \<Rightarrow> pd_device_t option \<Rightarrow> u64 \<Rightarrow> u32 \<Rightarrow> pd_umem_t \<Rightarrow> ('k proc, int \<times> pd_umem_t) prog" where
  "pd_mapUserMemory K C pci_handle mem n um =
     (case pci_handle of
        None \<Rightarrow> ret (- 1, um)
      | Some h \<Rightarrow>
          let fd = pd_handle h; st = l_stack C in
          thn (poke (\<lambda>u. u\<lparr>u_umem := (u_umem u)(st := (u_umem u st)\<lparr>uh_vma := mem, uh_size := ucast n\<rparr>)\<rparr>))
         (bnd (ioctl K fd PCIDRIVER_IOC_UMEM_SGMAP st) (\<lambda>r.
          if r \<noteq> 0 then ret (- 1, um)
          else bnd (peek (\<lambda>u. uh_id (u_umem u st))) (\<lambda>i.
            map_sglist K C fd n i (um\<lparr>um_pci_handle := h, um_handle_id := i\<rparr>)))))"

definition pd_unmapUserMemory :: "'k kern \<Rightarrow> libc \<Rightarrow> pd_umem_t option \<Rightarrow> ('k proc, int) prog" where
  "pd_unmapUserMemory K C um =
     (case um of
        None \<Rightarrow> ret (- 1)
      | Some m \<Rightarrow>
          thn (poke (\<lambda>u. u\<lparr>u_umem := (u_umem u)(l_stack C :=
                 (u_umem u (l_stack C))\<lparr>uh_id := um_handle_id m, uh_vma := um_vma m, uh_size := um_size m\<rparr>)\<rparr>))
         (bnd (ioctl K (pd_handle (um_pci_handle m)) PCIDRIVER_IOC_UMEM_SGUNMAP (l_stack C)) (\<lambda>r.
          thn (free (um_sg m)) (ret r))))"

definition pd_syncUserMemory :: "'k kern \<Rightarrow> libc \<Rightarrow> pd_umem_t option \<Rightarrow> int \<Rightarrow> ('k proc, int) prog" where
  "pd_syncUserMemory K C um dir =
     (case um of
        None \<Rightarrow> ret (- 1)
      | Some m \<Rightarrow>
          thn (poke (\<lambda>u. u\<lparr>u_umem := (u_umem u)(l_stack C :=
                 \<lparr>uh_vma = um_vma m, uh_size = um_size m, uh_id = um_handle_id m, uh_dir = dir\<rparr>)\<rparr>))
         (bnd (ioctl K (pd_handle (um_pci_handle m)) PCIDRIVER_IOC_UMEM_SYNC (l_stack C)) (\<lambda>r.
          if r \<noteq> 0 then ret (- 1) else ret 0)))"

section \<open>Interrupts, BARs and config space\<close>

definition pd_waitForInterrupt :: "'k kern \<Rightarrow> pd_device_t option \<Rightarrow> u32 \<Rightarrow> ('k proc, int) prog" where
  "pd_waitForInterrupt K pci_handle int_id =
     (case pci_handle of
        None \<Rightarrow> ret (- 1)
      | Some h \<Rightarrow> bnd (ioctl K (pd_handle h) PCIDRIVER_IOC_WAITI (ucast int_id)) (\<lambda>r. if r \<noteq> 0 then ret (- 1) else ret 0))"

definition pd_clearInterruptQueue :: "'k kern \<Rightarrow> pd_device_t option \<Rightarrow> u32 \<Rightarrow> ('k proc, int) prog" where
  "pd_clearInterruptQueue K pci_handle int_id =
     (case pci_handle of
        None \<Rightarrow> ret (- 1)
      | Some h \<Rightarrow> bnd (ioctl K (pd_handle h) PCIDRIVER_IOC_CLEAR_IOQ (ucast int_id)) (\<lambda>r. if r \<noteq> 0 then ret (- 1) else ret 0))"

text \<open>\<^verbatim>\<open>||\<close> where \<^verbatim>\<open>|\<close> was meant.\<close>

definition pd_getID :: "'k kern \<Rightarrow> libc \<Rightarrow> pd_device_t option \<Rightarrow> ('k proc, int) prog" where
  "pd_getID K C pci_handle =
     (case pci_handle of
        None \<Rightarrow> ret (- 1)
      | Some h \<Rightarrow>
          bnd (ioctl K (pd_handle h) PCIDRIVER_IOC_PCI_INFO (l_stack C)) (\<lambda>r.
          if r \<noteq> 0 then ret (- 1)
          else bnd (peek (\<lambda>u. u_info u (l_stack C))) (\<lambda>i.
            ret (if push_bit 16 (ucast (info_vendor_id i) :: u32) \<noteq> 0 \<or> info_device_id i \<noteq> 0 then 1 else 0))))"

definition pd_getBARsize :: "'k kern \<Rightarrow> libc \<Rightarrow> pd_device_t option \<Rightarrow> u32 \<Rightarrow> ('k proc, int) prog" where
  "pd_getBARsize K C pci_handle bar =
     (case pci_handle of
        None \<Rightarrow> ret (- 1)
      | Some h \<Rightarrow>
          if bar > 5 then ret (- 1)
          else bnd (ioctl K (pd_handle h) PCIDRIVER_IOC_PCI_INFO (l_stack C)) (\<lambda>r.
            if r \<noteq> 0 then ret (- 1)
            else bnd (peek (\<lambda>u. u_info u (l_stack C))) (\<lambda>i.
              ret (sint (ucast (bar_length i ! unat bar) :: u32)))))"

text \<open>The mutex stays locked when one of the two commands fails.\<close>

definition pd_mapBAR :: "'k kern \<Rightarrow> libc \<Rightarrow> pd_device_t option \<Rightarrow> u32 \<Rightarrow> ('k proc, u64) prog" where
  "pd_mapBAR K C pci_handle bar =
     (case pci_handle of
        None \<Rightarrow> ret 0
      | Some h \<Rightarrow>
          if bar > 5 then ret 0
          else bnd (ioctl K (pd_handle h) PCIDRIVER_IOC_PCI_INFO (l_stack C)) (\<lambda>r.
            if r \<noteq> 0 then ret 0
            else bnd (peek (\<lambda>u. u_info u (l_stack C))) (\<lambda>i.
              thn mutex_lock
             (bnd (ioctl K (pd_handle h) PCIDRIVER_IOC_MMAP_MODE PCIDRIVER_MMAP_PCI) (\<lambda>r.
              if r \<noteq> 0 then ret 0
              else bnd (ioctl K (pd_handle h) PCIDRIVER_IOC_MMAP_AREA (PCIDRIVER_BAR0 + ucast bar)) (\<lambda>r.
                if r \<noteq> 0 then ret 0
                else bnd (mmap K C (pd_handle h) (bar_length i ! unat bar)) (\<lambda>mem.
                  thn mutex_unlock
                 (if mem = MAP_FAILED \<or> mem = 0 then ret 0
                  else with_pagemask (\<lambda>m.
                    let offset = ucast (bar_start i ! unat bar AND scast m) :: u32 in ret (mem + ucast offset)))))))))) "

definition pd_unmapBAR :: "'k kern \<Rightarrow> libc \<Rightarrow> pd_device_t option \<Rightarrow> u32 \<Rightarrow> u64 \<Rightarrow> ('k proc, int) prog" where
  "pd_unmapBAR K C pci_handle bar ptr =
     (case pci_handle of
        None \<Rightarrow> ret (- 1)
      | Some h \<Rightarrow>
          if bar > 5 then ret (- 1)
          else bnd (ioctl K (pd_handle h) PCIDRIVER_IOC_PCI_INFO (l_stack C)) (\<lambda>r.
            if r \<noteq> 0 then ret (- 1)
            else bnd (peek (\<lambda>u. u_info u (l_stack C))) (\<lambda>i.
              with_pagemask (\<lambda>m.
                let offset = ucast (bar_start i ! unat bar AND scast m) :: u32 in
                thn (munmap (ptr - ucast offset) (bar_length i ! unat bar)) (ret 0)))))"

text \<open>
  Config space: the result of the command is ignored, so that the value read is the one the local
  structure had before when it fails. \<open>sz\<close> is the size code and \<open>n\<close> the number of bytes.
\<close>

definition pd_readConfig :: "'k kern \<Rightarrow> libc \<Rightarrow> int \<Rightarrow> nat \<Rightarrow> pd_device_t option \<Rightarrow> u32 \<Rightarrow> ('k proc, u32) prog" where
  "pd_readConfig K C sz n pci_handle a =
     (case pci_handle of
        None \<Rightarrow> ret (mask (8 * n))
      | Some h \<Rightarrow>
          thn (poke (\<lambda>u. u\<lparr>u_cfg := (u_cfg u)(l_stack C := (u_cfg u (l_stack C))\<lparr>cfg_addr := a, cfg_size := sz\<rparr>)\<rparr>))
         (thn (ioctl K (pd_handle h) PCIDRIVER_IOC_PCI_CFG_RD (l_stack C))
              (peek (\<lambda>u. cfg_val (u_cfg u (l_stack C)) AND mask (8 * n)))))"

definition pd_writeConfig :: "'k kern \<Rightarrow> libc \<Rightarrow> int \<Rightarrow> nat \<Rightarrow> pd_device_t option \<Rightarrow> u32 \<Rightarrow> u32 \<Rightarrow> ('k proc, int) prog" where
  "pd_writeConfig K C sz n pci_handle a v =
     (case pci_handle of
        None \<Rightarrow> ret (- 1)
      | Some h \<Rightarrow>
          thn (poke (\<lambda>u. u\<lparr>u_cfg := (u_cfg u)(l_stack C := (u_cfg u (l_stack C))\<lparr>cfg_addr := a, cfg_size := sz,
                 cfg_val := (cfg_val (u_cfg u (l_stack C)) AND NOT (mask (8 * n))) OR (v AND mask (8 * n))\<rparr>)\<rparr>))
         (thn (ioctl K (pd_handle h) PCIDRIVER_IOC_PCI_CFG_WR (l_stack C)) (ret 0)))"

definition pd_readConfigByte :: "'k kern \<Rightarrow> libc \<Rightarrow> pd_device_t option \<Rightarrow> u32 \<Rightarrow> ('k proc, u32) prog" where
  "pd_readConfigByte K C = pd_readConfig K C PCIDRIVER_PCI_CFG_SZ_BYTE 1"

definition pd_readConfigWord :: "'k kern \<Rightarrow> libc \<Rightarrow> pd_device_t option \<Rightarrow> u32 \<Rightarrow> ('k proc, u32) prog" where
  "pd_readConfigWord K C = pd_readConfig K C PCIDRIVER_PCI_CFG_SZ_WORD 2"

definition pd_readConfigDWord :: "'k kern \<Rightarrow> libc \<Rightarrow> pd_device_t option \<Rightarrow> u32 \<Rightarrow> ('k proc, u32) prog" where
  "pd_readConfigDWord K C = pd_readConfig K C PCIDRIVER_PCI_CFG_SZ_DWORD 4"

definition pd_writeConfigByte :: "'k kern \<Rightarrow> libc \<Rightarrow> pd_device_t option \<Rightarrow> u32 \<Rightarrow> u32 \<Rightarrow> ('k proc, int) prog" where
  "pd_writeConfigByte K C = pd_writeConfig K C PCIDRIVER_PCI_CFG_SZ_BYTE 1"

definition pd_writeConfigWord :: "'k kern \<Rightarrow> libc \<Rightarrow> pd_device_t option \<Rightarrow> u32 \<Rightarrow> u32 \<Rightarrow> ('k proc, int) prog" where
  "pd_writeConfigWord K C = pd_writeConfig K C PCIDRIVER_PCI_CFG_SZ_WORD 2"

definition pd_writeConfigDWord :: "'k kern \<Rightarrow> libc \<Rightarrow> pd_device_t option \<Rightarrow> u32 \<Rightarrow> u32 \<Rightarrow> ('k proc, int) prog" where
  "pd_writeConfigDWord K C = pd_writeConfig K C PCIDRIVER_PCI_CFG_SZ_DWORD 4"



section \<open>Facts\<close>

lemma wp_lift: "wp (lift p) Q w = wp p (\<lambda>a s. Q a (w\<lparr>drv := s\<rparr>)) (drv w)"
  unfolding lift_def wp_zoom ..

lemma wp_ioctl:
  "wp (ioctl K pd cmd arg) Q w = wp (pcidriver_ioctl K pd cmd arg) (\<lambda>r s. Q (if r < 0 then - 1 else r) (w\<lparr>drv := s\<rparr>)) (drv w)"
  unfolding ioctl_def wp_simps wp_lift ..

lemma wp_poke: "wp (poke f) Q w = Q () (w\<lparr>drv := (drv w)\<lparr>user := f (user (drv w))\<rparr>\<rparr>)"
  unfolding poke_def wp_simps ..

lemma wp_peek: "wp (peek f) Q w = Q (f (user (drv w))) w"
  unfolding peek_def wp_simps ..

lemma wp_posix_memalign: "(\<And>a v. drv v = drv w \<Longrightarrow> Q a v) \<Longrightarrow> wp (posix_memalign C n) Q w"
  by (simp add: posix_memalign_def wp_simps)

lemma wp_free: "(\<And>v. drv v = drv w \<Longrightarrow> Q () v) \<Longrightarrow> wp (free a) Q w"
  by (simp add: free_def wp_simps)

lemma pagemask_val: "pd_getpagemask = Some 4095"
  by (simp add: pd_getpagemask_def pd_getpagesize_def pagemask_loop.simps drop_bit_Suc push_bit_Suc)

text \<open>The identity the library gives of a device is 1, 0, or -1.\<close>

lemma getID_bool: "wp (pd_getID K C h) Q w \<Longrightarrow> wp (pd_getID K C h) (\<lambda>r t. r \<in> {- 1, 0, 1} \<and> Q r t) w"
  unfolding pd_getID_def
  by (auto simp: wp_simps wp_ioctl wp_peek elim!: wp_mono split: option.splits if_splits)

lemma ioctl_sgmap: "pcidriver_ioctl K pd PCIDRIVER_IOC_UMEM_SGMAP arg = ioctl_umem_sgmap K pd arg"
  and ioctl_sgget: "pcidriver_ioctl K pd PCIDRIVER_IOC_UMEM_SGGET arg = ioctl_umem_sgget K pd arg"
proof -
  have "PCIDRIVER_IOC_UMEM_SGMAP \<notin> {PCIDRIVER_IOC_MMAP_MODE, PCIDRIVER_IOC_MMAP_AREA, PCIDRIVER_IOC_PCI_CFG_RD,
     PCIDRIVER_IOC_PCI_CFG_WR, PCIDRIVER_IOC_PCI_INFO, PCIDRIVER_IOC_KMEM_ALLOC, PCIDRIVER_IOC_KMEM_FREE, PCIDRIVER_IOC_KMEM_SYNC}"
    by code_simp
  then show "pcidriver_ioctl K pd PCIDRIVER_IOC_UMEM_SGMAP arg = ioctl_umem_sgmap K pd arg"
    by (simp add: pcidriver_ioctl_def)
  have "PCIDRIVER_IOC_UMEM_SGGET \<notin> {PCIDRIVER_IOC_MMAP_MODE, PCIDRIVER_IOC_MMAP_AREA, PCIDRIVER_IOC_PCI_CFG_RD,
     PCIDRIVER_IOC_PCI_CFG_WR, PCIDRIVER_IOC_PCI_INFO, PCIDRIVER_IOC_KMEM_ALLOC, PCIDRIVER_IOC_KMEM_FREE, PCIDRIVER_IOC_KMEM_SYNC,
     PCIDRIVER_IOC_UMEM_SGMAP, PCIDRIVER_IOC_UMEM_SGUNMAP}"
    by code_simp
  then show "pcidriver_ioctl K pd PCIDRIVER_IOC_UMEM_SGGET arg = ioctl_umem_sgget K pd arg"
    by (simp add: pcidriver_ioctl_def)
qed

text \<open>The invariant of a device, whatever is held besides its lists.\<close>

definition dev_good :: "u64 \<Rightarrow> 'k sys \<Rightarrow> bool" where
  "dev_good pd s \<longleftrightarrow> (\<exists>B. dev_inv B pd s)"

lemma dev_goodI [intro]: "dev_inv B pd s \<Longrightarrow> dev_good pd s"
  by (auto simp: dev_good_def)

lemma dev_good_user: "dev_good pd s \<Longrightarrow> dev_good pd (s\<lparr>user := u\<rparr>)"
  unfolding dev_good_def by (blast intro: dev_inv_user)

lemma wp_inv_ioctl:
  assumes "vmalloc_sane K" and "map_sg_sane K" and "dev_good pd s" and "cmd \<noteq> PCIDRIVER_IOC_WAITI"
    and "\<And>r t. Q r t"
  shows "wp (pcidriver_ioctl K pd cmd arg) Q s"
proof -
  obtain B where B: "dev_inv B pd s" using assms(3) by (auto simp: dev_good_def)
  have "leaky B pd (Ioctl cmd arg) (serve K pd (Ioctl cmd arg)) s"
    using assms(4) by (intro serve_leaky[OF assms(1,2) _ _ B]) (auto simp: waits_def)
  then show ?thesis unfolding leaky_def serve.simps by (rule wp_mono) (rule assms(5))
qed

lemma find_last: "(\<And>x. x \<in> set xs \<Longrightarrow> \<not> P x) \<Longrightarrow> P y \<Longrightarrow> find P (xs @ [y]) = Some y"
  by (induction xs) auto

text \<open>A table that is too small for the mapping is refused on every path.\<close>

lemma sgget_too_small:
  assumes s: "dev_good pd s" and vm: "vmalloc_sane K"
    and e: "find (\<lambda>e. ue_id e = sgl_id (u_sglist (user s) arg)) (umem_list (privs s pd)) = Some e"
    and lt: "sgl_nents (u_sglist (user s) arg) < ue_nents e"
  shows "wp (ioctl_umem_sgget K pd arg) (\<lambda>r t. r < 0 \<and> dev_good pd t) s"
proof (rule wp_conj)
  obtain B where B: "dev_inv B pd s" using s by (auto simp: dev_good_def)
  show "wp (ioctl_umem_sgget K pd arg) (\<lambda>_. dev_good pd) s"
    by (rule wp_inv_ioctl_sgget[OF vm B]) auto
  let ?l = "u_sglist (user s) arg"
  have get: "wp (pcidriver_umem_sgget pd ?l out) Q t"
    if "same s t" "Q (- EINVAL, out, sgl_nents ?l) t" for t out and Q
    using that e lt unfolding pcidriver_umem_sgget_def pcidriver_umem_find_entry_id_def wp_simps
    by (simp add: same_def wp_simps)
  show "wp (ioctl_umem_sgget K pd arg) (\<lambda>r _. r < 0) s"
    unfolding ioctl_umem_sgget_def READ_FROM_USER_def wp_simps
    apply (cases "k_access K arg sizeof_umem_sglist (kst s)")
    subgoal
      apply (simp add: wp_simps)
      apply (rule wp_inv_vmalloc[OF B])
      subgoal for p t
        by (auto simp: wp_simps EFAULT_def EINVAL_def intro!: get split: option.split)
      subgoal for t by (simp add: wp_simps ENOMEM_def)
      done
    subgoal by (simp add: wp_simps EFAULT_def)
    done
qed


section \<open>Correctness\<close>

text \<open>A kernel that maps a table entry by entry, as one without an IOMMU does.\<close>

definition maps_entries :: "'k kern \<Rightarrow> bool" where
  "maps_entries K \<longleftrightarrow> (\<forall>sg k. length sg < 2 ^ 32 \<longrightarrow> fst (fst (k_map_sg K sg k)) = of_nat (length sg))"

definition buffer_pages :: "u64 \<Rightarrow> u32 \<Rightarrow> nat" where
  "buffer_pages mem n = (unat mem mod 4096 + unat n + 4095) div 4096"

lemma buffer_pages_bound: "unat mem mod 4096 + unat (ucast (n :: u32) :: u64) + 4095 < 2 ^ 43"
proof -
  have "unat n < 2 ^ 32" using unsigned_less[of n] by simp
  moreover have "unat mem mod 4096 < 4096" by simp
  ultimately show ?thesis by (simp add: unat_ucast_u32)
qed

lemma sgl_entries_unat: "unat (sgl_entries n) = unat n div 4096 + 1"
proof -
  have "unat n < 2 ^ 32" using unsigned_less[of n] by simp
  then have "unat n div 4096 < 2 ^ 20" by (simp add: less_mult_imp_div_less)
  then show ?thesis by (simp add: sgl_entries_def pd_getpagesize_def unat_add_lt unat_div)
qed

lemma sgmap_entries:
  fixes s :: "'k sys"
  assumes s: "dev_good pd s" and K: "vmalloc_sane K" "map_sg_sane K" "maps_entries K"
    and h: "uh_vma h = mem" "uh_size h = ucast n"
  shows "wp (pcidriver_umem_sgmap K pd h) (\<lambda>(r, h') t. dev_good pd t \<and> user t = user s \<and>
     (r = 0 \<longrightarrow> (\<exists>e. umem_list (privs t pd) = umem_list (privs s pd) @ [e] \<and> ue_id e = umem_count (privs s pd) \<and>
        uh_id h' = ue_id e \<and> unat (ue_nents e) = buffer_pages mem n))) s"
proof -
  have m: "unat x = buffer_pages mem n"
    if "1 + int (length qs) = sint (sgmap_nr_pages mem (ucast n))" and x: "fst (k_map_sg K (sg_table mem (ucast n) q qs) k) = (x, y)"
    for q qs k x y
  proof -
    have b: "unat mem mod 4096 + unat (ucast n :: u64) + 4095 < 2 ^ 43" by (rule buffer_pages_bound)
    have len: "length (q # qs) = buffer_pages mem n"
      using that(1) sgmap_nr_pages_exact[OF b] by (simp add: buffer_pages_def unat_ucast_u32)
    have lt: "buffer_pages mem n < 2 ^ 32" using b by (simp add: buffer_pages_def unat_ucast_u32)
    have rest: "length (sg_rest l ps) = length ps" for l ps by (induction ps arbitrary: l) (simp_all add: Let_def)
    have t: "length (sg_table mem (ucast n) q qs) = buffer_pages mem n"
      using len rest by (simp add: sg_table_def Let_def)
    have "fst (fst (k_map_sg K (sg_table mem (ucast n) q qs) k)) = of_nat (buffer_pages mem n)"
      using K(3) lt t by (simp add: maps_entries_def)
    then show ?thesis using lt unfolding x by (simp add: unat_of_nat_small)
  qed
  obtain B where B: "dev_inv B pd s" using s by (auto simp: dev_good_def)
  then have L: "holds s (kmem_all (privs s pd) + (umem_all (privs s pd) + B))" by (elim dev_invE)
  have a: "wp (pcidriver_umem_sgmap K pd h) (\<lambda>(r, h') t. user t = user s \<and>
     (r = 0 \<longrightarrow> (\<exists>e. umem_list (privs t pd) = umem_list (privs s pd) @ [e] \<and> ue_id e = umem_count (privs s pd) \<and>
        uh_id h' = ue_id e \<and> unat (ue_nents e) = buffer_pages mem n))) s"
    by (rule wp_umem_sgmap[OF L K(1)]) (auto simp: same_def h EINVAL_def ENOMEM_def intro: m)
  have b: "wp (pcidriver_umem_sgmap K pd h) (\<lambda>_. dev_good pd) s"
    by (rule wp_inv_sgmap[OF K(1,2) B]) auto
  show ?thesis by (rule wp_mono[OF wp_conj[OF a b]]) auto
qed

lemma map_sglist_fails:
  fixes v :: "'k proc"
  assumes v: "dev_good pd (drv v)" and K: "vmalloc_sane K" "map_sg_sane K"
    and e: "find (\<lambda>x. ue_id x = i) (umem_list (privs (drv v) pd)) = Some e" and lt: "sgl_entries n < ue_nents e"
  shows "wp (map_sglist K C pd n i um) (\<lambda>(r, _) _. r = - 1) v"
proof -
  have unmap: "wp (pcidriver_ioctl K pd PCIDRIVER_IOC_UMEM_SGUNMAP a) (\<lambda>r s. wp (free p) (\<lambda>_ _. True) (u\<lparr>drv := s\<rparr>)) t"
    if "dev_good pd t" for t a p and u :: "'k proc"
  proof -
    have "PCIDRIVER_IOC_UMEM_SGUNMAP \<noteq> PCIDRIVER_IOC_WAITI" by code_simp
    from wp_inv_ioctl[OF K that this] show ?thesis by (simp add: wp_free)
  qed
  show ?thesis
    unfolding map_sglist_def Let_def wp_simps
    by (rule wp_posix_memalign)
       (auto simp: wp_poke wp_ioctl ioctl_sgget e lt dev_good_user[OF v]
          intro!: wp_mono[OF sgget_too_small[where e = e, OF _ K(1)]] unmap)
qed

text \<open>
  C39 (error). A buffer that takes more pages than the library makes room for, because it does not start
  at the beginning of a page, cannot be mapped when the kernel maps page by page: the library returns -1
  whatever the driver and the kernel answer.
\<close>

theorem map_unaligned_fails:
  assumes "dev_inv B (pd_handle h) (drv w)" and "vmalloc_sane K" and "map_sg_sane K" and "maps_entries K"
    and "buffer_pages mem n > unat n div 4096 + 1"
    and "\<forall>e \<in> set (umem_list (privs (drv w) (pd_handle h))). ue_id e \<noteq> umem_count (privs (drv w) (pd_handle h))"
  shows "wp (pd_mapUserMemory K C (Some h) mem n um) (\<lambda>(r, _) _. r = - 1) w"
proof -
  let ?pd = "pd_handle h" and ?st = "l_stack C"
  let ?w = "w\<lparr>drv := (drv w)\<lparr>user := (user (drv w))\<lparr>u_umem := (u_umem (user (drv w)))(?st :=
     (u_umem (user (drv w)) ?st)\<lparr>uh_vma := mem, uh_size := ucast n\<rparr>)\<rparr>\<rparr>\<rparr>"
  have tail: "wp (map_sglist K C ?pd n i um1) (\<lambda>(r, _) _. r = - 1) v"
    if "dev_good ?pd (drv v)" and l: "umem_list (privs (drv v) ?pd) = umem_list (privs (drv w) ?pd) @ [e]"
      and e: "ue_id e = umem_count (privs (drv w) ?pd)" "i = ue_id e" "unat (ue_nents e) = buffer_pages mem n" for v e i um1
  proof (rule map_sglist_fails[OF that(1) assms(2,3)])
    show "find (\<lambda>x. ue_id x = i) (umem_list (privs (drv v) ?pd)) = Some e"
      unfolding l using assms(6) e(1,2) by (intro find_last) auto
    show "sgl_entries n < ue_nents e" using assms(5) e(3) by (simp add: word_less_nat_alt sgl_entries_unat)
  qed
  have map: "wp (ioctl_umem_sgmap K ?pd ?st) (\<lambda>r t. wp (if (if r < 0 then - 1 else r) \<noteq> 0 then ret (- 1, um)
      else bnd (peek (\<lambda>u. uh_id (u_umem u ?st))) (\<lambda>i. map_sglist K C ?pd n i (um\<lparr>um_pci_handle := h, um_handle_id := i\<rparr>)))
      (\<lambda>(r, _) _. r = - 1) (?w\<lparr>drv := t\<rparr>)) (drv ?w)"
    unfolding ioctl_umem_sgmap_def READ_FROM_USER_def WRITE_TO_USER_def wp_simps
    apply (cases "k_access K ?st sizeof_umem_handle (kst (drv ?w))")
    subgoal
      apply (simp add: wp_bnd)
      apply (rule wp_mono[OF sgmap_entries[where mem = mem and n = n, OF _ assms(2-4)]])
      subgoal using dev_good_user[OF dev_goodI[OF assms(1)]] by simp
      subgoal by simp
      subgoal by simp
      subgoal for rh t
        by (cases rh) (auto simp: wp_simps wp_peek EFAULT_def intro!: tail dev_good_user)
      done
    subgoal by (simp add: wp_simps EFAULT_def)
    done
  show ?thesis
    unfolding pd_mapUserMemory_def option.case Let_def wp_thn wp_bnd wp_poke wp_ioctl ioctl_sgmap
    using map by (simp add: wp_bnd)
qed

text \<open>A process with the device at 7 open.\<close>

definition libc0 :: libc where
  "libc0 = \<lparr>l_stack = 0, l_memalign = \<lambda>n hp. 65536, l_place = \<lambda>n as. 1048576, l_open = \<lambda>name. Some 7\<rparr>"

definition proc0 :: "u64 proc" where
  "proc0 = \<lparr>drv = sys0, mmap_mutex = False, heap = [], areas = []\<rparr>"

definition dev0 :: pd_device_t where
  "dev0 = \<lparr>pd_handle = 7, pd_device = 0, pd_name = ''/dev/fpga0''\<rparr>"

definition umem0 :: pd_umem_t where
  "umem0 = \<lparr>um_vma = 0, um_size = 0, um_handle_id = 0, um_nents = 0, um_sg = 0, um_pci_handle = dev0\<rparr>"

theorem map_unaligned_fails_witness:
  "dev_inv {#} (pd_handle dev0) (drv proc0) \<and> vmalloc_sane kern0 \<and> map_sg_sane kern0 \<and> maps_entries kern0 \<and>
   buffer_pages 4092 8 > unat (8 :: u32) div 4096 + 1 \<and>
   wp (pd_mapUserMemory kern0 libc0 (Some dev0) 4092 8 umem0) (\<lambda>(r, _) _. r = - 1) proc0"
proof -
  have h: "dev_inv {#} (pd_handle dev0) (drv proc0)" "maps_entries kern0"
    "buffer_pages 4092 8 > unat (8 :: u32) div 4096 + 1"
    "\<forall>e \<in> set (umem_list (privs (drv proc0) (pd_handle dev0))). ue_id e \<noteq> umem_count (privs (drv proc0) (pd_handle dev0))"
    using dev_inv_sys0 by (simp_all add: dev0_def proc0_def maps_entries_def kern0_def buffer_pages_def sys0_def priv0_def)
  show ?thesis
    using h vmalloc_sane_kern0 map_sg_sane_kern0
      map_unaligned_fails[OF h(1) vmalloc_sane_kern0 map_sg_sane_kern0 h(2-4), where C = libc0 and um = umem0] by blast
qed

end
