(* ===== verification/Spec2Isabelle.thy ===== *)
theory Spec2Isabelle
  imports Onewire I2c Console Receive Dbe_Lwip Lwip_Chksum Newlib Ramtools Pcie_Lib
begin

text \<open>
  Verification of the C code around the BPM gateware. The first part is the embedded firmware,
  \<^verbatim>\<open>src/history/embedded-sw\<close>: the program the LM32 soft processor of the DBE board runs, in the configuration
  the \<^verbatim>\<open>Makefile\<close> builds (ML605 board, full formatter, no lwIP, debug messages from level INFO on). The second
  is the host side, \<^verbatim>\<open>src/history/sw\<close>: the Linux driver of the PCIe cards and the C library over it. Between them
  are the tools that turn the linked firmware into memory contents (\<^verbatim>\<open>embedded-sw/tools\<close>).

  \<^bold>\<open>The firmware.\<close> \<^verbatim>\<open>main\<close> (\<^verbatim>\<open>dbe_main.c\<close>) sets up a memory pool (\<^verbatim>\<open>lib/memmgr\<close>), finds the devices of the
  gateware in the self-describing bus table (\<^verbatim>\<open>dev/sdb.c\<close>), builds a table of base addresses per kind of
  device on the pool (the \<^verbatim>\<open>init\<close> routine of each driver in \<^verbatim>\<open>dev/\<close>), runs some board tests, registers interrupt
  handlers (\<^verbatim>\<open>lib/int.c\<close>), starts the Ethernet MAC (\<^verbatim>\<open>lib/ethmac/ethmac_nolwip.c\<close>) and then answers ARP and echo
  requests for ever: the interrupt handler of the MAC hands a received frame to \<^verbatim>\<open>user_recv\<close>, which notes
  the request in global variables, and the main loop sends the reply (\<^verbatim>\<open>lib/arp.c\<close>, \<^verbatim>\<open>lib/icmp.c\<close>). All messages
  go through \<^verbatim>\<open>pp_printf\<close> to the UART.

  \<^bold>\<open>The host side.\<close> The driver (\<^verbatim>\<open>drivers/pcie/src\<close>) keeps two lists per device: buffers in kernel memory for DMA
  (\<^verbatim>\<open>kmem.c\<close>) and buffers of user space mapped page by page for the device (\<^verbatim>\<open>umem.c\<close>). Processes reach them through
  \<^verbatim>\<open>ioctl\<close> (\<^verbatim>\<open>ioctl.c\<close>), \<^verbatim>\<open>mmap\<close> (\<^verbatim>\<open>base.c\<close>) and files in sysfs (\<^verbatim>\<open>sysfs.c\<close>); devices come and go through the probe and
  remove routines (\<^verbatim>\<open>base.c\<close>, \<^verbatim>\<open>int.c\<close>). The library (\<^verbatim>\<open>lib/pcie/pciDriver_Capi.c\<close>) wraps the commands in functions.

  \<^bold>\<open>Theories and what they model.\<close>

  \<^item> \<open>Prelude\<close>: machine integers, collections of rewrite rules, shared lemmas. \<open>Blocks\<close>: address ranges cut
    into blocks.
  \<^item> \<open>Memmgr\<close> is \<^verbatim>\<open>memmgr.c\<close>: the record \<open>memmgr\<close> holds the free pointer, the position in the pool and the
    headers as two maps over addresses; \<open>memmgr_alloc\<close>, \<open>memmgr_free\<close>, \<open>get_mem_from_pool\<close> and
    \<open>memmgr_print_stats\<close> are the routines. \<open>Memmgr_Inv\<close> has the invariant (the free list is a ring in address
    order of disjoint blocks, no two of them adjacent), \<open>Memmgr_Correct\<close> the contract: the locale
    \<open>allocator\<close>, interpreted on the routines.
  \<^item> \<open>Prog\<close>: programs over a state (\<open>prog\<close>: no result for one that never returns, \<open>fault\<close> for a null
    or stale pointer or a store past an array), loops that wait, properties that a program keeps, and total correctness
    (\<open>wp\<close>: the program returns without a fault, and the postcondition holds).
  \<^item> \<open>Machine\<close>: the record \<open>mach\<close> of all global variables and control registers,
    and the bus. The gateware is a parameter, the record \<open>plat\<close> of its answers to reads and writes; each
    access is appended to \<open>trace\<close>, each message to \<open>console\<close>.
  \<^item> \<open>Sdb\<close>, \<open>Sdb_Correct\<close>: \<^verbatim>\<open>dev/sdb.c\<close>, the search through the big-endian tables and the linked lists of
    devices.
  \<^item> \<open>Devices\<close>, \<open>Devices_Correct\<close>: the GPIO, DMA, timer, UART and Etherbone adapter drivers; the locale
    \<open>driver\<close> has their shared initialisation, interpreted for each. \<open>Spi\<close>, \<open>I2c\<close>, \<open>Onewire\<close>: \<^verbatim>\<open>dev/spi.c\<close>, \<^verbatim>\<open>dev/i2c.c\<close>,
    \<^verbatim>\<open>dev/onewire.c\<close>.
  \<^item> \<open>Printf\<close>, \<open>Printf_Correct\<close>: the four formatters of \<^verbatim>\<open>pp_printf/\<close>. \<open>Console\<close>: \<^verbatim>\<open>printf.c\<close> over any of them (locale
    \<open>formatter\<close>), printing through the UART driver.
  \<^item> \<open>Ethmac\<close>, \<open>Ethmac_Correct\<close>: the MAC driver: descriptors, setup, MII access, transmission, the interrupt
    handler. \<open>Talks\<close>: a small logic for programs that only use the bus and the console (locale \<open>talker\<close>).
  \<^item> \<open>Ethmac_Lwip\<close>: the other Ethernet driver, \<^verbatim>\<open>lib/ethmac/ethmac.c\<close>, and the interface between it and lwIP
    (\<^verbatim>\<open>contrib/ports/ethmac10100-drv\<close>), which a build with \<^verbatim>\<open>CONFIG_LWIP=y\<close> uses instead of \<open>Ethmac\<close>.
  \<^item> \<open>Lwip_Memp\<close>, \<open>Lwip_Timers\<close>: the memory pools and the timers of lwIP (\<^verbatim>\<open>lib/lwip/src/core/memp.c\<close>, \<^verbatim>\<open>timers.c\<close>), the
    first as the locale \<open>element_pool\<close>, which the second uses for its timeouts. \<open>Dbe_Lwip\<close>: the application of that build, \<^verbatim>\<open>dbe_lwip.c\<close>,
    with \<^verbatim>\<open>lwip_init\<close> and the operations of \<^verbatim>\<open>netif.c\<close> it calls, over the drivers, the pools and the timers.
    \<open>Lwip_Chksum\<close>: the checksums of lwIP (\<^verbatim>\<open>inet_chksum.c\<close>), over the sums with end-around carry of \<open>Ones_Sum\<close>, which
    \<open>Net_Correct\<close> uses too. \<open>Newlib\<close>: the system calls for the C library (\<^verbatim>\<open>lib/minimal_newlibc.c\<close>).
  \<^item> \<open>Intr\<close>: the handler table and the dispatch of interrupts (\<^verbatim>\<open>lib/int.c\<close>, \<^verbatim>\<open>arch/lm32/irq.c\<close>).
  \<^item> \<open>Util\<close>: dates, \<^verbatim>\<open>memcpy\<close> and \<^verbatim>\<open>memcmp\<close> (\<^verbatim>\<open>lib/util.c\<close>). \<open>Net\<close>, \<open>Net_Correct\<close>: the packet layout, the checksum and
    the two replies.
  \<^item> \<open>Fmc516\<close>, \<open>Fmc150\<close>: the two ADC boards with the chips behind their SPI interfaces.
  \<^item> \<open>Dbe_Main\<close>: \<^verbatim>\<open>dbe_main.c\<close>; one pass of the endless loop of \<^verbatim>\<open>main\<close> is \<open>main_pass\<close>. \<open>Dbe_Correct\<close>: its behaviour. \<open>Receive\<close>: the interrupt, the MAC driver and
    the application together; the theorem that spans them is at the end of this theory.
  \<^item> \<open>Digits\<close>: numbers as text, for programs on the host. \<open>Ramtools\<close>: \<^verbatim>\<open>tools/genraminit.c\<close> and \<^verbatim>\<open>tools/genramvhd.c\<close>,
    from arguments and files to exit status and output.
  \<^item> \<open>Pcie_Kernel\<close>: the data of the PCIe driver (\<^verbatim>\<open>common.h\<close>, \<^verbatim>\<open>pciDriver.h\<close>) and the Linux kernel as a parameter, the record
    \<open>kern\<close> of its answers. Each call that acquires or releases something is an event; \<open>holds\<close> says which resources
    are held after the events so far, and that none was released without being held. The locale
    \<open>entry_list\<close> is the contract of a list of entries that stand for resources: releasing one entry, and from it
    releasing all of them.
  \<^item> \<open>Pcie_Kmem\<close>, \<open>Pcie_Umem\<close>: \<^verbatim>\<open>kmem.c\<close> and \<^verbatim>\<open>umem.c\<close>, each an interpretation of \<open>entry_list\<close>. \<open>Pcie_Ioctl\<close>: all requests a
    device serves, as the datatype \<open>request\<close> (the reading of sysfs files included), the relation \<open>serves\<close>, and \<open>handled\<close>, which also records the
    requests and their results. \<open>Pcie_Base\<close>: set-up and removal of
    devices and of the module. \<open>Pcie_Lib\<close>: the library, composed with the driver.

  \<^bold>\<open>What is shown.\<close> Memory manager: for requests whose size with the header does not wrap, allocation and
  release always return, live blocks stay disjoint, aligned and inside the pool, releasing all of them merges the free list
  into one block, a null result means the pool is exhausted. Device discovery: the search returns the first device in depth-first order, the
  lists hold exactly the devices of the tables (and which shape of tables makes the code lose some).
  Drivers: the exact sequence of bus accesses of a transfer, including the polls that wait for the core, and
  what the result says about it. Formatters: the decimal conversion with its multiplications is
  division by ten for all 32-bit numbers, the layout of a number is that of C99 but for four named cases, and signed decimals can be read back. MAC driver: packet buffers are apart, which frames reach the application, a packet is in place before its descriptor is handed over,
  and a transmission waits as long as the descriptor reads busy. Driver for
  lwIP: output sends the chain of a packet as one frame; which bytes input takes; its set-up cannot be completed without
  a memory error. lwIP itself: pools hand out each element to one user at a time; the list of
  timeouts, which stores differences, refines a list of absolute times; the check of the timers returns and loses none
  of them, but periodic timers drift; its three checksum routines compute the same sum, also over chains of buffers
  of any lengths and alignments. Network:
  the checksum verifies at the receiver; reception refines an abstract receiver, for one frame and for
  a whole interrupt, after which all descriptors are empty; ARP and echo
  requests are answered by well-formed replies, but an ARP request that arrives while one is answered is lost; some lengths make the firmware overrun a buffer, and a UDP
  packet stops it. Boards: read-back
  check of the clock chip, the delay fields. Tools: the table written can be read back, and is
  the image. PCIe driver: through any sequence of requests it holds
  exactly what its lists stand for and what each failed request has lost; requests return, except the
  wait for an interrupt, which never does, and the reading of a file that a failed allocation left behind, which faults; a mapped user buffer is covered byte by byte by its table, and the
  table handed out stands for the same bus addresses; how set-up fails, what removal forgets; which
  buffers the library cannot map.

  \<^bold>\<open>Choices.\<close> Addresses of the pool are natural numbers below 2^32, register addresses and values are 32-bit
  words; \<^verbatim>\<open>char\<close> is unsigned, as the LM32 ABI has it; lengths and widths of type \<^verbatim>\<open>int\<close> are unbounded integers where
  they cannot overflow. Loops over data are structural recursions; those over linked lists and the busy waits
  are partial functions, whose result \<open>None\<close> means that they do not return, and theorems about them state
  that they do: a wait for a flag that the core clears returns under the hypothesis \<open>settles\<close> that polling it from any state of
  the gateware eventually finds it changed, which the witnesses discharge for a concrete gateware. The flag of a transmit
  descriptor is cleared by the driver itself, in the interrupt; there the hypothesis \<open>bd_free\<close> is that it reads clear.
  No definition needs fuel: the search through the device tables is a partial function too, shown to return on
  every table that is a finite tree. Uninitialised variables and the former contents of the stack are parameters (\<open>junk\<close>, \<open>stk\<close>).
  An interrupt is served to its end with interrupts disabled, as the LM32 enters its handler; theorems in which interrupts
  matter say where they come. A program stops at its first memory error (a null pointer, a store past a block or an array, the use
  of released memory), which C leaves undefined: theorems say that such an error happens, not what the processor does after it.
  The lwIP build is the one of \<^verbatim>\<open>lwipopts.h\<close>: no operating system, TCP and ARP, no statistics. Its debugging messages are left
  out; a failed assertion does not return, as \<^verbatim>\<open>_exit\<close> does not. The layout of its structures and what the modelled parts call of TCP, ARP, the
  packet buffers and the heap are parameters (the records \<open>stack\<close>, \<open>services\<close>, \<open>lwip\<close>).
  The host is a 64-bit little-endian machine with a kernel from 2.6.36 on. Calls of the driver are atomic, so
  that its locks are left out, and so are its messages in the kernel log. The kernel may answer anything a
  theorem does not exclude; the hypotheses are that \<^verbatim>\<open>vmalloc\<close> fails for 0 bytes and for
  more than the address space has (\<open>vmalloc_sane\<close>), that \<^verbatim>\<open>pci_map_sg\<close> uses no more entries than its table has
  (\<open>map_sg_sane\<close>) and, for the library, that it uses all of them (\<open>maps_entries\<close>); the sample kernel \<open>kern0\<close> of the witnesses satisfies them.

  \<^bold>\<open>Not modelled.\<close> The protocols of the lwIP stack with its packet buffers and heap (third-party code that the default build does not
  link), the stand-alone MAC test programs, \<^verbatim>\<open>mprintf.c\<close>, which does not fit the UART interface any more, and the coloured terminal output built on
  it, the Si57x oscillator (never called, a copy of \<^verbatim>\<open>lmk02000.c\<close>), the
  assembly start-up code; of the host side the C++ classes over the library, \<^verbatim>\<open>pd_close\<close>, which only
  makes system calls, and the branches for older kernels; the register headers generated for
  gateware the firmware does not use.
\<close>

section \<open>Reception from the interrupt to the network state\<close>

text \<open>
  C5 (refinement). An Ethernet interrupt for received frames refines the abstract receiver: it
  returns, the network state is that of the abstract receiver after all good frames that waited in the
  ring, in the order of their descriptors, and every descriptor is empty again. A good frame is one with none of the seven
  error flags that the driver tests; the others have no effect. This holds for frames the application can answer: none is a UDP packet,
  and the length of an echo request is between 24 and 1540. The Ethernet line is the only one that is pending, enabled and has a
  handler, there is no transmit event, and while the handler runs the core leaves the waiting descriptors and the buffers as they are.
\<close>

theorem receive_interrupt_refines:
  assumes "net_ok s" "handle s Ethmac \<noteq> 0" "ethmac_bd s \<noteq> 0"
    and "rx_core B (regs_of s) (rx_bd_of s) ev st adr"
    and "served s = [unat ETH0_IRQ]" "handlers s (unat ETH0_IRQ) = Some (Oeth_interrupt, 0)"
    and "ev (hw s) AND (OETH_INT_RXF OR OETH_INT_RXE OR OETH_INT_BUSY) \<noteq> 0"
    and "ev (hw s) AND (OETH_INT_TXB OR OETH_INT_TXE) = 0"
    and "list_all answerable (frames B st adr (hw s) [0..<8])"
  shows "\<exists>t. irq_entry (call_hnd B) s = Some (Inr ((), t)) \<and> net_ok t \<and>
    abs_net t = fold spec_recv (frames B st adr (hw s) [0..<8]) (abs_net s) \<and>
    list_all (\<lambda>i. st i (hw t) AND OETH_RX_BD_EMPTY \<noteq> 0) [0..<8]"
proof -
  let ?s = "s\<lparr>csr_ip := 0\<rparr>"
  have s: "net_ok ?s" "abs_net ?s = abs_net s" "regs_of ?s = regs_of s" "rx_bd_of ?s = rx_bd_of s"
    using assms(1) by (simp_all add: net_ok_def abs_net_def regs_of_def rx_bd_of_def)
  have run: "irq_entry (call_hnd B) s = thn (oeth_interrupt B (user_recv B)) (ret ()) ?s"
    unfolding irq_entry_served[OF call_hnd_keeps_handlers] assms(5)
    by (simp add: call_line_def assms(6) call_hnd_def)
  have "\<exists>t. oeth_interrupt B (user_recv B) ?s = Some (Inr ((), t)) \<and> net_ok t \<and>
      abs_net t = fold spec_recv (frames B st adr (hw ?s) [0..<8]) (abs_net ?s) \<and>
      list_all (\<lambda>i. st i (hw t) AND OETH_RX_BD_EMPTY \<noteq> 0) [0..<8]"
    by (rule rx_interrupt_spec) (use s assms in simp_all)
  then show ?thesis
    unfolding run s(2) by (auto simp: thn_def bnd_def)
qed

theorem receive_interrupt_refines_witness:
  "\<exists>t. irq_entry (call_hnd demo_core) demo_rx = Some (Inr ((), t)) \<and>
    abs_net t = (abs_net demo_rx)\<lparr>peer := ([1, 2, 3, 4, 5, 6], [10, 0, 18, 1]), arp_due := True, ping := Some [7, 8, 9]\<rparr>"
proof -
  have s: "hw demo_rx = demo_packets" "regs_of demo_rx = 0x100" "rx_bd_of demo_rx = 0x140" "net_ok demo_rx"
    "handle demo_rx Ethmac \<noteq> 0" "ethmac_bd demo_rx \<noteq> 0" "handlers demo_rx (unat ETH0_IRQ) = Some (Oeth_interrupt, 0)"
    "served demo_rx = [unat ETH0_IRQ]"
    by (simp_all add: demo_rx_def demo_eth_def regs_of_def rx_bd_of_def net_ok_def demo_table_def boot_def OETH_ID_def
        OETH_TXBD_NUM_def ETH0_IRQ_def served_def MAX_INT_HANDLERS_def upt_rec)
  have "list_all answerable (frames demo_core demo_st demo_adr demo_packets [0..<8])"
    by (simp add: demo_frames_two answerable_def demo_frame_kinds)
  moreover have "fst demo_packets 0x104 = OETH_INT_RXF" by (simp add: demo_packets_def)
  ultimately show ?thesis
    using receive_interrupt_refines[of demo_rx demo_core "\<lambda>h. fst h 0x104" demo_st demo_adr] demo_rx_core
    by (simp add: s demo_received OETH_INT_RXF_def OETH_INT_RXE_def OETH_INT_BUSY_def OETH_INT_TXB_def OETH_INT_TXE_def)
      blast
qed

end
